(* ===== verification/Prelude.thy ===== *)
theory Prelude
  imports Main "HOL-Library.Word" "HOL-Library.Multiset"
begin

text \<open>
  Shared vocabulary of the development: identifiers and instants as the Go code has them, the
  state-and-error monad in which the storage layer is written, a stable comparison sort (the
  library sorts of package \<^verbatim>\<open>slices\<close>), and the generic facts on lists, sums and selections
  that the component theories use.
\<close>

section \<open>Identifiers and instants\<close>

text \<open>
  A \<^verbatim>\<open>uuid.UUID\<close> is an array of sixteen bytes; \<^verbatim>\<open>bytes.Compare\<close> on two of them is the order of the
  128-bit number they spell, most significant byte first, and \<^verbatim>\<open>uuid.Nil\<close> is the zero array.
  A \<^verbatim>\<open>uuid.NullUUID\<close> read through its \<^verbatim>\<open>UUID\<close> field is \<^verbatim>\<open>uuid.Nil\<close> when it is not valid.
\<close>

type_synonym uuid = "128 word"

abbreviation uuid_Nil :: uuid where "uuid_Nil \<equiv> 0"

definition UUID :: "uuid option \<Rightarrow> uuid" where
  "UUID u = (case u of None \<Rightarrow> uuid_Nil | Some i \<Rightarrow> i)"

text \<open>
  A \<^verbatim>\<open>time.Time\<close> is a count of nanoseconds since the zero time, which is what \<^verbatim>\<open>IsZero\<close> tests.
  A \<^verbatim>\<open>time.Duration\<close> is an int64 count of nanoseconds; \<^verbatim>\<open>Time.Sub\<close> saturates at the ends of that range.
\<close>

type_synonym time = int
type_synonym duration = int

abbreviation zero_time :: time where "zero_time \<equiv> 0"

definition IsZero :: "time \<Rightarrow> bool" where
  "IsZero t \<longleftrightarrow> t = zero_time"

definition Second :: duration where "Second = 1000000000"
definition Minute :: duration where "Minute = 60 * Second"

definition time_Sub :: "time \<Rightarrow> time \<Rightarrow> duration" where
  "time_Sub t u = max (- (2 ^ 63)) (min (2 ^ 63 - 1) (t - u))"

definition Null_Time :: "time option \<Rightarrow> time" where
  "Null_Time t = (case t of None \<Rightarrow> zero_time | Some u \<Rightarrow> u)"

lemma UUID_simps [simp]: "UUID None = uuid_Nil" "UUID (Some i) = i"
  by (simp_all add: UUID_def)

lemma Null_Time_simps [simp]: "Null_Time None = zero_time" "Null_Time (Some t) = t"
  by (simp_all add: Null_Time_def)

lemma time_Sub_mono: "u \<le> v \<Longrightarrow> time_Sub t v \<le> time_Sub t u"
  by (auto simp: time_Sub_def)

section \<open>Facts collected for automation\<close>

text \<open>
  \<open>model_simps\<close> holds the unfoldings that evaluate a component's small definitions; \<open>keeps\<close> the
  preservation lemmas that say an operation keeps an invariant.
\<close>

named_theorems model_simps
named_theorems keeps

section \<open>Operations that may fail\<close>

text \<open>
  A Go function \<^verbatim>\<open>func(...) (T, error)\<close> on a mutable store is a function from the store to
  an error or a result with the new store. The error value carries the sentinel it wraps.
\<close>

type_synonym ('e, 's, 'a) op = "'s \<Rightarrow> 'e + ('a \<times> 's)"

definition op_ok :: "'a \<Rightarrow> ('e, 's, 'a) op" where
  "op_ok x s = Inr (x, s)"

definition op_err :: "'e \<Rightarrow> ('e, 's, 'a) op" where
  "op_err e s = Inl e"

definition op_bind :: "('e, 's, 'a) op \<Rightarrow> ('a \<Rightarrow> ('e, 's, 'b) op) \<Rightarrow> ('e, 's, 'b) op" where
  "op_bind m f s = (case m s of Inl e \<Rightarrow> Inl e | Inr (x, s') \<Rightarrow> f x s')"

definition op_seq :: "('e, 's, 'a) op \<Rightarrow> ('e, 's, 'b) op \<Rightarrow> ('e, 's, 'b) op" where
  "op_seq m n = op_bind m (\<lambda>_. n)"

text \<open>A loop over a slice whose body may return early with an error.\<close>

fun op_each :: "('a \<Rightarrow> ('e, 's, unit) op) \<Rightarrow> 'a list \<Rightarrow> ('e, 's, unit) op" where
  "op_each f [] = op_ok ()"
| "op_each f (x # xs) = op_seq (f x) (op_each f xs)"

lemma op_bind_Inr:
  "op_bind m f s = Inr (y, s') \<longleftrightarrow> (\<exists>x t. m s = Inr (x, t) \<and> f x t = Inr (y, s'))"
  by (auto simp: op_bind_def split: sum.splits)

lemma op_bind_Inl:
  "op_bind m f s = Inl e \<longleftrightarrow> m s = Inl e \<or> (\<exists>x t. m s = Inr (x, t) \<and> f x t = Inl e)"
  by (auto simp: op_bind_def split: sum.splits)

lemma op_seq_Inr:
  "op_seq m n s = Inr (y, s') \<longleftrightarrow> (\<exists>x t. m s = Inr (x, t) \<and> n t = Inr (y, s'))"
  by (simp add: op_seq_def op_bind_Inr)

lemma op_seq_Inl:
  "op_seq m n s = Inl e \<longleftrightarrow> m s = Inl e \<or> (\<exists>x t. m s = Inr (x, t) \<and> n t = Inl e)"
  by (simp add: op_seq_def op_bind_Inl)

lemma op_ok_Inr [simp]: "op_ok x s = Inr (y, s') \<longleftrightarrow> x = y \<and> s = s'"
  by (simp add: op_ok_def)

lemma op_ok_Inl [simp]: "op_ok x s \<noteq> Inl e"
  by (simp add: op_ok_def)

lemma op_err_Inr [simp]: "op_err e s \<noteq> Inr r"
  by (simp add: op_err_def)

lemma op_err_Inl [simp]: "op_err e s = Inl e' \<longleftrightarrow> e = e'"
  by (simp add: op_err_def)

text \<open>An operation keeps an invariant when every state it commits satisfies it.\<close>

definition op_keeps :: "('s \<Rightarrow> bool) \<Rightarrow> ('e, 's, 'a) op \<Rightarrow> bool" where
  "op_keeps J m \<longleftrightarrow> (\<forall>s x s'. J s \<longrightarrow> m s = Inr (x, s') \<longrightarrow> J s')"

lemma op_keepsI: "(\<And>s x s'. J s \<Longrightarrow> m s = Inr (x, s') \<Longrightarrow> J s') \<Longrightarrow> op_keeps J m"
  by (auto simp: op_keeps_def)

lemma op_keepsD: "op_keeps J m \<Longrightarrow> J s \<Longrightarrow> m s = Inr (x, s') \<Longrightarrow> J s'"
  by (auto simp: op_keeps_def)

lemma op_keeps_ok [keeps]: "op_keeps J (op_ok x)"
  by (auto intro: op_keepsI)

lemma op_keeps_err [keeps]: "op_keeps J (op_err e)"
  by (auto intro: op_keepsI)

lemma op_keeps_bind [keeps]:
  "op_keeps J m \<Longrightarrow> (\<And>x. op_keeps J (f x)) \<Longrightarrow> op_keeps J (op_bind m f)"
  by (rule op_keepsI) (auto simp: op_bind_Inr dest: op_keepsD)

lemma op_keeps_seq [keeps]:
  "op_keeps J m \<Longrightarrow> op_keeps J n \<Longrightarrow> op_keeps J (op_seq m n)"
  by (simp add: op_seq_def op_keeps_bind)

lemma op_keeps_if [keeps]:
  "op_keeps J m \<Longrightarrow> op_keeps J n \<Longrightarrow> op_keeps J (if b then m else n)"
  by simp

lemma op_keeps_each [keeps]:
  "(\<And>x. x \<in> set xs \<Longrightarrow> op_keeps J (f x)) \<Longrightarrow> op_keeps J (op_each f xs)"
  by (induction xs) (auto intro!: op_keeps_ok op_keeps_seq)

section \<open>Stable comparison sorts\<close>

text \<open>
  \<^verbatim>\<open>slices.SortedStableFunc\<close> and \<^verbatim>\<open>slices.SortFunc\<close> take a three-way comparison. The stable one is
  insertion from the right: an element goes before the first one it is not greater than. The
  unstable one has the same result whenever the comparison separates distinct elements, which is
  how the code uses it.
\<close>

fun insert_by :: "('a \<Rightarrow> 'a \<Rightarrow> int) \<Rightarrow> 'a \<Rightarrow> 'a list \<Rightarrow> 'a list" where
  "insert_by cmp x [] = [x]"
| "insert_by cmp x (y # ys) = (if cmp y x < 0 then y # insert_by cmp x ys else x # y # ys)"

definition sort_by :: "('a \<Rightarrow> 'a \<Rightarrow> int) \<Rightarrow> 'a list \<Rightarrow> 'a list" where
  "sort_by cmp xs = foldr (insert_by cmp) xs []"

lemma sort_by_simps [simp]:
  "sort_by cmp [] = []" "sort_by cmp (x # xs) = insert_by cmp x (sort_by cmp xs)"
  by (simp_all add: sort_by_def)

lemma mset_insert_by [simp]: "mset (insert_by cmp x xs) = add_mset x (mset xs)"
  by (induction xs) auto

lemma mset_sort_by [simp]: "mset (sort_by cmp xs) = mset xs"
  by (induction xs) auto

lemma set_sort_by [simp]: "set (sort_by cmp xs) = set xs"
  by (metis mset_sort_by set_mset_mset)

lemma length_sort_by [simp]: "length (sort_by cmp xs) = length xs"
  by (metis mset_sort_by size_mset)

lemma set_insert_by [simp]: "set (insert_by cmp x xs) = insert x (set xs)"
  by (metis mset_insert_by set_mset_add_mset_insert set_mset_mset)

text \<open>
  A comparison function is an order on the items it is given when it is antisymmetric in sign and
  transitive; it is \<open>strict\<close> on a set when it also tells distinct members apart.
\<close>

locale comparison =
  fixes cmp :: "'a \<Rightarrow> 'a \<Rightarrow> int"
  assumes cmp_swap: "cmp y x < 0 \<longleftrightarrow> 0 < cmp x y"
    and cmp_trans: "cmp x y \<le> 0 \<Longrightarrow> cmp y z \<le> 0 \<Longrightarrow> cmp x z \<le> 0"
begin

lemma cmp_total: "cmp x y \<le> 0 \<or> cmp y x \<le> 0"
  using cmp_swap [of y x] by linarith

lemma not_less: "\<not> cmp y x < 0 \<Longrightarrow> cmp x y \<le> 0"
  using cmp_swap [of y x] by linarith

lemma transp_cmp: "transp (\<lambda>x y. cmp x y \<le> 0)"
  by (rule transpI) (rule cmp_trans)

lemma sorted_insert_by:
  "sorted_wrt (\<lambda>x y. cmp x y \<le> 0) xs \<Longrightarrow> sorted_wrt (\<lambda>x y. cmp x y \<le> 0) (insert_by cmp x xs)"
proof (induction xs)
  case (Cons y ys)
  then show ?case
    by (auto dest: not_less intro: cmp_trans)
qed simp

lemma sorted_sort_by: "sorted_wrt (\<lambda>x y. cmp x y \<le> 0) (sort_by cmp xs)"
  by (induction xs) (auto intro: sorted_insert_by)

lemma sorted_unique:
  assumes "sorted_wrt (\<lambda>x y. cmp x y \<le> 0) xs" and "sorted_wrt (\<lambda>x y. cmp x y \<le> 0) ys"
    and "mset xs = mset ys"
    and strict: "\<And>x y. x \<in> set xs \<Longrightarrow> y \<in> set xs \<Longrightarrow> cmp x y \<le> 0 \<Longrightarrow> cmp y x \<le> 0 \<Longrightarrow> x = y"
  shows "xs = ys"
  using assms
proof (induction xs arbitrary: ys)
  case (Cons x xs)
  from Cons.prems(3) obtain y ys' where ys: "ys = y # ys'"
    by (cases ys) auto
  have in_sets: "x \<in> set ys" "y \<in> set (x # xs)"
    using Cons.prems(3) ys by (metis list.set_intros(1) set_mset_mset)+
  then have "x = y \<or> (cmp x y \<le> 0 \<and> cmp y x \<le> 0)"
    using Cons.prems(1,2) ys by auto
  then have "x = y"
    using Cons.prems(4) [of x y] in_sets by auto
  moreover have "xs = ys'"
    using Cons.prems ys \<open>x = y\<close> by (intro Cons.IH) auto
  ultimately show ?case by (simp add: ys)
qed simp

text \<open>On items the comparison tells apart, the sorted list depends on the items only.\<close>

lemma sort_by_perm:
  assumes "mset xs = mset ys"
    and "\<And>x y. x \<in> set xs \<Longrightarrow> y \<in> set xs \<Longrightarrow> cmp x y \<le> 0 \<Longrightarrow> cmp y x \<le> 0 \<Longrightarrow> x = y"
  shows "sort_by cmp xs = sort_by cmp ys"
  using assms by (intro sorted_unique sorted_sort_by) auto

end

text \<open>\<^verbatim>\<open>bytes.Compare\<close> of two identifiers.\<close>

definition uuid_Compare :: "uuid \<Rightarrow> uuid \<Rightarrow> int" where
  "uuid_Compare a b = (if a < b then -1 else if a = b then 0 else 1)"

lemma uuid_Compare_less [simp]: "uuid_Compare a b < 0 \<longleftrightarrow> a < b"
  by (simp add: uuid_Compare_def)

definition uuidCmp :: "('a \<Rightarrow> uuid) \<Rightarrow> 'a \<Rightarrow> 'a \<Rightarrow> int" where
  "uuidCmp key a b = uuid_Compare (key a) (key b)"

interpretation by_uuid: comparison "uuidCmp key" for key
  by unfold_locales (auto simp: uuidCmp_def uuid_Compare_def split: if_splits)

section \<open>Lists and sums\<close>

lemma sum_list_filter_le:
  fixes f :: "'a \<Rightarrow> int"
  assumes "\<And>x. x \<in> set xs \<Longrightarrow> 0 \<le> f x"
  shows "sum_list (map f (filter P xs)) \<le> sum_list (map f xs)"
  using assms by (induction xs) (auto simp: add_increasing)

lemma sum_list_map_mono:
  fixes f g :: "'a \<Rightarrow> int"
  assumes "\<And>x. x \<in> set xs \<Longrightarrow> f x \<le> g x"
  shows "sum_list (map f xs) \<le> sum_list (map g xs)"
  using assms by (induction xs) (auto simp: add_mono)

lemma length_filter_partition:
  "length (filter P xs) + length (filter (\<lambda>x. \<not> P x) xs) = length xs"
  by (rule sum_length_filter_compl)

lemma list_ex_filter: "list_ex P xs \<longleftrightarrow> filter P xs \<noteq> []"
  by (induction xs) auto

lemma find_Some_set: "find P xs = Some x \<Longrightarrow> x \<in> set xs \<and> P x"
  by (induction xs) (auto split: if_splits)

text \<open>A Go map built by ranging over a slice keeps the last value stored under a key.\<close>

definition index_last :: "('a \<Rightarrow> 'k) \<Rightarrow> 'a list \<Rightarrow> 'k \<Rightarrow> 'a option" where
  "index_last key xs k = find (\<lambda>x. key x = k) (rev xs)"

lemma index_last_Some: "index_last key xs k = Some x \<Longrightarrow> x \<in> set xs \<and> key x = k"
  unfolding index_last_def by (drule find_Some_set) auto

lemma index_last_None: "index_last key xs k = None \<longleftrightarrow> k \<notin> key ` set xs"
  unfolding index_last_def by (auto simp: find_None_iff)

lemma index_last_distinct:
  assumes "distinct (map key xs)" and "x \<in> set xs"
  shows "index_last key xs (key x) = Some x"
proof -
  from assms(2) have "index_last key xs (key x) \<noteq> None"
    by (auto simp: index_last_None)
  then obtain y where y: "index_last key xs (key x) = Some y" by blast
  then have "y \<in> set xs" "key y = key x"
    by (auto dest: index_last_Some)
  then have "y = x"
    using assms by (auto simp: distinct_map inj_on_def)
  with y show ?thesis by simp
qed

text \<open>
  The order in which a \<^verbatim>\<open>range\<close> over a Go map visits the keys is not specified: it is a parameter
  that rearranges the list of keys.
\<close>

definition iteration_order :: "('k list \<Rightarrow> 'k list) \<Rightarrow> bool" where
  "iteration_order ord \<longleftrightarrow> (\<forall>ks. mset (ord ks) = mset ks)"

lemma iteration_order_set: "iteration_order ord \<Longrightarrow> set (ord ks) = set ks"
  by (metis iteration_order_def set_mset_mset)

lemma iteration_order_distinct: "iteration_order ord \<Longrightarrow> distinct (ord ks) = distinct ks"
  by (metis iteration_order_def mset_eq_imp_distinct_iff)

lemma iteration_order_id [simp]: "iteration_order (\<lambda>ks. ks)"
  by (simp add: iteration_order_def)

lemma iteration_order_rev [simp]: "iteration_order rev"
  by (simp add: iteration_order_def)

lemma distinct_submset:
  assumes "mset xs \<subseteq># mset ys" and "distinct ys"
  shows "distinct xs"
proof -
  obtain zs where "mset ys = mset (xs @ zs)"
    using assms(1) by (metis ex_mset mset_append mset_subset_eq_exists_conv)
  then have "distinct (xs @ zs)"
    using assms(2) by (metis mset_eq_imp_distinct_iff)
  then show ?thesis by simp
qed

text \<open>Rows addressed by a key: at most one is found, and rewriting it leaves the others alone.\<close>

lemma find_key: "distinct (map key xs) \<Longrightarrow> x \<in> set xs \<Longrightarrow> find (\<lambda>y. key y = key x) xs = Some x"
  by (induction xs) (auto simp: image_iff)

lemma filter_key_update:
  assumes "key n = k" "distinct (map key xs)" "k \<in> key ` set xs"
  shows "filter (\<lambda>x. key x = k) (map (\<lambda>x. if key x = k then n else x) xs) = [n]"
  using assms(2,3)
proof (induction xs)
  case (Cons x xs)
  show ?case
  proof (cases "key x = k")
    case True
    with Cons.prems(1) have "filter (\<lambda>x. key x = k) (map (\<lambda>x. if key x = k then n else x) xs) = []"
      by (auto simp: filter_empty_conv image_iff)
    with True assms(1) show ?thesis by simp
  next
    case False
    with Cons show ?thesis by auto
  qed
qed simp

lemma filter_other_update:
  "key n = k \<Longrightarrow> filter (\<lambda>x. key x \<noteq> k) (map (\<lambda>x. if key x = k then n else x) xs) = filter (\<lambda>x. key x \<noteq> k) xs"
  by (induction xs) auto

end
