(* ===== verification/Domain.thy ===== *)
theory Domain
  imports Prelude
begin

text \<open>
  Package \<^verbatim>\<open>internal/domain\<close>: the lifecycle enumerations of deployments, hosts, replicas and volumes,
  the predicates the other packages guard with, and the meaning of a volume's two sizes.

  The Go enumerations are strings, so a conversion such as \<^verbatim>\<open>domain.ReplicaPhase(s)\<close> accepts any text;
  each datatype has one constructor more, for a text that names none of the constants, and a
  function from the text.
\<close>

section \<open>Deployments\<close>

datatype DeploymentStatus =
    DeploymentPending | DeploymentActive | DeploymentDraining | DeploymentFailed
  | DeploymentRolledBack | DeploymentSuperseded | DeploymentStatus_text string

fun DeploymentStatus_string :: "DeploymentStatus \<Rightarrow> string" where
  "DeploymentStatus_string DeploymentPending = ''pending''"
| "DeploymentStatus_string DeploymentActive = ''active''"
| "DeploymentStatus_string DeploymentDraining = ''draining''"
| "DeploymentStatus_string DeploymentFailed = ''failed''"
| "DeploymentStatus_string DeploymentRolledBack = ''rolledback''"
| "DeploymentStatus_string DeploymentSuperseded = ''superseded''"
| "DeploymentStatus_string (DeploymentStatus_text s) = s"

definition DeploymentStatus_Valid :: "DeploymentStatus \<Rightarrow> bool" where
  "DeploymentStatus_Valid s = (case s of
       DeploymentPending \<Rightarrow> True | DeploymentActive \<Rightarrow> True | DeploymentDraining \<Rightarrow> True
     | DeploymentFailed \<Rightarrow> True | DeploymentRolledBack \<Rightarrow> True | DeploymentSuperseded \<Rightarrow> True
     | _ \<Rightarrow> False)"

section \<open>Hosts\<close>

datatype HostStatus = HostOpen | HostCordoned | HostDraining | HostStatus_text string

definition HostStatus_Valid :: "HostStatus \<Rightarrow> bool" where
  "HostStatus_Valid s = (case s of
       HostOpen \<Rightarrow> True | HostCordoned \<Rightarrow> True | HostDraining \<Rightarrow> True | _ \<Rightarrow> False)"

section \<open>Replicas\<close>

datatype ReplicaPhase =
    ReplicaPhasePending | ReplicaPhaseScheduling | ReplicaPhaseStarting | ReplicaPhaseHealthCheck
  | ReplicaPhaseHealthy | ReplicaPhaseShifting | ReplicaPhaseActive | ReplicaPhaseDraining
  | ReplicaPhaseReaped | ReplicaPhaseFailed | ReplicaPhaseReplacing | ReplicaPhase_text string

fun ReplicaPhase_string :: "ReplicaPhase \<Rightarrow> string" where
  "ReplicaPhase_string ReplicaPhasePending = ''pending''"
| "ReplicaPhase_string ReplicaPhaseScheduling = ''scheduling''"
| "ReplicaPhase_string ReplicaPhaseStarting = ''starting''"
| "ReplicaPhase_string ReplicaPhaseHealthCheck = ''health_check''"
| "ReplicaPhase_string ReplicaPhaseHealthy = ''healthy''"
| "ReplicaPhase_string ReplicaPhaseShifting = ''shifting''"
| "ReplicaPhase_string ReplicaPhaseActive = ''active''"
| "ReplicaPhase_string ReplicaPhaseDraining = ''draining''"
| "ReplicaPhase_string ReplicaPhaseReaped = ''reaped''"
| "ReplicaPhase_string ReplicaPhaseFailed = ''failed''"
| "ReplicaPhase_string ReplicaPhaseReplacing = ''replacing''"
| "ReplicaPhase_string (ReplicaPhase_text s) = s"

definition ReplicaPhase_consts :: "ReplicaPhase list" where
  "ReplicaPhase_consts =
     [ReplicaPhasePending, ReplicaPhaseScheduling, ReplicaPhaseStarting, ReplicaPhaseHealthCheck,
      ReplicaPhaseHealthy, ReplicaPhaseShifting, ReplicaPhaseActive, ReplicaPhaseDraining,
      ReplicaPhaseReaped, ReplicaPhaseFailed, ReplicaPhaseReplacing]"

text \<open>The conversion \<^verbatim>\<open>domain.ReplicaPhase(s)\<close>.\<close>

definition to_ReplicaPhase :: "string \<Rightarrow> ReplicaPhase" where
  "to_ReplicaPhase s =
     (case find (\<lambda>p. ReplicaPhase_string p = s) ReplicaPhase_consts of
        Some p \<Rightarrow> p | None \<Rightarrow> ReplicaPhase_text s)"

definition ReplicaPhase_Valid :: "ReplicaPhase \<Rightarrow> bool" where
  "ReplicaPhase_Valid p = (case p of
       ReplicaPhasePending \<Rightarrow> True | ReplicaPhaseScheduling \<Rightarrow> True | ReplicaPhaseStarting \<Rightarrow> True
     | ReplicaPhaseHealthCheck \<Rightarrow> True | ReplicaPhaseHealthy \<Rightarrow> True | ReplicaPhaseShifting \<Rightarrow> True
     | ReplicaPhaseActive \<Rightarrow> True | ReplicaPhaseDraining \<Rightarrow> True | ReplicaPhaseReaped \<Rightarrow> True
     | ReplicaPhaseFailed \<Rightarrow> True | ReplicaPhaseReplacing \<Rightarrow> True
     | _ \<Rightarrow> False)"

definition Terminal :: "ReplicaPhase \<Rightarrow> bool" where
  "Terminal p \<longleftrightarrow> p = ReplicaPhaseReaped \<or> p = ReplicaPhaseFailed"

definition AgentReportable :: "ReplicaPhase \<Rightarrow> bool" where
  "AgentReportable p = (case p of
       ReplicaPhaseStarting \<Rightarrow> True | ReplicaPhaseHealthCheck \<Rightarrow> True | ReplicaPhaseHealthy \<Rightarrow> True
     | ReplicaPhaseActive \<Rightarrow> True | ReplicaPhaseFailed \<Rightarrow> True
     | _ \<Rightarrow> False)"

datatype ReplicaDesiredStatus = ReplicaDesiredRunning | ReplicaDesiredStopped

lemma to_ReplicaPhase_string: "ReplicaPhase_string (to_ReplicaPhase s) = s"
  by (auto simp: to_ReplicaPhase_def split: option.splits dest: find_Some_set)

lemma to_ReplicaPhase_known: "ReplicaPhase_Valid p \<Longrightarrow> to_ReplicaPhase (ReplicaPhase_string p) = p"
  by (cases p) (simp_all add: ReplicaPhase_Valid_def to_ReplicaPhase_def ReplicaPhase_consts_def)

lemma to_ReplicaPhase_Valid: "ReplicaPhase_Valid (to_ReplicaPhase s) \<longleftrightarrow> s \<in> ReplicaPhase_string ` set ReplicaPhase_consts"
proof (cases "find (\<lambda>p. ReplicaPhase_string p = s) ReplicaPhase_consts")
  case None
  then show ?thesis
    by (simp add: to_ReplicaPhase_def ReplicaPhase_Valid_def) (auto simp: find_None_iff)
next
  case (Some p)
  then have "p \<in> set ReplicaPhase_consts" "ReplicaPhase_string p = s"
    by (auto dest: find_Some_set)
  then show ?thesis
    using Some by (auto simp: to_ReplicaPhase_def ReplicaPhase_Valid_def ReplicaPhase_consts_def)
qed

lemma AgentReportable_Valid: "AgentReportable p \<Longrightarrow> ReplicaPhase_Valid p"
  by (cases p) (simp_all add: AgentReportable_def ReplicaPhase_Valid_def)

section \<open>Volumes\<close>

definition VolumeLeaseTTL :: duration where "VolumeLeaseTTL = 90 * Second"
definition ApiserverLivenessWindow :: duration where "ApiserverLivenessWindow = 30 * Second"

datatype VolumeStatus =
    VolumePending | VolumeAttached | VolumeDetached | VolumeResizePending | VolumeResizing
  | VolumeFailed

record VolumeSizing =
  vs_Status :: VolumeStatus
  vs_Desired :: int
  vs_Observed :: int

definition Reported :: "VolumeSizing \<Rightarrow> bool" where
  "Reported s \<longleftrightarrow> vs_Observed s > 0"

definition Drifting :: "VolumeSizing \<Rightarrow> bool" where
  "Drifting s \<longleftrightarrow> Reported s \<and> vs_Desired s > vs_Observed s"

definition CaughtUp :: "VolumeSizing \<Rightarrow> bool" where
  "CaughtUp s \<longleftrightarrow> Reported s \<and> vs_Observed s \<ge> vs_Desired s"

definition GrowDelta :: "VolumeSizing \<Rightarrow> int" where
  "GrowDelta s = vs_Desired s - vs_Observed s"

definition Committed :: "VolumeSizing \<Rightarrow> int" where
  "Committed s = (if vs_Status s = VolumeResizing \<or> \<not> Reported s then vs_Desired s else vs_Observed s)"

lemma Reported_cases: "Reported s \<Longrightarrow> Drifting s \<or> CaughtUp s"
  by (auto simp: Drifting_def CaughtUp_def)

lemma Drifting_not_CaughtUp: "Drifting s \<Longrightarrow> \<not> CaughtUp s"
  by (auto simp: Drifting_def CaughtUp_def)

lemma Drifting_GrowDelta_pos: "Drifting s \<Longrightarrow> 0 < GrowDelta s"
  by (auto simp: Drifting_def GrowDelta_def)

text \<open>Approving a grow adds exactly its delta to what the host is charged.\<close>

lemma Committed_approve:
  "Drifting s \<Longrightarrow> vs_Status s \<noteq> VolumeResizing \<Longrightarrow>
   Committed (s\<lparr>vs_Status := VolumeResizing\<rparr>) = Committed s + GrowDelta s"
  by (auto simp: Committed_def Drifting_def GrowDelta_def Reported_def)

lemma Committed_pos: "0 < vs_Desired s \<Longrightarrow> 0 < Committed s"
  by (auto simp: Committed_def Reported_def)

end
