(* ===== verification/EngineTypes.thy ===== *)
theory EngineTypes
  imports Domain
begin

text \<open>
  The values of package \<^verbatim>\<open>internal/engine\<close>: the engine-owned views of the snapshot rows
  (\<^verbatim>\<open>snapshot.go\<close>), the intents a reconcile pass produces, and the replica groups it decides on
  (\<^verbatim>\<open>reconciler.go\<close>). A record field carries the Go field's name behind a prefix for its struct.
\<close>

section \<open>The snapshot\<close>

record replicaSlot =
  rs_EnvironmentServiceID :: uuid
  rs_Region :: string

record desiredState =
  ds_Slot :: replicaSlot
  ds_DeploymentID :: uuid
  ds_Replicas :: int
  ds_CPUMillicores :: int
  ds_MemBytes :: int
  ds_RestartMax :: int
  ds_ProgressDeadline :: int
  ds_Status :: DeploymentStatus
  ds_Stateful :: bool

record replica =
  r_ID :: uuid
  r_DeploymentID :: uuid
  r_Slot :: replicaSlot
  r_HostID :: uuid
  r_VolumeID :: uuid
  r_CPUMillicores :: int
  r_MemBytes :: int
  r_DesiredStatus :: ReplicaDesiredStatus
  r_Phase :: ReplicaPhase
  r_Healthy :: bool
  r_RestartCount :: int
  r_DrainSeconds :: int
  r_DrainedAt :: time
  r_HealthChecksPassedAt :: time
  r_CreatedAt :: time
  r_Revision :: int
  r_Version :: int
  r_Current :: bool
  r_HostDraining :: bool

record host =
  h_ID :: uuid
  h_Region :: string
  h_CPUMillicores :: int
  h_MemBytes :: int
  h_DiskBytes :: int
  h_Open :: bool

text \<open>The Go struct embeds \<^verbatim>\<open>domain.VolumeSizing\<close>; the field \<open>v_Sizing\<close> is that embedded value.\<close>

record volume =
  v_ID :: uuid
  v_Slot :: replicaSlot
  v_HostID :: uuid
  v_Sizing :: VolumeSizing

record stateSnapshot =
  sn_observedAt :: time
  sn_desired :: "desiredState list"
  sn_replicas :: "replica list"
  sn_hosts :: "host list"
  sn_volumes :: "volume list"

section \<open>Intents\<close>

datatype IntentKind =
    IntentCreate | IntentDrain | IntentDestroy | IntentFail | IntentFreezeReplica
  | IntentAssignHost | IntentSkip | IntentComplete | IntentPlaceVolume | IntentResizeVolume
  | IntentVolumeResized | IntentVolumeResizePending

text \<open>The zero \<^verbatim>\<open>replicaSlot\<close> and the zero \<^verbatim>\<open>Intent\<close>, which composite literals start from.\<close>

definition zero_slot :: replicaSlot where
  "zero_slot = \<lparr>rs_EnvironmentServiceID = uuid_Nil, rs_Region = ''''\<rparr>"

record Intent =
  it_Kind :: IntentKind
  it_Group :: replicaSlot
  it_ReplicaID :: uuid
  it_HostID :: uuid
  it_VolumeID :: uuid
  it_DeploymentID :: uuid
  it_Revision :: int
  it_CPUMillicores :: int
  it_MemBytes :: int
  it_SwitchTraffic :: bool

definition mkIntent :: "IntentKind \<Rightarrow> Intent" where
  "mkIntent k = \<lparr>it_Kind = k, it_Group = zero_slot, it_ReplicaID = uuid_Nil, it_HostID = uuid_Nil,
     it_VolumeID = uuid_Nil, it_DeploymentID = uuid_Nil, it_Revision = 0, it_CPUMillicores = 0,
     it_MemBytes = 0, it_SwitchTraffic = False\<rparr>"

lemma mkIntent_simps [simp]:
  "it_Kind (mkIntent k) = k" "it_Group (mkIntent k) = zero_slot"
  "it_ReplicaID (mkIntent k) = uuid_Nil" "it_HostID (mkIntent k) = uuid_Nil"
  "it_VolumeID (mkIntent k) = uuid_Nil" "it_DeploymentID (mkIntent k) = uuid_Nil"
  "it_Revision (mkIntent k) = 0" "it_CPUMillicores (mkIntent k) = 0"
  "it_MemBytes (mkIntent k) = 0" "it_SwitchTraffic (mkIntent k) = False"
  by (simp_all add: mkIntent_def)

section \<open>Replica groups\<close>

text \<open>The zero \<^verbatim>\<open>desiredState\<close> with a slot: what an orphan group has.\<close>

definition zero_desired :: "replicaSlot \<Rightarrow> desiredState" where
  "zero_desired slot = \<lparr>ds_Slot = slot, ds_DeploymentID = uuid_Nil, ds_Replicas = 0,
     ds_CPUMillicores = 0, ds_MemBytes = 0, ds_RestartMax = 0, ds_ProgressDeadline = 0,
     ds_Status = DeploymentStatus_text '''', ds_Stateful = False\<rparr>"

definition zero_volume :: volume where
  "zero_volume = \<lparr>v_ID = uuid_Nil, v_Slot = zero_slot, v_HostID = uuid_Nil,
     v_Sizing = \<lparr>vs_Status = VolumePending, vs_Desired = 0, vs_Observed = 0\<rparr>\<rparr>"

record replicaGroup =
  rg_Desired :: desiredState
  rg_Volume :: volume
  rg_TargetReplicas :: "replica list"
  rg_FrozenReplicas :: "replica list"
  rg_OutgoingReplicas :: "replica list"
  rg_ObservedAt :: time

lemma zero_desired_simps [simp]:
  "ds_Slot (zero_desired s) = s" "ds_DeploymentID (zero_desired s) = uuid_Nil"
  by (simp_all add: zero_desired_def)

end
