(* ===== verification/Rules.thy ===== *)
theory Rules
  imports EngineTypes
begin

text \<open>
  The rule half of \<^verbatim>\<open>internal/engine/reconciler.go\<close>: the snapshot bucketed into replica groups, the
  three cascades of rules, and the firing of at most one rule per group and pass. Each Go
  \<^verbatim>\<open>rule\<close> value is a record of its name, its guard and its intents; a cascade is the list of its
  rules in tick-priority order.
\<close>

section \<open>Predicates on replicas and groups\<close>

definition failedPhase :: "replica \<Rightarrow> bool" where
  "failedPhase rp \<longleftrightarrow> r_Phase rp = ReplicaPhaseFailed"

definition hostless :: "replica \<Rightarrow> bool" where
  "hostless rp \<longleftrightarrow> r_HostID rp = uuid_Nil"

definition drainWindowElapsed :: "replica \<Rightarrow> time \<Rightarrow> bool" where
  "drainWindowElapsed rp now =
     (if IsZero (r_DrainedAt rp) then False
      else time_Sub now (r_DrainedAt rp) > r_DrainSeconds rp * Second)"

definition drainable :: "replica \<Rightarrow> bool" where
  "drainable rp \<longleftrightarrow> r_Phase rp \<noteq> ReplicaPhaseDraining \<and> \<not> Terminal (r_Phase rp)"

definition overRestartBudget :: "replicaGroup \<Rightarrow> replica \<Rightarrow> bool" where
  "overRestartBudget rg r \<longleftrightarrow> r_RestartCount r > ds_RestartMax (rg_Desired rg)"

definition excess :: "replicaGroup \<Rightarrow> int" where
  "excess rg = int (length (rg_TargetReplicas rg)) + int (length (rg_FrozenReplicas rg))
                 - ds_Replicas (rg_Desired rg)"

definition stayingExcess :: "replicaGroup \<Rightarrow> int" where
  "stayingExcess rg =
     excess rg - int (length (filter r_HostDraining (rg_TargetReplicas rg)))"

definition healthyTargets :: "replicaGroup \<Rightarrow> int" where
  "healthyTargets rg =
     int (length (filter (\<lambda>rp. r_Healthy rp \<and> \<not> r_HostDraining rp) (rg_TargetReplicas rg)))"

definition heldSlots :: "replicaGroup \<Rightarrow> int" where
  "heldSlots rg = healthyTargets rg + int (length (rg_FrozenReplicas rg))"

definition destroyAll :: "replica list \<Rightarrow> Intent list" where
  "destroyAll rs = map (\<lambda>r. (mkIntent IntentDestroy)
     \<lparr>it_ReplicaID := r_ID r, it_VolumeID := r_VolumeID r\<rparr>) rs"

section \<open>The rules\<close>

record rule =
  rule_name :: string
  rule_when :: "replicaGroup \<Rightarrow> bool"
  rule_then :: "replicaGroup \<Rightarrow> Intent list"

definition deploymentFrozen :: rule where
  "deploymentFrozen = \<lparr>rule_name = ''deploymentFrozen'',
     rule_when = (\<lambda>rg. ds_Status (rg_Desired rg) = DeploymentFailed),
     rule_then = (\<lambda>rg.
       if rg_FrozenReplicas rg = []
       then [(mkIntent IntentSkip)\<lparr>it_Group := ds_Slot (rg_Desired rg)\<rparr>]
       else destroyAll (rg_FrozenReplicas rg))\<rparr>"

definition failIntent :: "replicaGroup \<Rightarrow> Intent" where
  "failIntent rg = (mkIntent IntentFail)
     \<lparr>it_Group := ds_Slot (rg_Desired rg), it_DeploymentID := ds_DeploymentID (rg_Desired rg)\<rparr>"

definition crashLooping :: rule where
  "crashLooping = \<lparr>rule_name = ''crashLooping'',
     rule_when = (\<lambda>rg. list_ex (overRestartBudget rg) (rg_TargetReplicas rg)),
     rule_then = (\<lambda>rg.
       if ds_Status (rg_Desired rg) \<noteq> DeploymentActive then [failIntent rg]
       else map (\<lambda>r. (mkIntent IntentFreezeReplica)
                   \<lparr>it_Group := ds_Slot (rg_Desired rg), it_ReplicaID := r_ID r\<rparr>)
              (filter (overRestartBudget rg) (rg_TargetReplicas rg)))\<rparr>"

text \<open>The loop of \<open>trimHostlessExcess\<close> stops once it has as many intents as there is excess.\<close>

fun trimLoop :: "int \<Rightarrow> replica list \<Rightarrow> Intent list \<Rightarrow> Intent list" where
  "trimLoop n [] intents = intents"
| "trimLoop n (r # rs) intents =
     (if int (length intents) = n then intents
      else if hostless r
      then trimLoop n rs (intents @ [(mkIntent IntentDestroy)\<lparr>it_ReplicaID := r_ID r\<rparr>])
      else trimLoop n rs intents)"

definition trimHostlessExcess :: rule where
  "trimHostlessExcess = \<lparr>rule_name = ''trimHostlessExcess'',
     rule_when = (\<lambda>rg. stayingExcess rg > 0 \<and> list_ex hostless (rg_TargetReplicas rg)),
     rule_then = (\<lambda>rg. trimLoop (stayingExcess rg) (rg_TargetReplicas rg) [])\<rparr>"

definition anyHostlessReplicas :: rule where
  "anyHostlessReplicas = \<lparr>rule_name = ''anyHostlessReplicas'',
     rule_when = (\<lambda>rg. list_ex hostless (rg_TargetReplicas rg)),
     rule_then = (\<lambda>rg. map (\<lambda>rp. (mkIntent IntentAssignHost)
                               \<lparr>it_ReplicaID := r_ID rp, it_VolumeID := r_VolumeID rp\<rparr>)
                          (filter hostless (rg_TargetReplicas rg)))\<rparr>"

definition pastDeadline :: "replicaGroup \<Rightarrow> replica \<Rightarrow> bool" where
  "pastDeadline rg r \<longleftrightarrow> IsZero (r_HealthChecksPassedAt r) \<and>
     time_Sub (rg_ObservedAt rg) (r_CreatedAt r) > ds_ProgressDeadline (rg_Desired rg) * Second"

definition newHealthOpenPastDeadline :: rule where
  "newHealthOpenPastDeadline = \<lparr>rule_name = ''newHealthOpenPastDeadline'',
     rule_when = (\<lambda>rg. list_ex (pastDeadline rg) (rg_TargetReplicas rg)),
     rule_then = (\<lambda>rg. [failIntent rg])\<rparr>"

definition notAllHealthy :: rule where
  "notAllHealthy = \<lparr>rule_name = ''notAllHealthy'',
     rule_when = (\<lambda>rg. list_ex (\<lambda>rp. \<not> r_Healthy rp) (rg_TargetReplicas rg)),
     rule_then = (\<lambda>rg. [(mkIntent IntentSkip)\<lparr>it_Group := ds_Slot (rg_Desired rg)\<rparr>])\<rparr>"

definition createIntent :: "replicaGroup \<Rightarrow> Intent" where
  "createIntent rg = (mkIntent IntentCreate)
     \<lparr>it_Group := ds_Slot (rg_Desired rg), it_DeploymentID := ds_DeploymentID (rg_Desired rg),
      it_CPUMillicores := ds_CPUMillicores (rg_Desired rg),
      it_MemBytes := ds_MemBytes (rg_Desired rg)\<rparr>"

definition rollingRampUp :: rule where
  "rollingRampUp = \<lparr>rule_name = ''rollingRampUp'',
     rule_when = (\<lambda>rg. heldSlots rg < ds_Replicas (rg_Desired rg)),
     rule_then = (\<lambda>rg.
       let n = (if healthyTargets rg = 0 then 1 else ds_Replicas (rg_Desired rg) - heldSlots rg)
       in replicate (nat n) (createIntent rg))\<rparr>"

text \<open>
  Replicas on a draining host go first, then the newest. \<^verbatim>\<open>time.Time.Compare\<close> is the sign of the
  difference.
\<close>

definition scaleDownCmp :: "replica \<Rightarrow> replica \<Rightarrow> int" where
  "scaleDownCmp a b =
     (if r_HostDraining a \<noteq> r_HostDraining b then (if r_HostDraining a then -1 else 1)
      else sgn (r_CreatedAt b - r_CreatedAt a))"

text \<open>
  The number of live replicas the scale-down drains, once the frozen ones are destroyed. The slice
  expressions of the source are in range when \<^verbatim>\<open>Replicas\<close> is not negative, as the schema's
  CHECK on \<^verbatim>\<open>deployment_regions.replicas\<close> demands; see \<open>scaleDown_slices_in_range\<close> below.
\<close>

definition scaleDownFrozen :: "replicaGroup \<Rightarrow> int" where
  "scaleDownFrozen rg = min (excess rg) (int (length (rg_FrozenReplicas rg)))"

definition scaleDownLive :: "replicaGroup \<Rightarrow> int" where
  "scaleDownLive rg = excess rg - scaleDownFrozen rg"

definition rollingScaleDown :: rule where
  "rollingScaleDown = \<lparr>rule_name = ''rollingScaleDown'',
     rule_when = (\<lambda>rg. excess rg > 0),
     rule_then = (\<lambda>rg.
       destroyAll (take (nat (scaleDownFrozen rg)) (rg_FrozenReplicas rg)) @
       map (\<lambda>r. (mkIntent IntentDrain)\<lparr>it_ReplicaID := r_ID r, it_Revision := r_Revision r\<rparr>)
         (take (nat (scaleDownLive rg)) (sort_by scaleDownCmp (rg_TargetReplicas rg))))\<rparr>"

definition rolloutComplete :: rule where
  "rolloutComplete = \<lparr>rule_name = ''rolloutComplete'',
     rule_when = (\<lambda>rg.
       if ds_Status (rg_Desired rg) = DeploymentActive then False
       else heldSlots rg = ds_Replicas (rg_Desired rg) \<and> rg_OutgoingReplicas rg = []),
     rule_then = (\<lambda>rg. [(mkIntent IntentComplete)
       \<lparr>it_Group := ds_Slot (rg_Desired rg), it_DeploymentID := ds_DeploymentID (rg_Desired rg)\<rparr>])\<rparr>"

definition drainOutgoing :: rule where
  "drainOutgoing = \<lparr>rule_name = ''drainOutgoing'',
     rule_when = (\<lambda>rg. list_ex drainable (rg_OutgoingReplicas rg)),
     rule_then = (\<lambda>rg. map (\<lambda>r. (mkIntent IntentDrain)
         \<lparr>it_Group := ds_Slot (rg_Desired rg), it_ReplicaID := r_ID r, it_Revision := r_Revision r,
          it_DeploymentID := ds_DeploymentID (rg_Desired rg), it_SwitchTraffic := True\<rparr>)
       (filter drainable (rg_OutgoingReplicas rg)))\<rparr>"

definition reapDrained :: rule where
  "reapDrained = \<lparr>rule_name = ''reapDrained'',
     rule_when = (\<lambda>rg. list_ex (\<lambda>rp. drainWindowElapsed rp (rg_ObservedAt rg)) (rg_OutgoingReplicas rg)),
     rule_then = (\<lambda>rg. destroyAll
       (filter (\<lambda>rp. drainWindowElapsed rp (rg_ObservedAt rg)) (rg_OutgoingReplicas rg)))\<rparr>"

definition reapFailedOutgoing :: rule where
  "reapFailedOutgoing = \<lparr>rule_name = ''reapFailedOutgoing'',
     rule_when = (\<lambda>rg. list_ex failedPhase (rg_OutgoingReplicas rg)),
     rule_then = (\<lambda>rg. destroyAll (filter failedPhase (rg_OutgoingReplicas rg)))\<rparr>"

definition recreateRampUp :: rule where
  "recreateRampUp = \<lparr>rule_name = ''recreateRampUp'',
     rule_when = (\<lambda>rg. rg_OutgoingReplicas rg = [] \<and> heldSlots rg < ds_Replicas (rg_Desired rg)),
     rule_then = (\<lambda>rg. replicate (nat (ds_Replicas (rg_Desired rg) - heldSlots rg))
       ((createIntent rg)\<lparr>it_VolumeID := v_ID (rg_Volume rg)\<rparr>))\<rparr>"

definition recreateScaleDown :: rule where
  "recreateScaleDown = \<lparr>rule_name = ''recreateScaleDown'',
     rule_when = rule_when rollingScaleDown, rule_then = rule_then rollingScaleDown\<rparr>"

definition recreateComplete :: rule where
  "recreateComplete = \<lparr>rule_name = ''recreateComplete'',
     rule_when = rule_when rolloutComplete, rule_then = rule_then rolloutComplete\<rparr>"

section \<open>The cascades\<close>

definition rollingCascade :: "rule list" where
  "rollingCascade =
     [deploymentFrozen, crashLooping, trimHostlessExcess, anyHostlessReplicas,
      newHealthOpenPastDeadline, notAllHealthy, rollingRampUp, rollingScaleDown, rolloutComplete,
      drainOutgoing, reapDrained, reapFailedOutgoing]"

definition recreateCascade :: "rule list" where
  "recreateCascade =
     [deploymentFrozen, crashLooping, trimHostlessExcess, anyHostlessReplicas,
      newHealthOpenPastDeadline, notAllHealthy, drainOutgoing, reapDrained, reapFailedOutgoing,
      recreateRampUp, recreateScaleDown, recreateComplete]"

definition orphanCascade :: "rule list" where
  "orphanCascade = [drainOutgoing, reapDrained, reapFailedOutgoing]"

section \<open>Bucketing the snapshot\<close>

record replicaBucket =
  bk_target :: "replica list"
  bk_frozen :: "replica list"
  bk_outgoing :: "replica list"

definition zero_bucket :: replicaBucket where
  "zero_bucket = \<lparr>bk_target = [], bk_frozen = [], bk_outgoing = []\<rparr>"

definition outgoingReplica :: "replica \<Rightarrow> bool" where
  "outgoingReplica r \<longleftrightarrow> \<not> r_Current r \<or> \<not> IsZero (r_DrainedAt r)"

definition bucketReplica :: "replica \<Rightarrow> replicaBucket \<Rightarrow> replicaBucket" where
  "bucketReplica r b =
     (if outgoingReplica r then b\<lparr>bk_outgoing := bk_outgoing b @ [r]\<rparr>
      else if failedPhase r then b\<lparr>bk_frozen := bk_frozen b @ [r]\<rparr>
      else b\<lparr>bk_target := bk_target b @ [r]\<rparr>)"

text \<open>Indexing a missing key of a Go map reads the zero value.\<close>

definition bucketAt :: "(replicaSlot \<rightharpoonup> replicaBucket) \<Rightarrow> replicaSlot \<Rightarrow> replicaBucket" where
  "bucketAt m s = (case m s of None \<Rightarrow> zero_bucket | Some b \<Rightarrow> b)"

definition replicaIndex :: "replica list \<Rightarrow> (replicaSlot \<rightharpoonup> replicaBucket)" where
  "replicaIndex rs = foldl (\<lambda>m r. m(r_Slot r \<mapsto> bucketReplica r (bucketAt m (r_Slot r)))) Map.empty rs"

definition volumeAt :: "volume list \<Rightarrow> replicaSlot \<Rightarrow> volume" where
  "volumeAt vs s = (case index_last v_Slot vs s of None \<Rightarrow> zero_volume | Some v \<Rightarrow> v)"

definition mkGroup :: "time \<Rightarrow> desiredState \<Rightarrow> volume \<Rightarrow> replicaBucket \<Rightarrow> replicaGroup" where
  "mkGroup now d v b = \<lparr>rg_Desired = d, rg_Volume = v, rg_TargetReplicas = bk_target b,
     rg_FrozenReplicas = bk_frozen b, rg_OutgoingReplicas = bk_outgoing b, rg_ObservedAt = now\<rparr>"

text \<open>The loop over the desired rows takes each row's bucket out of the index.\<close>

fun declaredGroups ::
  "stateSnapshot \<Rightarrow> desiredState list \<Rightarrow> (replicaSlot \<rightharpoonup> replicaBucket) \<Rightarrow>
   replicaGroup list \<times> (replicaSlot \<rightharpoonup> replicaBucket)" where
  "declaredGroups snap [] m = ([], m)"
| "declaredGroups snap (d # ds) m =
     (let b = bucketAt m (ds_Slot d);
          (gs, m') = declaredGroups snap ds (m(ds_Slot d := None))
      in (mkGroup (sn_observedAt snap) d (volumeAt (sn_volumes snap) (ds_Slot d)) b # gs, m'))"

definition leftoverGroup ::
  "stateSnapshot \<Rightarrow> (replicaSlot \<rightharpoonup> replicaBucket) \<Rightarrow> replicaSlot \<Rightarrow> replicaGroup" where
  "leftoverGroup snap m s =
     mkGroup (sn_observedAt snap) (zero_desired s) zero_volume (bucketAt m s)"

text \<open>
  \<open>ord\<close> is the order in which the runtime ranges over the slots left in the index.
\<close>

definition buildReplicaGroups ::
  "(replicaSlot list \<Rightarrow> replicaSlot list) \<Rightarrow> stateSnapshot \<Rightarrow> replicaGroup list" where
  "buildReplicaGroups ord snap =
     (let (groups, m) = declaredGroups snap (sn_desired snap) (replicaIndex (sn_replicas snap));
          leftover = filter (\<lambda>s. m s \<noteq> None) (remdups (map r_Slot (sn_replicas snap)))
      in groups @ map (leftoverGroup snap m) (ord leftover))"

section \<open>Firing the rules\<close>

record ruleFiring =
  rf_group :: replicaGroup
  rf_rule :: string
  rf_intents :: "Intent list"

record Reconciler =
  rc_rolling :: "rule list"
  rc_recreate :: "rule list"
  rc_orphan :: "rule list"

definition cascades :: Reconciler where
  "cascades = \<lparr>rc_rolling = rollingCascade, rc_recreate = recreateCascade, rc_orphan = orphanCascade\<rparr>"

definition rulesFor :: "Reconciler \<Rightarrow> replicaGroup \<Rightarrow> rule list" where
  "rulesFor r rg =
     (if ds_DeploymentID (rg_Desired rg) = uuid_Nil then rc_orphan r
      else if ds_Stateful (rg_Desired rg) then rc_recreate r
      else rc_rolling r)"

definition fireGroup :: "Reconciler \<Rightarrow> replicaGroup \<Rightarrow> ruleFiring list" where
  "fireGroup r rg =
     (case find (\<lambda>rl. rule_when rl rg) (rulesFor r rg) of
        None \<Rightarrow> []
      | Some rl \<Rightarrow> [\<lparr>rf_group = rg, rf_rule = rule_name rl, rf_intents = rule_then rl rg\<rparr>])"

definition fireRules :: "Reconciler \<Rightarrow> replicaGroup list \<Rightarrow> ruleFiring list" where
  "fireRules r groups = concat (map (fireGroup r) groups)"

definition intentsOf :: "ruleFiring list \<Rightarrow> Intent list" where
  "intentsOf firings = concat (map rf_intents firings)"

end
