(* ===== verification/RulesCorrect.thy ===== *)
theory RulesCorrect
  imports Rules
begin

text \<open>
  What the rule cascades guarantee. The chain lemmas write a cascade out as nested conditionals;
  every property of a group is then a case split on the rule that fired, with the guards of the
  rules above it known to be false.
\<close>

section \<open>One group, one rule\<close>

definition groupIntents :: "replicaGroup \<Rightarrow> Intent list" where
  "groupIntents rg = intentsOf (fireGroup cascades rg)"

lemma intentsOf_fireRules: "intentsOf (fireRules cascades groups) = concat (map groupIntents groups)"
  by (induction groups) (simp_all add: fireRules_def intentsOf_def groupIntents_def)

lemma fireGroup_length: "length (fireGroup r rg) \<le> 1"
  by (simp add: fireGroup_def split: option.split)

lemma groupIntents_find:
  "groupIntents rg = (case find (\<lambda>rl. rule_when rl rg) (rulesFor cascades rg) of
     None \<Rightarrow> [] | Some rl \<Rightarrow> rule_then rl rg)"
  by (simp add: groupIntents_def fireGroup_def intentsOf_def split: option.split)

definition orphanGroup :: "replicaGroup \<Rightarrow> bool" where
  "orphanGroup rg \<longleftrightarrow> ds_DeploymentID (rg_Desired rg) = uuid_Nil"

definition rollingGroup :: "replicaGroup \<Rightarrow> bool" where
  "rollingGroup rg \<longleftrightarrow> ds_DeploymentID (rg_Desired rg) \<noteq> uuid_Nil \<and> \<not> ds_Stateful (rg_Desired rg)"

definition recreateGroup :: "replicaGroup \<Rightarrow> bool" where
  "recreateGroup rg \<longleftrightarrow> ds_DeploymentID (rg_Desired rg) \<noteq> uuid_Nil \<and> ds_Stateful (rg_Desired rg)"

lemma group_cases: "orphanGroup rg \<or> rollingGroup rg \<or> recreateGroup rg"
  by (auto simp: orphanGroup_def rollingGroup_def recreateGroup_def)

lemmas rule_defs =
  deploymentFrozen_def crashLooping_def trimHostlessExcess_def anyHostlessReplicas_def
  newHealthOpenPastDeadline_def notAllHealthy_def rollingRampUp_def rollingScaleDown_def
  rolloutComplete_def drainOutgoing_def reapDrained_def reapFailedOutgoing_def recreateRampUp_def
  recreateScaleDown_def recreateComplete_def

lemmas cascade_defs = cascades_def rollingCascade_def recreateCascade_def orphanCascade_def

lemma case_find_Cons:
  "(case find P (x # xs) of None \<Rightarrow> a | Some y \<Rightarrow> f y) =
   (if P x then f x else (case find P xs of None \<Rightarrow> a | Some y \<Rightarrow> f y))"
  by simp

lemma orphan_chain:
  assumes "orphanGroup rg"
  shows "groupIntents rg =
    (if rule_when drainOutgoing rg then rule_then drainOutgoing rg
     else if rule_when reapDrained rg then rule_then reapDrained rg
     else if rule_when reapFailedOutgoing rg then rule_then reapFailedOutgoing rg else [])"
  using assms
  by (simp add: groupIntents_find rulesFor_def orphanGroup_def cascade_defs case_find_Cons
      del: find.simps(2))

lemma rolling_chain:
  assumes "rollingGroup rg"
  shows "groupIntents rg =
    (if rule_when deploymentFrozen rg then rule_then deploymentFrozen rg
     else if rule_when crashLooping rg then rule_then crashLooping rg
     else if rule_when trimHostlessExcess rg then rule_then trimHostlessExcess rg
     else if rule_when anyHostlessReplicas rg then rule_then anyHostlessReplicas rg
     else if rule_when newHealthOpenPastDeadline rg then rule_then newHealthOpenPastDeadline rg
     else if rule_when notAllHealthy rg then rule_then notAllHealthy rg
     else if rule_when rollingRampUp rg then rule_then rollingRampUp rg
     else if rule_when rollingScaleDown rg then rule_then rollingScaleDown rg
     else if rule_when rolloutComplete rg then rule_then rolloutComplete rg
     else if rule_when drainOutgoing rg then rule_then drainOutgoing rg
     else if rule_when reapDrained rg then rule_then reapDrained rg
     else if rule_when reapFailedOutgoing rg then rule_then reapFailedOutgoing rg else [])"
  using assms
  by (simp add: groupIntents_find rulesFor_def rollingGroup_def cascade_defs case_find_Cons
      del: find.simps(2))

lemma recreate_chain:
  assumes "recreateGroup rg"
  shows "groupIntents rg =
    (if rule_when deploymentFrozen rg then rule_then deploymentFrozen rg
     else if rule_when crashLooping rg then rule_then crashLooping rg
     else if rule_when trimHostlessExcess rg then rule_then trimHostlessExcess rg
     else if rule_when anyHostlessReplicas rg then rule_then anyHostlessReplicas rg
     else if rule_when newHealthOpenPastDeadline rg then rule_then newHealthOpenPastDeadline rg
     else if rule_when notAllHealthy rg then rule_then notAllHealthy rg
     else if rule_when drainOutgoing rg then rule_then drainOutgoing rg
     else if rule_when reapDrained rg then rule_then reapDrained rg
     else if rule_when reapFailedOutgoing rg then rule_then reapFailedOutgoing rg
     else if rule_when recreateRampUp rg then rule_then recreateRampUp rg
     else if rule_when recreateScaleDown rg then rule_then recreateScaleDown rg
     else if rule_when recreateComplete rg then rule_then recreateComplete rg else [])"
  using assms
  by (simp add: groupIntents_find rulesFor_def recreateGroup_def cascade_defs case_find_Cons
      del: find.simps(2))

section \<open>What each rule emits\<close>

text \<open>The kinds of intents a rule can emit; used to exclude every rule but the ones of interest.\<close>

lemma destroyAll_kind: "it \<in> set (destroyAll rs) \<Longrightarrow> it_Kind it = IntentDestroy \<and> \<not> it_SwitchTraffic it"
  by (auto simp: destroyAll_def)

lemma length_destroyAll [simp]: "length (destroyAll rs) = length rs"
  by (simp add: destroyAll_def)

lemma trimLoop_eq:
  assumes "int (length acc) \<le> n"
  shows "trimLoop n rs acc = acc @ map (\<lambda>r. (mkIntent IntentDestroy)\<lparr>it_ReplicaID := r_ID r\<rparr>)
    (take (nat (n - int (length acc))) (filter hostless rs))"
  using assms
proof (induction n rs acc rule: trimLoop.induct)
  case (2 n r rs acc)
  show ?case
  proof (cases "int (length acc) = n")
    case False
    then have "nat (n - int (length acc)) = Suc (nat (n - int (length acc) - 1))"
      using 2(3) by simp
    with 2 False show ?thesis by (simp add: algebra_simps)
  qed simp
qed simp

lemma trim_then:
  "stayingExcess rg > 0 \<Longrightarrow> rule_then trimHostlessExcess rg =
   map (\<lambda>r. (mkIntent IntentDestroy)\<lparr>it_ReplicaID := r_ID r\<rparr>)
     (take (nat (stayingExcess rg)) (filter hostless (rg_TargetReplicas rg)))"
  by (simp add: trimHostlessExcess_def trimLoop_eq)

definition rule_kinds :: "rule \<Rightarrow> IntentKind set \<Rightarrow> bool" where
  "rule_kinds rl K \<longleftrightarrow> (\<forall>rg. rule_when rl rg \<longrightarrow> (\<forall>it\<in>set (rule_then rl rg). it_Kind it \<in> K))"

lemma rule_kindsD: "rule_kinds rl K \<Longrightarrow> rule_when rl rg \<Longrightarrow> it \<in> set (rule_then rl rg) \<Longrightarrow> it_Kind it \<in> K"
  by (auto simp: rule_kinds_def)

lemma rule_kinds_all:
  "rule_kinds deploymentFrozen {IntentSkip, IntentDestroy}"
  "rule_kinds crashLooping {IntentFail, IntentFreezeReplica}"
  "rule_kinds trimHostlessExcess {IntentDestroy}"
  "rule_kinds anyHostlessReplicas {IntentAssignHost}"
  "rule_kinds newHealthOpenPastDeadline {IntentFail}"
  "rule_kinds notAllHealthy {IntentSkip}"
  "rule_kinds rollingRampUp {IntentCreate}"
  "rule_kinds rollingScaleDown {IntentDestroy, IntentDrain}"
  "rule_kinds rolloutComplete {IntentComplete}"
  "rule_kinds drainOutgoing {IntentDrain}"
  "rule_kinds reapDrained {IntentDestroy}"
  "rule_kinds reapFailedOutgoing {IntentDestroy}"
  "rule_kinds recreateRampUp {IntentCreate}"
  "rule_kinds recreateScaleDown {IntentDestroy, IntentDrain}"
  "rule_kinds recreateComplete {IntentComplete}"
  by (auto simp: rule_kinds_def rule_defs destroyAll_def failIntent_def createIntent_def trimLoop_eq Let_def
      split: if_splits)

lemma switch_only_drainOutgoing:
  assumes "rl \<in> set (rulesFor cascades rg)" and "rule_when rl rg"
    and "it \<in> set (rule_then rl rg)" and "it_SwitchTraffic it"
  shows "rule_name rl = ''drainOutgoing''"
  using assms
  by (auto simp: rulesFor_def cascade_defs rule_defs destroyAll_def failIntent_def createIntent_def
      trimLoop_eq Let_def split: if_splits)


section \<open>Counting the replicas of a group\<close>

lemma healthyTargets_bounds: "0 \<le> healthyTargets rg" "healthyTargets rg \<le> int (length (rg_TargetReplicas rg))"
  by (auto simp: healthyTargets_def)

lemma healthyTargets_all_healthy:
  assumes "list_all r_Healthy (rg_TargetReplicas rg)"
  shows "healthyTargets rg =
    int (length (rg_TargetReplicas rg)) - int (length (filter r_HostDraining (rg_TargetReplicas rg)))"
proof -
  have "filter (\<lambda>rp. r_Healthy rp \<and> \<not> r_HostDraining rp) (rg_TargetReplicas rg)
      = filter (\<lambda>rp. \<not> r_HostDraining rp) (rg_TargetReplicas rg)"
    using assms by (intro filter_cong) (auto simp: list_all_iff)
  then show ?thesis
    using length_filter_partition [of r_HostDraining "rg_TargetReplicas rg"]
    by (simp add: healthyTargets_def)
qed

lemma all_healthy_conv: "\<not> rule_when notAllHealthy rg \<longleftrightarrow> list_all r_Healthy (rg_TargetReplicas rg)"
  by (auto simp: notAllHealthy_def list_ex_iff list_all_iff)

lemma none_hostless_conv:
  "\<not> rule_when anyHostlessReplicas rg \<longleftrightarrow> list_all (\<lambda>r. \<not> hostless r) (rg_TargetReplicas rg)"
  by (auto simp: anyHostlessReplicas_def list_ex_iff list_all_iff)

text \<open>
  Past the ramp-up and the scale-down gates the group is exactly full: every slot is held and
  nothing is on a draining host.
\<close>

lemma full_group:
  assumes "\<not> rule_when notAllHealthy rg" "\<not> rule_when rollingRampUp rg" "\<not> rule_when rollingScaleDown rg"
  shows "int (length (rg_TargetReplicas rg)) + int (length (rg_FrozenReplicas rg)) = ds_Replicas (rg_Desired rg)"
    and "list_all (\<lambda>r. \<not> r_HostDraining r) (rg_TargetReplicas rg)"
    and "heldSlots rg = ds_Replicas (rg_Desired rg)"
proof -
  let ?dr = "filter r_HostDraining (rg_TargetReplicas rg)"
  have "heldSlots rg = int (length (rg_TargetReplicas rg)) - int (length ?dr) + int (length (rg_FrozenReplicas rg))"
    using assms(1) by (simp add: all_healthy_conv heldSlots_def healthyTargets_all_healthy)
  moreover have "ds_Replicas (rg_Desired rg) \<le> heldSlots rg" "excess rg \<le> 0"
    using assms(2,3) by (auto simp: rollingRampUp_def rollingScaleDown_def)
  ultimately have "length ?dr = 0" and
    full: "int (length (rg_TargetReplicas rg)) + int (length (rg_FrozenReplicas rg)) = ds_Replicas (rg_Desired rg)"
    and held: "heldSlots rg = ds_Replicas (rg_Desired rg)"
    unfolding excess_def by linarith+
  then show "list_all (\<lambda>r. \<not> r_HostDraining r) (rg_TargetReplicas rg)"
    by (simp add: filter_empty_conv list_all_iff)
  from full held show "int (length (rg_TargetReplicas rg)) + int (length (rg_FrozenReplicas rg)) = ds_Replicas (rg_Desired rg)"
    and "heldSlots rg = ds_Replicas (rg_Desired rg)" by auto
qed

section \<open>Blue/green: the old side goes only when the new side is complete\<close>

lemma switch_rolling_guards:
  assumes "rollingGroup rg" and "it \<in> set (groupIntents rg)" and "it_SwitchTraffic it"
  shows "\<not> rule_when deploymentFrozen rg" "\<not> rule_when crashLooping rg"
    "\<not> rule_when anyHostlessReplicas rg" "\<not> rule_when newHealthOpenPastDeadline rg" "\<not> rule_when notAllHealthy rg"
    "\<not> rule_when rollingRampUp rg" "\<not> rule_when rollingScaleDown rg"
    "it \<in> set (rule_then drainOutgoing rg)"
  using assms
  by (auto simp: rolling_chain rule_defs destroyAll_def failIntent_def createIntent_def trimLoop_eq Let_def
      split: if_splits)


text \<open>
  The new revision may take over: its deployment has not failed; the current replicas, live and frozen,
  are exactly as many as desired; every live one is healthy, placed, on a host that stays, within its
  restart budget, and has not outlived its progress deadline unchecked.
\<close>

definition takesOver :: "replicaGroup \<Rightarrow> bool" where
  "takesOver rg \<longleftrightarrow> ds_Status (rg_Desired rg) \<noteq> DeploymentFailed
    \<and> int (length (rg_TargetReplicas rg)) + int (length (rg_FrozenReplicas rg)) = ds_Replicas (rg_Desired rg)
    \<and> (\<forall>r \<in> set (rg_TargetReplicas rg). r_Healthy r \<and> \<not> hostless r \<and> \<not> r_HostDraining r
           \<and> r_RestartCount r \<le> ds_RestartMax (rg_Desired rg) \<and> \<not> pastDeadline rg r)"

lemma past_deadline_conv:
  "\<not> rule_when newHealthOpenPastDeadline rg \<longleftrightarrow> (\<forall>r \<in> set (rg_TargetReplicas rg). \<not> pastDeadline rg r)"
  by (auto simp: newHealthOpenPastDeadline_def list_ex_iff)

lemma takesOver_guards:
  assumes "takesOver rg"
  shows "\<not> rule_when deploymentFrozen rg" "\<not> rule_when crashLooping rg" "\<not> rule_when trimHostlessExcess rg"
    "\<not> rule_when anyHostlessReplicas rg" "\<not> rule_when newHealthOpenPastDeadline rg" "\<not> rule_when notAllHealthy rg"
    "\<not> rule_when rollingRampUp rg" "\<not> rule_when rollingScaleDown rg"
proof -
  have healthy: "list_all r_Healthy (rg_TargetReplicas rg)" and stay: "filter r_HostDraining (rg_TargetReplicas rg) = []"
    using assms by (auto simp: takesOver_def list_all_iff filter_empty_conv)
  then have "heldSlots rg = ds_Replicas (rg_Desired rg)"
    using assms by (simp add: takesOver_def heldSlots_def healthyTargets_all_healthy)
  then show "\<not> rule_when rollingRampUp rg"
    by (simp add: rollingRampUp_def)
  show "\<not> rule_when rollingScaleDown rg"
    using assms by (simp add: takesOver_def rollingScaleDown_def excess_def)
  show "\<not> rule_when deploymentFrozen rg" "\<not> rule_when crashLooping rg" "\<not> rule_when trimHostlessExcess rg"
    "\<not> rule_when anyHostlessReplicas rg" "\<not> rule_when newHealthOpenPastDeadline rg" "\<not> rule_when notAllHealthy rg"
    using assms
    by (auto simp: takesOver_def deploymentFrozen_def crashLooping_def trimHostlessExcess_def anyHostlessReplicas_def
        past_deadline_conv notAllHealthy_def list_ex_iff overRestartBudget_def not_less)
qed

lemma switch_takesOver:
  assumes "rollingGroup rg" and "it \<in> set (groupIntents rg)" and "it_SwitchTraffic it"
  shows "takesOver rg"
proof -
  note guards = switch_rolling_guards [OF assms]
  note full = full_group [OF guards(5,6,7)]
  have "ds_Status (rg_Desired rg) \<noteq> DeploymentFailed"
    using guards(1) by (simp add: deploymentFrozen_def)
  moreover have "\<forall>r \<in> set (rg_TargetReplicas rg). r_RestartCount r \<le> ds_RestartMax (rg_Desired rg)"
    using guards(2) by (auto simp: crashLooping_def list_ex_iff overRestartBudget_def not_less)
  moreover have "\<forall>r \<in> set (rg_TargetReplicas rg). r_Healthy r \<and> \<not> hostless r \<and> \<not> r_HostDraining r"
    using guards(3,5) full(2) by (auto simp: all_healthy_conv none_hostless_conv list_all_iff)
  ultimately show ?thesis
    using guards(4) full(1) by (auto simp: takesOver_def past_deadline_conv)
qed

text \<open>
  C1: When traffic moves. In a rolling (stateless) group a pass switches traffic away from the outgoing
  revision exactly when the new one may take over, and then it drains every outgoing replica that is not
  draining or dead already, each at the revision the pass saw, all naming the new deployment; otherwise
  it emits no switch at all. Taking over means that the deployment has not failed and that every desired
  slot is held: by a live replica that is healthy, placed, off draining hosts, within its restart budget
  and not past its deadline, or by a replica frozen in failure, for which the planner makes no
  replacement. The replicas that can serve are then the desired count less the frozen ones - the
  whole desired count when none is frozen.
\<close>
theorem rolling_switch_exact:
  assumes "rollingGroup rg"
  shows "filter it_SwitchTraffic (groupIntents rg) =
      (if ds_Status (rg_Desired rg) \<noteq> DeploymentFailed
          \<and> int (length (rg_TargetReplicas rg)) + int (length (rg_FrozenReplicas rg)) = ds_Replicas (rg_Desired rg)
          \<and> (\<forall>r \<in> set (rg_TargetReplicas rg). r_Healthy r \<and> \<not> hostless r \<and> \<not> r_HostDraining r
                 \<and> r_RestartCount r \<le> ds_RestartMax (rg_Desired rg) \<and> \<not> pastDeadline rg r)
       then map (\<lambda>r. (mkIntent IntentDrain)\<lparr>it_Group := ds_Slot (rg_Desired rg), it_ReplicaID := r_ID r,
                it_Revision := r_Revision r, it_DeploymentID := ds_DeploymentID (rg_Desired rg), it_SwitchTraffic := True\<rparr>)
              (filter drainable (rg_OutgoingReplicas rg))
       else [])
    \<and> (filter it_SwitchTraffic (groupIntents rg) \<noteq> [] \<longrightarrow>
         int (length (filter (\<lambda>r. r_Healthy r \<and> \<not> hostless r \<and> \<not> r_HostDraining r) (rg_TargetReplicas rg)))
           = ds_Replicas (rg_Desired rg) - int (length (rg_FrozenReplicas rg)))"
proof -
  let ?switches = "filter it_SwitchTraffic (groupIntents rg)"
  have none: "?switches = []" if "\<not> takesOver rg"
    using switch_takesOver [OF assms] that by (auto simp: filter_empty_conv)
  have some: "?switches = rule_then drainOutgoing rg" if t: "takesOver rg"
  proof (cases "rule_when drainOutgoing rg")
    case True
    then have "\<not> rule_when rolloutComplete rg"
      by (auto simp: drainOutgoing_def rolloutComplete_def)
    with True takesOver_guards [OF t] have "groupIntents rg = rule_then drainOutgoing rg"
      by (simp add: rolling_chain [OF assms])
    then show ?thesis
      by (simp add: drainOutgoing_def filter_id_conv)
  next
    case False
    then have "rule_then drainOutgoing rg = []"
      by (auto simp: drainOutgoing_def list_ex_iff filter_empty_conv)
    moreover have "?switches = []"
      using switch_rolling_guards(8) [OF assms] calculation by (auto simp: filter_empty_conv)
    ultimately show ?thesis by simp
  qed
  have "filter (\<lambda>r. r_Healthy r \<and> \<not> hostless r \<and> \<not> r_HostDraining r) (rg_TargetReplicas rg) = rg_TargetReplicas rg"
    if "takesOver rg"
    using that by (auto simp: takesOver_def filter_id_conv)
  then have serving: "int (length (filter (\<lambda>r. r_Healthy r \<and> \<not> hostless r \<and> \<not> r_HostDraining r) (rg_TargetReplicas rg)))
           = ds_Replicas (rg_Desired rg) - int (length (rg_FrozenReplicas rg))" if "takesOver rg"
    using that by (simp add: takesOver_def)
  from none some have "?switches = (if takesOver rg then rule_then drainOutgoing rg else [])"
    by simp
  moreover have "rule_then drainOutgoing rg = map (\<lambda>r. (mkIntent IntentDrain)\<lparr>it_Group := ds_Slot (rg_Desired rg), it_ReplicaID := r_ID r,
                it_Revision := r_Revision r, it_DeploymentID := ds_DeploymentID (rg_Desired rg), it_SwitchTraffic := True\<rparr>)
              (filter drainable (rg_OutgoingReplicas rg))"
    by (simp add: drainOutgoing_def)
  ultimately show ?thesis
    using none serving unfolding takesOver_def by (intro conjI) (simp only:, blast)
qed

definition demo_replica :: "uuid \<Rightarrow> replica" where
  "demo_replica i = \<lparr>r_ID = i, r_DeploymentID = 1, r_Slot = \<lparr>rs_EnvironmentServiceID = 1, rs_Region = ''us''\<rparr>,
     r_HostID = 9, r_VolumeID = uuid_Nil, r_CPUMillicores = 100, r_MemBytes = 100,
     r_DesiredStatus = ReplicaDesiredRunning, r_Phase = ReplicaPhaseActive, r_Healthy = True,
     r_RestartCount = 0, r_DrainSeconds = 30, r_DrainedAt = zero_time, r_HealthChecksPassedAt = 50,
     r_CreatedAt = 40, r_Revision = 7, r_Version = 1, r_Current = True, r_HostDraining = False\<rparr>"

definition demo_desired :: desiredState where
  "demo_desired = \<lparr>ds_Slot = \<lparr>rs_EnvironmentServiceID = 1, rs_Region = ''us''\<rparr>, ds_DeploymentID = 1,
     ds_Replicas = 1, ds_CPUMillicores = 100, ds_MemBytes = 100, ds_RestartMax = 5,
     ds_ProgressDeadline = 600, ds_Status = DeploymentPending, ds_Stateful = False\<rparr>"

definition demo_group :: replicaGroup where
  "demo_group = \<lparr>rg_Desired = demo_desired, rg_Volume = zero_volume,
     rg_TargetReplicas = [demo_replica 1], rg_FrozenReplicas = [],
     rg_OutgoingReplicas = [(demo_replica 2)\<lparr>r_Current := False\<rparr>], rg_ObservedAt = 1000\<rparr>"

lemmas demo_defs = demo_replica_def demo_desired_def demo_group_def

lemmas eval_rules =
  rolling_chain recreate_chain orphan_chain rollingGroup_def recreateGroup_def orphanGroup_def
  rule_defs excess_def stayingExcess_def heldSlots_def healthyTargets_def overRestartBudget_def
  hostless_def failedPhase_def drainable_def Terminal_def pastDeadline_def IsZero_def
  drainWindowElapsed_def time_Sub_def Second_def scaleDownLive_def scaleDownFrozen_def
  scaleDownCmp_def mkIntent_def destroyAll_def failIntent_def createIntent_def

lemma demo_switch:
  "rollingGroup demo_group"
  "groupIntents demo_group = [(mkIntent IntentDrain)\<lparr>it_Group := ds_Slot demo_desired, it_ReplicaID := 2,
     it_Revision := 7, it_DeploymentID := 1, it_SwitchTraffic := True\<rparr>]"
  by (simp_all add: eval_rules demo_defs)

theorem rolling_switch_exact_witness:
  "filter it_SwitchTraffic (groupIntents demo_group) = [(mkIntent IntentDrain)\<lparr>it_Group := ds_Slot demo_desired,
     it_ReplicaID := 2, it_Revision := 7, it_DeploymentID := 1, it_SwitchTraffic := True\<rparr>]"
  by (subst rolling_switch_exact [OF demo_switch(1), THEN conjunct1])
    (simp add: demo_defs drainable_def Terminal_def hostless_def pastDeadline_def IsZero_def mkIntent_def)


section \<open>Creation never overshoots, and a stateful slot has one writer\<close>

definition creates :: "replicaGroup \<Rightarrow> nat" where
  "creates rg = length (filter (\<lambda>it. it_Kind it = IntentCreate) (groupIntents rg))"

lemma creates_pos: "0 < creates rg \<Longrightarrow> \<exists>it \<in> set (groupIntents rg). it_Kind it = IntentCreate"
  by (auto simp: creates_def filter_empty_conv)

lemma creates_rolling:
  assumes "rollingGroup rg" and "0 < creates rg"
  shows "\<not> rule_when anyHostlessReplicas rg" "\<not> rule_when notAllHealthy rg"
    "rule_when rollingRampUp rg" "groupIntents rg = rule_then rollingRampUp rg"
  using assms(1) creates_pos [OF assms(2)]
  by (auto simp: rolling_chain destroyAll_def failIntent_def trim_then
      dest: rule_kinds_all [THEN rule_kindsD, rotated] split: if_splits)

lemma creates_recreate:
  assumes "recreateGroup rg" and "0 < creates rg"
  shows "\<not> rule_when anyHostlessReplicas rg" "\<not> rule_when notAllHealthy rg"
    "rule_when recreateRampUp rg" "groupIntents rg = rule_then recreateRampUp rg"
  using assms(1) creates_pos [OF assms(2)]
  by (auto simp: recreate_chain
      dest: rule_kinds_all [THEN rule_kindsD, rotated] split: if_splits)

lemma creates_orphan:
  assumes "orphanGroup rg"
  shows "\<not> 0 < creates rg"
proof
  assume "0 < creates rg"
  from assms creates_pos [OF this] show False
    by (auto simp: orphan_chain
        dest: rule_kinds_all [THEN rule_kindsD, rotated] split: if_splits)
qed

lemma filter_replicate_create [simp]:
  "filter (\<lambda>it. it_Kind it = IntentCreate) (replicate n it) = (if it_Kind it = IntentCreate then replicate n it else [])"
  by simp

text \<open>
  A pass creates replicas in a group only when every current replica is placed and healthy; it
  never creates more than the slots that are free (so held slots plus creations stay within the
  desired count), it creates a single canary while no replica of the revision has proven healthy in a
  rolling group, and in a stateful group it creates nothing before every outgoing replica is gone.
\<close>
theorem create_within_free_slots:
  assumes "0 < creates rg"
  shows "heldSlots rg + int (creates rg) \<le> ds_Replicas (rg_Desired rg)
    \<and> (\<forall>r \<in> set (rg_TargetReplicas rg). r_Healthy r \<and> \<not> hostless r)
    \<and> (if ds_Stateful (rg_Desired rg) then rg_OutgoingReplicas rg = []
       else if healthyTargets rg = 0 then creates rg = 1
       else int (creates rg) = ds_Replicas (rg_Desired rg) - heldSlots rg)"
proof -
  from assms have "\<not> orphanGroup rg"
    by (auto dest: creates_orphan)
  then consider "rollingGroup rg" | "recreateGroup rg"
    using group_cases by blast
  then show ?thesis
  proof cases
    case 1
    note g = creates_rolling [OF 1 assms]
    then show ?thesis
      using 1 by (auto simp: creates_def rollingRampUp_def createIntent_def Let_def all_healthy_conv
          none_hostless_conv list_all_iff rollingGroup_def)
  next
    case 2
    note g = creates_recreate [OF 2 assms]
    then show ?thesis
      using 2 by (auto simp: creates_def recreateRampUp_def createIntent_def all_healthy_conv
          none_hostless_conv list_all_iff recreateGroup_def)
  qed
qed

definition demo_canary :: replicaGroup where
  "demo_canary = demo_group\<lparr>rg_Desired := demo_desired\<lparr>ds_Replicas := 4\<rparr>, rg_TargetReplicas := []\<rparr>"

theorem create_within_free_slots_witness: "creates demo_canary = 1 \<and> heldSlots demo_canary + 1 \<le> 4"
proof -
  have "0 < creates demo_canary"
    by (simp add: creates_def demo_canary_def eval_rules demo_defs)
  from create_within_free_slots [OF this] show ?thesis
    by (simp add: demo_canary_def eval_rules demo_defs)
qed

text \<open>
  Single writer: in a stateful group that wants at most one replica, whose replicas are pinned to
  their volume (none leaves with a draining host), a creation is emitted only when the group holds no
  replica at all - current, frozen or outgoing - and then exactly one, bound to the slot's volume.
\<close>
theorem recreate_single_writer:
  assumes "recreateGroup rg" and "ds_Replicas (rg_Desired rg) \<le> 1"
    and "\<forall>r \<in> set (rg_TargetReplicas rg). \<not> r_HostDraining r"
    and "0 < creates rg"
  shows "rg_TargetReplicas rg = [] \<and> rg_FrozenReplicas rg = [] \<and> rg_OutgoingReplicas rg = []
    \<and> groupIntents rg = [(createIntent rg)\<lparr>it_VolumeID := v_ID (rg_Volume rg)\<rparr>]"
proof -
  note g = creates_recreate [OF assms(1,4)]
  have "list_all r_Healthy (rg_TargetReplicas rg)"
    using g(2) by (simp add: all_healthy_conv)
  then have "healthyTargets rg = int (length (rg_TargetReplicas rg))"
    using assms(3) by (simp add: healthyTargets_all_healthy filter_False)
  moreover have "heldSlots rg < ds_Replicas (rg_Desired rg)" "rg_OutgoingReplicas rg = []"
    using g(3) by (auto simp: recreateRampUp_def)
  ultimately have "length (rg_TargetReplicas rg) = 0" "length (rg_FrozenReplicas rg) = 0"
    "ds_Replicas (rg_Desired rg) = 1"
    using assms(2) unfolding heldSlots_def by linarith+
  then show ?thesis
    using g(4) \<open>rg_OutgoingReplicas rg = []\<close>
    by (simp add: recreateRampUp_def heldSlots_def healthyTargets_def)
qed

definition demo_stateful :: replicaGroup where
  "demo_stateful = demo_canary\<lparr>rg_Desired := demo_desired\<lparr>ds_Stateful := True\<rparr>,
     rg_Volume := zero_volume\<lparr>v_ID := 77\<rparr>, rg_OutgoingReplicas := []\<rparr>"

theorem recreate_single_writer_witness:
  "map it_VolumeID (groupIntents demo_stateful) = [77]"
proof -
  have "0 < creates demo_stateful" "recreateGroup demo_stateful"
    by (simp_all add: creates_def demo_stateful_def demo_canary_def eval_rules demo_defs)
  moreover have "ds_Replicas (rg_Desired demo_stateful) \<le> 1"
    "\<forall>r \<in> set (rg_TargetReplicas demo_stateful). \<not> r_HostDraining r"
    by (simp_all add: demo_stateful_def demo_canary_def demo_defs)
  ultimately have "groupIntents demo_stateful
    = [(createIntent demo_stateful)\<lparr>it_VolumeID := v_ID (rg_Volume demo_stateful)\<rparr>]"
    using recreate_single_writer [of demo_stateful] by simp
  then show ?thesis
    by (simp add: demo_stateful_def)
qed

section \<open>Scale-down and evacuation\<close>

interpretation scale_down: comparison scaleDownCmp
  by unfold_locales (auto simp: scaleDownCmp_def sgn_if split: if_splits)

lemma scaleDown_counts:
  assumes "0 \<le> ds_Replicas (rg_Desired rg)" and "0 < excess rg"
  shows "0 \<le> scaleDownFrozen rg" "scaleDownFrozen rg \<le> int (length (rg_FrozenReplicas rg))"
    "0 \<le> scaleDownLive rg" "scaleDownLive rg \<le> int (length (rg_TargetReplicas rg))"
  using assms by (auto simp: scaleDownFrozen_def scaleDownLive_def excess_def min_def)

lemma scaleDown_length:
  assumes "0 \<le> ds_Replicas (rg_Desired rg)" and "0 < excess rg"
  shows "int (length (rule_then rollingScaleDown rg)) = excess rg"
proof -
  have "int (length (rule_then rollingScaleDown rg)) = scaleDownFrozen rg + scaleDownLive rg"
    using scaleDown_counts [OF assms] by (simp add: rollingScaleDown_def)
  then show ?thesis
    by (simp add: scaleDownLive_def)
qed

lemma sorted_take_drop:
  assumes "sorted_wrt R xs" and "x \<in> set (take n xs)" and "y \<in> set (drop n xs)"
  shows "R x y"
  using assms by (metis append_take_drop_id sorted_wrt_append)





text \<open>The drains of a scale-down name no deployment and do not switch traffic.\<close>

definition retires :: "replicaGroup \<Rightarrow> uuid set" where
  "retires rg = it_ReplicaID ` set (filter (\<lambda>it. it_Kind it = IntentDrain \<and> \<not> it_SwitchTraffic it) (groupIntents rg))"

lemma retires_rolling:
  assumes "rollingGroup rg" and "retires rg \<noteq> {}"
  shows "\<not> rule_when anyHostlessReplicas rg" "\<not> rule_when notAllHealthy rg"
    "\<not> rule_when rollingRampUp rg" "rule_when rollingScaleDown rg"
    "groupIntents rg = rule_then rollingScaleDown rg"
proof -
  from assms(2) obtain it where it: "it \<in> set (groupIntents rg)" "it_Kind it = IntentDrain" "\<not> it_SwitchTraffic it"
    by (auto simp: retires_def)
  have dr: "rule_when drainOutgoing rg \<Longrightarrow> it \<in> set (rule_then drainOutgoing rg) \<Longrightarrow> it_SwitchTraffic it"
    by (auto simp: drainOutgoing_def)
  from assms(1) it dr show "\<not> rule_when anyHostlessReplicas rg" "\<not> rule_when notAllHealthy rg"
    "\<not> rule_when rollingRampUp rg" "rule_when rollingScaleDown rg"
    "groupIntents rg = rule_then rollingScaleDown rg"
    by (auto simp: rolling_chain dest: rule_kinds_all [THEN rule_kindsD, rotated] split: if_splits)
qed

lemma retires_scale_down:
  assumes "groupIntents rg = rule_then rollingScaleDown rg"
  shows "retires rg = r_ID ` set (take (nat (scaleDownLive rg)) (sort_by scaleDownCmp (rg_TargetReplicas rg)))"
  using assms by (auto simp: retires_def rollingScaleDown_def destroyAll_def image_iff)

lemma survivors_drop:
  assumes "distinct (map key xs)"
  shows "filter (\<lambda>x. key x \<notin> key ` set (take n xs)) xs = drop n xs"
proof -
  have "distinct (map key (take n xs @ drop n xs))"
    using assms by simp
  then have "key ` set (take n xs) \<inter> key ` set (drop n xs) = {}"
    by (simp del: append_take_drop_id)
  then have "filter (\<lambda>x. key x \<notin> key ` set (take n xs)) (take n xs @ drop n xs) = drop n xs"
    unfolding filter_append by (auto simp: filter_empty_conv filter_id_conv)
  then show ?thesis by simp
qed

text \<open>Of a list whose first part holds only elements with the property as long as the second part holds one.\<close>

lemma drain_first_count:
  assumes "\<And>d k. d \<in> set (take n xs) \<Longrightarrow> k \<in> set (drop n xs) \<Longrightarrow> P k \<Longrightarrow> P d" "n \<le> length xs"
  shows "length (filter P (drop n xs)) = length (filter P xs) - n"
proof -
  have split: "length (filter P xs) = length (filter P (take n xs)) + length (filter P (drop n xs))"
    by (metis append_take_drop_id filter_append length_append)
  show ?thesis
  proof (cases "filter P (drop n xs) = []")
    case True
    have "length (filter P (take n xs)) \<le> n"
      using length_filter_le [of P "take n xs"] by simp
    with True split show ?thesis by simp
  next
    case False
    then obtain k where "k \<in> set (drop n xs)" "P k"
      by (auto simp: filter_empty_conv)
    with assms(1) have "filter P (take n xs) = take n xs"
      by (auto simp: filter_id_conv)
    with split assms(2) show ?thesis by simp
  qed
qed

text \<open>
  C3: Evacuation never dips below the desired count. When a rolling group retires live current replicas
  (a scale-down, or the second half of a host evacuation), every frozen replica is destroyed, the live
  replicas it leaves are exactly as many as desired, and each of them is healthy and placed. Those on a
  draining host leave first: a replica on a host that stays is retired only when none on a draining host
  is left. What is left on draining hosts are as many as the draining hosts held more than were retired,
  at most one for each frozen replica that was destroyed, whose slot the next pass fills first; so
  without frozen replicas every replica left is on a host that stays.
\<close>
theorem evacuation_keeps_capacity:
  assumes "rollingGroup rg" and "0 \<le> ds_Replicas (rg_Desired rg)"
    and "distinct (map r_ID (rg_TargetReplicas rg))"
    and "retires rg \<noteq> {}"
    and "kept = filter (\<lambda>r. r_ID r \<notin> retires rg) (rg_TargetReplicas rg)"
  shows "int (length kept) = ds_Replicas (rg_Desired rg)
    \<and> (\<forall>r \<in> set kept. r_Healthy r \<and> \<not> hostless r)
    \<and> (\<forall>f \<in> set (rg_FrozenReplicas rg). \<exists>it \<in> set (groupIntents rg). it_Kind it = IntentDestroy \<and> it_ReplicaID it = r_ID f)
    \<and> ((\<exists>r \<in> set (rg_TargetReplicas rg). r_ID r \<in> retires rg \<and> \<not> r_HostDraining r) \<longrightarrow> (\<forall>r \<in> set kept. \<not> r_HostDraining r))
    \<and> length (filter r_HostDraining kept) = length (filter r_HostDraining (rg_TargetReplicas rg)) - card (retires rg)
    \<and> length (filter r_HostDraining kept) \<le> length (rg_FrozenReplicas rg)"
proof -
  note g = retires_rolling [OF assms(1,4)]
  let ?ts = "rg_TargetReplicas rg"
  let ?xs = "sort_by scaleDownCmp ?ts" and ?n = "nat (scaleDownLive rg)"
  let ?keep = "\<lambda>r. r_ID r \<notin> retires rg"
  have ex: "0 < excess rg"
    using g(4) by (simp add: rollingScaleDown_def)
  note c = scaleDown_counts [OF assms(2) ex]
  have ids: "distinct (map r_ID ?xs)"
    using assms(3) by (metis mset_eq_imp_distinct_iff mset_map mset_sort_by)
  have ret: "retires rg = r_ID ` set (take ?n ?xs)"
    by (rule retires_scale_down [OF g(5)])
  then have "take ?n ?xs \<noteq> []"
    using assms(4) by auto
  then have live: "0 < scaleDownLive rg"
    by auto
  then have frozen: "scaleDownFrozen rg = int (length (rg_FrozenReplicas rg))"
    by (auto simp: scaleDownLive_def scaleDownFrozen_def)
  then have drained: "scaleDownLive rg = int (length ?ts) - ds_Replicas (rg_Desired rg)"
    by (simp add: scaleDownLive_def excess_def)
  have keep_xs: "filter ?keep ?xs = drop ?n ?xs"
    unfolding ret by (rule survivors_drop [OF ids])
  have kept: "mset kept = mset (drop ?n ?xs)"
    unfolding assms(5) using keep_xs by (metis mset_filter mset_sort_by)
  then have len: "length kept = length (drop ?n ?xs)" and sets: "set kept = set (drop ?n ?xs)"
    and dr: "length (filter r_HostDraining kept) = length (filter r_HostDraining (drop ?n ?xs))"
    by (metis size_mset) (metis kept set_mset_mset, metis kept mset_filter size_mset)
  have healthy: "list_all r_Healthy ?ts" "list_all (\<lambda>r. \<not> hostless r) ?ts"
    using g(1,2) by (simp_all add: all_healthy_conv none_hostless_conv)
  have all: "length (filter r_HostDraining ?xs) = length (filter r_HostDraining ?ts)"
    by (metis mset_filter mset_sort_by size_mset)
  have first: "r_HostDraining d" if "d \<in> set (take ?n ?xs)" "k \<in> set (drop ?n ?xs)" "r_HostDraining k" for d k
    using sorted_take_drop [OF scale_down.sorted_sort_by that(1,2)] that(3)
    by (simp add: scaleDownCmp_def split: if_splits)
  have card: "card (retires rg) = ?n"
    using ids c live by (simp add: ret card_image inj_on_def distinct_map distinct_card take_map [symmetric] flip: set_map)
  have left: "length (filter r_HostDraining kept) = length (filter r_HostDraining ?ts) - ?n"
    unfolding dr all [symmetric] by (rule drain_first_count) (use first c in auto)
  have few: "length (filter r_HostDraining ?ts) \<le> ?n + length (rg_FrozenReplicas rg)"
    using g(3) drained c healthyTargets_all_healthy [OF healthy(1)]
    by (simp add: rollingRampUp_def heldSlots_def)
  have "\<forall>f \<in> set (rg_FrozenReplicas rg). \<exists>it \<in> set (groupIntents rg). it_Kind it = IntentDestroy \<and> it_ReplicaID it = r_ID f"
    unfolding g(5) by (auto simp: rollingScaleDown_def destroyAll_def frozen bex_Un)
  moreover have "\<forall>r \<in> set kept. \<not> r_HostDraining r" if stays: "\<exists>r \<in> set ?ts. r_ID r \<in> retires rg \<and> \<not> r_HostDraining r"
  proof -
    obtain r where r: "r \<in> set ?xs" "r_ID r \<in> r_ID ` set (take ?n ?xs)" "\<not> r_HostDraining r"
      using stays unfolding ret set_sort_by by blast
    moreover have "inj_on r_ID (set ?xs)"
      using ids by (simp add: distinct_map)
    ultimately have "r \<in> set (take ?n ?xs)"
      using inj_on_image_mem_iff [of r_ID "set ?xs" r "set (take ?n ?xs)"] set_take_subset by metis
    with first r(3) show ?thesis
      unfolding sets by blast
  qed
  moreover have "int (length kept) = ds_Replicas (rg_Desired rg)"
    using len drained c assms(2) by simp
  ultimately show ?thesis
    using left few sets healthy card by (auto simp: list_all_iff dest: in_set_dropD)
qed

definition demo_evacuation :: replicaGroup where
  "demo_evacuation = demo_group\<lparr>rg_OutgoingReplicas := [],
     rg_TargetReplicas := [demo_replica 1, (demo_replica 2)\<lparr>r_HostDraining := True\<rparr>]\<rparr>"

theorem evacuation_keeps_capacity_witness:
  "retires demo_evacuation = {2} \<and> filter (\<lambda>r. r_ID r \<notin> retires demo_evacuation) (rg_TargetReplicas demo_evacuation) = [demo_replica 1]
   \<and> \<not> r_HostDraining (demo_replica 1)"
proof -
  have roll: "rollingGroup demo_evacuation" "0 \<le> ds_Replicas (rg_Desired demo_evacuation)"
    "distinct (map r_ID (rg_TargetReplicas demo_evacuation))"
    by (simp_all add: demo_evacuation_def eval_rules demo_defs)
  have ret: "retires demo_evacuation = {2}"
    by (simp add: retires_def demo_evacuation_def eval_rules demo_defs)
  then have keep: "[demo_replica 1] = filter (\<lambda>r. r_ID r \<notin> retires demo_evacuation) (rg_TargetReplicas demo_evacuation)"
    by (simp add: demo_evacuation_def demo_defs)
  have "retires demo_evacuation \<noteq> {}" by (simp add: ret)
  from evacuation_keeps_capacity [OF roll this keep]
  have "length (filter r_HostDraining [demo_replica 1]) \<le> length (rg_FrozenReplicas demo_evacuation)" by blast
  moreover have "rg_FrozenReplicas demo_evacuation = []"
    by (simp add: demo_evacuation_def demo_group_def)
  ultimately show ?thesis
    unfolding keep [symmetric] by (simp add: ret split: if_splits)
qed


section \<open>Idle groups, failed deployments, destroyed replicas\<close>

text \<open>An outgoing replica that is on its way out and whose drain window is still open.\<close>

definition bleeding :: "time \<Rightarrow> replica \<Rightarrow> bool" where
  "bleeding now r \<longleftrightarrow> \<not> drainable r \<and> \<not> drainWindowElapsed r now \<and> \<not> failedPhase r"

definition converged :: "replicaGroup \<Rightarrow> bool" where
  "converged rg \<longleftrightarrow> ds_Status (rg_Desired rg) = DeploymentActive
    \<and> int (length (rg_TargetReplicas rg)) + int (length (rg_FrozenReplicas rg)) = ds_Replicas (rg_Desired rg)
    \<and> (\<forall>r \<in> set (rg_TargetReplicas rg). r_Healthy r \<and> \<not> hostless r \<and> \<not> r_HostDraining r
           \<and> r_RestartCount r \<le> ds_RestartMax (rg_Desired rg))
    \<and> rg_OutgoingReplicas rg = []"

lemma outgoing_idle:
  "\<not> rule_when drainOutgoing rg \<Longrightarrow> \<not> rule_when reapDrained rg \<Longrightarrow> \<not> rule_when reapFailedOutgoing rg \<Longrightarrow>
   \<forall>r \<in> set (rg_OutgoingReplicas rg). bleeding (rg_ObservedAt rg) r"
  by (auto simp: drainOutgoing_def reapDrained_def reapFailedOutgoing_def list_ex_iff bleeding_def)

lemma rule_then_nonempty:
  "rule_when deploymentFrozen rg \<Longrightarrow> rule_then deploymentFrozen rg \<noteq> []"
  "rule_when crashLooping rg \<Longrightarrow> rule_then crashLooping rg \<noteq> []"
  "rule_when trimHostlessExcess rg \<Longrightarrow> rule_then trimHostlessExcess rg \<noteq> []"
  "rule_when anyHostlessReplicas rg \<Longrightarrow> rule_then anyHostlessReplicas rg \<noteq> []"
  "rule_when newHealthOpenPastDeadline rg \<Longrightarrow> rule_then newHealthOpenPastDeadline rg \<noteq> []"
  "rule_when notAllHealthy rg \<Longrightarrow> rule_then notAllHealthy rg \<noteq> []"
  "rule_when rollingRampUp rg \<Longrightarrow> rule_then rollingRampUp rg \<noteq> []"
  "rule_when rolloutComplete rg \<Longrightarrow> rule_then rolloutComplete rg \<noteq> []"
  "rule_when drainOutgoing rg \<Longrightarrow> rule_then drainOutgoing rg \<noteq> []"
  "rule_when reapDrained rg \<Longrightarrow> rule_then reapDrained rg \<noteq> []"
  "rule_when reapFailedOutgoing rg \<Longrightarrow> rule_then reapFailedOutgoing rg \<noteq> []"
  "rule_when recreateRampUp rg \<Longrightarrow> rule_then recreateRampUp rg \<noteq> []"
  "rule_when recreateComplete rg \<Longrightarrow> rule_then recreateComplete rg \<noteq> []"
  by (auto simp: rule_defs list_ex_filter destroyAll_def trimLoop_eq Let_def replicate_eq_replicate
      replicate_empty split: if_splits)

lemma scale_down_nonempty:
  assumes "0 \<le> ds_Replicas (rg_Desired rg)" "rule_when rollingScaleDown rg"
  shows "rule_then rollingScaleDown rg \<noteq> []"
proof -
  have ex: "0 < excess rg"
    using assms(2) by (simp add: rollingScaleDown_def)
  show ?thesis
    using scaleDown_length [OF assms(1) ex] ex by auto
qed

lemma rolling_guards_idle:
  assumes "\<not> rule_when deploymentFrozen rg" "\<not> rule_when crashLooping rg" "\<not> rule_when anyHostlessReplicas rg"
    "\<not> rule_when notAllHealthy rg" "\<not> rule_when rollingRampUp rg" "\<not> rule_when rollingScaleDown rg"
    "\<not> rule_when rolloutComplete rg"
    "\<forall>r \<in> set (rg_OutgoingReplicas rg). bleeding (rg_ObservedAt rg) r"
  shows "converged rg \<or> (rg_OutgoingReplicas rg \<noteq> [] \<and> (\<forall>r \<in> set (rg_OutgoingReplicas rg). bleeding (rg_ObservedAt rg) r))"
proof -
  note full = full_group [OF assms(4,5,6)]
  have "\<forall>r \<in> set (rg_TargetReplicas rg). r_Healthy r \<and> \<not> hostless r \<and> \<not> r_HostDraining r
           \<and> r_RestartCount r \<le> ds_RestartMax (rg_Desired rg)"
    using assms(2,3,4) full(2)
    by (auto simp: all_healthy_conv none_hostless_conv list_all_iff crashLooping_def list_ex_iff
        overRestartBudget_def not_less)
  moreover have "rg_OutgoingReplicas rg = [] \<Longrightarrow> ds_Status (rg_Desired rg) = DeploymentActive"
    using assms(7) full(3) by (auto simp: rolloutComplete_def split: if_splits)
  ultimately show ?thesis
    using full(1) assms(8) by (auto simp: converged_def)
qed

text \<open>
  C4: The level-triggered loop is idle on a group of a live deployment only when there is nothing left
  to do: if a pass emits no intent for the group, then either the group has converged (the deployment
  is active, exactly the desired replicas stand, all healthy, placed and off draining hosts, nothing
  outgoing) or it is waiting for the drain windows of its remaining outgoing replicas.
\<close>
theorem idle_only_when_converged_or_bleeding:
  assumes "\<not> orphanGroup rg" and "0 \<le> ds_Replicas (rg_Desired rg)" and "groupIntents rg = []"
  shows "converged rg
    \<or> (rg_OutgoingReplicas rg \<noteq> [] \<and> (\<forall>r \<in> set (rg_OutgoingReplicas rg). bleeding (rg_ObservedAt rg) r))"
proof -
  have rs: "rule_when recreateScaleDown rg = rule_when rollingScaleDown rg"
    "rule_then recreateScaleDown rg = rule_then rollingScaleDown rg"
    "rule_when recreateComplete rg = rule_when rolloutComplete rg"
    "rule_then recreateComplete rg = rule_then rolloutComplete rg"
    by (simp_all add: recreateScaleDown_def recreateComplete_def)
  consider "rollingGroup rg" | "recreateGroup rg"
    using assms(1) group_cases by blast
  then show ?thesis
  proof cases
    case 1
    from assms(3) have "\<not> rule_when deploymentFrozen rg \<and> \<not> rule_when crashLooping rg
      \<and> \<not> rule_when anyHostlessReplicas rg \<and> \<not> rule_when notAllHealthy rg
      \<and> \<not> rule_when rollingRampUp rg \<and> \<not> rule_when rollingScaleDown rg \<and> \<not> rule_when rolloutComplete rg
      \<and> \<not> rule_when drainOutgoing rg \<and> \<not> rule_when reapDrained rg \<and> \<not> rule_when reapFailedOutgoing rg"
      unfolding rolling_chain [OF 1]
      by (auto split: if_splits simp: rule_then_nonempty scale_down_nonempty [OF assms(2)])
    then show ?thesis
      using rolling_guards_idle outgoing_idle by blast
  next
    case 2
    from assms(3) have g: "\<not> rule_when deploymentFrozen rg \<and> \<not> rule_when crashLooping rg
      \<and> \<not> rule_when anyHostlessReplicas rg \<and> \<not> rule_when notAllHealthy rg
      \<and> \<not> rule_when recreateRampUp rg \<and> \<not> rule_when rollingScaleDown rg \<and> \<not> rule_when rolloutComplete rg
      \<and> \<not> rule_when drainOutgoing rg \<and> \<not> rule_when reapDrained rg \<and> \<not> rule_when reapFailedOutgoing rg"
      unfolding recreate_chain [OF 2] rs
      by (auto split: if_splits simp: rule_then_nonempty scale_down_nonempty [OF assms(2)])
    then have out: "\<forall>r \<in> set (rg_OutgoingReplicas rg). bleeding (rg_ObservedAt rg) r"
      using outgoing_idle by blast
    show ?thesis
    proof (cases "rg_OutgoingReplicas rg = []")
      case True
      with g have "\<not> rule_when rollingRampUp rg"
        by (simp add: recreateRampUp_def rollingRampUp_def)
      with g out show ?thesis
        using rolling_guards_idle by blast
    qed (use out in simp)
  qed
qed

definition demo_converged :: replicaGroup where
  "demo_converged = demo_group\<lparr>rg_Desired := demo_desired\<lparr>ds_Status := DeploymentActive\<rparr>, rg_OutgoingReplicas := []\<rparr>"

theorem idle_only_when_converged_or_bleeding_witness:
  "groupIntents demo_converged = [] \<and> converged demo_converged"
proof -
  have "\<not> orphanGroup demo_converged" "0 \<le> ds_Replicas (rg_Desired demo_converged)"
    and idle: "groupIntents demo_converged = []"
    by (simp_all add: demo_converged_def eval_rules demo_defs)
  from idle_only_when_converged_or_bleeding [OF this] show ?thesis
    using idle by (simp add: demo_converged_def demo_defs)
qed


text \<open>
  A failed deployment is terminal for the reconciler: while the status is failed a pass emits for
  the group nothing but the destruction of its frozen (dead) replicas, or an explicit hold when there
  are none - no creation, placement, drain, status change or traffic switch.
\<close>
theorem failed_deployment_held:
  assumes "\<not> orphanGroup rg" and "ds_Status (rg_Desired rg) = DeploymentFailed"
  shows "groupIntents rg =
    (if rg_FrozenReplicas rg = [] then [(mkIntent IntentSkip)\<lparr>it_Group := ds_Slot (rg_Desired rg)\<rparr>]
     else map (\<lambda>r. (mkIntent IntentDestroy)\<lparr>it_ReplicaID := r_ID r, it_VolumeID := r_VolumeID r\<rparr>) (rg_FrozenReplicas rg))"
proof -
  have "rollingGroup rg \<or> recreateGroup rg"
    using assms(1) group_cases by blast
  moreover have "rule_when deploymentFrozen rg"
    using assms(2) by (simp add: deploymentFrozen_def)
  ultimately have "groupIntents rg = rule_then deploymentFrozen rg"
    by (auto simp: rolling_chain recreate_chain)
  then show ?thesis
    by (simp add: deploymentFrozen_def destroyAll_def)
qed

theorem failed_deployment_held_witness:
  "map it_Kind (groupIntents (demo_group\<lparr>rg_Desired := demo_desired\<lparr>ds_Status := DeploymentFailed\<rparr>\<rparr>)) = [IntentSkip]"
proof -
  let ?g = "demo_group\<lparr>rg_Desired := demo_desired\<lparr>ds_Status := DeploymentFailed\<rparr>\<rparr>"
  have "\<not> orphanGroup ?g" "ds_Status (rg_Desired ?g) = DeploymentFailed"
    by (simp_all add: orphanGroup_def demo_defs)
  from failed_deployment_held [OF this] show ?thesis
    by (simp add: demo_defs)
qed

text \<open>What a group may give up without a drain: dead, unplaced, or past its drain window.\<close>

definition expendable :: "time \<Rightarrow> replica \<Rightarrow> bool" where
  "expendable now r \<longleftrightarrow> failedPhase r \<or> hostless r \<or> drainWindowElapsed r now"

definition group_wf :: "replicaGroup \<Rightarrow> bool" where
  "group_wf rg \<longleftrightarrow> (\<forall>r \<in> set (rg_FrozenReplicas rg). failedPhase r)"

lemma destroyAll_from:
  "it \<in> set (destroyAll rs) \<Longrightarrow> \<exists>r \<in> set rs. it_ReplicaID it = r_ID r \<and> (it_VolumeID it = uuid_Nil \<or> it_VolumeID it = r_VolumeID r)"
  by (auto simp: destroyAll_def)

text \<open>Where the replica of a destroy intent comes from.\<close>

definition destroySource :: "replicaGroup \<Rightarrow> Intent \<Rightarrow> bool" where
  "destroySource rg it \<longleftrightarrow> (\<exists>r. it_ReplicaID it = r_ID r \<and> (it_VolumeID it = uuid_Nil \<or> it_VolumeID it = r_VolumeID r) \<and>
    (r \<in> set (rg_FrozenReplicas rg)
     \<or> r \<in> set (rg_TargetReplicas rg) \<and> hostless r
     \<or> r \<in> set (rg_OutgoingReplicas rg) \<and> (failedPhase r \<or> drainWindowElapsed r (rg_ObservedAt rg))))"

lemma destroySource_destroyAll:
  "it \<in> set (destroyAll rs) \<Longrightarrow>
   set rs \<subseteq> set (rg_FrozenReplicas rg) \<union>
     {r \<in> set (rg_OutgoingReplicas rg). failedPhase r \<or> drainWindowElapsed r (rg_ObservedAt rg)} \<Longrightarrow>
   destroySource rg it"
  unfolding destroySource_def by (drule destroyAll_from) blast

lemma destroySource_rules:
  assumes "rule_when rl rg" "it \<in> set (rule_then rl rg)" "it_Kind it = IntentDestroy"
  shows "rl = deploymentFrozen \<Longrightarrow> destroySource rg it"
    and "rl = trimHostlessExcess \<Longrightarrow> destroySource rg it"
    and "rl = rollingScaleDown \<Longrightarrow> destroySource rg it"
    and "rl = recreateScaleDown \<Longrightarrow> destroySource rg it"
    and "rl = reapDrained \<Longrightarrow> destroySource rg it"
    and "rl = reapFailedOutgoing \<Longrightarrow> destroySource rg it"
proof -
  have scale: "it \<in> set (rule_then rollingScaleDown rg) \<Longrightarrow> destroySource rg it"
    using assms(3) by (intro destroySource_destroyAll [of it "take (nat (scaleDownFrozen rg)) (rg_FrozenReplicas rg)"])
      (auto simp: rollingScaleDown_def dest: in_set_takeD)
  then show "rl = rollingScaleDown \<Longrightarrow> destroySource rg it"
    "rl = recreateScaleDown \<Longrightarrow> destroySource rg it"
    using assms(2) by (auto simp: recreateScaleDown_def)
  show "rl = deploymentFrozen \<Longrightarrow> destroySource rg it"
    using assms(2,3) by (intro destroySource_destroyAll [of it "rg_FrozenReplicas rg"])
      (auto simp: deploymentFrozen_def split: if_splits)
  show "rl = trimHostlessExcess \<Longrightarrow> destroySource rg it"
    unfolding destroySource_def using assms(1,2)
    by (fastforce simp: trimHostlessExcess_def trimLoop_eq dest: in_set_takeD)
  show "rl = reapDrained \<Longrightarrow> destroySource rg it"
    using assms(2) by (intro destroySource_destroyAll
        [of it "filter (\<lambda>rp. drainWindowElapsed rp (rg_ObservedAt rg)) (rg_OutgoingReplicas rg)"])
      (auto simp: reapDrained_def)
  show "rl = reapFailedOutgoing \<Longrightarrow> destroySource rg it"
    using assms(2) by (intro destroySource_destroyAll [of it "filter failedPhase (rg_OutgoingReplicas rg)"])
      (auto simp: reapFailedOutgoing_def)
qed

lemma destroy_source:
  assumes "rl \<in> set (rulesFor cascades rg)" and "rule_when rl rg" and "it \<in> set (rule_then rl rg)"
    and "it_Kind it = IntentDestroy"
  shows "destroySource rg it"
proof -
  have "rl = deploymentFrozen \<or> rl = trimHostlessExcess \<or> rl = rollingScaleDown \<or> rl = reapDrained
      \<or> rl = reapFailedOutgoing \<or> rl = recreateScaleDown"
    using assms rule_kinds_all
    by (auto simp: rulesFor_def cascade_defs split: if_splits
        dest!: rule_kinds_all [THEN rule_kindsD, rotated])
  then show ?thesis
    using destroySource_rules [OF assms(2-4)] by blast
qed

lemma groupIntents_rule:
  assumes "it \<in> set (groupIntents rg)"
  shows "\<exists>rl \<in> set (rulesFor cascades rg). rule_when rl rg \<and> it \<in> set (rule_then rl rg)"
proof (cases "find (\<lambda>rl. rule_when rl rg) (rulesFor cascades rg)")
  case None
  with assms show ?thesis by (simp add: groupIntents_find)
next
  case (Some rl)
  with assms show ?thesis
    by (intro bexI [of _ rl]) (auto simp: groupIntents_find dest: find_Some_set)
qed

text \<open>The replicas of a group, in all three buckets.\<close>

definition groupReplicas :: "replicaGroup \<Rightarrow> replica list" where
  "groupReplicas rg = rg_TargetReplicas rg @ rg_FrozenReplicas rg @ rg_OutgoingReplicas rg"

lemma destroy_expendable:
  assumes "group_wf rg" and "it \<in> set (groupIntents rg)" and "it_Kind it = IntentDestroy"
  shows "\<exists>r \<in> set (groupReplicas rg). it_ReplicaID it = r_ID r \<and> expendable (rg_ObservedAt rg) r
    \<and> (it_VolumeID it = uuid_Nil \<or> it_VolumeID it = r_VolumeID r)"
proof -
  from groupIntents_rule [OF assms(2)] obtain rl where
    "rl \<in> set (rulesFor cascades rg)" "rule_when rl rg" "it \<in> set (rule_then rl rg)" by blast
  from destroy_source [OF this assms(3)] obtain r where
    "it_ReplicaID it = r_ID r" "it_VolumeID it = uuid_Nil \<or> it_VolumeID it = r_VolumeID r"
    "r \<in> set (rg_FrozenReplicas rg)
     \<or> r \<in> set (rg_TargetReplicas rg) \<and> hostless r
     \<or> r \<in> set (rg_OutgoingReplicas rg) \<and> (failedPhase r \<or> drainWindowElapsed r (rg_ObservedAt rg))"
    unfolding destroySource_def by blast
  then show ?thesis
    using assms(1) by (intro bexI [of _ r]) (auto simp: group_wf_def expendable_def groupReplicas_def)
qed

section \<open>Bucketing loses and invents no replica\<close>

lemma bucketAt_simps [simp]:
  "bucketAt Map.empty s = zero_bucket"
  "bucketAt (m(s \<mapsto> b)) t = (if t = s then b else bucketAt m t)"
  "bucketAt (m(s := None)) t = (if t = s then zero_bucket else bucketAt m t)"
  by (simp_all add: bucketAt_def)

definition bucketReplicas :: "replicaBucket \<Rightarrow> replica multiset" where
  "bucketReplicas b = mset (bk_target b) + mset (bk_frozen b) + mset (bk_outgoing b)"

lemma bucketReplicas_zero [simp]: "bucketReplicas zero_bucket = {#}"
  by (simp add: bucketReplicas_def zero_bucket_def)

lemma bucketReplicas_add [simp]: "bucketReplicas (bucketReplica r b) = add_mset r (bucketReplicas b)"
  by (simp add: bucketReplica_def bucketReplicas_def)

lemma replicaIndex_snoc:
  "replicaIndex (rs @ [r]) = (replicaIndex rs)(r_Slot r \<mapsto> bucketReplica r (bucketAt (replicaIndex rs) (r_Slot r)))"
  by (simp add: replicaIndex_def)

lemma replicaIndex_Nil [simp]: "replicaIndex [] = Map.empty"
  by (simp add: replicaIndex_def)

text \<open>The bucket of a slot holds the slot's replicas, split by the three cases of the source.\<close>

lemma bucketAt_replicaIndex:
  "bk_outgoing (bucketAt (replicaIndex rs) s) = filter (\<lambda>r. r_Slot r = s \<and> outgoingReplica r) rs"
  "bk_frozen (bucketAt (replicaIndex rs) s) = filter (\<lambda>r. r_Slot r = s \<and> \<not> outgoingReplica r \<and> failedPhase r) rs"
  "bk_target (bucketAt (replicaIndex rs) s) = filter (\<lambda>r. r_Slot r = s \<and> \<not> outgoingReplica r \<and> \<not> failedPhase r) rs"
  by (induction rs rule: rev_induct) (auto simp: replicaIndex_snoc bucketReplica_def zero_bucket_def)

lemma dom_replicaIndex: "dom (replicaIndex rs) = r_Slot ` set rs"
proof (induction rs rule: rev_induct)
  case (snoc r rs)
  then show ?case
    unfolding replicaIndex_snoc dom_fun_upd by simp
qed simp

lemma sum_bucket_update:
  assumes "finite K" "s \<in> K"
  shows "(\<Sum>k\<in>K. f (if k = s then a else g k)) = f a + (\<Sum>k\<in>K - {s}. f (g k))"
  by (subst sum.remove [OF assms]) (auto intro!: arg_cong2 [where f = "(+)"] sum.cong)

lemma replicaIndex_total:
  assumes "finite K" "r_Slot ` set rs \<subseteq> K"
  shows "(\<Sum>k\<in>K. bucketReplicas (bucketAt (replicaIndex rs) k)) = mset rs"
  using assms(2)
proof (induction rs rule: rev_induct)
  case (snoc r rs)
  then have s: "r_Slot r \<in> K" and sub: "r_Slot ` set rs \<subseteq> K" by auto
  have "(\<Sum>k\<in>K. bucketReplicas (bucketAt (replicaIndex (rs @ [r])) k))
      = add_mset r (bucketReplicas (bucketAt (replicaIndex rs) (r_Slot r)))
        + (\<Sum>k\<in>K - {r_Slot r}. bucketReplicas (bucketAt (replicaIndex rs) k))"
    by (simp add: replicaIndex_snoc sum_bucket_update [OF assms(1) s])
  also have "\<dots> = add_mset r (\<Sum>k\<in>K. bucketReplicas (bucketAt (replicaIndex rs) k))"
    by (simp add: sum.remove [OF assms(1) s])
  finally show ?case
    using snoc.IH [OF sub] by simp
qed simp

lemma mset_mkGroup: "mset (groupReplicas (mkGroup now d v b)) = bucketReplicas b"
  by (simp add: groupReplicas_def mkGroup_def bucketReplicas_def ac_simps)

lemma declaredGroups_total:
  assumes "finite K" "dom m \<subseteq> K" "declaredGroups snap ds m = (gs, m')"
  shows "(\<Sum>g\<leftarrow>gs. mset (groupReplicas g)) + (\<Sum>k\<in>K. bucketReplicas (bucketAt m' k))
    = (\<Sum>k\<in>K. bucketReplicas (bucketAt m k)) \<and> dom m' \<subseteq> dom m"
  using assms(2,3)
proof (induction ds arbitrary: m gs)
  case (Cons d ds)
  let ?s = "ds_Slot d"
  obtain gs' where rec: "declaredGroups snap ds (m(?s := None)) = (gs', m')"
    and gs: "gs = mkGroup (sn_observedAt snap) d (volumeAt (sn_volumes snap) ?s) (bucketAt m ?s) # gs'"
    using Cons.prems(2) by (auto simp: Let_def split: prod.splits)
  have sub: "dom (m(?s := None)) \<subseteq> dom m" by (rule subsetI) (auto split: if_splits)
  then have dom: "dom (m(?s := None)) \<subseteq> K" using Cons.prems(1) by blast
  note IH = Cons.IH [OF dom rec]
  have "(\<Sum>k\<in>K. bucketReplicas (bucketAt m k)) = bucketReplicas (bucketAt m ?s)
      + (\<Sum>k\<in>K. bucketReplicas (bucketAt (m(?s := None)) k))"
  proof (cases "?s \<in> K")
    case True
    show ?thesis
      by (simp add: sum_bucket_update [OF assms(1) True] sum.remove [OF assms(1) True])
  next
    case False
    then have "bucketAt m ?s = zero_bucket"
      using Cons.prems(1) by (auto simp: bucketAt_def split: option.splits)
    moreover have "(\<Sum>k\<in>K. bucketReplicas (bucketAt (m(?s := None)) k)) = (\<Sum>k\<in>K. bucketReplicas (bucketAt m k))"
      using False by (intro sum.cong) auto
    ultimately show ?thesis by simp
  qed
  moreover have "dom m' \<subseteq> dom m"
    using IH sub by blast
  ultimately show ?case
    using IH by (simp add: gs mset_mkGroup add.assoc del: fun_upd_apply)
qed (auto)

lemma leftover_total:
  assumes "iteration_order ord" "dom m \<subseteq> set xs"
  shows "(\<Sum>g\<leftarrow>map (leftoverGroup snap m) (ord (filter (\<lambda>s. m s \<noteq> None) (remdups xs))). mset (groupReplicas g))
    = (\<Sum>k\<in>set xs. bucketReplicas (bucketAt m k))"
proof -
  let ?ks = "filter (\<lambda>s. m s \<noteq> None) (remdups xs)"
  have d: "distinct (ord ?ks)" and st: "set (ord ?ks) = dom m"
    using assms by (auto simp: iteration_order_distinct iteration_order_set)
  have "(\<Sum>g\<leftarrow>map (leftoverGroup snap m) (ord ?ks). mset (groupReplicas g))
      = (\<Sum>k\<leftarrow>ord ?ks. bucketReplicas (bucketAt m k))"
    by (simp add: leftoverGroup_def mset_mkGroup o_def)
  also have "\<dots> = (\<Sum>k\<in>dom m. bucketReplicas (bucketAt m k))"
    using d st by (metis sum.distinct_set_conv_list)
  also have "\<dots> = (\<Sum>k\<in>set xs. bucketReplicas (bucketAt m k))"
    using assms(2) by (intro sum.mono_neutral_left) (auto simp: bucketAt_def split: option.splits)
  finally show ?thesis .
qed

lemma buildReplicaGroups_mset:
  assumes "iteration_order ord"
  shows "mset (concat (map groupReplicas (buildReplicaGroups ord snap))) = mset (sn_replicas snap)"
proof -
  let ?rs = "sn_replicas snap"
  let ?K = "set (map r_Slot ?rs)"
  obtain gs m where dg: "declaredGroups snap (sn_desired snap) (replicaIndex ?rs) = (gs, m)"
    by (cases "declaredGroups snap (sn_desired snap) (replicaIndex ?rs)")
  have K: "finite ?K" "dom (replicaIndex ?rs) \<subseteq> ?K"
    by (auto simp: dom_replicaIndex)
  note tot = declaredGroups_total [OF K dg]
  then have "dom m \<subseteq> ?K" using K(2) by blast
  note left = leftover_total [OF assms this, of snap]
  have "mset (concat (map groupReplicas (buildReplicaGroups ord snap)))
      = (\<Sum>g\<leftarrow>buildReplicaGroups ord snap. mset (groupReplicas g))"
    by (simp add: mset_concat o_def)
  also have "\<dots> = (\<Sum>g\<leftarrow>gs. mset (groupReplicas g)) + (\<Sum>k\<in>?K. bucketReplicas (bucketAt m k))"
    using left by (simp add: buildReplicaGroups_def dg)
  also have "\<dots> = mset ?rs"
    using tot replicaIndex_total [OF K(1), of ?rs] by simp
  finally show ?thesis .
qed

text \<open>
  Bucketing partitions the observed fleet: whatever order the runtime ranges over the leftover
  slots in, the replicas of all groups together are exactly the replicas of the snapshot, each as
  often as the snapshot has it - none is leaked to no group and none is handed to two.
\<close>
theorem groups_partition_snapshot:
  assumes "iteration_order ord"
  shows "mset (concat (map groupReplicas (buildReplicaGroups ord snap))) = mset (sn_replicas snap)"
  by (rule buildReplicaGroups_mset [OF assms])

definition demo_snapshot :: stateSnapshot where
  "demo_snapshot = \<lparr>sn_observedAt = 1000, sn_desired = [demo_desired],
     sn_replicas = [demo_replica 1, (demo_replica 2)\<lparr>r_Current := False, r_Phase := ReplicaPhaseFailed\<rparr>,
       (demo_replica 3)\<lparr>r_Slot := \<lparr>rs_EnvironmentServiceID = 2, rs_Region = ''eu''\<rparr>, r_Phase := ReplicaPhaseFailed, r_Current := False\<rparr>],
     sn_hosts = [], sn_volumes = []\<rparr>"

theorem groups_partition_snapshot_witness:
  "mset (concat (map groupReplicas (buildReplicaGroups rev demo_snapshot))) = mset (sn_replicas demo_snapshot)
   \<and> length (sn_replicas demo_snapshot) = 3"
  using groups_partition_snapshot [OF iteration_order_rev, of demo_snapshot]
  by (simp add: demo_snapshot_def)

section \<open>What a pass may destroy\<close>

definition bucket_ok :: "replicaBucket \<Rightarrow> bool" where
  "bucket_ok b \<longleftrightarrow> (\<forall>r \<in> set (bk_frozen b). failedPhase r)"

lemma bucket_ok_zero [simp]: "bucket_ok zero_bucket"
  by (simp add: bucket_ok_def zero_bucket_def)

lemma group_wf_mkGroup [simp]:
  "bucket_ok b \<Longrightarrow> group_wf (mkGroup now d v b)" "rg_ObservedAt (mkGroup now d v b) = now"
  by (simp_all add: group_wf_def mkGroup_def bucket_ok_def)

lemma declaredGroups_ok:
  assumes "declaredGroups snap ds m = (gs, m')" and "\<forall>s. bucket_ok (bucketAt m s)"
  shows "(\<forall>g \<in> set gs. group_wf g \<and> rg_ObservedAt g = sn_observedAt snap) \<and> (\<forall>s. bucket_ok (bucketAt m' s))"
  using assms
proof (induction ds arbitrary: m gs)
  case (Cons d ds)
  obtain gs' where rec: "declaredGroups snap ds (m(ds_Slot d := None)) = (gs', m')"
    and gs: "gs = mkGroup (sn_observedAt snap) d (volumeAt (sn_volumes snap) (ds_Slot d)) (bucketAt m (ds_Slot d)) # gs'"
    using Cons.prems(1) by (auto simp: Let_def split: prod.splits)
  have "\<forall>s. bucket_ok (bucketAt (m(ds_Slot d := None)) s)"
    using Cons.prems(2) by (simp del: fun_upd_apply)
  from Cons.IH [OF rec this] Cons.prems(2) show ?case
    by (simp add: gs)
qed simp

lemma buildReplicaGroups_ok:
  assumes "g \<in> set (buildReplicaGroups ord snap)"
  shows "group_wf g \<and> rg_ObservedAt g = sn_observedAt snap"
proof -
  obtain gs m where dg: "declaredGroups snap (sn_desired snap) (replicaIndex (sn_replicas snap)) = (gs, m)"
    by (cases "declaredGroups snap (sn_desired snap) (replicaIndex (sn_replicas snap))")
  have "\<forall>s. bucket_ok (bucketAt (replicaIndex (sn_replicas snap)) s)"
    by (simp add: bucket_ok_def bucketAt_replicaIndex)
  note ok = declaredGroups_ok [OF dg this]
  from assms consider "g \<in> set gs" | s where "g = leftoverGroup snap m s"
    by (auto simp: buildReplicaGroups_def dg)
  then show ?thesis
    using ok by cases (simp_all add: leftoverGroup_def)
qed

lemma intents_destroy_expendable:
  assumes "iteration_order ord"
    and "it \<in> set (intentsOf (fireRules cascades (buildReplicaGroups ord snap)))"
    and "it_Kind it = IntentDestroy"
  shows "\<exists>r \<in> set (sn_replicas snap). it_ReplicaID it = r_ID r
    \<and> (failedPhase r \<or> hostless r \<or> drainWindowElapsed r (sn_observedAt snap))"
proof -
  obtain g where g: "g \<in> set (buildReplicaGroups ord snap)" "it \<in> set (groupIntents g)"
    using assms(2) by (auto simp: intentsOf_fireRules)
  note ok = buildReplicaGroups_ok [OF g(1)]
  obtain r where r: "r \<in> set (groupReplicas g)" "it_ReplicaID it = r_ID r" "expendable (sn_observedAt snap) r"
    using destroy_expendable [OF _ g(2) assms(3)] ok by auto
  have "r \<in> set (concat (map groupReplicas (buildReplicaGroups ord snap)))"
    using g(1) r(1) by auto
  then have "r \<in> set (sn_replicas snap)"
    using buildReplicaGroups_mset [OF assms(1), of snap] by (metis set_mset_mset)
  with r show ?thesis
    by (auto simp: expendable_def)
qed

text \<open>
  A reconcile pass destroys only what nobody serves from: every destroy intent of a whole pass
  names a replica of the snapshot that has failed, or was never placed, or whose drain window has
  elapsed - a live, placed replica is never removed without its drain, whichever of the three
  cascades its group runs and however the snapshot is bucketed.
\<close>
theorem pass_destroys_only_expendable:
  assumes "iteration_order ord"
    and "it \<in> set (intentsOf (fireRules cascades (buildReplicaGroups ord snap)))"
    and "it_Kind it = IntentDestroy"
  shows "\<exists>r \<in> set (sn_replicas snap). it_ReplicaID it = r_ID r
    \<and> (failedPhase r \<or> hostless r \<or> drainWindowElapsed r (sn_observedAt snap))"
  by (rule intents_destroy_expendable [OF assms])

theorem pass_destroys_only_expendable_witness:
  "\<exists>it \<in> set (intentsOf (fireRules cascades (buildReplicaGroups rev demo_snapshot))). it_Kind it = IntentDestroy
    \<and> (\<exists>r \<in> set (sn_replicas demo_snapshot). it_ReplicaID it = r_ID r)"
proof -
  let ?it = "(mkIntent IntentDestroy)\<lparr>it_ReplicaID := 3\<rparr>"
  have "?it \<in> set (intentsOf (fireRules cascades (buildReplicaGroups rev demo_snapshot)))" "it_Kind ?it = IntentDestroy"
    by code_simp+
  with pass_destroys_only_expendable [OF iteration_order_rev this] show ?thesis
    by blast
qed

end
