(* ===== verification/GoNum.thy ===== *)
theory GoNum
  imports Complex_Main Prelude
begin

text \<open>
  The numbers of Go that the program computes with: the conversions that narrow an integer to int32
  or int64 (two's complement), and float64 arithmetic.

  A float64 is the rational number it denotes, and every operation rounds the exact result to the
  nearest number with a 53-bit significand, ties to even, as IEEE 754 requires. The exponent range
  is not modelled: the program multiplies and divides fractions between 0 and 1 and byte or
  millicore counts below 2^63, so no result is near the largest or the smallest binary64 number,
  and no operation divides by zero (each division is guarded in the source).
\<close>

section \<open>Integers of fixed width\<close>

definition to_int32 :: "int \<Rightarrow> int" where
  "to_int32 n = (n + 2 ^ 31) mod 2 ^ 32 - 2 ^ 31"

definition to_int64 :: "int \<Rightarrow> int" where
  "to_int64 n = (n + 2 ^ 63) mod 2 ^ 64 - 2 ^ 63"

definition is_int32 :: "int \<Rightarrow> bool" where
  "is_int32 n \<longleftrightarrow> - (2 ^ 31) \<le> n \<and> n < 2 ^ 31"

definition is_int64 :: "int \<Rightarrow> bool" where
  "is_int64 n \<longleftrightarrow> - (2 ^ 63) \<le> n \<and> n < 2 ^ 63"

lemma to_int32_id [simp]: "is_int32 n \<Longrightarrow> to_int32 n = n"
  by (simp add: is_int32_def to_int32_def)

lemma to_int64_id [simp]: "is_int64 n \<Longrightarrow> to_int64 n = n"
  by (simp add: is_int64_def to_int64_def)

lemma is_int32_to_int32 [simp]: "is_int32 (to_int32 n)"
proof -
  have "0 \<le> (n + 2 ^ 31) mod (2 ^ 32 :: int)" "(n + 2 ^ 31) mod (2 ^ 32 :: int) < 2 ^ 32"
    by (rule pos_mod_sign, simp) (rule pos_mod_bound, simp)
  then show ?thesis
    by (simp add: is_int32_def to_int32_def)
qed

lemma is_int64_to_int64 [simp]: "is_int64 (to_int64 n)"
proof -
  have "0 \<le> (n + 2 ^ 63) mod (2 ^ 64 :: int)" "(n + 2 ^ 63) mod (2 ^ 64 :: int) < 2 ^ 64"
    by (rule pos_mod_sign, simp) (rule pos_mod_bound, simp)
  then show ?thesis
    by (simp add: is_int64_def to_int64_def)
qed

section \<open>float64\<close>

type_synonym float64 = rat

function bit_length :: "int \<Rightarrow> int" where
  "bit_length n = (if n \<le> 0 then 0 else 1 + bit_length (n div 2))"
  by pat_completeness auto
termination
  by (relation "measure nat") auto

declare bit_length.simps [simp del]

definition round_half_even :: "int \<Rightarrow> int \<Rightarrow> int" where
  "round_half_even n d =
     (let q = n div d; r = n mod d
      in if 2 * r < d \<or> (2 * r = d \<and> even q) then q else q + 1)"

text \<open>The binary exponent of the positive quotient of two positive integers.\<close>

definition exponent2 :: "int \<Rightarrow> int \<Rightarrow> int" where
  "exponent2 p q =
     (let k = bit_length p - bit_length q
      in if q * 2 ^ nat k \<le> p * 2 ^ nat (- k) then k else k - 1)"

text \<open>Rounding to a 53-bit significand: scale the number into \<open>[2^52, 2^53)\<close> and round there.\<close>

definition round64 :: "rat \<Rightarrow> float64" where
  "round64 x =
     (if x = 0 then 0
      else let (p, q) = quotient_of x;
               s = 52 - exponent2 \<bar>p\<bar> q;
               m = round_half_even (p * 2 ^ nat s) (q * 2 ^ nat (- s))
           in of_int (m * 2 ^ nat (- s)) / of_int (2 ^ nat s))"

definition float_of_int :: "int \<Rightarrow> float64" where
  "float_of_int n = round64 (of_int n)"

definition float_mul :: "float64 \<Rightarrow> float64 \<Rightarrow> float64" where
  "float_mul x y = round64 (x * y)"

definition float_div :: "float64 \<Rightarrow> float64 \<Rightarrow> float64" where
  "float_div x y = round64 (x / y)"

definition float_add :: "float64 \<Rightarrow> float64 \<Rightarrow> float64" where
  "float_add x y = round64 (x + y)"

text \<open>The conversion \<^verbatim>\<open>int64(f)\<close> truncates towards zero.\<close>

definition int_of_float :: "float64 \<Rightarrow> int" where
  "int_of_float x = (if 0 \<le> x then \<lfloor>x\<rfloor> else \<lceil>x\<rceil>)"

lemma round_half_even_nonneg: "0 \<le> n \<Longrightarrow> 0 < d \<Longrightarrow> 0 \<le> round_half_even n d"
  by (simp add: round_half_even_def Let_def pos_imp_zdiv_nonneg_iff)

lemma round_half_even_1 [simp]: "round_half_even n 1 = n"
  by (simp add: round_half_even_def)

lemma round64_0 [simp]: "round64 0 = 0"
  by (simp add: round64_def)

lemma round64_nonneg:
  assumes "0 \<le> x"
  shows "0 \<le> round64 x"
proof (cases "x = 0")
  case False
  obtain p q where pq: "quotient_of x = (p, q)"
    by (cases "quotient_of x")
  then have "0 < q" and "x = of_int p / of_int q"
    by (auto simp: quotient_of_denom_pos quotient_of_div)
  then have "0 \<le> p"
    using assms by (simp add: zero_le_divide_iff)
  let ?s = "52 - exponent2 \<bar>p\<bar> q"
  have "0 \<le> round_half_even (p * 2 ^ nat ?s) (q * 2 ^ nat (- ?s))"
    using \<open>0 \<le> p\<close> \<open>0 < q\<close> by (intro round_half_even_nonneg) auto
  then have "0 \<le> rat_of_int (round_half_even (p * 2 ^ nat ?s) (q * 2 ^ nat (- ?s)))"
    by simp
  then show ?thesis
    using False by (simp add: round64_def pq Let_def zero_le_divide_iff)
qed simp

lemma float_of_int_nonneg: "0 \<le> n \<Longrightarrow> 0 \<le> float_of_int n"
  by (simp add: float_of_int_def round64_nonneg)

lemma float_mul_nonneg: "0 \<le> x \<Longrightarrow> 0 \<le> y \<Longrightarrow> 0 \<le> float_mul x y"
  by (simp add: float_mul_def round64_nonneg)

lemma int_of_float_nonneg: "0 \<le> x \<Longrightarrow> 0 \<le> int_of_float x"
  by (simp add: int_of_float_def)

end
