(* ===== verification/Config.thy ===== *)
theory Config
  imports GoNum
begin

text \<open>
  The placement half of \<^verbatim>\<open>internal/config/config.go\<close>: the bin-packing knobs, their defaults and
  the part of a host's disk that volumes may occupy. The knobs are float64 flags; see \<open>GoNum\<close>.
  The settings read from the environment are theory \<open>Settings\<close>.
\<close>

record Placement =
  pl_Headroom :: float64
  pl_AntiAffinity :: bool
  pl_ScarcityWeights :: bool
  pl_VolumeBudget :: float64
  pl_DiskReserve :: float64

definition DefaultPlacement :: Placement where
  "DefaultPlacement = \<lparr>pl_Headroom = round64 (1 / 10), pl_AntiAffinity = True,
     pl_ScarcityWeights = True, pl_VolumeBudget = round64 (8 / 10), pl_DiskReserve = round64 (2 / 10)\<rparr>"

definition DiskBudget :: "Placement \<Rightarrow> int \<Rightarrow> int" where
  "DiskBudget p hostDiskBytes = int_of_float (float_mul (float_of_int hostDiskBytes) (pl_VolumeBudget p))"

text \<open>Knobs that are fractions: the reserves they yield are never negative.\<close>

definition Placement_wf :: "Placement \<Rightarrow> bool" where
  "Placement_wf p \<longleftrightarrow> 0 \<le> pl_Headroom p \<and> 0 \<le> pl_VolumeBudget p \<and> 0 \<le> pl_DiskReserve p"

lemma DiskBudget_nonneg: "Placement_wf p \<Longrightarrow> 0 \<le> d \<Longrightarrow> 0 \<le> DiskBudget p d"
  by (simp add: DiskBudget_def Placement_wf_def int_of_float_nonneg float_mul_nonneg float_of_int_nonneg)

lemma DefaultPlacement_wf: "Placement_wf DefaultPlacement"
  by (simp add: Placement_wf_def DefaultPlacement_def round64_nonneg)

end
