(* ===== verification/Placer.thy ===== *)
theory Placer
  imports Config EngineTypes "HOL-Library.AList"
begin

text \<open>
  \<^verbatim>\<open>internal/engine/placer.go\<close> and \<^verbatim>\<open>internal/engine/volumes.go\<close>: which host takes a hostless
  replica or volume, and which volume may grow. The Go ledger is a map from host ID to a mutable
  entry; here it is an association list with distinct keys, and an operation that mutates an entry
  returns the updated list. Each \<^verbatim>\<open>range\<close> over the map visits the keys in an order of its own, the
  parameter \<open>ord\<close>, which may differ for every item placed.

  The ledger's residuals are sums over the snapshot of int32 millicores and int64 bytes; they are
  modelled without wrap-around, because a host's reservations fit its own int64 capacity column
  (the reserve queries refuse more) and the disk sums are of sizes that fit the same columns.
\<close>

section \<open>The ledger\<close>

record hostLedger =
  hl_host :: host
  hl_cpu :: int
  hl_mem :: int
  hl_disk :: int
  hl_slots :: "replicaSlot \<Rightarrow> int"

type_synonym ledger = "(uuid \<times> hostLedger) list"

definition diskBudget :: "Placement \<Rightarrow> host \<Rightarrow> int" where
  "diskBudget cfg h = DiskBudget cfg (h_DiskBytes h)"

definition hostEntry :: "Placement \<Rightarrow> host \<Rightarrow> hostLedger" where
  "hostEntry cfg h = \<lparr>hl_host = h, hl_cpu = h_CPUMillicores h, hl_mem = h_MemBytes h,
     hl_disk = diskBudget cfg h, hl_slots = (\<lambda>_. 0)\<rparr>"

definition chargeReplica :: "replica \<Rightarrow> hostLedger \<Rightarrow> hostLedger" where
  "chargeReplica r hl =
     (let hl' = hl\<lparr>hl_cpu := hl_cpu hl - r_CPUMillicores r, hl_mem := hl_mem hl - r_MemBytes r\<rparr>
      in if Terminal (r_Phase r) then hl'
         else hl'\<lparr>hl_slots := (hl_slots hl')(r_Slot r := hl_slots hl' (r_Slot r) + 1)\<rparr>)"

definition chargeVolume :: "volume \<Rightarrow> hostLedger \<Rightarrow> hostLedger" where
  "chargeVolume v hl = hl\<lparr>hl_disk := hl_disk hl - Committed (v_Sizing v)\<rparr>"

text \<open>\<open>AList.map_entry\<close> leaves the ledger alone when the host is not in it, like the nil checks.\<close>

definition newLedger :: "Placement \<Rightarrow> stateSnapshot \<Rightarrow> ledger" where
  "newLedger cfg snap =
     (let led0 = foldl (\<lambda>led h. AList.update (h_ID h) (hostEntry cfg h) led) [] (sn_hosts snap);
          led1 = foldl (\<lambda>led r. AList.map_entry (r_HostID r) (chargeReplica r) led) led0 (sn_replicas snap)
      in foldl (\<lambda>led v. AList.map_entry (v_HostID v) (chargeVolume v) led) led1 (sn_volumes snap))"

definition schedulable :: "ledger \<Rightarrow> uuid \<Rightarrow> bool" where
  "schedulable led hostID \<longleftrightarrow> hostID \<noteq> uuid_Nil \<and> map_of led hostID \<noteq> None"

record packItem =
  pi_id :: uuid
  pi_slot :: replicaSlot
  pi_region :: string
  pi_cpu :: int
  pi_mem :: int
  pi_disk :: int
  pi_replacement :: bool
  pi_resize :: bool
  pi_spread :: bool

definition zero_item :: packItem where
  "zero_item = \<lparr>pi_id = uuid_Nil, pi_slot = zero_slot, pi_region = '''', pi_cpu = 0, pi_mem = 0,
     pi_disk = 0, pi_replacement = False, pi_resize = False, pi_spread = False\<rparr>"

definition chargeItem :: "packItem \<Rightarrow> hostLedger \<Rightarrow> hostLedger" where
  "chargeItem it hl = hl\<lparr>hl_cpu := hl_cpu hl - pi_cpu it, hl_mem := hl_mem hl - pi_mem it,
     hl_disk := hl_disk hl - pi_disk it,
     hl_slots := (hl_slots hl)(pi_slot it := hl_slots hl (pi_slot it) + 1)\<rparr>"

text \<open>The source dereferences the entry; every caller has checked that the host is in the ledger.\<close>

definition commit :: "ledger \<Rightarrow> packItem \<Rightarrow> uuid \<Rightarrow> ledger" where
  "commit led it hostID = AList.map_entry hostID (chargeItem it) led"

section \<open>Weights and the batch order\<close>

record weights =
  w_cpu :: float64
  w_mem :: float64
  w_disk :: float64

type_synonym regionWeights = "string \<rightharpoonup> weights"

definition weights_get :: "regionWeights \<Rightarrow> string \<Rightarrow> weights" where
  "weights_get rw region = (case rw region of Some w \<Rightarrow> w | None \<Rightarrow> \<lparr>w_cpu = 1, w_mem = 1, w_disk = 1\<rparr>)"

record regionSums =
  dCPU :: int
  dMem :: int
  dDisk :: int
  cCPU :: int
  cMem :: int
  cDisk :: int

definition zero_sums :: regionSums where
  "zero_sums = \<lparr>dCPU = 0, dMem = 0, dDisk = 0, cCPU = 0, cMem = 0, cDisk = 0\<rparr>"

text \<open>\<open>accum f region\<close> is \<^verbatim>\<open>s := acc(region)\<close> followed by the updates \<open>f\<close> of \<^verbatim>\<open>*s\<close>.\<close>

definition accum :: "'s \<Rightarrow> ('s \<Rightarrow> 's) \<Rightarrow> string \<Rightarrow> (string \<rightharpoonup> 's) \<Rightarrow> (string \<rightharpoonup> 's)" where
  "accum z f region m = m(region \<mapsto> f (case m region of None \<Rightarrow> z | Some s \<Rightarrow> s))"

definition ratioOr1 :: "int \<Rightarrow> int \<Rightarrow> float64" where
  "ratioOr1 demand capacity =
     (if capacity \<le> 0 then 1 else float_div (float_of_int demand) (float_of_int capacity))"

definition scarcityWeights :: "Placement \<Rightarrow> stateSnapshot \<Rightarrow> regionWeights" where
  "scarcityWeights cfg snap =
     (if \<not> pl_ScarcityWeights cfg then Map.empty
      else
        let m1 = foldl (\<lambda>m h. accum zero_sums (\<lambda>s. s\<lparr>cCPU := cCPU s + h_CPUMillicores h,
                    cMem := cMem s + h_MemBytes h, cDisk := cDisk s + diskBudget cfg h\<rparr>) (h_Region h) m)
                   Map.empty (sn_hosts snap);
            m2 = foldl (\<lambda>m r. accum zero_sums (\<lambda>s. s\<lparr>dCPU := dCPU s + r_CPUMillicores r,
                    dMem := dMem s + r_MemBytes r\<rparr>) (rs_Region (r_Slot r)) m)
                   m1 (sn_replicas snap);
            m3 = foldl (\<lambda>m v. accum zero_sums (\<lambda>s. s\<lparr>dDisk := dDisk s + Committed (v_Sizing v)\<rparr>)
                          (rs_Region (v_Slot v)) m)
                   m2 (sn_volumes snap)
        in (\<lambda>region. map_option (\<lambda>s. \<lparr>w_cpu = ratioOr1 (dCPU s) (cCPU s),
              w_mem = ratioOr1 (dMem s) (cMem s), w_disk = ratioOr1 (dDisk s) (cDisk s)\<rparr>) (m3 region)))"

record reference =
  rf_cpu :: float64
  rf_mem :: float64
  rf_disk :: float64

record refSums =
  fs_cpu :: int
  fs_mem :: int
  fs_disk :: int
  fs_n :: int

definition zero_refSums :: refSums where
  "zero_refSums = \<lparr>fs_cpu = 0, fs_mem = 0, fs_disk = 0, fs_n = 0\<rparr>"

definition regionReference :: "Placement \<Rightarrow> stateSnapshot \<Rightarrow> (string \<rightharpoonup> reference)" where
  "regionReference cfg snap =
     (let m = foldl (\<lambda>m h. accum zero_refSums (\<lambda>s. s\<lparr>fs_cpu := fs_cpu s + h_CPUMillicores h,
                  fs_mem := fs_mem s + h_MemBytes h, fs_disk := fs_disk s + diskBudget cfg h,
                  fs_n := fs_n s + 1\<rparr>) (h_Region h) m)
                Map.empty (sn_hosts snap)
      in (\<lambda>region. map_option (\<lambda>s. \<lparr>rf_cpu = float_div (float_of_int (fs_cpu s)) (float_of_int (fs_n s)),
            rf_mem = float_div (float_of_int (fs_mem s)) (float_of_int (fs_n s)),
            rf_disk = float_div (float_of_int (fs_disk s)) (float_of_int (fs_n s))\<rparr>) (m region)))"

definition referenceAt :: "(string \<rightharpoonup> reference) \<Rightarrow> string \<Rightarrow> reference" where
  "referenceAt refs region = (case refs region of Some r \<Rightarrow> r | None \<Rightarrow> \<lparr>rf_cpu = 0, rf_mem = 0, rf_disk = 0\<rparr>)"

definition maxNorm :: "(string \<rightharpoonup> reference) \<Rightarrow> packItem \<Rightarrow> float64" where
  "maxNorm refs it =
     (let ref = referenceAt refs (pi_region it)
      in foldl (\<lambda>m (demand, cap). if cap > 0 then max m (float_div (float_of_int demand) cap) else m) 0
           [(pi_cpu it, rf_cpu ref), (pi_mem it, rf_mem ref), (pi_disk it, rf_disk ref)])"

definition itemCmp :: "(string \<rightharpoonup> reference) \<Rightarrow> packItem \<Rightarrow> packItem \<Rightarrow> int" where
  "itemCmp refs a b =
     (if pi_replacement a \<noteq> pi_replacement b then (if pi_replacement a then -1 else 1)
      else let an = maxNorm refs a; bn = maxNorm refs b
           in if an > bn then -1 else if an < bn then 1 else uuid_Compare (pi_id a) (pi_id b))"

definition sortItems :: "packItem list \<Rightarrow> (string \<rightharpoonup> reference) \<Rightarrow> packItem list" where
  "sortItems items refs = sort_by (itemCmp refs) items"

section \<open>Choosing a host\<close>

definition fits :: "Placement \<Rightarrow> packItem \<Rightarrow> hostLedger \<Rightarrow> bool" where
  "fits cfg it hl =
     (let head = (\<not> pi_replacement it \<and> \<not> pi_resize it);
          rCPU = (if head then int_of_float (float_mul (pl_Headroom cfg) (float_of_int (h_CPUMillicores (hl_host hl)))) else 0);
          rMem = (if head then int_of_float (float_mul (pl_Headroom cfg) (float_of_int (h_MemBytes (hl_host hl)))) else 0);
          rDisk = (if \<not> pi_resize it then int_of_float (float_mul (pl_DiskReserve cfg) (float_of_int (diskBudget cfg (hl_host hl)))) else 0)
      in if pi_cpu it > hl_cpu hl - rCPU \<or> pi_mem it > hl_mem hl - rMem then False
         else pi_disk it \<le> 0 \<or> pi_disk it \<le> hl_disk hl - rDisk)"

definition score_term :: "float64 \<Rightarrow> float64 \<Rightarrow> int \<Rightarrow> int \<Rightarrow> float64 \<Rightarrow> float64" where
  "score_term c w demand residual s =
     (if c > 0
      then float_add s (float_mul (float_mul w (float_div (float_of_int demand) c))
                                  (float_div (float_of_int residual) c))
      else s)"

definition score :: "Placement \<Rightarrow> packItem \<Rightarrow> hostLedger \<Rightarrow> weights \<Rightarrow> float64" where
  "score cfg it hl w =
     (let s1 = score_term (float_of_int (h_CPUMillicores (hl_host hl))) (w_cpu w) (pi_cpu it) (hl_cpu hl) 0;
          s2 = score_term (float_of_int (h_MemBytes (hl_host hl))) (w_mem w) (pi_mem it) (hl_mem hl) s1
      in if pi_disk it > 0
         then score_term (float_of_int (diskBudget cfg (hl_host hl))) (w_disk w) (pi_disk it) (hl_disk hl) s2
         else s2)"

definition fewestSameSlot :: "hostLedger list \<Rightarrow> replicaSlot \<Rightarrow> hostLedger list" where
  "fewestSameSlot feasible slot =
     (let minCount = foldl (\<lambda>m hl. min m (hl_slots hl slot)) (hl_slots (hd feasible) slot) (tl feasible)
      in filter (\<lambda>hl. hl_slots hl slot = minCount) feasible)"

definition feasibleHosts :: "(uuid list \<Rightarrow> uuid list) \<Rightarrow> Placement \<Rightarrow> packItem \<Rightarrow> ledger \<Rightarrow> hostLedger list" where
  "feasibleHosts ord cfg it led =
     filter (\<lambda>hl. h_Open (hl_host hl) \<and> h_Region (hl_host hl) = pi_region it \<and> fits cfg it hl)
       (List.map_filter (map_of led) (ord (map fst led)))"

definition candidateHosts :: "packItem \<Rightarrow> hostLedger list \<Rightarrow> hostLedger list" where
  "candidateHosts it feasible =
     (if pi_spread it
      then let clean = filter (\<lambda>hl. hl_slots hl (pi_slot it) = 0) feasible
           in if clean \<noteq> [] then clean else fewestSameSlot feasible (pi_slot it)
      else feasible)"

fun bestHost :: "(hostLedger \<Rightarrow> float64) \<Rightarrow> hostLedger \<Rightarrow> float64 \<Rightarrow> hostLedger list \<Rightarrow> hostLedger" where
  "bestHost sc best bestScore [] = best"
| "bestHost sc best bestScore (hl # hls) =
     (let s = sc hl
      in if s > bestScore \<or> (s = bestScore \<and> uuid_Compare (h_ID (hl_host hl)) (h_ID (hl_host best)) < 0)
         then bestHost sc hl s hls
         else bestHost sc best bestScore hls)"

definition pick :: "(uuid list \<Rightarrow> uuid list) \<Rightarrow> Placement \<Rightarrow> packItem \<Rightarrow> ledger \<Rightarrow> regionWeights \<Rightarrow> uuid option" where
  "pick ord cfg it led rw =
     (case feasibleHosts ord cfg it led of
        [] \<Rightarrow> None
      | feasible \<Rightarrow>
          (case candidateHosts it feasible of
             [] \<Rightarrow> None
           | c # cs \<Rightarrow>
               let w = weights_get rw (pi_region it); sc = (\<lambda>hl. score cfg it hl w)
               in Some (h_ID (hl_host (bestHost sc c (sc c) cs)))))"

section \<open>Placing hostless replicas\<close>

definition isReplacement :: "replica \<Rightarrow> bool" where
  "isReplacement r \<longleftrightarrow> r_Phase r = ReplicaPhaseReplacing"

definition replicaItem :: "Placement \<Rightarrow> replica \<Rightarrow> packItem" where
  "replicaItem cfg r = zero_item\<lparr>pi_id := r_ID r, pi_slot := r_Slot r, pi_region := rs_Region (r_Slot r),
     pi_cpu := r_CPUMillicores r, pi_mem := r_MemBytes r, pi_replacement := isReplacement r,
     pi_spread := pl_AntiAffinity cfg\<rparr>"

definition hostlessItems :: "Placement \<Rightarrow> stateSnapshot \<Rightarrow> Intent list \<Rightarrow> packItem list" where
  "hostlessItems cfg snap intents =
     List.map_filter (\<lambda>it. if it_Kind it \<noteq> IntentAssignHost then None
         else map_option (replicaItem cfg) (index_last r_ID (sn_replicas snap) (it_ReplicaID it))) intents"

text \<open>
  The host of one item: a replica bound to a volume goes to the volume's host or nowhere, every
  other one to the host \<open>pick\<close> chooses. Reading a missing key of the index yields the zero value.
\<close>

definition chooseHost ::
  "(packItem \<Rightarrow> uuid list \<Rightarrow> uuid list) \<Rightarrow> Placement \<Rightarrow> stateSnapshot \<Rightarrow> regionWeights \<Rightarrow> ledger \<Rightarrow> packItem \<Rightarrow> uuid option" where
  "chooseHost ord cfg snap rw led it =
     (let volID = (case index_last r_ID (sn_replicas snap) (pi_id it) of Some r \<Rightarrow> r_VolumeID r | None \<Rightarrow> uuid_Nil)
      in if volID \<noteq> uuid_Nil
         then let hostID = (case index_last v_ID (sn_volumes snap) volID of Some v \<Rightarrow> v_HostID v | None \<Rightarrow> uuid_Nil)
              in if schedulable led hostID then Some hostID else None
         else pick (ord it) cfg it led rw)"

fun placeItems ::
  "(packItem \<Rightarrow> uuid list \<Rightarrow> uuid list) \<Rightarrow> Placement \<Rightarrow> stateSnapshot \<Rightarrow> regionWeights \<Rightarrow>
   packItem list \<Rightarrow> ledger \<Rightarrow> (uuid \<rightharpoonup> uuid) \<Rightarrow> ledger \<times> (uuid \<rightharpoonup> uuid)" where
  "placeItems ord cfg snap rw [] led placed = (led, placed)"
| "placeItems ord cfg snap rw (it # items) led placed =
     (case chooseHost ord cfg snap rw led it of
        None \<Rightarrow> placeItems ord cfg snap rw items led placed
      | Some hostID \<Rightarrow> placeItems ord cfg snap rw items (commit led it hostID) (placed(pi_id it \<mapsto> hostID)))"

definition fillHosts :: "(uuid \<rightharpoonup> uuid) \<Rightarrow> Intent list \<Rightarrow> Intent list" where
  "fillHosts placed intents =
     List.map_filter (\<lambda>it. if it_Kind it \<noteq> IntentAssignHost then Some it
         else map_option (\<lambda>hostID. it\<lparr>it_HostID := hostID\<rparr>) (placed (it_ReplicaID it))) intents"

definition placeHostless ::
  "(packItem \<Rightarrow> uuid list \<Rightarrow> uuid list) \<Rightarrow> Placement \<Rightarrow> stateSnapshot \<Rightarrow> Intent list \<Rightarrow> Intent list" where
  "placeHostless ord cfg snap intents =
     (let items = hostlessItems cfg snap intents
      in if items = [] then intents
         else let (led, placed) = placeItems ord cfg snap (scarcityWeights cfg snap)
                     (sortItems items (regionReference cfg snap)) (newLedger cfg snap) Map.empty
              in fillHosts placed intents)"

section \<open>Placing and growing volumes\<close>

definition serviceDemand :: "stateSnapshot \<Rightarrow> volume \<Rightarrow> int \<times> int" where
  "serviceDemand snap v =
     (case find (\<lambda>d. ds_Slot d = v_Slot v) (sn_desired snap) of
        Some d \<Rightarrow> (ds_CPUMillicores d, ds_MemBytes d) | None \<Rightarrow> (0, 0))"

definition volumeItem :: "stateSnapshot \<Rightarrow> volume \<Rightarrow> packItem" where
  "volumeItem snap v = zero_item\<lparr>pi_id := v_ID v, pi_region := rs_Region (v_Slot v),
     pi_cpu := fst (serviceDemand snap v), pi_mem := snd (serviceDemand snap v),
     pi_disk := vs_Desired (v_Sizing v)\<rparr>"

definition diskItem :: "packItem \<Rightarrow> packItem" where
  "diskItem it = zero_item\<lparr>pi_id := pi_id it, pi_disk := pi_disk it\<rparr>"

fun placeVolumeItems ::
  "(packItem \<Rightarrow> uuid list \<Rightarrow> uuid list) \<Rightarrow> Placement \<Rightarrow> regionWeights \<Rightarrow> packItem list \<Rightarrow> ledger \<Rightarrow> Intent list \<times> ledger" where
  "placeVolumeItems ord cfg rw [] led = ([], led)"
| "placeVolumeItems ord cfg rw (it # items) led =
     (case pick (ord it) cfg it led rw of
        None \<Rightarrow> placeVolumeItems ord cfg rw items led
      | Some hostID \<Rightarrow>
          let (intents, led') = placeVolumeItems ord cfg rw items (commit led (diskItem it) hostID)
          in ((mkIntent IntentPlaceVolume)\<lparr>it_VolumeID := pi_id it, it_HostID := hostID\<rparr> # intents, led'))"

definition placeVolumes ::
  "(packItem \<Rightarrow> uuid list \<Rightarrow> uuid list) \<Rightarrow> Placement \<Rightarrow> stateSnapshot \<Rightarrow> ledger \<Rightarrow> Intent list \<times> ledger" where
  "placeVolumes ord cfg snap led =
     (let items = map (volumeItem snap) (filter (\<lambda>v. v_HostID v = uuid_Nil) (sn_volumes snap))
      in if items = [] then ([], led)
         else placeVolumeItems ord cfg (scarcityWeights cfg snap) (sortItems items (regionReference cfg snap)) led)"

definition resizeItem :: "volume \<Rightarrow> packItem" where
  "resizeItem v = zero_item\<lparr>pi_id := v_ID v, pi_region := rs_Region (v_Slot v),
     pi_disk := GrowDelta (v_Sizing v), pi_resize := True\<rparr>"

text \<open>One volume's turn of the resize loop: the intent it yields, if any, and the ledger after.\<close>

definition resizeStep :: "Placement \<Rightarrow> volume \<Rightarrow> ledger \<Rightarrow> Intent list \<times> ledger" where
  "resizeStep cfg v led =
     (let s = v_Sizing v in
      if \<not> Reported s then ([], led)
      else if (vs_Status s = VolumeResizing \<and> CaughtUp s) \<or> (vs_Status s = VolumeResizePending \<and> CaughtUp s)
      then ([(mkIntent IntentVolumeResized)\<lparr>it_VolumeID := v_ID v\<rparr>], led)
      else if (vs_Status s = VolumeAttached \<and> Drifting s) \<or> (vs_Status s = VolumeResizePending \<and> Drifting s)
      then (case map_of led (v_HostID v) of
              Some hl \<Rightarrow>
                if fits cfg (resizeItem v) hl
                then ([(mkIntent IntentResizeVolume)\<lparr>it_VolumeID := v_ID v\<rparr>], commit led (resizeItem v) (v_HostID v))
                else if vs_Status s = VolumeResizePending then ([], led)
                else ([(mkIntent IntentVolumeResizePending)\<lparr>it_VolumeID := v_ID v\<rparr>], led)
            | None \<Rightarrow>
                if vs_Status s = VolumeResizePending then ([], led)
                else ([(mkIntent IntentVolumeResizePending)\<lparr>it_VolumeID := v_ID v\<rparr>], led))
      else ([], led))"

fun resizeVolumes :: "Placement \<Rightarrow> volume list \<Rightarrow> ledger \<Rightarrow> Intent list \<times> ledger" where
  "resizeVolumes cfg [] led = ([], led)"
| "resizeVolumes cfg (v # vs) led =
     (let (is1, led1) = resizeStep cfg v led; (is2, led2) = resizeVolumes cfg vs led1
      in (is1 @ is2, led2))"

definition planVolumes ::
  "(packItem \<Rightarrow> uuid list \<Rightarrow> uuid list) \<Rightarrow> Placement \<Rightarrow> stateSnapshot \<Rightarrow> Intent list" where
  "planVolumes ord cfg snap =
     (let (is1, led1) = placeVolumes ord cfg snap (newLedger cfg snap);
          (is2, led2) = resizeVolumes cfg (sn_volumes snap) led1
      in is1 @ is2)"

end
