(* ===== verification/PickCorrect.thy ===== *)
theory PickCorrect
  imports Placer
begin

text \<open>
  What the placer's choice of one host guarantees: \<open>pick\<close> succeeds exactly when some host is feasible
  and returns the feasible host with the fewest same-slot replicas (when spreading), then the highest
  score, then the lowest ID - a function of the ledger alone, whatever order the runtime ranges over
  the ledger in. The ledger is shown to hold the residuals the source's comments promise.
\<close>

section \<open>Well-formed ledgers\<close>

definition ledger_wf :: "ledger \<Rightarrow> bool" where
  "ledger_wf led \<longleftrightarrow> distinct (map fst led) \<and>
     (\<forall>k hl. map_of led k = Some hl \<longrightarrow> h_ID (hl_host hl) = k \<and> (\<forall>s. 0 \<le> hl_slots hl s))"

lemma ledger_wf_lookup:
  "ledger_wf led \<Longrightarrow> map_of led k = Some hl \<Longrightarrow> h_ID (hl_host hl) = k \<and> (\<forall>s. 0 \<le> hl_slots hl s)"
  by (simp add: ledger_wf_def)

lemma map_of_map_entry:
  "map_of (AList.map_entry k f xs) k' = (if k = k' then map_option f (map_of xs k) else map_of xs k')"
  by (induction xs) auto

lemma keys_map_entry [simp]: "map fst (AList.map_entry k f xs) = map fst xs"
  by (induction xs) auto

lemma ledger_wf_map_entry:
  assumes "ledger_wf led"
    and "\<And>hl. map_of led k = Some hl \<Longrightarrow> hl_host (f hl) = hl_host hl \<and> (\<forall>s. 0 \<le> hl_slots hl s \<longrightarrow> 0 \<le> hl_slots (f hl) s)"
  shows "ledger_wf (AList.map_entry k f led)"
  using assms unfolding ledger_wf_def by (auto simp: map_of_map_entry)

lemma chargeReplica_simps [simp]:
  "hl_host (chargeReplica r hl) = hl_host hl"
  "hl_cpu (chargeReplica r hl) = hl_cpu hl - r_CPUMillicores r"
  "hl_mem (chargeReplica r hl) = hl_mem hl - r_MemBytes r"
  "hl_disk (chargeReplica r hl) = hl_disk hl"
  "hl_slots (chargeReplica r hl) s = hl_slots hl s + (if r_Slot r = s \<and> \<not> Terminal (r_Phase r) then 1 else 0)"
  by (auto simp: chargeReplica_def Let_def)

lemma chargeVolume_simps [simp]:
  "hl_host (chargeVolume v hl) = hl_host hl" "hl_cpu (chargeVolume v hl) = hl_cpu hl"
  "hl_mem (chargeVolume v hl) = hl_mem hl" "hl_slots (chargeVolume v hl) = hl_slots hl"
  "hl_disk (chargeVolume v hl) = hl_disk hl - Committed (v_Sizing v)"
  by (auto simp: chargeVolume_def)

lemma chargeItem_simps [simp]:
  "hl_host (chargeItem it hl) = hl_host hl" "hl_cpu (chargeItem it hl) = hl_cpu hl - pi_cpu it"
  "hl_mem (chargeItem it hl) = hl_mem hl - pi_mem it" "hl_disk (chargeItem it hl) = hl_disk hl - pi_disk it"
  "hl_slots (chargeItem it hl) s = hl_slots hl s + (if pi_slot it = s then 1 else 0)"
  by (auto simp: chargeItem_def)

lemma ledger_wf_commit: "ledger_wf led \<Longrightarrow> ledger_wf (commit led it h)"
  unfolding commit_def by (rule ledger_wf_map_entry) auto

lemma lookup_commit:
  "map_of (commit led it h) k = (if k = h then map_option (chargeItem it) (map_of led h) else map_of led k)"
  by (auto simp: commit_def map_of_map_entry)

lemma hostEntry_simps [simp]:
  "hl_host (hostEntry cfg h) = h" "hl_cpu (hostEntry cfg h) = h_CPUMillicores h"
  "hl_mem (hostEntry cfg h) = h_MemBytes h" "hl_disk (hostEntry cfg h) = diskBudget cfg h"
  "hl_slots (hostEntry cfg h) s = 0"
  by (simp_all add: hostEntry_def)

lemma hosts_ledger:
  "ledger_wf (foldl (\<lambda>led h. AList.update (h_ID h) (hostEntry cfg h) led) [] hs)
   \<and> (\<forall>k. map_of (foldl (\<lambda>led h. AList.update (h_ID h) (hostEntry cfg h) led) [] hs) k
        = map_option (hostEntry cfg) (index_last h_ID hs k))"
proof (induction hs rule: rev_induct)
  case Nil
  then show ?case by (simp add: ledger_wf_def index_last_def)
next
  case (snoc h hs)
  let ?led = "foldl (\<lambda>led h. AList.update (h_ID h) (hostEntry cfg h) led) [] hs"
  have "map_of (AList.update (h_ID h) (hostEntry cfg h) ?led) k
      = map_option (hostEntry cfg) (index_last h_ID (hs @ [h]) k)" for k
    using snoc.IH by (simp add: update_conv' index_last_def)
  moreover have "distinct (map fst (AList.update (h_ID h) (hostEntry cfg h) ?led))"
    using snoc.IH by (intro distinct_update) (simp add: ledger_wf_def)
  ultimately show ?case
    by (auto simp: ledger_wf_def dest: index_last_Some)
qed

lemma fold_charge:
  assumes "\<And>x hl. hl_host (f x hl) = hl_host hl" "\<And>x hl s. 0 \<le> hl_slots hl s \<Longrightarrow> 0 \<le> hl_slots (f x hl) s"
    and "ledger_wf led"
  shows "ledger_wf (foldl (\<lambda>led x. AList.map_entry (key x) (f x) led) led xs)
    \<and> (\<forall>k. map_of (foldl (\<lambda>led x. AList.map_entry (key x) (f x) led) led xs) k
         = map_option (\<lambda>hl. foldl (\<lambda>hl x. f x hl) hl (filter (\<lambda>x. key x = k) xs)) (map_of led k))"
proof (induction xs rule: rev_induct)
  case Nil
  then show ?case using assms(3) by (simp add: option.map_ident)
next
  case (snoc x xs)
  then show ?case
    by (auto simp: map_of_map_entry option.map_comp o_def assms(1,2) intro!: ledger_wf_map_entry)
qed

lemma fold_chargeReplica:
  "hl_host (foldl (\<lambda>hl r. chargeReplica r hl) hl rs) = hl_host hl"
  "hl_cpu (foldl (\<lambda>hl r. chargeReplica r hl) hl rs) = hl_cpu hl - (\<Sum>r\<leftarrow>rs. r_CPUMillicores r)"
  "hl_mem (foldl (\<lambda>hl r. chargeReplica r hl) hl rs) = hl_mem hl - (\<Sum>r\<leftarrow>rs. r_MemBytes r)"
  "hl_disk (foldl (\<lambda>hl r. chargeReplica r hl) hl rs) = hl_disk hl"
  "hl_slots (foldl (\<lambda>hl r. chargeReplica r hl) hl rs) s
     = hl_slots hl s + int (length (filter (\<lambda>r. r_Slot r = s \<and> \<not> Terminal (r_Phase r)) rs))"
  by (induction rs arbitrary: hl) auto

lemma fold_chargeVolume:
  "hl_host (foldl (\<lambda>hl v. chargeVolume v hl) hl vs) = hl_host hl"
  "hl_cpu (foldl (\<lambda>hl v. chargeVolume v hl) hl vs) = hl_cpu hl"
  "hl_mem (foldl (\<lambda>hl v. chargeVolume v hl) hl vs) = hl_mem hl"
  "hl_slots (foldl (\<lambda>hl v. chargeVolume v hl) hl vs) = hl_slots hl"
  "hl_disk (foldl (\<lambda>hl v. chargeVolume v hl) hl vs) = hl_disk hl - (\<Sum>v\<leftarrow>vs. Committed (v_Sizing v))"
  by (induction vs arbitrary: hl) auto

text \<open>The replicas and volumes a snapshot holds on one host.\<close>

definition replicasOn :: "stateSnapshot \<Rightarrow> uuid \<Rightarrow> replica list" where
  "replicasOn snap k = filter (\<lambda>r. r_HostID r = k) (sn_replicas snap)"

definition volumesOn :: "stateSnapshot \<Rightarrow> uuid \<Rightarrow> volume list" where
  "volumesOn snap k = filter (\<lambda>v. v_HostID v = k) (sn_volumes snap)"

definition residual :: "Placement \<Rightarrow> stateSnapshot \<Rightarrow> host \<Rightarrow> hostLedger" where
  "residual cfg snap h = \<lparr>hl_host = h,
     hl_cpu = h_CPUMillicores h - (\<Sum>r\<leftarrow>replicasOn snap (h_ID h). r_CPUMillicores r),
     hl_mem = h_MemBytes h - (\<Sum>r\<leftarrow>replicasOn snap (h_ID h). r_MemBytes r),
     hl_disk = diskBudget cfg h - (\<Sum>v\<leftarrow>volumesOn snap (h_ID h). Committed (v_Sizing v)),
     hl_slots = (\<lambda>s. int (length (filter (\<lambda>r. r_Slot r = s \<and> \<not> Terminal (r_Phase r)) (replicasOn snap (h_ID h)))))\<rparr>"

lemma newLedger_lookup:
  "ledger_wf (newLedger cfg snap)
   \<and> (\<forall>k. map_of (newLedger cfg snap) k = map_option (residual cfg snap) (index_last h_ID (sn_hosts snap) k))"
proof -
  let ?led0 = "foldl (\<lambda>led h. AList.update (h_ID h) (hostEntry cfg h) led) [] (sn_hosts snap)"
  let ?led1 = "foldl (\<lambda>led r. AList.map_entry (r_HostID r) (chargeReplica r) led) ?led0 (sn_replicas snap)"
  let ?led2 = "foldl (\<lambda>led v. AList.map_entry (v_HostID v) (chargeVolume v) led) ?led1 (sn_volumes snap)"
  note l0 = hosts_ledger [of cfg "sn_hosts snap"]
  have l1: "ledger_wf ?led1 \<and> (\<forall>k. map_of ?led1 k = map_option (\<lambda>hl. foldl (\<lambda>hl r. chargeReplica r hl) hl
      (filter (\<lambda>r. r_HostID r = k) (sn_replicas snap))) (map_of ?led0 k))"
    using l0 by (intro fold_charge) auto
  have l2: "ledger_wf ?led2 \<and> (\<forall>k. map_of ?led2 k = map_option (\<lambda>hl. foldl (\<lambda>hl v. chargeVolume v hl) hl
      (filter (\<lambda>v. v_HostID v = k) (sn_volumes snap))) (map_of ?led1 k))"
    using l1 by (intro fold_charge) auto
  have "foldl (\<lambda>hl v. chargeVolume v hl) (foldl (\<lambda>hl r. chargeReplica r hl) (hostEntry cfg h)
      (filter (\<lambda>r. r_HostID r = k) (sn_replicas snap))) (filter (\<lambda>v. v_HostID v = k) (sn_volumes snap))
    = residual cfg snap h" if "h_ID h = k" for h k
    using that
    by (intro hostLedger.equality)
      (simp_all add: residual_def fold_chargeReplica fold_chargeVolume replicasOn_def volumesOn_def fun_eq_iff)
  then show ?thesis
    using l0 l1 l2
    by (auto simp: newLedger_def option.map_comp o_def intro!: option.map_cong0 dest: index_last_Some
        split: option.splits)
qed

lemma ledger_wf_newLedger: "ledger_wf (newLedger cfg snap)"
  using newLedger_lookup by blast

lemma map_of_newLedger: "map_of (newLedger cfg snap) k = map_option (residual cfg snap) (index_last h_ID (sn_hosts snap) k)"
  using newLedger_lookup by blast

section \<open>The feasible hosts and the candidates\<close>

lemma map_filter_all_Some:
  "(\<And>x. x \<in> set xs \<Longrightarrow> f x \<noteq> None) \<Longrightarrow> List.map_filter f xs = map (the \<circ> f) xs"
  by (induction xs) (auto simp: List.map_filter_simps split: option.splits)

lemma mset_range:
  assumes "ledger_wf led" and "iteration_order ord"
  shows "mset (List.map_filter (map_of led) (ord (map fst led))) = mset (map snd led)"
proof -
  have d: "distinct (map fst led)" using assms(1) by (simp add: ledger_wf_def)
  have "set (ord (map fst led)) = fst ` set led"
    using assms(2) by (simp add: iteration_order_set)
  then have "List.map_filter (map_of led) (ord (map fst led)) = map (the \<circ> map_of led) (ord (map fst led))"
    by (intro map_filter_all_Some) (auto simp: map_of_eq_None_iff)
  then have "mset (List.map_filter (map_of led) (ord (map fst led))) = image_mset (the \<circ> map_of led) (mset (ord (map fst led)))"
    by (simp add: image_mset.compositionality)
  also have "\<dots> = mset (map (the \<circ> map_of led \<circ> fst) led)"
    using assms(2) by (simp add: iteration_order_def multiset.map_comp)
  also have "map (the \<circ> map_of led \<circ> fst) led = map snd led"
    using d by (intro map_cong) auto
  finally show ?thesis .
qed

text \<open>\<open>feasible cfg it hl\<close> is the filter of the source's first loop.\<close>

definition feasible :: "Placement \<Rightarrow> packItem \<Rightarrow> hostLedger \<Rightarrow> bool" where
  "feasible cfg it hl \<longleftrightarrow> h_Open (hl_host hl) \<and> h_Region (hl_host hl) = pi_region it \<and> fits cfg it hl"

lemma mset_feasibleHosts:
  assumes "ledger_wf led" and "iteration_order ord"
  shows "mset (feasibleHosts ord cfg it led) = mset (filter (feasible cfg it) (map snd led))"
  unfolding feasibleHosts_def feasible_def mset_filter mset_range [OF assms] ..

lemma set_feasibleHosts:
  assumes "ledger_wf led" and "iteration_order ord"
  shows "hl \<in> set (feasibleHosts ord cfg it led) \<longleftrightarrow> map_of led (h_ID (hl_host hl)) = Some hl \<and> feasible cfg it hl"
proof -
  have d: "distinct (map fst led)" using assms(1) by (simp add: ledger_wf_def)
  have "hl \<in> set (feasibleHosts ord cfg it led) \<longleftrightarrow> hl \<in> snd ` set led \<and> feasible cfg it hl"
    using mset_feasibleHosts [OF assms, of cfg it, THEN mset_eq_setD] by auto
  also have "hl \<in> snd ` set led \<longleftrightarrow> map_of led (h_ID (hl_host hl)) = Some hl"
  proof
    assume "hl \<in> snd ` set led"
    then obtain k where "map_of led k = Some hl"
      using d by (auto intro: map_of_is_SomeI)
    with ledger_wf_lookup [OF assms(1) this] show "map_of led (h_ID (hl_host hl)) = Some hl" by simp
  next
    assume "map_of led (h_ID (hl_host hl)) = Some hl"
    then show "hl \<in> snd ` set led"
      by (metis map_of_SomeD image_eqI snd_conv)
  qed
  finally show ?thesis .
qed

lemma foldl_min: "foldl (\<lambda>m x. min m (f x)) a xs = Min (insert a (f ` set xs))" for a :: "'a :: linorder"
proof (induction xs arbitrary: a)
  case (Cons x xs)
  have "Min (insert (min a (f x)) (f ` set xs)) = Min (insert a (insert (f x) (f ` set xs)))"
    by (cases "set xs = {}") (auto simp: min.assoc)
  with Cons show ?case by simp
qed simp

lemma fewestSameSlot_iff:
  assumes "hls \<noteq> []"
  shows "hl \<in> set (fewestSameSlot hls slot) \<longleftrightarrow> hl \<in> set hls \<and> (\<forall>hl' \<in> set hls. hl_slots hl slot \<le> hl_slots hl' slot)"
proof -
  have "foldl (\<lambda>m hl. min m (hl_slots hl slot)) (hl_slots (hd hls) slot) (tl hls) = Min ((\<lambda>hl. hl_slots hl slot) ` set hls)"
    using assms by (cases hls) (simp_all add: foldl_min)
  also have "x = hl_slots hl slot \<longleftrightarrow> (\<forall>hl' \<in> set hls. hl_slots hl slot \<le> hl_slots hl' slot)"
    if "hl \<in> set hls" "x = Min ((\<lambda>hl. hl_slots hl slot) ` set hls)" for x
    using that by (metis (no_types, lifting) Min_eqI Min_le finite_imageI finite_set image_eqI imageE)
  ultimately show ?thesis
    by (auto simp: fewestSameSlot_def)
qed

text \<open>
  The two branches of the anti-affinity rule are one: the candidates are the feasible hosts with the
  fewest replicas of the slot, none where that is possible.
\<close>

lemma candidateHosts_iff:
  assumes "hls \<noteq> []" and "\<And>hl. hl \<in> set hls \<Longrightarrow> 0 \<le> hl_slots hl (pi_slot it)"
  shows "hl \<in> set (candidateHosts it hls) \<longleftrightarrow> hl \<in> set hls \<and>
    (pi_spread it \<longrightarrow> (\<forall>hl' \<in> set hls. hl_slots hl (pi_slot it) \<le> hl_slots hl' (pi_slot it)))"
proof (cases "pi_spread it \<and> filter (\<lambda>hl. hl_slots hl (pi_slot it) = 0) hls \<noteq> []")
  case True
  then obtain z where "z \<in> set hls" "hl_slots z (pi_slot it) = 0"
    by (auto simp: filter_empty_conv)
  with True assms(2) show ?thesis
    by (fastforce simp: candidateHosts_def)
next
  case False
  with assms(1) show ?thesis
    by (auto simp: candidateHosts_def fewestSameSlot_iff)
qed

lemma candidateHosts_nonempty: "hls \<noteq> [] \<Longrightarrow> candidateHosts it hls \<noteq> []"
proof -
  assume h: "hls \<noteq> []"
  let ?f = "\<lambda>hl. hl_slots hl (pi_slot it)"
  have "Min (?f ` set hls) \<in> ?f ` set hls" using h by (intro Min_in) auto
  then obtain z where z: "z \<in> set hls" "?f z = Min (?f ` set hls)" by auto
  then have "z \<in> set (fewestSameSlot hls (pi_slot it))"
    using h by (auto simp: fewestSameSlot_iff)
  then show ?thesis
    using h by (auto simp: candidateHosts_def Let_def)
qed

section \<open>The best candidate\<close>

text \<open>\<open>beats sc a b\<close>: the loop prefers \<open>a\<close> over \<open>b\<close> - higher score, then lower ID.\<close>

definition beats :: "(hostLedger \<Rightarrow> float64) \<Rightarrow> hostLedger \<Rightarrow> hostLedger \<Rightarrow> bool" where
  "beats sc a b \<longleftrightarrow> sc a > sc b \<or> (sc a = sc b \<and> h_ID (hl_host a) < h_ID (hl_host b))"

lemma beats_trans: "beats sc a b \<Longrightarrow> beats sc b c \<Longrightarrow> beats sc a c"
  by (auto simp: beats_def)

lemma not_beats: "\<not> beats sc a b \<Longrightarrow> \<not> beats sc b c \<Longrightarrow> \<not> beats sc a c"
  by (auto simp: beats_def)

lemma bestHost_best:
  "bestHost sc b (sc b) hls \<in> insert b (set hls) \<and> (\<forall>y \<in> insert b (set hls). \<not> beats sc y (bestHost sc b (sc b) hls))"
proof (induction hls arbitrary: b)
  case Nil
  then show ?case by (simp add: beats_def)
next
  case (Cons hl hls)
  show ?case
  proof (cases "beats sc hl b")
    case True
    then have eq: "bestHost sc b (sc b) (hl # hls) = bestHost sc hl (sc hl) hls"
      by (simp add: beats_def Let_def)
    have "\<not> beats sc b hl" using True by (auto simp: beats_def)
    with Cons.IH [of hl] show ?thesis
      unfolding eq by (auto dest: not_beats)
  next
    case False
    then have eq: "bestHost sc b (sc b) (hl # hls) = bestHost sc b (sc b) hls"
      by (auto simp: beats_def Let_def)
    from False Cons.IH [of b] show ?thesis
      unfolding eq by (auto dest: not_beats)
  qed
qed

text \<open>
  The specification of the choice: \<open>chosen\<close> holds of the feasible entry with the fewest replicas of
  the slot (when the item spreads), then the highest score, then the lowest host ID.
\<close>

definition chosen :: "Placement \<Rightarrow> packItem \<Rightarrow> ledger \<Rightarrow> regionWeights \<Rightarrow> uuid \<Rightarrow> hostLedger \<Rightarrow> bool" where
  "chosen cfg it led rw h hl \<longleftrightarrow> map_of led h = Some hl \<and> feasible cfg it hl \<and>
     (\<forall>h' hl'. map_of led h' = Some hl' \<and> feasible cfg it hl' \<longrightarrow>
        (pi_spread it \<longrightarrow> hl_slots hl (pi_slot it) \<le> hl_slots hl' (pi_slot it)) \<and>
        ((pi_spread it \<longrightarrow> hl_slots hl' (pi_slot it) = hl_slots hl (pi_slot it)) \<longrightarrow>
           (let sc = (\<lambda>x. score cfg it x (weights_get rw (pi_region it)))
            in sc hl' < sc hl \<or> (sc hl' = sc hl \<and> h \<le> h'))))"

lemma pick_None:
  assumes "ledger_wf led" and "iteration_order ord"
  shows "pick ord cfg it led rw = None \<longleftrightarrow> (\<forall>h hl. map_of led h = Some hl \<longrightarrow> \<not> feasible cfg it hl)"
proof -
  have "pick ord cfg it led rw = None \<longleftrightarrow> feasibleHosts ord cfg it led = []"
    using candidateHosts_nonempty [of "feasibleHosts ord cfg it led" it]
    by (auto simp: pick_def Let_def split: list.splits)
  also have "\<dots> \<longleftrightarrow> (\<forall>hl. \<not> (map_of led (h_ID (hl_host hl)) = Some hl \<and> feasible cfg it hl))"
    using set_feasibleHosts [OF assms, of _ cfg it] by (metis list.set_intros(1) neq_Nil_conv set_empty equals0D)
  also have "\<dots> \<longleftrightarrow> (\<forall>h hl. map_of led h = Some hl \<longrightarrow> \<not> feasible cfg it hl)"
    using assms(1) by (metis ledger_wf_lookup)
  finally show ?thesis .
qed

lemma pick_chosen:
  assumes "ledger_wf led" and "iteration_order ord" and "pick ord cfg it led rw = Some h"
  shows "\<exists>hl. chosen cfg it led rw h hl"
proof -
  let ?fs = "feasibleHosts ord cfg it led"
  let ?sc = "\<lambda>hl. score cfg it hl (weights_get rw (pi_region it))"
  have ne: "?fs \<noteq> []"
    using assms(3) by (auto simp: pick_def)
  obtain c cs where cs: "candidateHosts it ?fs = c # cs"
    using candidateHosts_nonempty [OF ne, of it] by (cases "candidateHosts it ?fs") auto
  let ?b = "bestHost ?sc c (?sc c) cs"
  have h: "h = h_ID (hl_host ?b)"
    using assms(3) ne cs by (auto simp: pick_def Let_def split: list.splits)
  have nonneg: "0 \<le> hl_slots hl (pi_slot it)" if "hl \<in> set ?fs" for hl
    using that set_feasibleHosts [OF assms(1,2)] assms(1) by (metis ledger_wf_lookup)
  note cand = candidateHosts_iff [OF ne nonneg, unfolded cs]
  have b: "?b \<in> set (c # cs)" "\<And>y. y \<in> set (c # cs) \<Longrightarrow> \<not> beats ?sc y ?b"
    using bestHost_best [of ?sc c cs] by auto
  have fb: "map_of led h = Some ?b" "feasible cfg it ?b"
    using b(1) cand set_feasibleHosts [OF assms(1,2)] h by auto
  moreover have "(pi_spread it \<longrightarrow> hl_slots ?b (pi_slot it) \<le> hl_slots hl' (pi_slot it)) \<and>
        ((pi_spread it \<longrightarrow> hl_slots hl' (pi_slot it) = hl_slots ?b (pi_slot it)) \<longrightarrow>
           ?sc hl' < ?sc ?b \<or> (?sc hl' = ?sc ?b \<and> h \<le> h'))"
    if "map_of led h' = Some hl'" "feasible cfg it hl'" for h' hl'
  proof -
    have id: "h_ID (hl_host hl') = h'"
      using that(1) assms(1) by (metis ledger_wf_lookup)
    then have mem: "hl' \<in> set ?fs"
      using that set_feasibleHosts [OF assms(1,2)] by simp
    have "pi_spread it \<longrightarrow> hl_slots ?b (pi_slot it) \<le> hl_slots hl' (pi_slot it)"
      using b(1) cand mem by blast
    moreover have "?sc hl' < ?sc ?b \<or> (?sc hl' = ?sc ?b \<and> h \<le> h')"
      if "pi_spread it \<longrightarrow> hl_slots hl' (pi_slot it) = hl_slots ?b (pi_slot it)"
    proof -
      have "hl' \<in> set (c # cs)"
        using that mem b(1) cand by metis
      from b(2) [OF this] show ?thesis
        using id h by (auto simp: beats_def)
    qed
    ultimately show ?thesis by blast
  qed
  ultimately show ?thesis
    unfolding chosen_def Let_def by blast
qed

lemma chosen_unique:
  assumes "chosen cfg it led rw h hl" and "chosen cfg it led rw h' hl'"
  shows "h = h'"
  using assms unfolding chosen_def Let_def by (metis order.antisym order.asym)

section \<open>Properties\<close>

text \<open>
  The ledger a pass starts from has one entry per host of the snapshot (the last row of an ID
  wins) and no other; its residual cpu and memory are the host's capacity less what every replica on
  it reserves - failed ones included -, its residual disk is the volume budget less the committed
  bytes of every volume on it, and its slot counts are the non-terminal replicas on it.
\<close>
theorem ledger_residuals:
  "map_of (newLedger cfg snap) k =
     (case index_last h_ID (sn_hosts snap) k of
        None \<Rightarrow> None
      | Some h \<Rightarrow> Some \<lparr>hl_host = h,
          hl_cpu = h_CPUMillicores h - (\<Sum>r\<leftarrow>filter (\<lambda>r. r_HostID r = k) (sn_replicas snap). r_CPUMillicores r),
          hl_mem = h_MemBytes h - (\<Sum>r\<leftarrow>filter (\<lambda>r. r_HostID r = k) (sn_replicas snap). r_MemBytes r),
          hl_disk = diskBudget cfg h - (\<Sum>v\<leftarrow>filter (\<lambda>v. v_HostID v = k) (sn_volumes snap). Committed (v_Sizing v)),
          hl_slots = (\<lambda>s. int (length (filter (\<lambda>r. r_HostID r = k \<and> r_Slot r = s \<and> \<not> Terminal (r_Phase r)) (sn_replicas snap))))\<rparr>)"
  by (auto simp: map_of_newLedger residual_def replicasOn_def volumesOn_def fun_eq_iff conj_commute conj_left_commute
      dest: index_last_Some split: option.splits intro!: arg_cong [where f = length] filter_cong)

definition demo_host :: "uuid \<Rightarrow> host" where
  "demo_host i = \<lparr>h_ID = i, h_Region = ''us'', h_CPUMillicores = 4096, h_MemBytes = 1024, h_DiskBytes = 512, h_Open = True\<rparr>"

definition demo_hosts :: stateSnapshot where
  "demo_hosts = \<lparr>sn_observedAt = 1000, sn_desired = [], sn_replicas = [], sn_hosts = [demo_host 9, demo_host 7],
     sn_volumes = []\<rparr>"

definition demo_item :: packItem where
  "demo_item = zero_item\<lparr>pi_id := 1, pi_region := ''us'', pi_cpu := 128, pi_mem := 64, pi_spread := True\<rparr>"

lemma demo_pick: "pick rev DefaultPlacement demo_item (newLedger DefaultPlacement demo_hosts) Map.empty = Some 7"
  by code_simp

text \<open>
  C5: The choice of a host is complete and optimal. \<open>pick\<close> fails exactly when no host of the ledger
  is open, in the item's region and large enough in every dimension after the reserves; otherwise it
  returns such a host, and among all such hosts it is the one with the fewest live replicas of the
  slot (for an item that spreads), then the highest score, then the lowest ID.
\<close>
theorem pick_correct:
  assumes "ledger_wf led" and "iteration_order ord"
  shows "case pick ord cfg it led rw of
      None \<Rightarrow> (\<forall>h hl. map_of led h = Some hl \<longrightarrow>
                \<not> (h_Open (hl_host hl) \<and> h_Region (hl_host hl) = pi_region it \<and> fits cfg it hl))
    | Some h \<Rightarrow> (\<exists>hl. chosen cfg it led rw h hl)"
  using pick_None [OF assms, of cfg it rw] pick_chosen [OF assms, of cfg it rw]
  by (auto simp: feasible_def split: option.splits)

theorem pick_correct_witness:
  "\<exists>hl. chosen DefaultPlacement demo_item (newLedger DefaultPlacement demo_hosts) Map.empty 7 hl"
  using pick_correct [OF ledger_wf_newLedger [of DefaultPlacement demo_hosts] iteration_order_rev,
      where cfg = DefaultPlacement and it = demo_item and rw = Map.empty]
  by (simp add: demo_pick)

text \<open>
  Map iteration order does not leak into placement: on one ledger, any two orders in which the
  runtime may range over the hosts give the same choice.
\<close>
theorem pick_deterministic:
  assumes "ledger_wf led" and "iteration_order ord" and "iteration_order ord'"
  shows "pick ord cfg it led rw = pick ord' cfg it led rw"
proof (cases "pick ord cfg it led rw")
  case None
  with pick_None [OF assms(1,2), of cfg it rw] pick_None [OF assms(1,3), of cfg it rw] show ?thesis by metis
next
  case (Some h)
  then obtain h' where h': "pick ord' cfg it led rw = Some h'"
    using pick_None [OF assms(1,2), of cfg it rw] pick_None [OF assms(1,3), of cfg it rw] by (metis option.exhaust)
  with Some show ?thesis
    using pick_chosen [OF assms(1,2) Some] pick_chosen [OF assms(1,3) h'] chosen_unique by metis
qed

theorem pick_deterministic_witness:
  "pick (\<lambda>ks. ks) DefaultPlacement demo_item (newLedger DefaultPlacement demo_hosts) Map.empty = Some 7"
  using pick_deterministic [OF ledger_wf_newLedger [of DefaultPlacement demo_hosts] iteration_order_id iteration_order_rev,
      where cfg = DefaultPlacement and it = demo_item and rw = Map.empty]
  by (simp add: demo_pick)

end
