(* ===== verification/PlacementCorrect.thy ===== *)
theory PlacementCorrect
  imports PickCorrect
begin

text \<open>
  The two passes of the placer over a whole snapshot: the batch of hostless replicas
  (\<open>placeHostless\<close>) and the volumes (\<open>planVolumes\<close>). The ledger threaded through a pass makes the
  batch sound as a whole: what is placed on a host this tick, with what is already there, stays
  within its capacity; and volumes placed or grown stay within the disk budget.
\<close>

section \<open>Reserves\<close>

definition host_wf :: "host \<Rightarrow> bool" where
  "host_wf h \<longleftrightarrow> 0 \<le> h_CPUMillicores h \<and> 0 \<le> h_MemBytes h \<and> 0 \<le> h_DiskBytes h"

lemma reserve_nonneg: "0 \<le> x \<Longrightarrow> 0 \<le> n \<Longrightarrow> 0 \<le> int_of_float (float_mul x (float_of_int n))"
  by (simp add: int_of_float_nonneg float_mul_nonneg float_of_int_nonneg)

lemma fits_residual:
  assumes "Placement_wf cfg" "host_wf (hl_host hl)" "fits cfg it hl"
  shows "pi_cpu it \<le> hl_cpu hl" "pi_mem it \<le> hl_mem hl" "0 < pi_disk it \<Longrightarrow> pi_disk it \<le> hl_disk hl"
proof -
  have "0 \<le> int_of_float (float_mul (pl_Headroom cfg) (float_of_int (h_CPUMillicores (hl_host hl))))"
    "0 \<le> int_of_float (float_mul (pl_Headroom cfg) (float_of_int (h_MemBytes (hl_host hl))))"
    "0 \<le> int_of_float (float_mul (pl_DiskReserve cfg) (float_of_int (diskBudget cfg (hl_host hl))))"
    using assms(1,2) by (auto simp: Placement_wf_def host_wf_def diskBudget_def intro!: reserve_nonneg DiskBudget_nonneg)
  then show "pi_cpu it \<le> hl_cpu hl" "pi_mem it \<le> hl_mem hl" "0 < pi_disk it \<Longrightarrow> pi_disk it \<le> hl_disk hl"
    using assms(3) by (auto simp: fits_def Let_def split: if_splits)
qed

lemma sum_list_filter_perm:
  "mset xs = mset ys \<Longrightarrow> (\<Sum>x\<leftarrow>filter P xs. f x) = (\<Sum>x\<leftarrow>filter P ys. f x)" for f :: "'a \<Rightarrow> int"
  by (metis mset_filter mset_map sum_mset_sum_list)

section \<open>The batch of hostless replicas\<close>

lemma pick_feasible:
  assumes "ledger_wf led" "iteration_order ord" "pick ord cfg it led rw = Some h"
  shows "\<exists>hl. map_of led h = Some hl \<and> feasible cfg it hl"
  using pick_chosen [OF assms] by (auto simp: chosen_def)

lemma chooseHost_in_ledger:
  assumes "ledger_wf led" "\<forall>it. iteration_order (ord it)" "chooseHost ord cfg snap rw led it = Some h"
  shows "map_of led h \<noteq> None"
  using assms pick_feasible by (auto simp: chooseHost_def Let_def schedulable_def split: if_splits) blast+

text \<open>The items whose host is not a choice: they are bound to a volume.\<close>

definition pinnedHost :: "stateSnapshot \<Rightarrow> uuid \<Rightarrow> uuid option" where
  "pinnedHost snap i =
     (case index_last r_ID (sn_replicas snap) i of
        None \<Rightarrow> None
      | Some r \<Rightarrow> if r_VolumeID r = uuid_Nil then None
          else Some (case index_last v_ID (sn_volumes snap) (r_VolumeID r) of Some v \<Rightarrow> v_HostID v | None \<Rightarrow> uuid_Nil))"

lemma chooseHost_cases:
  "chooseHost ord cfg snap rw led it =
     (case pinnedHost snap (pi_id it) of
        Some h \<Rightarrow> if schedulable led h then Some h else None
      | None \<Rightarrow> pick (ord it) cfg it led rw)"
  by (auto simp: chooseHost_def pinnedHost_def Let_def split: option.splits)

definition placedOn :: "(uuid \<rightharpoonup> uuid) \<Rightarrow> uuid \<Rightarrow> packItem list \<Rightarrow> packItem list" where
  "placedOn placed k items = filter (\<lambda>it. placed (pi_id it) = Some k) items"

lemma placeItems_dom:
  "placeItems ord cfg snap rw items led placed = (led', placed') \<Longrightarrow> i \<notin> pi_id ` set items \<Longrightarrow> placed' i = placed i"
  by (induction items arbitrary: led placed) (auto split: option.splits)

lemma placeItems_ledger:
  assumes "\<forall>it. iteration_order (ord it)" and "ledger_wf led" and "distinct (map pi_id items)"
    and "placeItems ord cfg snap rw items led placed = (led', placed')"
    and "\<forall>it \<in> set items. placed (pi_id it) = None"
    and "map_of led k = Some hl"
  shows "\<exists>hl'. map_of led' k = Some hl' \<and> hl_host hl' = hl_host hl
    \<and> hl_cpu hl' = hl_cpu hl - (\<Sum>it\<leftarrow>placedOn placed' k items. pi_cpu it)
    \<and> hl_mem hl' = hl_mem hl - (\<Sum>it\<leftarrow>placedOn placed' k items. pi_mem it)
    \<and> (Placement_wf cfg \<longrightarrow> host_wf (hl_host hl) \<longrightarrow> (\<forall>it \<in> set items. pinnedHost snap (pi_id it) \<noteq> Some k) \<longrightarrow>
       (0 \<le> hl_cpu hl \<and> 0 \<le> hl_mem hl) \<or> placedOn placed' k items \<noteq> [] \<longrightarrow>
       0 \<le> hl_cpu hl' \<and> 0 \<le> hl_mem hl')"
  using assms(2-)
proof (induction items arbitrary: led placed hl)
  case Nil
  then show ?case by (simp add: placedOn_def)
next
  case (Cons it items)
  show ?case
  proof (cases "chooseHost ord cfg snap rw led it")
    case None
    then have rec: "placeItems ord cfg snap rw items led placed = (led', placed')"
      using Cons.prems(3) by simp
    have "placed' (pi_id it) = None"
      using placeItems_dom [OF rec, of "pi_id it"] Cons.prems(2,4) by auto
    then show ?thesis
      using Cons.IH [OF Cons.prems(1) _ rec _ Cons.prems(5)] Cons.prems(2,4) by (auto simp: placedOn_def)
  next
    case (Some h)
    let ?led = "commit led it h"
    have rec: "placeItems ord cfg snap rw items ?led (placed(pi_id it \<mapsto> h)) = (led', placed')"
      using Cons.prems(3) Some by simp
    have at: "placed' (pi_id it) = Some h"
      using placeItems_dom [OF rec, of "pi_id it"] Cons.prems(2) by auto
    have fresh: "\<forall>i \<in> set items. (placed(pi_id it \<mapsto> h)) (pi_id i) = None"
      using Cons.prems(2,4) by (force simp: image_iff)
    note IH = Cons.IH [OF ledger_wf_commit [OF Cons.prems(1)] _ rec fresh]
    show ?thesis
    proof (cases "h = k")
      case True
      have lk: "map_of ?led k = Some (chargeItem it hl)"
        using True Cons.prems(5) by (simp add: lookup_commit)
      have room: "pi_cpu it \<le> hl_cpu hl \<and> pi_mem it \<le> hl_mem hl"
        if "Placement_wf cfg" "host_wf (hl_host hl)" "pinnedHost snap (pi_id it) \<noteq> Some k"
      proof -
        have "pick (ord it) cfg it led rw = Some k"
          using Some True that(3) by (auto simp: chooseHost_cases split: option.splits if_splits)
        then have "fits cfg it hl"
          using pick_feasible [OF Cons.prems(1)] assms(1) Cons.prems(5) by (fastforce simp: feasible_def)
        with fits_residual [OF that(1,2)] show ?thesis by blast
      qed
      from IH [OF _ lk] Cons.prems(2) obtain hl' where "map_of led' k = Some hl'" "hl_host hl' = hl_host hl"
        "hl_cpu hl' = hl_cpu hl - pi_cpu it - (\<Sum>i\<leftarrow>placedOn placed' k items. pi_cpu i)"
        "hl_mem hl' = hl_mem hl - pi_mem it - (\<Sum>i\<leftarrow>placedOn placed' k items. pi_mem i)"
        "Placement_wf cfg \<longrightarrow> host_wf (hl_host hl) \<longrightarrow> (\<forall>i \<in> set items. pinnedHost snap (pi_id i) \<noteq> Some k) \<longrightarrow>
         (pi_cpu it \<le> hl_cpu hl \<and> pi_mem it \<le> hl_mem hl) \<or> placedOn placed' k items \<noteq> [] \<longrightarrow> 0 \<le> hl_cpu hl' \<and> 0 \<le> hl_mem hl'"
        by auto
      then show ?thesis
        using room at True by (intro exI [of _ hl']) (simp add: placedOn_def)
    next
      case False
      have lk: "map_of ?led k = Some hl"
        using False Cons.prems(5) by (simp add: lookup_commit)
      from IH [OF _ lk] Cons.prems(2) show ?thesis
        using at False by (auto simp: placedOn_def)
    qed
  qed
qed

text \<open>Every host in the result of the batch is the pinned one, or an open host of the item's region.\<close>

lemma placeItems_sound:
  assumes "\<forall>it. iteration_order (ord it)" and "ledger_wf led"
    and "placeItems ord cfg snap rw items led placed = (led', placed')"
    and "placed' i = Some h" and "placed i \<noteq> Some h"
  shows "\<exists>it \<in> set items. pi_id it = i \<and> map_option hl_host (map_of led h) \<noteq> None \<and>
    (case pinnedHost snap i of
       Some h' \<Rightarrow> h = h' \<and> h \<noteq> uuid_Nil
     | None \<Rightarrow> \<exists>hl. map_of led h = Some hl \<and> h_Open (hl_host hl) \<and> h_Region (hl_host hl) = pi_region it)"
  using assms(2-)
proof (induction items arbitrary: led placed)
  case Nil
  then show ?case by simp
next
  case (Cons it items)
  show ?case
  proof (cases "chooseHost ord cfg snap rw led it")
    case None
    then have "placeItems ord cfg snap rw items led placed = (led', placed')"
      using Cons.prems(2) by simp
    from Cons.IH [OF Cons.prems(1) this Cons.prems(3,4)] show ?thesis by auto
  next
    case (Some k)
    then have rec: "placeItems ord cfg snap rw items (commit led it k) (placed(pi_id it \<mapsto> k)) = (led', placed')"
      using Cons.prems(2) by simp
    show ?thesis
    proof (cases "i = pi_id it \<and> h = k")
      case True
      have "map_of led k \<noteq> None"
        by (rule chooseHost_in_ledger [OF Cons.prems(1) assms(1) Some])
      moreover have "case pinnedHost snap i of Some h' \<Rightarrow> h = h' \<and> h \<noteq> uuid_Nil
          | None \<Rightarrow> \<exists>hl. map_of led h = Some hl \<and> h_Open (hl_host hl) \<and> h_Region (hl_host hl) = pi_region it"
        using Some True pick_feasible [OF Cons.prems(1), of "ord it" cfg it rw k] assms(1)
        by (auto simp: chooseHost_cases feasible_def schedulable_def split: option.splits if_splits)
      ultimately show ?thesis
        using True by auto
    next
      case False
      then have "(placed(pi_id it \<mapsto> k)) i \<noteq> Some h"
        using Cons.prems(4) by auto
      from Cons.IH [OF ledger_wf_commit [OF Cons.prems(1)] rec Cons.prems(3) this]
      show ?thesis
        by (auto simp: lookup_commit split: option.splits if_splits)
    qed
  qed
qed

section \<open>From items back to intents\<close>

definition assigns :: "Intent list \<Rightarrow> Intent list" where
  "assigns intents = filter (\<lambda>it. it_Kind it = IntentAssignHost) intents"

definition others :: "Intent list \<Rightarrow> Intent list" where
  "others intents = filter (\<lambda>it. it_Kind it \<noteq> IntentAssignHost) intents"

text \<open>Every host assignment names a replica of the snapshot, each replica at most once.\<close>

definition assigns_wf :: "stateSnapshot \<Rightarrow> Intent list \<Rightarrow> bool" where
  "assigns_wf snap intents \<longleftrightarrow> distinct (map it_ReplicaID (assigns intents)) \<and>
     (\<forall>it \<in> set (assigns intents). it_ReplicaID it \<in> r_ID ` set (sn_replicas snap))"

definition replicaOf :: "stateSnapshot \<Rightarrow> Intent \<Rightarrow> replica" where
  "replicaOf snap it = the (index_last r_ID (sn_replicas snap) (it_ReplicaID it))"

lemma hostlessItems_assigns:
  assumes "assigns_wf snap intents"
  shows "hostlessItems cfg snap intents = map (\<lambda>it. replicaItem cfg (replicaOf snap it)) (assigns intents)"
proof -
  have "\<forall>it \<in> set (assigns intents). index_last r_ID (sn_replicas snap) (it_ReplicaID it) \<noteq> None"
    using assms by (auto simp: assigns_wf_def index_last_None)
  then show ?thesis
    by (induction intents)
      (auto simp: hostlessItems_def assigns_def replicaOf_def List.map_filter_simps split: option.splits)
qed

lemma replicaItem_simps [simp]:
  "pi_id (replicaItem cfg r) = r_ID r" "pi_cpu (replicaItem cfg r) = r_CPUMillicores r"
  "pi_mem (replicaItem cfg r) = r_MemBytes r" "pi_region (replicaItem cfg r) = rs_Region (r_Slot r)"
  "pi_slot (replicaItem cfg r) = r_Slot r" "pi_disk (replicaItem cfg r) = 0"
  by (simp_all add: replicaItem_def zero_item_def)

lemma replicaOf:
  assumes "assigns_wf snap intents" "it \<in> set (assigns intents)"
  shows "replicaOf snap it \<in> set (sn_replicas snap)" "r_ID (replicaOf snap it) = it_ReplicaID it"
    "index_last r_ID (sn_replicas snap) (it_ReplicaID it) = Some (replicaOf snap it)"
proof -
  have "index_last r_ID (sn_replicas snap) (it_ReplicaID it) \<noteq> None"
    using assms by (auto simp: assigns_wf_def index_last_None)
  then show "index_last r_ID (sn_replicas snap) (it_ReplicaID it) = Some (replicaOf snap it)"
    by (auto simp: replicaOf_def)
  from index_last_Some [OF this]
  show "replicaOf snap it \<in> set (sn_replicas snap)" "r_ID (replicaOf snap it) = it_ReplicaID it" by auto
qed

lemma map_pi_id_items:
  assumes "assigns_wf snap intents"
  shows "map pi_id (hostlessItems cfg snap intents) = map it_ReplicaID (assigns intents)"
  using replicaOf(2) [OF assms] by (simp add: hostlessItems_assigns [OF assms] o_def)

lemma assigns_fillHosts:
  "assigns (fillHosts placed intents) =
     List.map_filter (\<lambda>it. map_option (\<lambda>h. it\<lparr>it_HostID := h\<rparr>) (placed (it_ReplicaID it))) (assigns intents)"
  "others (fillHosts placed intents) = others intents"
  by (induction intents) (auto simp: fillHosts_def assigns_def others_def List.map_filter_simps split: option.splits)

text \<open>The assignments of a result to one host.\<close>

definition assignedTo :: "uuid \<Rightarrow> Intent list \<Rightarrow> Intent list" where
  "assignedTo k intents = filter (\<lambda>it. it_HostID it = k) (assigns intents)"

lemma assignedTo_fillHosts:
  "assignedTo k (fillHosts placed intents) =
     map (\<lambda>it. it\<lparr>it_HostID := k\<rparr>) (filter (\<lambda>it. placed (it_ReplicaID it) = Some k) (assigns intents))"
proof -
  have "filter (\<lambda>it. it_HostID it = k)
      (List.map_filter (\<lambda>it. map_option (\<lambda>h. it\<lparr>it_HostID := h\<rparr>) (placed (it_ReplicaID it))) xs)
    = map (\<lambda>it. it\<lparr>it_HostID := k\<rparr>) (filter (\<lambda>it. placed (it_ReplicaID it) = Some k) xs)" for xs
    by (induction xs) (auto simp: List.map_filter_simps split: option.splits)
  then show ?thesis
    by (simp add: assignedTo_def assigns_fillHosts)
qed

lemma sum_assignedTo:
  assumes "assigns_wf snap intents"
    and "\<And>r. f (replicaItem cfg r) = (g r :: int)"
  shows "(\<Sum>it\<leftarrow>assignedTo k (fillHosts placed intents). g (replicaOf snap it))
    = (\<Sum>i\<leftarrow>placedOn placed k (hostlessItems cfg snap intents). f i)"
proof -
  have "(\<Sum>i\<leftarrow>filter (\<lambda>i. placed (pi_id i) = Some k) (map (\<lambda>it. replicaItem cfg (replicaOf snap it)) xs). f i)
    = (\<Sum>it\<leftarrow>map (\<lambda>it. it\<lparr>it_HostID := k\<rparr>) (filter (\<lambda>it. placed (it_ReplicaID it) = Some k) xs). g (replicaOf snap it))"
    if "set xs \<subseteq> set (assigns intents)" for xs
    using that
    by (induction xs) (auto simp: replicaOf(2) [OF assms(1)] assms(2), auto simp: replicaOf_def)
  from this [of "assigns intents"] show ?thesis
    by (simp add: placedOn_def hostlessItems_assigns [OF assms(1)] assignedTo_fillHosts)
qed

lemma placeHostless_shape:
  assumes "assigns_wf snap intents"
  shows "placeHostless ord cfg snap intents = fillHosts (snd (placeItems ord cfg snap (scarcityWeights cfg snap)
    (sortItems (hostlessItems cfg snap intents) (regionReference cfg snap)) (newLedger cfg snap) Map.empty)) intents"
proof (cases "assigns intents = []")
  case True
  then have "fillHosts placed intents = intents" for placed
    by (induction intents) (auto simp: fillHosts_def assigns_def List.map_filter_simps split: if_splits)
  with True show ?thesis
    by (simp add: placeHostless_def hostlessItems_assigns [OF assms])
next
  case False
  then show ?thesis
    by (simp add: placeHostless_def hostlessItems_assigns [OF assms] split: prod.splits)
qed

lemma placeHostless_capacity:
  assumes cfg: "Placement_wf cfg" and ord: "\<forall>it. iteration_order (ord it)"
    and wf: "assigns_wf snap intents"
    and h: "index_last h_ID (sn_hosts snap) k = Some h" "host_wf h"
    and unpinned: "\<forall>v \<in> set (sn_volumes snap). v_HostID v \<noteq> k" and "k \<noteq> uuid_Nil"
    and some: "assignedTo k (placeHostless ord cfg snap intents) \<noteq> []"
  shows "(\<Sum>r\<leftarrow>replicasOn snap k. r_CPUMillicores r)
      + (\<Sum>it\<leftarrow>assignedTo k (placeHostless ord cfg snap intents). r_CPUMillicores (replicaOf snap it)) \<le> h_CPUMillicores h
    \<and> (\<Sum>r\<leftarrow>replicasOn snap k. r_MemBytes r)
      + (\<Sum>it\<leftarrow>assignedTo k (placeHostless ord cfg snap intents). r_MemBytes (replicaOf snap it)) \<le> h_MemBytes h"
proof -
  let ?raw = "hostlessItems cfg snap intents"
  let ?items = "sortItems ?raw (regionReference cfg snap)"
  obtain led' placed where pl: "placeItems ord cfg snap (scarcityWeights cfg snap) ?items (newLedger cfg snap) Map.empty = (led', placed)"
    by (cases "placeItems ord cfg snap (scarcityWeights cfg snap) ?items (newLedger cfg snap) Map.empty")
  have out: "placeHostless ord cfg snap intents = fillHosts placed intents"
    by (simp add: placeHostless_shape [OF wf] pl)
  have ms: "mset ?items = mset ?raw" by (simp add: sortItems_def)
  have "distinct (map pi_id ?raw)"
    using wf by (simp add: map_pi_id_items assigns_wf_def)
  then have d: "distinct (map pi_id ?items)"
    using ms by (metis mset_eq_imp_distinct_iff mset_map)
  have lk: "map_of (newLedger cfg snap) k = Some (residual cfg snap h)" and id: "h_ID h = k"
    using h(1) by (auto simp: map_of_newLedger dest: index_last_Some)
  have pins: "\<forall>it \<in> set ?items. pinnedHost snap (pi_id it) \<noteq> Some k"
    using unpinned \<open>k \<noteq> uuid_Nil\<close> by (auto simp: pinnedHost_def dest: index_last_Some split: option.splits if_splits)
  have ne: "placedOn placed k ?items \<noteq> []"
  proof -
    have "mset (placedOn placed k ?items) = mset (placedOn placed k ?raw)"
      unfolding placedOn_def mset_filter ms ..
    moreover have "placedOn placed k ?raw \<noteq> []"
      using some replicaOf(2) [OF wf] unfolding out assignedTo_fillHosts
      by (auto simp: placedOn_def hostlessItems_assigns [OF wf] filter_empty_conv)
    ultimately show ?thesis by (metis mset_zero_iff)
  qed
  from placeItems_ledger [OF ord ledger_wf_newLedger d pl _ lk] cfg h(2) pins ne
  have "0 \<le> hl_cpu (residual cfg snap h) - (\<Sum>it\<leftarrow>placedOn placed k ?items. pi_cpu it)"
    "0 \<le> hl_mem (residual cfg snap h) - (\<Sum>it\<leftarrow>placedOn placed k ?items. pi_mem it)"
    by (auto simp: residual_def)
  moreover have "(\<Sum>it\<leftarrow>placedOn placed k ?items. f it) = (\<Sum>it\<leftarrow>placedOn placed k ?raw. f it)" for f :: "packItem \<Rightarrow> int"
    unfolding placedOn_def by (rule sum_list_filter_perm [OF ms])
  moreover have "(\<Sum>it\<leftarrow>assignedTo k (fillHosts placed intents). r_CPUMillicores (replicaOf snap it))
      = (\<Sum>i\<leftarrow>placedOn placed k ?raw. pi_cpu i)"
    "(\<Sum>it\<leftarrow>assignedTo k (fillHosts placed intents). r_MemBytes (replicaOf snap it))
      = (\<Sum>i\<leftarrow>placedOn placed k ?raw. pi_mem i)"
    by (intro sum_assignedTo wf; simp)+
  ultimately show ?thesis
    by (simp add: out residual_def id)
qed

lemma placeHostless_sound:
  assumes ord: "\<forall>it. iteration_order (ord it)" and wf: "assigns_wf snap intents"
    and it: "it \<in> set (assigns (placeHostless ord cfg snap intents))"
  shows "\<exists>it0 h. it0 \<in> set (assigns intents) \<and> it = it0\<lparr>it_HostID := it_HostID it\<rparr>
    \<and> index_last h_ID (sn_hosts snap) (it_HostID it) = Some h
    \<and> (case pinnedHost snap (it_ReplicaID it) of
         Some k \<Rightarrow> it_HostID it = k \<and> k \<noteq> uuid_Nil
       | None \<Rightarrow> h_Open h \<and> h_Region h = rs_Region (r_Slot (replicaOf snap it)))"
proof -
  let ?raw = "hostlessItems cfg snap intents"
  let ?items = "sortItems ?raw (regionReference cfg snap)"
  obtain led' placed where pl: "placeItems ord cfg snap (scarcityWeights cfg snap) ?items (newLedger cfg snap) Map.empty = (led', placed)"
    by (cases "placeItems ord cfg snap (scarcityWeights cfg snap) ?items (newLedger cfg snap) Map.empty")
  obtain it0 k where it0: "it0 \<in> set (assigns intents)" "placed (it_ReplicaID it0) = Some k" "it = it0\<lparr>it_HostID := k\<rparr>"
    using it by (auto simp: placeHostless_shape [OF wf] pl assigns_fillHosts List.map_filter_def split: option.splits)
  from placeItems_sound [OF ord ledger_wf_newLedger pl it0(2)]
  obtain i where i: "i \<in> set ?items" "pi_id i = it_ReplicaID it0" "map_option hl_host (map_of (newLedger cfg snap) k) \<noteq> None"
    "case pinnedHost snap (it_ReplicaID it0) of
       Some h' \<Rightarrow> k = h' \<and> k \<noteq> uuid_Nil
     | None \<Rightarrow> \<exists>hl. map_of (newLedger cfg snap) k = Some hl \<and> h_Open (hl_host hl) \<and> h_Region (hl_host hl) = pi_region i"
    by auto
  obtain it1 where it1: "it1 \<in> set (assigns intents)" "i = replicaItem cfg (replicaOf snap it1)"
    using i(1) by (auto simp: sortItems_def hostlessItems_assigns [OF wf])
  then have "it_ReplicaID it1 = it_ReplicaID it0"
    using i(2) replicaOf(2) [OF wf it1(1)] by simp
  then have "pi_region i = rs_Region (r_Slot (replicaOf snap it))"
    by (simp add: it1(2) it0(3) replicaOf_def)
  then show ?thesis
    using i(3,4) it0
    by (intro exI [of _ it0]) (auto simp: map_of_newLedger residual_def split: option.splits)
qed

section \<open>The volume pass\<close>

text \<open>The intents of a pass that place a volume on a host, and those that grow one there.\<close>

definition placedVolumes :: "uuid \<Rightarrow> Intent list \<Rightarrow> Intent list" where
  "placedVolumes k intents = filter (\<lambda>it. it_Kind it = IntentPlaceVolume \<and> it_HostID it = k) intents"

definition volumeOf :: "stateSnapshot \<Rightarrow> uuid \<Rightarrow> volume" where
  "volumeOf snap i = the (index_last v_ID (sn_volumes snap) i)"

definition grownVolumes :: "stateSnapshot \<Rightarrow> uuid \<Rightarrow> Intent list \<Rightarrow> Intent list" where
  "grownVolumes snap k intents =
     filter (\<lambda>it. it_Kind it = IntentResizeVolume \<and> v_HostID (volumeOf snap (it_VolumeID it)) = k) intents"

lemma diskItem_simps [simp]:
  "pi_disk (diskItem it) = pi_disk it" "pi_cpu (diskItem it) = 0" "pi_mem (diskItem it) = 0"
  by (simp_all add: diskItem_def zero_item_def)

lemma resizeItem_simps [simp]:
  "pi_disk (resizeItem v) = GrowDelta (v_Sizing v)" "pi_cpu (resizeItem v) = 0" "pi_mem (resizeItem v) = 0"
  by (simp_all add: resizeItem_def zero_item_def)

lemma volumeItem_simps [simp]:
  "pi_id (volumeItem snap v) = v_ID v" "pi_disk (volumeItem snap v) = vs_Desired (v_Sizing v)"
  "pi_region (volumeItem snap v) = rs_Region (v_Slot v)"
  by (simp_all add: volumeItem_def zero_item_def)

lemma placeVolumeItems_kinds:
  assumes "placeVolumeItems ord cfg rw items led = (intents, led')"
  shows "\<forall>it \<in> set intents. it_Kind it = IntentPlaceVolume \<and> it_VolumeID it \<in> pi_id ` set items"
  using assms
  by (induction items arbitrary: led intents) (auto simp: Let_def split: option.splits prod.splits)

lemma placeVolumeItems_ledger:
  assumes ord: "\<forall>it. iteration_order (ord it)" and "ledger_wf led"
    and "placeVolumeItems ord cfg rw items led = (intents, led')"
    and "\<forall>i \<in> set items. D (pi_id i) = pi_disk i \<and> 0 < pi_disk i"
    and "map_of led k = Some hl"
  shows "ledger_wf led' \<and> (\<exists>hl'. map_of led' k = Some hl' \<and> hl_host hl' = hl_host hl
    \<and> hl_disk hl' = hl_disk hl - (\<Sum>it\<leftarrow>placedVolumes k intents. D (it_VolumeID it))
    \<and> (Placement_wf cfg \<longrightarrow> host_wf (hl_host hl) \<longrightarrow> 0 \<le> hl_disk hl \<or> placedVolumes k intents \<noteq> [] \<longrightarrow> 0 \<le> hl_disk hl'))"
  using assms(2-)
proof (induction items arbitrary: led intents hl)
  case Nil
  then show ?case by (simp add: placedVolumes_def)
next
  case (Cons i items)
  show ?case
  proof (cases "pick (ord i) cfg i led rw")
    case None
    then have "placeVolumeItems ord cfg rw items led = (intents, led')"
      using Cons.prems(2) by simp
    from Cons.IH [OF Cons.prems(1) this _ Cons.prems(4)] Cons.prems(3) show ?thesis by simp
  next
    case (Some h)
    let ?led = "commit led (diskItem i) h"
    obtain rest where rec: "placeVolumeItems ord cfg rw items ?led = (rest, led')"
      and intents: "intents = (mkIntent IntentPlaceVolume)\<lparr>it_VolumeID := pi_id i, it_HostID := h\<rparr> # rest"
      using Cons.prems(2) Some by (auto simp: Let_def split: prod.splits)
    have D: "\<forall>i \<in> set items. D (pi_id i) = pi_disk i \<and> 0 < pi_disk i" "D (pi_id i) = pi_disk i" "0 < pi_disk i"
      using Cons.prems(3) by auto
    note IH = Cons.IH [OF ledger_wf_commit [OF Cons.prems(1)] rec D(1)]
    show ?thesis
    proof (cases "h = k")
      case True
      have lk: "map_of ?led k = Some (chargeItem (diskItem i) hl)"
        using True Cons.prems(4) by (simp add: lookup_commit)
      have room: "pi_disk i \<le> hl_disk hl" if "Placement_wf cfg" "host_wf (hl_host hl)"
      proof -
        have "fits cfg i hl"
          using pick_feasible [OF Cons.prems(1) _ Some] ord True Cons.prems(4) by (fastforce simp: feasible_def)
        with fits_residual [OF that] D(3) show ?thesis by blast
      qed
      from IH [OF lk] obtain hl' where "ledger_wf led'" "map_of led' k = Some hl'" "hl_host hl' = hl_host hl"
        "hl_disk hl' = hl_disk hl - pi_disk i - (\<Sum>it\<leftarrow>placedVolumes k rest. D (it_VolumeID it))"
        "Placement_wf cfg \<longrightarrow> host_wf (hl_host hl) \<longrightarrow> pi_disk i \<le> hl_disk hl \<or> placedVolumes k rest \<noteq> [] \<longrightarrow> 0 \<le> hl_disk hl'"
        by auto
      then show ?thesis
        using room D(2) True by (intro conjI exI [of _ hl']) (auto simp: placedVolumes_def intents)
    next
      case False
      have "map_of ?led k = Some hl"
        using False Cons.prems(4) by (simp add: lookup_commit)
      from IH [OF this] show ?thesis
        using False by (auto simp: placedVolumes_def intents)
    qed
  qed
qed

lemma resizeVolumes_kinds:
  "resizeVolumes cfg vs led = (intents, led') \<Longrightarrow> \<forall>it \<in> set intents.
     it_Kind it \<in> {IntentVolumeResized, IntentResizeVolume, IntentVolumeResizePending} \<and> it_VolumeID it \<in> v_ID ` set vs"
proof (induction vs arbitrary: led intents)
  case (Cons v vs)
  obtain is1 led1 is2 where s: "resizeStep cfg v led = (is1, led1)" "resizeVolumes cfg vs led1 = (is2, led')" "intents = is1 @ is2"
    using Cons.prems by (auto simp: Let_def split: prod.splits)
  have "\<forall>it \<in> set is1. it_Kind it \<in> {IntentVolumeResized, IntentResizeVolume, IntentVolumeResizePending} \<and> it_VolumeID it = v_ID v"
    using s(1) by (auto simp: resizeStep_def Let_def split: if_splits option.splits)
  with Cons.IH [OF s(2)] show ?case
    by (auto simp: s(3))
qed simp

lemma resizeStep_ledger:
  assumes "resizeStep cfg v led = (is1, led1)" "ledger_wf led" "map_of led k = Some hl"
    and "volumeOf snap (v_ID v) = v"
  shows "ledger_wf led1 \<and> (\<exists>hl'. map_of led1 k = Some hl' \<and> hl_host hl' = hl_host hl
    \<and> hl_disk hl' = hl_disk hl - (\<Sum>it\<leftarrow>grownVolumes snap k is1. GrowDelta (v_Sizing (volumeOf snap (it_VolumeID it))))
    \<and> (Placement_wf cfg \<longrightarrow> host_wf (hl_host hl) \<longrightarrow> 0 \<le> hl_disk hl \<or> grownVolumes snap k is1 \<noteq> [] \<longrightarrow> 0 \<le> hl_disk hl'))"
proof (cases "\<exists>hl'. map_of led (v_HostID v) = Some hl' \<and> fits cfg (resizeItem v) hl' \<and> Drifting (v_Sizing v)
      \<and> vs_Status (v_Sizing v) \<in> {VolumeAttached, VolumeResizePending}")
  case True
  then obtain hl0 where hl0: "map_of led (v_HostID v) = Some hl0" "fits cfg (resizeItem v) hl0" "Drifting (v_Sizing v)"
    "vs_Status (v_Sizing v) \<in> {VolumeAttached, VolumeResizePending}" by blast
  then have r: "is1 = [(mkIntent IntentResizeVolume)\<lparr>it_VolumeID := v_ID v\<rparr>]" "led1 = commit led (resizeItem v) (v_HostID v)"
    using assms(1) by (auto simp: resizeStep_def Let_def Drifting_def CaughtUp_def)
  have "GrowDelta (v_Sizing v) \<le> hl_disk hl0" if "Placement_wf cfg" "host_wf (hl_host hl0)"
    using fits_residual(3) [OF that hl0(2)] Drifting_GrowDelta_pos [OF hl0(3)] by simp
  then show ?thesis
    using r assms(2-4) hl0(1) by (auto simp: grownVolumes_def lookup_commit ledger_wf_commit)
next
  case False
  have "led1 = led \<and> (\<forall>it \<in> set is1. it_Kind it \<noteq> IntentResizeVolume)"
  proof (cases "map_of led (v_HostID v)")
    case None
    with assms(1) show ?thesis
      by (cases "Reported (v_Sizing v)"; cases "Drifting (v_Sizing v)"; cases "CaughtUp (v_Sizing v)";
          cases "vs_Status (v_Sizing v)") (auto simp: resizeStep_def Let_def)
  next
    case (Some hl0)
    with False have "\<not> (fits cfg (resizeItem v) hl0 \<and> Drifting (v_Sizing v)
      \<and> vs_Status (v_Sizing v) \<in> {VolumeAttached, VolumeResizePending})" by blast
    with Some assms(1) show ?thesis
      by (cases "Reported (v_Sizing v)"; cases "Drifting (v_Sizing v)"; cases "CaughtUp (v_Sizing v)";
          cases "vs_Status (v_Sizing v)") (auto simp: resizeStep_def Let_def)
  qed
  then show ?thesis
    using assms(2,3) by (auto simp: grownVolumes_def filter_False)
qed

lemma resizeVolumes_ledger:
  assumes "resizeVolumes cfg vs led = (intents, led')" "ledger_wf led" "map_of led k = Some hl"
    and "\<forall>v \<in> set vs. volumeOf snap (v_ID v) = v"
  shows "\<exists>hl'. map_of led' k = Some hl' \<and> hl_host hl' = hl_host hl
    \<and> hl_disk hl' = hl_disk hl - (\<Sum>it\<leftarrow>grownVolumes snap k intents. GrowDelta (v_Sizing (volumeOf snap (it_VolumeID it))))
    \<and> (Placement_wf cfg \<longrightarrow> host_wf (hl_host hl) \<longrightarrow> 0 \<le> hl_disk hl \<or> grownVolumes snap k intents \<noteq> [] \<longrightarrow> 0 \<le> hl_disk hl')"
  using assms
proof (induction vs arbitrary: led intents hl)
  case Nil
  then show ?case by (simp add: grownVolumes_def)
next
  case (Cons v vs)
  obtain is1 led1 is2 where s: "resizeStep cfg v led = (is1, led1)" "resizeVolumes cfg vs led1 = (is2, led')" "intents = is1 @ is2"
    using Cons.prems(1) by (auto simp: Let_def split: prod.splits)
  obtain hl1 where hl1: "ledger_wf led1" "map_of led1 k = Some hl1" "hl_host hl1 = hl_host hl"
    "hl_disk hl1 = hl_disk hl - (\<Sum>it\<leftarrow>grownVolumes snap k is1. GrowDelta (v_Sizing (volumeOf snap (it_VolumeID it))))"
    "Placement_wf cfg \<longrightarrow> host_wf (hl_host hl) \<longrightarrow> 0 \<le> hl_disk hl \<or> grownVolumes snap k is1 \<noteq> [] \<longrightarrow> 0 \<le> hl_disk hl1"
    using resizeStep_ledger [OF s(1) Cons.prems(2,3), of snap] Cons.prems(4) unfolding list.set by blast
  obtain hl2 where hl2: "map_of led' k = Some hl2" "hl_host hl2 = hl_host hl1"
    "hl_disk hl2 = hl_disk hl1 - (\<Sum>it\<leftarrow>grownVolumes snap k is2. GrowDelta (v_Sizing (volumeOf snap (it_VolumeID it))))"
    "Placement_wf cfg \<longrightarrow> host_wf (hl_host hl1) \<longrightarrow> 0 \<le> hl_disk hl1 \<or> grownVolumes snap k is2 \<noteq> [] \<longrightarrow> 0 \<le> hl_disk hl2"
    using Cons.IH [OF s(2) hl1(1,2)] Cons.prems(4) unfolding list.set by blast
  have "grownVolumes snap k intents = grownVolumes snap k is1 @ grownVolumes snap k is2"
    by (simp add: grownVolumes_def s(3))
  then show ?case
    using hl1 hl2 by (intro exI [of _ hl2]) auto
qed

lemma volumeOf: "distinct (map v_ID (sn_volumes snap)) \<Longrightarrow> v \<in> set (sn_volumes snap) \<Longrightarrow> volumeOf snap (v_ID v) = v"
  by (simp add: volumeOf_def index_last_distinct)

lemma planVolumes_kinds:
  "it \<in> set (planVolumes ord cfg snap) \<Longrightarrow>
   it_Kind it \<in> {IntentPlaceVolume, IntentVolumeResized, IntentResizeVolume, IntentVolumeResizePending}"
proof -
  assume it: "it \<in> set (planVolumes ord cfg snap)"
  obtain is1 led1 where p: "placeVolumes ord cfg snap (newLedger cfg snap) = (is1, led1)"
    by (cases "placeVolumes ord cfg snap (newLedger cfg snap)")
  obtain is2 led2 where r: "resizeVolumes cfg (sn_volumes snap) led1 = (is2, led2)"
    by (cases "resizeVolumes cfg (sn_volumes snap) led1")
  have "\<forall>it \<in> set is1. it_Kind it = IntentPlaceVolume"
    using p by (auto simp: placeVolumes_def Let_def split: if_splits dest!: placeVolumeItems_kinds)
  then show ?thesis
    using it resizeVolumes_kinds [OF r] by (auto simp: planVolumes_def p r)
qed

lemma planVolumes_budget:
  assumes cfg: "Placement_wf cfg" and ord: "\<forall>it. iteration_order (ord it)"
    and d: "distinct (map v_ID (sn_volumes snap))" and pos: "\<forall>v \<in> set (sn_volumes snap). 0 < vs_Desired (v_Sizing v)"
    and h: "index_last h_ID (sn_hosts snap) k = Some h" "host_wf h"
    and some: "placedVolumes k (planVolumes ord cfg snap) \<noteq> [] \<or> grownVolumes snap k (planVolumes ord cfg snap) \<noteq> []"
  shows "(\<Sum>v\<leftarrow>volumesOn snap k. Committed (v_Sizing v))
      + (\<Sum>it\<leftarrow>placedVolumes k (planVolumes ord cfg snap). vs_Desired (v_Sizing (volumeOf snap (it_VolumeID it))))
      + (\<Sum>it\<leftarrow>grownVolumes snap k (planVolumes ord cfg snap). GrowDelta (v_Sizing (volumeOf snap (it_VolumeID it))))
    \<le> diskBudget cfg h"
proof -
  obtain is1 led1 where p: "placeVolumes ord cfg snap (newLedger cfg snap) = (is1, led1)"
    by (cases "placeVolumes ord cfg snap (newLedger cfg snap)")
  obtain is2 led2 where r: "resizeVolumes cfg (sn_volumes snap) led1 = (is2, led2)"
    by (cases "resizeVolumes cfg (sn_volumes snap) led1")
  have out: "planVolumes ord cfg snap = is1 @ is2" by (simp add: planVolumes_def p r)
  have lk: "map_of (newLedger cfg snap) k = Some (residual cfg snap h)" and id: "h_ID h = k"
    using h(1) by (auto simp: map_of_newLedger dest: index_last_Some)
  let ?D = "\<lambda>i. vs_Desired (v_Sizing (volumeOf snap i))"
  have k1: "\<forall>it \<in> set is1. it_Kind it = IntentPlaceVolume" and k2: "\<forall>it \<in> set is2. it_Kind it \<noteq> IntentPlaceVolume"
    using p resizeVolumes_kinds [OF r] by (auto simp: placeVolumes_def Let_def split: if_splits dest!: placeVolumeItems_kinds)
  obtain hl1 where hl1: "ledger_wf led1" "map_of led1 k = Some hl1" "hl_host hl1 = h"
    "hl_disk hl1 = hl_disk (residual cfg snap h) - (\<Sum>it\<leftarrow>placedVolumes k is1. ?D (it_VolumeID it))"
    "0 \<le> hl_disk (residual cfg snap h) \<or> placedVolumes k is1 \<noteq> [] \<longrightarrow> 0 \<le> hl_disk hl1"
  proof (cases "is1 = [] \<and> led1 = newLedger cfg snap")
    case True
    then show ?thesis
      using lk that [of "residual cfg snap h"] by (simp add: placedVolumes_def ledger_wf_newLedger residual_def)
  next
    case False
    then have p': "placeVolumeItems ord cfg (scarcityWeights cfg snap) (sortItems (map (volumeItem snap)
        (filter (\<lambda>v. v_HostID v = uuid_Nil) (sn_volumes snap))) (regionReference cfg snap)) (newLedger cfg snap) = (is1, led1)"
      using p by (auto simp: placeVolumes_def Let_def split: if_splits)
    have "\<forall>i \<in> set (sortItems (map (volumeItem snap) (filter (\<lambda>v. v_HostID v = uuid_Nil) (sn_volumes snap))) (regionReference cfg snap)).
        ?D (pi_id i) = pi_disk i \<and> 0 < pi_disk i"
      using pos by (auto simp: sortItems_def volumeOf [OF d])
    from placeVolumeItems_ledger [OF ord ledger_wf_newLedger p' this lk] show ?thesis
      using cfg h(2) that by (auto simp: residual_def)
  qed
  have "\<forall>v \<in> set (sn_volumes snap). volumeOf snap (v_ID v) = v" by (simp add: volumeOf [OF d])
  from resizeVolumes_ledger [OF r hl1(1,2) this] obtain hl2 :: hostLedger where hl2:
    "hl_disk hl2 = hl_disk hl1 - (\<Sum>it\<leftarrow>grownVolumes snap k is2. GrowDelta (v_Sizing (volumeOf snap (it_VolumeID it))))"
    "Placement_wf cfg \<longrightarrow> host_wf (hl_host hl1) \<longrightarrow>
      0 \<le> hl_disk hl1 \<or> grownVolumes snap k is2 \<noteq> [] \<longrightarrow> 0 \<le> hl_disk hl2"
    by blast
  then have "0 \<le> hl_disk hl1 \<or> grownVolumes snap k is2 \<noteq> [] \<longrightarrow> 0 \<le> hl_disk hl2"
    using cfg h(2) hl1(3) by simp
  moreover note hl2(1)
  moreover have "placedVolumes k (planVolumes ord cfg snap) = placedVolumes k is1"
    "grownVolumes snap k (planVolumes ord cfg snap) = grownVolumes snap k is2"
    using k1 k2 by (auto simp: out placedVolumes_def grownVolumes_def filter_False)
  ultimately show ?thesis
    using hl1 some id by (auto simp: residual_def)
qed

end
