(* ===== verification/Reconcile.thy ===== *)
theory Reconcile
  imports RulesCorrect PlacementCorrect
begin

text \<open>
  \<^verbatim>\<open>Reconciler.Reconcile\<close> of \<^verbatim>\<open>internal/engine/reconciler.go\<close>: rules, placement and volumes composed,
  and what holds of the intents of a whole pass over a snapshot whose rows have distinct IDs (they
  are primary keys). \<open>gord\<close> is the order of the range over leftover slots, \<open>ord\<close> and \<open>vord\<close> the orders
  of the ranges over the host ledger, one per item placed.
\<close>

definition Reconcile ::
  "(replicaSlot list \<Rightarrow> replicaSlot list) \<Rightarrow> (packItem \<Rightarrow> uuid list \<Rightarrow> uuid list) \<Rightarrow>
   (packItem \<Rightarrow> uuid list \<Rightarrow> uuid list) \<Rightarrow> Placement \<Rightarrow> stateSnapshot \<Rightarrow> Intent list" where
  "Reconcile gord ord vord cfg snap =
     (let firings = fireRules cascades (buildReplicaGroups gord snap);
          intents = placeHostless ord cfg snap (intentsOf firings)
      in intents @ planVolumes vord cfg snap)"

definition snapshot_wf :: "stateSnapshot \<Rightarrow> bool" where
  "snapshot_wf snap \<longleftrightarrow> distinct (map r_ID (sn_replicas snap)) \<and> distinct (map h_ID (sn_hosts snap))
     \<and> distinct (map v_ID (sn_volumes snap))"

text \<open>The orders of one pass.\<close>

definition orders :: "(replicaSlot list \<Rightarrow> replicaSlot list) \<Rightarrow> (packItem \<Rightarrow> uuid list \<Rightarrow> uuid list) \<Rightarrow>
   (packItem \<Rightarrow> uuid list \<Rightarrow> uuid list) \<Rightarrow> bool" where
  "orders gord ord vord \<longleftrightarrow> iteration_order gord \<and> (\<forall>it. iteration_order (ord it)) \<and> (\<forall>it. iteration_order (vord it))"

section \<open>Host assignments come from hostless replicas\<close>

lemma assigns_append: "assigns (xs @ ys) = assigns xs @ assigns ys"
  by (simp add: assigns_def)

lemma assigns_group:
  "assigns (groupIntents g) = [] \<or>
   assigns (groupIntents g) = map (\<lambda>rp. (mkIntent IntentAssignHost)\<lparr>it_ReplicaID := r_ID rp, it_VolumeID := r_VolumeID rp\<rparr>)
     (filter hostless (rg_TargetReplicas g))"
proof (cases "find (\<lambda>rl. rule_when rl g) (rulesFor cascades g)")
  case None
  then show ?thesis by (simp add: groupIntents_find assigns_def)
next
  case (Some rl)
  then have rl: "rl \<in> set (rulesFor cascades g)" "rule_when rl g" and eq: "groupIntents g = rule_then rl g"
    by (auto simp: groupIntents_find dest: find_Some_set)
  show ?thesis
  proof (cases "rl = anyHostlessReplicas")
    case True
    then show ?thesis
      by (simp add: eq anyHostlessReplicas_def assigns_def filter_map o_def)
  next
    case False
    have "it_Kind it \<noteq> IntentAssignHost" if "it \<in> set (rule_then rl g)" for it
      using rl False that rule_kinds_all
      by (auto simp: rulesFor_def cascade_defs split: if_splits
          dest!: rule_kinds_all [THEN rule_kindsD, rotated])
    then show ?thesis
      by (simp add: eq assigns_def filter_False)
  qed
qed

lemma assigns_group_replicas:
  "mset (map it_ReplicaID (assigns (groupIntents g))) \<subseteq># mset (map r_ID (groupReplicas g))"
proof -
  let ?f = "\<lambda>rp. (mkIntent IntentAssignHost)\<lparr>it_ReplicaID := r_ID rp, it_VolumeID := r_VolumeID rp\<rparr>"
  have "mset (map r_ID (filter hostless (rg_TargetReplicas g))) \<subseteq># mset (map r_ID (rg_TargetReplicas g))"
    by (simp add: image_mset_subseteq_mono)
  also have "\<dots> \<subseteq># mset (map r_ID (groupReplicas g))"
    by (simp add: groupReplicas_def)
  finally have sub: "mset (map r_ID (filter hostless (rg_TargetReplicas g))) \<subseteq># mset (map r_ID (groupReplicas g))" .
  have eq: "map it_ReplicaID (map ?f rs) = map r_ID rs" for rs
    by (simp add: o_def)
  from assigns_group [of g] show ?thesis
  proof
    assume "assigns (groupIntents g) = []"
    then show ?thesis by simp
  next
    assume "assigns (groupIntents g) = map ?f (filter hostless (rg_TargetReplicas g))"
    then show ?thesis unfolding eq using sub by (simp only: eq)
  qed
qed

lemma assigns_groups_replicas:
  "mset (map it_ReplicaID (assigns (concat (map groupIntents gs)))) \<subseteq># mset (map r_ID (concat (map groupReplicas gs)))"
proof (induction gs)
  case (Cons g gs)
  then have "mset (map it_ReplicaID (assigns (groupIntents g))) + mset (map it_ReplicaID (assigns (concat (map groupIntents gs))))
      \<subseteq># mset (map r_ID (groupReplicas g)) + mset (map r_ID (concat (map groupReplicas gs)))"
    by (intro subset_mset.add_mono assigns_group_replicas)
  then show ?case by (simp add: assigns_append)
qed (simp add: assigns_def)

lemma assigns_wf_rules:
  assumes "iteration_order gord" "snapshot_wf snap"
  shows "assigns_wf snap (intentsOf (fireRules cascades (buildReplicaGroups gord snap)))"
proof -
  let ?gs = "buildReplicaGroups gord snap"
  have "mset (map it_ReplicaID (assigns (concat (map groupIntents ?gs)))) \<subseteq># mset (map r_ID (concat (map groupReplicas ?gs)))"
    by (rule assigns_groups_replicas)
  also have "\<dots> = mset (map r_ID (sn_replicas snap))"
    using buildReplicaGroups_mset [OF assms(1), of snap] by (simp only: mset_map)
  finally have sub: "mset (map it_ReplicaID (assigns (concat (map groupIntents ?gs)))) \<subseteq># mset (map r_ID (sn_replicas snap))" .
  then have "distinct (map it_ReplicaID (assigns (concat (map groupIntents ?gs))))"
    using assms(2) unfolding snapshot_wf_def
    by (metis distinct_submset)
  moreover have "set (map it_ReplicaID (assigns (concat (map groupIntents ?gs)))) \<subseteq> set (map r_ID (sn_replicas snap))"
    using sub by (metis set_mset_mono set_mset_mset)
  ultimately show ?thesis
    by (auto simp: assigns_wf_def intentsOf_fireRules)
qed

lemma assigns_hostless:
  assumes "iteration_order gord" "snapshot_wf snap"
    and "it \<in> set (assigns (intentsOf (fireRules cascades (buildReplicaGroups gord snap))))"
  shows "hostless (replicaOf snap it)"
proof -
  let ?gs = "buildReplicaGroups gord snap"
  obtain g where g: "g \<in> set ?gs" "it \<in> set (assigns (groupIntents g))"
    using assms(3) by (auto simp: intentsOf_fireRules assigns_def)
  then obtain r where r: "r \<in> set (rg_TargetReplicas g)" "hostless r" "it_ReplicaID it = r_ID r"
    using assigns_group [of g] by auto
  then have "r \<in> set (concat (map groupReplicas ?gs))"
    using g(1) by (auto simp: groupReplicas_def)
  then have "r \<in> set (sn_replicas snap)"
    using buildReplicaGroups_mset [OF assms(1), of snap] by (metis set_mset_mset)
  then have "index_last r_ID (sn_replicas snap) (r_ID r) = Some r"
    using assms(2) by (simp add: snapshot_wf_def index_last_distinct)
  with r show ?thesis
    by (simp add: replicaOf_def)
qed

lemma assigns_Reconcile:
  "assigns (Reconcile gord ord vord cfg snap) =
     assigns (placeHostless ord cfg snap (intentsOf (fireRules cascades (buildReplicaGroups gord snap))))"
proof -
  have "assigns (planVolumes vord cfg snap) = []"
    unfolding assigns_def filter_empty_conv by (auto dest!: planVolumes_kinds)
  then show ?thesis
    by (simp add: Reconcile_def Let_def assigns_append)
qed

lemma rules_no_volume_intents:
  assumes "it \<in> set (intentsOf (fireRules cascades gs))"
  shows "it_Kind it \<notin> {IntentPlaceVolume, IntentResizeVolume, IntentVolumeResized, IntentVolumeResizePending}"
proof -
  obtain g where "g \<in> set gs" "it \<in> set (groupIntents g)"
    using assms by (auto simp: intentsOf_fireRules)
  then obtain rl where "rl \<in> set (rulesFor cascades g)" "rule_when rl g" "it \<in> set (rule_then rl g)"
    using groupIntents_rule by blast
  then show ?thesis
    using rule_kinds_all
    by (auto simp: rulesFor_def cascade_defs split: if_splits dest!: rule_kinds_all [THEN rule_kindsD, rotated])
qed

section \<open>Properties of a pass\<close>

text \<open>
  C6: A pass never overcommits a host. If it assigns any replica to a host that holds no volume (so
  that every assignment there was a free choice), then the millicores and bytes of everything the
  host already runs and of everything assigned to it this pass stay within its capacity - the ledger
  charges each placement before the next one is judged.
\<close>
theorem reconcile_no_overcommit:
  assumes "Placement_wf cfg" and "orders gord ord vord" and "snapshot_wf snap"
    and "h \<in> set (sn_hosts snap)" and "host_wf h" and "h_ID h \<noteq> uuid_Nil"
    and "\<forall>v \<in> set (sn_volumes snap). v_HostID v \<noteq> h_ID h"
    and "assignedTo (h_ID h) (Reconcile gord ord vord cfg snap) \<noteq> []"
  shows "(\<Sum>r\<leftarrow>replicasOn snap (h_ID h). r_CPUMillicores r)
      + (\<Sum>it\<leftarrow>assignedTo (h_ID h) (Reconcile gord ord vord cfg snap). r_CPUMillicores (replicaOf snap it)) \<le> h_CPUMillicores h
    \<and> (\<Sum>r\<leftarrow>replicasOn snap (h_ID h). r_MemBytes r)
      + (\<Sum>it\<leftarrow>assignedTo (h_ID h) (Reconcile gord ord vord cfg snap). r_MemBytes (replicaOf snap it)) \<le> h_MemBytes h"
proof -
  have eq: "assignedTo (h_ID h) (Reconcile gord ord vord cfg snap) = assignedTo (h_ID h)
      (placeHostless ord cfg snap (intentsOf (fireRules cascades (buildReplicaGroups gord snap))))"
    by (simp add: assignedTo_def assigns_Reconcile)
  have "index_last h_ID (sn_hosts snap) (h_ID h) = Some h"
    using assms(3,4) by (simp add: snapshot_wf_def index_last_distinct)
  moreover have "\<forall>it. iteration_order (ord it)" "iteration_order gord"
    using assms(2) by (auto simp: orders_def)
  ultimately show ?thesis
    unfolding eq using assms by (intro placeHostless_capacity assigns_wf_rules) (auto simp: eq)
qed

text \<open>
  Every host assignment of a pass names a replica of the snapshot that has no host, and a host of
  the snapshot. A replica bound to a volume goes to exactly the host that holds the volume, even a
  cordoned or draining one; any other replica goes to an open host of its own region.
\<close>
theorem reconcile_assignments_sound:
  assumes "orders gord ord vord" and "snapshot_wf snap"
    and "it \<in> set (Reconcile gord ord vord cfg snap)" and "it_Kind it = IntentAssignHost"
  shows "\<exists>r h. r \<in> set (sn_replicas snap) \<and> r_ID r = it_ReplicaID it \<and> hostless r
    \<and> h \<in> set (sn_hosts snap) \<and> h_ID h = it_HostID it
    \<and> (if r_VolumeID r = uuid_Nil then h_Open h \<and> h_Region h = rs_Region (r_Slot r)
       else \<exists>v \<in> set (sn_volumes snap). v_ID v = r_VolumeID r \<and> v_HostID v = it_HostID it)"
proof -
  let ?raw = "intentsOf (fireRules cascades (buildReplicaGroups gord snap))"
  have ord: "\<forall>it. iteration_order (ord it)" "iteration_order gord"
    using assms(1) by (auto simp: orders_def)
  note wf = assigns_wf_rules [OF ord(2) assms(2)]
  have "it \<in> set (assigns (Reconcile gord ord vord cfg snap))"
    using assms(3,4) by (simp add: assigns_def)
  then have "it \<in> set (assigns (placeHostless ord cfg snap ?raw))"
    unfolding assigns_Reconcile .
  from placeHostless_sound [OF ord(1) wf this] obtain it0 h where
    it0: "it0 \<in> set (assigns ?raw)" "it = it0\<lparr>it_HostID := it_HostID it\<rparr>"
    and h: "index_last h_ID (sn_hosts snap) (it_HostID it) = Some h"
    and pin: "case pinnedHost snap (it_ReplicaID it) of
         Some k \<Rightarrow> it_HostID it = k \<and> k \<noteq> uuid_Nil
       | None \<Rightarrow> h_Open h \<and> h_Region h = rs_Region (r_Slot (replicaOf snap it))"
    by blast
  have "it_ReplicaID it = it_ReplicaID it0" using it0(2) by (metis Intent.select_convs(3) Intent.update_convs(4) Intent.surjective)
  then have ro: "replicaOf snap it = replicaOf snap it0" by (simp add: replicaOf_def)
  note r = replicaOf [OF wf it0(1)]
  show ?thesis
    using r h pin assigns_hostless [OF ord(2) assms(2) it0(1)] \<open>it_ReplicaID it = it_ReplicaID it0\<close>
    by (intro exI [of _ "replicaOf snap it0"] exI [of _ h])
      (auto simp: ro pinnedHost_def dest: index_last_Some split: option.splits if_splits)
qed

definition demo_fleet :: stateSnapshot where
  "demo_fleet = \<lparr>sn_observedAt = 1000, sn_desired = [demo_desired],
     sn_replicas = [(demo_replica 1)\<lparr>r_HostID := uuid_Nil, r_Phase := ReplicaPhasePending, r_Healthy := False,
       r_CPUMillicores := 128, r_MemBytes := 64\<rparr>],
     sn_hosts = [demo_host 9, (demo_host 7)\<lparr>h_Open := False\<rparr>],
     sn_volumes = [\<lparr>v_ID = 5, v_Slot = \<lparr>rs_EnvironmentServiceID = 2, rs_Region = ''us''\<rparr>, v_HostID = uuid_Nil,
         v_Sizing = \<lparr>vs_Status = VolumePending, vs_Desired = 64, vs_Observed = 0\<rparr>\<rparr>,
       \<lparr>v_ID = 6, v_Slot = \<lparr>rs_EnvironmentServiceID = 3, rs_Region = ''us''\<rparr>, v_HostID = 7,
         v_Sizing = \<lparr>vs_Status = VolumeAttached, vs_Desired = 64, vs_Observed = 32\<rparr>\<rparr>]\<rparr>"

definition demo_cfg :: Placement where
  "demo_cfg = \<lparr>pl_Headroom = 1 / 8, pl_AntiAffinity = True, pl_ScarcityWeights = False,
     pl_VolumeBudget = 1 / 2, pl_DiskReserve = 1 / 4\<rparr>"

abbreviation demo_pass :: "Intent list" where
  "demo_pass \<equiv> Reconcile rev (\<lambda>_. rev) (\<lambda>_. rev) demo_cfg demo_fleet"

lemma demo_orders: "orders rev (\<lambda>_. rev) (\<lambda>_. rev)"
  by (simp add: orders_def)

lemma demo_fleet_wf: "snapshot_wf demo_fleet"
  by (simp add: snapshot_wf_def demo_fleet_def demo_replica_def demo_host_def)

lemma demo_pass_eval:
  "demo_pass = [(mkIntent IntentAssignHost)\<lparr>it_ReplicaID := 1, it_HostID := 9\<rparr>,
     (mkIntent IntentPlaceVolume)\<lparr>it_VolumeID := 5, it_HostID := 9\<rparr>,
     (mkIntent IntentResizeVolume)\<lparr>it_VolumeID := 6\<rparr>]"
  by code_simp

lemma demo_cfg_wf: "Placement_wf demo_cfg"
  by (simp add: Placement_wf_def demo_cfg_def)

lemma demo_host_wf: "host_wf (demo_host i)" "h_ID (demo_host i) = i"
  by (simp_all add: host_wf_def demo_host_def)

theorem reconcile_no_overcommit_witness:
  "assignedTo 9 demo_pass \<noteq> [] \<and>
   (\<Sum>it\<leftarrow>assignedTo 9 demo_pass. r_CPUMillicores (replicaOf demo_fleet it)) \<le> 4096"
proof -
  have a: "assignedTo (h_ID (demo_host 9)) demo_pass \<noteq> []"
    by (simp add: demo_pass_eval assignedTo_def assigns_def demo_host_wf)
  have "demo_host 9 \<in> set (sn_hosts demo_fleet)" "\<forall>v \<in> set (sn_volumes demo_fleet). v_HostID v \<noteq> h_ID (demo_host 9)"
    "replicasOn demo_fleet 9 = []"
    by (simp_all add: demo_fleet_def demo_host_wf replicasOn_def)
  with reconcile_no_overcommit [OF demo_cfg_wf demo_orders demo_fleet_wf _ demo_host_wf(1) _ _ a] a
  show ?thesis by (simp add: demo_host_wf) (simp add: demo_host_def)
qed

theorem reconcile_assignments_sound_witness:
  "\<exists>r h. r \<in> set (sn_replicas demo_fleet) \<and> r_ID r = 1 \<and> hostless r \<and> h \<in> set (sn_hosts demo_fleet) \<and> h_ID h = 9"
proof -
  have "(mkIntent IntentAssignHost)\<lparr>it_ReplicaID := 1, it_HostID := 9\<rparr> \<in> set demo_pass"
    by (simp add: demo_pass_eval)
  from reconcile_assignments_sound [OF demo_orders demo_fleet_wf this] show ?thesis by auto
qed

section \<open>Volumes\<close>

text \<open>
  C7: Volumes stay within the disk budget. If a pass places or grows any volume on a host, then what
  the volumes already there are committed to, plus the full size of every volume it places there,
  plus the delta of every grow it approves there, is at most the budget the placement configuration
  gives volumes on that host.
\<close>
theorem reconcile_disk_within_budget:
  assumes "Placement_wf cfg" and "orders gord ord vord" and "snapshot_wf snap"
    and "\<forall>v \<in> set (sn_volumes snap). 0 < vs_Desired (v_Sizing v)"
    and "h \<in> set (sn_hosts snap)" and "host_wf h"
    and "placedVolumes (h_ID h) (Reconcile gord ord vord cfg snap) \<noteq> []
       \<or> grownVolumes snap (h_ID h) (Reconcile gord ord vord cfg snap) \<noteq> []"
  shows "(\<Sum>v\<leftarrow>volumesOn snap (h_ID h). Committed (v_Sizing v))
      + (\<Sum>it\<leftarrow>placedVolumes (h_ID h) (Reconcile gord ord vord cfg snap). vs_Desired (v_Sizing (volumeOf snap (it_VolumeID it))))
      + (\<Sum>it\<leftarrow>grownVolumes snap (h_ID h) (Reconcile gord ord vord cfg snap). GrowDelta (v_Sizing (volumeOf snap (it_VolumeID it))))
    \<le> diskBudget cfg h"
proof -
  let ?pass = "placeHostless ord cfg snap (intentsOf (fireRules cascades (buildReplicaGroups gord snap)))"
  have ord: "iteration_order gord" "\<forall>it. iteration_order (ord it)" "\<forall>it. iteration_order (vord it)"
    using assms(2) by (auto simp: orders_def)
  have "it_Kind it \<noteq> IntentPlaceVolume \<and> it_Kind it \<noteq> IntentResizeVolume" if "it \<in> set ?pass" for it
    using that rules_no_volume_intents [of _ "buildReplicaGroups gord snap"]
    by (auto simp: placeHostless_shape [OF assigns_wf_rules [OF ord(1) assms(3)]] fillHosts_def List.map_filter_def split: if_splits)
  then have eqs: "placedVolumes (h_ID h) (Reconcile gord ord vord cfg snap) = placedVolumes (h_ID h) (planVolumes vord cfg snap)"
    "grownVolumes snap (h_ID h) (Reconcile gord ord vord cfg snap) = grownVolumes snap (h_ID h) (planVolumes vord cfg snap)"
    by (auto simp: Reconcile_def Let_def placedVolumes_def grownVolumes_def filter_empty_conv)
  have "index_last h_ID (sn_hosts snap) (h_ID h) = Some h"
    using assms(3,5) by (simp add: snapshot_wf_def index_last_distinct)
  with assms ord(3) show ?thesis
    unfolding eqs by (intro planVolumes_budget) (auto simp: snapshot_wf_def)
qed

theorem reconcile_disk_within_budget_witness:
  "placedVolumes 9 demo_pass \<noteq> [] \<and>
   (\<Sum>it\<leftarrow>placedVolumes 9 demo_pass. vs_Desired (v_Sizing (volumeOf demo_fleet (it_VolumeID it)))) \<le> 256"
proof -
  have a: "placedVolumes (h_ID (demo_host 9)) demo_pass \<noteq> []"
    by (simp add: demo_pass_eval placedVolumes_def demo_host_wf)
  have "\<forall>v \<in> set (sn_volumes demo_fleet). 0 < vs_Desired (v_Sizing v)" "demo_host 9 \<in> set (sn_hosts demo_fleet)"
    "volumesOn demo_fleet 9 = []"
    by (simp_all add: demo_fleet_def volumesOn_def)
  moreover have "v_HostID (volumeOf demo_fleet 6) = 7"
    by (simp add: demo_fleet_def volumeOf_def index_last_def)
  then have "grownVolumes demo_fleet 9 demo_pass = []"
    by (simp add: demo_pass_eval grownVolumes_def)
  moreover have "diskBudget demo_cfg (demo_host 9) = 256"
    by code_simp
  ultimately show ?thesis
    using reconcile_disk_within_budget [OF demo_cfg_wf demo_orders demo_fleet_wf _ _ demo_host_wf(1) disjI1 [OF a]] a
    by (simp add: demo_host_wf)
qed

text \<open>The volume intents of a pass about one volume, other than its placement.\<close>

definition sizeIntents :: "uuid \<Rightarrow> Intent list \<Rightarrow> Intent list" where
  "sizeIntents i intents = filter (\<lambda>it. it_VolumeID it = i \<and>
     it_Kind it \<in> {IntentVolumeResized, IntentResizeVolume, IntentVolumeResizePending}) intents"

lemma resizeStep_intents:
  "resizeStep cfg v led = (is1, led1) \<Longrightarrow> sizeIntents (v_ID v) is1 = is1 \<and> (\<forall>it \<in> set is1. it_VolumeID it = v_ID v)
    \<and> map fst led1 = map fst led"
  by (auto simp: resizeStep_def Let_def sizeIntents_def commit_def split: if_splits option.splits)

lemma resizeVolumes_one:
  assumes "distinct (map v_ID vs)" "v \<in> set vs" "resizeVolumes cfg vs led = (intents, led')"
  shows "\<exists>led1. map fst led1 = map fst led \<and> sizeIntents (v_ID v) intents = fst (resizeStep cfg v led1)"
  using assms
proof (induction vs arbitrary: led intents)
  case (Cons w vs)
  obtain is1 led1 is2 where s: "resizeStep cfg w led = (is1, led1)" "resizeVolumes cfg vs led1 = (is2, led')" "intents = is1 @ is2"
    using Cons.prems(3) by (auto simp: Let_def split: prod.splits)
  note step = resizeStep_intents [OF s(1)]
  have app: "sizeIntents (v_ID v) intents = sizeIntents (v_ID v) is1 @ sizeIntents (v_ID v) is2"
    by (simp add: sizeIntents_def s(3))
  show ?case
  proof (cases "v = w")
    case True
    have "\<forall>it \<in> set is2. it_VolumeID it \<in> v_ID ` set vs"
      using resizeVolumes_kinds [OF s(2)] by blast
    moreover have "v_ID v \<notin> v_ID ` set vs"
      using Cons.prems(1) True by simp
    ultimately have "\<forall>it \<in> set is2. it_VolumeID it \<noteq> v_ID v" by metis
    then have "sizeIntents (v_ID v) is2 = []"
      by (simp add: sizeIntents_def filter_empty_conv)
    then show ?thesis
      using True step s(1) app by (intro exI [of _ led]) simp
  next
    case False
    then have mem: "v \<in> set vs"
      using Cons.prems(2) by auto
    then have "v_ID v \<noteq> v_ID w"
      using Cons.prems(1) by (auto simp: image_iff)
    then have "sizeIntents (v_ID v) is1 = []"
      using step by (auto simp: sizeIntents_def filter_empty_conv)
    then show ?thesis
      using Cons.IH [OF _ mem s(2)] Cons.prems(1) step app by auto
  qed
qed simp

lemma placeVolumes_shape:
  assumes "placeVolumes ord cfg snap led = (is1, led1)"
  shows "(\<forall>it \<in> set is1. it_Kind it = IntentPlaceVolume) \<and> map fst led1 = map fst led"
proof -
  have "map fst led1 = map fst led" if "placeVolumeItems ord cfg rw items led = (is1, led1)" for rw items
    using that by (induction items arbitrary: led is1) (auto simp: commit_def Let_def split: option.splits prod.splits)
  then show ?thesis
    using assms by (auto simp: placeVolumes_def Let_def split: if_splits dest: placeVolumeItems_kinds)
qed

text \<open>
  The resize state machine of a pass. For each volume of the snapshot, besides its placement, the
  pass emits: nothing for a volume no agent has reported; exactly the settling intent for one that is
  resizing or waiting and has caught up, even on a host that is down; exactly an approval or a
  parking for an attached one that drifts; an approval or nothing for a waiting one that drifts;
  nothing otherwise. On a host outside the snapshot no grow is approved.
\<close>
theorem resize_decisions:
  assumes "orders gord ord vord" and "snapshot_wf snap" and "v \<in> set (sn_volumes snap)"
  shows "map it_Kind (sizeIntents (v_ID v) (Reconcile gord ord vord cfg snap)) \<in>
    (if Reported (v_Sizing v) \<and> CaughtUp (v_Sizing v) \<and> vs_Status (v_Sizing v) \<in> {VolumeResizing, VolumeResizePending}
     then {[IntentVolumeResized]}
     else if Drifting (v_Sizing v) \<and> vs_Status (v_Sizing v) = VolumeAttached
     then {[IntentVolumeResizePending]} \<union> (if v_HostID v \<in> h_ID ` set (sn_hosts snap) then {[IntentResizeVolume]} else {})
     else if Drifting (v_Sizing v) \<and> vs_Status (v_Sizing v) = VolumeResizePending
     then {[]} \<union> (if v_HostID v \<in> h_ID ` set (sn_hosts snap) then {[IntentResizeVolume]} else {})
     else {[]})"
proof -
  obtain is1 led1 where p: "placeVolumes vord cfg snap (newLedger cfg snap) = (is1, led1)"
    by (cases "placeVolumes vord cfg snap (newLedger cfg snap)")
  obtain is2 led2 where r: "resizeVolumes cfg (sn_volumes snap) led1 = (is2, led2)"
    by (cases "resizeVolumes cfg (sn_volumes snap) led1")
  let ?pass = "placeHostless ord cfg snap (intentsOf (fireRules cascades (buildReplicaGroups gord snap)))"
  have "sizeIntents i ?pass = []" for i
    using assms(1) rules_no_volume_intents [of _ "buildReplicaGroups gord snap"]
    by (auto simp: sizeIntents_def filter_empty_conv orders_def fillHosts_def List.map_filter_def
        placeHostless_shape [OF assigns_wf_rules [OF _ assms(2)]] split: if_splits)
  moreover have "sizeIntents i is1 = []" for i
    using placeVolumes_shape [OF p] by (auto simp: sizeIntents_def filter_empty_conv)
  ultimately have eq: "sizeIntents (v_ID v) (Reconcile gord ord vord cfg snap) = sizeIntents (v_ID v) is2"
    by (simp add: Reconcile_def planVolumes_def p r Let_def sizeIntents_def)
  obtain led3 where led3: "map fst led3 = map fst led1" "sizeIntents (v_ID v) is2 = fst (resizeStep cfg v led3)"
    using resizeVolumes_one [OF _ assms(3) r] assms(2) by (auto simp: snapshot_wf_def)
  have "map_of led3 (v_HostID v) = None \<longleftrightarrow> v_HostID v \<notin> h_ID ` set (sn_hosts snap)"
  proof -
    have "fst ` set led3 = fst ` set (newLedger cfg snap)"
      using led3(1) placeVolumes_shape [OF p] by (metis list.set_map)
    then have "map_of led3 (v_HostID v) = None \<longleftrightarrow> map_of (newLedger cfg snap) (v_HostID v) = None"
      by (simp add: map_of_eq_None_iff)
    then show ?thesis
      by (simp add: map_of_newLedger index_last_None)
  qed
  then show ?thesis
    unfolding eq led3(2)
    by (cases "map_of led3 (v_HostID v)"; cases "Reported (v_Sizing v)"; cases "CaughtUp (v_Sizing v)";
        cases "vs_Status (v_Sizing v)")
      (auto simp: resizeStep_def Let_def Drifting_def CaughtUp_def)
qed

theorem resize_decisions_witness:
  "map it_Kind (sizeIntents 6 demo_pass) \<in> {[IntentVolumeResizePending], [IntentResizeVolume]}"
proof -
  let ?v = "\<lparr>v_ID = 6, v_Slot = \<lparr>rs_EnvironmentServiceID = 3, rs_Region = ''us''\<rparr>, v_HostID = 7,
         v_Sizing = \<lparr>vs_Status = VolumeAttached, vs_Desired = 64, vs_Observed = 32\<rparr>\<rparr>"
  have "?v \<in> set (sn_volumes demo_fleet)" by (simp add: demo_fleet_def)
  from resize_decisions [OF demo_orders demo_fleet_wf this, of demo_cfg] show ?thesis
    by (auto simp: Drifting_def Reported_def CaughtUp_def split: if_splits)
qed

end
