(* ===== verification/Schema.thy ===== *)
theory Schema
  imports Domain
begin

text \<open>
  The control-plane database: the rows of \<^verbatim>\<open>internal/storage/db/models.go\<close> and the schema of
  \<^verbatim>\<open>db/migrations\<close> they live in. A table is a list of rows; an UPDATE maps the rows its WHERE selects
  and reports how many there were; an INSERT checks the constraints the code relies on. A column
  whose CHECK lists the values of an enumeration holds that enumeration; a nullable column is an
  option; \<^verbatim>\<open>json.RawMessage\<close> is its text. \<open>db_now\<close> is \<^verbatim>\<open>now()\<close>, constant within a transaction, and
  \<open>db_gen\<close> with \<open>db_next\<close> supply the values of \<^verbatim>\<open>gen_random_uuid()\<close>.

  The pg_notify triggers are not modelled (they only wake a reader up), and SQL integers are
  unbounded here where the code adds one to a revision or a version.
\<close>

section \<open>Rows\<close>

record ApiserverInstance =
  ai_ID :: uuid
  ai_StartedAt :: time
  ai_HeartbeatAt :: time

record DeploymentRow =
  dep_ID :: uuid
  dep_EnvironmentServiceID :: uuid
  dep_Version :: int
  dep_IsCurrent :: bool
  dep_ImageRef :: string
  dep_CpuMillicores :: int
  dep_MemBytes :: int
  dep_Env :: string
  dep_Healthcheck :: string
  dep_DrainSeconds :: int
  dep_RestartMax :: int
  dep_CommitMessage :: "string option"
  dep_CreatedBy :: "string option"
  dep_Status :: DeploymentStatus
  dep_CreatedAt :: time
  dep_ProgressDeadline :: int

record DeploymentRegion =
  dr_DeploymentID :: uuid
  dr_Region :: string
  dr_Replicas :: int

record EnvironmentRow =
  env_ID :: uuid
  env_ProjectName :: string
  env_Name :: string
  env_CreatedAt :: time

record EnvironmentService =
  es_ID :: uuid
  es_EnvironmentID :: uuid
  es_ServiceID :: uuid
  es_Source :: string

record HostRow =
  hr_ID :: uuid
  hr_Region :: string
  hr_Hostname :: string
  hr_CpuMillicores :: int
  hr_MemBytes :: int
  hr_DiskBytes :: int
  hr_Labels :: string
  hr_Status :: HostStatus
  hr_LastHeartbeat :: "time option"
  hr_CreatedAt :: time
  hr_HostHealthy :: bool
  hr_DrainStartedAt :: "time option"

record ProjectRow =
  pr_Name :: string
  pr_CreatedAt :: time

record ReplicaRow =
  rr_ID :: uuid
  rr_DeploymentID :: uuid
  rr_Region :: string
  rr_HostID :: "uuid option"
  rr_VolumeID :: "uuid option"
  rr_CpuMillicores :: int
  rr_MemBytes :: int
  rr_AllocReason :: "string option"
  rr_DesiredStatus :: ReplicaDesiredStatus
  rr_Phase :: ReplicaPhase
  rr_Healthy :: bool
  rr_RestartCount :: int
  rr_LastExitReason :: "string option"
  rr_Revision :: int
  rr_CreatedAt :: time
  rr_UpdatedAt :: time
  rr_DrainedAt :: "time option"
  rr_HealthChecksPassedAt :: "time option"

record ServedRevision =
  sr_EnvironmentServiceID :: uuid
  sr_Region :: string
  sr_DeploymentID :: uuid
  sr_UpdatedAt :: time

record ServiceRow =
  svc_ID :: uuid
  svc_ProjectName :: string
  svc_Name :: string
  svc_Stateful :: bool
  svc_CreatedAt :: time

record VolumeRow =
  vr_ID :: uuid
  vr_Name :: string
  vr_MountPath :: string
  vr_Region :: string
  vr_HostID :: "uuid option"
  vr_Backing :: string
  vr_DesiredSizeBytes :: int
  vr_ObservedSizeBytes :: "int option"
  vr_Status :: VolumeStatus
  vr_CreatedAt :: time
  vr_PreviousDesiredSizeBytes :: "int option"
  vr_EnvironmentServiceID :: uuid

record VolumeLease =
  vl_VolumeID :: uuid
  vl_ReplicaID :: uuid
  vl_ExpiresAt :: time
  vl_AcquiredAt :: time

record database =
  db_instances :: "ApiserverInstance list"
  db_deployments :: "DeploymentRow list"
  db_deploymentRegions :: "DeploymentRegion list"
  db_environments :: "EnvironmentRow list"
  db_environmentServices :: "EnvironmentService list"
  db_hosts :: "HostRow list"
  db_projects :: "ProjectRow list"
  db_regions :: "string list"
  db_replicas :: "ReplicaRow list"
  db_served :: "ServedRevision list"
  db_services :: "ServiceRow list"
  db_volumes :: "VolumeRow list"
  db_leases :: "VolumeLease list"
  db_now :: time
  db_gen :: "nat \<Rightarrow> uuid"
  db_next :: nat

section \<open>Errors\<close>

text \<open>
  The sentinels of package \<^verbatim>\<open>storage\<close> an error may wrap; \<open>ErrDriver\<close> is any other error the driver
  returns (a violated constraint the caller does not name, a lost connection).
\<close>

datatype storeError = ErrNotFound | ErrExists | ErrConflict | ErrDriver

section \<open>UPDATE\<close>

text \<open>An UPDATE over a table: the rows affected and the table after.\<close>

definition updateWhere :: "('r \<Rightarrow> bool) \<Rightarrow> ('r \<Rightarrow> 'r) \<Rightarrow> 'r list \<Rightarrow> nat \<times> 'r list" where
  "updateWhere P f rows = (length (filter P rows), map (\<lambda>r. if P r then f r else r) rows)"

text \<open>
  The two BEFORE UPDATE triggers on replicas: every update stamps \<^verbatim>\<open>updated_at\<close>, and the edge from
  unhealthy to healthy stamps \<^verbatim>\<open>health_checks_passed_at\<close> once.
\<close>

definition replicaTrigger :: "time \<Rightarrow> ReplicaRow \<Rightarrow> ReplicaRow \<Rightarrow> ReplicaRow" where
  "replicaTrigger now old new =
     (let new1 = (if rr_Healthy new \<and> \<not> rr_Healthy old \<and> rr_HealthChecksPassedAt new = None
                  then new\<lparr>rr_HealthChecksPassedAt := Some now\<rparr> else new)
      in new1\<lparr>rr_UpdatedAt := now\<rparr>)"

definition updateReplicas :: "(ReplicaRow \<Rightarrow> bool) \<Rightarrow> (ReplicaRow \<Rightarrow> ReplicaRow) \<Rightarrow> database \<Rightarrow> nat \<times> database" where
  "updateReplicas P f db =
     (let (n, rows) = updateWhere P (\<lambda>r. replicaTrigger (db_now db) r (f r)) (db_replicas db)
      in (n, db\<lparr>db_replicas := rows\<rparr>))"

definition updateHosts :: "(HostRow \<Rightarrow> bool) \<Rightarrow> (HostRow \<Rightarrow> HostRow) \<Rightarrow> database \<Rightarrow> nat \<times> database" where
  "updateHosts P f db = (let (n, rows) = updateWhere P f (db_hosts db) in (n, db\<lparr>db_hosts := rows\<rparr>))"

definition updateVolumes :: "(VolumeRow \<Rightarrow> bool) \<Rightarrow> (VolumeRow \<Rightarrow> VolumeRow) \<Rightarrow> database \<Rightarrow> nat \<times> database" where
  "updateVolumes P f db = (let (n, rows) = updateWhere P f (db_volumes db) in (n, db\<lparr>db_volumes := rows\<rparr>))"

definition updateDeployments :: "(DeploymentRow \<Rightarrow> bool) \<Rightarrow> (DeploymentRow \<Rightarrow> DeploymentRow) \<Rightarrow> database \<Rightarrow> nat \<times> database" where
  "updateDeployments P f db = (let (n, rows) = updateWhere P f (db_deployments db) in (n, db\<lparr>db_deployments := rows\<rparr>))"

text \<open>A fresh row ID: the next value of the generator.\<close>

definition freshID :: "database \<Rightarrow> uuid \<times> database" where
  "freshID db = (db_gen db (db_next db), db\<lparr>db_next := Suc (db_next db)\<rparr>)"

section \<open>The constraints of the schema\<close>

definition volume_ok :: "VolumeRow \<Rightarrow> bool" where
  "volume_ok v \<longleftrightarrow> 0 < vr_DesiredSizeBytes v"

definition placed_status :: "VolumeRow \<Rightarrow> bool" where
  "placed_status v \<longleftrightarrow> (vr_Status v \<in> {VolumeAttached, VolumeResizePending, VolumeResizing} \<longrightarrow> vr_HostID v \<noteq> None)"

text \<open>
  Primary keys, foreign keys and CHECKs of the tables the reconcile path writes, and the lifecycle
  facts the code maintains on top of them: a placed volume has a host, a draining replica has its
  drain stamped, and a replica in a phase that runs on a host has a host.
\<close>

definition replica_ok :: "ReplicaRow \<Rightarrow> bool" where
  "replica_ok r \<longleftrightarrow> ReplicaPhase_Valid (rr_Phase r) \<and> 0 < rr_CpuMillicores r \<and> 0 < rr_MemBytes r
     \<and> (rr_Phase r = ReplicaPhaseDraining \<longrightarrow> rr_DrainedAt r \<noteq> None)
     \<and> (rr_Healthy r \<longrightarrow> rr_HealthChecksPassedAt r \<noteq> None)"

definition host_row_ok :: "HostRow \<Rightarrow> bool" where
  "host_row_ok h \<longleftrightarrow> HostStatus_Valid (hr_Status h) \<and> 0 < hr_CpuMillicores h \<and> 0 < hr_MemBytes h \<and> 0 < hr_DiskBytes h
     \<and> (hr_Status h = HostDraining \<longleftrightarrow> hr_DrainStartedAt h \<noteq> None)"

definition keys_ok :: "database \<Rightarrow> bool" where
  "keys_ok db \<longleftrightarrow> distinct (map dep_ID (db_deployments db))
     \<and> distinct (map (\<lambda>d. (dr_DeploymentID d, dr_Region d)) (db_deploymentRegions db))
     \<and> distinct (map es_ID (db_environmentServices db))
     \<and> distinct (map svc_ID (db_services db))
     \<and> distinct (map hr_ID (db_hosts db))
     \<and> distinct (map rr_ID (db_replicas db))
     \<and> distinct (map (\<lambda>s. (sr_EnvironmentServiceID s, sr_Region s)) (db_served db))
     \<and> distinct (map vr_ID (db_volumes db))
     \<and> distinct (map vl_VolumeID (db_leases db))"

text \<open>The unique partial index \<^verbatim>\<open>one_current_deployment_per_service\<close>.\<close>

definition one_current :: "database \<Rightarrow> bool" where
  "one_current db \<longleftrightarrow> distinct (map dep_EnvironmentServiceID (filter dep_IsCurrent (db_deployments db)))"

definition replica_refs :: "database \<Rightarrow> ReplicaRow \<Rightarrow> bool" where
  "replica_refs db r \<longleftrightarrow>
     (rr_DeploymentID r, rr_Region r) \<in> (\<lambda>d. (dr_DeploymentID d, dr_Region d)) ` set (db_deploymentRegions db)
     \<and> (\<forall>v. rr_VolumeID r = Some v \<longrightarrow> v \<in> vr_ID ` set (db_volumes db))
     \<and> (\<forall>h. rr_HostID r = Some h \<longrightarrow> h \<in> hr_ID ` set (db_hosts db))"

definition refs_ok :: "database \<Rightarrow> bool" where
  "refs_ok db \<longleftrightarrow> (\<forall>r \<in> set (db_replicas db). replica_refs db r)
     \<and> (\<forall>l \<in> set (db_leases db). vl_VolumeID l \<in> vr_ID ` set (db_volumes db) \<and> vl_ReplicaID l \<in> rr_ID ` set (db_replicas db))
     \<and> (\<forall>s \<in> set (db_served db). sr_DeploymentID s \<in> dep_ID ` set (db_deployments db))
     \<and> (\<forall>v \<in> set (db_volumes db). \<forall>h. vr_HostID v = Some h \<longrightarrow> h \<in> hr_ID ` set (db_hosts db))"

definition rows_ok :: "database \<Rightarrow> bool" where
  "rows_ok db \<longleftrightarrow> (\<forall>r \<in> set (db_replicas db). replica_ok r) \<and> (\<forall>h \<in> set (db_hosts db). host_row_ok h)
     \<and> (\<forall>v \<in> set (db_volumes db). volume_ok v \<and> placed_status v)"

definition db_wf :: "database \<Rightarrow> bool" where
  "db_wf db \<longleftrightarrow> keys_ok db \<and> one_current db \<and> refs_ok db \<and> rows_ok db"

section \<open>Facts about UPDATE\<close>

lemma updateWhere_simps [simp]:
  "fst (updateWhere P f rows) = length (filter P rows)"
  "snd (updateWhere P f rows) = map (\<lambda>r. if P r then f r else r) rows"
  by (simp_all add: updateWhere_def)

lemma map_key_update:
  "(\<And>r. key (f r) = key r) \<Longrightarrow> map key (map (\<lambda>r. if P r then f r else r) rows) = map key rows"
  by simp

lemma replicaTrigger_simps [simp]:
  "rr_ID (replicaTrigger now old new) = rr_ID new"
  "rr_DeploymentID (replicaTrigger now old new) = rr_DeploymentID new"
  "rr_Region (replicaTrigger now old new) = rr_Region new"
  "rr_HostID (replicaTrigger now old new) = rr_HostID new"
  "rr_VolumeID (replicaTrigger now old new) = rr_VolumeID new"
  "rr_CpuMillicores (replicaTrigger now old new) = rr_CpuMillicores new"
  "rr_MemBytes (replicaTrigger now old new) = rr_MemBytes new"
  "rr_DesiredStatus (replicaTrigger now old new) = rr_DesiredStatus new"
  "rr_Phase (replicaTrigger now old new) = rr_Phase new"
  "rr_Healthy (replicaTrigger now old new) = rr_Healthy new"
  "rr_RestartCount (replicaTrigger now old new) = rr_RestartCount new"
  "rr_Revision (replicaTrigger now old new) = rr_Revision new"
  "rr_CreatedAt (replicaTrigger now old new) = rr_CreatedAt new"
  "rr_DrainedAt (replicaTrigger now old new) = rr_DrainedAt new"
  "rr_UpdatedAt (replicaTrigger now old new) = now"
  by (simp_all add: replicaTrigger_def Let_def)

lemma replicaTrigger_passed:
  "rr_HealthChecksPassedAt (replicaTrigger now old new) =
     (if rr_Healthy new \<and> \<not> rr_Healthy old \<and> rr_HealthChecksPassedAt new = None then Some now
      else rr_HealthChecksPassedAt new)"
  by (simp add: replicaTrigger_def Let_def)

lemma replicaTrigger_ok:
  assumes "replica_ok old" "ReplicaPhase_Valid (rr_Phase new)"
    and "rr_Phase new = ReplicaPhaseDraining \<Longrightarrow> rr_DrainedAt new \<noteq> None"
    and "rr_HealthChecksPassedAt new = rr_HealthChecksPassedAt old"
    and "rr_CpuMillicores new = rr_CpuMillicores old" "rr_MemBytes new = rr_MemBytes old"
  shows "replica_ok (replicaTrigger now old new)"
  using assms by (auto simp: replica_ok_def replicaTrigger_passed)

lemma updateReplicas_simps [simp]:
  "fst (updateReplicas P f db) = length (filter P (db_replicas db))"
  "snd (updateReplicas P f db) = db\<lparr>db_replicas :=
     map (\<lambda>r. if P r then replicaTrigger (db_now db) r (f r) else r) (db_replicas db)\<rparr>"
  by (simp_all add: updateReplicas_def updateWhere_def Let_def)

lemma updateHosts_simps [simp]:
  "fst (updateHosts P f db) = length (filter P (db_hosts db))"
  "snd (updateHosts P f db) = db\<lparr>db_hosts := map (\<lambda>r. if P r then f r else r) (db_hosts db)\<rparr>"
  by (simp_all add: updateHosts_def updateWhere_def Let_def)

lemma updateVolumes_simps [simp]:
  "fst (updateVolumes P f db) = length (filter P (db_volumes db))"
  "snd (updateVolumes P f db) = db\<lparr>db_volumes := map (\<lambda>r. if P r then f r else r) (db_volumes db)\<rparr>"
  by (simp_all add: updateVolumes_def updateWhere_def Let_def)

lemma updateDeployments_simps [simp]:
  "fst (updateDeployments P f db) = length (filter P (db_deployments db))"
  "snd (updateDeployments P f db) = db\<lparr>db_deployments := map (\<lambda>r. if P r then f r else r) (db_deployments db)\<rparr>"
  by (simp_all add: updateDeployments_def updateWhere_def Let_def)

text \<open>Which updates keep the schema's constraints.\<close>

lemma db_wf_setReplicas:
  assumes "db_wf db" "distinct (map rr_ID rs)" "\<And>r. r \<in> set rs \<Longrightarrow> replica_refs db r \<and> replica_ok r"
    and "distinct (map vl_VolumeID ls)"
    and "\<And>l. l \<in> set ls \<Longrightarrow> vl_VolumeID l \<in> vr_ID ` set (db_volumes db) \<and> vl_ReplicaID l \<in> rr_ID ` set rs"
  shows "db_wf (db\<lparr>db_replicas := rs, db_leases := ls, db_next := n\<rparr>)"
proof -
  have "replica_refs (db\<lparr>db_replicas := rs, db_leases := ls, db_next := n\<rparr>) r = replica_refs db r" for r
    by (simp add: replica_refs_def)
  with assms show ?thesis
    by (simp add: db_wf_def keys_ok_def one_current_def refs_ok_def rows_ok_def)
qed

lemma db_wf_setDeployments:
  assumes "db_wf db" "distinct (map dep_ID ds)" "dep_ID ` set (db_deployments db) \<subseteq> dep_ID ` set ds"
    and "distinct (map dep_EnvironmentServiceID (filter dep_IsCurrent ds))"
  shows "db_wf (db\<lparr>db_deployments := ds\<rparr>)"
proof -
  have "replica_refs (db\<lparr>db_deployments := ds\<rparr>) r = replica_refs db r" for r
    by (simp add: replica_refs_def)
  with assms show ?thesis
    by (auto simp: db_wf_def keys_ok_def one_current_def refs_ok_def rows_ok_def)
qed

lemma db_wf_rows:
  assumes "db_wf db"
  shows "distinct (map rr_ID (db_replicas db))" "distinct (map vl_VolumeID (db_leases db))"
    "\<And>r. r \<in> set (db_replicas db) \<Longrightarrow> replica_refs db r" "\<And>r. r \<in> set (db_replicas db) \<Longrightarrow> replica_ok r"
    "\<And>l. l \<in> set (db_leases db) \<Longrightarrow> vl_VolumeID l \<in> vr_ID ` set (db_volumes db)"
    "\<And>l. l \<in> set (db_leases db) \<Longrightarrow> vl_ReplicaID l \<in> rr_ID ` set (db_replicas db)"
    "distinct (map hr_ID (db_hosts db))" "distinct (map vr_ID (db_volumes db))"
    "distinct (map dep_ID (db_deployments db))"
  using assms by (auto simp: db_wf_def keys_ok_def refs_ok_def rows_ok_def)

lemma db_wf_updateReplicas:
  assumes "db_wf db"
    and "\<And>r. r \<in> set (db_replicas db) \<Longrightarrow> P r \<Longrightarrow> rr_ID (f r) = rr_ID r \<and> rr_DeploymentID (f r) = rr_DeploymentID r
      \<and> rr_Region (f r) = rr_Region r \<and> rr_VolumeID (f r) = rr_VolumeID r
      \<and> rr_HealthChecksPassedAt (f r) = rr_HealthChecksPassedAt r
      \<and> rr_CpuMillicores (f r) = rr_CpuMillicores r \<and> rr_MemBytes (f r) = rr_MemBytes r"
    and "\<And>r h. r \<in> set (db_replicas db) \<Longrightarrow> P r \<Longrightarrow> rr_HostID (f r) = Some h \<Longrightarrow> h \<in> hr_ID ` set (db_hosts db)"
    and "\<And>r. r \<in> set (db_replicas db) \<Longrightarrow> P r \<Longrightarrow> replica_ok r \<Longrightarrow> ReplicaPhase_Valid (rr_Phase (f r))
      \<and> (rr_Phase (f r) = ReplicaPhaseDraining \<longrightarrow> rr_DrainedAt (f r) \<noteq> None)"
  shows "db_wf (snd (updateReplicas P f db))"
proof -
  let ?u = "\<lambda>r. if P r then replicaTrigger (db_now db) r (f r) else r"
  have ids: "map rr_ID (map ?u (db_replicas db)) = map rr_ID (db_replicas db)"
    using assms(2) by auto
  then have idset: "rr_ID ` ?u ` set (db_replicas db) = rr_ID ` set (db_replicas db)"
    by (metis list.set_map)
  have ok: "replica_ok (replicaTrigger (db_now db) r (f r))" if "r \<in> set (db_replicas db)" "P r" for r
    using that assms(1,2,4) by (auto simp: db_wf_def rows_ok_def intro!: replicaTrigger_ok)
  have "refs_ok (snd (updateReplicas P f db))"
    using assms(1,2,3) idset by (auto simp: db_wf_def refs_ok_def replica_refs_def)
  moreover have "keys_ok (snd (updateReplicas P f db))"
    using assms(1) ids by (simp add: db_wf_def keys_ok_def del: map_map)
  moreover have "rows_ok (snd (updateReplicas P f db))"
    using assms(1) ok by (auto simp: db_wf_def rows_ok_def)
  moreover have "one_current (snd (updateReplicas P f db))"
    using assms(1) by (simp add: db_wf_def one_current_def)
  ultimately show ?thesis by (simp add: db_wf_def)
qed

lemma db_wf_updateVolumes:
  assumes "db_wf db"
    and "\<And>v. vr_ID (f v) = vr_ID v"
    and "\<And>v. v \<in> set (db_volumes db) \<Longrightarrow> P v \<Longrightarrow> volume_ok v \<Longrightarrow> placed_status v \<Longrightarrow> volume_ok (f v) \<and> placed_status (f v)"
    and "\<And>v h. v \<in> set (db_volumes db) \<Longrightarrow> P v \<Longrightarrow> vr_HostID (f v) = Some h \<Longrightarrow> h \<in> hr_ID ` set (db_hosts db)"
  shows "db_wf (snd (updateVolumes P f db))"
proof -
  let ?u = "\<lambda>v. if P v then f v else v"
  have ids: "map vr_ID (map ?u (db_volumes db)) = map vr_ID (db_volumes db)"
    using assms(2) by auto
  then have idset: "vr_ID ` ?u ` set (db_volumes db) = vr_ID ` set (db_volumes db)"
    by (metis list.set_map)
  have "refs_ok (snd (updateVolumes P f db))"
    using assms(1,4) idset by (auto simp: db_wf_def refs_ok_def replica_refs_def)
  moreover have "keys_ok (snd (updateVolumes P f db))"
    using assms(1) ids by (simp add: db_wf_def keys_ok_def del: map_map)
  moreover have "rows_ok (snd (updateVolumes P f db))"
    using assms(1,3) by (auto simp: db_wf_def rows_ok_def)
  moreover have "one_current (snd (updateVolumes P f db))"
    using assms(1) by (simp add: db_wf_def one_current_def)
  ultimately show ?thesis by (simp add: db_wf_def)
qed

lemma db_wf_updateHosts:
  assumes "db_wf db" and "\<And>h. hr_ID (f h) = hr_ID h"
    and "\<And>h. h \<in> set (db_hosts db) \<Longrightarrow> P h \<Longrightarrow> host_row_ok h \<Longrightarrow> host_row_ok (f h)"
  shows "db_wf (snd (updateHosts P f db))"
proof -
  let ?u = "\<lambda>h. if P h then f h else h"
  have ids: "map hr_ID (map ?u (db_hosts db)) = map hr_ID (db_hosts db)"
    using assms(2) by auto
  then have idset: "hr_ID ` ?u ` set (db_hosts db) = hr_ID ` set (db_hosts db)"
    by (metis list.set_map)
  have "refs_ok (snd (updateHosts P f db))"
    using assms(1) idset by (simp add: db_wf_def refs_ok_def replica_refs_def)
  moreover have "keys_ok (snd (updateHosts P f db))"
    using assms(1) ids by (simp add: db_wf_def keys_ok_def del: map_map)
  moreover have "rows_ok (snd (updateHosts P f db))"
    using assms(1,3) by (auto simp: db_wf_def rows_ok_def)
  moreover have "one_current (snd (updateHosts P f db))"
    using assms(1) by (simp add: db_wf_def one_current_def)
  ultimately show ?thesis by (simp add: db_wf_def)
qed

end
