(* ===== verification/ReconcileQueries.thy ===== *)
theory ReconcileQueries
  imports Schema
begin

text \<open>
  The writes of a reconcile transaction: \<^verbatim>\<open>internal/storage/reconcile.go\<close> over the SQL of
  \<^verbatim>\<open>internal/storage/db/reconcile.sql.go\<close>. A \<open>q_\<close> definition is one SQL statement; the definition
  without the prefix is the \<^verbatim>\<open>querier\<close> method that maps its result onto the storage errors.
\<close>

section \<open>Running a statement\<close>

definition exec_rows :: "(database \<Rightarrow> nat \<times> database) \<Rightarrow> (storeError, database, nat) op" where
  "exec_rows u db = Inr (u db)"

text \<open>\<^verbatim>\<open>if n == 0 { return ErrConflict }\<close>\<close>

definition orConflict :: "(storeError, database, nat) op \<Rightarrow> (storeError, database, unit) op" where
  "orConflict m = op_bind m (\<lambda>n. if n = 0 then op_err ErrConflict else op_ok ())"

text \<open>A statement that fails with a driver error unless its constraints hold.\<close>

definition requires :: "storeError \<Rightarrow> (database \<Rightarrow> bool) \<Rightarrow> (storeError, database, unit) op" where
  "requires e P db = (if P db then Inr ((), db) else Inl e)"

definition nullString :: "string \<Rightarrow> string option" where
  "nullString s = (if s = '''' then None else Some s)"

text \<open>Which replicas a statement counts as live: neither reaped nor failed.\<close>

definition liveRow :: "ReplicaRow \<Rightarrow> bool" where
  "liveRow r \<longleftrightarrow> rr_Phase r \<noteq> ReplicaPhaseReaped \<and> rr_Phase r \<noteq> ReplicaPhaseFailed"

definition sumLive :: "(ReplicaRow \<Rightarrow> int) \<Rightarrow> uuid \<Rightarrow> ReplicaRow list \<Rightarrow> int" where
  "sumLive f h rows = (\<Sum>r\<leftarrow>filter (\<lambda>r. rr_HostID r = Some h \<and> liveRow r) rows. f r)"

section \<open>Leases\<close>

definition ActiveVolumeLease :: "uuid \<Rightarrow> (storeError, database, VolumeLease) op" where
  "ActiveVolumeLease volumeID db =
     (case find (\<lambda>l. vl_VolumeID l = volumeID \<and> vl_ExpiresAt l > db_now db) (db_leases db) of
        Some l \<Rightarrow> Inr (l, db) | None \<Rightarrow> Inl ErrNotFound)"

definition q_AcquireVolumeLease :: "uuid \<Rightarrow> uuid \<Rightarrow> time \<Rightarrow> (storeError, database, nat) op" where
  "q_AcquireVolumeLease volumeID replicaID expiresAt db =
     (let fk = volumeID \<in> vr_ID ` set (db_volumes db) \<and> replicaID \<in> rr_ID ` set (db_replicas db);
          new = \<lparr>vl_VolumeID = volumeID, vl_ReplicaID = replicaID, vl_ExpiresAt = expiresAt, vl_AcquiredAt = db_now db\<rparr>
      in case find (\<lambda>l. vl_VolumeID l = volumeID) (db_leases db) of
           None \<Rightarrow> if fk then Inr (1, db\<lparr>db_leases := db_leases db @ [new]\<rparr>) else Inl ErrDriver
         | Some l \<Rightarrow>
             if vl_ExpiresAt l \<le> db_now db \<or> vl_ReplicaID l = replicaID
             then if fk
                  then Inr (1, db\<lparr>db_leases := map (\<lambda>l. if vl_VolumeID l = volumeID then new else l) (db_leases db)\<rparr>)
                  else Inl ErrDriver
             else Inr (0, db))"

definition AcquireVolumeLease :: "uuid \<Rightarrow> uuid \<Rightarrow> time \<Rightarrow> (storeError, database, unit) op" where
  "AcquireVolumeLease volumeID replicaID expiresAt = orConflict (q_AcquireVolumeLease volumeID replicaID expiresAt)"

definition ReleaseVolumeLease :: "uuid \<Rightarrow> (storeError, database, unit) op" where
  "ReleaseVolumeLease volumeID db = Inr ((), db\<lparr>db_leases := filter (\<lambda>l. vl_VolumeID l \<noteq> volumeID) (db_leases db)\<rparr>)"

section \<open>Replicas\<close>

record ReplicaSpec =
  sp_DeploymentID :: uuid
  sp_Region :: string
  sp_CPUMillicores :: int
  sp_MemBytes :: int
  sp_AllocReason :: string
  sp_VolumeID :: uuid

definition newReplicaRow :: "uuid \<Rightarrow> time \<Rightarrow> ReplicaSpec \<Rightarrow> ReplicaRow" where
  "newReplicaRow i now spec = \<lparr>rr_ID = i, rr_DeploymentID = sp_DeploymentID spec, rr_Region = sp_Region spec,
     rr_HostID = None, rr_VolumeID = (if sp_VolumeID spec \<noteq> uuid_Nil then Some (sp_VolumeID spec) else None),
     rr_CpuMillicores = sp_CPUMillicores spec, rr_MemBytes = sp_MemBytes spec,
     rr_AllocReason = nullString (sp_AllocReason spec), rr_DesiredStatus = ReplicaDesiredRunning,
     rr_Phase = ReplicaPhasePending, rr_Healthy = False, rr_RestartCount = 0, rr_LastExitReason = None,
     rr_Revision = 0, rr_CreatedAt = now, rr_UpdatedAt = now, rr_DrainedAt = None, rr_HealthChecksPassedAt = None\<rparr>"

text \<open>
  INSERT INTO replicas: the CHECKs and the primary key fail with a driver error, either foreign key
  with the violation the wrapper reports as not found.
\<close>

definition CreateReplica :: "ReplicaSpec \<Rightarrow> (storeError, database, ReplicaRow) op" where
  "CreateReplica spec db =
     (let (i, db1) = freshID db; row = newReplicaRow i (db_now db) spec in
      if \<not> (0 < sp_CPUMillicores spec \<and> 0 < sp_MemBytes spec) \<or> i \<in> rr_ID ` set (db_replicas db) then Inl ErrDriver
      else if (sp_DeploymentID spec, sp_Region spec) \<notin> (\<lambda>d. (dr_DeploymentID d, dr_Region d)) ` set (db_deploymentRegions db)
           \<or> (\<exists>v \<in> set_option (rr_VolumeID row). v \<notin> vr_ID ` set (db_volumes db)) then Inl ErrNotFound
      else Inr (row, db1\<lparr>db_replicas := db_replicas db @ [row]\<rparr>))"

definition reservable :: "database \<Rightarrow> uuid \<Rightarrow> ReplicaRow \<Rightarrow> bool" where
  "reservable db hostID r \<longleftrightarrow>
     list_ex (\<lambda>h. hr_ID h = hostID \<and> hr_HostHealthy h \<and> (hr_Status h = HostOpen \<or> rr_VolumeID r \<noteq> None)
        \<and> sumLive rr_CpuMillicores hostID (db_replicas db) + rr_CpuMillicores r \<le> hr_CpuMillicores h
        \<and> sumLive rr_MemBytes hostID (db_replicas db) + rr_MemBytes r \<le> hr_MemBytes h) (db_hosts db)"

definition q_ReserveReplicaOnHost :: "uuid \<Rightarrow> uuid \<Rightarrow> database \<Rightarrow> nat \<times> database" where
  "q_ReserveReplicaOnHost replicaID hostID db =
     updateReplicas (\<lambda>r. rr_ID r = replicaID \<and> reservable db hostID r)
       (\<lambda>r. r\<lparr>rr_HostID := Some hostID, rr_Phase := ReplicaPhaseScheduling\<rparr>) db"

definition AssignReplicaHost :: "uuid \<Rightarrow> uuid \<Rightarrow> (storeError, database, unit) op" where
  "AssignReplicaHost replicaID hostID = orConflict (exec_rows (q_ReserveReplicaOnHost replicaID hostID))"

definition SetReplicaDesiredStatus :: "uuid \<Rightarrow> ReplicaDesiredStatus \<Rightarrow> (storeError, database, unit) op" where
  "SetReplicaDesiredStatus replicaID st db =
     Inr ((), snd (updateReplicas (\<lambda>r. rr_ID r = replicaID) (\<lambda>r. r\<lparr>rr_DesiredStatus := st\<rparr>) db))"

definition q_SetReplicaPhase :: "uuid \<Rightarrow> ReplicaPhase \<Rightarrow> int \<Rightarrow> database \<Rightarrow> nat \<times> database" where
  "q_SetReplicaPhase replicaID phase revision db =
     updateReplicas (\<lambda>r. rr_ID r = replicaID \<and> rr_Revision r = revision)
       (\<lambda>r. r\<lparr>rr_Phase := phase,
               rr_DrainedAt := (if phase = ReplicaPhaseDraining then Some (db_now db) else rr_DrainedAt r),
               rr_Revision := rr_Revision r + 1\<rparr>) db"

text \<open>The CHECK on \<^verbatim>\<open>phase\<close> is only tested on a row that is written.\<close>

definition SetReplicaPhase :: "uuid \<Rightarrow> ReplicaPhase \<Rightarrow> int \<Rightarrow> (storeError, database, unit) op" where
  "SetReplicaPhase replicaID phase expectRevision =
     op_seq (requires ErrDriver (\<lambda>db. fst (q_SetReplicaPhase replicaID phase expectRevision db) = 0 \<or> ReplicaPhase_Valid phase))
       (orConflict (exec_rows (q_SetReplicaPhase replicaID phase expectRevision)))"

definition freezable :: "ReplicaRow \<Rightarrow> bool" where
  "freezable r \<longleftrightarrow> rr_Phase r \<notin> {ReplicaPhaseDraining, ReplicaPhaseReaped, ReplicaPhaseFailed, ReplicaPhaseReplacing}"

definition q_FreezeReplica :: "uuid \<Rightarrow> database \<Rightarrow> nat \<times> database" where
  "q_FreezeReplica replicaID =
     updateReplicas (\<lambda>r. rr_ID r = replicaID \<and> freezable r)
       (\<lambda>r. r\<lparr>rr_Phase := ReplicaPhaseFailed, rr_Healthy := False, rr_Revision := rr_Revision r + 1\<rparr>)"

definition FreezeReplica :: "uuid \<Rightarrow> (storeError, database, unit) op" where
  "FreezeReplica replicaID = orConflict (exec_rows (q_FreezeReplica replicaID))"

text \<open>The lease rows of a deleted replica go with it (ON DELETE CASCADE).\<close>

definition DeleteReplica :: "uuid \<Rightarrow> (storeError, database, unit) op" where
  "DeleteReplica replicaID db =
     Inr ((), db\<lparr>db_replicas := filter (\<lambda>r. rr_ID r \<noteq> replicaID) (db_replicas db),
                 db_leases := filter (\<lambda>l. vl_ReplicaID l \<noteq> replicaID) (db_leases db)\<rparr>)"

section \<open>Volumes\<close>

definition AssignVolumeHost :: "uuid \<Rightarrow> uuid \<Rightarrow> (storeError, database, unit) op" where
  "AssignVolumeHost volumeID hostID =
     op_seq (requires ErrDriver (\<lambda>db. volumeID \<notin> vr_ID ` set (db_volumes db) \<or> hostID \<in> hr_ID ` set (db_hosts db)))
       (op_seq (exec_rows (updateVolumes (\<lambda>v. vr_ID v = volumeID)
          (\<lambda>v. v\<lparr>vr_HostID := Some hostID, vr_Status := VolumeAttached\<rparr>))) (op_ok ()))"

text \<open>\<^verbatim>\<open>observed IS NOT NULL AND desired > observed\<close>, and \<^verbatim>\<open>observed >= desired\<close> with its NULL case.\<close>

definition driftingRow :: "VolumeRow \<Rightarrow> bool" where
  "driftingRow v = (case vr_ObservedSizeBytes v of None \<Rightarrow> False | Some ob \<Rightarrow> vr_DesiredSizeBytes v > ob)"

definition caughtUpRow :: "VolumeRow \<Rightarrow> bool" where
  "caughtUpRow v = (case vr_ObservedSizeBytes v of None \<Rightarrow> False | Some ob \<Rightarrow> ob \<ge> vr_DesiredSizeBytes v)"

definition MarkVolumeResizePending :: "uuid \<Rightarrow> (storeError, database, unit) op" where
  "MarkVolumeResizePending volumeID = orConflict (exec_rows
     (updateVolumes (\<lambda>v. vr_ID v = volumeID \<and> vr_Status v = VolumeAttached \<and> driftingRow v)
        (\<lambda>v. v\<lparr>vr_Status := VolumeResizePending\<rparr>)))"

definition MarkVolumeResizing :: "uuid \<Rightarrow> (storeError, database, unit) op" where
  "MarkVolumeResizing volumeID = orConflict (exec_rows
     (updateVolumes (\<lambda>v. vr_ID v = volumeID \<and> vr_Status v \<in> {VolumeAttached, VolumeResizePending} \<and> driftingRow v)
        (\<lambda>v. v\<lparr>vr_Status := VolumeResizing\<rparr>)))"

definition MarkVolumeAttached :: "uuid \<Rightarrow> (storeError, database, unit) op" where
  "MarkVolumeAttached volumeID = orConflict (exec_rows
     (updateVolumes (\<lambda>v. vr_ID v = volumeID \<and> vr_Status v \<in> {VolumeResizing, VolumeResizePending} \<and> caughtUpRow v)
        (\<lambda>v. v\<lparr>vr_Status := VolumeAttached\<rparr>)))"

section \<open>Deployments and the traffic pointer\<close>

definition SetDeploymentStatus :: "uuid \<Rightarrow> DeploymentStatus \<Rightarrow> (storeError, database, unit) op" where
  "SetDeploymentStatus deploymentID st =
     op_seq (requires ErrDriver (\<lambda>db. deploymentID \<notin> dep_ID ` set (db_deployments db) \<or> DeploymentStatus_Valid st))
       (op_seq (exec_rows (updateDeployments (\<lambda>d. dep_ID d = deploymentID) (\<lambda>d. d\<lparr>dep_Status := st\<rparr>))) (op_ok ()))"

definition upsertServed :: "uuid \<Rightarrow> string \<Rightarrow> uuid \<Rightarrow> time \<Rightarrow> ServedRevision list \<Rightarrow> ServedRevision list" where
  "upsertServed esID region depID now rows =
     (let new = \<lparr>sr_EnvironmentServiceID = esID, sr_Region = region, sr_DeploymentID = depID, sr_UpdatedAt = now\<rparr>;
          hit = (\<lambda>s. sr_EnvironmentServiceID s = esID \<and> sr_Region s = region)
      in if list_ex hit rows then map (\<lambda>s. if hit s then new else s) rows else rows @ [new])"

definition SetServedRevision :: "uuid \<Rightarrow> string \<Rightarrow> uuid \<Rightarrow> (storeError, database, unit) op" where
  "SetServedRevision esID region depID =
     op_seq (requires ErrDriver (\<lambda>db. esID \<in> es_ID ` set (db_environmentServices db)
         \<and> region \<in> set (db_regions db) \<and> depID \<in> dep_ID ` set (db_deployments db)))
       (\<lambda>db. Inr ((), db\<lparr>db_served := upsertServed esID region depID (db_now db) (db_served db)\<rparr>))"

definition ClearServedRevision :: "uuid \<Rightarrow> string \<Rightarrow> (storeError, database, unit) op" where
  "ClearServedRevision esID region db =
     Inr ((), db\<lparr>db_served := filter (\<lambda>s. \<not> (sr_EnvironmentServiceID s = esID \<and> sr_Region s = region)) (db_served db)\<rparr>)"

definition GetServedRevision :: "uuid \<Rightarrow> string \<Rightarrow> (storeError, database, ServedRevision) op" where
  "GetServedRevision esID region db =
     (case find (\<lambda>s. sr_EnvironmentServiceID s = esID \<and> sr_Region s = region) (db_served db) of
        Some s \<Rightarrow> Inr (s, db) | None \<Rightarrow> Inl ErrNotFound)"

section \<open>Every write keeps the schema's constraints\<close>

lemma exec_rows_Inr [simp]: "exec_rows u db = Inr (n, db') \<longleftrightarrow> u db = (n, db')"
  by (auto simp: exec_rows_def)

lemma exec_rows_Inl [simp]: "exec_rows u db \<noteq> Inl e"
  by (simp add: exec_rows_def)

lemma orConflict_Inr: "orConflict m db = Inr (x, db') \<longleftrightarrow> (\<exists>n. m db = Inr (n, db') \<and> n \<noteq> 0)"
  by (auto simp: orConflict_def op_bind_Inr split: if_splits)

lemma orConflict_Inl: "orConflict m db = Inl e \<longleftrightarrow> m db = Inl e \<or> (e = ErrConflict \<and> (\<exists>db'. m db = Inr (0, db')))"
  by (auto simp: orConflict_def op_bind_Inl split: if_splits)

lemma requires_Inr [simp]: "requires e P db = Inr (x, db') \<longleftrightarrow> P db \<and> db' = db"
  by (auto simp: requires_def)

lemma requires_Inl [simp]: "requires e P db = Inl e' \<longleftrightarrow> \<not> P db \<and> e' = e"
  by (auto simp: requires_def)

lemma op_keeps_exec: "(\<And>db. J db \<Longrightarrow> J (snd (u db))) \<Longrightarrow> op_keeps J (exec_rows u)"
  by (rule op_keepsI) (metis exec_rows_Inr snd_conv)

lemma op_keeps_orConflict [keeps]: "op_keeps J m \<Longrightarrow> op_keeps J (orConflict m)"
  unfolding orConflict_def by (intro op_keeps_bind op_keeps_if keeps)

lemma op_keeps_requires [keeps]: "op_keeps J (requires e P)"
  by (rule op_keepsI) simp

lemma db_wf_ReserveReplicaOnHost: "db_wf db \<Longrightarrow> db_wf (snd (q_ReserveReplicaOnHost i h db))"
  unfolding q_ReserveReplicaOnHost_def
  by (rule db_wf_updateReplicas) (auto simp: ReplicaPhase_Valid_def reservable_def list_ex_iff)

lemma db_wf_SetReplicaPhase: "db_wf db \<Longrightarrow> ReplicaPhase_Valid p \<Longrightarrow> db_wf (snd (q_SetReplicaPhase i p rv db))"
  unfolding q_SetReplicaPhase_def
  by (rule db_wf_updateReplicas) (auto simp: db_wf_def refs_ok_def replica_refs_def)

lemma db_wf_FreezeReplica: "db_wf db \<Longrightarrow> db_wf (snd (q_FreezeReplica i db))"
  unfolding q_FreezeReplica_def
  by (rule db_wf_updateReplicas) (auto simp: db_wf_def refs_ok_def replica_refs_def ReplicaPhase_Valid_def)

lemma keeps_ActiveVolumeLease: "op_keeps J (ActiveVolumeLease v)"
  by (rule op_keepsI) (auto simp: ActiveVolumeLease_def split: option.splits)

lemma keeps_AssignReplicaHost: "op_keeps db_wf (AssignReplicaHost i h)"
  unfolding AssignReplicaHost_def by (intro keeps op_keeps_exec db_wf_ReserveReplicaOnHost)

lemma keeps_SetReplicaDesiredStatus: "op_keeps db_wf (SetReplicaDesiredStatus i st)"
proof (rule op_keepsI)
  fix db x db'
  assume "db_wf db" "SetReplicaDesiredStatus i st db = Inr (x, db')"
  moreover have "db_wf (snd (updateReplicas (\<lambda>r. rr_ID r = i) (\<lambda>r. r\<lparr>rr_DesiredStatus := st\<rparr>) db))"
    by (rule db_wf_updateReplicas [OF \<open>db_wf db\<close>]) (use \<open>db_wf db\<close> in \<open>auto simp: db_wf_def refs_ok_def replica_refs_def replica_ok_def\<close>)
  ultimately show "db_wf db'" by (simp add: SetReplicaDesiredStatus_def)
qed

lemma keeps_SetReplicaPhase: "op_keeps db_wf (SetReplicaPhase i p rv)"
proof (rule op_keepsI)
  fix db x db'
  assume wf: "db_wf db" and "SetReplicaPhase i p rv db = Inr (x, db')"
  then have "ReplicaPhase_Valid p" "db' = snd (q_SetReplicaPhase i p rv db)"
    by (auto simp: SetReplicaPhase_def op_seq_Inr orConflict_Inr)
  with wf show "db_wf db'" by (simp add: db_wf_SetReplicaPhase)
qed

lemma keeps_FreezeReplica: "op_keeps db_wf (FreezeReplica i)"
  unfolding FreezeReplica_def by (intro keeps op_keeps_exec db_wf_FreezeReplica)

lemma keeps_DeleteReplica: "op_keeps db_wf (DeleteReplica i)"
proof (rule op_keepsI)
  fix db x db'
  assume wf: "db_wf db" and "DeleteReplica i db = Inr (x, db')"
  then have db': "db' = db\<lparr>db_replicas := filter (\<lambda>r. rr_ID r \<noteq> i) (db_replicas db),
      db_leases := filter (\<lambda>l. vl_ReplicaID l \<noteq> i) (db_leases db), db_next := db_next db\<rparr>"
    by (cases db) (auto simp: DeleteReplica_def)
  have "vl_ReplicaID l \<in> rr_ID ` set (filter (\<lambda>r. rr_ID r \<noteq> i) (db_replicas db))"
    if "l \<in> set (db_leases db)" "vl_ReplicaID l \<noteq> i" for l
    using db_wf_rows(6) [OF wf that(1)] that(2) by auto
  then show "db_wf db'"
    unfolding db' using db_wf_rows [OF wf]
    by (intro db_wf_setReplicas [OF wf]) (auto intro: distinct_map_filter)
qed

lemma db_wf_setLeases:
  assumes "db_wf db" "distinct (map vl_VolumeID ls)"
    and "\<And>l. l \<in> set ls \<Longrightarrow> vl_VolumeID l \<in> vr_ID ` set (db_volumes db) \<and> vl_ReplicaID l \<in> rr_ID ` set (db_replicas db)"
  shows "db_wf (db\<lparr>db_leases := ls\<rparr>)"
  using db_wf_setReplicas [OF assms(1) db_wf_rows(1) [OF assms(1)] _ assms(2,3), of "db_next db"] db_wf_rows(3,4) [OF assms(1)]
  by simp

lemma keeps_ReleaseVolumeLease: "op_keeps db_wf (ReleaseVolumeLease v)"
  by (rule op_keepsI)
    (auto simp: ReleaseVolumeLease_def intro!: db_wf_setLeases distinct_map_filter dest: db_wf_rows)

lemma keeps_ClearServedRevision: "op_keeps db_wf (ClearServedRevision e r)"
  by (rule op_keepsI)
    (auto simp: ClearServedRevision_def db_wf_def keys_ok_def one_current_def refs_ok_def replica_refs_def rows_ok_def distinct_map_filter)

lemma keeps_CreateReplica: "op_keeps db_wf (CreateReplica spec)"
proof (rule op_keepsI)
  fix db x db'
  assume wf: "db_wf db" and ok: "CreateReplica spec db = Inr (x, db')"
  let ?i = "db_gen db (db_next db)"
  let ?row = "newReplicaRow ?i (db_now db) spec"
  have db': "db' = db\<lparr>db_replicas := db_replicas db @ [?row], db_leases := db_leases db, db_next := Suc (db_next db)\<rparr>"
    using ok by (cases db) (auto simp: CreateReplica_def freshID_def Let_def split: if_splits)
  have fresh: "?i \<notin> rr_ID ` set (db_replicas db)"
    and fk: "(sp_DeploymentID spec, sp_Region spec) \<in> (\<lambda>d. (dr_DeploymentID d, dr_Region d)) ` set (db_deploymentRegions db)"
      "\<And>v. rr_VolumeID ?row = Some v \<Longrightarrow> v \<in> vr_ID ` set (db_volumes db)"
    using ok by (simp_all add: CreateReplica_def freshID_def Let_def split: if_splits)
  have row: "rr_ID ?row = ?i" "rr_DeploymentID ?row = sp_DeploymentID spec" "rr_Region ?row = sp_Region spec"
    "rr_HostID ?row = None"
    by (simp_all add: newReplicaRow_def)
  have ok_row: "replica_ok ?row"
    using ok by (simp add: CreateReplica_def freshID_def Let_def newReplicaRow_def replica_ok_def ReplicaPhase_Valid_def
        split: if_splits)
  have "replica_refs db ?row"
    unfolding replica_refs_def row using fk by simp
  moreover have "vl_ReplicaID l \<in> rr_ID ` set (db_replicas db @ [?row])" if "l \<in> set (db_leases db)" for l
    using db_wf_rows(6) [OF wf that] by auto
  ultimately show "db_wf db'"
    unfolding db' using db_wf_rows [OF wf] row ok_row fresh
    by (intro db_wf_setReplicas [OF wf]) auto
qed

lemma keeps_AcquireVolumeLease: "op_keeps db_wf (AcquireVolumeLease v r t)"
proof -
  let ?new = "\<lambda>db. \<lparr>vl_VolumeID = v, vl_ReplicaID = r, vl_ExpiresAt = t, vl_AcquiredAt = db_now db\<rparr>"
  have "op_keeps db_wf (q_AcquireVolumeLease v r t)"
  proof (rule op_keepsI)
    fix db x db'
    assume wf: "db_wf db" and ok: "q_AcquireVolumeLease v r t db = Inr (x, db')"
    have keys: "map vl_VolumeID (map (\<lambda>l. if vl_VolumeID l = v then ?new db else l) (db_leases db)) = map vl_VolumeID (db_leases db)"
      by simp
    have "db' = db \<or> (v \<in> vr_ID ` set (db_volumes db) \<and> r \<in> rr_ID ` set (db_replicas db) \<and>
        (v \<notin> vl_VolumeID ` set (db_leases db) \<and> db' = db\<lparr>db_leases := db_leases db @ [?new db]\<rparr>
         \<or> db' = db\<lparr>db_leases := map (\<lambda>l. if vl_VolumeID l = v then ?new db else l) (db_leases db)\<rparr>))"
    proof (cases "find (\<lambda>l. vl_VolumeID l = v) (db_leases db)")
      case None
      then have "v \<notin> vl_VolumeID ` set (db_leases db)" by (auto simp: find_None_iff)
      with None ok show ?thesis
        by (simp add: q_AcquireVolumeLease_def Let_def split: if_splits)
    next
      case (Some l)
      with ok show ?thesis
        by (simp add: q_AcquireVolumeLease_def Let_def split: if_splits)
    qed
    then consider "db' = db"
      | "v \<in> vr_ID ` set (db_volumes db)" "r \<in> rr_ID ` set (db_replicas db)" "v \<notin> vl_VolumeID ` set (db_leases db)"
        "db' = db\<lparr>db_leases := db_leases db @ [?new db]\<rparr>"
      | "v \<in> vr_ID ` set (db_volumes db)" "r \<in> rr_ID ` set (db_replicas db)"
        "db' = db\<lparr>db_leases := map (\<lambda>l. if vl_VolumeID l = v then ?new db else l) (db_leases db)\<rparr>"
      by blast
    then show "db_wf db'"
    proof cases
      case 1
      with wf show ?thesis by simp
    next
      case 2
      show ?thesis
        unfolding 2(4) using 2(1-3) db_wf_rows [OF wf]
        by (intro db_wf_setLeases [OF wf]) auto
    next
      case 3
      have "distinct (map vl_VolumeID (map (\<lambda>l. if vl_VolumeID l = v then ?new db else l) (db_leases db)))"
        unfolding keys by (rule db_wf_rows(2) [OF wf])
      then show ?thesis
        unfolding 3(3) using 3(1,2) db_wf_rows(5,6) [OF wf]
        by (intro db_wf_setLeases [OF wf]) auto
    qed
  qed
  then show ?thesis
    unfolding AcquireVolumeLease_def by (rule op_keeps_orConflict)
qed

lemma keeps_AssignVolumeHost: "op_keeps db_wf (AssignVolumeHost v h)"
proof (rule op_keepsI)
  fix db x db'
  assume wf: "db_wf db" and ok: "AssignVolumeHost v h db = Inr (x, db')"
  let ?f = "\<lambda>r. r\<lparr>vr_HostID := Some h, vr_Status := VolumeAttached\<rparr>"
  have fk: "v \<in> vr_ID ` set (db_volumes db) \<Longrightarrow> h \<in> hr_ID ` set (db_hosts db)"
    and db': "db' = snd (updateVolumes (\<lambda>r. vr_ID r = v) ?f db)"
    using ok by (auto simp: AssignVolumeHost_def op_seq_Inr simp del: updateVolumes_simps)
  show "db_wf db'" unfolding db'
    by (rule db_wf_updateVolumes [OF wf]) (use fk in \<open>auto simp: volume_ok_def placed_status_def\<close>)
qed

lemma keeps_volumeStatus:
  assumes "\<And>v. P v \<Longrightarrow> vr_Status v \<in> {VolumeAttached, VolumeResizePending, VolumeResizing}"
  shows "op_keeps db_wf (orConflict (exec_rows (updateVolumes P (\<lambda>v. v\<lparr>vr_Status := st\<rparr>))))"
proof (intro keeps op_keeps_exec)
  fix db assume wf: "db_wf db"
  show "db_wf (snd (updateVolumes P (\<lambda>v. v\<lparr>vr_Status := st\<rparr>) db))"
    by (rule db_wf_updateVolumes [OF wf])
      (use assms wf in \<open>auto simp: volume_ok_def placed_status_def db_wf_def refs_ok_def\<close>)
qed

lemma keeps_MarkVolume:
  "op_keeps db_wf (MarkVolumeResizePending v)" "op_keeps db_wf (MarkVolumeResizing v)" "op_keeps db_wf (MarkVolumeAttached v)"
  unfolding MarkVolumeResizePending_def MarkVolumeResizing_def MarkVolumeAttached_def
  by (intro keeps_volumeStatus; auto)+

lemma current_status_update:
  "map dep_EnvironmentServiceID (filter dep_IsCurrent (map (\<lambda>r. if P r then r\<lparr>dep_Status := st\<rparr> else r) ds))
     = map dep_EnvironmentServiceID (filter dep_IsCurrent ds)"
  by (induction ds) auto

lemma keeps_SetDeploymentStatus: "op_keeps db_wf (SetDeploymentStatus d st)"
proof (rule op_keepsI)
  fix db x db'
  assume wf: "db_wf db" and "SetDeploymentStatus d st db = Inr (x, db')"
  then have db': "db' = snd (updateDeployments (\<lambda>r. dep_ID r = d) (\<lambda>r. r\<lparr>dep_Status := st\<rparr>) db)"
    by (auto simp: SetDeploymentStatus_def op_seq_Inr simp del: updateDeployments_simps)
  let ?ds = "map (\<lambda>r. if dep_ID r = d then r\<lparr>dep_Status := st\<rparr> else r) (db_deployments db)"
  have ids: "map dep_ID ?ds = map dep_ID (db_deployments db)"
    by simp
  have "distinct (map dep_EnvironmentServiceID (filter dep_IsCurrent (db_deployments db)))"
    using wf by (simp add: db_wf_def one_current_def)
  then have "db_wf (db\<lparr>db_deployments := ?ds\<rparr>)"
    unfolding current_status_update [symmetric, of "db_deployments db" "\<lambda>r. dep_ID r = d" st]
  proof (rule db_wf_setDeployments [OF wf, rotated 2])
    show "distinct (map dep_ID ?ds)"
      unfolding ids by (rule db_wf_rows(9) [OF wf])
    show "dep_ID ` set (db_deployments db) \<subseteq> dep_ID ` set ?ds"
      using arg_cong [OF ids, of set] by (simp only: list.set_map order.refl)
  qed
  then show "db_wf db'"
    by (simp only: db' updateDeployments_simps)
qed

lemma keeps_SetServedRevision: "op_keeps db_wf (SetServedRevision e r d)"
proof (rule op_keepsI)
  fix db x db'
  assume wf: "db_wf db" and ok: "SetServedRevision e r d db = Inr (x, db')"
  then have db': "db' = db\<lparr>db_served := upsertServed e r d (db_now db) (db_served db)\<rparr>"
    and fk: "d \<in> dep_ID ` set (db_deployments db)"
    by (auto simp: SetServedRevision_def op_seq_Inr)
  have "distinct (map (\<lambda>s. (sr_EnvironmentServiceID s, sr_Region s)) (upsertServed e r d now rows))"
    if "distinct (map (\<lambda>s. (sr_EnvironmentServiceID s, sr_Region s)) rows)" for now rows
  proof (cases "list_ex (\<lambda>s. sr_EnvironmentServiceID s = e \<and> sr_Region s = r) rows")
    case True
    have "map (\<lambda>s. (sr_EnvironmentServiceID s, sr_Region s)) (upsertServed e r d now rows)
        = map (\<lambda>s. (sr_EnvironmentServiceID s, sr_Region s)) rows"
      using True by (simp add: upsertServed_def Let_def)
    with that show ?thesis by simp
  next
    case False
    with that show ?thesis by (auto simp: upsertServed_def Let_def list_ex_iff)
  qed
  moreover have "\<forall>s \<in> set (upsertServed e r d (db_now db) (db_served db)). sr_DeploymentID s \<in> dep_ID ` set (db_deployments db)"
    using wf fk by (auto simp: upsertServed_def Let_def db_wf_def refs_ok_def)
  ultimately show "db_wf db'"
    using wf by (simp add: db' db_wf_def keys_ok_def one_current_def refs_ok_def replica_refs_def rows_ok_def)
qed

end
