(* ===== verification/Transactions.thy ===== *)
theory Transactions
  imports Schema
begin

text \<open>
  Sequences of transactions on one store, as a component runs them: \<^verbatim>\<open>PostgresClient.WithTx\<close> (and a single
  statement, which is a transaction of its own) executed one after the other, with other writers in
  between. \<open>env k\<close> is what the others (the sensor, the apiserver, the operator) commit before the k-th
  transaction: between the transactions of one run the store may change in any way \<open>env\<close> allows.
\<close>

type_synonym ('e, 's, 'a) steps = "nat \<times> 's \<Rightarrow> ('e + 'a) \<times> (nat \<times> 's)"
type_synonym ('s, 'a) run = "(storeError, 's, 'a) steps"

text \<open>A failed transaction leaves the store as it found it.\<close>

definition WithTx :: "(nat \<Rightarrow> 's \<Rightarrow> 's) \<Rightarrow> ('e, 's, 'a) op \<Rightarrow> ('e, 's, 'a) steps" where
  "WithTx env m ks =
     (let s = env (fst ks) (snd ks)
      in case m s of Inl e \<Rightarrow> (Inl e, (Suc (fst ks), s)) | Inr (x, s') \<Rightarrow> (Inr x, (Suc (fst ks), s')))"

text \<open>The calls of a function one after the other, returning at the first error.\<close>

definition run_ok :: "'a \<Rightarrow> ('e, 's, 'a) steps" where
  "run_ok x ks = (Inr x, ks)"

definition run_err :: "'e \<Rightarrow> ('e, 's, 'a) steps" where
  "run_err e ks = (Inl e, ks)"

definition run_bind :: "('e, 's, 'a) steps \<Rightarrow> ('a \<Rightarrow> ('e, 's, 'b) steps) \<Rightarrow> ('e, 's, 'b) steps" where
  "run_bind m f ks = (case m ks of (Inl e, ks') \<Rightarrow> (Inl e, ks') | (Inr x, ks') \<Rightarrow> f x ks')"

fun run_each :: "('a \<Rightarrow> ('e, 's, unit) steps) \<Rightarrow> 'a list \<Rightarrow> ('e, 's, unit) steps" where
  "run_each f [] = run_ok ()"
| "run_each f (x # xs) = run_bind (f x) (\<lambda>_. run_each f xs)"

text \<open>What other writers commit keeps the invariant; a run of transactions keeps it.\<close>

definition env_keeps :: "('s \<Rightarrow> bool) \<Rightarrow> (nat \<Rightarrow> 's \<Rightarrow> 's) \<Rightarrow> bool" where
  "env_keeps J env \<longleftrightarrow> (\<forall>k s. J s \<longrightarrow> J (env k s))"

definition run_keeps :: "('s \<Rightarrow> bool) \<Rightarrow> (nat \<times> 's \<Rightarrow> 'r \<times> (nat \<times> 's)) \<Rightarrow> bool" where
  "run_keeps J run \<longleftrightarrow> (\<forall>ks r ks'. J (snd ks) \<longrightarrow> run ks = (r, ks') \<longrightarrow> J (snd ks'))"

lemma run_keepsI: "(\<And>ks r ks'. J (snd ks) \<Longrightarrow> run ks = (r, ks') \<Longrightarrow> J (snd ks')) \<Longrightarrow> run_keeps J run"
  unfolding run_keeps_def by blast

lemma run_keepsD: "run_keeps J run \<Longrightarrow> J (snd ks) \<Longrightarrow> run ks = (r, ks') \<Longrightarrow> J (snd ks')"
  unfolding run_keeps_def by blast

lemma WithTx_keeps:
  assumes "op_keeps J m" "env_keeps J env"
  shows "run_keeps J (WithTx env m)"
proof (rule run_keepsI)
  fix ks r ks'
  assume J: "J (snd ks)" and run: "WithTx env m ks = (r, ks')"
  have Je: "J (env (fst ks) (snd ks))" using assms(2) J by (simp add: env_keeps_def)
  show "J (snd ks')"
  proof (cases "m (env (fst ks) (snd ks))")
    case (Inl e)
    with run Je show ?thesis by (auto simp: WithTx_def Let_def)
  next
    case (Inr p)
    then have "m (env (fst ks) (snd ks)) = Inr (fst p, snd p)" by simp
    from op_keepsD [OF assms(1) Je this] run Inr show ?thesis
      by (auto simp: WithTx_def Let_def split: prod.splits)
  qed
qed

text \<open>Nobody else writes.\<close>

definition quiet :: "nat \<Rightarrow> 's \<Rightarrow> 's" where
  "quiet k s = s"

lemma WithTx_quiet:
  "m s = Inr (x, s') \<Longrightarrow> WithTx quiet m (k, s) = (Inr x, (Suc k, s'))"
  "m s = Inl e \<Longrightarrow> WithTx quiet m (k, s) = (Inl e, (Suc k, s))"
  by (simp_all add: WithTx_def quiet_def)

lemma env_keeps_quiet [simp]: "env_keeps J quiet"
  by (simp add: env_keeps_def quiet_def)

lemma run_keeps_ok: "run_keeps J (run_ok x)"
  by (rule run_keepsI) (simp add: run_ok_def)

lemma run_keeps_err: "run_keeps J (run_err e)"
  by (rule run_keepsI) (simp add: run_err_def)

lemma run_keeps_bind: "run_keeps J m \<Longrightarrow> (\<And>x. run_keeps J (f x)) \<Longrightarrow> run_keeps J (run_bind m f)"
  by (rule run_keepsI) (auto simp: run_bind_def split: prod.splits sum.splits dest: run_keepsD)

lemma run_keeps_if: "run_keeps J m \<Longrightarrow> run_keeps J n \<Longrightarrow> run_keeps J (if b then m else n)"
  by simp

lemma run_keeps_each: "(\<And>x. x \<in> set xs \<Longrightarrow> run_keeps J (f x)) \<Longrightarrow> run_keeps J (run_each f xs)"
  by (induction xs) (auto intro: run_keeps_ok run_keeps_bind)

lemmas run_keeps_intros = run_keeps_ok run_keeps_err run_keeps_bind run_keeps_if run_keeps_each WithTx_keeps

end
