(* ===== verification/Actuator.thy ===== *)
theory Actuator
  imports EngineTypes ReconcileQueries Transactions
begin

text \<open>
  \<^verbatim>\<open>internal/engine/actuator.go\<close>. The interface \<^verbatim>\<open>ReconcileTx\<close> is a record of the operations the
  actuator calls, over any store; the locale \<open>reconcile_tx\<close> states the contract (every operation keeps
  an invariant of the store) from which the actuator's own preservation lemmas follow, and it is
  interpreted on the database operations of \<open>ReconcileQueries\<close> with the schema's constraints as the
  invariant.

  \<open>clock k\<close> is what the actuator's clock reads in the k-th transaction of the pass.
\<close>

section \<open>The interface\<close>

record 's ReconcileTx =
  tx_ActiveVolumeLease :: "uuid \<Rightarrow> (storeError, 's, VolumeLease) op"
  tx_CreateReplica :: "ReplicaSpec \<Rightarrow> (storeError, 's, ReplicaRow) op"
  tx_AssignReplicaHost :: "uuid \<Rightarrow> uuid \<Rightarrow> (storeError, 's, unit) op"
  tx_AssignVolumeHost :: "uuid \<Rightarrow> uuid \<Rightarrow> (storeError, 's, unit) op"
  tx_MarkVolumeResizePending :: "uuid \<Rightarrow> (storeError, 's, unit) op"
  tx_MarkVolumeResizing :: "uuid \<Rightarrow> (storeError, 's, unit) op"
  tx_MarkVolumeAttached :: "uuid \<Rightarrow> (storeError, 's, unit) op"
  tx_AcquireVolumeLease :: "uuid \<Rightarrow> uuid \<Rightarrow> time \<Rightarrow> (storeError, 's, unit) op"
  tx_SetReplicaDesiredStatus :: "uuid \<Rightarrow> ReplicaDesiredStatus \<Rightarrow> (storeError, 's, unit) op"
  tx_SetReplicaPhase :: "uuid \<Rightarrow> ReplicaPhase \<Rightarrow> int \<Rightarrow> (storeError, 's, unit) op"
  tx_FreezeReplica :: "uuid \<Rightarrow> (storeError, 's, unit) op"
  tx_ReleaseVolumeLease :: "uuid \<Rightarrow> (storeError, 's, unit) op"
  tx_DeleteReplica :: "uuid \<Rightarrow> (storeError, 's, unit) op"
  tx_SetDeploymentStatus :: "uuid \<Rightarrow> DeploymentStatus \<Rightarrow> (storeError, 's, unit) op"
  tx_SetServedRevision :: "uuid \<Rightarrow> string \<Rightarrow> uuid \<Rightarrow> (storeError, 's, unit) op"
  tx_ClearServedRevision :: "uuid \<Rightarrow> string \<Rightarrow> (storeError, 's, unit) op"

section \<open>Committing one intent\<close>

definition intentSpec :: "Intent \<Rightarrow> ReplicaSpec" where
  "intentSpec it = \<lparr>sp_DeploymentID = it_DeploymentID it, sp_Region = rs_Region (it_Group it),
     sp_CPUMillicores = it_CPUMillicores it, sp_MemBytes = it_MemBytes it, sp_AllocReason = '''',
     sp_VolumeID = it_VolumeID it\<rparr>"

text \<open>The last line of the source, an unknown kind, is reached by \<open>IntentSkip\<close> alone.\<close>

definition commit_intent :: "'s ReconcileTx \<Rightarrow> time \<Rightarrow> Intent \<Rightarrow> (storeError, 's, unit) op" where
  "commit_intent tx now it = (case it_Kind it of
       IntentCreate \<Rightarrow> op_seq (tx_CreateReplica tx (intentSpec it)) (op_ok ())
     | IntentAssignHost \<Rightarrow>
         op_seq (tx_AssignReplicaHost tx (it_ReplicaID it) (it_HostID it))
           (if it_VolumeID it = uuid_Nil then op_ok ()
            else tx_AcquireVolumeLease tx (it_VolumeID it) (it_ReplicaID it) (now + VolumeLeaseTTL))
     | IntentPlaceVolume \<Rightarrow> tx_AssignVolumeHost tx (it_VolumeID it) (it_HostID it)
     | IntentVolumeResizePending \<Rightarrow> tx_MarkVolumeResizePending tx (it_VolumeID it)
     | IntentResizeVolume \<Rightarrow> tx_MarkVolumeResizing tx (it_VolumeID it)
     | IntentVolumeResized \<Rightarrow> tx_MarkVolumeAttached tx (it_VolumeID it)
     | IntentDrain \<Rightarrow> tx_SetReplicaPhase tx (it_ReplicaID it) ReplicaPhaseDraining (it_Revision it)
     | IntentFreezeReplica \<Rightarrow> tx_FreezeReplica tx (it_ReplicaID it)
     | IntentDestroy \<Rightarrow>
         (if it_VolumeID it \<noteq> uuid_Nil
          then op_seq (tx_ReleaseVolumeLease tx (it_VolumeID it)) (tx_DeleteReplica tx (it_ReplicaID it))
          else tx_DeleteReplica tx (it_ReplicaID it))
     | IntentFail \<Rightarrow> tx_SetDeploymentStatus tx (it_DeploymentID it) DeploymentFailed
     | IntentComplete \<Rightarrow>
         op_seq (tx_SetDeploymentStatus tx (it_DeploymentID it) DeploymentActive)
           (tx_SetServedRevision tx (rs_EnvironmentServiceID (it_Group it)) (rs_Region (it_Group it)) (it_DeploymentID it))
     | IntentSkip \<Rightarrow> op_err ErrDriver)"

text \<open>The source indexes \<^verbatim>\<open>batch[0]\<close>; a batch is created with its first intent, so it is not empty.\<close>

definition commitSwitchBatch :: "'s ReconcileTx \<Rightarrow> Intent list \<Rightarrow> (storeError, 's, unit) op" where
  "commitSwitchBatch tx batch =
     op_seq (op_each (\<lambda>it. tx_SetReplicaPhase tx (it_ReplicaID it) ReplicaPhaseDraining (it_Revision it)) batch)
       (let lead = hd batch in
        if it_DeploymentID lead = uuid_Nil
        then tx_ClearServedRevision tx (rs_EnvironmentServiceID (it_Group lead)) (rs_Region (it_Group lead))
        else tx_SetServedRevision tx (rs_EnvironmentServiceID (it_Group lead)) (rs_Region (it_Group lead)) (it_DeploymentID lead))"

section \<open>Transactions and a whole pass\<close>

definition dropConflict :: "(storeError + unit) \<Rightarrow> (storeError + unit)" where
  "dropConflict r = (case r of Inr u \<Rightarrow> Inr u | Inl e \<Rightarrow> if e = ErrConflict then Inr () else Inl e)"

definition applyOne ::
  "'s ReconcileTx \<Rightarrow> (nat \<Rightarrow> 's \<Rightarrow> 's) \<Rightarrow> (nat \<Rightarrow> time) \<Rightarrow> Intent \<Rightarrow> nat \<times> 's \<Rightarrow> (storeError + unit) \<times> (nat \<times> 's)" where
  "applyOne tx env clock it ks =
     (if it_Kind it = IntentSkip then (Inr (), ks)
      else let (r, ks') = WithTx env (commit_intent tx (clock (fst ks)) it) ks in (dropConflict r, ks'))"

definition applySwitchBatch ::
  "'s ReconcileTx \<Rightarrow> (nat \<Rightarrow> 's \<Rightarrow> 's) \<Rightarrow> Intent list \<Rightarrow> nat \<times> 's \<Rightarrow> (storeError + unit) \<times> (nat \<times> 's)" where
  "applySwitchBatch tx env batch ks =
     (let (r, ks') = WithTx env (commitSwitchBatch tx batch) ks in (dropConflict r, ks'))"

type_synonym switchBatches = "(replicaSlot \<times> Intent list) list"

definition addToBatch :: "Intent \<Rightarrow> switchBatches \<Rightarrow> switchBatches" where
  "addToBatch it batches =
     (if it_Group it \<in> fst ` set batches
      then map (\<lambda>(s, b). if s = it_Group it then (s, b @ [it]) else (s, b)) batches
      else batches @ [(it_Group it, [it])])"

definition switches :: "Intent \<Rightarrow> bool" where
  "switches it \<longleftrightarrow> it_Kind it = IntentDrain \<and> it_SwitchTraffic it"

text \<open>The first loop: every other intent in its own transaction, the switches collected.\<close>

fun applyLoop ::
  "'s ReconcileTx \<Rightarrow> (nat \<Rightarrow> 's \<Rightarrow> 's) \<Rightarrow> (nat \<Rightarrow> time) \<Rightarrow> Intent list \<Rightarrow> switchBatches \<Rightarrow> nat \<times> 's \<Rightarrow>
   (storeError + switchBatches) \<times> (nat \<times> 's)" where
  "applyLoop tx env clock [] batches ks = (Inr batches, ks)"
| "applyLoop tx env clock (it # its) batches ks =
     (if switches it then applyLoop tx env clock its (addToBatch it batches) ks
      else case applyOne tx env clock it ks of
             (Inl e, ks') \<Rightarrow> (Inl e, ks')
           | (Inr _, ks') \<Rightarrow> applyLoop tx env clock its batches ks')"

fun applyBatches ::
  "'s ReconcileTx \<Rightarrow> (nat \<Rightarrow> 's \<Rightarrow> 's) \<Rightarrow> switchBatches \<Rightarrow> nat \<times> 's \<Rightarrow> (storeError + unit) \<times> (nat \<times> 's)" where
  "applyBatches tx env [] ks = (Inr (), ks)"
| "applyBatches tx env ((s, b) # bs) ks =
     (case applySwitchBatch tx env b ks of
        (Inl e, ks') \<Rightarrow> (Inl e, ks')
      | (Inr _, ks') \<Rightarrow> applyBatches tx env bs ks')"

definition Apply ::
  "'s ReconcileTx \<Rightarrow> (nat \<Rightarrow> 's \<Rightarrow> 's) \<Rightarrow> (nat \<Rightarrow> time) \<Rightarrow> Intent list \<Rightarrow> nat \<times> 's \<Rightarrow> (storeError + unit) \<times> (nat \<times> 's)" where
  "Apply tx env clock intents ks =
     (case applyLoop tx env clock intents [] ks of
        (Inl e, ks') \<Rightarrow> (Inl e, ks')
      | (Inr batches, ks') \<Rightarrow> applyBatches tx env batches ks')"

section \<open>The contract of the interface\<close>

locale reconcile_tx =
  fixes tx :: "'s ReconcileTx"
    and J :: "'s \<Rightarrow> bool"
  assumes CreateReplica: "op_keeps J (tx_CreateReplica tx spec)"
    and AssignReplicaHost: "op_keeps J (tx_AssignReplicaHost tx i h)"
    and AssignVolumeHost: "op_keeps J (tx_AssignVolumeHost tx v h)"
    and MarkVolumeResizePending: "op_keeps J (tx_MarkVolumeResizePending tx v)"
    and MarkVolumeResizing: "op_keeps J (tx_MarkVolumeResizing tx v)"
    and MarkVolumeAttached: "op_keeps J (tx_MarkVolumeAttached tx v)"
    and AcquireVolumeLease: "op_keeps J (tx_AcquireVolumeLease tx v i t)"
    and SetReplicaPhase: "op_keeps J (tx_SetReplicaPhase tx i p rv)"
    and FreezeReplica: "op_keeps J (tx_FreezeReplica tx i)"
    and ReleaseVolumeLease: "op_keeps J (tx_ReleaseVolumeLease tx v)"
    and DeleteReplica: "op_keeps J (tx_DeleteReplica tx i)"
    and SetDeploymentStatus: "op_keeps J (tx_SetDeploymentStatus tx d st)"
    and SetServedRevision: "op_keeps J (tx_SetServedRevision tx e r d)"
    and ClearServedRevision: "op_keeps J (tx_ClearServedRevision tx e r)"
begin

lemmas laws = CreateReplica AssignReplicaHost AssignVolumeHost MarkVolumeResizePending
  MarkVolumeResizing MarkVolumeAttached AcquireVolumeLease SetReplicaPhase FreezeReplica
  ReleaseVolumeLease DeleteReplica SetDeploymentStatus SetServedRevision ClearServedRevision

lemma commit_intent_keeps: "op_keeps J (commit_intent tx now it)"
  unfolding commit_intent_def
  by (cases "it_Kind it") (simp_all add: laws op_keeps_ok op_keeps_err op_keeps_seq)

lemma commitSwitchBatch_keeps: "op_keeps J (commitSwitchBatch tx batch)"
  unfolding commitSwitchBatch_def Let_def
  by (intro op_keeps_seq op_keeps_each op_keeps_if laws)

lemma applyOne_keeps:
  assumes "env_keeps J env"
  shows "run_keeps J (applyOne tx env clock it)"
proof (rule run_keepsI)
  fix ks r ks'
  assume J: "J (snd ks)" and run: "applyOne tx env clock it ks = (r, ks')"
  obtain r1 ks1 where w: "WithTx env (commit_intent tx (clock (fst ks)) it) ks = (r1, ks1)"
    by (cases "WithTx env (commit_intent tx (clock (fst ks)) it) ks")
  have "J (snd ks1)"
    by (rule run_keepsD [OF WithTx_keeps [OF commit_intent_keeps assms] J w])
  with J run show "J (snd ks')"
    by (auto simp: applyOne_def w split: if_splits)
qed

lemma applyLoop_keeps:
  assumes "env_keeps J env"
  shows "run_keeps J (applyLoop tx env clock its batches)"
proof (induction its arbitrary: batches)
  case Nil
  show ?case by (rule run_keepsI) simp
next
  case (Cons it its)
  show ?case
  proof (rule run_keepsI)
    fix ks r ks'
    assume J: "J (snd ks)" and run: "applyLoop tx env clock (it # its) batches ks = (r, ks')"
    obtain r1 ks1 where w: "applyOne tx env clock it ks = (r1, ks1)"
      by (cases "applyOne tx env clock it ks")
    have J1: "J (snd ks1)"
      by (rule run_keepsD [OF applyOne_keeps [OF assms] J w])
    show "J (snd ks')"
    proof (cases "switches it")
      case True
      with run have "applyLoop tx env clock its (addToBatch it batches) ks = (r, ks')" by simp
      from run_keepsD [OF Cons.IH J this] show ?thesis .
    next
      case False
      show ?thesis
      proof (cases r1)
        case (Inl e)
        with False run w J1 show ?thesis by simp
      next
        case (Inr u)
        with False run w have "applyLoop tx env clock its batches ks1 = (r, ks')" by simp
        from run_keepsD [OF Cons.IH J1 this] show ?thesis .
      qed
    qed
  qed
qed

lemma applyBatches_keeps:
  assumes "env_keeps J env"
  shows "run_keeps J (applyBatches tx env bs)"
proof (induction bs)
  case Nil
  show ?case by (rule run_keepsI) simp
next
  case (Cons b bs)
  obtain s batch where b: "b = (s, batch)" by (cases b)
  show ?case
  proof (rule run_keepsI)
    fix ks r ks'
    assume J: "J (snd ks)" and run: "applyBatches tx env (b # bs) ks = (r, ks')"
    obtain r1 ks1 where w: "WithTx env (commitSwitchBatch tx batch) ks = (r1, ks1)"
      by (cases "WithTx env (commitSwitchBatch tx batch) ks")
    have J1: "J (snd ks1)"
      by (rule run_keepsD [OF WithTx_keeps [OF commitSwitchBatch_keeps assms] J w])
    show "J (snd ks')"
    proof (cases "dropConflict r1")
      case (Inl e)
      with run J1 show ?thesis by (simp add: b applySwitchBatch_def w)
    next
      case (Inr u)
      with run have "applyBatches tx env bs ks1 = (r, ks')" by (simp add: b applySwitchBatch_def w)
      from run_keepsD [OF Cons.IH J1 this] show ?thesis .
    qed
  qed
qed

lemma Apply_keeps:
  assumes "env_keeps J env"
  shows "run_keeps J (Apply tx env clock intents)"
proof (rule run_keepsI)
  fix ks r ks'
  assume J: "J (snd ks)" and run: "Apply tx env clock intents ks = (r, ks')"
  obtain r1 ks1 where w: "applyLoop tx env clock intents [] ks = (r1, ks1)"
    by (cases "applyLoop tx env clock intents [] ks")
  have J1: "J (snd ks1)"
    by (rule run_keepsD [OF applyLoop_keeps [OF assms] J w])
  show "J (snd ks')"
  proof (cases r1)
    case (Inl e)
    with run J1 show ?thesis by (simp add: Apply_def w)
  next
    case (Inr bs)
    with run have "applyBatches tx env bs ks1 = (r, ks')" by (simp add: Apply_def w)
    from run_keepsD [OF applyBatches_keeps [OF assms] J1 this] show ?thesis .
  qed
qed

end

section \<open>The database as the provider\<close>

text \<open>\<^verbatim>\<open>var _ ReconcileTx = storage.Querier(nil)\<close>\<close>

definition dbTx :: "database ReconcileTx" where
  "dbTx = \<lparr>tx_ActiveVolumeLease = ActiveVolumeLease, tx_CreateReplica = CreateReplica,
     tx_AssignReplicaHost = AssignReplicaHost, tx_AssignVolumeHost = AssignVolumeHost,
     tx_MarkVolumeResizePending = MarkVolumeResizePending, tx_MarkVolumeResizing = MarkVolumeResizing,
     tx_MarkVolumeAttached = MarkVolumeAttached, tx_AcquireVolumeLease = AcquireVolumeLease,
     tx_SetReplicaDesiredStatus = SetReplicaDesiredStatus, tx_SetReplicaPhase = SetReplicaPhase,
     tx_FreezeReplica = FreezeReplica, tx_ReleaseVolumeLease = ReleaseVolumeLease,
     tx_DeleteReplica = DeleteReplica, tx_SetDeploymentStatus = SetDeploymentStatus,
     tx_SetServedRevision = SetServedRevision, tx_ClearServedRevision = ClearServedRevision\<rparr>"

lemma dbTx_simps [simp]:
  "tx_ActiveVolumeLease dbTx = ActiveVolumeLease" "tx_CreateReplica dbTx = CreateReplica"
  "tx_AssignReplicaHost dbTx = AssignReplicaHost" "tx_AssignVolumeHost dbTx = AssignVolumeHost"
  "tx_MarkVolumeResizePending dbTx = MarkVolumeResizePending" "tx_MarkVolumeResizing dbTx = MarkVolumeResizing"
  "tx_MarkVolumeAttached dbTx = MarkVolumeAttached" "tx_AcquireVolumeLease dbTx = AcquireVolumeLease"
  "tx_SetReplicaDesiredStatus dbTx = SetReplicaDesiredStatus" "tx_SetReplicaPhase dbTx = SetReplicaPhase"
  "tx_FreezeReplica dbTx = FreezeReplica" "tx_ReleaseVolumeLease dbTx = ReleaseVolumeLease"
  "tx_DeleteReplica dbTx = DeleteReplica" "tx_SetDeploymentStatus dbTx = SetDeploymentStatus"
  "tx_SetServedRevision dbTx = SetServedRevision" "tx_ClearServedRevision dbTx = ClearServedRevision"
  by (simp_all add: dbTx_def)

interpretation db_tx: reconcile_tx dbTx db_wf
  by unfold_locales
    (simp_all add: keeps_CreateReplica keeps_AssignReplicaHost keeps_AssignVolumeHost keeps_MarkVolume
      keeps_AcquireVolumeLease keeps_SetReplicaPhase keeps_FreezeReplica keeps_ReleaseVolumeLease
      keeps_DeleteReplica keeps_SetDeploymentStatus keeps_SetServedRevision keeps_ClearServedRevision)

end
