(* ===== verification/ActuatorCorrect.thy ===== *)
theory ActuatorCorrect
  imports Actuator
begin

text \<open>
  What the actuator guarantees on the database: the schema's constraints survive a pass, a traffic
  switch is all or nothing, a lost race is not an error, no committed intent overcommits a host, and
  a live volume lease never changes hands.
\<close>

section \<open>The guarded writes\<close>

lemma AssignReplicaHost_Inr:
  "AssignReplicaHost i h db = Inr (x, db') \<longleftrightarrow>
     (\<exists>r \<in> set (db_replicas db). rr_ID r = i \<and> reservable db h r) \<and> db' = snd (q_ReserveReplicaOnHost i h db)"
  by (auto simp: AssignReplicaHost_def orConflict_Inr q_ReserveReplicaOnHost_def filter_empty_conv prod_eq_iff)

lemma SetReplicaPhase_Inr:
  "SetReplicaPhase i p rv db = Inr (x, db') \<longleftrightarrow>
     ReplicaPhase_Valid p \<and> (\<exists>r \<in> set (db_replicas db). rr_ID r = i \<and> rr_Revision r = rv)
     \<and> db' = snd (q_SetReplicaPhase i p rv db)"
  by (auto simp: SetReplicaPhase_def op_seq_Inr orConflict_Inr q_SetReplicaPhase_def filter_empty_conv prod_eq_iff)

lemma FreezeReplica_Inr:
  "FreezeReplica i db = Inr (x, db') \<longleftrightarrow>
     (\<exists>r \<in> set (db_replicas db). rr_ID r = i \<and> freezable r) \<and> db' = snd (q_FreezeReplica i db)"
  by (auto simp: FreezeReplica_def orConflict_Inr q_FreezeReplica_def filter_empty_conv prod_eq_iff)

section \<open>Capacity\<close>

text \<open>No host's live reservations exceed its capacity.\<close>

definition capacity_ok :: "database \<Rightarrow> bool" where
  "capacity_ok db \<longleftrightarrow> (\<forall>h \<in> set (db_hosts db).
     sumLive rr_CpuMillicores (hr_ID h) (db_replicas db) \<le> hr_CpuMillicores h
     \<and> sumLive rr_MemBytes (hr_ID h) (db_replicas db) \<le> hr_MemBytes h)"

lemma sumLive_simps [simp]:
  "sumLive f h [] = 0"
  "sumLive f h (r # rows) = (if rr_HostID r = Some h \<and> liveRow r then f r else 0) + sumLive f h rows"
  by (simp_all add: sumLive_def)

lemma sumLive_append: "sumLive f h (xs @ ys) = sumLive f h xs + sumLive f h ys"
  by (simp add: sumLive_def)

text \<open>Rewriting rows so that none counts for more than it did does not raise a host's sum.\<close>

lemma sumLive_map_le:
  assumes "\<And>r. r \<in> set rows \<Longrightarrow> 0 \<le> f r"
    and "\<And>r. r \<in> set rows \<Longrightarrow> rr_HostID (u r) = Some h \<Longrightarrow> liveRow (u r) \<Longrightarrow> rr_HostID r = Some h \<and> liveRow r \<and> f (u r) = f r"
  shows "sumLive f h (map u rows) \<le> sumLive f h rows"
  using assms
proof (induction rows)
  case (Cons r rows)
  then have "sumLive f h (map u rows) \<le> sumLive f h rows" by simp
  with Cons.prems(1) [of r] Cons.prems(2) [of r] show ?case by auto
qed simp

lemma sumLive_filter_le:
  "(\<And>r. r \<in> set rows \<Longrightarrow> 0 \<le> f r) \<Longrightarrow> sumLive f h (filter P rows) \<le> sumLive f h rows"
proof (induction rows)
  case (Cons r rows)
  then have "sumLive f h (filter P rows) \<le> sumLive f h rows" "0 \<le> f r" by simp_all
  then show ?case by auto
qed simp

text \<open>Moving one row onto a host adds at most that row.\<close>

lemma sumLive_reserve:
  assumes "distinct (map rr_ID rows)" "r0 \<in> set rows" "rr_ID r0 = i"
    and "\<And>r. r \<in> set rows \<Longrightarrow> 0 \<le> f r" "\<And>r. f (u r) = f r"
  shows "sumLive f h (map (\<lambda>r. if rr_ID r = i then u r else r) rows) \<le> sumLive f h rows + f r0"
  using assms
proof (induction rows)
  case (Cons r rows)
  show ?case
  proof (cases "rr_ID r = i")
    case True
    with Cons.prems(1) have "\<forall>x \<in> set rows. rr_ID x \<noteq> i" by (auto simp: image_iff)
    then have "map (\<lambda>r. if rr_ID r = i then u r else r) rows = rows" and "r0 = r"
      using Cons.prems(2,3) True by (auto simp: map_idI)
    with True Cons.prems(4) [of r] Cons.prems(5) [of r] show ?thesis by auto
  next
    case False
    with Cons.prems have "sumLive f h (map (\<lambda>r. if rr_ID r = i then u r else r) rows) \<le> sumLive f h rows + f r0"
      by (intro Cons.IH) auto
    with False show ?thesis by auto
  qed
qed simp

lemma rows_nonneg: "db_wf db \<Longrightarrow> r \<in> set (db_replicas db) \<Longrightarrow> 0 \<le> rr_CpuMillicores r \<and> 0 \<le> rr_MemBytes r"
  using db_wf_rows(4) by (fastforce simp: replica_ok_def)

lemma capacity_reserve:
  assumes "db_wf db" "capacity_ok db" "AssignReplicaHost i h db = Inr (x, db')"
  shows "capacity_ok db'"
proof -
  from assms(3) obtain r0 where r0: "r0 \<in> set (db_replicas db)" "rr_ID r0 = i" "reservable db h r0"
    and db': "db' = snd (q_ReserveReplicaOnHost i h db)"
    unfolding AssignReplicaHost_Inr by blast
  let ?u = "\<lambda>r. replicaTrigger (db_now db) r (r\<lparr>rr_HostID := Some h, rr_Phase := ReplicaPhaseScheduling\<rparr>)"
  have only: "rr_ID r = i \<Longrightarrow> r = r0" if "r \<in> set (db_replicas db)" for r
    using db_wf_rows(1) [OF assms(1)] that r0(1,2) by (auto simp: distinct_map inj_on_def)
  have rows: "db_replicas db' = map (\<lambda>r. if rr_ID r = i then ?u r else r) (db_replicas db)"
    using only r0(3) by (auto simp: db' q_ReserveReplicaOnHost_def)
  have hosts: "db_hosts db' = db_hosts db" by (simp add: db' q_ReserveReplicaOnHost_def)
  note nn = rows_nonneg [OF assms(1)]
  note keys = db_wf_rows(1) [OF assms(1)]
  obtain hr where hr: "hr \<in> set (db_hosts db)" "hr_ID hr = h"
    "sumLive rr_CpuMillicores h (db_replicas db) + rr_CpuMillicores r0 \<le> hr_CpuMillicores hr"
    "sumLive rr_MemBytes h (db_replicas db) + rr_MemBytes r0 \<le> hr_MemBytes hr"
    using r0(3) by (auto simp: reservable_def list_ex_iff)
  have onh: "sumLive f h (db_replicas db') \<le> sumLive f h (db_replicas db) + f r0"
    if "\<And>r. r \<in> set (db_replicas db) \<Longrightarrow> 0 \<le> f r" "\<And>r. f (?u r) = f r" for f
    unfolding rows using keys r0(1,2) that by (intro sumLive_reserve [where u = ?u])
  have off: "sumLive f h' (db_replicas db') \<le> sumLive f h' (db_replicas db)"
    if "h' \<noteq> h" "\<And>r. r \<in> set (db_replicas db) \<Longrightarrow> 0 \<le> f r" for f h'
    unfolding rows by (rule sumLive_map_le) (use that in \<open>auto split: if_splits\<close>)
  have "sumLive rr_CpuMillicores (hr_ID g) (db_replicas db') \<le> hr_CpuMillicores g
    \<and> sumLive rr_MemBytes (hr_ID g) (db_replicas db') \<le> hr_MemBytes g" if g: "g \<in> set (db_hosts db)" for g
  proof (cases "hr_ID g = h")
    case True
    then have "g = hr"
      using db_wf_rows(7) [OF assms(1)] g hr(1,2) by (auto simp: distinct_map inj_on_def)
    then show ?thesis
      using onh [of rr_CpuMillicores] onh [of rr_MemBytes] nn hr True by force
  next
    case False
    then show ?thesis
      using off [of "hr_ID g" rr_CpuMillicores] off [of "hr_ID g" rr_MemBytes] nn assms(2) g
      by (force simp: capacity_ok_def)
  qed
  then show ?thesis by (simp add: capacity_ok_def hosts)
qed

lemma capacity_replicas_mono:
  assumes "capacity_ok db" "db_hosts db' = db_hosts db"
    and "\<And>h. sumLive rr_CpuMillicores h (db_replicas db') \<le> sumLive rr_CpuMillicores h (db_replicas db)"
    and "\<And>h. sumLive rr_MemBytes h (db_replicas db') \<le> sumLive rr_MemBytes h (db_replicas db)"
  shows "capacity_ok db'"
  unfolding capacity_ok_def assms(2)
proof
  fix h
  assume "h \<in> set (db_hosts db)"
  with assms(1) have "sumLive rr_CpuMillicores (hr_ID h) (db_replicas db) \<le> hr_CpuMillicores h"
    "sumLive rr_MemBytes (hr_ID h) (db_replicas db) \<le> hr_MemBytes h"
    by (auto simp: capacity_ok_def)
  with assms(3,4) [of "hr_ID h"] show "sumLive rr_CpuMillicores (hr_ID h) (db_replicas db') \<le> hr_CpuMillicores h
    \<and> sumLive rr_MemBytes (hr_ID h) (db_replicas db') \<le> hr_MemBytes h" by linarith
qed

lemma capacity_same_rows: "db_replicas db' = db_replicas db \<Longrightarrow> db_hosts db' = db_hosts db \<Longrightarrow> capacity_ok db \<Longrightarrow> capacity_ok db'"
  by (simp add: capacity_ok_def)

text \<open>An update that moves no row to another host and brings no dead row back.\<close>

lemma capacity_update:
  assumes "db_wf db" "capacity_ok db"
    and "\<And>r. r \<in> set (db_replicas db) \<Longrightarrow> P r \<Longrightarrow> rr_HostID (f r) = rr_HostID r \<and> (liveRow (f r) \<longrightarrow> liveRow r)
      \<and> rr_CpuMillicores (f r) = rr_CpuMillicores r \<and> rr_MemBytes (f r) = rr_MemBytes r"
  shows "capacity_ok (snd (updateReplicas P f db))"
proof (rule capacity_replicas_mono [OF assms(2)])
  have live: "liveRow (replicaTrigger n r s) = liveRow s" for n r s by (simp add: liveRow_def)
  show "sumLive rr_CpuMillicores h (db_replicas (snd (updateReplicas P f db))) \<le> sumLive rr_CpuMillicores h (db_replicas db)" for h
    using rows_nonneg [OF assms(1)] assms(3)
    by (simp, intro sumLive_map_le) (auto simp: live split: if_splits)
  show "sumLive rr_MemBytes h (db_replicas (snd (updateReplicas P f db))) \<le> sumLive rr_MemBytes h (db_replicas db)" for h
    using rows_nonneg [OF assms(1)] assms(3)
    by (simp, intro sumLive_map_le) (auto simp: live split: if_splits)
qed simp

lemma capacity_delete:
  assumes "db_wf db" "capacity_ok db" "DeleteReplica i db = Inr (x, db')"
  shows "capacity_ok db'"
proof (rule capacity_replicas_mono [OF assms(2)])
  have rows: "db_replicas db' = filter (\<lambda>r. rr_ID r \<noteq> i) (db_replicas db)" and "db_hosts db' = db_hosts db"
    using assms(3) by (auto simp: DeleteReplica_def)
  then show "db_hosts db' = db_hosts db" by simp
  show "sumLive rr_CpuMillicores h (db_replicas db') \<le> sumLive rr_CpuMillicores h (db_replicas db)"
    "sumLive rr_MemBytes h (db_replicas db') \<le> sumLive rr_MemBytes h (db_replicas db)" for h
    unfolding rows using rows_nonneg [OF assms(1)] by (blast intro: sumLive_filter_le)+
qed

text \<open>The statements that touch neither replicas nor hosts.\<close>

definition same_fleet :: "database \<Rightarrow> database \<Rightarrow> bool" where
  "same_fleet db db' \<longleftrightarrow> db_replicas db' = db_replicas db \<and> db_hosts db' = db_hosts db"

lemma same_fleet_simple:
  "same_fleet db (snd (updateVolumes P f db))" "same_fleet db (snd (updateDeployments Q g db))"
  "same_fleet db (db\<lparr>db_leases := ls\<rparr>)" "same_fleet db (db\<lparr>db_served := ss\<rparr>)" "same_fleet db db"
  by (simp_all add: same_fleet_def)

lemma same_fleet_conflict: "orConflict (exec_rows (updateVolumes P f)) db = Inr (x, db') \<Longrightarrow> same_fleet db db'"
  using same_fleet_simple(1) [of db P f] by (auto simp: orConflict_Inr simp del: updateVolumes_simps)

lemma same_fleet_volumes:
  "AssignVolumeHost v h db = Inr (x, db') \<Longrightarrow> same_fleet db db'"
  "MarkVolumeResizePending v db = Inr (x, db') \<Longrightarrow> same_fleet db db'"
  "MarkVolumeResizing v db = Inr (x, db') \<Longrightarrow> same_fleet db db'"
  "MarkVolumeAttached v db = Inr (x, db') \<Longrightarrow> same_fleet db db'"
  unfolding MarkVolumeResizePending_def MarkVolumeResizing_def MarkVolumeAttached_def
  by (simp_all add: same_fleet_conflict)
    (auto simp: AssignVolumeHost_def op_seq_Inr same_fleet_def dest!: arg_cong [where f = snd])

lemma same_fleet_acquire: "AcquireVolumeLease v i t db = Inr (x, db') \<Longrightarrow> same_fleet db db'"
  by (cases "find (\<lambda>l. vl_VolumeID l = v) (db_leases db)")
    (auto simp: AcquireVolumeLease_def orConflict_Inr q_AcquireVolumeLease_def Let_def same_fleet_simple split: if_splits)

lemma same_fleet_others:
  "ReleaseVolumeLease v db = Inr (x, db') \<Longrightarrow> same_fleet db db'"
  "SetServedRevision e r d db = Inr (x, db') \<Longrightarrow> same_fleet db db'"
  "SetDeploymentStatus d st db = Inr (x, db') \<Longrightarrow> same_fleet db db'"
  by (auto simp: ReleaseVolumeLease_def SetServedRevision_def SetDeploymentStatus_def op_seq_Inr same_fleet_def
      dest!: arg_cong [where f = snd])

lemmas same_fleet_ops = same_fleet_volumes same_fleet_acquire same_fleet_others

lemma capacity_same_fleet: "same_fleet db db' \<Longrightarrow> capacity_ok db \<Longrightarrow> capacity_ok db'"
  by (simp add: same_fleet_def capacity_same_rows)

lemma capacity_create: "CreateReplica spec db = Inr (x, db') \<Longrightarrow> capacity_ok db \<Longrightarrow> capacity_ok db'"
  by (auto simp: CreateReplica_def freshID_def Let_def newReplicaRow_def capacity_ok_def sumLive_append split: if_splits)

lemma capacity_drain:
  assumes "db_wf db" "capacity_ok db" "SetReplicaPhase i ReplicaPhaseDraining rv db = Inr (x, db')"
    and "\<forall>r \<in> set (db_replicas db). rr_ID r = i \<and> rr_Revision r = rv \<longrightarrow> liveRow r"
  shows "capacity_ok db'"
  using assms(3,4) unfolding SetReplicaPhase_Inr q_SetReplicaPhase_def
  by (auto simp del: updateReplicas_simps intro!: capacity_update [OF assms(1,2)])

lemma capacity_freeze:
  assumes "db_wf db" "capacity_ok db" "FreezeReplica i db = Inr (x, db')"
  shows "capacity_ok db'"
  using assms(3) unfolding FreezeReplica_Inr q_FreezeReplica_def
  by (auto simp: liveRow_def simp del: updateReplicas_simps intro!: capacity_update [OF assms(1,2)])

text \<open>
  C10: No committed intent overcommits a host. On a database that satisfies the schema and where every
  host's live reservations (cpu and memory of its replicas that are neither reaped nor failed) are
  within its capacity, an intent that commits leaves them within capacity on every host; for a drain
  this needs the row at the expected revision to be a live one, as the reconciler's drain rules choose.
\<close>
theorem commit_keeps_capacity:
  assumes "db_wf db" and "capacity_ok db" and "commit_intent dbTx now it db = Inr ((), db')"
    and "it_Kind it = IntentDrain \<Longrightarrow> \<forall>r \<in> set (db_replicas db).
      rr_ID r = it_ReplicaID it \<and> rr_Revision r = it_Revision it \<longrightarrow> liveRow r"
  shows "capacity_ok db'"
proof (cases "it_Kind it")
  case IntentAssignHost
  obtain db1 where db1: "AssignReplicaHost (it_ReplicaID it) (it_HostID it) db = Inr ((), db1)"
    and rest: "db1 = db' \<or> AcquireVolumeLease (it_VolumeID it) (it_ReplicaID it) (now + VolumeLeaseTTL) db1 = Inr ((), db')"
    using assms(3) IntentAssignHost by (auto simp: commit_intent_def op_seq_Inr split: if_splits)
  have "capacity_ok db1" by (rule capacity_reserve [OF assms(1,2) db1])
  with rest show ?thesis by (auto dest: same_fleet_ops intro: capacity_same_fleet)
next
  case IntentDestroy
  obtain db1 where db1: "db1 = db \<or> ReleaseVolumeLease (it_VolumeID it) db = Inr ((), db1)"
    and del: "DeleteReplica (it_ReplicaID it) db1 = Inr ((), db')"
    using assms(3) IntentDestroy by (auto simp: commit_intent_def op_seq_Inr split: if_splits)
  from db1 have "db_wf db1 \<and> capacity_ok db1"
  proof
    assume rel: "ReleaseVolumeLease (it_VolumeID it) db = Inr ((), db1)"
    from op_keepsD [OF keeps_ReleaseVolumeLease assms(1) rel] capacity_same_fleet [OF same_fleet_others(1) [OF rel] assms(2)]
    show ?thesis by simp
  qed (simp add: assms(1,2))
  with del show ?thesis by (blast intro: capacity_delete)
next
  case IntentComplete
  then show ?thesis
    using assms(2,3) by (auto simp: commit_intent_def op_seq_Inr dest!: same_fleet_ops intro: capacity_same_fleet)
next
  case IntentDrain
  then show ?thesis
    using capacity_drain [OF assms(1,2)] assms(3,4) by (simp add: commit_intent_def)
next
  case IntentFreezeReplica
  then show ?thesis
    using capacity_freeze [OF assms(1,2)] assms(3) by (simp add: commit_intent_def)
next
  case IntentCreate
  then show ?thesis
    using assms(2,3) by (auto simp: commit_intent_def op_seq_Inr intro: capacity_create)
qed (use assms(2,3) in \<open>auto simp: commit_intent_def dest!: same_fleet_ops intro: capacity_same_fleet\<close>)

section \<open>A concrete database\<close>

definition demo_row :: "uuid \<Rightarrow> ReplicaRow" where
  "demo_row i = \<lparr>rr_ID = i, rr_DeploymentID = 1, rr_Region = ''us'', rr_HostID = Some 9, rr_VolumeID = None,
     rr_CpuMillicores = 100, rr_MemBytes = 100, rr_AllocReason = None, rr_DesiredStatus = ReplicaDesiredRunning,
     rr_Phase = ReplicaPhaseActive, rr_Healthy = True, rr_RestartCount = 0, rr_LastExitReason = None,
     rr_Revision = 7, rr_CreatedAt = 10, rr_UpdatedAt = 20, rr_DrainedAt = None, rr_HealthChecksPassedAt = Some 15\<rparr>"

definition demo_deployment :: "uuid \<Rightarrow> DeploymentRow" where
  "demo_deployment i = \<lparr>dep_ID = i, dep_EnvironmentServiceID = 1, dep_Version = 1, dep_IsCurrent = True,
     dep_ImageRef = ''img'', dep_CpuMillicores = 100, dep_MemBytes = 100, dep_Env = ''{}'', dep_Healthcheck = ''{}'',
     dep_DrainSeconds = 30, dep_RestartMax = 5, dep_CommitMessage = None, dep_CreatedBy = None,
     dep_Status = DeploymentPending, dep_CreatedAt = 5, dep_ProgressDeadline = 600\<rparr>"

definition demo_hostRow :: "uuid \<Rightarrow> HostRow" where
  "demo_hostRow i = \<lparr>hr_ID = i, hr_Region = ''us'', hr_Hostname = ''h'', hr_CpuMillicores = 1000, hr_MemBytes = 1000,
     hr_DiskBytes = 1000, hr_Labels = ''{}'', hr_Status = HostOpen, hr_LastHeartbeat = Some 90, hr_CreatedAt = 1,
     hr_HostHealthy = True, hr_DrainStartedAt = None\<rparr>"

definition demo_volumeRow :: "uuid \<Rightarrow> VolumeRow" where
  "demo_volumeRow i = \<lparr>vr_ID = i, vr_Name = ''data'', vr_MountPath = ''/data'', vr_Region = ''us'', vr_HostID = Some 9,
     vr_Backing = ''local'', vr_DesiredSizeBytes = 64, vr_ObservedSizeBytes = Some 32, vr_Status = VolumeAttached,
     vr_CreatedAt = 1, vr_PreviousDesiredSizeBytes = None, vr_EnvironmentServiceID = 1\<rparr>"

text \<open>Two deployments of one service, the first superseded; a hostless replica pinned to a volume
  whose lease a running replica holds.\<close>

definition demo_db :: database where
  "demo_db = \<lparr>db_instances = [],
     db_deployments = [(demo_deployment 1)\<lparr>dep_IsCurrent := False\<rparr>, (demo_deployment 2)\<lparr>dep_Version := 2\<rparr>],
     db_deploymentRegions = [\<lparr>dr_DeploymentID = 1, dr_Region = ''us'', dr_Replicas = 1\<rparr>,
                             \<lparr>dr_DeploymentID = 2, dr_Region = ''us'', dr_Replicas = 1\<rparr>],
     db_environments = [], db_environmentServices = [\<lparr>es_ID = 1, es_EnvironmentID = 1, es_ServiceID = 1, es_Source = ''{}''\<rparr>],
     db_hosts = [demo_hostRow 9], db_projects = [], db_regions = [''us''],
     db_replicas = [demo_row 1, (demo_row 2)\<lparr>rr_DeploymentID := 2, rr_HostID := None, rr_VolumeID := Some 5,
       rr_Phase := ReplicaPhasePending, rr_Healthy := False\<rparr>],
     db_served = [], db_services = [\<lparr>svc_ID = 1, svc_ProjectName = ''p'', svc_Name = ''s'', svc_Stateful = False, svc_CreatedAt = 1\<rparr>],
     db_volumes = [demo_volumeRow 5],
     db_leases = [\<lparr>vl_VolumeID = 5, vl_ReplicaID = 1, vl_ExpiresAt = 500, vl_AcquiredAt = 50\<rparr>],
     db_now = 100, db_gen = (\<lambda>n. 77), db_next = 0\<rparr>"

lemmas demo_db_defs = demo_db_def demo_row_def demo_deployment_def demo_hostRow_def demo_volumeRow_def

lemma demo_db_wf: "db_wf demo_db"
  by (simp add: demo_db_defs db_wf_def keys_ok_def one_current_def refs_ok_def replica_refs_def rows_ok_def
      replica_ok_def ReplicaPhase_Valid_def host_row_ok_def HostStatus_Valid_def volume_ok_def placed_status_def)

lemma demo_db_capacity: "capacity_ok demo_db"
  by (simp add: demo_db_defs capacity_ok_def liveRow_def)

definition demo_assign :: Intent where
  "demo_assign = (mkIntent IntentAssignHost)\<lparr>it_ReplicaID := 2, it_HostID := 9\<rparr>"

lemma demo_assign_ok: "commit_intent dbTx 100 demo_assign demo_db = Inr ((), snd (q_ReserveReplicaOnHost 2 9 demo_db))"
  by (simp add: commit_intent_def demo_assign_def op_seq_Inr AssignReplicaHost_Inr)
    (simp add: demo_db_defs reservable_def liveRow_def)

theorem commit_keeps_capacity_witness: "capacity_ok (snd (q_ReserveReplicaOnHost 2 9 demo_db))"
  using commit_keeps_capacity [OF demo_db_wf demo_db_capacity demo_assign_ok] by (simp add: demo_assign_def)

section \<open>A pass keeps the schema's constraints\<close>

text \<open>
  C12: Applying any list of intents keeps the database sound - keys and foreign keys, one current
  deployment per service, draining replicas stamped, placed volumes with a host - whatever other
  writers that keep it sound commit between the transactions of the pass, and whether the pass
  finishes or stops at a storage error.
\<close>
theorem apply_keeps_schema:
  assumes "db_wf db" and "\<forall>k s. db_wf s \<longrightarrow> db_wf (env k s)"
  shows "db_wf (snd (snd (Apply dbTx env clock intents (k, db))))"
  using run_keepsD [OF db_tx.Apply_keeps, of env "(k, db)" clock intents] assms
  by (metis env_keeps_def prod.collapse snd_conv)

theorem apply_keeps_schema_witness: "db_wf (snd (snd (Apply dbTx (\<lambda>_ s. s) (\<lambda>_. 100) [demo_assign] (0, demo_db))))"
  by (rule apply_keeps_schema [OF demo_db_wf]) simp

section \<open>Lost races\<close>

lemma dropConflict_not_conflict: "dropConflict r \<noteq> Inl ErrConflict"
  by (auto simp: dropConflict_def split: sum.splits)

lemma applyLoop_error:
  "applyLoop tx env clock its batches ks = (Inl e, ks') \<Longrightarrow> e \<noteq> ErrConflict"
proof (induction its arbitrary: batches ks)
  case (Cons it its)
  obtain r1 ks1 where w: "applyOne tx env clock it ks = (r1, ks1)" by (cases "applyOne tx env clock it ks")
  have "r1 \<noteq> Inl ErrConflict"
    using w dropConflict_not_conflict by (auto simp: applyOne_def split: if_splits prod.splits)
  with Cons w show ?case by (auto split: if_splits sum.splits)
qed simp

lemma applyBatches_error:
  "applyBatches tx env bs ks = (Inl e, ks') \<Longrightarrow> e \<noteq> ErrConflict"
proof (induction bs arbitrary: ks)
  case (Cons b bs)
  obtain s batch where b: "b = (s, batch)" by (cases b)
  obtain r1 ks1 where w: "applySwitchBatch tx env batch ks = (r1, ks1)" by (cases "applySwitchBatch tx env batch ks")
  have "r1 \<noteq> Inl ErrConflict"
    using w dropConflict_not_conflict by (auto simp: applySwitchBatch_def split: prod.splits)
  with Cons w show ?case by (auto simp: b split: sum.splits)
qed simp

text \<open>
  A lost race never fails a pass: on any store and under any interference, the error of a pass,
  if it has one, is not the conflict error - so only real storage failures count towards the
  engine's limit of consecutive failures.
\<close>
theorem apply_drops_conflicts:
  "fst (Apply tx env clock intents ks) \<noteq> Inl ErrConflict"
proof -
  obtain r1 ks1 where w: "applyLoop tx env clock intents [] ks = (r1, ks1)"
    by (cases "applyLoop tx env clock intents [] ks")
  show ?thesis
  proof (cases r1)
    case (Inl e)
    with w show ?thesis using applyLoop_error [OF w [unfolded Inl]] by (simp add: Apply_def)
  next
    case (Inr bs)
    obtain r2 ks2 where w2: "applyBatches tx env bs ks1 = (r2, ks2)" by (cases "applyBatches tx env bs ks1")
    have "r2 \<noteq> Inl ErrConflict" using applyBatches_error w2 by blast
    then show ?thesis by (simp add: Apply_def w Inr w2)
  qed
qed

section \<open>The single-writer lease\<close>

text \<open>
  C11: A live lease never changes hands. If a different replica holds an unexpired lease on the
  volume, acquiring it reports a conflict and changes nothing; and when an acquisition succeeds, the
  volume's lease is held by the acquirer until the requested instant and every other volume's lease
  is untouched.
\<close>
theorem lease_single_writer:
  assumes "db_wf db"
  shows "(\<forall>l \<in> set (db_leases db). vl_VolumeID l = v \<and> vl_ExpiresAt l > db_now db \<and> vl_ReplicaID l \<noteq> i
      \<longrightarrow> AcquireVolumeLease v i t db = Inl ErrConflict)
    \<and> (\<forall>db'. AcquireVolumeLease v i t db = Inr ((), db') \<longrightarrow>
         filter (\<lambda>l. vl_VolumeID l = v) (db_leases db') = [\<lparr>vl_VolumeID = v, vl_ReplicaID = i, vl_ExpiresAt = t, vl_AcquiredAt = db_now db\<rparr>]
         \<and> filter (\<lambda>l. vl_VolumeID l \<noteq> v) (db_leases db') = filter (\<lambda>l. vl_VolumeID l \<noteq> v) (db_leases db))"
proof -
  have d: "distinct (map vl_VolumeID (db_leases db))" by (rule db_wf_rows(2) [OF assms])
  have hit: "find (\<lambda>l. vl_VolumeID l = v) (db_leases db) = Some l" if "l \<in> set (db_leases db)" "vl_VolumeID l = v" for l
    using find_key [OF d that(1)] that(2) by simp
  have conflict: "AcquireVolumeLease v i t db = Inl ErrConflict"
    if "l \<in> set (db_leases db)" "vl_VolumeID l = v" "vl_ExpiresAt l > db_now db" "vl_ReplicaID l \<noteq> i" for l
    using that by (simp add: AcquireVolumeLease_def orConflict_Inl q_AcquireVolumeLease_def Let_def hit [OF that(1,2)])
  have ok: "filter (\<lambda>l. vl_VolumeID l = v) (db_leases db') = [\<lparr>vl_VolumeID = v, vl_ReplicaID = i, vl_ExpiresAt = t, vl_AcquiredAt = db_now db\<rparr>]
      \<and> filter (\<lambda>l. vl_VolumeID l \<noteq> v) (db_leases db') = filter (\<lambda>l. vl_VolumeID l \<noteq> v) (db_leases db)"
    if "AcquireVolumeLease v i t db = Inr ((), db')" for db'
  proof (cases "find (\<lambda>l. vl_VolumeID l = v) (db_leases db)")
    case None
    then have "filter (\<lambda>l. vl_VolumeID l = v) (db_leases db) = []" by (auto simp: find_None_iff filter_empty_conv)
    with None that show ?thesis
      by (auto simp: AcquireVolumeLease_def orConflict_Inr q_AcquireVolumeLease_def Let_def split: if_splits)
  next
    case (Some l)
    then have l: "v \<in> vl_VolumeID ` set (db_leases db)" by (auto dest: find_Some_set)
    let ?n = "\<lparr>vl_VolumeID = v, vl_ReplicaID = i, vl_ExpiresAt = t, vl_AcquiredAt = db_now db\<rparr>"
    have "db_leases db' = map (\<lambda>l. if vl_VolumeID l = v then ?n else l) (db_leases db)"
      using Some that by (auto simp: AcquireVolumeLease_def orConflict_Inr q_AcquireVolumeLease_def Let_def split: if_splits)
    then show ?thesis
      using filter_key_update [where n = ?n, OF _ d l] by (simp add: filter_other_update)
  qed
  from conflict ok show ?thesis by blast
qed

theorem lease_single_writer_witness: "AcquireVolumeLease 5 2 900 demo_db = Inl ErrConflict"
  using lease_single_writer [OF demo_db_wf, of 5 2 900] by (simp add: demo_db_def)

section \<open>Traffic switches\<close>

definition drainRow :: "time \<Rightarrow> ReplicaRow \<Rightarrow> ReplicaRow" where
  "drainRow now r = replicaTrigger now r
     (r\<lparr>rr_Phase := ReplicaPhaseDraining, rr_DrainedAt := Some now, rr_Revision := rr_Revision r + 1\<rparr>)"

lemma drainRow_simps [simp]:
  "rr_ID (drainRow now r) = rr_ID r" "rr_Phase (drainRow now r) = ReplicaPhaseDraining"
  "rr_DrainedAt (drainRow now r) = Some now"
  by (simp_all add: drainRow_def)

lemma SetReplicaPhase_drain:
  assumes "distinct (map rr_ID (db_replicas s))" "SetReplicaPhase i ReplicaPhaseDraining rv s = Inr (x, s')"
  shows "(\<exists>r \<in> set (db_replicas s). rr_ID r = i \<and> rr_Revision r = rv)
    \<and> s' = s\<lparr>db_replicas := map (\<lambda>r. if rr_ID r = i then drainRow (db_now s) r else r) (db_replicas s)\<rparr>"
proof -
  from assms(2) obtain r0 where r0: "r0 \<in> set (db_replicas s)" "rr_ID r0 = i" "rr_Revision r0 = rv"
    and s': "s' = snd (q_SetReplicaPhase i ReplicaPhaseDraining rv s)"
    unfolding SetReplicaPhase_Inr by blast
  have "r = r0" if "r \<in> set (db_replicas s)" "rr_ID r = i" for r
    using assms(1) r0(1,2) that by (auto simp: distinct_map inj_on_def)
  then have "map (\<lambda>r. if rr_ID r = i \<and> rr_Revision r = rv then drainRow (db_now s) r else r) (db_replicas s)
      = map (\<lambda>r. if rr_ID r = i then drainRow (db_now s) r else r) (db_replicas s)"
    using r0(3) by (intro map_cong refl) metis
  moreover have "s' = s\<lparr>db_replicas := map (\<lambda>r. if rr_ID r = i \<and> rr_Revision r = rv then drainRow (db_now s) r else r) (db_replicas s)\<rparr>"
    by (simp add: s' q_SetReplicaPhase_def drainRow_def)
  ultimately have "s' = s\<lparr>db_replicas := map (\<lambda>r. if rr_ID r = i then drainRow (db_now s) r else r) (db_replicas s)\<rparr>"
    by (simp only:)
  with r0 show ?thesis by blast
qed

lemma each_drain:
  assumes "op_each (\<lambda>it. SetReplicaPhase (it_ReplicaID it) ReplicaPhaseDraining (it_Revision it)) its s = Inr (x, s')"
    and "distinct (map rr_ID (db_replicas s))" and "distinct (map it_ReplicaID its)"
  shows "(\<forall>it \<in> set its. \<exists>r \<in> set (db_replicas s). rr_ID r = it_ReplicaID it \<and> rr_Revision r = it_Revision it)
    \<and> s' = s\<lparr>db_replicas := map (\<lambda>r. if rr_ID r \<in> it_ReplicaID ` set its then drainRow (db_now s) r else r) (db_replicas s)\<rparr>"
  using assms
proof (induction its arbitrary: s)
  case (Cons it its)
  let ?u = "\<lambda>r. if rr_ID r = it_ReplicaID it then drainRow (db_now s) r else r"
  obtain s1 where first: "SetReplicaPhase (it_ReplicaID it) ReplicaPhaseDraining (it_Revision it) s = Inr ((), s1)"
    and rest: "op_each (\<lambda>it. SetReplicaPhase (it_ReplicaID it) ReplicaPhaseDraining (it_Revision it)) its s1 = Inr (x, s')"
    using Cons.prems(1) by (auto simp: op_seq_Inr)
  note f = SetReplicaPhase_drain [OF Cons.prems(2) first]
  have s1: "s1 = s\<lparr>db_replicas := map ?u (db_replicas s)\<rparr>" using f by blast
  have "map rr_ID (map ?u (db_replicas s)) = map rr_ID (db_replicas s)" by simp
  then have d1: "distinct (map rr_ID (db_replicas s1))"
    using Cons.prems(2) by (simp del: map_map add: s1)
  have IH: "(\<forall>it \<in> set its. \<exists>r \<in> set (db_replicas s1). rr_ID r = it_ReplicaID it \<and> rr_Revision r = it_Revision it)
    \<and> s' = s1\<lparr>db_replicas := map (\<lambda>r. if rr_ID r \<in> it_ReplicaID ` set its then drainRow (db_now s1) r else r) (db_replicas s1)\<rparr>"
    using Cons.IH [OF rest d1] Cons.prems(3) by simp
  have fresh: "it_ReplicaID it \<notin> it_ReplicaID ` set its"
    using Cons.prems(3) by simp
  have "\<exists>r \<in> set (db_replicas s). rr_ID r = it_ReplicaID j \<and> rr_Revision r = it_Revision j" if j: "j \<in> set its" for j
  proof -
    obtain r where r: "r \<in> set (db_replicas s1)" "rr_ID r = it_ReplicaID j" "rr_Revision r = it_Revision j"
      using IH j by blast
    then obtain r' where r': "r' \<in> set (db_replicas s)" "r = ?u r'" by (auto simp: s1)
    have "it_ReplicaID j \<noteq> it_ReplicaID it" using fresh j by (metis image_eqI)
    moreover have "rr_ID r = rr_ID r'" unfolding r'(2) by simp
    ultimately have "rr_ID r' \<noteq> it_ReplicaID it" using r(2) by metis
    then have "?u r' = r'" by (rule if_not_P)
    then have "r = r'" by (rule trans [OF r'(2)])
    with r(2,3) r'(1) show ?thesis by blast
  qed
  moreover have "s' = s\<lparr>db_replicas := map (\<lambda>r. if rr_ID r \<in> it_ReplicaID ` set (it # its) then drainRow (db_now s) r else r) (db_replicas s)\<rparr>"
  proof -
    have "map (\<lambda>r. if rr_ID r \<in> it_ReplicaID ` set its then drainRow (db_now s) r else r) (map ?u (db_replicas s))
        = map (\<lambda>r. if rr_ID r \<in> it_ReplicaID ` set (it # its) then drainRow (db_now s) r else r) (db_replicas s)"
      unfolding map_map o_def by (rule map_cong) (use fresh in \<open>auto split: if_splits\<close>)
    moreover note IH [THEN conjunct2]
    moreover have "db_now s1 = db_now s" "db_replicas s1 = map ?u (db_replicas s)" by (simp_all add: s1)
    ultimately have "s' = s1\<lparr>db_replicas := map (\<lambda>r. if rr_ID r \<in> it_ReplicaID ` set (it # its) then drainRow (db_now s) r else r) (db_replicas s)\<rparr>"
      by (simp only:)
    then show ?thesis by (simp add: s1)
  qed
  ultimately show ?case using f by simp
qed simp

lemma served_upsert:
  assumes "distinct (map (\<lambda>s. (sr_EnvironmentServiceID s, sr_Region s)) rows)"
  shows "filter (\<lambda>s. (sr_EnvironmentServiceID s, sr_Region s) = (e, r)) (upsertServed e r d now rows)
    = [\<lparr>sr_EnvironmentServiceID = e, sr_Region = r, sr_DeploymentID = d, sr_UpdatedAt = now\<rparr>]"
proof (cases "list_ex (\<lambda>s. sr_EnvironmentServiceID s = e \<and> sr_Region s = r) rows")
  case True
  then have "(e, r) \<in> (\<lambda>s. (sr_EnvironmentServiceID s, sr_Region s)) ` set rows"
    by (force simp: list_ex_iff)
  from filter_key_update [where key = "\<lambda>s. (sr_EnvironmentServiceID s, sr_Region s)" and k = "(e, r)"
      and n = "\<lparr>sr_EnvironmentServiceID = e, sr_Region = r, sr_DeploymentID = d, sr_UpdatedAt = now\<rparr>", OF _ assms this]
  show ?thesis using True by (simp add: upsertServed_def Let_def)
next
  case False
  then have "filter (\<lambda>s. sr_EnvironmentServiceID s = e \<and> sr_Region s = r) rows = []"
    by (auto simp: list_ex_iff filter_empty_conv)
  with False show ?thesis by (simp add: upsertServed_def Let_def)
qed

text \<open>
  C9: Switching traffic is all or nothing. Committing a slot's switch either leaves the database as
  it was, or every replica of the batch was at the revision the pass saw and is now draining with its
  drain stamped, every other replica is untouched, and the slot's traffic pointer names the new
  deployment - or, for a slot that no deployment declares any more, is gone.
\<close>
theorem switch_batch_atomic:
  assumes "db_wf (env k db)" and "batch \<noteq> []" and "distinct (map it_ReplicaID batch)"
    and "applySwitchBatch dbTx env batch (k, db) = (res, (k', db'))"
  shows "db' = env k db \<or>
    ((\<forall>it \<in> set batch. \<exists>r \<in> set (db_replicas (env k db)). rr_ID r = it_ReplicaID it \<and> rr_Revision r = it_Revision it)
     \<and> db_replicas db' = map (\<lambda>r. if rr_ID r \<in> it_ReplicaID ` set batch then drainRow (db_now (env k db)) r else r) (db_replicas (env k db))
     \<and> map sr_DeploymentID (filter (\<lambda>s. (sr_EnvironmentServiceID s, sr_Region s)
           = (rs_EnvironmentServiceID (it_Group (hd batch)), rs_Region (it_Group (hd batch)))) (db_served db'))
       = (if it_DeploymentID (hd batch) = uuid_Nil then [] else [it_DeploymentID (hd batch)]))"
proof (cases "commitSwitchBatch dbTx batch (env k db)")
  case (Inl e)
  then show ?thesis
    using assms(4) by (auto simp: applySwitchBatch_def WithTx_def)
next
  case (Inr p)
  let ?s = "env k db"
  have com: "commitSwitchBatch dbTx batch ?s = Inr ((), db')"
    using assms(4) Inr by (auto simp: applySwitchBatch_def WithTx_def split: prod.splits)
  then obtain s1 where s1: "op_each (\<lambda>it. SetReplicaPhase (it_ReplicaID it) ReplicaPhaseDraining (it_Revision it)) batch ?s = Inr ((), s1)"
    and ptr: "if it_DeploymentID (hd batch) = uuid_Nil
       then ClearServedRevision (rs_EnvironmentServiceID (it_Group (hd batch))) (rs_Region (it_Group (hd batch))) s1 = Inr ((), db')
       else SetServedRevision (rs_EnvironmentServiceID (it_Group (hd batch))) (rs_Region (it_Group (hd batch))) (it_DeploymentID (hd batch)) s1 = Inr ((), db')"
    by (auto simp: commitSwitchBatch_def op_seq_Inr Let_def split: if_splits)
  note dr = each_drain [OF s1 db_wf_rows(1) [OF assms(1)] assms(3)]
  have "db_served s1 = db_served ?s" using dr by simp
  then have keys: "distinct (map (\<lambda>s. (sr_EnvironmentServiceID s, sr_Region s)) (db_served s1))"
    using assms(1) by (simp add: db_wf_def keys_ok_def)
  have rows: "db_replicas db' = db_replicas s1"
    using ptr by (auto simp: ClearServedRevision_def SetServedRevision_def op_seq_Inr split: if_splits)
  have served: "map sr_DeploymentID (filter (\<lambda>s. (sr_EnvironmentServiceID s, sr_Region s)
           = (rs_EnvironmentServiceID (it_Group (hd batch)), rs_Region (it_Group (hd batch)))) (db_served db'))
       = (if it_DeploymentID (hd batch) = uuid_Nil then [] else [it_DeploymentID (hd batch)])"
    using ptr served_upsert [OF keys, of "rs_EnvironmentServiceID (it_Group (hd batch))" "rs_Region (it_Group (hd batch))"]
    by (auto simp: ClearServedRevision_def SetServedRevision_def op_seq_Inr filter_empty_conv split: if_splits)
  show ?thesis
    using dr served by (auto simp: rows)
qed

definition demo_switchIntent :: Intent where
  "demo_switchIntent = (mkIntent IntentDrain)\<lparr>it_Group := \<lparr>rs_EnvironmentServiceID = 1, rs_Region = ''us''\<rparr>,
     it_ReplicaID := 1, it_Revision := 7, it_DeploymentID := 2, it_SwitchTraffic := True\<rparr>"

lemma demo_switch_run: "map sr_DeploymentID (db_served (snd (snd (applySwitchBatch dbTx (\<lambda>_ s. s) [demo_switchIntent] (0, demo_db))))) = [2]"
  by code_simp

theorem switch_batch_atomic_witness:
  "map rr_Phase (db_replicas (snd (snd (applySwitchBatch dbTx (\<lambda>_ s. s) [demo_switchIntent] (0, demo_db)))))
     = [ReplicaPhaseDraining, ReplicaPhasePending]"
proof -
  obtain res k' db' where run: "applySwitchBatch dbTx (\<lambda>_ s. s) [demo_switchIntent] (0, demo_db) = (res, (k', db'))"
    by (cases "applySwitchBatch dbTx (\<lambda>_ s. s) [demo_switchIntent] (0, demo_db)") auto
  have "db_served demo_db = []" by (simp add: demo_db_def)
  then have "db' \<noteq> demo_db" using demo_switch_run by (auto simp: run)
  with switch_batch_atomic [OF demo_db_wf _ _ run]
  have "db_replicas db' = map (\<lambda>r. if rr_ID r \<in> {1} then drainRow 100 r else r) (db_replicas demo_db)"
    by (simp add: demo_switchIntent_def) (simp add: demo_db_def)
  then show ?thesis by (simp add: run) (simp add: demo_db_def demo_row_def)
qed

end
