(* ===== verification/Snapshot.thy ===== *)
theory Snapshot
  imports Reconcile ActuatorCorrect
begin

text \<open>
  The read side of a pass: the four whole-fleet queries of \<^verbatim>\<open>internal/storage/db/snapshot.sql.go\<close>,
  their mapping into the engine's own types (\<^verbatim>\<open>internal/engine/snapshot.go\<close>), and the pass itself
  (\<^verbatim>\<open>Engine.reconcile\<close>). The queries run in one REPEATABLE READ transaction, so they read one state
  of the database. A join lists the rows of its first table in table order; a query without ORDER BY
  may return any permutation of its rows, and nothing proved below depends on the one chosen.
\<close>

section \<open>The queries\<close>

record SnapshotDesiredRow =
  sd_EnvironmentServiceID :: uuid
  sd_DeploymentID :: uuid
  sd_ServiceID :: uuid
  sd_Region :: string
  sd_DesiredReplicas :: int
  sd_CpuMillicores :: int
  sd_MemBytes :: int
  sd_RestartMax :: int
  sd_ProgressDeadline :: int
  sd_Status :: DeploymentStatus
  sd_Stateful :: bool

definition SnapshotDesired :: "database \<Rightarrow> SnapshotDesiredRow list" where
  "SnapshotDesired db =
     [\<lparr>sd_EnvironmentServiceID = dep_EnvironmentServiceID d, sd_DeploymentID = dep_ID d, sd_ServiceID = svc_ID svc,
        sd_Region = dr_Region dr, sd_DesiredReplicas = dr_Replicas dr, sd_CpuMillicores = dep_CpuMillicores d,
        sd_MemBytes = dep_MemBytes d, sd_RestartMax = dep_RestartMax d, sd_ProgressDeadline = dep_ProgressDeadline d,
        sd_Status = dep_Status d, sd_Stateful = svc_Stateful svc\<rparr>.
      d \<leftarrow> db_deployments db, dep_IsCurrent d,
      dr \<leftarrow> db_deploymentRegions db, dr_DeploymentID dr = dep_ID d,
      es \<leftarrow> db_environmentServices db, es_ID es = dep_EnvironmentServiceID d,
      svc \<leftarrow> db_services db, svc_ID svc = es_ServiceID es]"

record ListActiveReplicasRow =
  ar_Replica :: ReplicaRow
  ar_EnvironmentServiceID :: uuid
  ar_ServiceID :: uuid
  ar_Version :: int
  ar_IsCurrent :: bool
  ar_DrainSeconds :: int
  ar_HostDraining :: bool

text \<open>\<^verbatim>\<open>LEFT JOIN hosts ... coalesce(h.status = 'draining', false)\<close>: at most one host has the row's ID.\<close>

definition hostDraining :: "database \<Rightarrow> ReplicaRow \<Rightarrow> bool" where
  "hostDraining db r = (case rr_HostID r of None \<Rightarrow> False
     | Some hid \<Rightarrow> list_ex (\<lambda>h. hr_ID h = hid \<and> hr_Status h = HostDraining) (db_hosts db))"

definition ListActiveReplicas :: "database \<Rightarrow> ListActiveReplicasRow list" where
  "ListActiveReplicas db =
     [\<lparr>ar_Replica = r, ar_EnvironmentServiceID = dep_EnvironmentServiceID d, ar_ServiceID = es_ServiceID es,
        ar_Version = dep_Version d, ar_IsCurrent = dep_IsCurrent d, ar_DrainSeconds = dep_DrainSeconds d,
        ar_HostDraining = hostDraining db r\<rparr>.
      r \<leftarrow> db_replicas db, rr_Phase r \<noteq> ReplicaPhaseReaped,
      d \<leftarrow> db_deployments db, dep_ID d = rr_DeploymentID r,
      es \<leftarrow> db_environmentServices db, es_ID es = dep_EnvironmentServiceID d,
      list_ex (\<lambda>c. dep_EnvironmentServiceID c = dep_EnvironmentServiceID d \<and> dep_IsCurrent c) (db_deployments db)]"

definition ListHealthyHosts :: "database \<Rightarrow> HostRow list" where
  "ListHealthyHosts db = filter hr_HostHealthy (db_hosts db)"

definition ListActiveVolumes :: "database \<Rightarrow> VolumeRow list" where
  "ListActiveVolumes db = sort_by (uuidCmp vr_ID)
     [v. v \<leftarrow> db_volumes db, d \<leftarrow> db_deployments db, dep_EnvironmentServiceID d = vr_EnvironmentServiceID v \<and> dep_IsCurrent d]"

section \<open>Into the engine's types\<close>

text \<open>\<^verbatim>\<open>storage.SizingOf\<close>: a NULL observed size reads as zero.\<close>

definition SizingOf :: "VolumeRow \<Rightarrow> VolumeSizing" where
  "SizingOf v = \<lparr>vs_Status = vr_Status v, vs_Desired = vr_DesiredSizeBytes v,
     vs_Observed = (case vr_ObservedSizeBytes v of None \<Rightarrow> 0 | Some n \<Rightarrow> n)\<rparr>"

definition desiredOf :: "SnapshotDesiredRow \<Rightarrow> desiredState" where
  "desiredOf d = \<lparr>ds_Slot = \<lparr>rs_EnvironmentServiceID = sd_EnvironmentServiceID d, rs_Region = sd_Region d\<rparr>,
     ds_DeploymentID = sd_DeploymentID d, ds_Replicas = sd_DesiredReplicas d, ds_CPUMillicores = sd_CpuMillicores d,
     ds_MemBytes = sd_MemBytes d, ds_RestartMax = sd_RestartMax d, ds_ProgressDeadline = sd_ProgressDeadline d,
     ds_Status = sd_Status d, ds_Stateful = sd_Stateful d\<rparr>"

definition replicaOfRow :: "ListActiveReplicasRow \<Rightarrow> replica" where
  "replicaOfRow a = (let r = ar_Replica a in
     \<lparr>r_ID = rr_ID r, r_DeploymentID = rr_DeploymentID r,
      r_Slot = \<lparr>rs_EnvironmentServiceID = ar_EnvironmentServiceID a, rs_Region = rr_Region r\<rparr>,
      r_HostID = UUID (rr_HostID r), r_VolumeID = UUID (rr_VolumeID r), r_CPUMillicores = rr_CpuMillicores r,
      r_MemBytes = rr_MemBytes r, r_DesiredStatus = rr_DesiredStatus r, r_Phase = rr_Phase r,
      r_Healthy = rr_Healthy r, r_RestartCount = rr_RestartCount r, r_DrainSeconds = ar_DrainSeconds a,
      r_DrainedAt = Null_Time (rr_DrainedAt r), r_HealthChecksPassedAt = Null_Time (rr_HealthChecksPassedAt r),
      r_CreatedAt = rr_CreatedAt r, r_Revision = rr_Revision r, r_Version = ar_Version a,
      r_Current = ar_IsCurrent a, r_HostDraining = (ar_HostDraining a \<and> rr_VolumeID r = None)\<rparr>)"

definition hostOf :: "HostRow \<Rightarrow> host" where
  "hostOf h = \<lparr>h_ID = hr_ID h, h_Region = hr_Region h, h_CPUMillicores = hr_CpuMillicores h,
     h_MemBytes = hr_MemBytes h, h_DiskBytes = hr_DiskBytes h, h_Open = (hr_Status h = HostOpen)\<rparr>"

definition volumeOfRow :: "VolumeRow \<Rightarrow> volume" where
  "volumeOfRow v = \<lparr>v_ID = vr_ID v,
     v_Slot = \<lparr>rs_EnvironmentServiceID = vr_EnvironmentServiceID v, rs_Region = vr_Region v\<rparr>,
     v_HostID = UUID (vr_HostID v), v_Sizing = SizingOf v\<rparr>"

definition newStateSnapshot ::
  "time \<Rightarrow> SnapshotDesiredRow list \<Rightarrow> ListActiveReplicasRow list \<Rightarrow> HostRow list \<Rightarrow> VolumeRow list \<Rightarrow> stateSnapshot" where
  "newStateSnapshot now desired replicas hosts volumes =
     \<lparr>sn_observedAt = now, sn_desired = map desiredOf desired, sn_replicas = map replicaOfRow replicas,
      sn_hosts = map hostOf hosts, sn_volumes = map volumeOfRow volumes\<rparr>"

definition loadSnapshot :: "time \<Rightarrow> database \<Rightarrow> stateSnapshot" where
  "loadSnapshot now db =
     newStateSnapshot now (SnapshotDesired db) (ListActiveReplicas db) (ListHealthyHosts db) (ListActiveVolumes db)"

text \<open>
  One pass of \<^verbatim>\<open>Engine.reconcile\<close>, its orders and placement fixed by \<open>plan\<close>: snapshot, decide, apply.
  A failed snapshot read is the store's failure, before anything is decided; it is left to the loop.
\<close>

definition reconcile ::
  "(stateSnapshot \<Rightarrow> Intent list) \<Rightarrow> (nat \<Rightarrow> database \<Rightarrow> database) \<Rightarrow> (nat \<Rightarrow> time) \<Rightarrow> time \<Rightarrow> nat \<times> database \<Rightarrow>
   (storeError + unit) \<times> (nat \<times> database)" where
  "reconcile plan env clock now ks = Apply dbTx env clock (plan (loadSnapshot now (snd ks))) ks"

section \<open>A snapshot of a sound database\<close>

text \<open>A join along a key yields at most one row per row of the first table.\<close>

lemma concat_at_most_one:
  assumes "distinct (map key xs)"
    and "\<And>x. x \<in> set xs \<Longrightarrow> length (f x) \<le> 1 \<and> (\<forall>y \<in> set (f x). key' y = key x)"
  shows "distinct (map key' (concat (map f xs)))"
  using assms
proof (induction xs)
  case (Cons x xs)
  have "set (map key' (concat (map f xs))) \<subseteq> key ` set xs"
    using Cons.prems(2) by fastforce
  moreover have "f x = [] \<or> (\<exists>y. f x = [y] \<and> key' y = key x)"
    using Cons.prems(2) [of x] by (cases "f x") (auto simp: Suc_le_eq)
  moreover have "key x \<notin> key ` set xs" and "distinct (map key' (concat (map f xs)))"
    using Cons by simp_all
  ultimately have "key x \<notin> set (map key' (concat (map f xs)))"
    and "f x = [] \<or> (\<exists>y. f x = [y] \<and> key' y = key x)" by blast+
  then show ?case
    using \<open>distinct (map key' (concat (map f xs)))\<close> by (elim disjE exE) (simp_all del: map_concat set_map)
qed simp

lemma length_concat_one:
  assumes "distinct (map key xs)" and "\<And>x. length (f x) \<le> 1"
  shows "length (concat (map (\<lambda>x. if key x = k then f x else []) xs)) \<le> 1"
  using assms(1)
proof (induction xs)
  case (Cons x xs)
  show ?case
  proof (cases "key x = k")
    case True
    with Cons.prems have "\<forall>y \<in> set xs. key y \<noteq> k"
      by (auto simp: image_iff)
    then have "concat (map (\<lambda>x. if key x = k then f x else []) xs) = []"
      by simp
    with True assms(2) [of x] show ?thesis by (simp del: concat_eq_Nil_conv)
  next
    case False
    with Cons show ?thesis by simp
  qed
qed simp

lemma distinct_active_replicas:
  assumes "db_wf db"
  shows "distinct (map (rr_ID \<circ> ar_Replica) (ListActiveReplicas db))"
proof -
  have keys: "distinct (map rr_ID (db_replicas db))" "distinct (map dep_ID (db_deployments db))"
    "distinct (map es_ID (db_environmentServices db))"
    using assms by (auto simp: db_wf_def keys_ok_def)
  let ?es = "\<lambda>r d. concat (map (\<lambda>es. if es_ID es = dep_EnvironmentServiceID d then
      (if list_ex (\<lambda>c. dep_EnvironmentServiceID c = dep_EnvironmentServiceID d \<and> dep_IsCurrent c) (db_deployments db)
       then [\<lparr>ar_Replica = r, ar_EnvironmentServiceID = dep_EnvironmentServiceID d, ar_ServiceID = es_ServiceID es,
        ar_Version = dep_Version d, ar_IsCurrent = dep_IsCurrent d, ar_DrainSeconds = dep_DrainSeconds d,
        ar_HostDraining = hostDraining db r\<rparr>] else []) else []) (db_environmentServices db))"
  let ?dep = "\<lambda>r. concat (map (\<lambda>d. if dep_ID d = rr_DeploymentID r then ?es r d else []) (db_deployments db))"
  have es: "length (?es r d) \<le> 1" for r d
    by (rule length_concat_one [OF keys(3)]) simp
  have dep: "length (?dep r) \<le> 1" for r
    by (rule length_concat_one [OF keys(2) es])
  have "length (if rr_Phase r \<noteq> ReplicaPhaseReaped then ?dep r else []) \<le> 1
      \<and> (\<forall>a \<in> set (if rr_Phase r \<noteq> ReplicaPhaseReaped then ?dep r else []). (rr_ID \<circ> ar_Replica) a = rr_ID r)" for r
    using dep [of r] by (auto split: if_splits)
  from concat_at_most_one [OF keys(1) this] show ?thesis
    unfolding ListActiveReplicas_def .
qed

lemma distinct_active_volumes:
  assumes "db_wf db"
  shows "distinct (map vr_ID (ListActiveVolumes db))"
proof -
  let ?J = "[v. v \<leftarrow> db_volumes db, d \<leftarrow> db_deployments db, dep_EnvironmentServiceID d = vr_EnvironmentServiceID v \<and> dep_IsCurrent d]"
  have one: "length (concat (map (\<lambda>d. if dep_EnvironmentServiceID d = e \<and> dep_IsCurrent d then [v] else []) ds)) \<le> 1"
    if "distinct (map dep_EnvironmentServiceID (filter dep_IsCurrent ds))" for e ds and v :: VolumeRow
    using that
  proof (induction ds)
    case (Cons d ds)
    show ?case
    proof (cases "dep_EnvironmentServiceID d = e \<and> dep_IsCurrent d")
      case True
      with Cons.prems have "\<forall>x \<in> set ds. \<not> (dep_EnvironmentServiceID x = e \<and> dep_IsCurrent x)"
        by (auto simp: image_iff)
      then have "concat (map (\<lambda>d. if dep_EnvironmentServiceID d = e \<and> dep_IsCurrent d then [v] else []) ds) = []"
        by auto
      with True show ?thesis by (simp del: concat_eq_Nil_conv)
    next
      case False
      with Cons.prems have "distinct (map dep_EnvironmentServiceID (filter dep_IsCurrent ds))"
        by (simp split: if_splits)
      from Cons.IH [OF this] False show ?thesis by (simp only: list.map concat.simps if_False append.simps)
    qed
  qed simp
  have "distinct (map dep_EnvironmentServiceID (filter dep_IsCurrent (db_deployments db)))"
    using assms by (simp add: db_wf_def one_current_def)
  note one = one [OF this]
  have "length (concat (map (\<lambda>d. if dep_EnvironmentServiceID d = vr_EnvironmentServiceID v \<and> dep_IsCurrent d then [v] else []) (db_deployments db))) \<le> 1
      \<and> (\<forall>w \<in> set (concat (map (\<lambda>d. if dep_EnvironmentServiceID d = vr_EnvironmentServiceID v \<and> dep_IsCurrent d then [v] else []) (db_deployments db))).
           vr_ID w = vr_ID v)" for v :: VolumeRow
    by (rule conjI [OF one]) (simp add: image_iff)
  from concat_at_most_one [OF db_wf_rows(8) [OF assms] this] have "distinct (map vr_ID ?J)" .
  moreover have "mset (map vr_ID (ListActiveVolumes db)) = mset (map vr_ID ?J)"
    by (simp only: ListActiveVolumes_def mset_map mset_sort_by)
  ultimately show ?thesis
    using mset_eq_imp_distinct_iff [of "map vr_ID (ListActiveVolumes db)" "map vr_ID ?J"] by (simp only:)
qed

lemma replicaOfRow_simps [simp]:
  "r_ID (replicaOfRow a) = rr_ID (ar_Replica a)" "r_HostID (replicaOfRow a) = UUID (rr_HostID (ar_Replica a))"
  "r_Phase (replicaOfRow a) = rr_Phase (ar_Replica a)" "r_DrainedAt (replicaOfRow a) = Null_Time (rr_DrainedAt (ar_Replica a))"
  "r_DrainSeconds (replicaOfRow a) = ar_DrainSeconds a"
  by (simp_all add: replicaOfRow_def Let_def)

lemma loadSnapshot_simps [simp]:
  "sn_observedAt (loadSnapshot now db) = now"
  "sn_replicas (loadSnapshot now db) = map replicaOfRow (ListActiveReplicas db)"
  "sn_hosts (loadSnapshot now db) = map hostOf (ListHealthyHosts db)"
  "sn_volumes (loadSnapshot now db) = map volumeOfRow (ListActiveVolumes db)"
  "sn_desired (loadSnapshot now db) = map desiredOf (SnapshotDesired db)"
  by (simp_all add: loadSnapshot_def newStateSnapshot_def)

lemma loadSnapshot_wf:
  assumes "db_wf db"
  shows "snapshot_wf (loadSnapshot now db)"
proof -
  have "r_ID \<circ> replicaOfRow = rr_ID \<circ> ar_Replica" "h_ID \<circ> hostOf = hr_ID" "v_ID \<circ> volumeOfRow = vr_ID"
    by (auto simp: fun_eq_iff hostOf_def volumeOfRow_def)
  then show ?thesis
    using distinct_active_replicas [OF assms] distinct_active_volumes [OF assms] db_wf_rows(7) [OF assms]
    by (simp add: snapshot_wf_def ListHealthyHosts_def distinct_map_filter)
qed

lemma loadSnapshot_volumes_pos:
  assumes "db_wf db" "v \<in> set (sn_volumes (loadSnapshot now db))"
  shows "0 < vs_Desired (v_Sizing v)"
proof -
  obtain w where "w \<in> set (db_volumes db)" "v = volumeOfRow w"
    using assms(2) by (auto simp: ListActiveVolumes_def split: if_splits)
  with assms(1) show ?thesis
    by (auto simp: db_wf_def rows_ok_def volume_ok_def volumeOfRow_def SizingOf_def)
qed

lemma loadSnapshot_host_wf:
  assumes "db_wf db" "h \<in> set (sn_hosts (loadSnapshot now db))"
  shows "host_wf h"
  using assms by (force simp: ListHealthyHosts_def db_wf_def rows_ok_def host_row_ok_def hostOf_def host_wf_def)

section \<open>What a pass removes\<close>

text \<open>A row of the replicas table is still there.\<close>

definition hasReplica :: "uuid \<Rightarrow> database \<Rightarrow> bool" where
  "hasReplica i db \<longleftrightarrow> i \<in> rr_ID ` set (db_replicas db)"

lemma hasReplica_update:
  assumes "\<And>r. rr_ID (f r) = rr_ID r"
  shows "hasReplica i (snd (updateReplicas P f db)) = hasReplica i db"
proof -
  have "map rr_ID (map (\<lambda>r. if P r then replicaTrigger (db_now db) r (f r) else r) (db_replicas db))
      = map rr_ID (db_replicas db)"
    by (rule map_key_update) (simp add: assms)
  from arg_cong [OF this, of set] show ?thesis
    by (simp only: hasReplica_def updateReplicas_simps list.set_map) simp
qed

lemma hasReplica_fleet: "same_fleet db db' \<Longrightarrow> hasReplica i db' = hasReplica i db"
  by (simp add: hasReplica_def same_fleet_def)

lemma keeps_hasReplica_Create: "op_keeps (hasReplica i) (CreateReplica spec)"
  by (rule op_keepsI) (auto simp: CreateReplica_def freshID_def Let_def hasReplica_def split: if_splits)

lemma keeps_hasReplica_Delete: "j \<noteq> i \<Longrightarrow> op_keeps (hasReplica i) (DeleteReplica j)"
  by (rule op_keepsI) (auto simp: DeleteReplica_def hasReplica_def)

lemma keeps_hasReplica_updates:
  "op_keeps (hasReplica i) (AssignReplicaHost j h)" "op_keeps (hasReplica i) (SetReplicaPhase j p rv)"
  "op_keeps (hasReplica i) (FreezeReplica j)"
  by (rule op_keepsI; simp add: AssignReplicaHost_Inr SetReplicaPhase_Inr FreezeReplica_Inr q_ReserveReplicaOnHost_def
      q_SetReplicaPhase_def q_FreezeReplica_def hasReplica_update del: updateReplicas_simps)+

lemma keeps_hasReplica_fleet:
  "op_keeps (hasReplica i) (AssignVolumeHost v h)" "op_keeps (hasReplica i) (MarkVolumeResizePending v)"
  "op_keeps (hasReplica i) (MarkVolumeResizing v)" "op_keeps (hasReplica i) (MarkVolumeAttached v)"
  "op_keeps (hasReplica i) (AcquireVolumeLease v j t)" "op_keeps (hasReplica i) (ReleaseVolumeLease v)"
  "op_keeps (hasReplica i) (SetDeploymentStatus d st)" "op_keeps (hasReplica i) (SetServedRevision e r d)"
  by (rule op_keepsI, drule same_fleet_ops, simp add: hasReplica_fleet)+

lemma keeps_hasReplica_Clear: "op_keeps (hasReplica i) (ClearServedRevision e r)"
  by (rule op_keepsI) (auto simp: ClearServedRevision_def hasReplica_def)

text \<open>
  The database's operations, except that the deletion of the row \<open>i\<close> is refused: on intents that do not
  destroy \<open>i\<close> it is the same interface, and it keeps the row.
\<close>

definition guardTx :: "uuid \<Rightarrow> database ReconcileTx" where
  "guardTx i = dbTx\<lparr>tx_DeleteReplica := (\<lambda>j. if j = i then op_err ErrDriver else DeleteReplica j)\<rparr>"

interpretation guarded: reconcile_tx "guardTx i" "hasReplica i" for i
  by unfold_locales
    (simp_all add: guardTx_def keeps_hasReplica_Create keeps_hasReplica_updates keeps_hasReplica_fleet
      keeps_hasReplica_Clear keeps_hasReplica_Delete op_keeps_err)

definition spares :: "uuid \<Rightarrow> Intent \<Rightarrow> bool" where
  "spares i it \<longleftrightarrow> (it_Kind it = IntentDestroy \<longrightarrow> it_ReplicaID it \<noteq> i)"

lemma commit_guard: "spares i it \<Longrightarrow> commit_intent (guardTx i) t it = commit_intent dbTx t it"
  by (cases "it_Kind it") (simp_all add: commit_intent_def guardTx_def spares_def)

lemma applyLoop_guard:
  "\<forall>it \<in> set its. spares i it \<Longrightarrow> applyLoop (guardTx i) env clock its bs ks = applyLoop dbTx env clock its bs ks"
  by (induction its arbitrary: bs ks) (simp_all add: applyOne_def commit_guard split: prod.split sum.split)

lemma applyBatches_guard: "applyBatches (guardTx i) env bs ks = applyBatches dbTx env bs ks"
proof (induction bs arbitrary: ks)
  case (Cons b bs)
  have "commitSwitchBatch (guardTx i) batch = commitSwitchBatch dbTx batch" for batch
    by (simp add: commitSwitchBatch_def guardTx_def Let_def)
  with Cons show ?case
    by (cases b) (simp add: applySwitchBatch_def split: prod.split sum.split)
qed simp

lemma Apply_spares:
  assumes "\<forall>it \<in> set its. spares i it" "env_keeps (hasReplica i) env" "hasReplica i (snd ks)"
  shows "hasReplica i (snd (snd (Apply dbTx env clock its ks)))"
proof -
  have "Apply (guardTx i) env clock its ks = Apply dbTx env clock its ks"
    using assms(1) by (simp add: Apply_def applyLoop_guard applyBatches_guard split: prod.split sum.split)
  then have "Apply (guardTx i) env clock its ks = (fst (Apply dbTx env clock its ks), snd (Apply dbTx env clock its ks))"
    by simp
  from run_keepsD [OF guarded.Apply_keeps [OF assms(2)] assms(3) this] show ?thesis .
qed

lemma Reconcile_destroys:
  assumes "orders gord ord vord" "snapshot_wf snap"
    and "it \<in> set (Reconcile gord ord vord cfg snap)" "it_Kind it = IntentDestroy"
  shows "it \<in> set (intentsOf (fireRules cascades (buildReplicaGroups gord snap)))"
proof -
  let ?raw = "intentsOf (fireRules cascades (buildReplicaGroups gord snap))"
  have wf: "assigns_wf snap ?raw"
    using assms(1,2) by (intro assigns_wf_rules) (auto simp: orders_def)
  have "it \<notin> set (planVolumes vord cfg snap)"
    using assms(4) by (auto dest!: planVolumes_kinds)
  then have "it \<in> set (others (placeHostless ord cfg snap ?raw))"
    using assms(3,4) by (auto simp: Reconcile_def Let_def others_def)
  then have "it \<in> set (others ?raw)"
    by (simp add: placeHostless_shape [OF wf] assigns_fillHosts)
  then show ?thesis
    by (simp add: others_def)
qed

text \<open>
  C8: A whole pass - read the fleet in one transaction, decide, place, apply - removes a replica's row
  only if the row it read had failed, or had no host, or had been draining for longer than its
  deployment's drain window at the time of the read. This holds whatever other writers commit between
  the pass's transactions (as long as they do not delete the row themselves), whatever order maps and
  joins are walked in, and whether the pass finishes or stops at an error.
\<close>
theorem pass_removes_only_expendable:
  assumes "db_wf (snd ks)" and "orders gord ord vord" and "env_keeps (hasReplica i) env"
    and "hasReplica i (snd ks)"
    and "\<not> hasReplica i (snd (snd (reconcile (Reconcile gord ord vord cfg) env clock now ks)))"
  shows "\<exists>a \<in> set (ListActiveReplicas (snd ks)). rr_ID (ar_Replica a) = i
    \<and> (rr_Phase (ar_Replica a) = ReplicaPhaseFailed \<or> UUID (rr_HostID (ar_Replica a)) = uuid_Nil
       \<or> (\<exists>t. rr_DrainedAt (ar_Replica a) = Some t \<and> t \<noteq> zero_time \<and> time_Sub now t > ar_DrainSeconds a * Second))"
proof -
  let ?snap = "loadSnapshot now (snd ks)"
  obtain it where it: "it \<in> set (Reconcile gord ord vord cfg ?snap)" "it_Kind it = IntentDestroy" "it_ReplicaID it = i"
    using Apply_spares [OF _ assms(3,4)] assms(5) by (auto simp: reconcile_def spares_def)
  have "iteration_order gord"
    using assms(2) by (simp add: orders_def)
  from intents_destroy_expendable [OF this Reconcile_destroys [OF assms(2) loadSnapshot_wf [OF assms(1)] it(1,2)] it(2)]
  obtain a where a: "a \<in> set (ListActiveReplicas (snd ks))" "rr_ID (ar_Replica a) = i"
    and why: "failedPhase (replicaOfRow a) \<or> hostless (replicaOfRow a) \<or> drainWindowElapsed (replicaOfRow a) now"
    using it(3) by (simp only: loadSnapshot_simps list.set_map bex_simps image_iff) auto
  have "drainWindowElapsed (replicaOfRow a) now \<Longrightarrow>
      \<exists>t. rr_DrainedAt (ar_Replica a) = Some t \<and> t \<noteq> zero_time \<and> time_Sub now t > ar_DrainSeconds a * Second"
    by (cases "rr_DrainedAt (ar_Replica a)") (auto simp: drainWindowElapsed_def IsZero_def split: if_splits)
  with a why show ?thesis
    by (intro bexI [OF _ a(1)]) (auto simp: failedPhase_def hostless_def)
qed

text \<open>A failed replica of a service whose current deployment asks for nothing in its region.\<close>

definition demo_orphan_db :: database where
  "demo_orphan_db = demo_db\<lparr>db_replicas := [(demo_row 1)\<lparr>rr_Phase := ReplicaPhaseFailed, rr_Healthy := False\<rparr>],
     db_deploymentRegions := [\<lparr>dr_DeploymentID = 1, dr_Region = ''us'', dr_Replicas = 1\<rparr>],
     db_volumes := [], db_leases := []\<rparr>"

lemma demo_orphan_pass:
  "map rr_ID (db_replicas (snd (snd (reconcile (Reconcile rev (\<lambda>_. rev) (\<lambda>_. rev) demo_cfg) (\<lambda>_ s. s) (\<lambda>_. 100) 100 (0, demo_orphan_db))))) = []"
  by code_simp

theorem pass_removes_only_expendable_witness:
  "\<exists>a \<in> set (ListActiveReplicas demo_orphan_db). rr_ID (ar_Replica a) = 1"
proof -
  have wf: "db_wf (snd (0 :: nat, demo_orphan_db))"
    by (simp add: demo_orphan_db_def demo_db_defs db_wf_def keys_ok_def one_current_def refs_ok_def replica_refs_def rows_ok_def
      replica_ok_def ReplicaPhase_Valid_def host_row_ok_def HostStatus_Valid_def volume_ok_def placed_status_def)
  have env: "env_keeps (hasReplica 1) (\<lambda>_ s. s)"
    by (simp add: env_keeps_def)
  have present: "hasReplica 1 (snd (0 :: nat, demo_orphan_db))"
    by (simp add: hasReplica_def demo_orphan_db_def demo_row_def)
  have gone: "\<not> hasReplica 1 (snd (snd (reconcile (Reconcile rev (\<lambda>_. rev) (\<lambda>_. rev) demo_cfg) (\<lambda>_ s. s) (\<lambda>_. 100) 100 (0, demo_orphan_db))))"
    using demo_orphan_pass by (simp add: hasReplica_def)
  from pass_removes_only_expendable [OF wf demo_orders env present gone] show ?thesis
    by auto
qed

end
