(* ===== verification/SensorQueries.thy ===== *)
theory SensorQueries
  imports ReconcileQueries
begin

text \<open>
  The writes that record what the agents report and what the watchdog concludes from their silence:
  \<^verbatim>\<open>internal/storage/sensor.go\<close> over \<^verbatim>\<open>internal/storage/db/sensor.sql.go\<close>, and the registry of live
  apiserver processes of \<^verbatim>\<open>internal/storage/controlplane.go\<close>. A comparison with a NULL timestamp is not
  true, so a host that never reported is never stale.
\<close>

section \<open>Hosts\<close>

text \<open>\<^verbatim>\<open>last_heartbeat IS NOT NULL AND last_heartbeat < cutoff\<close>\<close>

definition silentSince :: "time \<Rightarrow> HostRow \<Rightarrow> bool" where
  "silentSince cutoff h = (case hr_LastHeartbeat h of None \<Rightarrow> False | Some t \<Rightarrow> t < cutoff)"

definition RecordHostHeartbeat :: "uuid \<Rightarrow> time \<Rightarrow> (storeError, database, unit) op" where
  "RecordHostHeartbeat hostID observedAt db =
     Inr ((), snd (updateHosts (\<lambda>h. hr_ID h = hostID)
       (\<lambda>h. h\<lparr>hr_LastHeartbeat := Some observedAt, hr_HostHealthy := True\<rparr>) db))"

definition MarkStaleHostsUnhealthy :: "time \<Rightarrow> (storeError, database, nat) op" where
  "MarkStaleHostsUnhealthy lastHeartbeatBefore = exec_rows
     (updateHosts (\<lambda>h. hr_HostHealthy h \<and> silentSince lastHeartbeatBefore h) (\<lambda>h. h\<lparr>hr_HostHealthy := False\<rparr>))"

text \<open>A replica that MarkHostDown frees: live and not drained.\<close>

definition evictable :: "ReplicaRow \<Rightarrow> bool" where
  "evictable r \<longleftrightarrow> liveRow r \<and> rr_DrainedAt r = None"

definition ListDeadHosts :: "time \<Rightarrow> (storeError, database, HostRow list) op" where
  "ListDeadHosts lastHeartbeatBefore db = Inr (filter (\<lambda>h. silentSince lastHeartbeatBefore h
       \<and> list_ex (\<lambda>r. rr_HostID r = Some (hr_ID h) \<and> evictable r) (db_replicas db)) (db_hosts db), db)"

text \<open>
  One statement: the common table expression demotes the host, and the replicas' update keys on the rows
  it returned; both read the state before the statement.
\<close>

definition MarkHostDown :: "uuid \<Rightarrow> time \<Rightarrow> (storeError, database, unit) op" where
  "MarkHostDown hostID lastHeartbeatBefore db =
     (let downed = (\<lambda>h. hr_ID h = hostID \<and> silentSince lastHeartbeatBefore h);
          ids = map hr_ID (filter downed (db_hosts db));
          db1 = snd (updateHosts downed (\<lambda>h. h\<lparr>hr_HostHealthy := False\<rparr>) db)
      in Inr ((), snd (updateReplicas
           (\<lambda>r. (case rr_HostID r of None \<Rightarrow> False | Some h \<Rightarrow> h \<in> set ids) \<and> evictable r)
           (\<lambda>r. r\<lparr>rr_HostID := None, rr_Healthy := False, rr_Phase := ReplicaPhaseReplacing,
                   rr_Revision := rr_Revision r + 1\<rparr>) db1)))"

definition drainDone :: "database \<Rightarrow> HostRow \<Rightarrow> bool" where
  "drainDone db h \<longleftrightarrow> hr_Status h = HostDraining
     \<and> \<not> list_ex (\<lambda>r. rr_HostID r = Some (hr_ID h) \<and> rr_VolumeID r = None \<and> liveRow r) (db_replicas db)"

definition CompleteDrainedHosts :: "(storeError, database, HostRow list) op" where
  "CompleteDrainedHosts db =
     (let cordon = (\<lambda>h. h\<lparr>hr_Status := HostCordoned, hr_DrainStartedAt := None\<rparr>)
      in Inr (map cordon (filter (drainDone db) (db_hosts db)), snd (updateHosts (drainDone db) cordon db)))"

definition drainStartCmp :: "HostRow \<Rightarrow> HostRow \<Rightarrow> int" where
  "drainStartCmp a b = Null_Time (hr_DrainStartedAt a) - Null_Time (hr_DrainStartedAt b)"

definition ListStalledDrains :: "time \<Rightarrow> (storeError, database, HostRow list) op" where
  "ListStalledDrains startedBefore db =
     Inr (sort_by drainStartCmp (filter (\<lambda>h. hr_Status h = HostDraining
       \<and> (case hr_DrainStartedAt h of None \<Rightarrow> False | Some t \<Rightarrow> t < startedBefore)) (db_hosts db)), db)"

section \<open>Replicas and volumes\<close>

record ReplicaObservation =
  ob_ReplicaID :: uuid
  ob_Phase :: string
  ob_Healthy :: bool
  ob_RestartCount :: int
  ob_LastExitReason :: string

text \<open>The guard of the statement is the one FreezeReplica has.\<close>

definition q_RecordReplicaObservation :: "ReplicaObservation \<Rightarrow> database \<Rightarrow> nat \<times> database" where
  "q_RecordReplicaObservation obs =
     updateReplicas (\<lambda>r. rr_ID r = ob_ReplicaID obs \<and> freezable r)
       (\<lambda>r. r\<lparr>rr_Phase := to_ReplicaPhase (ob_Phase obs), rr_Healthy := ob_Healthy obs,
               rr_RestartCount := ob_RestartCount obs, rr_LastExitReason := nullString (ob_LastExitReason obs),
               rr_Revision := rr_Revision r + 1\<rparr>)"

definition RecordReplicaObservation :: "ReplicaObservation \<Rightarrow> (storeError, database, bool) op" where
  "RecordReplicaObservation obs =
     op_seq (requires ErrDriver (\<lambda>db. fst (q_RecordReplicaObservation obs db) = 0
         \<or> ReplicaPhase_Valid (to_ReplicaPhase (ob_Phase obs))))
       (op_bind (exec_rows (q_RecordReplicaObservation obs)) (\<lambda>rows. op_ok (rows > 0)))"

definition ListReplicasByHost :: "uuid \<Rightarrow> (storeError, database, ReplicaRow list) op" where
  "ListReplicasByHost hostID db = Inr (filter (\<lambda>r. rr_HostID r = Some hostID \<and> liveRow r) (db_replicas db), db)"

definition ListVolumesByHost :: "uuid \<Rightarrow> (storeError, database, VolumeRow list) op" where
  "ListVolumesByHost hostID db =
     Inr (sort_by (uuidCmp vr_ID) (filter (\<lambda>v. vr_HostID v = Some hostID) (db_volumes db)), db)"

definition RecordVolumeObservedSize :: "uuid \<Rightarrow> int \<Rightarrow> (storeError, database, unit) op" where
  "RecordVolumeObservedSize volumeID observedBytes db =
     Inr ((), snd (updateVolumes (\<lambda>v. vr_ID v = volumeID) (\<lambda>v. v\<lparr>vr_ObservedSizeBytes := Some observedBytes\<rparr>) db))"

definition RenewVolumeLease :: "uuid \<Rightarrow> time \<Rightarrow> (storeError, database, unit) op" where
  "RenewVolumeLease replicaID expiresAt db =
     Inr ((), db\<lparr>db_leases := map (\<lambda>l. if vl_ReplicaID l = replicaID then l\<lparr>vl_ExpiresAt := expiresAt\<rparr> else l) (db_leases db)\<rparr>)"

section \<open>Live apiserver processes\<close>

definition UpsertApiserverInstance :: "uuid \<Rightarrow> time \<Rightarrow> time \<Rightarrow> (storeError, database, unit) op" where
  "UpsertApiserverInstance i startedAt now db =
     Inr ((), db\<lparr>db_instances :=
       (if i \<in> ai_ID ` set (db_instances db)
        then map (\<lambda>a. if ai_ID a = i then a\<lparr>ai_HeartbeatAt := now\<rparr> else a) (db_instances db)
        else db_instances db @ [\<lparr>ai_ID = i, ai_StartedAt = startedAt, ai_HeartbeatAt = now\<rparr>])\<rparr>)"

definition DeregisterApiserverInstance :: "uuid \<Rightarrow> (storeError, database, unit) op" where
  "DeregisterApiserverInstance i db = Inr ((), db\<lparr>db_instances := filter (\<lambda>a. ai_ID a \<noteq> i) (db_instances db)\<rparr>)"

definition DeleteStaleApiserverInstances :: "time \<Rightarrow> (storeError, database, unit) op" where
  "DeleteStaleApiserverInstances heartbeatBefore db =
     Inr ((), db\<lparr>db_instances := filter (\<lambda>a. \<not> ai_HeartbeatAt a < heartbeatBefore) (db_instances db)\<rparr>)"

text \<open>The first row of the result, or none; \<^verbatim>\<open>sql.ErrNoRows\<close> is not an error here.\<close>

definition startCmp :: "ApiserverInstance \<Rightarrow> ApiserverInstance \<Rightarrow> int" where
  "startCmp a b = ai_StartedAt a - ai_StartedAt b"

definition OldestLiveApiserverStart :: "time \<Rightarrow> (storeError, database, time \<times> bool) op" where
  "OldestLiveApiserverStart heartbeatAfter db =
     (case sort_by startCmp (filter (\<lambda>a. ai_HeartbeatAt a \<ge> heartbeatAfter) (db_instances db)) of
        [] \<Rightarrow> Inr ((zero_time, False), db)
      | a # _ \<Rightarrow> Inr ((ai_StartedAt a, True), db))"

interpretation by_start: comparison startCmp
  by unfold_locales (auto simp: startCmp_def)

interpretation by_drain_start: comparison drainStartCmp
  by unfold_locales (auto simp: drainStartCmp_def)

section \<open>Every write keeps the schema's constraints\<close>

lemma keeps_RecordHostHeartbeat: "op_keeps db_wf (RecordHostHeartbeat i t)"
proof (rule op_keepsI)
  fix db x db'
  assume wf: "db_wf db" and "RecordHostHeartbeat i t db = Inr (x, db')"
  moreover have "db_wf (snd (updateHosts (\<lambda>h. hr_ID h = i) (\<lambda>h. h\<lparr>hr_LastHeartbeat := Some t, hr_HostHealthy := True\<rparr>) db))"
    by (rule db_wf_updateHosts [OF wf]) (auto simp: host_row_ok_def)
  ultimately show "db_wf db'" by (simp add: RecordHostHeartbeat_def)
qed

lemma keeps_MarkStaleHostsUnhealthy: "op_keeps db_wf (MarkStaleHostsUnhealthy t)"
  unfolding MarkStaleHostsUnhealthy_def
  by (rule op_keeps_exec, rule db_wf_updateHosts) (auto simp: host_row_ok_def)

lemma keeps_reads:
  "op_keeps J (ListDeadHosts t)" "op_keeps J (ListStalledDrains t)" "op_keeps J (OldestLiveApiserverStart t)"
  "op_keeps J (ListReplicasByHost h)" "op_keeps J (ListVolumesByHost h)"
  by (auto simp: op_keeps_def ListDeadHosts_def ListStalledDrains_def OldestLiveApiserverStart_def
      ListReplicasByHost_def ListVolumesByHost_def split: list.splits)

lemma db_wf_evict:
  assumes "db_wf db"
  shows "db_wf (snd (updateReplicas P (\<lambda>r. r\<lparr>rr_HostID := None, rr_Healthy := False, rr_Phase := ReplicaPhaseReplacing,
    rr_Revision := rr_Revision r + 1\<rparr>) db))"
  by (rule db_wf_updateReplicas [OF assms]) (auto simp: ReplicaPhase_Valid_def)

lemma keeps_MarkHostDown: "op_keeps db_wf (MarkHostDown h t)"
proof (rule op_keepsI)
  fix db x db'
  assume wf: "db_wf db" and ok: "MarkHostDown h t db = Inr (x, db')"
  have "db_wf (snd (updateHosts (\<lambda>h'. hr_ID h' = h \<and> silentSince t h') (\<lambda>h. h\<lparr>hr_HostHealthy := False\<rparr>) db))"
    by (rule db_wf_updateHosts [OF wf]) (auto simp: host_row_ok_def)
  from db_wf_evict [OF this] ok show "db_wf db'"
    unfolding MarkHostDown_def Let_def by (simp del: updateReplicas_simps updateHosts_simps) blast
qed

lemma keeps_CompleteDrainedHosts: "op_keeps db_wf CompleteDrainedHosts"
proof (rule op_keepsI)
  fix db x db'
  assume wf: "db_wf db" and ok: "CompleteDrainedHosts db = Inr (x, db')"
  have "db_wf (snd (updateHosts (drainDone db) (\<lambda>h. h\<lparr>hr_Status := HostCordoned, hr_DrainStartedAt := None\<rparr>) db))"
    by (rule db_wf_updateHosts [OF wf]) (auto simp: host_row_ok_def HostStatus_Valid_def)
  with ok show "db_wf db'"
    by (simp add: CompleteDrainedHosts_def Let_def)
qed

lemma RecordReplicaObservation_Inr:
  "RecordReplicaObservation obs db = Inr (b, db') \<longleftrightarrow>
     db' = snd (q_RecordReplicaObservation obs db)
     \<and> b = (\<exists>r \<in> set (db_replicas db). rr_ID r = ob_ReplicaID obs \<and> freezable r)
     \<and> (b \<longrightarrow> ReplicaPhase_Valid (to_ReplicaPhase (ob_Phase obs)))"
  by (auto simp: RecordReplicaObservation_def op_seq_Inr op_bind_Inr q_RecordReplicaObservation_def filter_empty_conv prod_eq_iff)

text \<open>
  Written with a phase an agent may report: another one, such as draining without a stamp, would break
  the lifecycle facts, and it is the apiserver that refuses it.
\<close>

lemma keeps_RecordReplicaObservation:
  assumes "AgentReportable (to_ReplicaPhase (ob_Phase obs))"
  shows "op_keeps db_wf (RecordReplicaObservation obs)"
proof (rule op_keepsI)
  fix db b db'
  assume wf: "db_wf db" and "RecordReplicaObservation obs db = Inr (b, db')"
  then have db': "db' = snd (q_RecordReplicaObservation obs db)"
    by (simp add: RecordReplicaObservation_Inr)
  have "to_ReplicaPhase (ob_Phase obs) \<noteq> ReplicaPhaseDraining"
    using assms by (auto simp: AgentReportable_def)
  then show "db_wf db'"
    unfolding db' q_RecordReplicaObservation_def
    by (intro db_wf_updateReplicas [OF wf])
      (use wf assms in \<open>auto simp: db_wf_def refs_ok_def replica_refs_def AgentReportable_Valid\<close>)
qed

lemma keeps_RecordVolumeObservedSize: "op_keeps db_wf (RecordVolumeObservedSize v n)"
proof (rule op_keepsI)
  fix db x db'
  assume wf: "db_wf db" and ok: "RecordVolumeObservedSize v n db = Inr (x, db')"
  have "db_wf (snd (updateVolumes (\<lambda>r. vr_ID r = v) (\<lambda>r. r\<lparr>vr_ObservedSizeBytes := Some n\<rparr>) db))"
    by (rule db_wf_updateVolumes [OF wf]) (use wf in \<open>auto simp: volume_ok_def placed_status_def db_wf_def refs_ok_def\<close>)
  with ok show "db_wf db'" by (simp add: RecordVolumeObservedSize_def)
qed

lemma keeps_RenewVolumeLease: "op_keeps db_wf (RenewVolumeLease i t)"
proof (rule op_keepsI)
  fix db x db'
  assume wf: "db_wf db" and ok: "RenewVolumeLease i t db = Inr (x, db')"
  let ?ls = "map (\<lambda>l. if vl_ReplicaID l = i then l\<lparr>vl_ExpiresAt := t\<rparr> else l) (db_leases db)"
  have "map vl_VolumeID ?ls = map vl_VolumeID (db_leases db)" by simp
  then have "distinct (map vl_VolumeID ?ls)"
    using db_wf_rows(2) [OF wf] by (simp only:)
  then have "db_wf (db\<lparr>db_leases := ?ls\<rparr>)"
    by (rule db_wf_setLeases [OF wf]) (use db_wf_rows(5,6) [OF wf] in auto)
  with ok show "db_wf db'" by (simp add: RenewVolumeLease_def)
qed

lemma db_wf_instances: "db_wf (db\<lparr>db_instances := is\<rparr>) = db_wf db"
  by (simp add: db_wf_def keys_ok_def one_current_def refs_ok_def replica_refs_def rows_ok_def)

lemma keeps_instances:
  "op_keeps db_wf (UpsertApiserverInstance i s t)" "op_keeps db_wf (DeregisterApiserverInstance i)"
  "op_keeps db_wf (DeleteStaleApiserverInstances t)"
  by (auto simp: op_keeps_def UpsertApiserverInstance_def DeregisterApiserverInstance_def
      DeleteStaleApiserverInstances_def db_wf_instances)

end
