(* ===== verification/Watchdog.thy ===== *)
theory Watchdog
  imports SensorQueries ActuatorCorrect
begin

text \<open>
  \<^verbatim>\<open>internal/engine/watchdog.go\<close>: the sweep that turns heartbeat silence into scheduling signal. The
  interface \<^verbatim>\<open>WatchdogStore\<close> is a record of operations over any store, the locale \<open>watchdog_store\<close> its
  contract; the database operations of \<open>SensorQueries\<close> provide it.
\<close>

section \<open>The interface\<close>

record 's WatchdogStore =
  ws_MarkStaleHostsUnhealthy :: "time \<Rightarrow> (storeError, 's, nat) op"
  ws_ListDeadHosts :: "time \<Rightarrow> (storeError, 's, HostRow list) op"
  ws_MarkHostDown :: "uuid \<Rightarrow> time \<Rightarrow> (storeError, 's, unit) op"
  ws_CompleteDrainedHosts :: "(storeError, 's, HostRow list) op"
  ws_ListStalledDrains :: "time \<Rightarrow> (storeError, 's, HostRow list) op"
  ws_OldestLiveApiserverStart :: "time \<Rightarrow> (storeError, 's, time \<times> bool) op"

section \<open>The sweep\<close>

definition hostUnhealthyAfter :: duration where "hostUnhealthyAfter = 30 * Second"
definition hostDeadAfter :: duration where "hostDeadAfter = 2 * Minute"
definition drainStalledAfter :: duration where "drainStalledAfter = 10 * Minute"

definition settleDrains :: "'s WatchdogStore \<Rightarrow> (nat \<Rightarrow> 's \<Rightarrow> 's) \<Rightarrow> time \<Rightarrow> ('s, unit) run" where
  "settleDrains ws env now =
     run_bind (WithTx env (ws_CompleteDrainedHosts ws)) (\<lambda>done.
     run_bind (WithTx env (ws_ListStalledDrains ws (now - drainStalledAfter))) (\<lambda>stalled. run_ok ()))"

definition deathVerdictFair :: "'s WatchdogStore \<Rightarrow> (nat \<Rightarrow> 's \<Rightarrow> 's) \<Rightarrow> time \<Rightarrow> ('s, bool) run" where
  "deathVerdictFair ws env now =
     run_bind (WithTx env (ws_OldestLiveApiserverStart ws (now - ApiserverLivenessWindow)))
       (\<lambda>(started, ok). run_ok (ok \<and> time_Sub now started \<ge> hostDeadAfter))"

definition sweepStaleHosts :: "'s WatchdogStore \<Rightarrow> (nat \<Rightarrow> 's \<Rightarrow> 's) \<Rightarrow> time \<Rightarrow> ('s, unit) run" where
  "sweepStaleHosts ws env now =
     run_bind (WithTx env (ws_MarkStaleHostsUnhealthy ws (now - hostUnhealthyAfter))) (\<lambda>demoted.
     run_bind (settleDrains ws env now) (\<lambda>_.
     run_bind (deathVerdictFair ws env now) (\<lambda>fair.
     if \<not> fair then run_ok ()
     else let deadCutoff = now - hostDeadAfter in
       run_bind (WithTx env (ws_ListDeadHosts ws deadCutoff)) (\<lambda>dead.
       run_each (\<lambda>h. WithTx env (ws_MarkHostDown ws (hr_ID h) deadCutoff)) dead))))"

section \<open>The contract of the interface\<close>

locale watchdog_store =
  fixes ws :: "'s WatchdogStore"
    and J :: "'s \<Rightarrow> bool"
    and now :: time
  assumes MarkStaleHostsUnhealthy: "op_keeps J (ws_MarkStaleHostsUnhealthy ws (now - hostUnhealthyAfter))"
    and ListDeadHosts: "op_keeps J (ws_ListDeadHosts ws t)"
    and MarkHostDown: "op_keeps J (ws_MarkHostDown ws h (now - hostDeadAfter))"
    and CompleteDrainedHosts: "op_keeps J (ws_CompleteDrainedHosts ws)"
    and ListStalledDrains: "op_keeps J (ws_ListStalledDrains ws t)"
    and OldestLiveApiserverStart: "op_keeps J (ws_OldestLiveApiserverStart ws t)"
begin

lemma settleDrains_keeps: "env_keeps J env \<Longrightarrow> run_keeps J (settleDrains ws env now)"
  unfolding settleDrains_def
  by (intro run_keeps_intros CompleteDrainedHosts ListStalledDrains)

lemma deathVerdictFair_keeps: "env_keeps J env \<Longrightarrow> run_keeps J (deathVerdictFair ws env now)"
  unfolding deathVerdictFair_def
  by (rule run_keeps_bind) (auto intro: run_keeps_intros OldestLiveApiserverStart split: prod.splits)

lemma sweep_keeps: "env_keeps J env \<Longrightarrow> run_keeps J (sweepStaleHosts ws env now)"
  unfolding sweepStaleHosts_def Let_def
  by (intro run_keeps_intros settleDrains_keeps deathVerdictFair_keeps MarkStaleHostsUnhealthy ListDeadHosts MarkHostDown)

end

section \<open>The database as the provider\<close>

definition dbWatch :: "database WatchdogStore" where
  "dbWatch = \<lparr>ws_MarkStaleHostsUnhealthy = MarkStaleHostsUnhealthy, ws_ListDeadHosts = ListDeadHosts,
     ws_MarkHostDown = MarkHostDown, ws_CompleteDrainedHosts = CompleteDrainedHosts,
     ws_ListStalledDrains = ListStalledDrains, ws_OldestLiveApiserverStart = OldestLiveApiserverStart\<rparr>"

lemma dbWatch_simps [simp]:
  "ws_MarkStaleHostsUnhealthy dbWatch = MarkStaleHostsUnhealthy" "ws_ListDeadHosts dbWatch = ListDeadHosts"
  "ws_MarkHostDown dbWatch = MarkHostDown" "ws_CompleteDrainedHosts dbWatch = CompleteDrainedHosts"
  "ws_ListStalledDrains dbWatch = ListStalledDrains" "ws_OldestLiveApiserverStart dbWatch = OldestLiveApiserverStart"
  by (simp_all add: dbWatch_def)

interpretation watch: watchdog_store dbWatch db_wf now for now
  by unfold_locales (simp_all add: keeps_MarkStaleHostsUnhealthy keeps_MarkHostDown keeps_CompleteDrainedHosts keeps_reads)

section \<open>What every transaction of a sweep may do\<close>

text \<open>
  The sweep on a store that also remembers, for every transaction committed, the state it ran on and the
  state it left. Others write between the transactions as they do on the plain store.
\<close>

definition traced :: "('e, 's, 'a) op \<Rightarrow> ('e, 's \<times> ('s \<times> 's) list, 'a) op" where
  "traced m st = (case m (fst st) of Inl e \<Rightarrow> Inl e | Inr (x, s') \<Rightarrow> Inr (x, (s', snd st @ [(fst st, s')])))"

definition tracedStore :: "'s WatchdogStore \<Rightarrow> ('s \<times> ('s \<times> 's) list) WatchdogStore" where
  "tracedStore ws = \<lparr>ws_MarkStaleHostsUnhealthy = (\<lambda>t. traced (ws_MarkStaleHostsUnhealthy ws t)),
     ws_ListDeadHosts = (\<lambda>t. traced (ws_ListDeadHosts ws t)),
     ws_MarkHostDown = (\<lambda>h t. traced (ws_MarkHostDown ws h t)),
     ws_CompleteDrainedHosts = traced (ws_CompleteDrainedHosts ws),
     ws_ListStalledDrains = (\<lambda>t. traced (ws_ListStalledDrains ws t)),
     ws_OldestLiveApiserverStart = (\<lambda>t. traced (ws_OldestLiveApiserverStart ws t))\<rparr>"

definition besides :: "(nat \<Rightarrow> 's \<Rightarrow> 's) \<Rightarrow> nat \<Rightarrow> 's \<times> ('s \<times> 's) list \<Rightarrow> 's \<times> ('s \<times> 's) list" where
  "besides env k st = (env k (fst st), snd st)"

text \<open>Forgetting the trace, the two stores run the same way.\<close>

definition erases :: "('e, 's \<times> ('s \<times> 's) list, 'a) steps \<Rightarrow> ('e, 's, 'a) steps \<Rightarrow> bool" where
  "erases m' m \<longleftrightarrow> (\<forall>k s tr r k' s' tr'. m' (k, (s, tr)) = (r, (k', (s', tr'))) \<longrightarrow> m (k, s) = (r, (k', s')))"

lemma erasesD: "erases m' m \<Longrightarrow> m' (k, (s, tr)) = (r, (k', (s', tr'))) \<Longrightarrow> m (k, s) = (r, (k', s'))"
  unfolding erases_def by blast

named_theorems erasure "runs on the remembering store and on the plain one"

lemma erases_tx [erasure]: "erases (WithTx (besides env) (traced m)) (WithTx env m)"
  by (auto simp: erases_def WithTx_def besides_def traced_def Let_def split: sum.splits)

lemma erases_ok [erasure]: "erases (run_ok x) (run_ok x)"
  by (simp add: erases_def run_ok_def)

lemma erases_bind [erasure]:
  assumes "erases m' m" "\<And>x. erases (f' x) (f x)"
  shows "erases (run_bind m' f') (run_bind m f)"
  unfolding erases_def
proof (intro allI impI)
  fix k s tr r k' s' tr'
  assume run: "run_bind m' f' (k, (s, tr)) = (r, (k', (s', tr')))"
  obtain r1 k1 s1 tr1 where m': "m' (k, (s, tr)) = (r1, (k1, (s1, tr1)))" by (metis prod.collapse)
  note m = erasesD [OF assms(1) m']
  show "run_bind m f (k, s) = (r, (k', s'))"
    using run m m' erasesD [OF assms(2)] by (cases r1) (auto simp: run_bind_def)
qed

lemma erases_if [erasure]: "erases m' m \<Longrightarrow> erases n' n \<Longrightarrow> erases (if b then m' else n') (if b then m else n)"
  by simp

lemma erases_each [erasure]: "(\<And>x. erases (f' x) (f x)) \<Longrightarrow> erases (run_each f' xs) (run_each f xs)"
  by (induction xs) (auto intro: erasure)

lemma erases_sweep: "erases (sweepStaleHosts (tracedStore ws) (besides env) now) (sweepStaleHosts ws env now)"
  unfolding sweepStaleHosts_def settleDrains_def deathVerdictFair_def Let_def tracedStore_def WatchdogStore.select_convs
    case_prod_beta
  by (intro erasure)

text \<open>A run is accounted for: what lies before, between and after its commits are writes of others.\<close>

definition others :: "(nat \<Rightarrow> 's \<Rightarrow> 's) \<Rightarrow> 's \<Rightarrow> 's \<Rightarrow> bool" where
  "others env = (\<lambda>s s'. \<exists>k. s' = env k s)\<^sup>*\<^sup>*"

fun accounted :: "(nat \<Rightarrow> 's \<Rightarrow> 's) \<Rightarrow> 's \<Rightarrow> ('s \<times> 's) list \<Rightarrow> 's \<Rightarrow> bool" where
  "accounted env s [] s' = others env s s'"
| "accounted env s ((a, b) # tr) s' = (others env s a \<and> accounted env b tr s')"

lemma accounted_env: "accounted env s tr s' \<Longrightarrow> accounted env s tr (env k s')"
proof (induction env s tr s' rule: accounted.induct)
  case (1 env s s')
  then show ?case by (auto simp: others_def intro: rtranclp.rtrancl_into_rtrancl)
qed simp

lemma accounted_commit: "accounted env s tr a \<Longrightarrow> accounted env s (tr @ [(a, b)]) b"
  by (induction env s tr a rule: accounted.induct) (simp_all add: others_def)

definition traceOK :: "('s \<Rightarrow> 's \<Rightarrow> bool) \<Rightarrow> (nat \<Rightarrow> 's \<Rightarrow> 's) \<Rightarrow> 's \<Rightarrow> 's \<times> ('s \<times> 's) list \<Rightarrow> bool" where
  "traceOK G env s0 st \<longleftrightarrow> accounted env s0 (snd st) (fst st) \<and> (\<forall>(a, b) \<in> set (snd st). G a b)"

lemma traceOK_env: "env_keeps (traceOK G env s0) (besides env)"
  by (auto simp: env_keeps_def traceOK_def besides_def accounted_env)

lemma traceOK_op:
  assumes "\<And>a x b. m a = Inr (x, b) \<Longrightarrow> G a b"
  shows "op_keeps (traceOK G env s0) (traced m)"
  using assms by (intro op_keepsI) (auto simp: traceOK_def traced_def accounted_commit split: sum.splits prod.splits)

text \<open>
  What a transaction of the sweep does to a replica: nothing, or it frees it from a host that is silent
  past the death window in the state the transaction runs on.
\<close>

definition freedRow :: "time \<Rightarrow> ReplicaRow \<Rightarrow> ReplicaRow" where
  "freedRow t r = replicaTrigger t r (r\<lparr>rr_HostID := None, rr_Healthy := False, rr_Phase := ReplicaPhaseReplacing,
     rr_Revision := rr_Revision r + 1\<rparr>)"

definition freedOrSame :: "time \<Rightarrow> database \<Rightarrow> ReplicaRow \<Rightarrow> ReplicaRow \<Rightarrow> bool" where
  "freedOrSame now a r r' \<longleftrightarrow> r' = r \<or> (evictable r \<and> r' = freedRow (db_now a) r
     \<and> (\<exists>h \<in> set (db_hosts a). rr_HostID r = Some (hr_ID h) \<and> silentSince (now - hostDeadAfter) h))"

definition spares :: "time \<Rightarrow> database \<Rightarrow> database \<Rightarrow> bool" where
  "spares now a b \<longleftrightarrow> list_all2 (freedOrSame now a) (db_replicas a) (db_replicas b)"

lemma spares_same: "db_replicas b = db_replicas a \<Longrightarrow> spares now a b"
  by (simp add: spares_def freedOrSame_def list.rel_refl)

lemma spares_MarkHostDown:
  assumes "MarkHostDown h (now - hostDeadAfter) a = Inr (x, b)"
  shows "spares now a b"
proof -
  let ?ids = "map hr_ID (filter (\<lambda>x. hr_ID x = h \<and> silentSince (now - hostDeadAfter) x) (db_hosts a))"
  have "db_replicas b = map (\<lambda>r. if (case rr_HostID r of None \<Rightarrow> False | Some x \<Rightarrow> x \<in> set ?ids) \<and> evictable r
      then freedRow (db_now a) r else r) (db_replicas a)"
    using assms by (auto simp: MarkHostDown_def freedRow_def Let_def)
  then show ?thesis
    by (auto simp: spares_def freedOrSame_def list_all2_map2 list.rel_refl intro!: list.rel_refl split: option.splits)
qed

lemma reads_same: "(\<And>J. op_keeps J m) \<Longrightarrow> m a = Inr (x, b) \<Longrightarrow> b = a"
  using op_keepsD [of "\<lambda>s. s = a" m a x b] by simp

interpretation tracing: watchdog_store "tracedStore dbWatch" "traceOK (spares now) env db" now for now env db
proof unfold_locales
  show "op_keeps (traceOK (spares now) env db) (ws_MarkHostDown (tracedStore dbWatch) h (now - hostDeadAfter))" for h
    unfolding tracedStore_def WatchdogStore.select_convs dbWatch_simps by (rule traceOK_op) (rule spares_MarkHostDown)
  show "op_keeps (traceOK (spares now) env db) (ws_MarkStaleHostsUnhealthy (tracedStore dbWatch) (now - hostUnhealthyAfter))"
    unfolding tracedStore_def WatchdogStore.select_convs dbWatch_simps
    by (rule traceOK_op) (auto simp: MarkStaleHostsUnhealthy_def exec_rows_def updateHosts_def updateWhere_def intro!: spares_same)
  show "op_keeps (traceOK (spares now) env db) (ws_CompleteDrainedHosts (tracedStore dbWatch))"
    unfolding tracedStore_def WatchdogStore.select_convs dbWatch_simps
    by (rule traceOK_op) (auto simp: CompleteDrainedHosts_def Let_def intro!: spares_same)
  show "op_keeps (traceOK (spares now) env db) (ws_ListDeadHosts (tracedStore dbWatch) t)"
    "op_keeps (traceOK (spares now) env db) (ws_ListStalledDrains (tracedStore dbWatch) t)"
    "op_keeps (traceOK (spares now) env db) (ws_OldestLiveApiserverStart (tracedStore dbWatch) t)" for t
    unfolding tracedStore_def WatchdogStore.select_convs dbWatch_simps
    by (rule traceOK_op, drule reads_same [rotated], simp_all add: keeps_reads spares_same)+
qed

text \<open>
  C14: A sweep never takes a replica from a host that is heard, at the moment it would take it. Whatever
  the others commit between its transactions - a heartbeat that lands after the host was listed as dead
  and before it is marked down included -, whatever else they change, and whether the sweep finishes or
  fails: every transaction the sweep commits leaves each replica row as it found it, or frees a live,
  undrained one whose host is, in the state that transaction runs on, silent past the death window.
  Nothing else happens: from the first state to the last there are only these commits and the others'
  writes between them.
\<close>
theorem sweep_frees_only_silent:
  assumes "sweepStaleHosts (tracedStore dbWatch) (besides env) now (k, (db, [])) = (res, (k', (db', tr)))"
  shows "sweepStaleHosts dbWatch env now (k, db) = (res, (k', db'))
    \<and> accounted env db tr db'
    \<and> (\<forall>(a, b) \<in> set tr. list_all2 (\<lambda>r r'. r' = r \<or> (evictable r \<and> r' = freedRow (db_now a) r
          \<and> (\<exists>h \<in> set (db_hosts a). rr_HostID r = Some (hr_ID h) \<and> silentSince (now - hostDeadAfter) h)))
        (db_replicas a) (db_replicas b))"
proof -
  have "traceOK (spares now) env db (db, [])"
    by (simp add: traceOK_def others_def)
  then have "traceOK (spares now) env db (db', tr)"
    using run_keepsD [OF tracing.sweep_keeps [OF traceOK_env] _ assms] by simp
  moreover have "sweepStaleHosts dbWatch env now (k, db) = (res, (k', db'))"
    by (rule erasesD [OF erases_sweep assms])
  ultimately show ?thesis
    by (auto simp: traceOK_def spares_def freedOrSame_def [abs_def])
qed

section \<open>What an undisturbed sweep does\<close>

text \<open>
  The abstract sweep, one simultaneous update: hosts silent past the short threshold leave scheduling,
  finished drains become cordons, and - when some live apiserver has been up for a whole death window -
  the replicas of every host silent past the long threshold are freed.
\<close>

definition fairNow :: "time \<Rightarrow> database \<Rightarrow> bool" where
  "fairNow now db \<longleftrightarrow> (\<exists>a \<in> set (db_instances db). ai_HeartbeatAt a \<ge> now - ApiserverLivenessWindow
     \<and> time_Sub now (ai_StartedAt a) \<ge> hostDeadAfter)"

definition evict :: "time \<Rightarrow> uuid set \<Rightarrow> ReplicaRow \<Rightarrow> ReplicaRow" where
  "evict t S r = (if (\<exists>h \<in> S. rr_HostID r = Some h) \<and> evictable r then freedRow t r else r)"

definition sweptHost :: "time \<Rightarrow> database \<Rightarrow> HostRow \<Rightarrow> HostRow" where
  "sweptHost now db h =
     (let h1 = (if silentSince (now - hostUnhealthyAfter) h then h\<lparr>hr_HostHealthy := False\<rparr> else h)
      in if drainDone db h then h1\<lparr>hr_Status := HostCordoned, hr_DrainStartedAt := None\<rparr> else h1)"

definition sweepSpec :: "time \<Rightarrow> database \<Rightarrow> database" where
  "sweepSpec now db = db\<lparr>db_hosts := map (sweptHost now db) (db_hosts db),
     db_replicas := (if fairNow now db
       then map (evict (db_now db) (hr_ID ` {h \<in> set (db_hosts db). silentSince (now - hostDeadAfter) h})) (db_replicas db)
       else db_replicas db)\<rparr>"

lemma evict_evict: "evict t T (evict t S r) = evict t (S \<union> T) r"
  by (auto simp: evict_def freedRow_def)

lemma evict_empty [simp]: "evict t {} = (\<lambda>r. r)"
  by (simp add: evict_def fun_eq_iff)

lemma unhealthy_id: "\<not> hr_HostHealthy h \<Longrightarrow> h\<lparr>hr_HostHealthy := False\<rparr> = h"
  by (cases h) simp

lemma MarkHostDown_evict:
  assumes "\<forall>x \<in> set (db_hosts db). silentSince c x \<longrightarrow> \<not> hr_HostHealthy x"
    and "h \<in> set (db_hosts db)" "silentSince c h"
  shows "MarkHostDown (hr_ID h) c db = Inr ((), db\<lparr>db_replicas := map (evict (db_now db) {hr_ID h}) (db_replicas db)\<rparr>)"
proof -
  have hosts: "map (\<lambda>x. if hr_ID x = hr_ID h \<and> silentSince c x then x\<lparr>hr_HostHealthy := False\<rparr> else x) (db_hosts db) = db_hosts db"
    using assms(1) by (intro map_idI) (auto simp: unhealthy_id)
  have ids: "set (map hr_ID (filter (\<lambda>x. hr_ID x = hr_ID h \<and> silentSince c x) (db_hosts db))) = {hr_ID h}"
    using assms(2,3) by auto
  have "snd (updateHosts (\<lambda>x. hr_ID x = hr_ID h \<and> silentSince c x) (\<lambda>h. h\<lparr>hr_HostHealthy := False\<rparr>) db) = db"
    by (simp add: hosts)
  then have "MarkHostDown (hr_ID h) c db = Inr ((), snd (updateReplicas
      (\<lambda>r. (case rr_HostID r of None \<Rightarrow> False | Some x \<Rightarrow> x \<in> {hr_ID h}) \<and> evictable r)
      (\<lambda>r. r\<lparr>rr_HostID := None, rr_Healthy := False, rr_Phase := ReplicaPhaseReplacing,
              rr_Revision := rr_Revision r + 1\<rparr>) db))"
    by (simp only: MarkHostDown_def Let_def ids)
  then show ?thesis
    by (simp only: updateReplicas_simps) (auto simp: evict_def freedRow_def split: option.splits)
qed

lemma down_each:
  assumes "\<forall>x \<in> set (db_hosts db). silentSince c x \<longrightarrow> \<not> hr_HostHealthy x"
    and "\<forall>h \<in> set hs. h \<in> set (db_hosts db) \<and> silentSince c h"
  shows "run_each (\<lambda>h. WithTx quiet (ws_MarkHostDown dbWatch (hr_ID h) c)) hs (k, db)
    = (Inr (), (k + length hs, db\<lparr>db_replicas := map (evict (db_now db) (hr_ID ` set hs)) (db_replicas db)\<rparr>))"
  using assms
proof (induction hs arbitrary: k db)
  case (Cons h hs)
  let ?db = "db\<lparr>db_replicas := map (evict (db_now db) {hr_ID h}) (db_replicas db)\<rparr>"
  have "MarkHostDown (hr_ID h) c db = Inr ((), ?db)"
    using Cons.prems by (intro MarkHostDown_evict) auto
  moreover have "run_each (\<lambda>h. WithTx quiet (ws_MarkHostDown dbWatch (hr_ID h) c)) hs (Suc k, ?db)
      = (Inr (), (Suc k + length hs, ?db\<lparr>db_replicas := map (evict (db_now ?db) (hr_ID ` set hs)) (db_replicas ?db)\<rparr>))"
    using Cons.prems by (intro Cons.IH) auto
  ultimately show ?case
    by (simp add: run_bind_def WithTx_quiet evict_evict o_def)
qed (simp add: run_ok_def)

lemma oldest_live:
  "OldestLiveApiserverStart t db = Inr ((u, b), db) \<longleftrightarrow>
     (\<nexists>a. a \<in> set (db_instances db) \<and> ai_HeartbeatAt a \<ge> t) \<and> u = zero_time \<and> \<not> b
     \<or> (\<exists>a \<in> set (db_instances db). ai_HeartbeatAt a \<ge> t \<and> u = ai_StartedAt a) \<and> b
       \<and> (\<forall>a \<in> set (db_instances db). ai_HeartbeatAt a \<ge> t \<longrightarrow> u \<le> ai_StartedAt a)"
proof (cases "sort_by startCmp (filter (\<lambda>a. ai_HeartbeatAt a \<ge> t) (db_instances db))")
  case Nil
  then have "filter (\<lambda>a. ai_HeartbeatAt a \<ge> t) (db_instances db) = []"
    by (metis length_0_conv length_sort_by)
  then show ?thesis
    by (auto simp: OldestLiveApiserverStart_def filter_empty_conv)
next
  case (Cons a as)
  then have mem: "set (a # as) = {x \<in> set (db_instances db). ai_HeartbeatAt x \<ge> t}"
    by (metis set_filter set_sort_by)
  have "\<forall>b \<in> set as. ai_StartedAt a \<le> ai_StartedAt b"
    using by_start.sorted_sort_by [of "filter (\<lambda>a. ai_HeartbeatAt a \<ge> t) (db_instances db)"]
    by (simp add: Cons startCmp_def)
  then have least: "\<forall>b \<in> set (db_instances db). ai_HeartbeatAt b \<ge> t \<longrightarrow> ai_StartedAt a \<le> ai_StartedAt b"
    using mem by auto
  have "a \<in> set (db_instances db)" "ai_HeartbeatAt a \<ge> t"
    using mem by auto
  with Cons least show ?thesis
    by (auto simp: OldestLiveApiserverStart_def intro: order.antisym)
qed

lemma deathVerdictFair_run: "deathVerdictFair dbWatch quiet now (k, db) = (Inr (fairNow now db), (Suc k, db))"
proof -
  let ?t = "now - ApiserverLivenessWindow"
  obtain u b where run: "OldestLiveApiserverStart ?t db = Inr ((u, b), db)"
    unfolding OldestLiveApiserverStart_def
    by (cases "sort_by startCmp (filter (\<lambda>a. ai_HeartbeatAt a \<ge> ?t) (db_instances db))") auto
  then have "fairNow now db \<longleftrightarrow> b \<and> time_Sub now u \<ge> hostDeadAfter"
    unfolding oldest_live fairNow_def using time_Sub_mono [of u _ now] order.trans by blast
  then show ?thesis
    using run by (simp add: deathVerdictFair_def run_bind_def WithTx_def quiet_def run_ok_def)
qed

lemma settleDrains_run: "settleDrains dbWatch quiet now (k, db) =
  (Inr (), (Suc (Suc k), snd (updateHosts (drainDone db) (\<lambda>h. h\<lparr>hr_Status := HostCordoned, hr_DrainStartedAt := None\<rparr>) db)))"
  by (simp add: settleDrains_def run_bind_def WithTx_def quiet_def CompleteDrainedHosts_def ListStalledDrains_def Let_def run_ok_def)

lemma sweep_hosts:
  "map (\<lambda>h. if drainDone db1 h then h\<lparr>hr_Status := HostCordoned, hr_DrainStartedAt := None\<rparr> else h)
     (map (\<lambda>h. if hr_HostHealthy h \<and> silentSince (now - hostUnhealthyAfter) h then h\<lparr>hr_HostHealthy := False\<rparr> else h) hs)
   = map (sweptHost now db) hs"
  if "db_replicas db1 = db_replicas db"
proof -
  have "drainDone db1 (h\<lparr>hr_HostHealthy := False\<rparr>) = drainDone db h" "drainDone db1 h = drainDone db h" for h
    using that by (simp_all add: drainDone_def)
  then show ?thesis
    by (auto simp: sweptHost_def Let_def unhealthy_id)
qed

lemma silent_swept: "silentSince t (sweptHost now db h) = silentSince t h" "hr_ID (sweptHost now db h) = hr_ID h"
  by (simp_all add: sweptHost_def silentSince_def Let_def)

lemma silent_unhealthy: "silentSince (now - hostDeadAfter) h \<Longrightarrow> \<not> hr_HostHealthy (sweptHost now db h)"
  by (auto simp: sweptHost_def silentSince_def hostDeadAfter_def hostUnhealthyAfter_def Minute_def Second_def Let_def
      split: option.splits)

text \<open>
  C13: An undisturbed sweep, a sequence of up to four kinds of statements with one write per dead host,
  succeeds and refines the one-step specification: exactly the hosts silent past thirty seconds leave
  scheduling, exactly the draining hosts without a live stateless replica become cordoned, and exactly
  the live, undrained replicas of hosts silent past two minutes are freed - and these only if some live
  apiserver has been up for two minutes, so that an outage of the control plane is not blamed on the
  agents.
\<close>
theorem sweep_refines_spec:
  "\<exists>k'. sweepStaleHosts dbWatch quiet now (k, db) = (Inr (), (k', sweepSpec now db))"
proof -
  let ?c = "now - hostDeadAfter"
  let ?db1 = "snd (updateHosts (\<lambda>h. hr_HostHealthy h \<and> silentSince (now - hostUnhealthyAfter) h) (\<lambda>h. h\<lparr>hr_HostHealthy := False\<rparr>) db)"
  let ?db2 = "db\<lparr>db_hosts := map (sweptHost now db) (db_hosts db)\<rparr>"
  obtain n where mark: "WithTx quiet (ws_MarkStaleHostsUnhealthy dbWatch (now - hostUnhealthyAfter)) (k, db) = (Inr n, (Suc k, ?db1))"
    by (simp add: MarkStaleHostsUnhealthy_def exec_rows_def WithTx_def quiet_def updateHosts_def updateWhere_def)
  have "snd (updateHosts (drainDone ?db1) (\<lambda>h. h\<lparr>hr_Status := HostCordoned, hr_DrainStartedAt := None\<rparr>) ?db1) = ?db2"
    using sweep_hosts [of ?db1 db now "db_hosts db"] by (simp del: map_map)
  then have settle: "settleDrains dbWatch quiet now (Suc k, ?db1) = (Inr (), (Suc (Suc (Suc k)), ?db2))"
    by (simp only: settleDrains_run)
  have fair: "fairNow now ?db2 = fairNow now db"
    by (simp add: fairNow_def)
  let ?dead = "filter (\<lambda>h. silentSince ?c h \<and> list_ex (\<lambda>r. rr_HostID r = Some (hr_ID h) \<and> evictable r) (db_replicas db)) (db_hosts ?db2)"
  have dead: "WithTx quiet (ws_ListDeadHosts dbWatch ?c) (m, ?db2) = (Inr ?dead, (Suc m, ?db2))" for m
    by (simp add: ListDeadHosts_def WithTx_def quiet_def)
  have down: "run_each (\<lambda>h. WithTx quiet (ws_MarkHostDown dbWatch (hr_ID h) ?c)) ?dead (m, ?db2)
      = (Inr (), (m + length ?dead, ?db2\<lparr>db_replicas := map (evict (db_now ?db2) (hr_ID ` set ?dead)) (db_replicas ?db2)\<rparr>))" for m
    by (rule down_each) (auto simp: silent_swept silent_unhealthy)
  have same: "map (evict (db_now ?db2) (hr_ID ` set ?dead)) (db_replicas ?db2)
      = map (evict (db_now db) (hr_ID ` {h \<in> set (db_hosts db). silentSince ?c h})) (db_replicas db)"
    by (intro map_cong) (simp_all, fastforce simp: evict_def silent_swept list_ex_iff)
  show ?thesis
  proof (cases "fairNow now db")
    case True
    have "?db2\<lparr>db_replicas := map (evict (db_now ?db2) (hr_ID ` set ?dead)) (db_replicas ?db2)\<rparr> = sweepSpec now db"
      unfolding same by (simp add: sweepSpec_def True)
    note down = down [unfolded this]
    show ?thesis
      by (simp only: sweepStaleHosts_def run_bind_def mark settle deathVerdictFair_run fair True dead Let_def down
          prod.case sum.case if_False simp_thms prod.inject)
  next
    case False
    have "sweepSpec now db = ?db2"
      by (simp add: sweepSpec_def False)
    then show ?thesis
      unfolding \<open>sweepSpec now db = ?db2\<close>
      by (simp only: sweepStaleHosts_def run_bind_def mark settle deathVerdictFair_run fair False run_ok_def
          prod.case sum.case if_True simp_thms prod.inject)
  qed
qed

text \<open>A host that went silent long ago, with the replica it ran.\<close>

definition demo_watch_db :: database where
  "demo_watch_db = demo_db\<lparr>db_hosts := [demo_hostRow 9], db_now := 500 * Second,
     db_instances := [\<lparr>ai_ID = 3, ai_StartedAt = 0, ai_HeartbeatAt = 495 * Second\<rparr>]\<rparr>"

text \<open>The host is heard again between the listing of dead hosts, the fifth transaction, and the next one.\<close>

definition late_heartbeat :: "nat \<Rightarrow> database \<Rightarrow> database" where
  "late_heartbeat k db = (if k = 5 then db\<lparr>db_hosts := map (\<lambda>h. h\<lparr>hr_LastHeartbeat := Some (499 * Second)\<rparr>) (db_hosts db)\<rparr> else db)"

definition heardHost :: "time \<Rightarrow> database \<Rightarrow> bool" where
  "heardHost now db \<longleftrightarrow> list_all (\<lambda>h. \<not> silentSince (now - hostDeadAfter) h) (db_hosts db)"

theorem sweep_frees_only_silent_witness:
  "\<exists>res k' db' tr. sweepStaleHosts (tracedStore dbWatch) (besides late_heartbeat) (500 * Second) (0, (demo_watch_db, [])) = (res, (k', (db', tr)))
     \<and> length tr = 6 \<and> \<not> heardHost (500 * Second) (fst (tr ! 4)) \<and> heardHost (500 * Second) (fst (tr ! 5))
     \<and> db_replicas (snd (tr ! 5)) = db_replicas (fst (tr ! 5))"
proof -
  let ?run = "sweepStaleHosts (tracedStore dbWatch) (besides late_heartbeat) (500 * Second) (0, (demo_watch_db, []))"
  obtain res k' db' tr where run: "?run = (res, (k', (db', tr)))" by (metis prod.collapse)
  have "(case ?run of (res, (k', (db', tr))) \<Rightarrow> length tr = 6 \<and> \<not> heardHost (500 * Second) (fst (tr ! 4)) \<and> heardHost (500 * Second) (fst (tr ! 5)))"
    by code_simp
  then have tr: "length tr = 6" "\<not> heardHost (500 * Second) (fst (tr ! 4))" "heardHost (500 * Second) (fst (tr ! 5))"
    by (simp_all add: run)
  obtain a b where ab: "tr ! 5 = (a, b)" by fastforce
  then have "(a, b) \<in> set tr" using tr(1) nth_mem [of 5 tr] by simp
  with sweep_frees_only_silent [OF run] tr(3) ab have "list_all2 (\<lambda>r r'. r' = r) (db_replicas a) (db_replicas b)"
    by (fastforce simp: heardHost_def list_all_iff elim!: list_all2_mono)
  then have "db_replicas b = db_replicas a"
    by (simp add: list_all2_conv_all_nth list_eq_iff_nth_eq)
  then have "db_replicas (snd (tr ! 5)) = db_replicas (fst (tr ! 5))" by (simp add: ab)
  with run tr show ?thesis by blast
qed

end
