(* ===== verification/Supervisor.thy ===== *)
theory Supervisor
  imports Schema
begin

text \<open>
  The loops around the passes: \<^verbatim>\<open>Engine.run\<close>, \<^verbatim>\<open>Watchdog.run\<close> and \<^verbatim>\<open>supervisor.run\<close>
  (\<^verbatim>\<open>internal/engine/engine.go\<close>, \<^verbatim>\<open>watchdog.go\<close>, \<^verbatim>\<open>supervisor.go\<close>). A loop may run for ever, so each is a
  function of the outcomes of its iterations so far: it consumes a finite list of them and says
  whether it is still running, has stopped, or has given up. An outcome carries the error of the body
  (if any) and what the context says at the two places where the loop looks at it. Timers only pace
  the iterations.
\<close>

section \<open>The engine's and the watchdog's loop\<close>

definition reconcileInterval :: duration where "reconcileInterval = 2 * Second"
definition watchdogInterval :: duration where "watchdogInterval = 5 * Second"
definition maxConsecutiveFailures :: nat where "maxConsecutiveFailures = 5"

text \<open>\<open>po_ctx\<close>: \<^verbatim>\<open>ctx.Err() != nil\<close> after the body failed; \<open>po_done\<close>: the select took \<^verbatim>\<open>ctx.Done()\<close>.\<close>

record outcome =
  po_err :: "storeError option"
  po_ctx :: bool
  po_done :: bool

datatype loopResult = LoopRunning nat | LoopStopped | LoopGaveUp nat storeError

fun engineRun :: "nat \<Rightarrow> outcome list \<Rightarrow> loopResult" where
  "engineRun failures [] = LoopRunning failures"
| "engineRun failures (p # ps) =
     (case po_err p of
        None \<Rightarrow> if po_done p then LoopStopped else engineRun 0 ps
      | Some e \<Rightarrow>
          if po_ctx p then LoopStopped
          else if failures + 1 \<ge> maxConsecutiveFailures then LoopGaveUp (failures + 1) e
          else if po_done p then LoopStopped else engineRun (failures + 1) ps)"

fun watchdogRun :: "nat \<Rightarrow> outcome list \<Rightarrow> loopResult" where
  "watchdogRun failures [] = LoopRunning failures"
| "watchdogRun failures (p # ps) =
     (if po_done p then LoopStopped
      else case po_err p of
        None \<Rightarrow> watchdogRun 0 ps
      | Some e \<Rightarrow>
          if po_ctx p then LoopStopped
          else if failures + 1 \<ge> maxConsecutiveFailures then LoopGaveUp (failures + 1) e
          else watchdogRun (failures + 1) ps)"

section \<open>The supervisor\<close>

definition supervisorMaxRestarts :: nat where "supervisorMaxRestarts = 3"
definition supervisorStableAfter :: duration where "supervisorStableAfter = Minute"

record supervisor =
  sv_maxRestarts :: nat
  sv_stableAfter :: duration

text \<open>One run of both loops: its error, the context after it, and how long it lasted.\<close>

record runOutcome =
  ro_err :: "storeError option"
  ro_ctx :: bool
  ro_took :: duration

fun supervise :: "supervisor \<Rightarrow> nat \<Rightarrow> runOutcome list \<Rightarrow> loopResult" where
  "supervise s restarts [] = LoopRunning restarts"
| "supervise s restarts (r # rs) =
     (case ro_err r of
        None \<Rightarrow> LoopStopped
      | Some e \<Rightarrow>
          if ro_ctx r then LoopStopped
          else let restarts1 = (if ro_took r \<ge> sv_stableAfter s then 0 else restarts) + 1
               in if restarts1 > sv_maxRestarts s then LoopGaveUp restarts1 e
                  else supervise s restarts1 rs)"

definition defaultSupervisor :: supervisor where
  "defaultSupervisor = \<lparr>sv_maxRestarts = supervisorMaxRestarts, sv_stableAfter = supervisorStableAfter\<rparr>"

section \<open>Exactly when a loop gives up\<close>

text \<open>A counter that a step resets or increments, and the first time it passes a bound.\<close>

definition counter :: "('a \<Rightarrow> nat \<Rightarrow> nat) \<Rightarrow> nat \<Rightarrow> 'a list \<Rightarrow> nat" where
  "counter step n xs = foldl (\<lambda>n x. step x n) n xs"

lemma counter_simps [simp]:
  "counter step n [] = n" "counter step n (x # xs) = counter step (step x n) xs"
  by (simp_all add: counter_def)

definition failed :: "outcome \<Rightarrow> bool" where
  "failed p \<longleftrightarrow> po_err p \<noteq> None \<and> \<not> po_ctx p"

definition goesOn :: "outcome \<Rightarrow> bool" where
  "goesOn p \<longleftrightarrow> \<not> po_done p \<and> (po_err p \<noteq> None \<longrightarrow> \<not> po_ctx p)"

text \<open>How many failures end a list of outcomes.\<close>

definition streak :: "outcome list \<Rightarrow> nat" where
  "streak ps = length (takeWhile failed (rev ps))"

lemma counter_streak:
  "counter (\<lambda>p n. if failed p then Suc n else 0) n ps = streak ps + (if list_all failed ps then n else 0)"
proof (induction ps arbitrary: n)
  case (Cons p ps)
  have "takeWhile failed (rev ps @ [p]) = (if list_all failed ps then rev ps @ takeWhile failed [p] else takeWhile failed (rev ps))"
    by (auto simp: list_all_iff takeWhile_append)
  moreover have "list_all failed ps \<Longrightarrow> length (takeWhile failed (rev ps)) = length ps"
    by (metis length_rev list_all_iff set_rev takeWhile_eq_all_conv)
  ultimately show ?case
    by (simp add: Cons.IH streak_def)
qed (simp add: streak_def)

lemma engineRun_counter:
  assumes "f < 5"
  shows "engineRun f ps = LoopGaveUp n e \<longleftrightarrow> n = 5 \<and> (\<exists>k < length ps. list_all goesOn (take k ps)
     \<and> failed (ps ! k) \<and> po_err (ps ! k) = Some e
     \<and> counter (\<lambda>p n. if failed p then Suc n else 0) f (take (Suc k) ps) = 5
     \<and> (\<forall>j < Suc k. counter (\<lambda>p n. if failed p then Suc n else 0) f (take j ps) < 5))"
  using assms
proof (induction ps arbitrary: f)
  case (Cons p ps)
  have first: "engineRun f (p # ps) =
     (if failed p \<and> f = 4 then LoopGaveUp 5 (the (po_err p))
      else if \<not> goesOn p then LoopStopped
      else engineRun (if failed p then Suc f else 0) ps)"
    using Cons.prems by (auto simp: failed_def goesOn_def maxConsecutiveFailures_def split: option.splits)
  show ?case
  proof (cases "failed p \<and> f = 4")
    case True
    then have "po_err p \<noteq> None" by (simp add: failed_def)
    with True Cons.prems show ?thesis
      unfolding first by (auto simp: Ex_less_Suc2 All_less_Suc2 simp del: engineRun.simps)
  next
    case False
    then have "(if failed p then Suc f else 0) < 5"
      using Cons.prems by auto
    from Cons.IH [OF this] False Cons.prems show ?thesis
      unfolding first by (auto simp: Ex_less_Suc2 All_less_Suc2 simp del: engineRun.simps)
  qed
qed simp

text \<open>
  C15: The engine's loop gives up exactly when the last five passes in a row failed for the first time,
  with the error of the fifth; a success in between starts the count anew, and neither a pass that was
  cancelled nor one after which the context ended counts. So a fault that lasts five passes always
  takes the engine down, and one that does not never does.
\<close>
theorem engine_gives_up_exactly:
  "engineRun 0 ps = LoopGaveUp n e \<longleftrightarrow> n = 5 \<and> (\<exists>k < length ps. list_all goesOn (take k ps)
     \<and> failed (ps ! k) \<and> po_err (ps ! k) = Some e
     \<and> streak (take (Suc k) ps) = 5 \<and> (\<forall>j < Suc k. streak (take j ps) < 5))"
  using engineRun_counter [of 0 ps n e] by (simp add: counter_streak)

definition demo_failure :: outcome where
  "demo_failure = \<lparr>po_err = Some ErrDriver, po_ctx = False, po_done = False\<rparr>"

theorem engine_gives_up_exactly_witness:
  "\<exists>k < length (replicate 5 demo_failure). streak (take (Suc k) (replicate 5 demo_failure)) = 5"
proof -
  have "engineRun 0 (replicate 5 demo_failure) = LoopGaveUp 5 ErrDriver"
    by code_simp
  then show ?thesis
    unfolding engine_gives_up_exactly by blast
qed

text \<open>The watchdog looks at the context before a sweep, the engine after a pass: the same loop, shifted.\<close>

fun shiftDone :: "outcome list \<Rightarrow> outcome list" where
  "shiftDone [] = []"
| "shiftDone [p] = [p\<lparr>po_done := False\<rparr>]"
| "shiftDone (p # q # ps) = p\<lparr>po_done := po_done q\<rparr> # shiftDone (q # ps)"

text \<open>
  The watchdog's loop is the engine's loop with the look at the context moved to the front: on any
  outcomes the two return the same, once each outcome takes the context flag of the next one.
\<close>
theorem watchdog_run_as_engine:
  "watchdogRun f ps = (if ps \<noteq> [] \<and> po_done (hd ps) then LoopStopped else engineRun f (shiftDone ps))"
proof (induction ps arbitrary: f rule: shiftDone.induct)
  case (3 p q ps)
  show ?case
    by (simp add: 3 watchdogRun.simps(2) [of f p "q # ps"] del: watchdogRun.simps(2) split: option.split)
qed (simp_all split: option.split)

section \<open>Exactly when the supervisor gives up\<close>

definition crashed :: "runOutcome \<Rightarrow> bool" where
  "crashed r \<longleftrightarrow> ro_err r \<noteq> None \<and> \<not> ro_ctx r"

definition unstable :: "supervisor \<Rightarrow> runOutcome \<Rightarrow> bool" where
  "unstable s r \<longleftrightarrow> ro_took r < sv_stableAfter s"

text \<open>The run of crashes, each but the first after less than the stable time, that ends a list.\<close>

definition backToBack :: "supervisor \<Rightarrow> runOutcome list \<Rightarrow> nat" where
  "backToBack s rs = (if rs = [] then 0 else Suc (length (takeWhile (unstable s) (rev (tl rs)))))"

abbreviation restartStep :: "supervisor \<Rightarrow> runOutcome \<Rightarrow> nat \<Rightarrow> nat" where
  "restartStep s \<equiv> (\<lambda>r n. Suc (if unstable s r then n else 0))"

lemma counter_unstable:
  "counter (restartStep s) (Suc n) rs =
     Suc (length (takeWhile (unstable s) (rev rs))) + (if list_all (unstable s) rs then n else 0)"
proof (induction rs arbitrary: n)
  case (Cons r rs)
  have "takeWhile (unstable s) (rev rs @ [r]) = (if list_all (unstable s) rs then rev rs @ takeWhile (unstable s) [r] else takeWhile (unstable s) (rev rs))"
    by (auto simp: list_all_iff takeWhile_append)
  moreover have "list_all (unstable s) rs \<Longrightarrow> length (takeWhile (unstable s) (rev rs)) = length rs"
    by (metis length_rev list_all_iff set_rev takeWhile_eq_all_conv)
  ultimately show ?case
    using Cons.IH [of "Suc n"] Cons.IH [of 0] by simp
qed simp

lemma counter_backToBack: "counter (restartStep s) 0 rs = backToBack s rs"
  by (cases rs) (simp_all add: backToBack_def counter_unstable)

lemma supervise_counter:
  assumes "f \<le> sv_maxRestarts s"
  shows "supervise s f rs = LoopGaveUp n e \<longleftrightarrow> n = Suc (sv_maxRestarts s) \<and> (\<exists>k < length rs.
     list_all crashed (take (Suc k) rs) \<and> ro_err (rs ! k) = Some e
     \<and> counter (restartStep s) f (take (Suc k) rs) = Suc (sv_maxRestarts s)
     \<and> (\<forall>j < Suc k. counter (restartStep s) f (take j rs) \<le> sv_maxRestarts s))"
  using assms
proof (induction rs arbitrary: f)
  case (Cons r rs)
  let ?f = "restartStep s r f"
  have le: "?f \<le> Suc (sv_maxRestarts s)"
    using Cons.prems by simp
  have first: "supervise s f (r # rs) =
     (if \<not> crashed r then LoopStopped
      else if ?f = Suc (sv_maxRestarts s) then LoopGaveUp ?f (the (ro_err r))
      else supervise s ?f rs)"
    using Cons.prems by (auto simp: crashed_def unstable_def Let_def split: option.splits)
  show ?case
  proof (cases "?f = Suc (sv_maxRestarts s)")
    case True
    with Cons.prems show ?thesis
      unfolding first by (auto simp: Ex_less_Suc2 All_less_Suc2 crashed_def simp del: supervise.simps)
  next
    case False
    with le have "?f \<le> sv_maxRestarts s" by linarith
    from Cons.IH [OF this] False Cons.prems show ?thesis
      unfolding first by (auto simp: Ex_less_Suc2 All_less_Suc2 simp del: supervise.simps)
  qed
qed simp

text \<open>
  The supervisor gives up exactly at the crash that makes its budget of restarts plus one back to
  back, where a crash is back to back with the previous one when the run between them lasted less than
  the stable time; a stable run gives the whole budget back. So a fleet whose every run is stable is
  restarted for ever, and one that keeps crashing early stops after the budget.
\<close>
theorem supervisor_gives_up_exactly:
  "supervise s 0 rs = LoopGaveUp n e \<longleftrightarrow> n = Suc (sv_maxRestarts s) \<and> (\<exists>k < length rs.
     list_all crashed (take (Suc k) rs) \<and> ro_err (rs ! k) = Some e
     \<and> backToBack s (take (Suc k) rs) = Suc (sv_maxRestarts s)
     \<and> (\<forall>j < Suc k. backToBack s (take j rs) \<le> sv_maxRestarts s))"
  using supervise_counter [of 0 s rs n e] by (simp only: counter_backToBack zero_le simp_thms)

definition demo_crash :: runOutcome where
  "demo_crash = \<lparr>ro_err = Some ErrDriver, ro_ctx = False, ro_took = 10 * Second\<rparr>"

theorem supervisor_gives_up_exactly_witness:
  "\<exists>k < length (replicate 4 demo_crash). backToBack defaultSupervisor (take (Suc k) (replicate 4 demo_crash)) = 4"
proof -
  have "supervise defaultSupervisor 0 (replicate 4 demo_crash) = LoopGaveUp 4 ErrDriver"
    by code_simp
  then show ?thesis
    unfolding supervisor_gives_up_exactly by (auto simp: defaultSupervisor_def supervisorMaxRestarts_def)
qed

end
