(* ===== verification/GoStrings.thy ===== *)
theory GoStrings
  imports GoNum
begin

text \<open>
  What the code uses of packages \<^verbatim>\<open>strings\<close> and \<^verbatim>\<open>strconv\<close>. A Go string is a sequence of bytes, here a
  list of characters; a multi-byte rune is its UTF-8 encoding.
\<close>

section \<open>Spaces\<close>

definition bytes :: "nat list \<Rightarrow> string" where
  "bytes ns = map char_of ns"

text \<open>The encodings of the runes \<^verbatim>\<open>unicode.IsSpace\<close> accepts.\<close>

definition spaceRunes :: "string list" where
  "spaceRunes = map bytes
     ([[9], [10], [11], [12], [13], [32], [194, 133], [194, 160], [225, 154, 128]]
      @ map (\<lambda>n. [226, 128, n]) [128, 129, 130, 131, 132, 133, 134, 135, 136, 137, 138, 168, 169, 175]
      @ [[226, 129, 159], [227, 128, 128]])"

definition hasPrefix :: "string \<Rightarrow> string \<Rightarrow> bool" where
  "hasPrefix s p \<longleftrightarrow> take (length p) s = p"

definition hasSuffix :: "string \<Rightarrow> string \<Rightarrow> bool" where
  "hasSuffix s p \<longleftrightarrow> length p \<le> length s \<and> drop (length s - length p) s = p"

lemma spaceRunes_nonempty: "\<forall>p \<in> set spaceRunes. p \<noteq> []"
  by (simp add: spaceRunes_def bytes_def)

lemma hasPrefix_shorter: "hasPrefix s p \<Longrightarrow> length p \<le> length s"
  unfolding hasPrefix_def by (metis length_take min.cobounded1)

function trimLeft :: "string \<Rightarrow> string" where
  "trimLeft s = (case find (hasPrefix s) spaceRunes of None \<Rightarrow> s | Some p \<Rightarrow> trimLeft (drop (length p) s))"
  by pat_completeness auto
termination
proof (relation "measure length")
  fix s p
  assume "find (hasPrefix s) spaceRunes = Some p"
  then have "p \<in> set spaceRunes" "hasPrefix s p"
    by (auto dest: find_Some_set)
  then have "p \<noteq> []" "length p \<le> length s"
    using spaceRunes_nonempty hasPrefix_shorter by auto
  then show "(drop (length p) s, s) \<in> measure length"
    by (cases p) auto
qed simp

function trimRight :: "string \<Rightarrow> string" where
  "trimRight s = (case find (hasSuffix s) spaceRunes of None \<Rightarrow> s | Some p \<Rightarrow> trimRight (take (length s - length p) s))"
  by pat_completeness auto
termination
proof (relation "measure length")
  fix s p
  assume "find (hasSuffix s) spaceRunes = Some p"
  then have "p \<in> set spaceRunes" "length p \<le> length s"
    by (auto simp: hasSuffix_def dest: find_Some_set)
  then have "0 < length p" "length p \<le> length s"
    using spaceRunes_nonempty by auto
  then have "length s - length p < length s" by linarith
  then show "(take (length s - length p) s, s) \<in> measure length"
    by simp
qed simp

declare trimLeft.simps [simp del] trimRight.simps [simp del]

definition TrimSpace :: "string \<Rightarrow> string" where
  "TrimSpace s = trimRight (trimLeft s)"

section \<open>Cutting\<close>

definition CutSuffix :: "string \<Rightarrow> string \<Rightarrow> string \<times> bool" where
  "CutSuffix s suffix = (if hasSuffix s suffix then (take (length s - length suffix) s, True) else (s, False))"

text \<open>\<^verbatim>\<open>strings.Cut(s, sep)\<close> for a separator of one byte.\<close>

definition Cut :: "string \<Rightarrow> char \<Rightarrow> string \<times> string \<times> bool" where
  "Cut s c = (if c \<in> set s then (takeWhile (\<lambda>x. x \<noteq> c) s, tl (dropWhile (\<lambda>x. x \<noteq> c) s), True) else (s, [], False))"

text \<open>\<^verbatim>\<open>strings.TrimRight(s, cutset)\<close> for a cutset of one byte.\<close>

definition TrimRight :: "string \<Rightarrow> char \<Rightarrow> string" where
  "TrimRight s c = rev (dropWhile (\<lambda>x. x = c) (rev s))"

section \<open>Integers in decimal\<close>

definition digit_val :: "char \<Rightarrow> int option" where
  "digit_val c = (let n = int (of_char c) in if 48 \<le> n \<and> n \<le> 57 then Some (n - 48) else None)"

fun digits_val :: "int \<Rightarrow> string \<Rightarrow> int option" where
  "digits_val acc [] = Some acc"
| "digits_val acc (c # cs) = (case digit_val c of None \<Rightarrow> None | Some d \<Rightarrow> digits_val (10 * acc + d) cs)"

text \<open>
  \<^verbatim>\<open>strconv.ParseInt(s, 10, 64)\<close> and \<^verbatim>\<open>strconv.Atoi\<close>: an optional sign, at least one decimal digit, and a
  value that fits; any other text is an error.
\<close>

definition Atoi :: "string \<Rightarrow> int option" where
  "Atoi s =
     (let neg = (s \<noteq> [] \<and> hd s = CHR ''-'');
          body = (if s \<noteq> [] \<and> (hd s = CHR ''-'' \<or> hd s = CHR ''+'') then tl s else s)
      in if body = [] then None
         else case digits_val 0 body of
                None \<Rightarrow> None
              | Some n \<Rightarrow> let v = (if neg then - n else n) in if is_int64 v then Some v else None)"

fun decimal :: "nat \<Rightarrow> string" where
  "decimal n = (if n < 10 then [char_of (48 + n)] else decimal (n div 10) @ [char_of (48 + n mod 10)])"

declare decimal.simps [simp del]

lemma digit_val_char: "n < 10 \<Longrightarrow> digit_val (char_of (48 + n)) = Some (int n)"
  by (simp add: digit_val_def Let_def)

lemma digits_val_append:
  "digits_val acc (xs @ ys) = (case digits_val acc xs of None \<Rightarrow> None | Some a \<Rightarrow> digits_val a ys)"
  by (induction xs arbitrary: acc) (auto split: option.splits)

lemma digits_val_decimal: "digits_val 0 (decimal n) = Some (int n)"
proof (induction n rule: decimal.induct)
  case (1 n)
  show ?case
  proof (cases "n < 10")
    case True
    then show ?thesis by (subst decimal.simps) (simp add: digit_val_char)
  next
    case False
    with 1 have "digits_val 0 (decimal (n div 10)) = Some (int (n div 10))" by simp
    moreover have "10 * int (n div 10) + int (n mod 10) = int n"
      by presburger
    ultimately show ?thesis
      using False by (subst decimal.simps) (simp add: digits_val_append digit_val_char)
  qed
qed

text \<open>Characters of a number: the digits, which no space rune begins or ends with.\<close>

definition digit_char :: "char \<Rightarrow> bool" where
  "digit_char c \<longleftrightarrow> digit_val c \<noteq> None"

lemma digit_char_of [simp]: "(n :: nat) < 10 \<Longrightarrow> digit_char (char_of (48 + n))"
  by (simp add: digit_char_def digit_val_char)

lemma decimal_nonempty [simp]: "decimal n \<noteq> []"
  by (subst decimal.simps) simp

lemma decimal_digits: "\<forall>c \<in> set (decimal n). digit_char c"
proof (induction n rule: decimal.induct)
  case (1 n)
  then show ?case
    by (cases "n < 10") (subst decimal.simps, simp)+
qed

lemma digit_char_neq: "digit_char c \<Longrightarrow> c \<noteq> CHR ''-'' \<and> c \<noteq> CHR ''+'' \<and> c \<noteq> CHR ''.'' \<and> c \<noteq> CHR ''m'' \<and> c \<noteq> CHR ''i''"
  by (auto simp: digit_char_def digit_val_def Let_def)

lemma digits_val_digits: "\<forall>c \<in> set s. digit_char c \<Longrightarrow> \<exists>n. digits_val a s = Some n"
  by (induction s arbitrary: a) (auto simp: digit_char_def)

lemma Atoi_digits:
  assumes "\<forall>c \<in> set s. digit_char c" "s \<noteq> []" "digits_val 0 s = Some n" "is_int64 n"
  shows "Atoi s = Some n"
proof -
  have "hd s \<noteq> CHR ''-''" "hd s \<noteq> CHR ''+''"
    using assms(1,2) digit_char_neq [of "hd s"] by auto
  with assms show ?thesis
    by (simp add: Atoi_def Let_def)
qed

lemma Atoi_decimal: "int n < 2 ^ 63 \<Longrightarrow> Atoi (decimal n) = Some (int n)"
  using decimal_digits by (intro Atoi_digits digits_val_decimal) (auto simp: is_int64_def)

lemma Atoi_range: "Atoi s = Some n \<Longrightarrow> is_int64 n"
  by (auto simp: Atoi_def Let_def split: if_splits option.splits)

lemma spaceRunes_hd: "list_all (\<lambda>p. \<not> digit_char (hd p) \<and> \<not> digit_char (last p) \<and> hd p \<noteq> CHR ''.'' \<and> last p \<noteq> CHR ''m'' \<and> last p \<noteq> CHR ''i'') spaceRunes"
  by code_simp

lemma trimLeft_id:
  assumes "s \<noteq> []" "digit_char (hd s)"
  shows "trimLeft s = s"
proof -
  have "\<not> hasPrefix s p" if "p \<in> set spaceRunes" for p
  proof
    assume "hasPrefix s p"
    moreover have "p \<noteq> []" using that spaceRunes_nonempty by auto
    ultimately have "hd p = hd s"
      unfolding hasPrefix_def by (cases p; cases s) auto
    then show False
      using that assms spaceRunes_hd by (auto simp: list_all_iff)
  qed
  then have "find (hasPrefix s) spaceRunes = None"
    by (auto simp: find_None_iff)
  then show ?thesis
    by (simp add: trimLeft.simps)
qed

lemma trimRight_id:
  assumes "s \<noteq> []" "digit_char (last s) \<or> last s = CHR ''m'' \<or> last s = CHR ''i''"
  shows "trimRight s = s"
proof -
  have "\<not> hasSuffix s p" if "p \<in> set spaceRunes" for p
  proof
    assume suf: "hasSuffix s p"
    moreover have "p \<noteq> []" using that spaceRunes_nonempty by auto
    ultimately have "last p = last s"
      unfolding hasSuffix_def by (metis drop_eq_Nil2 last_drop leI)
    then show False
      using that assms spaceRunes_hd by (auto simp: list_all_iff)
  qed
  then have "find (hasSuffix s) spaceRunes = None"
    by (auto simp: find_None_iff)
  then show ?thesis
    by (simp add: trimRight.simps)
qed

lemma TrimSpace_id:
  "s \<noteq> [] \<Longrightarrow> digit_char (hd s) \<Longrightarrow> digit_char (last s) \<or> last s = CHR ''m'' \<or> last s = CHR ''i'' \<Longrightarrow> TrimSpace s = s"
  by (simp add: TrimSpace_def trimLeft_id trimRight_id)

lemma CutSuffix_append [simp]: "CutSuffix (s @ t) t = (s, True)"
  by (simp add: CutSuffix_def hasSuffix_def)

lemma hasSuffix_last: "hasSuffix s p \<Longrightarrow> p \<noteq> [] \<Longrightarrow> s \<noteq> [] \<and> last s = last p"
  unfolding hasSuffix_def by (metis drop_eq_Nil2 last_drop leI list.size(3) le_zero_eq length_0_conv)

lemma CutSuffix_other: "t \<noteq> [] \<Longrightarrow> s = [] \<or> last s \<noteq> last t \<Longrightarrow> CutSuffix s t = (s, False)"
  using hasSuffix_last [of s t] by (auto simp: CutSuffix_def)

end
