(* ===== verification/Deployspec.thy ===== *)
theory Deployspec
  imports GoStrings
begin

text \<open>
  Package \<^verbatim>\<open>internal/deployspec\<close>: the committed build and deploy spec of a service, its validation, the
  merge of per-environment overrides, and the parsers of its cpu and memory fields. Go's \<^verbatim>\<open>int\<close> is an
  int64; the conversions to int32 and the 64-bit products are written out, because they wrap. The TOML
  decoder is third-party code: \<open>Load\<close> takes it as a parameter. The rendering of the health check as
  JSON text is in theory \<open>Cli\<close>, which uses it.
\<close>

section \<open>The spec\<close>

record Build =
  bd_Builder :: string
  bd_Dockerfile :: string
  bd_BuildCommand :: string
  bd_Root :: string
  bd_WatchPatterns :: "string list option"

record Deploy =
  dp_StartCommand :: string
  dp_NumReplicas :: "int option"
  dp_Region :: string
  dp_HealthcheckPath :: string
  dp_HealthcheckTimeout :: int
  dp_RestartPolicy :: string
  dp_RestartMaxRetries :: int
  dp_DrainSeconds :: int
  dp_ProgressDeadline :: int
  dp_CPU :: string
  dp_Memory :: string

record EnvOverride =
  eo_Build :: Build
  eo_Deploy :: Deploy

text \<open>The map of overrides as its entries, in the order the runtime ranges over them.\<close>

record Spec =
  sc_Build :: Build
  sc_Deploy :: Deploy
  sc_Environments :: "(string \<times> EnvOverride) list"

definition DefaultRegion :: string where "DefaultRegion = ''us-east-1''"
definition DefaultNumReplicas :: int where "DefaultNumReplicas = 1"
definition DefaultDrainSeconds :: int where "DefaultDrainSeconds = 30"
definition DefaultRestartMax :: int where "DefaultRestartMax = 5"
definition DefaultProgressDeadline :: int where "DefaultProgressDeadline = 600"
definition MaxReplicas :: int where "MaxReplicas = 50"
definition defaultCPUMillicores :: int where "defaultCPUMillicores = 250"
definition defaultMemBytes :: int where "defaultMemBytes = 256 * 2 ^ 20"

definition validBuilders :: "string list" where
  "validBuilders = [''nixpacks'', ''dockerfile'', ''buildpacks'']"

definition validRestartPolicies :: "string list" where
  "validRestartPolicies = [''never'', ''on-failure'', ''always'']"

definition orStr :: "string \<Rightarrow> string \<Rightarrow> string" where
  "orStr v fallback = (if v \<noteq> '''' then v else fallback)"

definition orInt :: "int \<Rightarrow> int \<Rightarrow> int" where
  "orInt v fallback = (if v \<noteq> 0 then v else fallback)"

definition orDefaultInt32 :: "int \<Rightarrow> int \<Rightarrow> int" where
  "orDefaultInt32 v fallback = (if v = 0 then fallback else v)"

section \<open>The resource parsers\<close>

datatype specError =
    ErrBuilder | ErrDockerfile | ErrRestartPolicy | ErrNumReplicas | ErrRestartMaxRetries
  | ErrDrainSeconds | ErrProgressDeadline | ErrHealthcheckTimeout | ErrCPU | ErrMemory

definition coresToMillicores :: "string \<Rightarrow> int option" where
  "coresToMillicores raw =
     (let (whole, frac, hasFrac) = Cut raw (CHR ''.'')
      in case (if whole \<noteq> '''' then Atoi whole else Some 0) of
           None \<Rightarrow> None
         | Some w \<Rightarrow>
             if w < 0 then None
             else let milli = to_int64 (w * 1000)
                  in if hasFrac
                     then let frac = TrimRight frac (CHR ''0'')
                          in if length frac > 3 then None
                             else if frac \<noteq> ''''
                             then case Atoi (frac @ replicate (3 - length frac) (CHR ''0'')) of
                                    None \<Rightarrow> None
                                  | Some f \<Rightarrow> if f < 0 then None else Some (to_int32 (to_int64 (milli + f)))
                             else Some (to_int32 milli)
                     else Some (to_int32 milli))"

definition parseCPU :: "string \<Rightarrow> specError + int" where
  "parseCPU raw =
     (let raw = TrimSpace raw
      in if raw = '''' then Inr defaultCPUMillicores
         else let (milli, ok) = CutSuffix raw ''m''
              in if ok
                 then case Atoi (TrimSpace milli) of
                        None \<Rightarrow> Inl ErrCPU
                      | Some n \<Rightarrow> if n \<le> 0 then Inl ErrCPU else Inr (to_int32 n)
                 else case coresToMillicores raw of
                        None \<Rightarrow> Inl ErrCPU
                      | Some milli \<Rightarrow> if milli \<le> 0 then Inl ErrCPU else Inr milli)"

definition memUnits :: "(string \<times> int) list" where
  "memUnits = [(''Gi'', 2 ^ 30), (''Mi'', 2 ^ 20), (''Ki'', 2 ^ 10)]"

fun parseMemUnits :: "(string \<times> int) list \<Rightarrow> string \<Rightarrow> specError + int" where
  "parseMemUnits [] raw =
     (case Atoi raw of None \<Rightarrow> Inl ErrMemory | Some n \<Rightarrow> if n \<le> 0 then Inl ErrMemory else Inr n)"
| "parseMemUnits ((suffix, mul) # us) raw =
     (let (num, ok) = CutSuffix raw suffix
      in if ok
         then case Atoi (TrimSpace num) of
                None \<Rightarrow> Inl ErrMemory
              | Some n \<Rightarrow> if n \<le> 0 then Inl ErrMemory else Inr (to_int64 (n * mul))
         else parseMemUnits us raw)"

definition parseMem :: "string \<Rightarrow> specError + int" where
  "parseMem raw =
     (let raw = TrimSpace raw in if raw = '''' then Inr defaultMemBytes else parseMemUnits memUnits raw)"

section \<open>Validation\<close>

text \<open>The first failing check, in the order of the source.\<close>

definition Build_validate :: "Build \<Rightarrow> specError option" where
  "Build_validate b =
     (if bd_Builder b \<noteq> '''' \<and> bd_Builder b \<notin> set validBuilders then Some ErrBuilder
      else if bd_Builder b = ''dockerfile'' \<and> bd_Dockerfile b = '''' then Some ErrDockerfile
      else None)"

definition Deploy_validate :: "Deploy \<Rightarrow> specError option" where
  "Deploy_validate d =
     (if dp_RestartPolicy d \<noteq> '''' \<and> dp_RestartPolicy d \<notin> set validRestartPolicies then Some ErrRestartPolicy
      else if (case dp_NumReplicas d of None \<Rightarrow> False | Some n \<Rightarrow> n < 0 \<or> n > MaxReplicas) then Some ErrNumReplicas
      else if dp_RestartMaxRetries d < 0 then Some ErrRestartMaxRetries
      else if dp_DrainSeconds d < 0 then Some ErrDrainSeconds
      else if dp_ProgressDeadline d < 0 then Some ErrProgressDeadline
      else if dp_HealthcheckTimeout d < 0 then Some ErrHealthcheckTimeout
      else case parseCPU (dp_CPU d) of Inl e \<Rightarrow> Some e
           | Inr _ \<Rightarrow> (case parseMem (dp_Memory d) of Inl e \<Rightarrow> Some e | Inr _ \<Rightarrow> None))"

text \<open>A failing check with the table it is in.\<close>

datatype specTable = InBuild | InDeploy | InEnvBuild string | InEnvDeploy string

fun validateEnvironments :: "(string \<times> EnvOverride) list \<Rightarrow> (specTable \<times> specError) option" where
  "validateEnvironments [] = None"
| "validateEnvironments ((name, ov) # es) =
     (case Build_validate (eo_Build ov) of
        Some e \<Rightarrow> Some (InEnvBuild name, e)
      | None \<Rightarrow> (case Deploy_validate (eo_Deploy ov) of
          Some e \<Rightarrow> Some (InEnvDeploy name, e)
        | None \<Rightarrow> validateEnvironments es))"

definition Spec_validate :: "Spec \<Rightarrow> (specTable \<times> specError) option" where
  "Spec_validate s =
     (case Build_validate (sc_Build s) of
        Some e \<Rightarrow> Some (InBuild, e)
      | None \<Rightarrow> (case Deploy_validate (sc_Deploy s) of
          Some e \<Rightarrow> Some (InDeploy, e)
        | None \<Rightarrow> validateEnvironments (sc_Environments s)))"

datatype loadError = LoadParse | LoadUnknownKeys "string list" | LoadInvalid specTable specError

text \<open>\<open>decode\<close> is the TOML decoder on the file: an error, or the spec with the keys it did not use.\<close>

definition rejectUnknownKeys :: "string list \<Rightarrow> loadError option" where
  "rejectUnknownKeys undecoded = (if undecoded = [] then None else Some (LoadUnknownKeys undecoded))"

definition Load :: "('file \<Rightarrow> (Spec \<times> string list) option) \<Rightarrow> 'file \<Rightarrow> loadError + Spec" where
  "Load decode path =
     (case decode path of
        None \<Rightarrow> Inl LoadParse
      | Some (s, undecoded) \<Rightarrow> (case rejectUnknownKeys undecoded of
          Some e \<Rightarrow> Inl e
        | None \<Rightarrow> (case Spec_validate s of Some (t, e) \<Rightarrow> Inl (LoadInvalid t e) | None \<Rightarrow> Inr s)))"

section \<open>Overrides and defaults\<close>

definition Build_merge :: "Build \<Rightarrow> Build \<Rightarrow> Build" where
  "Build_merge b ov = b\<lparr>bd_Builder := orStr (bd_Builder ov) (bd_Builder b),
     bd_Dockerfile := orStr (bd_Dockerfile ov) (bd_Dockerfile b),
     bd_BuildCommand := orStr (bd_BuildCommand ov) (bd_BuildCommand b),
     bd_Root := orStr (bd_Root ov) (bd_Root b),
     bd_WatchPatterns := (if bd_WatchPatterns ov \<noteq> None then bd_WatchPatterns ov else bd_WatchPatterns b)\<rparr>"

definition Deploy_merge :: "Deploy \<Rightarrow> Deploy \<Rightarrow> Deploy" where
  "Deploy_merge d ov = d\<lparr>dp_StartCommand := orStr (dp_StartCommand ov) (dp_StartCommand d),
     dp_NumReplicas := (if dp_NumReplicas ov \<noteq> None then dp_NumReplicas ov else dp_NumReplicas d),
     dp_Region := orStr (dp_Region ov) (dp_Region d),
     dp_HealthcheckPath := orStr (dp_HealthcheckPath ov) (dp_HealthcheckPath d),
     dp_HealthcheckTimeout := orInt (dp_HealthcheckTimeout ov) (dp_HealthcheckTimeout d),
     dp_RestartPolicy := orStr (dp_RestartPolicy ov) (dp_RestartPolicy d),
     dp_RestartMaxRetries := orInt (dp_RestartMaxRetries ov) (dp_RestartMaxRetries d),
     dp_DrainSeconds := orInt (dp_DrainSeconds ov) (dp_DrainSeconds d),
     dp_ProgressDeadline := orInt (dp_ProgressDeadline ov) (dp_ProgressDeadline d),
     dp_CPU := orStr (dp_CPU ov) (dp_CPU d),
     dp_Memory := orStr (dp_Memory ov) (dp_Memory d)\<rparr>"

definition Resolve :: "Spec \<Rightarrow> string \<Rightarrow> Build \<times> Deploy" where
  "Resolve s env =
     (case map_of (sc_Environments s) env of
        Some ov \<Rightarrow> (Build_merge (sc_Build s) (eo_Build ov), Deploy_merge (sc_Deploy s) (eo_Deploy ov))
      | None \<Rightarrow> (sc_Build s, sc_Deploy s))"

definition RegionOrDefault :: "Deploy \<Rightarrow> string" where
  "RegionOrDefault d = orStr (dp_Region d) DefaultRegion"

definition ReplicasOrDefault :: "Deploy \<Rightarrow> int" where
  "ReplicasOrDefault d = (case dp_NumReplicas d of None \<Rightarrow> DefaultNumReplicas | Some n \<Rightarrow> to_int32 n)"

definition DrainSecondsOrDefault :: "Deploy \<Rightarrow> int" where
  "DrainSecondsOrDefault d = orDefaultInt32 (to_int32 (dp_DrainSeconds d)) DefaultDrainSeconds"

definition RestartMaxOrDefault :: "Deploy \<Rightarrow> int" where
  "RestartMaxOrDefault d = orDefaultInt32 (to_int32 (dp_RestartMaxRetries d)) DefaultRestartMax"

definition ProgressDeadlineOrDefault :: "Deploy \<Rightarrow> int" where
  "ProgressDeadlineOrDefault d = orDefaultInt32 (to_int32 (dp_ProgressDeadline d)) DefaultProgressDeadline"

text \<open>The value of a parser is zero beside an error.\<close>

definition CPUMillicores :: "Deploy \<Rightarrow> int" where
  "CPUMillicores d = (case parseCPU (dp_CPU d) of Inl _ \<Rightarrow> 0 | Inr v \<Rightarrow> v)"

definition MemBytes :: "Deploy \<Rightarrow> int" where
  "MemBytes d = (case parseMem (dp_Memory d) of Inl _ \<Rightarrow> 0 | Inr v \<Rightarrow> v)"

section \<open>Round trips of the parsers\<close>

lemma TrimRight_pad: "TrimRight s c @ replicate (length s - length (TrimRight s c)) c = s"
proof -
  define z where "z = takeWhile (\<lambda>x. x = c) (rev s)"
  have z: "z = replicate (length z) c"
    unfolding z_def by (rule replicate_length_same [symmetric]) (auto dest: set_takeWhileD)
  have "rev s = z @ dropWhile (\<lambda>x. x = c) (rev s)" by (simp add: z_def)
  then have split: "s = TrimRight s c @ rev z"
    unfolding TrimRight_def by (metis rev_append rev_rev_ident)
  have "rev z = replicate (length z) c"
    by (subst z) simp
  moreover have "length s - length (TrimRight s c) = length z"
    using arg_cong [OF split, of length] by simp
  ultimately show ?thesis
    using split by simp
qed

lemma length_TrimRight: "length (TrimRight s c) \<le> length s"
  using arg_cong [OF TrimRight_pad [of s c], of length] by simp

lemma Cut_append: "c \<notin> set w \<Longrightarrow> Cut (w @ c # f) c = (w, f, True)"
  by (induction w) (auto simp: Cut_def)

lemma decimal_ends: "digit_char (hd (decimal n))" "digit_char (last (decimal n))" "CHR ''.'' \<notin> set (decimal n)"
  using decimal_digits [of n] digit_char_neq by (auto simp: hd_in_set last_in_set)

lemma TrimSpace_number:
  "s \<noteq> [] \<Longrightarrow> digit_char (last s) \<or> last s = CHR ''m'' \<or> last s = CHR ''i'' \<Longrightarrow> TrimSpace (decimal n @ s) = decimal n @ s"
  "TrimSpace (decimal n) = decimal n"
  using decimal_ends [of n] by (auto intro!: TrimSpace_id)

definition frac3 :: "nat \<Rightarrow> string" where
  "frac3 n = [char_of (48 + n div 100 mod 10), char_of (48 + n div 10 mod 10), char_of (48 + n mod 10)]"

lemma frac3_digits: "\<forall>c \<in> set (frac3 n). digit_char c" "length (frac3 n) = 3" "frac3 n \<noteq> []" "digit_char (last (frac3 n))"
  by (simp_all add: frac3_def)

lemma digits_val_frac3: "digits_val 0 (frac3 n) = Some (int (n mod 1000))"
proof -
  have "n mod 1000 = 10 * (n div 10 mod 100) + n mod 10"
    using mod_mult2_eq [of n 10 100] by simp
  moreover have "n div 10 mod 100 = 10 * (n div 100 mod 10) + n div 10 mod 10"
    using mod_mult2_eq [of "n div 10" 10 10] by (simp add: div_mult2_eq [symmetric])
  ultimately have "10 * (10 * (n div 100 mod 10) + n div 10 mod 10) + n mod 10 = n mod 1000"
    by simp
  from arg_cong [OF this, of int]
  have "10 * (10 * int (n div 100 mod 10) + int (n div 10 mod 10)) + int (n mod 10) = int (n mod 1000)"
    by (simp only: of_nat_add of_nat_mult of_nat_numeral)
  then show ?thesis
    by (simp add: frac3_def digit_val_char del: of_nat_mod of_nat_div)
qed

lemma Atoi_frac3: "Atoi (frac3 n) = Some (int (n mod 1000))"
  by (rule Atoi_digits) (simp_all add: frac3_digits digits_val_frac3 is_int64_def)

lemma frac3_zero: "TrimRight (frac3 n) (CHR ''0'') = [] \<Longrightarrow> n mod 1000 = 0"
proof -
  assume "TrimRight (frac3 n) (CHR ''0'') = []"
  then have "frac3 n = replicate 3 (CHR ''0'')"
    using TrimRight_pad [of "frac3 n" "CHR ''0''"] by (simp add: frac3_digits)
  then have "digits_val 0 (frac3 n) = Some 0"
    by (simp add: numeral_3_eq_3 digit_val_def Let_def)
  then show ?thesis
    by (simp add: digits_val_frac3)
qed

text \<open>A core count with three decimals is its number of millicores.\<close>

lemma coresToMillicores_parts:
  assumes "Atoi (decimal w) = Some (int w)" "Atoi (frac3 n) = Some (int f)"
    and "TrimRight (frac3 n) (CHR ''0'') = [] \<Longrightarrow> f = 0"
    and "is_int64 (int w * 1000)" "is_int64 (int w * 1000 + int f)"
  shows "coresToMillicores (decimal w @ CHR ''.'' # frac3 n) = Some (to_int32 (int w * 1000 + int f))"
proof -
  let ?t = "TrimRight (frac3 n) (CHR ''0'')"
  have len: "\<not> length ?t > 3"
    using length_TrimRight [of "frac3 n" "CHR ''0''"] frac3_digits(2) [of n] by simp
  have pad: "?t @ replicate (3 - length ?t) (CHR ''0'') = frac3 n"
    using TrimRight_pad [of "frac3 n" "CHR ''0''"] by (simp only: frac3_digits(2))
  show ?thesis
    using assms by (simp add: coresToMillicores_def Cut_append decimal_ends(3) Let_def len pad)
qed

lemma coresToMillicores_print:
  assumes "n < 2 ^ 31"
  shows "coresToMillicores (decimal (n div 1000) @ CHR ''.'' # frac3 n) = Some (int n)"
proof -
  obtain w f where wf: "w = n div 1000" "f = n mod 1000" by blast
  then have n: "n = w * 1000 + f" by simp
  then have "int n = int w * 1000 + int f" by simp
  moreover have "int n < 2 ^ 31" using assms by simp
  ultimately have "int w * 1000 + int f < 2 ^ 31" "int n = int w * 1000 + int f" by simp_all
  then have "coresToMillicores (decimal w @ CHR ''.'' # frac3 n) = Some (to_int32 (int w * 1000 + int f))"
    using frac3_zero [of n] Atoi_frac3 [of n] wf(2)
    by (intro coresToMillicores_parts Atoi_decimal) (auto simp: is_int64_def)
  then show ?thesis
    using \<open>int w * 1000 + int f < 2 ^ 31\<close> by (simp add: \<open>int n = int w * 1000 + int f\<close> is_int32_def wf(1))
qed

lemma parseCPU_milli:
  assumes "0 < n" "int n < 2 ^ 63"
  shows "parseCPU (decimal n @ ''m'') = Inr (to_int32 (int n))"
  using assms Atoi_decimal [of n] by (simp add: parseCPU_def TrimSpace_number Let_def)

lemma parseCPU_cores:
  assumes "0 < n" "n < 2 ^ 31"
  shows "parseCPU (decimal (n div 1000) @ CHR ''.'' # frac3 n) = Inr (int n)"
proof -
  let ?s = "decimal (n div 1000) @ CHR ''.'' # frac3 n"
  have "last ?s = last (frac3 n)"
    using frac3_digits(3) [of n] by simp
  then have "CutSuffix ?s ''m'' = (?s, False)"
    using digit_char_neq [OF frac3_digits(4)] by (intro CutSuffix_other) simp_all
  then show ?thesis
    using assms frac3_digits(3,4) [of n]
    by (simp add: parseCPU_def TrimSpace_number coresToMillicores_print Let_def)
qed

lemma parseMem_bare:
  assumes "0 < b" "int b < 2 ^ 63"
  shows "parseMem (decimal b) = Inr (int b)"
proof -
  have "CutSuffix (decimal b) s = (decimal b, False)" if "s \<in> fst ` set memUnits" for s
    using that digit_char_neq [OF decimal_ends(2) [of b]] by (intro CutSuffix_other) (auto simp: memUnits_def)
  then show ?thesis
    using assms Atoi_decimal [of b] by (simp add: parseMem_def TrimSpace_number Let_def memUnits_def)
qed

lemma parseMem_unit:
  assumes "0 < b" "int b < 2 ^ 63" "(suffix, mul) \<in> set memUnits"
  shows "parseMem (decimal b @ suffix) = Inr (to_int64 (int b * mul))"
proof -
  have sub: "CutSuffix (decimal b @ s) t = (decimal b @ s, False)"
    if "(s, t) \<in> {(''Mi'', ''Gi''), (''Ki'', ''Gi''), (''Ki'', ''Mi'')}" for s t
    using that by (auto simp: CutSuffix_def hasSuffix_def)
  have "suffix = ''Gi'' \<and> mul = 2 ^ 30 \<or> suffix = ''Mi'' \<and> mul = 2 ^ 20 \<or> suffix = ''Ki'' \<and> mul = 2 ^ 10"
    using assms(3) by (auto simp: memUnits_def)
  then show ?thesis
    using assms(1) Atoi_decimal [OF assms(2)] sub
    by (elim disjE) (simp_all add: parseMem_def TrimSpace_number Let_def memUnits_def)
qed

text \<open>
  The resource parsers invert printing: a positive count of millicores that an int32 holds is read
  back from its decimal text with the suffix m and from its text in cores with three decimals, and a
  positive byte count is read back bare and, when the product fits an int64, with each binary unit.
\<close>
theorem resources_roundtrip:
  assumes "0 < n" and "n < 2 ^ 31" and "0 < b" and "(suffix, mul) \<in> set memUnits" and "int b * mul < 2 ^ 63"
  shows "parseCPU (decimal n @ ''m'') = Inr (int n)
    \<and> parseCPU (decimal (n div 1000) @ CHR ''.'' # frac3 n) = Inr (int n)
    \<and> parseMem (decimal b) = Inr (int b) \<and> parseMem (decimal b @ suffix) = Inr (int b * mul)"
proof -
  have "int b \<le> int b * mul"
    using assms(3,4) by (auto simp: memUnits_def)
  then have b: "int b < 2 ^ 63" "is_int64 (int b * mul)"
    using assms(5) unfolding is_int64_def by linarith+
  have "is_int32 (int n)" "int n < 2 ^ 63"
    using assms(2) by (auto simp: is_int32_def)
  then show ?thesis
    using parseCPU_milli [of n] parseCPU_cores [OF assms(1,2)] parseMem_bare [OF assms(3) b(1)]
      parseMem_unit [OF assms(3) b(1) assms(4)] b(2) assms(1) by simp
qed

theorem resources_roundtrip_witness:
  "parseCPU (decimal (1250 div 1000) @ CHR ''.'' # frac3 1250) = Inr 1250 \<and> parseMem (decimal 512 @ ''Mi'') = Inr (512 * 2 ^ 20)"
  using resources_roundtrip [of 1250 512 "''Mi''" "2 ^ 20"] by (simp add: memUnits_def)

text \<open>
  What the parsers accept is not always positive. A count of millicores is reduced to 32 bits and a
  product with a memory unit to 64, after the check that the written number is positive: a cpu of
  2147483648m validates and reserves minus 2^31 millicores, one of 4294967797m reserves 501, and a
  memory of 8589934592Gi is minus 2^63 bytes, although the comments promise a result above zero.
\<close>
theorem resources_wrap:
  "parseCPU (decimal 2147483648 @ ''m'') = Inr (- (2 ^ 31)) \<and> parseCPU (decimal 4294967797 @ ''m'') = Inr 501
   \<and> parseMem (decimal 8589934592 @ ''Gi'') = Inr (- (2 ^ 63)) \<and> parseMem (decimal 17179869185 @ ''Gi'') = Inr (2 ^ 30)"
  using parseMem_unit [of 8589934592 "''Gi''" "2 ^ 30"] parseMem_unit [of 17179869185 "''Gi''" "2 ^ 30"]
  by (simp add: parseCPU_milli memUnits_def to_int32_def to_int64_def)

text \<open>The same reduction turns a validated drain window or progress deadline negative.\<close>

lemma defaults_wrap:
  "dp_DrainSeconds d = 2 ^ 31 \<Longrightarrow> DrainSecondsOrDefault d = - (2 ^ 31)"
  "dp_ProgressDeadline d = 2 ^ 31 \<Longrightarrow> ProgressDeadlineOrDefault d = - (2 ^ 31)"
  by (simp_all add: DrainSecondsOrDefault_def ProgressDeadlineOrDefault_def orDefaultInt32_def to_int32_def)

section \<open>Overrides\<close>

lemma Build_validate_None:
  "Build_validate b = None \<longleftrightarrow> (bd_Builder b = '''' \<or> bd_Builder b \<in> set validBuilders)
     \<and> (bd_Builder b = ''dockerfile'' \<longrightarrow> bd_Dockerfile b \<noteq> '''')"
  by (auto simp: Build_validate_def)

lemma Deploy_validate_None:
  "Deploy_validate d = None \<longleftrightarrow> (dp_RestartPolicy d = '''' \<or> dp_RestartPolicy d \<in> set validRestartPolicies)
     \<and> (\<forall>n. dp_NumReplicas d = Some n \<longrightarrow> 0 \<le> n \<and> n \<le> MaxReplicas)
     \<and> 0 \<le> dp_RestartMaxRetries d \<and> 0 \<le> dp_DrainSeconds d \<and> 0 \<le> dp_ProgressDeadline d
     \<and> 0 \<le> dp_HealthcheckTimeout d
     \<and> (\<exists>c. parseCPU (dp_CPU d) = Inr c) \<and> (\<exists>m. parseMem (dp_Memory d) = Inr m)"
  by (auto simp: Deploy_validate_def split: option.splits sum.splits)

lemma validateEnvironments_None:
  "validateEnvironments es = None \<longleftrightarrow>
     (\<forall>(name, ov) \<in> set es. Build_validate (eo_Build ov) = None \<and> Deploy_validate (eo_Deploy ov) = None)"
  by (induction es rule: validateEnvironments.induct) (auto split: option.splits)

lemma Build_merge_valid:
  "Build_validate b = None \<Longrightarrow> Build_validate ov = None \<Longrightarrow> Build_validate (Build_merge b ov) = None"
  by (auto simp: Build_validate_None Build_merge_def orStr_def)

lemma or_valid:
  "v = '''' \<or> v \<in> S \<Longrightarrow> w = '''' \<or> w \<in> S \<Longrightarrow> orStr v w = '''' \<or> orStr v w \<in> S"
  "0 \<le> i \<Longrightarrow> 0 \<le> j \<Longrightarrow> 0 \<le> orInt i j"
  "\<exists>c. f v = Inr c \<Longrightarrow> \<exists>c. f w = Inr c \<Longrightarrow> \<exists>c. f (orStr v w) = Inr c"
  by (auto simp: orStr_def orInt_def)

lemma Deploy_merge_valid:
  "Deploy_validate d = None \<Longrightarrow> Deploy_validate ov = None \<Longrightarrow> Deploy_validate (Deploy_merge d ov) = None"
  unfolding Deploy_validate_None Deploy_merge_def Deploy.select_convs Deploy.update_convs
  by (cases d) (simp add: or_valid)

text \<open>
  C18: Validation of the file is validation of every deploy it can produce: if a spec loads, then for any
  target environment, with or without an override block, the resolved build and deploy pass every check
  on their own - builder and restart policy known, replica count between 0 and 50, no negative window,
  cpu and memory parsable - so the parsers' discarded errors never occur.
\<close>
theorem resolve_valid:
  assumes "Load decode path = Inr s" and "Resolve s env = (b, d)"
  shows "Build_validate b = None \<and> Deploy_validate d = None
    \<and> parseCPU (dp_CPU d) = Inr (CPUMillicores d) \<and> parseMem (dp_Memory d) = Inr (MemBytes d)"
proof -
  have "Spec_validate s = None"
    using assms(1) by (auto simp: Load_def split: option.splits)
  then have base: "Build_validate (sc_Build s) = None" "Deploy_validate (sc_Deploy s) = None"
    and envs: "validateEnvironments (sc_Environments s) = None"
    by (auto simp: Spec_validate_def split: option.splits)
  have "Build_validate b = None \<and> Deploy_validate d = None"
  proof (cases "map_of (sc_Environments s) env")
    case None
    with assms(2) base show ?thesis by (simp add: Resolve_def)
  next
    case (Some ov)
    then have "(env, ov) \<in> set (sc_Environments s)"
      by (rule map_of_SomeD)
    then have "Build_validate (eo_Build ov) = None" "Deploy_validate (eo_Deploy ov) = None"
      using envs by (auto simp: validateEnvironments_None)
    with Some assms(2) base show ?thesis
      by (auto simp: Resolve_def Build_merge_valid Deploy_merge_valid)
  qed
  then show ?thesis
    by (auto simp: Deploy_validate_None CPUMillicores_def MemBytes_def)
qed

definition zero_Build :: Build where
  "zero_Build = \<lparr>bd_Builder = '''', bd_Dockerfile = '''', bd_BuildCommand = '''', bd_Root = '''', bd_WatchPatterns = None\<rparr>"

definition zero_Deploy :: Deploy where
  "zero_Deploy = \<lparr>dp_StartCommand = '''', dp_NumReplicas = None, dp_Region = '''', dp_HealthcheckPath = '''',
     dp_HealthcheckTimeout = 0, dp_RestartPolicy = '''', dp_RestartMaxRetries = 0, dp_DrainSeconds = 0,
     dp_ProgressDeadline = 0, dp_CPU = '''', dp_Memory = ''''\<rparr>"

definition demo_spec :: Spec where
  "demo_spec = \<lparr>sc_Build = zero_Build, sc_Deploy = zero_Deploy,
     sc_Environments = [(''prod'', \<lparr>eo_Build = zero_Build, eo_Deploy = zero_Deploy\<lparr>dp_NumReplicas := Some 3\<rparr>\<rparr>)]\<rparr>"

theorem resolve_valid_witness: "Deploy_validate (snd (Resolve demo_spec ''prod'')) = None"
proof -
  have trim: "TrimSpace '''' = ''''"
    by code_simp
  then have valid: "Deploy_validate zero_Deploy = None" "Deploy_validate (zero_Deploy\<lparr>dp_NumReplicas := Some 3\<rparr>) = None"
    by (simp_all add: Deploy_validate_None zero_Deploy_def parseCPU_def parseMem_def MaxReplicas_def)
  moreover have "Build_validate zero_Build = None"
    by (simp add: Build_validate_None zero_Build_def)
  ultimately have "Load (\<lambda>_. Some (demo_spec, [])) () = Inr demo_spec"
    by (simp add: Load_def rejectUnknownKeys_def Spec_validate_def demo_spec_def)
  from resolve_valid [OF this surjective_pairing] show ?thesis by blast
qed

lemma or_laws:
  "orStr v '''' = v" "orStr '''' v = v" "orStr (orStr u v) w = orStr u (orStr v w)"
  "orInt i 0 = i" "orInt 0 i = i" "orInt (orInt i j) k = orInt i (orInt j k)"
  by (simp_all add: orStr_def orInt_def)

lemma or_option:
  "(if (if x \<noteq> None then x else y) \<noteq> None then if x \<noteq> None then x else y else z)
     = (if x \<noteq> None then x else if y \<noteq> None then y else z)"
  "(if x \<noteq> None then x else None) = x"
  by simp_all

lemma Deploy_merge_unit: "Deploy_merge d zero_Deploy = d" "Deploy_merge zero_Deploy d = d"
  by (cases d; simp add: Deploy_merge_def zero_Deploy_def or_laws)+

lemma Build_merge_unit: "Build_merge b zero_Build = b" "Build_merge zero_Build b = b"
  by (cases b; simp add: Build_merge_def zero_Build_def or_laws)+

lemma Deploy_merge_assoc: "Deploy_merge (Deploy_merge d e) f = Deploy_merge d (Deploy_merge e f)"
  by (cases d) (simp add: Deploy_merge_def or_laws or_option del: not_None_eq)

lemma Build_merge_assoc: "Build_merge (Build_merge b c) g = Build_merge b (Build_merge c g)"
  by (cases b) (simp add: Build_merge_def or_laws or_option del: not_None_eq)

text \<open>
  Overrides form a monoid: merging the empty block on either side changes nothing, and merging two
  blocks one after the other is merging their merge - a set field of the later block wins, an unset one
  (an empty text, a zero, an absent count) keeps what was there. Hence an override can never set a
  retry limit, a window or a timeout back to zero, while it can set the replica count to zero.
\<close>
theorem override_monoid:
  "Deploy_merge d zero_Deploy = d \<and> Deploy_merge zero_Deploy d = d
   \<and> Deploy_merge (Deploy_merge d e) f = Deploy_merge d (Deploy_merge e f)
   \<and> Build_merge b zero_Build = b \<and> Build_merge zero_Build b = b
   \<and> Build_merge (Build_merge b c) g = Build_merge b (Build_merge c g)"
  by (intro conjI Deploy_merge_unit Build_merge_unit Deploy_merge_assoc Build_merge_assoc)

end
