(* ===== verification/Logbuf.thy ===== *)
theory Logbuf
  imports GoStrings
begin

text \<open>
  Package \<^verbatim>\<open>internal/logbuf\<close>: the ring of recent log lines and its live subscribers. A subscriber's channel
  is an object the ring and the reader share: \<open>ri_chans\<close> is the store of all channels ever made, under
  the subscriber's number, and \<open>ri_subs\<close> the numbers the ring still sends to. Every method runs under
  the ring's mutex, so a concurrent history is a sequence of whole methods and of receives by readers.
  The identifiers are uint64 in the source and unbounded here: they start at one and count log lines.
  What \<^verbatim>\<open>server.go\<close> computes from a request is here, its stream handler in theory \<open>LogStream\<close>.
\<close>

section \<open>The ring\<close>

definition DefaultCapacity :: nat where "DefaultCapacity = 5000"
definition subscriberBuffer :: nat where "subscriberBuffer = 256"

record Line =
  ln_ID :: nat
  ln_Text :: string

record channel =
  ch_buf :: "Line list"
  ch_closed :: bool

record Ring =
  ri_lines :: "Line list"
  ri_start :: nat
  ri_count :: nat
  ri_nextID :: nat
  ri_subs :: "nat list"
  ri_nextSu :: nat
  ri_chans :: "nat \<rightharpoonup> channel"

definition zero_Line :: Line where
  "zero_Line = \<lparr>ln_ID = 0, ln_Text = ''''\<rparr>"

definition New :: "int \<Rightarrow> Ring" where
  "New capacity = \<lparr>ri_lines = replicate (nat (if capacity < 1 then 1 else capacity)) zero_Line, ri_start = 0,
     ri_count = 0, ri_nextID = 1, ri_subs = [], ri_nextSu = 0, ri_chans = Map.empty\<rparr>"

text \<open>The send with a default: a full channel is closed and its subscriber removed.\<close>

definition deliver :: "Line \<Rightarrow> nat list \<Rightarrow> nat \<Rightarrow> channel option \<Rightarrow> channel option" where
  "deliver line subs i ch =
     (if i \<in> set subs
      then map_option (\<lambda>c. if length (ch_buf c) < subscriberBuffer then c\<lparr>ch_buf := ch_buf c @ [line]\<rparr>
                           else c\<lparr>ch_closed := True\<rparr>) ch
      else ch)"

definition hasRoom :: "(nat \<rightharpoonup> channel) \<Rightarrow> nat \<Rightarrow> bool" where
  "hasRoom chans i = (case chans i of None \<Rightarrow> False | Some c \<Rightarrow> length (ch_buf c) < subscriberBuffer)"

definition appendLine :: "string \<Rightarrow> Ring \<Rightarrow> Ring" where
  "appendLine text r =
     (let line = \<lparr>ln_ID = ri_nextID r, ln_Text = text\<rparr>;
          cap = length (ri_lines r);
          full = (ri_count r = cap)
      in r\<lparr>ri_nextID := ri_nextID r + 1,
           ri_lines := (ri_lines r)[(ri_start r + ri_count r) mod cap := line],
           ri_start := (if full then (ri_start r + 1) mod cap else ri_start r),
           ri_count := (if full then ri_count r else ri_count r + 1),
           ri_subs := filter (hasRoom (ri_chans r)) (ri_subs r),
           ri_chans := (\<lambda>i. deliver line (ri_subs r) i (ri_chans r i))\<rparr>)"

text \<open>\<^verbatim>\<open>strings.SplitSeq(s, "\n")\<close>\<close>

fun splitLines :: "string \<Rightarrow> string list" where
  "splitLines [] = [[]]"
| "splitLines (c # cs) =
     (if c = char_of (10 :: nat) then [] # splitLines cs
      else case splitLines cs of [] \<Rightarrow> [[c]] | l # ls \<Rightarrow> (c # l) # ls)"

definition recordsOf :: "string \<Rightarrow> string list" where
  "recordsOf p = filter (\<lambda>raw. TrimSpace raw \<noteq> '''') (splitLines p)"

definition Write :: "string \<Rightarrow> Ring \<Rightarrow> nat \<times> Ring" where
  "Write p r = (length p, fold appendLine (recordsOf p) r)"

definition lineAt :: "Ring \<Rightarrow> nat \<Rightarrow> Line" where
  "lineAt r i = ri_lines r ! ((ri_start r + i) mod length (ri_lines r))"

definition sinceLocked :: "nat \<Rightarrow> Ring \<Rightarrow> Line list" where
  "sinceLocked i r = filter (\<lambda>l. ln_ID l > i) (map (lineAt r) [0..<ri_count r])"

definition lastLocked :: "int \<Rightarrow> Ring \<Rightarrow> Line list" where
  "lastLocked n r =
     (let n = (if n < 0 then 0 else n); k = (if n > int (ri_count r) then ri_count r else nat n)
      in map (lineAt r) [ri_count r - k..<ri_count r])"

definition SubscribeSince :: "nat \<Rightarrow> int \<Rightarrow> Ring \<Rightarrow> (Line list \<times> nat) \<times> Ring" where
  "SubscribeSince since lastLines r =
     (let backlog = (if since = 0 \<or> since \<ge> ri_nextID r then lastLocked lastLines r else sinceLocked since r);
          i = ri_nextSu r
      in ((backlog, i), r\<lparr>ri_nextSu := i + 1, ri_subs := i # ri_subs r,
            ri_chans := (ri_chans r)(i \<mapsto> \<lparr>ch_buf = [], ch_closed = False\<rparr>)\<rparr>))"

text \<open>The function SubscribeSince returns to leave.\<close>

definition unsubscribe :: "nat \<Rightarrow> Ring \<Rightarrow> Ring" where
  "unsubscribe i r =
     (if i \<in> set (ri_subs r)
      then r\<lparr>ri_subs := filter (\<lambda>j. j \<noteq> i) (ri_subs r),
             ri_chans := (ri_chans r)(i := map_option (\<lambda>c. c\<lparr>ch_closed := True\<rparr>) (ri_chans r i))\<rparr>
      else r)"

text \<open>A receive by the reader of channel \<open>i\<close>; a closed channel still yields what it holds.\<close>

definition receive :: "nat \<Rightarrow> Ring \<Rightarrow> (Line \<times> Ring) option" where
  "receive i r = (case ri_chans r i of
       None \<Rightarrow> None
     | Some c \<Rightarrow> (case ch_buf c of
         [] \<Rightarrow> None
       | l # ls \<Rightarrow> Some (l, r\<lparr>ri_chans := (ri_chans r)(i \<mapsto> c\<lparr>ch_buf := ls\<rparr>)\<rparr>)))"

section \<open>What a request asks for\<close>

definition defaultReplay :: int where "defaultReplay = 500"

text \<open>\<^verbatim>\<open>strconv.ParseUint(raw, 10, 64)\<close>: digits only.\<close>

definition ParseUint :: "string \<Rightarrow> nat option" where
  "ParseUint s = (if s = '''' then None else
     case digits_val 0 s of None \<Rightarrow> None | Some n \<Rightarrow> if n < 2 ^ 64 then Some (nat n) else None)"

definition resumeID :: "string \<Rightarrow> string \<Rightarrow> nat" where
  "resumeID lastEventID since =
     (let raw = (if lastEventID = '''' then since else lastEventID)
      in case ParseUint raw of None \<Rightarrow> 0 | Some i \<Rightarrow> i)"

definition requestTail :: "string \<Rightarrow> int" where
  "requestTail q = (case Atoi q of None \<Rightarrow> defaultReplay
     | Some n \<Rightarrow> if n > 0 then min n (int DefaultCapacity) else defaultReplay)"

section \<open>The ring refines the tail of a log\<close>

text \<open>What the ring holds, oldest first; the abstract log is a list that only grows.\<close>

definition held :: "Ring \<Rightarrow> Line list" where
  "held r = map (lineAt r) [0..<ri_count r]"

definition lastn :: "nat \<Rightarrow> 'a list \<Rightarrow> 'a list" where
  "lastn n xs = drop (length xs - n) xs"

definition ring_wf :: "Ring \<Rightarrow> bool" where
  "ring_wf r \<longleftrightarrow> ri_lines r \<noteq> [] \<and> ri_start r < length (ri_lines r) \<and> ri_count r \<le> length (ri_lines r)
     \<and> ri_count r < ri_nextID r \<and> map ln_ID (held r) = [ri_nextID r - ri_count r..<ri_nextID r]"

lemma ring_wf_cong:
  assumes "ri_lines r' = ri_lines r" "ri_start r' = ri_start r" "ri_count r' = ri_count r" "ri_nextID r' = ri_nextID r"
  shows "ring_wf r' = ring_wf r"
proof -
  have "lineAt r' = lineAt r"
    by (simp add: fun_eq_iff lineAt_def assms)
  then show ?thesis
    by (simp add: ring_wf_def held_def assms)
qed

lemma held_New: "held (New c) = []" "ring_wf (New c)" "length (ri_lines (New c)) = nat (max 1 c)"
  by (auto simp: held_def New_def ring_wf_def)

lemma lastn_rev: "lastn n xs = rev (take n (rev xs))"
  by (simp add: lastn_def rev_take)

lemma lastn_snoc:
  "length xs \<le> n \<Longrightarrow> 0 < n \<Longrightarrow> lastn n (xs @ [x]) = (if length xs = n then tl xs else xs) @ [x]"
  by (auto simp: lastn_def drop_Suc)

lemma lastn_lastn: "lastn n (lastn n xs @ [x]) = lastn n (xs @ [x])"
  by (cases n) (simp_all add: lastn_rev)

lemma mod_shift_neq:
  assumes "i < j" "j - i < n"
  shows "(s + i) mod n \<noteq> (s + j) mod (n :: nat)"
proof
  assume "(s + i) mod n = (s + j) mod n"
  then have "n dvd (s + j) - (s + i)"
    using assms(1) mod_eq_dvd_iff_nat [of "s + i" "s + j" n] by simp
  then have "n dvd j - i"
    by (simp add: diff_diff_left [symmetric])
  then show False
    using assms by (auto dest: dvd_imp_le)
qed

text \<open>The slot the next line goes to is not one of those held, unless the ring is full.\<close>

lemma held_append:
  assumes "ring_wf r"
  shows "held (appendLine t r) = lastn (length (ri_lines r)) (held r @ [\<lparr>ln_ID = ri_nextID r, ln_Text = t\<rparr>])"
proof -
  let ?n = "length (ri_lines r)" and ?s = "ri_start r" and ?c = "ri_count r"
  let ?line = "\<lparr>ln_ID = ri_nextID r, ln_Text = t\<rparr>"
  have n: "0 < ?n" "?s < ?n" "?c \<le> ?n"
    using assms by (auto simp: ring_wf_def)
  have neq: "(?s + i) mod ?n \<noteq> (?s + ?c) mod ?n" if "i < ?c" "?c < ?n" for i
    using that by (intro mod_shift_neq) auto
  show ?thesis
  proof (cases "?c = ?n")
    case False
    then have c: "?c < ?n" using n(3) by simp
    have "map (lineAt (appendLine t r)) [0..<?c] = map (lineAt r) [0..<?c]"
      using c neq [THEN not_sym] by (intro map_cong refl) (simp add: lineAt_def appendLine_def Let_def)
    moreover have "lineAt (appendLine t r) ?c = ?line"
      using n False by (simp add: lineAt_def appendLine_def Let_def)
    moreover have "ri_count (appendLine t r) = Suc ?c"
      using False by (simp add: appendLine_def Let_def)
    ultimately show ?thesis
      using c by (simp add: held_def lastn_def)
  next
    case True
    have s': "ri_start (appendLine t r) = (?s + 1) mod ?n" "ri_count (appendLine t r) = ?n"
      "ri_lines (appendLine t r) = (ri_lines r)[?s := ?line]"
      using True n by (auto simp: appendLine_def Let_def)
    have old: "lineAt (appendLine t r) i = lineAt r (Suc i)" if "Suc i < ?n" for i
    proof -
      have "(?s + Suc i) mod ?n \<noteq> ?s"
        using mod_shift_neq [of 0 "Suc i" ?n ?s] that n by simp
      then show ?thesis
        using n by (simp add: lineAt_def s' mod_add_left_eq)
    qed
    obtain m where m: "?n = Suc m" using n(1) by (cases ?n) auto
    have new: "lineAt (appendLine t r) m = ?line"
    proof -
      have "((?s + 1) mod ?n + m) mod ?n = (?s + ?n) mod ?n"
        by (simp add: mod_add_left_eq m)
      then have "((?s + 1) mod ?n + m) mod ?n = ?s"
        using n(2) by simp
      then show ?thesis
        by (simp only: lineAt_def s' length_list_update nth_list_update_eq [OF n(2)])
    qed
    have "held (appendLine t r) = map (lineAt (appendLine t r)) [0..<m] @ [?line]"
      by (simp add: held_def s' m new)
    also have "map (lineAt (appendLine t r)) [0..<m] = map (lineAt r \<circ> Suc) [0..<m]"
      using old m by (intro map_cong refl) simp
    also have "\<dots> = map (lineAt r) [1..<Suc m]"
      by (simp only: map_map [symmetric] map_Suc_upt One_nat_def)
    also have "\<dots> = tl (held r)"
      by (simp add: held_def True m upt_conv_Cons)
    finally show ?thesis
      using True n by (simp add: lastn_snoc held_def)
  qed
qed

lemma appendLine_simps [simp]:
  "length (ri_lines (appendLine t r)) = length (ri_lines r)" "ri_nextID (appendLine t r) = Suc (ri_nextID r)"
  "ri_nextSu (appendLine t r) = ri_nextSu r" "ri_subs (appendLine t r) = filter (hasRoom (ri_chans r)) (ri_subs r)"
  "ri_chans (appendLine t r) i = deliver \<lparr>ln_ID = ri_nextID r, ln_Text = t\<rparr> (ri_subs r) i (ri_chans r i)"
  by (simp_all add: appendLine_def Let_def)

lemma lastn_upt: "k \<le> n \<Longrightarrow> lastn m [k..<n] = [n - min m (n - k)..<n]"
  by (auto simp: lastn_def min_def)

lemma map_lastn: "map f (lastn n xs) = lastn n (map f xs)"
  by (simp add: lastn_def drop_map)

lemma ring_wf_append:
  assumes "ring_wf r"
  shows "ring_wf (appendLine t r)"
proof -
  let ?n = "length (ri_lines r)"
  have wf: "ri_lines r \<noteq> []" "ri_start r < ?n" "ri_count r \<le> ?n" "ri_count r < ri_nextID r"
    "map ln_ID (held r) = [ri_nextID r - ri_count r..<ri_nextID r]"
    using assms by (simp_all add: ring_wf_def)
  have "map ln_ID (held (appendLine t r)) = lastn ?n ([ri_nextID r - ri_count r..<ri_nextID r] @ [ri_nextID r])"
    by (simp add: held_append [OF assms] map_lastn wf(5))
  also have "\<dots> = lastn ?n [ri_nextID r - ri_count r..<Suc (ri_nextID r)]"
    using wf(4) by (simp add: upt_Suc_append)
  also have "\<dots> = [Suc (ri_nextID r) - min ?n (Suc (ri_count r))..<Suc (ri_nextID r)]"
    using wf(4) by (subst lastn_upt) (auto simp: Suc_diff_le)
  also have "min ?n (Suc (ri_count r)) = ri_count (appendLine t r)"
    using wf(3) by (auto simp: appendLine_def Let_def)
  finally have "map ln_ID (held (appendLine t r)) = [ri_nextID (appendLine t r) - ri_count (appendLine t r)..<ri_nextID (appendLine t r)]"
    by simp
  moreover have "ri_start (appendLine t r) < ?n" "ri_count (appendLine t r) \<le> ?n" "ri_count (appendLine t r) < Suc (ri_nextID r)"
    using wf by (auto simp: appendLine_def Let_def)
  moreover have "ri_lines (appendLine t r) \<noteq> []"
    using wf(1) by (simp add: appendLine_def Let_def)
  ultimately show ?thesis
    by (simp add: ring_wf_def)
qed

text \<open>The abstract log: the lines numbered from one on.\<close>

definition numbered :: "nat \<Rightarrow> string list \<Rightarrow> Line list" where
  "numbered n ts = map (\<lambda>(i, t). \<lparr>ln_ID = i, ln_Text = t\<rparr>) (zip [n..<n + length ts] ts)"

lemma numbered_Cons: "numbered n (t # ts) = \<lparr>ln_ID = n, ln_Text = t\<rparr> # numbered (Suc n) ts"
  by (simp add: numbered_def upt_conv_Cons del: upt_Suc)

lemma lastn_append: "lastn n (lastn n xs @ ys) = lastn n (xs @ ys)"
  by (simp add: lastn_rev min_def take_append)

lemma held_fold:
  assumes "ring_wf r"
  shows "ring_wf (fold appendLine ts r) \<and> length (ri_lines (fold appendLine ts r)) = length (ri_lines r)
    \<and> lastn (length (ri_lines r)) (held (fold appendLine ts r)) = lastn (length (ri_lines r)) (held r @ numbered (ri_nextID r) ts)"
  using assms
proof (induction ts arbitrary: r)
  case (Cons t ts)
  from Cons.IH [OF ring_wf_append [OF Cons.prems], of t] show ?case
    by (simp add: held_append [OF Cons.prems] numbered_Cons lastn_append)
qed (simp add: numbered_def)

lemma lastn_held: "ring_wf r \<Longrightarrow> lastn (length (ri_lines r)) (held r) = held r"
  by (simp add: ring_wf_def lastn_def held_def)

text \<open>
  C16: The ring refines a log that forgets: after any sequence of writes to a new ring, whatever the
  writes contain, the ring holds exactly the last lines of the whole history - every non-blank line of
  every write in order, numbered from one - as many as its capacity (at least one) allows; the modular
  arithmetic on start and count loses, repeats and reorders nothing.
\<close>
theorem ring_refines_log:
  "held (fold (\<lambda>p r. snd (Write p r)) ps (New c)) = lastn (nat (max 1 c)) (numbered 1 (concat (map recordsOf ps)))"
proof -
  have "fold (\<lambda>p r. snd (Write p r)) ps r = fold appendLine (concat (map recordsOf ps)) r" for r
    by (induction ps arbitrary: r) (simp_all add: Write_def)
  moreover have "ri_nextID (New c) = 1"
    by (simp add: New_def)
  moreover note held_fold [OF held_New(2) [of c], of "concat (map recordsOf ps)"]
  ultimately show ?thesis
    using lastn_held [of "fold appendLine (concat (map recordsOf ps)) (New c)"] by (simp add: held_New)
qed

section \<open>Sessions: the ring and what its readers have seen\<close>

text \<open>
  A session is a ring with, for each subscriber, the lines its reader has got so far (a ghost value:
  the backlog it was handed and what it received). The steps are the operations of the ring and of its
  readers, in any order.
\<close>

record session =
  ss_ring :: Ring
  ss_seen :: "nat \<Rightarrow> Line list"

inductive session_step :: "session \<Rightarrow> session \<Rightarrow> bool" where
  step_append: "session_step s (s\<lparr>ss_ring := appendLine t (ss_ring s)\<rparr>)"
| step_subscribe: "SubscribeSince since lastLines (ss_ring s) = ((backlog, i), r) \<Longrightarrow>
     session_step s (s\<lparr>ss_ring := r, ss_seen := (ss_seen s)(i := backlog)\<rparr>)"
| step_receive: "receive i (ss_ring s) = Some (l, r) \<Longrightarrow>
     session_step s (s\<lparr>ss_ring := r, ss_seen := (ss_seen s)(i := ss_seen s i @ [l])\<rparr>)"
| step_unsubscribe: "session_step s (s\<lparr>ss_ring := unsubscribe i (ss_ring s)\<rparr>)"

definition session_start :: "int \<Rightarrow> session" where
  "session_start c = \<lparr>ss_ring = New c, ss_seen = (\<lambda>_. [])\<rparr>"

abbreviation session_reach :: "int \<Rightarrow> session \<Rightarrow> bool" where
  "session_reach c \<equiv> session_step\<^sup>*\<^sup>* (session_start c)"

inductive_cases session_stepE: "session_step s s'"

definition consecutive :: "nat list \<Rightarrow> bool" where
  "consecutive ns \<longleftrightarrow> (\<exists>a b. ns = [a..<b])"

definition upto_now :: "nat \<Rightarrow> nat list \<Rightarrow> bool" where
  "upto_now n ns \<longleftrightarrow> (\<exists>a \<le> n. ns = [a..<n])"

text \<open>
  The channel of a live subscriber is open, and what its reader has and will get ends at the newest
  line; that of any subscriber holds no hole and is within its bound.
\<close>

definition live_ok :: "nat \<Rightarrow> Line list \<Rightarrow> channel option \<Rightarrow> bool" where
  "live_ok n seen ch \<longleftrightarrow> (\<exists>c. ch = Some c \<and> \<not> ch_closed c \<and> upto_now n (map ln_ID (seen @ ch_buf c)))"

definition chan_ok :: "Line list \<Rightarrow> channel option \<Rightarrow> bool" where
  "chan_ok seen ch \<longleftrightarrow> (\<forall>c. ch = Some c \<longrightarrow> consecutive (map ln_ID (seen @ ch_buf c)) \<and> length (ch_buf c) \<le> subscriberBuffer)"

definition session_inv :: "session \<Rightarrow> bool" where
  "session_inv s \<longleftrightarrow> ring_wf (ss_ring s)
     \<and> (\<forall>i \<in> set (ri_subs (ss_ring s)). live_ok (ri_nextID (ss_ring s)) (ss_seen s i) (ri_chans (ss_ring s) i))
     \<and> (\<forall>i. chan_ok (ss_seen s i) (ri_chans (ss_ring s) i))
     \<and> (\<forall>i. ri_chans (ss_ring s) i \<noteq> None \<longrightarrow> i < ri_nextSu (ss_ring s))"

lemma session_invD:
  assumes "session_inv s"
  shows "ring_wf (ss_ring s)"
    "\<And>i. i \<in> set (ri_subs (ss_ring s)) \<Longrightarrow> live_ok (ri_nextID (ss_ring s)) (ss_seen s i) (ri_chans (ss_ring s) i)"
    "\<And>i. chan_ok (ss_seen s i) (ri_chans (ss_ring s) i)"
    "\<And>i. ri_chans (ss_ring s) i \<noteq> None \<Longrightarrow> i < ri_nextSu (ss_ring s)"
  using assms unfolding session_inv_def by blast+

lemma upto_now_consecutive: "upto_now n ns \<Longrightarrow> consecutive ns"
  by (auto simp: upto_now_def consecutive_def)

lemma upto_now_snoc: "upto_now n ns \<Longrightarrow> upto_now (Suc n) (ns @ [n])"
  by (auto simp: upto_now_def intro: le_SucI)

lemma session_inv_start: "session_inv (session_start c)"
  using held_New(2) by (simp add: session_inv_def session_start_def) (simp add: New_def chan_ok_def)

lemma live_deliver:
  assumes "live_ok n seen (chans i)" "i \<in> set subs" "hasRoom chans i"
  shows "live_ok (Suc n) seen (deliver \<lparr>ln_ID = n, ln_Text = t\<rparr> subs i (chans i))"
proof -
  obtain c where c: "chans i = Some c" "\<not> ch_closed c" "upto_now n (map ln_ID (seen @ ch_buf c))"
    using assms(1) unfolding live_ok_def by blast
  then show ?thesis
    using assms(2,3) upto_now_snoc [OF c(3)] by (simp add: live_ok_def deliver_def hasRoom_def)
qed

lemma chan_deliver:
  assumes "i \<in> set subs \<Longrightarrow> live_ok n seen (chans i)" "chan_ok seen (chans i)"
  shows "chan_ok seen (deliver \<lparr>ln_ID = n, ln_Text = t\<rparr> subs i (chans i))"
proof (cases "i \<in> set subs \<and> hasRoom chans i")
  case True
  then obtain c where c: "chans i = Some c" "length (ch_buf c) < subscriberBuffer"
    by (auto simp: hasRoom_def split: option.splits)
  from True assms(1) have "live_ok (Suc n) seen (deliver \<lparr>ln_ID = n, ln_Text = t\<rparr> subs i (chans i))"
    by (simp add: live_deliver)
  then show ?thesis
    using c True by (auto simp: live_ok_def chan_ok_def deliver_def dest: upto_now_consecutive)
next
  case False
  then show ?thesis
    using assms(2) by (cases "chans i") (auto simp: chan_ok_def deliver_def hasRoom_def)
qed

lemma session_inv_append:
  assumes "session_inv s"
  shows "session_inv (s\<lparr>ss_ring := appendLine t (ss_ring s)\<rparr>)"
  using session_invD [OF assms]
  by (simp add: session_inv_def ring_wf_append live_deliver chan_deliver) (auto simp: deliver_def)

lemma map_ID_held: "ring_wf r \<Longrightarrow> map ln_ID (map (lineAt r) [0..<ri_count r]) = [ri_nextID r - ri_count r..<ri_nextID r]"
  by (simp add: ring_wf_def held_def)

lemma filter_gt_upt: "filter (\<lambda>n. n > k) [a..<b] = [max a (Suc k)..<b]"
  by (induction b) (auto simp: max_def)

lemma backlog_upto_now:
  assumes "ring_wf r" "SubscribeSince since lastLines r = ((backlog, i), r')"
  shows "upto_now (ri_nextID r) (map ln_ID backlog)"
proof -
  let ?n = "ri_nextID r" and ?c = "ri_count r"
  have "upto_now ?n (map ln_ID (lastLocked m r))" for m
  proof -
    define k where "k = (if (if m < 0 then 0 else m) > int ?c then ?c else nat (if m < 0 then 0 else m))"
    have "k \<le> ?c" by (auto simp: k_def)
    have "map ln_ID (lastLocked m r) = drop (?c - k) (map ln_ID (map (lineAt r) [0..<?c]))"
      by (simp add: lastLocked_def k_def Let_def drop_map)
    also have "\<dots> = [?n - ?c + (?c - k)..<?n]"
      by (simp only: map_ID_held [OF assms(1)] drop_upt)
    finally show ?thesis
      unfolding upto_now_def by (intro exI [of _ "?n - ?c + (?c - k)"]) (use assms(1) in \<open>simp add: ring_wf_def\<close>)
  qed
  moreover have "upto_now ?n (map ln_ID (sinceLocked since r))" if "since < ?n"
  proof -
    have "map ln_ID (sinceLocked since r) = filter (\<lambda>n. n > since) (map ln_ID (map (lineAt r) [0..<?c]))"
      by (simp add: sinceLocked_def filter_map o_def)
    also have "\<dots> = [max (?n - ?c) (Suc since)..<?n]"
      by (simp only: map_ID_held [OF assms(1)] filter_gt_upt)
    finally show ?thesis
      unfolding upto_now_def
      by (intro exI [of _ "max (?n - ?c) (Suc since)"]) (use that assms(1) in \<open>simp add: ring_wf_def\<close>)
  qed
  ultimately show ?thesis
    using assms(2) by (auto simp: SubscribeSince_def Let_def split: if_splits)
qed

lemma session_inv_subscribe:
  assumes "session_inv s" "SubscribeSince since lastLines (ss_ring s) = ((backlog, i), r)"
  shows "session_inv (s\<lparr>ss_ring := r, ss_seen := (ss_seen s)(i := backlog)\<rparr>)"
proof -
  note inv = session_invD [OF assms(1)]
  have r: "i = ri_nextSu (ss_ring s)" "r = (ss_ring s)\<lparr>ri_nextSu := i + 1, ri_subs := i # ri_subs (ss_ring s),
      ri_chans := (ri_chans (ss_ring s))(i \<mapsto> \<lparr>ch_buf = [], ch_closed = False\<rparr>)\<rparr>"
    using assms(2) by (auto simp: SubscribeSince_def Let_def)
  have "i \<notin> set (ri_subs (ss_ring s))"
  proof
    assume "i \<in> set (ri_subs (ss_ring s))"
    from inv(2) [OF this] have "ri_chans (ss_ring s) i \<noteq> None" by (auto simp: live_ok_def)
    with inv(4) r(1) show False by blast
  qed
  moreover have "upto_now (ri_nextID (ss_ring s)) (map ln_ID backlog)"
    by (rule backlog_upto_now [OF inv(1) assms(2)])
  then have "live_ok (ri_nextID (ss_ring s)) backlog (Some \<lparr>ch_buf = [], ch_closed = False\<rparr>)"
    "chan_ok backlog (Some \<lparr>ch_buf = [], ch_closed = False\<rparr>)"
    by (simp_all add: live_ok_def chan_ok_def upto_now_consecutive)
  moreover have "ring_wf r = ring_wf (ss_ring s)"
    by (rule ring_wf_cong) (simp_all add: r(2))
  ultimately show ?thesis
    using inv by (simp add: session_inv_def r(2)) (metis less_Suc_eq r(1))
qed

lemma session_inv_receive:
  assumes "session_inv s" "receive i (ss_ring s) = Some (l, r)"
  shows "session_inv (s\<lparr>ss_ring := r, ss_seen := (ss_seen s)(i := ss_seen s i @ [l])\<rparr>)"
proof -
  note inv = session_invD [OF assms(1)]
  obtain c ls where c: "ri_chans (ss_ring s) i = Some c" "ch_buf c = l # ls"
    and r: "r = (ss_ring s)\<lparr>ri_chans := (ri_chans (ss_ring s))(i \<mapsto> c\<lparr>ch_buf := ls\<rparr>)\<rparr>"
    using assms(2) by (auto simp: receive_def split: option.splits list.splits)
  have "ring_wf r = ring_wf (ss_ring s)"
    by (rule ring_wf_cong) (simp_all add: r)
  moreover have "live_ok n (ss_seen s i @ [l]) (Some (c\<lparr>ch_buf := ls\<rparr>)) = live_ok n (ss_seen s i) (Some c)" for n
    by (simp add: live_ok_def c(2))
  moreover have "chan_ok (ss_seen s i) (Some c) \<Longrightarrow> chan_ok (ss_seen s i @ [l]) (Some (c\<lparr>ch_buf := ls\<rparr>))"
    by (simp add: chan_ok_def c(2))
  ultimately show ?thesis
    using inv c(1) by (simp add: session_inv_def r) (metis option.distinct(1))
qed

lemma session_inv_unsubscribe:
  assumes "session_inv s"
  shows "session_inv (s\<lparr>ss_ring := unsubscribe i (ss_ring s)\<rparr>)"
proof (cases "i \<in> set (ri_subs (ss_ring s))")
  case True
  note inv = session_invD [OF assms]
  have "ring_wf (unsubscribe i (ss_ring s)) = ring_wf (ss_ring s)"
    by (rule ring_wf_cong) (simp_all add: unsubscribe_def)
  moreover have "chan_ok (ss_seen s i) (map_option (\<lambda>c. c\<lparr>ch_closed := True\<rparr>) (ri_chans (ss_ring s) i))"
    using inv(3) [of i] by (auto simp: chan_ok_def)
  ultimately show ?thesis
    using inv True by (simp add: session_inv_def unsubscribe_def)
next
  case False
  with assms show ?thesis by (simp add: unsubscribe_def)
qed

lemma session_inv_step: "session_step s s' \<Longrightarrow> session_inv s \<Longrightarrow> session_inv s'"
  by (erule session_stepE)
    (simp_all add: session_inv_append session_inv_subscribe session_inv_receive session_inv_unsubscribe)

lemma session_inv_reach: "session_reach c s \<Longrightarrow> session_inv s"
  by (induction rule: rtranclp_induct) (auto intro: session_inv_start session_inv_step)

text \<open>
  A reader never sees a hole and never stalls the writer: in every reachable session, whatever the
  interleaving of writes, subscriptions, receives and departures, what a reader has got (its backlog,
  then its channel in order) is a run of consecutive lines; as long as it is subscribed that run ends at
  the newest line once it drains its channel, and the channel never holds more than its bound - a
  reader that lags further is cut off with its channel closed, never served a log with lines missing.
\<close>
theorem reader_sees_no_hole:
  assumes "session_reach cap s" and "ri_chans (ss_ring s) i = Some c"
  shows "consecutive (map ln_ID (ss_seen s i @ ch_buf c)) \<and> length (ch_buf c) \<le> subscriberBuffer
    \<and> (i \<in> set (ri_subs (ss_ring s)) \<longrightarrow> \<not> ch_closed c
        \<and> (\<exists>a \<le> ri_nextID (ss_ring s). map ln_ID (ss_seen s i @ ch_buf c) = [a..<ri_nextID (ss_ring s)]))"
  using session_invD(2,3) [OF session_inv_reach [OF assms(1)], of i] assms(2)
  by (simp add: live_ok_def chan_ok_def upto_now_def)

definition demo_session :: session where
  "demo_session = (session_start 2)\<lparr>ss_ring := snd (SubscribeSince 0 10 (appendLine ''a'' (New 2))), ss_seen := (\<lambda>_. [])(0 := [\<lparr>ln_ID = 1, ln_Text = ''a''\<rparr>])\<rparr>"

theorem reader_sees_no_hole_witness: "consecutive (map ln_ID (ss_seen demo_session 0))"
proof -
  let ?s1 = "(session_start 2)\<lparr>ss_ring := appendLine ''a'' (ss_ring (session_start 2))\<rparr>"
  have sub: "SubscribeSince 0 10 (ss_ring ?s1) = (([\<lparr>ln_ID = 1, ln_Text = ''a''\<rparr>], 0), snd (SubscribeSince 0 10 (appendLine ''a'' (New 2))))"
    by (simp add: session_start_def SubscribeSince_def lastLocked_def appendLine_def New_def lineAt_def Let_def numeral_2_eq_2 zero_Line_def)
  have "session_step (session_start 2) ?s1" by (rule step_append)
  moreover have "session_step ?s1 demo_session"
    using step_subscribe [OF sub] by (simp add: demo_session_def session_start_def)
  ultimately have reach: "session_reach 2 demo_session" by auto
  have "ri_chans (ss_ring demo_session) 0 = Some \<lparr>ch_buf = [], ch_closed = False\<rparr>"
    by (simp add: demo_session_def SubscribeSince_def Let_def New_def)
  from reader_sees_no_hole [OF reach this] show ?thesis by simp
qed

end
