(* ===== verification/LogStream.thy ===== *)
theory LogStream
  imports Logbuf "HOL-Library.Sublist"
begin

text \<open>
  The stream of the engine's log over HTTP (\<^verbatim>\<open>handleStream\<close> of \<^verbatim>\<open>internal/logbuf/server.go\<close>): the request's
  backlog, then live lines and heartbeats as server-sent events, each write of which may fail half-way.
  The response is the text sent; what its client makes of it is the event parser of a browser's
  EventSource, on lines that end with a newline. Every other use of the ring - log writes, readers
  that come, receive and leave - happens in between. Lines end at newlines only:
  a carriage return, at which a browser's parser ends them too, is not among the bytes a logger writes.
\<close>

section \<open>The ring in use\<close>

datatype ringOp = Wrote string | Subscribed nat int | Received nat | Left nat

fun ringStep :: "ringOp \<Rightarrow> Ring \<Rightarrow> Ring" where
  "ringStep (Wrote p) r = snd (Write p r)"
| "ringStep (Subscribed since n) r = snd (SubscribeSince since n r)"
| "ringStep (Received i) r = (case receive i r of None \<Rightarrow> r | Some (l, r') \<Rightarrow> r')"
| "ringStep (Left i) r = unsubscribe i r"

section \<open>The handler\<close>

abbreviation newline :: char where "newline \<equiv> char_of (10 :: nat)"

definition eventText :: "Line \<Rightarrow> string" where
  "eventText l = ''id: '' @ decimal (ln_ID l) @ [newline] @ ''data: '' @ ln_Text l @ [newline, newline]"

definition heartbeatText :: string where "heartbeatText = '': heartbeat'' @ [newline, newline]"

record stream =
  sr_ring :: Ring
  sr_chan :: nat
  sr_body :: string
  sr_open :: bool

text \<open>\<open>torn\<close> tells for a line's number how many bytes get through before its write fails, if it fails.\<close>

fun writeBacklog :: "(nat \<Rightarrow> nat option) \<Rightarrow> Line list \<Rightarrow> string \<times> bool" where
  "writeBacklog torn [] = ('''', True)"
| "writeBacklog torn (l # ls) = (case torn (ln_ID l) of
       Some k \<Rightarrow> (take k (eventText l), False)
     | None \<Rightarrow> map_prod ((@) (eventText l)) id (writeBacklog torn ls))"

text \<open>The handler returns, and with it goes its subscription.\<close>

definition finish :: "stream \<Rightarrow> stream" where
  "finish st = st\<lparr>sr_ring := unsubscribe (sr_chan st) (sr_ring st), sr_open := False\<rparr>"

definition openStream :: "string \<Rightarrow> string \<Rightarrow> string \<Rightarrow> (nat \<Rightarrow> nat option) \<Rightarrow> Ring \<Rightarrow> stream" where
  "openStream lastEventID since tail torn r =
     (let ((backlog, i), r') = SubscribeSince (resumeID lastEventID since) (requestTail tail) r;
          (body, ok) = writeBacklog torn backlog;
          st = \<lparr>sr_ring = r', sr_chan = i, sr_body = body, sr_open = True\<rparr>
      in if ok then st else finish st)"

text \<open>
  What happens while the handler runs: others use the ring - never this reader's channel -, or its
  select finds the context done, a line or the close of the channel, or a beat. A write may be cut short.
\<close>

datatype streamEvent = Others ringOp | LineReady "nat option" | BeatDue "nat option" | HungUp

definition sendText :: "nat option \<Rightarrow> string \<Rightarrow> stream \<Rightarrow> stream" where
  "sendText torn s st = (case torn of
       None \<Rightarrow> st\<lparr>sr_body := sr_body st @ s\<rparr>
     | Some k \<Rightarrow> finish (st\<lparr>sr_body := sr_body st @ take k s\<rparr>))"

definition closedFor :: "nat \<Rightarrow> Ring \<Rightarrow> bool" where
  "closedFor i r = (case ri_chans r i of None \<Rightarrow> False | Some c \<Rightarrow> ch_closed c)"

fun streamStep :: "streamEvent \<Rightarrow> stream \<Rightarrow> stream" where
  "streamStep (Others op) st =
     (if op = Received (sr_chan st) \<or> op = Left (sr_chan st) then st else st\<lparr>sr_ring := ringStep op (sr_ring st)\<rparr>)"
| "streamStep (LineReady torn) st =
     (if \<not> sr_open st then st
      else case receive (sr_chan st) (sr_ring st) of
             Some (l, r) \<Rightarrow> sendText torn (eventText l) (st\<lparr>sr_ring := r\<rparr>)
           | None \<Rightarrow> if closedFor (sr_chan st) (sr_ring st) then finish st else st)"
| "streamStep (BeatDue torn) st = (if sr_open st then sendText torn heartbeatText st else st)"
| "streamStep HungUp st = (if sr_open st then finish st else st)"

section \<open>What the client reads\<close>

text \<open>
  The event parser: the line so far, the last id, the data of the event so far, and the events dispatched. An
  event that was cut off before its empty line is not dispatched.
\<close>

record eventParser =
  ep_line :: string
  ep_id :: string
  ep_data :: "string option"
  ep_events :: "(string \<times> string) list"

definition endLine :: "eventParser \<Rightarrow> eventParser" where
  "endLine p = (let l = ep_line p; p' = p\<lparr>ep_line := ''''\<rparr>
     in if l = '''' then (case ep_data p of None \<Rightarrow> p' | Some d \<Rightarrow> p'\<lparr>ep_data := None, ep_events := ep_events p @ [(ep_id p, d)]\<rparr>)
        else if take 4 l = ''id: '' then p'\<lparr>ep_id := drop 4 l\<rparr>
        else if take 6 l = ''data: ''
        then p'\<lparr>ep_data := Some (case ep_data p of None \<Rightarrow> drop 6 l | Some d \<Rightarrow> d @ newline # drop 6 l)\<rparr>
        else p')"

definition feed :: "char \<Rightarrow> eventParser \<Rightarrow> eventParser" where
  "feed c p = (if c = newline then endLine p else p\<lparr>ep_line := ep_line p @ [c]\<rparr>)"

definition freshParser :: eventParser where
  "freshParser = \<lparr>ep_line = '''', ep_id = '''', ep_data = None, ep_events = []\<rparr>"

definition readEvents :: "string \<Rightarrow> (string \<times> string) list" where
  "readEvents body = ep_events (fold feed body freshParser)"

definition toldLine :: "Line \<Rightarrow> string \<times> string" where
  "toldLine l = (decimal (ln_ID l), ln_Text l)"

lemma fold_feed_line:
  "newline \<notin> set xs \<Longrightarrow> fold feed xs p = p\<lparr>ep_line := ep_line p @ xs\<rparr>"
proof (induction xs arbitrary: p)
  case (Cons x xs)
  then have "x \<noteq> newline" by auto
  with Cons show ?case by (simp add: feed_def)
qed simp

lemma newline_neq [simp]: "newline \<noteq> CHR ''i''" "newline \<noteq> CHR ''d''" "newline \<noteq> CHR '':''" "newline \<noteq> CHR '' ''" "newline \<noteq> CHR ''a''"
  "newline \<noteq> CHR ''t''" "newline \<noteq> CHR ''h''" "newline \<noteq> CHR ''e''" "newline \<noteq> CHR ''r''" "newline \<noteq> CHR ''b''"
  by code_simp+

lemma decimal_no_newline: "newline \<notin> set (decimal n)"
proof
  assume "newline \<in> set (decimal n)"
  with decimal_digits have "digit_char newline" by blast
  moreover have "\<not> digit_char newline" by code_simp
  ultimately show False by blast
qed

definition cleanParser :: "eventParser \<Rightarrow> bool" where
  "cleanParser p \<longleftrightarrow> ep_line p = '''' \<and> ep_data p = None"

text \<open>An event is its two lines, each ended, and an empty line.\<close>

definition idLine :: "Line \<Rightarrow> string" where "idLine l = ''id: '' @ decimal (ln_ID l)"
definition dataLine :: "Line \<Rightarrow> string" where "dataLine l = ''data: '' @ ln_Text l"
definition eventFront :: "Line \<Rightarrow> string" where "eventFront l = idLine l @ [newline] @ dataLine l @ [newline]"

lemma eventText_split: "eventText l = eventFront l @ [newline]"
  by (simp add: eventText_def eventFront_def idLine_def dataLine_def)

lemma feed_event_front:
  assumes "cleanParser p" "newline \<notin> set (ln_Text l)"
  shows "fold feed (eventFront l) p = p\<lparr>ep_id := decimal (ln_ID l), ep_data := Some (ln_Text l)\<rparr>"
proof -
  have "newline \<notin> set (idLine l)" "newline \<notin> set (dataLine l)"
    using decimal_no_newline assms(2) by (auto simp: idLine_def dataLine_def)
  note lines = this [THEN fold_feed_line]
  have "endLine (p\<lparr>ep_line := idLine l\<rparr>) = p\<lparr>ep_id := decimal (ln_ID l)\<rparr>"
    using assms(1) by (cases p) (simp add: endLine_def Let_def cleanParser_def idLine_def)
  moreover have "endLine (p\<lparr>ep_id := decimal (ln_ID l), ep_line := dataLine l\<rparr>) = p\<lparr>ep_id := decimal (ln_ID l), ep_data := Some (ln_Text l)\<rparr>"
    using assms(1) by (cases p) (simp add: endLine_def Let_def cleanParser_def dataLine_def)
  ultimately show ?thesis
    using assms(1) by (simp add: eventFront_def lines feed_def cleanParser_def)
qed

lemma feed_event:
  assumes "cleanParser p" "newline \<notin> set (ln_Text l)"
  shows "fold feed (eventText l) p = p\<lparr>ep_id := decimal (ln_ID l), ep_events := ep_events p @ [toldLine l]\<rparr>"
proof -
  have "fold feed (eventText l) p = endLine (p\<lparr>ep_id := decimal (ln_ID l), ep_data := Some (ln_Text l)\<rparr>)"
    unfolding eventText_split fold_append o_apply feed_event_front [OF assms] by (simp add: feed_def)
  then show ?thesis using assms(1) by (cases p) (simp add: endLine_def Let_def cleanParser_def toldLine_def)
qed

definition beatLine :: string where "beatLine = '': heartbeat''"

lemma feed_heartbeat:
  assumes "cleanParser p"
  shows "fold feed heartbeatText p = p"
proof -
  have "newline \<notin> set beatLine" by code_simp
  note line = fold_feed_line [OF this]
  have "endLine (p\<lparr>ep_line := beatLine\<rparr>) = p" "endLine p = p"
    using assms by (cases p; simp add: endLine_def Let_def cleanParser_def beatLine_def)+
  then have "fold feed (beatLine @ [newline] @ [newline]) p = p"
    using assms by (simp add: line feed_def cleanParser_def)
  then show ?thesis by (simp add: heartbeatText_def beatLine_def)
qed

text \<open>Events are only ever added, so a cut write dispatches nothing, or the event if only its last byte matters.\<close>

lemma feed_grows: "prefix (ep_events p) (ep_events (fold feed xs p))"
proof (induction xs arbitrary: p)
  case (Cons x xs)
  have "prefix (ep_events p) (ep_events (feed x p))"
    by (simp add: feed_def endLine_def Let_def split: option.split)
  with Cons.IH [of "feed x p"] show ?case by (simp add: prefix_order.order_trans)
qed simp

lemma feed_cut:
  assumes "ep_events (fold feed front p) = ep_events p"
  shows "ep_events (fold feed (take k (front @ [c])) p) \<in> {ep_events p, ep_events (fold feed (front @ [c]) p)}"
proof (cases "k \<le> length front")
  case True
  have "fold feed front p = fold feed (drop k front) (fold feed (take k front) p)"
    by (metis append_take_drop_id comp_apply fold_append)
  with feed_grows [of p "take k front"] feed_grows [of "fold feed (take k front) p" "drop k front"] assms
  have "ep_events (fold feed (take k front) p) = ep_events p"
    by (metis prefix_order.antisym)
  with True show ?thesis by simp
qed simp

lemma feed_cut_event:
  assumes "cleanParser p" "newline \<notin> set (ln_Text l)"
  shows "ep_events (fold feed (take k (eventText l)) p) \<in> {ep_events p, ep_events p @ [toldLine l]}"
proof -
  from feed_cut [of "eventFront l" p k newline] feed_event_front [OF assms]
  have "ep_events (fold feed (take k (eventText l)) p) \<in> {ep_events p, ep_events (fold feed (eventText l) p)}"
    unfolding eventText_split by simp
  with feed_event [OF assms] show ?thesis by simp
qed

lemma feed_cut_heartbeat:
  assumes "cleanParser p"
  shows "ep_events (fold feed (take k heartbeatText) p) = ep_events p"
proof -
  have "fold feed heartbeatText p = fold feed (drop k heartbeatText) (fold feed (take k heartbeatText) p)"
    by (metis append_take_drop_id comp_apply fold_append)
  with feed_heartbeat [OF assms] feed_grows [of p "take k heartbeatText"]
    feed_grows [of "fold feed (take k heartbeatText) p" "drop k heartbeatText"]
  show ?thesis by (metis prefix_order.antisym)
qed

section \<open>Every line is the record it was written as\<close>

text \<open>What an operation of the ring, or what happens while the handler runs, writes to the log.\<close>

fun opWrites :: "ringOp \<Rightarrow> string list" where
  "opWrites (Wrote p) = recordsOf p"
| "opWrites _ = []"

fun eventWrites :: "streamEvent \<Rightarrow> string list" where
  "eventWrites (Others op) = opWrites op"
| "eventWrites _ = []"

text \<open>\<open>T\<close> is the log as it will have been written: \<open>tells T n ts\<close> that its records from \<open>n\<close> on are \<open>ts\<close>.\<close>

definition tells :: "(nat \<Rightarrow> string) \<Rightarrow> nat \<Rightarrow> string list \<Rightarrow> bool" where
  "tells T n ts \<longleftrightarrow> (\<forall>j < length ts. T (n + j) = ts ! j)"

lemma tells_Nil [simp]: "tells T n []"
  by (simp add: tells_def)

lemma tells_Cons: "tells T n (t # ts) \<longleftrightarrow> T n = t \<and> tells T (Suc n) ts"
  by (auto simp: tells_def All_less_Suc2)

lemma tells_append: "tells T n (ts @ us) \<longleftrightarrow> tells T n ts \<and> tells T (n + length ts) us"
  by (induction ts arbitrary: n) (auto simp: tells_Cons)

definition lineOK :: "(nat \<Rightarrow> string) \<Rightarrow> Line \<Rightarrow> bool" where
  "lineOK T l \<longleftrightarrow> newline \<notin> set (ln_Text l) \<and> (0 < ln_ID l \<longrightarrow> ln_Text l = T (ln_ID l))"

definition textsOK :: "(nat \<Rightarrow> string) \<Rightarrow> Ring \<Rightarrow> bool" where
  "textsOK T r \<longleftrightarrow> ri_lines r \<noteq> [] \<and> (\<forall>l \<in> set (ri_lines r). lineOK T l) \<and> (\<forall>i c. ri_chans r i = Some c \<longrightarrow> (\<forall>l \<in> set (ch_buf c). lineOK T l))"

lemma splitLines_no_newline: "l \<in> set (splitLines s) \<Longrightarrow> newline \<notin> set l"
proof (induction s arbitrary: l rule: splitLines.induct)
  case (2 x xs)
  show ?case
  proof (cases "x = newline")
    case True
    with 2 show ?thesis by auto
  next
    case False
    with "2.IH"(2) "2.prems" show ?thesis by (cases "splitLines xs") auto
  qed
qed simp

lemma textsOK_append:
  assumes "textsOK T r" "newline \<notin> set t" "T (ri_nextID r) = t"
  shows "textsOK T (appendLine t r)"
proof -
  have "lineOK T \<lparr>ln_ID = ri_nextID r, ln_Text = t\<rparr>" using assms(2,3) by (simp add: lineOK_def)
  with assms(1) show ?thesis
    unfolding textsOK_def appendLine_simps
    by (auto simp: appendLine_def Let_def deliver_def split: if_splits dest!: set_update_subset_insert [THEN subsetD])
qed

lemma textsOK_lineAt: "textsOK T r \<Longrightarrow> lineOK T (lineAt r i)"
  by (simp add: textsOK_def lineAt_def)

lemma textsOK_backlog:
  assumes "textsOK T r" "SubscribeSince since n r = ((backlog, i), r')"
  shows "list_all (lineOK T) backlog" "textsOK T r'"
  using assms textsOK_lineAt [OF assms(1)]
  by (auto simp: SubscribeSince_def Let_def lastLocked_def sinceLocked_def list_all_iff textsOK_def split: if_splits)

lemma textsOK_receive: "textsOK T r \<Longrightarrow> receive i r = Some (l, r') \<Longrightarrow> lineOK T l \<and> textsOK T r'"
  by (auto simp: receive_def textsOK_def split: option.splits list.splits if_splits)

lemma textsOK_unsubscribe: "textsOK T r \<Longrightarrow> textsOK T (unsubscribe i r)"
  by (auto simp: unsubscribe_def textsOK_def)

lemma textsOK_step: "textsOK T r \<Longrightarrow> tells T (ri_nextID r) (opWrites op) \<Longrightarrow> textsOK T (ringStep op r)"
proof (cases op)
  case (Wrote p)
  assume ok: "textsOK T r" and told: "tells T (ri_nextID r) (opWrites op)"
  have "textsOK T (fold appendLine ts r)" if "textsOK T r" "\<forall>t \<in> set ts. newline \<notin> set t" "tells T (ri_nextID r) ts" for ts r
    using that by (induction ts arbitrary: r) (simp_all add: textsOK_append tells_Cons)
  from this [OF ok, of "recordsOf p"] told Wrote show ?thesis
    using splitLines_no_newline by (auto simp: Write_def recordsOf_def)
next
  case (Subscribed since n)
  assume ok: "textsOK T r"
  obtain backlog i r' where "SubscribeSince since n r = ((backlog, i), r')" by (metis prod.collapse)
  with textsOK_backlog(2) [OF ok this] Subscribed show ?thesis by simp
qed (auto simp: textsOK_unsubscribe textsOK_receive split: option.splits)

lemma textsOK_New: "textsOK T (New c)"
  by (auto simp: textsOK_def New_def zero_Line_def lineOK_def)

lemma fold_append_nextID: "ri_nextID (fold appendLine ts r) = ri_nextID r + length ts"
  by (induction ts arbitrary: r) simp_all

lemma ringStep_nextID: "ri_nextID (ringStep op r) = ri_nextID r + length (opWrites op)"
  by (cases op) (auto simp: Write_def fold_append_nextID SubscribeSince_def Let_def receive_def unsubscribe_def
      split: option.splits list.splits)

lemma streamStep_nextID: "ri_nextID (sr_ring (streamStep e st)) = ri_nextID (sr_ring st) + length (eventWrites e)"
proof (cases e)
  case (Others op)
  then show ?thesis by (cases op) (auto simp: ringStep_nextID simp del: ringStep.simps)
qed (auto simp: sendText_def finish_def unsubscribe_def receive_def split: option.splits list.splits)

lemma openStream_nextID: "ri_nextID (sr_ring (openStream hdr since tail torn r)) = ri_nextID r"
  by (auto simp: openStream_def finish_def unsubscribe_def SubscribeSince_def Let_def split: prod.splits)

section \<open>The handler is a reader of the ring\<close>

lemma appends_reach: "session_reach cap s \<Longrightarrow> session_reach cap (s\<lparr>ss_ring := fold appendLine ts (ss_ring s)\<rparr>)"
proof (induction ts arbitrary: s)
  case (Cons t ts)
  from Cons.prems have "session_reach cap (s\<lparr>ss_ring := appendLine t (ss_ring s)\<rparr>)"
    by (rule rtranclp.rtrancl_into_rtrancl) (rule step_append)
  from Cons.IH [OF this] show ?case by simp
qed simp

lemma ringStep_reach:
  assumes "session_reach cap s"
  shows "\<exists>s'. session_reach cap s' \<and> ss_ring s' = ringStep op (ss_ring s)
    \<and> (\<forall>i. ri_chans (ss_ring s) i \<noteq> None \<longrightarrow> op \<noteq> Received i \<longrightarrow> ss_seen s' i = ss_seen s i)"
proof (cases op)
  case (Wrote p)
  from appends_reach [OF assms] show ?thesis
    by (intro exI [of _ "s\<lparr>ss_ring := fold appendLine (recordsOf p) (ss_ring s)\<rparr>"]) (simp add: Wrote Write_def)
next
  case (Subscribed since n)
  obtain backlog i r where sub: "SubscribeSince since n (ss_ring s) = ((backlog, i), r)" by (metis prod.collapse)
  have i: "i = ri_nextSu (ss_ring s)" using sub by (auto simp: SubscribeSince_def Let_def)
  from assms have "session_reach cap (s\<lparr>ss_ring := r, ss_seen := (ss_seen s)(i := backlog)\<rparr>)"
    by (rule rtranclp.rtrancl_into_rtrancl) (rule step_subscribe [OF sub])
  moreover have "j \<noteq> i" if "ri_chans (ss_ring s) j \<noteq> None" for j
    using session_invD(4) [OF session_inv_reach [OF assms] that] i by simp
  ultimately show ?thesis
    by (intro exI [of _ "s\<lparr>ss_ring := r, ss_seen := (ss_seen s)(i := backlog)\<rparr>"]) (auto simp: Subscribed sub)
next
  case (Received i)
  show ?thesis
  proof (cases "receive i (ss_ring s)")
    case None
    with assms Received show ?thesis by auto
  next
    case (Some lr)
    obtain l r where lr: "lr = (l, r)" by (cases lr)
    from assms have "session_reach cap (s\<lparr>ss_ring := r, ss_seen := (ss_seen s)(i := ss_seen s i @ [l])\<rparr>)"
      by (rule rtranclp.rtrancl_into_rtrancl) (rule step_receive, use Some lr in simp)
    then show ?thesis
      by (intro exI [of _ "s\<lparr>ss_ring := r, ss_seen := (ss_seen s)(i := ss_seen s i @ [l])\<rparr>"]) (auto simp: Received Some lr)
  qed
next
  case (Left i)
  from assms have "session_reach cap (s\<lparr>ss_ring := unsubscribe i (ss_ring s)\<rparr>)"
    by (rule rtranclp.rtrancl_into_rtrancl) (rule step_unsubscribe)
  then show ?thesis
    by (intro exI [of _ "s\<lparr>ss_ring := unsubscribe i (ss_ring s)\<rparr>"]) (simp add: Left)
qed

lemma appendLine_chans: "ri_chans r i \<noteq> None \<Longrightarrow> ri_chans (fold appendLine ts r) i \<noteq> None"
proof (induction ts arbitrary: r)
  case (Cons t ts)
  have "ri_chans (appendLine t r) i \<noteq> None" using Cons.prems by (auto simp: deliver_def)
  from Cons.IH [OF this] show ?case by simp
qed simp

lemma receive_chans: "receive j r = Some (l, r') \<Longrightarrow> ri_chans r i \<noteq> None \<Longrightarrow> ri_chans r' i \<noteq> None"
  by (auto simp: receive_def split: option.splits list.splits)

lemma ringStep_chans: "ri_chans r i \<noteq> None \<Longrightarrow> ri_chans (ringStep op r) i \<noteq> None"
  by (cases op) (auto simp: Write_def appendLine_chans SubscribeSince_def Let_def unsubscribe_def
      split: option.splits dest: receive_chans)

text \<open>
  The client has read a beginning of what the handler took from the ring, and all of it while the handler runs.
\<close>

definition streamInv :: "(nat \<Rightarrow> string) \<Rightarrow> int \<Rightarrow> stream \<Rightarrow> bool" where
  "streamInv T cap st \<longleftrightarrow> textsOK T (sr_ring st) \<and> ri_chans (sr_ring st) (sr_chan st) \<noteq> None
     \<and> (\<exists>s lines rest. session_reach cap s \<and> ss_ring s = sr_ring st \<and> ss_seen s (sr_chan st) = lines @ rest
         \<and> list_all (lineOK T) (lines @ rest) \<and> readEvents (sr_body st) = map toldLine lines
         \<and> (sr_open st \<longrightarrow> rest = [] \<and> cleanParser (fold feed (sr_body st) freshParser)))"

lemma streamInv_finish:
  assumes "textsOK T (sr_ring st)" "ri_chans (sr_ring st) (sr_chan st) \<noteq> None" "session_reach cap s" "ss_ring s = sr_ring st"
    and "ss_seen s (sr_chan st) = lines @ rest" "list_all (lineOK T) (lines @ rest)" "readEvents (sr_body st) = map toldLine lines"
  shows "streamInv T cap (finish st)"
proof -
  obtain s' where "session_reach cap s'" "ss_ring s' = ringStep (Left (sr_chan st)) (ss_ring s)"
    "ss_seen s' (sr_chan st) = ss_seen s (sr_chan st)"
    using ringStep_reach [OF assms(3), of "Left (sr_chan st)"] assms(2,4) by auto
  with assms textsOK_unsubscribe [OF assms(1)] ringStep_chans [OF assms(2), of "Left (sr_chan st)"]
  show ?thesis unfolding streamInv_def finish_def by auto
qed

lemma writeBacklog_read:
  assumes "list_all (lineOK T) ls" "cleanParser p" "writeBacklog torn ls = (b, ok)"
  shows "\<exists>lines rest. ls = lines @ rest \<and> ep_events (fold feed b p) = ep_events p @ map toldLine lines
    \<and> (ok \<longrightarrow> rest = [] \<and> cleanParser (fold feed b p))"
  using assms
proof (induction ls arbitrary: p b)
  case (Cons l ls)
  have l: "newline \<notin> set (ln_Text l)" using Cons.prems(1) by (simp add: lineOK_def)
  show ?case
  proof (cases "torn (ln_ID l)")
    case (Some k)
    with Cons.prems(3) feed_cut_event [OF Cons.prems(2) l, of k] show ?thesis
      by (auto intro: exI [of _ "[]"] exI [of _ "[l]"])
  next
    case None
    then obtain b' where b: "b = eventText l @ b'" and w: "writeBacklog torn ls = (b', ok)"
      using Cons.prems(3) by (cases "writeBacklog torn ls") auto
    let ?p = "fold feed (eventText l) p"
    have "cleanParser ?p" using Cons.prems(2) by (simp add: feed_event [OF Cons.prems(2) l] cleanParser_def)
    from Cons.IH [OF _ this w] Cons.prems(1) obtain lines rest where IH: "ls = lines @ rest"
      "ep_events (fold feed b' ?p) = ep_events ?p @ map toldLine lines" "ok \<longrightarrow> rest = [] \<and> cleanParser (fold feed b' ?p)"
      by auto
    then show ?thesis
      by (intro exI [of _ "l # lines"] exI [of _ rest]) (simp add: b feed_event [OF Cons.prems(2) l])
  qed
qed simp

lemma streamInv_open:
  assumes "session_reach cap s" "textsOK T (ss_ring s)"
  shows "streamInv T cap (openStream lastEventID since tail torn (ss_ring s))"
proof -
  let ?k = "resumeID lastEventID since" and ?n = "requestTail tail"
  obtain backlog i r where sub: "SubscribeSince ?k ?n (ss_ring s) = ((backlog, i), r)" by (metis prod.collapse)
  obtain b ok where w: "writeBacklog torn backlog = (b, ok)" by fastforce
  have clean: "cleanParser freshParser" by (simp add: cleanParser_def freshParser_def)
  from writeBacklog_read [OF textsOK_backlog(1) [OF assms(2) sub] clean w] obtain lines rest
    where read: "backlog = lines @ rest" "readEvents b = map toldLine lines"
      "ok \<longrightarrow> rest = [] \<and> cleanParser (fold feed b freshParser)"
    by (auto simp: readEvents_def freshParser_def)
  let ?s = "s\<lparr>ss_ring := r, ss_seen := (ss_seen s)(i := backlog)\<rparr>"
  let ?st = "\<lparr>sr_ring = r, sr_chan = i, sr_body = b, sr_open = True\<rparr>"
  have reach: "session_reach cap ?s"
    using assms(1) by (rule rtranclp.rtrancl_into_rtrancl) (rule step_subscribe [OF sub])
  have chan: "ri_chans r i \<noteq> None" using sub by (auto simp: SubscribeSince_def Let_def)
  show ?thesis
  proof (cases ok)
    case True
    then have "openStream lastEventID since tail torn (ss_ring s) = ?st" by (simp add: openStream_def sub w)
    moreover have "streamInv T cap ?st"
      unfolding streamInv_def using read True chan reach textsOK_backlog [OF assms(2) sub]
      by (intro conjI exI [of _ ?s] exI [of _ lines] exI [of _ rest]) simp_all
    ultimately show ?thesis by simp
  next
    case False
    then have "openStream lastEventID since tail torn (ss_ring s) = finish ?st" by (simp add: openStream_def sub w)
    moreover have "streamInv T cap (finish ?st)"
      by (rule streamInv_finish [OF _ _ reach, of _ _ lines rest]) (use read chan textsOK_backlog [OF assms(2) sub] in simp_all)
    ultimately show ?thesis by simp
  qed
qed

lemma readEvents_append: "readEvents (b @ t) = ep_events (fold feed t (fold feed b freshParser))"
  by (simp add: readEvents_def)

lemma streamInv_step:
  assumes inv: "streamInv T cap st" and told: "tells T (ri_nextID (sr_ring st)) (eventWrites e)"
  shows "streamInv T cap (streamStep e st)"
proof -
  let ?i = "sr_chan st" and ?p = "fold feed (sr_body st) freshParser"
  from inv obtain s lines rest where ok: "textsOK T (sr_ring st)" and chan: "ri_chans (sr_ring st) ?i \<noteq> None"
    and s: "session_reach cap s" "ss_ring s = sr_ring st" and seen: "ss_seen s ?i = lines @ rest" "list_all (lineOK T) (lines @ rest)"
    and read: "readEvents (sr_body st) = map toldLine lines" and running: "sr_open st \<longrightarrow> rest = [] \<and> cleanParser ?p"
    unfolding streamInv_def by blast
  have stop: "streamInv T cap (finish st)" by (rule streamInv_finish [OF ok chan s seen read])
  have events: "ep_events ?p = map toldLine lines" using read by (simp add: readEvents_def)
  show ?thesis
  proof (cases e)
    case (Others op)
    show ?thesis
    proof (cases "op = Received ?i \<or> op = Left ?i")
      case False
      obtain s' where s': "session_reach cap s'" "ss_ring s' = ringStep op (sr_ring st)" "ss_seen s' ?i = ss_seen s ?i"
        using ringStep_reach [OF s(1), of op] s(2) chan False by auto
      with False Others told read running seen textsOK_step [OF ok] ringStep_chans [OF chan] show ?thesis
        unfolding streamInv_def by (auto intro!: exI [of _ s'])
    qed (use Others inv in simp)
  next
    case (LineReady torn)
    show ?thesis
    proof (cases "sr_open st \<and> receive ?i (sr_ring st) \<noteq> None")
      case True
      then obtain l r where recv: "receive ?i (sr_ring st) = Some (l, r)" by auto
      from True running have r: "rest = []" "cleanParser ?p" by auto
      have l: "newline \<notin> set (ln_Text l)" "textsOK T r" "lineOK T l" using textsOK_receive [OF ok recv] by (auto simp: lineOK_def)
      let ?s = "s\<lparr>ss_ring := r, ss_seen := (ss_seen s)(?i := ss_seen s ?i @ [l])\<rparr>"
      have reach: "session_reach cap ?s"
        using s(1) by (rule rtranclp.rtrancl_into_rtrancl) (rule step_receive, simp add: s(2) recv)
      show ?thesis
      proof (cases torn)
        case None
        let ?st = "st\<lparr>sr_ring := r, sr_body := sr_body st @ eventText l\<rparr>"
        have "streamStep e st = ?st" using True by (simp add: LineReady None recv sendText_def)
        moreover have "cleanParser (fold feed (eventText l) ?p)" using r(2) by (simp add: feed_event [OF r(2) l(1)] cleanParser_def)
        then have "streamInv T cap ?st"
          unfolding streamInv_def using l(2,3) receive_chans [OF recv chan] reach seen r
          by (intro conjI exI [of _ ?s] exI [of _ "lines @ [l]"] exI [of _ "[]"])
            (simp_all add: readEvents_append feed_event [OF r(2) l(1)] events)
        ultimately show ?thesis by simp
      next
        case (Some k)
        let ?st = "st\<lparr>sr_ring := r, sr_body := sr_body st @ take k (eventText l)\<rparr>"
        have "streamStep e st = finish ?st" using True by (simp add: LineReady Some recv sendText_def)
        moreover have told: "list_all (lineOK T) (lines @ [l])" using seen(2) l(3) r by simp
        moreover have "\<exists>lines' rest'. lines @ [l] = lines' @ rest' \<and> readEvents (sr_body ?st) = map toldLine lines'"
          using feed_cut_event [OF r(2) l(1), of k]
          by (auto simp: readEvents_append events intro: exI [of _ lines] exI [of _ "lines @ [l]"])
        then obtain lines' rest' where "lines @ [l] = lines' @ rest'" "readEvents (sr_body ?st) = map toldLine lines'" by blast
        then have "streamInv T cap (finish ?st)"
          by (intro streamInv_finish [OF _ _ reach, of _ _ lines' rest']) (use told l(2) receive_chans [OF recv chan] seen r in \<open>simp_all del: list_all_append\<close>)
        ultimately show ?thesis by simp
      qed
    next
      case False
      then have "streamStep e st = st \<or> streamStep e st = finish st" by (cases "receive ?i (sr_ring st)") (auto simp: LineReady)
      with inv stop show ?thesis by auto
    qed
  next
    case (BeatDue torn)
    show ?thesis
    proof (cases "sr_open st")
      case True
      with running have r: "rest = []" "cleanParser ?p" by auto
      have b: "readEvents (sr_body st @ take k heartbeatText) = map toldLine lines" for k
        by (simp add: readEvents_append feed_cut_heartbeat [OF r(2)] events)
      show ?thesis
      proof (cases torn)
        case None
        then have "streamStep e st = st\<lparr>sr_body := sr_body st @ heartbeatText\<rparr>"
          using True by (simp add: BeatDue sendText_def)
        moreover have "streamInv T cap (st\<lparr>sr_body := sr_body st @ heartbeatText\<rparr>)"
          unfolding streamInv_def using ok chan s seen r events
          by (intro conjI exI [of _ s] exI [of _ lines] exI [of _ rest]) (simp_all add: readEvents_append feed_heartbeat)
        ultimately show ?thesis by simp
      next
        case (Some k)
        then have "streamStep e st = finish (st\<lparr>sr_body := sr_body st @ take k heartbeatText\<rparr>)"
          using True by (simp add: BeatDue sendText_def)
        moreover have "streamInv T cap (finish (st\<lparr>sr_body := sr_body st @ take k heartbeatText\<rparr>))"
          by (rule streamInv_finish [OF _ _ s(1), of _ _ lines rest]) (use ok chan s(2) seen b in simp_all)
        ultimately show ?thesis by simp
      qed
    qed (use BeatDue inv in simp)
  next
    case HungUp
    with inv stop show ?thesis by simp
  qed
qed

lemma fold_ringStep_nextID: "ri_nextID (fold ringStep ops r) = ri_nextID r + length (concat (map opWrites ops))"
  by (induction ops arbitrary: r) (simp_all add: ringStep_nextID)

lemma New_nextID [simp]: "ri_nextID (New cap) = 1"
  by (simp add: New_def)

lemma ringSteps_reach:
  "tells T 1 (concat (map opWrites ops)) \<Longrightarrow>
   \<exists>s. session_reach cap s \<and> ss_ring s = fold ringStep ops (New cap) \<and> textsOK T (ss_ring s)"
proof (induction ops rule: rev_induct)
  case Nil
  show ?case by (intro exI [of _ "session_start cap"]) (simp add: session_start_def textsOK_New)
next
  case (snoc op ops)
  then have told: "tells T 1 (concat (map opWrites ops))" "tells T (ri_nextID (fold ringStep ops (New cap))) (opWrites op)"
    by (simp_all add: tells_append fold_ringStep_nextID)
  from snoc.IH [OF told(1)] obtain s where "session_reach cap s" "ss_ring s = fold ringStep ops (New cap)" "textsOK T (ss_ring s)"
    by blast
  with ringStep_reach [of cap s op] textsOK_step [of T "ss_ring s" op] told(2) show ?case by auto
qed

lemma streamSteps_inv:
  "streamInv T cap st \<Longrightarrow> tells T (ri_nextID (sr_ring st)) (concat (map eventWrites es)) \<Longrightarrow> streamInv T cap (fold streamStep es st)
   \<and> ri_nextID (sr_ring (fold streamStep es st)) = ri_nextID (sr_ring st) + length (concat (map eventWrites es))"
proof (induction es arbitrary: st)
  case (Cons e es)
  then have "tells T (ri_nextID (sr_ring st)) (eventWrites e)"
    "tells T (ri_nextID (sr_ring (streamStep e st))) (concat (map eventWrites es))"
    by (simp_all add: tells_append streamStep_nextID)
  with Cons.IH [OF streamInv_step [OF Cons.prems(1)]] show ?case by (simp add: streamStep_nextID)
qed simp

lemma streamInv_run:
  assumes "logged = concat (map opWrites ops) @ concat (map eventWrites es)"
    and "st = fold streamStep es (openStream hdr since tail torn (fold ringStep ops (New cap)))"
  shows "streamInv (\<lambda>n. logged ! (n - 1)) cap st" "ri_nextID (sr_ring st) = Suc (length logged)"
proof -
  let ?T = "\<lambda>n. logged ! (n - 1)" and ?st = "openStream hdr since tail torn (fold ringStep ops (New cap))"
  have "tells ?T 1 logged" by (simp add: tells_def)
  then have told: "tells ?T 1 (concat (map opWrites ops))"
    "tells ?T (1 + length (concat (map opWrites ops))) (concat (map eventWrites es))"
    unfolding assms(1) tells_append by blast+
  obtain s where s: "session_reach cap s" "ss_ring s = fold ringStep ops (New cap)" "textsOK ?T (ss_ring s)"
    using ringSteps_reach [OF told(1)] by blast
  have id: "ri_nextID (sr_ring ?st) = 1 + length (concat (map opWrites ops))"
    by (simp add: openStream_nextID fold_ringStep_nextID)
  have "streamInv ?T cap ?st" using streamInv_open [OF s(1,3)] s(2) by metis
  from streamSteps_inv [OF this] told(2) id
  show "streamInv ?T cap st" "ri_nextID (sr_ring st) = Suc (length logged)"
    unfolding assms(2) by (simp_all add: assms(1))
qed

lemma take_upt_any: "\<exists>d. take n [a..<b] = [a..<d]"
  by (cases "a + n \<le> b") (auto simp: take_upt intro: exI [of _ b])

text \<open>The lines a reader has seen or will get are numbered from one, below the next number.\<close>

definition numbered :: "session \<Rightarrow> Line \<Rightarrow> bool" where
  "numbered s l \<longleftrightarrow> 0 < ln_ID l \<and> ln_ID l < ri_nextID (ss_ring s)"

definition all_numbered :: "session \<Rightarrow> bool" where
  "all_numbered s \<longleftrightarrow> (\<forall>i. \<forall>l \<in> set (ss_seen s i). numbered s l)
     \<and> (\<forall>i c. ri_chans (ss_ring s) i = Some c \<longrightarrow> (\<forall>l \<in> set (ch_buf c). numbered s l))"

lemma held_numbered: "ring_wf r \<Longrightarrow> i < ri_count r \<Longrightarrow> 0 < ln_ID (lineAt r i) \<and> ln_ID (lineAt r i) < ri_nextID r"
proof -
  assume wf: "ring_wf r" and i: "i < ri_count r"
  then have "ln_ID (lineAt r i) \<in> set (map ln_ID (map (lineAt r) [0..<ri_count r]))" by simp
  with wf show ?thesis unfolding map_ID_held [OF wf] by (auto simp: ring_wf_def)
qed

lemma backlog_numbered:
  assumes "ring_wf r" "SubscribeSince since n r = ((backlog, i), r')" "l \<in> set backlog"
  shows "0 < ln_ID l \<and> ln_ID l < ri_nextID r"
  using assms held_numbered [OF assms(1)]
  by (auto simp: SubscribeSince_def Let_def lastLocked_def sinceLocked_def split: if_splits)

lemma all_numbered_reach: "session_reach cap s \<Longrightarrow> all_numbered s"
proof (induction rule: rtranclp_induct)
  case base
  show ?case by (simp add: all_numbered_def session_start_def New_def)
next
  case (step s s')
  have wf: "ring_wf (ss_ring s)" using session_invD(1) [OF session_inv_reach [OF step.hyps(1)]] .
  from step.hyps(2) show ?case
  proof (cases rule: session_step.cases)
    case (step_append t)
    have "0 < ri_nextID (ss_ring s)" using wf by (simp add: ring_wf_def)
    with step.IH show ?thesis
      unfolding step_append all_numbered_def numbered_def
      by (auto simp: deliver_def less_Suc_eq split: if_splits option.splits)
  next
    case (step_subscribe since n backlog i r)
    then have "ri_nextID r = ri_nextID (ss_ring s)"
      "ri_chans r = (ri_chans (ss_ring s))(i \<mapsto> \<lparr>ch_buf = [], ch_closed = False\<rparr>)"
      by (auto simp: SubscribeSince_def Let_def split: if_splits)
    with step.IH backlog_numbered [OF wf step_subscribe(2)] show ?thesis
      unfolding step_subscribe(1) all_numbered_def numbered_def by (auto split: if_splits)
  next
    case (step_receive i l r)
    then show ?thesis
      using step.IH unfolding all_numbered_def numbered_def
      by (fastforce simp: receive_def split: option.splits list.splits if_splits)
  next
    case (step_unsubscribe i)
    then show ?thesis
      using step.IH unfolding all_numbered_def numbered_def by (auto simp: unsubscribe_def split: if_splits)
  qed
qed

text \<open>
  C17: A client of the log stream reads the log: a run of consecutive records of it, each with its number
  and with the text it was written with, whatever happens. Other readers come and go, records are
  written before the request and while it runs, writes of the response are cut off after any number of
  bytes, heartbeats fall between the lines, the reader lags and is dropped. What its event parser, for
  which a newline ends a line, makes of the text received is the records \<open>a\<close> to \<open>b - 1\<close> of everything ever
  logged, none missing, none twice, none altered; and while the response is open, its subscription alive and its channel drained, they reach to
  the newest record.
\<close>
theorem client_reads_the_log:
  assumes "st = fold streamStep es (openStream hdr since tail torn (fold ringStep ops (New cap)))"
    and "logged = concat (map opWrites ops) @ concat (map eventWrites es)"
  shows "\<exists>a b. 1 \<le> a \<and> a \<le> b \<and> b \<le> Suc (length logged)
    \<and> readEvents (sr_body st) = map (\<lambda>n. (decimal n, logged ! (n - 1))) [a..<b]
    \<and> (sr_open st \<and> sr_chan st \<in> set (ri_subs (sr_ring st)) \<and> receive (sr_chan st) (sr_ring st) = None
        \<longrightarrow> b = Suc (length logged))"
proof -
  let ?T = "\<lambda>n. logged ! (n - 1)" and ?n = "ri_nextID (sr_ring st)"
  let ?drained = "sr_open st \<and> sr_chan st \<in> set (ri_subs (sr_ring st)) \<and> receive (sr_chan st) (sr_ring st) = None"
  note now = streamInv_run(2) [OF assms(2,1)]
  from streamInv_run(1) [OF assms(2,1)] obtain s lines rest
    where s: "session_reach cap s" "ss_ring s = sr_ring st" "ri_chans (sr_ring st) (sr_chan st) \<noteq> None"
      and seen: "ss_seen s (sr_chan st) = lines @ rest" "list_all (lineOK ?T) lines" "sr_open st \<longrightarrow> rest = []"
      and read: "readEvents (sr_body st) = map toldLine lines"
    unfolding streamInv_def by auto
  then obtain c where c: "ri_chans (ss_ring s) (sr_chan st) = Some c" by auto
  have numbered: "0 < ln_ID l" "ln_ID l < ?n" if "l \<in> set lines" for l
  proof -
    have "l \<in> set (ss_seen s (sr_chan st))" using that seen(1) by simp
    then have "numbered s l" using all_numbered_reach [OF s(1)] unfolding all_numbered_def by blast
    then show "0 < ln_ID l" "ln_ID l < ?n" by (simp_all add: numbered_def s(2))
  qed
  have "consecutive (map ln_ID (lines @ rest @ ch_buf c))"
    using session_invD(3) [OF session_inv_reach [OF s(1)], of "sr_chan st"] c seen(1) by (simp add: chan_ok_def)
  then obtain a0 b0 where "map ln_ID lines @ map ln_ID (rest @ ch_buf c) = [a0..<b0]" by (auto simp: consecutive_def)
  then have "map ln_ID lines = take (length lines) [a0..<b0]" by (metis append_eq_conv_conj length_map)
  then obtain a1 b1 where some: "map ln_ID lines = [a1..<b1]" by (metis take_upt_any)
  have whole: "\<exists>a \<le> ?n. map ln_ID lines = [a..<?n]" if ?drained
  proof -
    have "ch_buf c = []" using that c s(2) by (auto simp: receive_def split: list.splits)
    with session_invD(2) [OF session_inv_reach [OF s(1)], of "sr_chan st"] that c s(2) seen show ?thesis
      by (auto simp: live_ok_def upto_now_def)
  qed
  have "\<exists>a b. 1 \<le> a \<and> a \<le> b \<and> b \<le> ?n \<and> map ln_ID lines = [a..<b] \<and> (?drained \<longrightarrow> b = ?n)"
  proof (cases "lines = []")
    case True
    then show ?thesis by (intro exI [of _ ?n]) (simp add: now)
  next
    case False
    then have "[a1..<b1] \<noteq> []" using some by (metis map_is_Nil_conv)
    then have lt: "a1 < b1" by simp
    then have "a1 \<in> set (map ln_ID lines)" "b1 - 1 \<in> set (map ln_ID lines)"
      unfolding some by auto
    then have "1 \<le> a1" "b1 \<le> ?n"
      using numbered by fastforce+
    moreover have "b1 = ?n" if drained: ?drained
    proof -
      obtain a where same: "[a1..<b1] = [a..<?n]" using whole [OF drained] some by auto
      have "[a1..<b1] \<noteq> []" using lt by simp
      then have "a < ?n" unfolding same by simp
      with last_upt [OF lt] last_upt [of a ?n] same lt show ?thesis by simp
    qed
    ultimately show ?thesis
      using lt some by (intro exI [of _ a1] exI [of _ b1]) auto
  qed
  then obtain a b where ab: "1 \<le> a" "a \<le> b" "b \<le> ?n" "map ln_ID lines = [a..<b]" "?drained \<longrightarrow> b = ?n" by blast
  have "map toldLine lines = map (\<lambda>n. (decimal n, ?T n)) (map ln_ID lines)"
    using seen(2) numbered by (auto simp: toldLine_def lineOK_def list_all_iff)
  with ab now read show ?thesis by (intro exI [of _ a] exI [of _ b]) simp
qed

text \<open>
  A client that reconnects with the number of its last line goes on with the next one, if the ring still
  holds it: nothing is repeated and nothing skipped.
\<close>

lemma ParseUint_decimal: "n < 2 ^ 64 \<Longrightarrow> ParseUint (decimal n) = Some n"
  by (simp add: ParseUint_def digits_val_decimal)

lemma writeBacklog_all: "writeBacklog (\<lambda>_. None) ls = (concat (map eventText ls), True)"
  by (induction ls) simp_all

lemma reconnect_resumes:
  assumes "r = fold ringStep ops (New cap)" "0 < k" "k < ri_nextID r" "ri_nextID r - ri_count r \<le> Suc k" "k < 2 ^ 64"
  shows "map fst (readEvents (sr_body (openStream (decimal k) since tail (\<lambda>_. None) r))) = map decimal [Suc k..<ri_nextID r]"
proof -
  let ?T = "\<lambda>n. concat (map opWrites ops) ! (n - 1)"
  have "tells ?T 1 (concat (map opWrites ops))" by (simp add: tells_def)
  from ringSteps_reach [OF this] obtain s where s: "session_reach cap s" "ss_ring s = r" "textsOK ?T r"
    using assms(1) by metis
  have wf: "ring_wf r" using session_invD(1) [OF session_inv_reach [OF s(1)]] s(2) by simp
  have resume: "resumeID (decimal k) since = k" using ParseUint_decimal [OF assms(5)] by (simp add: resumeID_def Let_def)
  obtain i r' where sub: "SubscribeSince k (requestTail tail) r = ((sinceLocked k r, i), r')"
    using assms(2,3) by (auto simp: SubscribeSince_def Let_def)
  have body: "sr_body (openStream (decimal k) since tail (\<lambda>_. None) r) = concat (map eventText (sinceLocked k r))"
    by (simp add: openStream_def resume sub writeBacklog_all)
  have "cleanParser freshParser" by (simp add: cleanParser_def freshParser_def)
  from writeBacklog_read [OF textsOK_backlog(1) [OF s(3) sub] this writeBacklog_all]
  have "readEvents (concat (map eventText (sinceLocked k r))) = map toldLine (sinceLocked k r)"
    by (auto simp: readEvents_def freshParser_def)
  then have "map fst (readEvents (concat (map eventText (sinceLocked k r)))) = map decimal (map ln_ID (sinceLocked k r))"
    by (simp add: toldLine_def o_def)
  moreover have "map ln_ID (sinceLocked k r) = filter (\<lambda>n. n > k) (map ln_ID (map (lineAt r) [0..<ri_count r]))"
    by (simp add: sinceLocked_def filter_map o_def)
  moreover have "\<dots> = [Suc k..<ri_nextID r]"
    using assms(4) by (simp only: map_ID_held [OF wf] filter_gt_upt) (simp add: max_def)
  ultimately show ?thesis by (simp add: body)
qed

section \<open>Witness\<close>

definition demo_events :: "streamEvent list" where
  "demo_events = [Others (Wrote ''2''), LineReady None, BeatDue None]"

definition demo_opened :: stream where
  "demo_opened = openStream '''' '''' '''' (\<lambda>_. None) (fold ringStep [Wrote ''1''] (New 2))"

lemma demo_records: "recordsOf ''1'' = [''1'']" "recordsOf ''2'' = [''2'']"
proof -
  have "TrimSpace ''1'' = ''1''" "TrimSpace ''2'' = ''2''" by (rule TrimSpace_id; code_simp)+
  moreover have "splitLines ''1'' = [''1'']" "splitLines ''2'' = [''2'']" by code_simp+
  ultimately show "recordsOf ''1'' = [''1'']" "recordsOf ''2'' = [''2'']" by (simp_all add: recordsOf_def)
qed

lemma demo_write: "ringStep (Wrote ''1'') = appendLine ''1''" "ringStep (Wrote ''2'') = appendLine ''2''"
  by (simp_all add: fun_eq_iff Write_def demo_records)

theorem client_reads_the_log_witness:
  "\<exists>st. st = fold streamStep demo_events demo_opened \<and> sr_open st
    \<and> (\<exists>a \<ge> 1. readEvents (sr_body st) = map (\<lambda>n. (decimal n, [''1'', ''2''] ! (n - 1))) [a..<3])"
proof -
  let ?st = "fold streamStep demo_events demo_opened"
  let ?r = "snd (SubscribeSince 0 500 (appendLine ''1'' (New 2)))"
  have opened: "demo_opened = \<lparr>sr_ring = ?r, sr_chan = 0, sr_body = eventText \<lparr>ln_ID = 1, ln_Text = ''1''\<rparr>, sr_open = True\<rparr>"
  proof -
    have "resumeID '''' '''' = 0" "requestTail '''' = 500" by code_simp+
    moreover obtain r where "SubscribeSince 0 500 (appendLine ''1'' (New 2)) = (([\<lparr>ln_ID = 1, ln_Text = ''1''\<rparr>], 0), r)"
    proof -
      have "fst (SubscribeSince 0 500 (appendLine ''1'' (New 2))) = ([\<lparr>ln_ID = 1, ln_Text = ''1''\<rparr>], 0)"
      by (simp add: SubscribeSince_def lastLocked_def appendLine_def New_def lineAt_def Let_def numeral_2_eq_2 zero_Line_def)
      then show ?thesis using that by (metis prod.collapse)
    qed
    ultimately show ?thesis by (simp add: demo_opened_def openStream_def demo_write)
  qed
  have st: "?st = streamStep (BeatDue None) (streamStep (LineReady None)
      \<lparr>sr_ring = appendLine ''2'' ?r, sr_chan = 0, sr_body = eventText \<lparr>ln_ID = 1, ln_Text = ''1''\<rparr>, sr_open = True\<rparr>)"
    by (simp add: demo_events_def opened demo_write)
  have final: "sr_open ?st" "sr_chan ?st \<in> set (ri_subs (sr_ring ?st))" "receive (sr_chan ?st) (sr_ring ?st) = None"
    "ri_nextID (sr_ring ?st) = 3"
    by (unfold st; code_simp)+
  have "recordsOf ''1'' = [''1'']" "recordsOf ''2'' = [''2'']" by (rule demo_records)+
  then have logged: "[''1'', ''2''] = concat (map opWrites [Wrote ''1'']) @ concat (map eventWrites demo_events)"
    by (simp add: demo_events_def)
  have "?st = fold streamStep demo_events (openStream '''' '''' '''' (\<lambda>_. None) (fold ringStep [Wrote ''1''] (New 2)))"
    by (simp only: demo_opened_def)
  from client_reads_the_log [OF this logged] obtain a b where
    ab: "1 \<le> a" "readEvents (sr_body ?st) = map (\<lambda>n. (decimal n, [''1'', ''2''] ! (n - 1))) [a..<b]" "b = Suc (length [''1'', ''2''])"
    using final(1-3) by blast
  moreover have "Suc (length [''1'', ''2'']) = 3" by simp
  ultimately have "1 \<le> a \<and> readEvents (sr_body ?st) = map (\<lambda>n. (decimal n, [''1'', ''2''] ! (n - 1))) [a..<3]"
    by metis
  with final(1) show ?thesis by blast
qed

end
