(* ===== verification/ProjectQueries.thy ===== *)
theory ProjectQueries
  imports SensorQueries "HOL-Library.List_Lexorder" "HOL-Library.Char_ord" "HOL-Library.Product_Lexorder" "HOL-Library.AList"
begin

text \<open>
  The statements behind the operator's commands: \<^verbatim>\<open>internal/storage/projects.go\<close>,
  \<^verbatim>\<open>deployments.go\<close> and \<^verbatim>\<open>volumes.go\<close> over \<^verbatim>\<open>internal/storage/db/projects.sql.go\<close>,
  \<^verbatim>\<open>deployments.sql.go\<close> and \<^verbatim>\<open>volumes.sql.go\<close>. A \<open>q_\<close> definition is one SQL statement; its error is
  the violated constraint (\<open>Unique\<close>, \<open>ForeignKey\<close>, \<open>Check\<close>) or \<open>NoRows\<close>, which the \<^verbatim>\<open>querier\<close> method
  without the prefix maps onto the storage errors. JSON columns hold the text they are given, and text
  is ordered by its bytes.
\<close>

section \<open>What a statement fails with\<close>

datatype sqlError = NoRows | Unique | ForeignKey | Check | OutOfRange

text \<open>A querier method names the errors it maps; any other is passed on as the driver's.\<close>

definition mapError :: "(sqlError \<rightharpoonup> storeError) \<Rightarrow> (sqlError, database, 'a) op \<Rightarrow> (storeError, database, 'a) op" where
  "mapError f m db =
     (case m db of Inr r \<Rightarrow> Inr r | Inl e \<Rightarrow> Inl (case f e of None \<Rightarrow> ErrDriver | Some e' \<Rightarrow> e'))"

definition notFound :: "sqlError \<rightharpoonup> storeError" where
  "notFound = [NoRows \<mapsto> ErrNotFound]"

definition existsOrMissing :: "sqlError \<rightharpoonup> storeError" where
  "existsOrMissing = [Unique \<mapsto> ErrExists, ForeignKey \<mapsto> ErrNotFound]"

text \<open>\<^verbatim>\<open>:one\<close> reads the first row the query returns.\<close>

definition queryRow :: "(database \<Rightarrow> 'r list) \<Rightarrow> (sqlError, database, 'r) op" where
  "queryRow rows db = (case rows db of [] \<Rightarrow> Inl NoRows | r # _ \<Rightarrow> Inr (r, db))"

definition query :: "(database \<Rightarrow> 'r list) \<Rightarrow> ('e, database, 'r list) op" where
  "query rows db = Inr (rows db, db)"

lemma mapError_Inr [simp]: "mapError f m db = Inr r \<longleftrightarrow> m db = Inr r"
  by (auto simp: mapError_def split: sum.splits)

lemma queryRow_Inr: "queryRow rows db = Inr (r, db') \<longleftrightarrow> db' = db \<and> (\<exists>rs. rows db = r # rs)"
  by (auto simp: queryRow_def split: list.splits)

lemma query_Inr [simp]: "query rows db = Inr (rs, db') \<longleftrightarrow> rs = rows db \<and> db' = db"
  by (auto simp: query_def)

section \<open>Projects, environments, services\<close>

definition q_CreateProject :: "string \<Rightarrow> (sqlError, database, ProjectRow) op" where
  "q_CreateProject name db =
     (let row = \<lparr>pr_Name = name, pr_CreatedAt = db_now db\<rparr>
      in if name \<in> pr_Name ` set (db_projects db) then Inl Unique
         else Inr (row, db\<lparr>db_projects := db_projects db @ [row]\<rparr>))"

definition CreateProject :: "string \<Rightarrow> (storeError, database, ProjectRow) op" where
  "CreateProject name = mapError [Unique \<mapsto> ErrExists] (q_CreateProject name)"

definition q_GetProject :: "string \<Rightarrow> (sqlError, database, ProjectRow) op" where
  "q_GetProject name = queryRow (\<lambda>db. filter (\<lambda>p. pr_Name p = name) (db_projects db))"

definition GetProject :: "string \<Rightarrow> (storeError, database, ProjectRow) op" where
  "GetProject name = mapError notFound (q_GetProject name)"

text \<open>A unique violation is reported before a missing parent: the index is checked at the insert, the
  foreign key after it.\<close>

definition q_CreateEnvironment :: "string \<Rightarrow> string \<Rightarrow> (sqlError, database, EnvironmentRow) op" where
  "q_CreateEnvironment projectName name db =
     (let (i, db1) = freshID db;
          row = \<lparr>env_ID = i, env_ProjectName = projectName, env_Name = name, env_CreatedAt = db_now db\<rparr>
      in if i \<in> env_ID ` set (db_environments db)
            \<or> (projectName, name) \<in> (\<lambda>e. (env_ProjectName e, env_Name e)) ` set (db_environments db) then Inl Unique
         else if projectName \<notin> pr_Name ` set (db_projects db) then Inl ForeignKey
         else Inr (row, db1\<lparr>db_environments := db_environments db @ [row]\<rparr>))"

definition CreateEnvironment :: "string \<Rightarrow> string \<Rightarrow> (storeError, database, EnvironmentRow) op" where
  "CreateEnvironment projectName name = mapError existsOrMissing (q_CreateEnvironment projectName name)"

definition q_GetEnvironment :: "string \<Rightarrow> string \<Rightarrow> (sqlError, database, EnvironmentRow) op" where
  "q_GetEnvironment projectName name = queryRow (\<lambda>db.
     filter (\<lambda>e. env_ProjectName e = projectName \<and> env_Name e = name) (db_environments db))"

definition GetEnvironment :: "string \<Rightarrow> string \<Rightarrow> (storeError, database, EnvironmentRow) op" where
  "GetEnvironment projectName name = mapError notFound (q_GetEnvironment projectName name)"

definition q_ListEnvironments :: "string \<Rightarrow> ('e, database, EnvironmentRow list) op" where
  "q_ListEnvironments projectName = query (\<lambda>db.
     sort_key env_Name (filter (\<lambda>e. env_ProjectName e = projectName) (db_environments db)))"

definition ListEnvironments :: "string \<Rightarrow> (storeError, database, EnvironmentRow list) op" where
  "ListEnvironments projectName = q_ListEnvironments projectName"

definition q_CreateService :: "string \<Rightarrow> string \<Rightarrow> bool \<Rightarrow> (sqlError, database, ServiceRow) op" where
  "q_CreateService projectName name stateful db =
     (let (i, db1) = freshID db;
          row = \<lparr>svc_ID = i, svc_ProjectName = projectName, svc_Name = name, svc_Stateful = stateful, svc_CreatedAt = db_now db\<rparr>
      in if i \<in> svc_ID ` set (db_services db)
            \<or> (projectName, name) \<in> (\<lambda>s. (svc_ProjectName s, svc_Name s)) ` set (db_services db) then Inl Unique
         else if projectName \<notin> pr_Name ` set (db_projects db) then Inl ForeignKey
         else Inr (row, db1\<lparr>db_services := db_services db @ [row]\<rparr>))"

definition CreateService :: "string \<Rightarrow> string \<Rightarrow> bool \<Rightarrow> (storeError, database, ServiceRow) op" where
  "CreateService projectName name stateful = mapError existsOrMissing (q_CreateService projectName name stateful)"

definition q_GetService :: "string \<Rightarrow> string \<Rightarrow> (sqlError, database, ServiceRow) op" where
  "q_GetService projectName name = queryRow (\<lambda>db.
     filter (\<lambda>s. svc_ProjectName s = projectName \<and> svc_Name s = name) (db_services db))"

definition GetService :: "string \<Rightarrow> string \<Rightarrow> (storeError, database, ServiceRow) op" where
  "GetService projectName name = mapError notFound (q_GetService projectName name)"

section \<open>Services in environments\<close>

text \<open>\<^verbatim>\<open>environment_services JOIN environments JOIN services\<close>\<close>

definition bindings :: "database \<Rightarrow> (EnvironmentService \<times> EnvironmentRow \<times> ServiceRow) list" where
  "bindings db = [(es, e, s). es \<leftarrow> db_environmentServices db, e \<leftarrow> db_environments db, s \<leftarrow> db_services db,
     env_ID e = es_EnvironmentID es \<and> svc_ID s = es_ServiceID es]"

definition q_ListServicesByEnvironment :: "string \<Rightarrow> string \<Rightarrow> ('e, database, ServiceRow list) op" where
  "q_ListServicesByEnvironment projectName name = query (\<lambda>db. sort_key svc_Name
     [s. (es, e, s) \<leftarrow> bindings db, env_ProjectName e = projectName \<and> env_Name e = name])"

definition ListServicesByEnvironment :: "string \<Rightarrow> string \<Rightarrow> (storeError, database, ServiceRow list) op" where
  "ListServicesByEnvironment projectName environment = q_ListServicesByEnvironment projectName environment"

definition q_AddServiceToEnvironment :: "uuid \<Rightarrow> uuid \<Rightarrow> string \<Rightarrow> (sqlError, database, EnvironmentService) op" where
  "q_AddServiceToEnvironment environmentID serviceID source db =
     (let (i, db1) = freshID db;
          row = \<lparr>es_ID = i, es_EnvironmentID = environmentID, es_ServiceID = serviceID, es_Source = source\<rparr>
      in if i \<in> es_ID ` set (db_environmentServices db)
            \<or> (environmentID, serviceID) \<in> (\<lambda>b. (es_EnvironmentID b, es_ServiceID b)) ` set (db_environmentServices db) then Inl Unique
         else if environmentID \<notin> env_ID ` set (db_environments db) \<or> serviceID \<notin> svc_ID ` set (db_services db) then Inl ForeignKey
         else Inr (row, db1\<lparr>db_environmentServices := db_environmentServices db @ [row]\<rparr>))"

text \<open>A nil source is stored as the empty object.\<close>

definition AddServiceToEnvironment :: "uuid \<Rightarrow> uuid \<Rightarrow> string option \<Rightarrow> (storeError, database, EnvironmentService) op" where
  "AddServiceToEnvironment environmentID serviceID source =
     mapError existsOrMissing (q_AddServiceToEnvironment environmentID serviceID
       (case source of None \<Rightarrow> ''{}'' | Some s \<Rightarrow> s))"

text \<open>\<^verbatim>\<open>INSERT ... SELECT\<close>: one new row per binding of the source, all or none.\<close>

definition q_CloneEnvironmentServices :: "uuid \<Rightarrow> uuid \<Rightarrow> (sqlError, database, nat) op" where
  "q_CloneEnvironmentServices dst src db =
     (let from = filter (\<lambda>b. es_EnvironmentID b = src) (db_environmentServices db)
      in case op_each (\<lambda>b. op_bind (q_AddServiceToEnvironment dst (es_ServiceID b) (es_Source b)) (\<lambda>_. op_ok ())) from db of
           Inl e \<Rightarrow> Inl e | Inr (_, db') \<Rightarrow> Inr (length from, db'))"

definition CloneEnvironmentServices :: "uuid \<Rightarrow> uuid \<Rightarrow> (storeError, database, nat) op" where
  "CloneEnvironmentServices src dst = mapError Map.empty (q_CloneEnvironmentServices dst src)"

record GetEnvironmentServiceRow =
  ges_ID :: uuid
  ges_Source :: string
  ges_ServiceID :: uuid
  ges_Stateful :: bool

definition targeted :: "string \<Rightarrow> string \<Rightarrow> string \<Rightarrow> EnvironmentService \<times> EnvironmentRow \<times> ServiceRow \<Rightarrow> bool" where
  "targeted projectName environment service =
     (\<lambda>(es, e, s). env_ProjectName e = projectName \<and> env_Name e = environment \<and> svc_Name s = service)"

definition q_GetEnvironmentService :: "string \<Rightarrow> string \<Rightarrow> string \<Rightarrow> (sqlError, database, GetEnvironmentServiceRow) op" where
  "q_GetEnvironmentService projectName environment service = queryRow (\<lambda>db.
     map (\<lambda>(es, e, s). \<lparr>ges_ID = es_ID es, ges_Source = es_Source es, ges_ServiceID = svc_ID s, ges_Stateful = svc_Stateful s\<rparr>)
       (filter (targeted projectName environment service) (bindings db)))"

definition GetEnvironmentService :: "string \<Rightarrow> string \<Rightarrow> string \<Rightarrow> (storeError, database, GetEnvironmentServiceRow) op" where
  "GetEnvironmentService projectName environment service = mapError notFound (q_GetEnvironmentService projectName environment service)"

section \<open>Status\<close>

record ProjectStatusRow =
  ps_Environment :: string
  ps_Service :: string
  ps_Stateful :: bool
  ps_DeployVersion :: "int option"
  ps_DeployStatus :: "DeploymentStatus option"
  ps_ImageRef :: "string option"
  ps_DesiredReplicas :: int
  ps_ObservedReplicas :: int
  ps_HealthyReplicas :: int

definition desiredReplicas :: "database \<Rightarrow> uuid \<Rightarrow> int" where
  "desiredReplicas db i = (\<Sum>r\<leftarrow>filter (\<lambda>r. dr_DeploymentID r = i) (db_deploymentRegions db). dr_Replicas r)"

definition runningRows :: "database \<Rightarrow> uuid \<Rightarrow> ReplicaRow list" where
  "runningRows db i = filter (\<lambda>r. rr_DeploymentID r = i \<and> rr_DesiredStatus r = ReplicaDesiredRunning) (db_replicas db)"

text \<open>The LEFT JOIN yields one row without a deployment when the binding has no current one.\<close>

definition statusRows :: "database \<Rightarrow> EnvironmentService \<times> EnvironmentRow \<times> ServiceRow \<Rightarrow> ProjectStatusRow list" where
  "statusRows db = (\<lambda>(es, e, s).
     let row = (\<lambda>v st im d ob hl. \<lparr>ps_Environment = env_Name e, ps_Service = svc_Name s, ps_Stateful = svc_Stateful s,
           ps_DeployVersion = v, ps_DeployStatus = st, ps_ImageRef = im,
           ps_DesiredReplicas = d, ps_ObservedReplicas = ob, ps_HealthyReplicas = hl\<rparr>)
     in case filter (\<lambda>d. dep_EnvironmentServiceID d = es_ID es \<and> dep_IsCurrent d) (db_deployments db) of
          [] \<Rightarrow> [row None None None 0 0 0]
        | ds \<Rightarrow> map (\<lambda>d. row (Some (dep_Version d)) (Some (dep_Status d)) (Some (dep_ImageRef d))
                 (desiredReplicas db (dep_ID d)) (int (length (runningRows db (dep_ID d))))
                 (int (length (filter rr_Healthy (runningRows db (dep_ID d)))))) ds)"

definition q_ProjectStatus :: "string \<Rightarrow> string \<Rightarrow> string \<Rightarrow> ('e, database, ProjectStatusRow list) op" where
  "q_ProjectStatus projectName environment service = query (\<lambda>db.
     sort_key (\<lambda>r. (ps_Environment r, ps_Service r)) (concat (map (statusRows db)
       (filter (\<lambda>(es, e, s). env_ProjectName e = projectName \<and> (environment = '''' \<or> env_Name e = environment)
                  \<and> (service = '''' \<or> svc_Name s = service)) (bindings db)))))"

definition ProjectStatus :: "string \<Rightarrow> string \<Rightarrow> string \<Rightarrow> (storeError, database, ProjectStatusRow list) op" where
  "ProjectStatus projectName environment service = q_ProjectStatus projectName environment service"

section \<open>Deployments\<close>

record CreateDeploymentParams =
  cd_EnvironmentServiceID :: uuid
  cd_Version :: int
  cd_ImageRef :: string
  cd_CpuMillicores :: int
  cd_MemBytes :: int
  cd_Env :: string
  cd_Healthcheck :: string
  cd_DrainSeconds :: int
  cd_RestartMax :: int
  cd_ProgressDeadline :: int
  cd_CommitMessage :: "string option"
  cd_CreatedBy :: "string option"

definition newDeployment :: "uuid \<Rightarrow> time \<Rightarrow> CreateDeploymentParams \<Rightarrow> DeploymentRow" where
  "newDeployment i now arg = \<lparr>dep_ID = i, dep_EnvironmentServiceID = cd_EnvironmentServiceID arg,
     dep_Version = cd_Version arg, dep_IsCurrent = True, dep_ImageRef = cd_ImageRef arg,
     dep_CpuMillicores = cd_CpuMillicores arg, dep_MemBytes = cd_MemBytes arg, dep_Env = cd_Env arg,
     dep_Healthcheck = cd_Healthcheck arg, dep_DrainSeconds = cd_DrainSeconds arg, dep_RestartMax = cd_RestartMax arg,
     dep_CommitMessage = cd_CommitMessage arg, dep_CreatedBy = cd_CreatedBy arg, dep_Status = DeploymentPending,
     dep_CreatedAt = now, dep_ProgressDeadline = cd_ProgressDeadline arg\<rparr>"

definition q_CreateDeployment :: "CreateDeploymentParams \<Rightarrow> (sqlError, database, DeploymentRow) op" where
  "q_CreateDeployment arg db =
     (let (i, db1) = freshID db; row = newDeployment i (db_now db) arg
      in if \<not> (0 < cd_CpuMillicores arg \<and> 0 < cd_MemBytes arg \<and> 0 \<le> cd_ProgressDeadline arg) then Inl Check
         else if i \<in> dep_ID ` set (db_deployments db)
            \<or> list_ex (\<lambda>d. dep_EnvironmentServiceID d = cd_EnvironmentServiceID arg
                 \<and> (dep_Version d = cd_Version arg \<or> dep_IsCurrent d)) (db_deployments db) then Inl Unique
         else if cd_EnvironmentServiceID arg \<notin> es_ID ` set (db_environmentServices db) then Inl ForeignKey
         else Inr (row, db1\<lparr>db_deployments := db_deployments db @ [row]\<rparr>))"

definition CreateDeployment :: "CreateDeploymentParams \<Rightarrow> (storeError, database, DeploymentRow) op" where
  "CreateDeployment arg = mapError Map.empty (q_CreateDeployment arg)"

definition deploymentsOf :: "database \<Rightarrow> uuid \<Rightarrow> DeploymentRow list" where
  "deploymentsOf db esID = filter (\<lambda>d. dep_EnvironmentServiceID d = esID) (db_deployments db)"

text \<open>\<^verbatim>\<open>COALESCE(MAX(version), 0)\<close>; adding one past the column's range is an error.\<close>

definition maxVersion :: "DeploymentRow list \<Rightarrow> int" where
  "maxVersion ds = (case ds of [] \<Rightarrow> 0 | d # ds' \<Rightarrow> foldl (\<lambda>m d. max m (dep_Version d)) (dep_Version d) ds')"

definition q_NextDeploymentVersion :: "uuid \<Rightarrow> (sqlError, database, int) op" where
  "q_NextDeploymentVersion esID db =
     (let v = maxVersion (deploymentsOf db esID) + 1 in if v < 2 ^ 31 then Inr (v, db) else Inl OutOfRange)"

definition NextDeploymentVersion :: "uuid \<Rightarrow> (storeError, database, int) op" where
  "NextDeploymentVersion esID = mapError Map.empty (q_NextDeploymentVersion esID)"

definition retireCurrent :: "DeploymentStatus \<Rightarrow> uuid \<Rightarrow> database \<Rightarrow> database" where
  "retireCurrent st esID db = snd (updateDeployments (\<lambda>d. dep_EnvironmentServiceID d = esID \<and> dep_IsCurrent d)
     (\<lambda>d. d\<lparr>dep_IsCurrent := False, dep_Status := st\<rparr>) db)"

definition SupersedeCurrentDeployments :: "uuid \<Rightarrow> (storeError, database, unit) op" where
  "SupersedeCurrentDeployments esID db = Inr ((), retireCurrent DeploymentSuperseded esID db)"

definition MarkCurrentRolledBack :: "uuid \<Rightarrow> (storeError, database, unit) op" where
  "MarkCurrentRolledBack esID db = Inr ((), retireCurrent DeploymentRolledBack esID db)"

definition q_GetCurrentDeploymentSpec :: "uuid \<Rightarrow> (sqlError, database, DeploymentRow) op" where
  "q_GetCurrentDeploymentSpec esID = queryRow (\<lambda>db. filter dep_IsCurrent (deploymentsOf db esID))"

definition GetCurrentDeploymentSpec :: "uuid \<Rightarrow> (storeError, database, DeploymentRow) op" where
  "GetCurrentDeploymentSpec esID = mapError notFound (q_GetCurrentDeploymentSpec esID)"

text \<open>The ID and the version of a deployment.\<close>

definition q_GetCurrentDeployment :: "uuid \<Rightarrow> (sqlError, database, uuid \<times> int) op" where
  "q_GetCurrentDeployment esID = queryRow (\<lambda>db. map (\<lambda>d. (dep_ID d, dep_Version d)) (filter dep_IsCurrent (deploymentsOf db esID)))"

definition GetCurrentDeployment :: "uuid \<Rightarrow> (storeError, database, uuid \<times> int) op" where
  "GetCurrentDeployment esID = mapError notFound (q_GetCurrentDeployment esID)"

definition q_GetDeploymentByVersion :: "uuid \<Rightarrow> int \<Rightarrow> (sqlError, database, uuid \<times> int) op" where
  "q_GetDeploymentByVersion esID version = queryRow (\<lambda>db.
     map (\<lambda>d. (dep_ID d, dep_Version d)) (filter (\<lambda>d. dep_Version d = version) (deploymentsOf db esID)))"

definition GetDeploymentByVersion :: "uuid \<Rightarrow> int \<Rightarrow> (storeError, database, uuid \<times> int) op" where
  "GetDeploymentByVersion esID version = mapError notFound (q_GetDeploymentByVersion esID version)"

definition q_PreviousDeploymentVersion :: "uuid \<Rightarrow> int \<Rightarrow> (sqlError, database, int) op" where
  "q_PreviousDeploymentVersion esID before = queryRow (\<lambda>db.
     rev (sort (map dep_Version (filter (\<lambda>d. dep_Version d < before) (deploymentsOf db esID)))))"

definition PreviousDeploymentVersion :: "uuid \<Rightarrow> int \<Rightarrow> (storeError, database, int) op" where
  "PreviousDeploymentVersion esID before = mapError notFound (q_PreviousDeploymentVersion esID before)"

text \<open>The partial unique index is checked when the row becomes current.\<close>

definition q_SetDeploymentCurrent :: "uuid \<Rightarrow> (sqlError, database, unit) op" where
  "q_SetDeploymentCurrent i db =
     (let db' = snd (updateDeployments (\<lambda>d. dep_ID d = i) (\<lambda>d. d\<lparr>dep_IsCurrent := True, dep_Status := DeploymentPending\<rparr>) db)
      in if one_current db' then Inr ((), db') else Inl Unique)"

definition SetDeploymentCurrent :: "uuid \<Rightarrow> (storeError, database, unit) op" where
  "SetDeploymentCurrent i = mapError Map.empty (q_SetDeploymentCurrent i)"

definition q_CurrentDeploymentID :: "string \<Rightarrow> string \<Rightarrow> string \<Rightarrow> (sqlError, database, uuid) op" where
  "q_CurrentDeploymentID projectName environment service = queryRow (\<lambda>db.
     map dep_ID (filter (\<lambda>d. dep_IsCurrent d
        \<and> list_ex (\<lambda>b. es_ID (fst b) = dep_EnvironmentServiceID d \<and> targeted projectName environment service b) (bindings db))
       (db_deployments db)))"

definition CurrentDeploymentID :: "string \<Rightarrow> string \<Rightarrow> string \<Rightarrow> (storeError, database, uuid) op" where
  "CurrentDeploymentID projectName environment service = mapError notFound (q_CurrentDeploymentID projectName environment service)"

section \<open>Regions of a deployment\<close>

definition regionHit :: "uuid \<Rightarrow> string \<Rightarrow> DeploymentRegion \<Rightarrow> bool" where
  "regionHit i region r \<longleftrightarrow> dr_DeploymentID r = i \<and> dr_Region r = region"

definition q_SetDeploymentRegion :: "uuid \<Rightarrow> string \<Rightarrow> int \<Rightarrow> (sqlError, database, unit) op" where
  "q_SetDeploymentRegion i region replicas db =
     (if replicas < 0 then Inl Check
      else if list_ex (regionHit i region) (db_deploymentRegions db)
      then Inr ((), db\<lparr>db_deploymentRegions :=
             map (\<lambda>r. if regionHit i region r then r\<lparr>dr_Replicas := replicas\<rparr> else r) (db_deploymentRegions db)\<rparr>)
      else if i \<notin> dep_ID ` set (db_deployments db) \<or> region \<notin> set (db_regions db) then Inl ForeignKey
      else Inr ((), db\<lparr>db_deploymentRegions := db_deploymentRegions db
             @ [\<lparr>dr_DeploymentID = i, dr_Region = region, dr_Replicas = replicas\<rparr>]\<rparr>))"

definition SetDeploymentRegion :: "uuid \<Rightarrow> string \<Rightarrow> int \<Rightarrow> (storeError, database, unit) op" where
  "SetDeploymentRegion i region replicas = mapError Map.empty (q_SetDeploymentRegion i region replicas)"

definition q_ListDeploymentRegions :: "uuid \<Rightarrow> ('e, database, (string \<times> int) list) op" where
  "q_ListDeploymentRegions i = query (\<lambda>db.
     map (\<lambda>r. (dr_Region r, dr_Replicas r)) (sort_key dr_Region (filter (\<lambda>r. dr_DeploymentID r = i) (db_deploymentRegions db))))"

definition ListDeploymentRegions :: "uuid \<Rightarrow> (storeError, database, (string \<times> int) list) op" where
  "ListDeploymentRegions i = q_ListDeploymentRegions i"

definition ZeroDeploymentRegions :: "uuid \<Rightarrow> (storeError, database, unit) op" where
  "ZeroDeploymentRegions i db = Inr ((), db\<lparr>db_deploymentRegions :=
     map (\<lambda>r. if dr_DeploymentID r = i then r\<lparr>dr_Replicas := 0\<rparr> else r) (db_deploymentRegions db)\<rparr>)"

section \<open>Volumes\<close>

definition volumeHit :: "uuid \<Rightarrow> string \<Rightarrow> VolumeRow \<Rightarrow> bool" where
  "volumeHit esID mountPath v \<longleftrightarrow> vr_EnvironmentServiceID v = esID \<and> vr_MountPath v = mountPath"

definition q_CreateVolume :: "uuid \<Rightarrow> string \<Rightarrow> string \<Rightarrow> string \<Rightarrow> int \<Rightarrow> (sqlError, database, VolumeRow) op" where
  "q_CreateVolume esID name region mountPath sizeBytes db =
     (let (i, db1) = freshID db;
          row = \<lparr>vr_ID = i, vr_Name = name, vr_MountPath = mountPath, vr_Region = region, vr_HostID = None,
             vr_Backing = ''local'', vr_DesiredSizeBytes = sizeBytes, vr_ObservedSizeBytes = None, vr_Status = VolumePending,
             vr_CreatedAt = db_now db, vr_PreviousDesiredSizeBytes = None, vr_EnvironmentServiceID = esID\<rparr>
      in if sizeBytes \<le> 0 then Inl Check
         else if i \<in> vr_ID ` set (db_volumes db)
            \<or> list_ex (\<lambda>v. vr_EnvironmentServiceID v = esID \<and> (vr_Name v = name \<or> vr_MountPath v = mountPath)) (db_volumes db) then Inl Unique
         else if esID \<notin> es_ID ` set (db_environmentServices db) \<or> region \<notin> set (db_regions db) then Inl ForeignKey
         else Inr (row, db1\<lparr>db_volumes := db_volumes db @ [row]\<rparr>))"

definition CreateVolume :: "uuid \<Rightarrow> string \<Rightarrow> string \<Rightarrow> string \<Rightarrow> int \<Rightarrow> (storeError, database, VolumeRow) op" where
  "CreateVolume esID name region mountPath sizeBytes = mapError [Unique \<mapsto> ErrExists] (q_CreateVolume esID name region mountPath sizeBytes)"

definition q_ListVolumesByEnvironmentService :: "string \<Rightarrow> string \<Rightarrow> string \<Rightarrow> ('e, database, VolumeRow list) op" where
  "q_ListVolumesByEnvironmentService projectName environment service = query (\<lambda>db. sort_key vr_MountPath
     (filter (\<lambda>v. list_ex (\<lambda>(es, e, s). es_ID es = vr_EnvironmentServiceID v \<and> svc_ProjectName s = projectName
        \<and> env_Name e = environment \<and> svc_Name s = service) (bindings db)) (db_volumes db)))"

definition ListVolumesByEnvironmentService :: "string \<Rightarrow> string \<Rightarrow> string \<Rightarrow> (storeError, database, VolumeRow list) op" where
  "ListVolumesByEnvironmentService projectName environment service = q_ListVolumesByEnvironmentService projectName environment service"

definition q_GetVolume :: "uuid \<Rightarrow> string \<Rightarrow> (sqlError, database, VolumeRow) op" where
  "q_GetVolume esID mountPath = queryRow (\<lambda>db. filter (volumeHit esID mountPath) (db_volumes db))"

definition GetVolume :: "uuid \<Rightarrow> string \<Rightarrow> (storeError, database, VolumeRow) op" where
  "GetVolume esID mountPath = mapError notFound (q_GetVolume esID mountPath)"

definition q_GetHost :: "uuid \<Rightarrow> (sqlError, database, HostRow) op" where
  "q_GetHost hostID = queryRow (\<lambda>db. filter (\<lambda>h. hr_ID h = hostID) (db_hosts db))"

definition GetHost :: "uuid \<Rightarrow> (storeError, database, HostRow) op" where
  "GetHost hostID = mapError notFound (q_GetHost hostID)"

text \<open>\<^verbatim>\<open>UPDATE volumes ... RETURNING\<close>: the rows the WHERE selects are written and the first one returned;
  the CHECK on the desired size is tested on a row that is written.\<close>

definition updateVolumeRow :: "(VolumeRow \<Rightarrow> bool) \<Rightarrow> (VolumeRow \<Rightarrow> VolumeRow) \<Rightarrow> (sqlError, database, VolumeRow) op" where
  "updateVolumeRow P f db =
     (case filter P (db_volumes db) of
        [] \<Rightarrow> Inl NoRows
      | v # _ \<Rightarrow> if list_all volume_ok (map f (filter P (db_volumes db))) then Inr (f v, snd (updateVolumes P f db)) else Inl Check)"

definition q_UpdateVolumeSize :: "int \<Rightarrow> uuid \<Rightarrow> string \<Rightarrow> (sqlError, database, VolumeRow) op" where
  "q_UpdateVolumeSize sizeBytes esID mountPath = updateVolumeRow (volumeHit esID mountPath)
     (\<lambda>v. v\<lparr>vr_PreviousDesiredSizeBytes := Some (vr_DesiredSizeBytes v), vr_DesiredSizeBytes := sizeBytes\<rparr>)"

definition UpdateVolumeSize :: "uuid \<Rightarrow> string \<Rightarrow> int \<Rightarrow> (storeError, database, VolumeRow) op" where
  "UpdateVolumeSize esID mountPath sizeBytes = mapError notFound (q_UpdateVolumeSize sizeBytes esID mountPath)"

definition revertible :: "VolumeRow \<Rightarrow> bool" where
  "revertible v \<longleftrightarrow> vr_Status v = VolumeResizePending \<and> vr_PreviousDesiredSizeBytes v \<noteq> None"

definition q_RevertVolumeSize :: "uuid \<Rightarrow> string \<Rightarrow> (sqlError, database, VolumeRow) op" where
  "q_RevertVolumeSize esID mountPath = updateVolumeRow (\<lambda>v. volumeHit esID mountPath v \<and> revertible v)
     (\<lambda>v. v\<lparr>vr_DesiredSizeBytes := (case vr_PreviousDesiredSizeBytes v of None \<Rightarrow> 0 | Some n \<Rightarrow> n),
             vr_PreviousDesiredSizeBytes := None\<rparr>)"

definition RevertVolumeSize :: "uuid \<Rightarrow> string \<Rightarrow> (storeError, database, VolumeRow) op" where
  "RevertVolumeSize esID mountPath = mapError notFound (q_RevertVolumeSize esID mountPath)"

text \<open>A volume a replica is pinned to cannot go; the leases of one that goes go with it.\<close>

definition q_DeleteVolume :: "uuid \<Rightarrow> string \<Rightarrow> (sqlError, database, VolumeRow) op" where
  "q_DeleteVolume esID mountPath db =
     (case filter (volumeHit esID mountPath) (db_volumes db) of
        [] \<Rightarrow> Inl NoRows
      | v # vs \<Rightarrow>
          let gone = map vr_ID (v # vs)
          in if list_ex (\<lambda>r. case rr_VolumeID r of None \<Rightarrow> False | Some i \<Rightarrow> i \<in> set gone) (db_replicas db) then Inl ForeignKey
             else Inr (v, db\<lparr>db_volumes := filter (\<lambda>v. \<not> volumeHit esID mountPath v) (db_volumes db),
                            db_leases := filter (\<lambda>l. vl_VolumeID l \<notin> set gone) (db_leases db)\<rparr>))"

definition DeleteVolume :: "uuid \<Rightarrow> string \<Rightarrow> (storeError, database, VolumeRow) op" where
  "DeleteVolume esID mountPath = mapError notFound (q_DeleteVolume esID mountPath)"

end
