(* ===== verification/ControlPlaneQueries.thy ===== *)
theory ControlPlaneQueries
  imports ProjectQueries Snapshot
begin

text \<open>
  The statements behind the operator's reads and the operator's own transitions:
  \<^verbatim>\<open>internal/storage/controlplane.go\<close> over \<^verbatim>\<open>internal/storage/db/controlplane.sql.go\<close>, and
  \<^verbatim>\<open>ListAgentHosts\<close> of \<^verbatim>\<open>sensor.sql.go\<close>. The rows of a GROUP BY are listed in the order of the first row
  of each group; the callers put them into a map. Every filter is a no-op when it is the empty text.
\<close>

section \<open>Host transitions\<close>

definition CordonHost :: "uuid \<Rightarrow> (storeError, database, bool) op" where
  "CordonHost hostID = op_bind (exec_rows (updateHosts (\<lambda>h. hr_ID h = hostID \<and> hr_Status h = HostOpen)
     (\<lambda>h. h\<lparr>hr_Status := HostCordoned\<rparr>))) (\<lambda>n. op_ok (n > 0))"

definition UncordonHost :: "uuid \<Rightarrow> (storeError, database, bool) op" where
  "UncordonHost hostID = op_bind (exec_rows (updateHosts
       (\<lambda>h. hr_ID h = hostID \<and> (hr_Status h = HostCordoned \<or> hr_Status h = HostDraining))
       (\<lambda>h. h\<lparr>hr_Status := HostOpen, hr_DrainStartedAt := None\<rparr>))) (\<lambda>n. op_ok (n > 0))"

text \<open>\<open>now\<close> is what the apiserver's clock reads.\<close>

definition DrainHost :: "time \<Rightarrow> uuid \<Rightarrow> (storeError, database, bool) op" where
  "DrainHost now hostID = op_bind (exec_rows (updateHosts (\<lambda>h. hr_ID h = hostID \<and> hr_Status h \<noteq> HostDraining)
     (\<lambda>h. h\<lparr>hr_Status := HostDraining, hr_DrainStartedAt := Some now\<rparr>))) (\<lambda>n. op_ok (n > 0))"

section \<open>Thawing a frozen replica\<close>

text \<open>
  One statement: the common table expression updates, the outer SELECT reads the state before it. The
  result says whether the row exists and whether it was restarted.
\<close>

definition thaw :: "ReplicaRow \<Rightarrow> ReplicaRow" where
  "thaw r = r\<lparr>rr_Phase := ReplicaPhaseReplacing, rr_HostID := None, rr_Healthy := False, rr_RestartCount := 0,
     rr_LastExitReason := None, rr_Revision := rr_Revision r + 1\<rparr>"

definition q_RestartReplica :: "uuid \<Rightarrow> (storeError, database, bool \<times> bool) op" where
  "q_RestartReplica replicaID db =
     (let (n, db') = updateReplicas (\<lambda>r. rr_ID r = replicaID \<and> rr_Phase r = ReplicaPhaseFailed) thaw db
      in Inr ((replicaID \<in> rr_ID ` set (db_replicas db), n > 0), db'))"

definition RestartReplica :: "uuid \<Rightarrow> (storeError, database, unit) op" where
  "RestartReplica replicaID = op_bind (q_RestartReplica replicaID) (\<lambda>(found, restarted).
     if restarted then op_ok () else if \<not> found then op_err ErrNotFound else op_err ErrConflict)"

section \<open>Usage and rosters\<close>

definition ListReplicas :: "(storeError, database, ReplicaRow list) op" where
  "ListReplicas = query (\<lambda>db. sort_key rr_CreatedAt (filter (\<lambda>r. rr_Phase r \<noteq> ReplicaPhaseReaped) (db_replicas db)))"

definition ListAgentHosts :: "(storeError, database, HostRow list) op" where
  "ListAgentHosts = query db_hosts"

definition ListDeploymentReplicaIDs :: "uuid \<Rightarrow> (storeError, database, uuid list) op" where
  "ListDeploymentReplicaIDs deploymentID = query (\<lambda>db.
     map rr_ID (filter (\<lambda>r. rr_DeploymentID r = deploymentID \<and> liveRow r) (db_replicas db)))"

definition q_ListHostReplicaCounts :: "database \<Rightarrow> (uuid \<times> nat) list" where
  "q_ListHostReplicaCounts db =
     (let live = filter liveRow (db_replicas db)
      in map (\<lambda>h. (h, length (filter (\<lambda>r. rr_HostID r = Some h) live))) (remdups (List.map_filter rr_HostID live)))"

definition ListHostReplicaCounts :: "(storeError, database, uuid \<rightharpoonup> nat) op" where
  "ListHostReplicaCounts db = Inr (map_of (q_ListHostReplicaCounts db), db)"

record HostUsage =
  hu_CPUMillicores :: int
  hu_MemBytes :: int
  hu_DiskBytes :: int

definition zero_usage :: HostUsage where
  "zero_usage = \<lparr>hu_CPUMillicores = 0, hu_MemBytes = 0, hu_DiskBytes = 0\<rparr>"

text \<open>\<^verbatim>\<open>CASE WHEN status = 'resizing' OR coalesce(observed_size_bytes, 0) <= 0 THEN desired ... ELSE observed\<close>\<close>

definition committedBytes :: "VolumeRow \<Rightarrow> int" where
  "committedBytes v =
     (let observed = (case vr_ObservedSizeBytes v of None \<Rightarrow> 0 | Some n \<Rightarrow> n)
      in if vr_Status v = VolumeResizing \<or> observed \<le> 0 then vr_DesiredSizeBytes v else observed)"

definition hostUsage :: "database \<Rightarrow> uuid \<Rightarrow> HostUsage" where
  "hostUsage db i =
     (let rs = filter (\<lambda>r. rr_HostID r = Some i \<and> rr_Phase r \<noteq> ReplicaPhaseReaped) (db_replicas db);
          vs = filter (\<lambda>v. vr_HostID v = Some i) (db_volumes db)
      in \<lparr>hu_CPUMillicores = sum_list (map rr_CpuMillicores rs), hu_MemBytes = sum_list (map rr_MemBytes rs),
          hu_DiskBytes = sum_list (map committedBytes vs)\<rparr>)"

text \<open>The casts to bigint fail on a sum outside its range.\<close>

definition usage_in_range :: "HostUsage \<Rightarrow> bool" where
  "usage_in_range u \<longleftrightarrow> is_int64 (hu_CPUMillicores u) \<and> is_int64 (hu_MemBytes u) \<and> is_int64 (hu_DiskBytes u)"

definition q_ListHostUsage :: "(storeError, database, (uuid \<times> HostUsage) list) op" where
  "q_ListHostUsage db =
     (let rows = map (\<lambda>h. (hr_ID h, hostUsage db (hr_ID h))) (db_hosts db)
      in if list_all (\<lambda>(i, u). usage_in_range u) rows then Inr (rows, db) else Inl ErrDriver)"

definition ListHostUsage :: "(storeError, database, uuid \<rightharpoonup> HostUsage) op" where
  "ListHostUsage = op_bind q_ListHostUsage (\<lambda>rows. op_ok (map_of rows))"

text \<open>A Go map read with its zero value.\<close>

definition usageAt :: "(uuid \<rightharpoonup> HostUsage) \<Rightarrow> uuid \<Rightarrow> HostUsage" where
  "usageAt m i = (case m i of None \<Rightarrow> zero_usage | Some u \<Rightarrow> u)"

section \<open>The naming tree\<close>

definition matches :: "string \<Rightarrow> string \<Rightarrow> bool" where
  "matches f v \<longleftrightarrow> f = '''' \<or> v = f"

definition ListProjectNames :: "string \<Rightarrow> (storeError, database, string list) op" where
  "ListProjectNames project = query (\<lambda>db. sort (filter (matches project) (map pr_Name (db_projects db))))"

definition ListRegionNames :: "(storeError, database, string list) op" where
  "ListRegionNames = query (\<lambda>db. sort (db_regions db))"

definition ListEnvironmentRows :: "string \<Rightarrow> string \<Rightarrow> (storeError, database, (uuid \<times> string \<times> string) list) op" where
  "ListEnvironmentRows project environment = query (\<lambda>db.
     map (\<lambda>e. (env_ID e, env_ProjectName e, env_Name e)) (sort_key (\<lambda>e. (env_ProjectName e, env_Name e))
       (filter (\<lambda>e. matches project (env_ProjectName e) \<and> matches environment (env_Name e)) (db_environments db))))"

text \<open>The EXISTS: some binding of the service into an environment of its own project with the name.\<close>

definition boundIn :: "database \<Rightarrow> string \<Rightarrow> ServiceRow \<Rightarrow> bool" where
  "boundIn db environment s \<longleftrightarrow> list_ex (\<lambda>es. es_ServiceID es = svc_ID s
     \<and> list_ex (\<lambda>e. env_ID e = es_EnvironmentID es \<and> env_ProjectName e = svc_ProjectName s \<and> env_Name e = environment)
         (db_environments db)) (db_environmentServices db)"

definition ListProjectServices :: "string \<Rightarrow> string \<Rightarrow> (storeError, database, (uuid \<times> string \<times> bool) list) op" where
  "ListProjectServices project environment = query (\<lambda>db.
     map (\<lambda>s. (svc_ID s, svc_Name s, svc_Stateful s)) (sort_key svc_Name
       (filter (\<lambda>s. svc_ProjectName s = project \<and> (environment = '''' \<or> boundIn db environment s)) (db_services db))))"

section \<open>The topology\<close>

record TopologyFilter =
  tf_Project :: string
  tf_Environment :: string
  tf_Region :: string

text \<open>\<^verbatim>\<open>deployments JOIN environment_services JOIN environments\<close>, narrowed by project and environment.\<close>

definition scoped :: "TopologyFilter \<Rightarrow> EnvironmentRow \<Rightarrow> bool" where
  "scoped f e \<longleftrightarrow> matches (tf_Project f) (env_ProjectName e) \<and> matches (tf_Environment f) (env_Name e)"

definition deploymentScope :: "database \<Rightarrow> TopologyFilter \<Rightarrow> DeploymentRow \<Rightarrow> (EnvironmentService \<times> EnvironmentRow) list" where
  "deploymentScope db f d = [(es, e). es \<leftarrow> db_environmentServices db, es_ID es = dep_EnvironmentServiceID d,
     e \<leftarrow> db_environments db, env_ID e = es_EnvironmentID es \<and> scoped f e]"

text \<open>\<^verbatim>\<open>LEFT JOIN hosts\<close>: a replica or a volume without a host has no host name.\<close>

definition hostnameOf :: "database \<Rightarrow> uuid option \<Rightarrow> string option" where
  "hostnameOf db hid = (case hid of None \<Rightarrow> None
     | Some i \<Rightarrow> map_option hr_Hostname (find (\<lambda>h. hr_ID h = i) (db_hosts db)))"

record TopologyServicesRow =
  ts_EsID :: uuid
  ts_EnvironmentID :: uuid
  ts_Service :: string
  ts_Stateful :: bool
  ts_Deployment :: "DeploymentRow option"

text \<open>The nullable columns of the LEFT JOIN come from one deployment row or are all NULL.\<close>

definition TopologyServices :: "TopologyFilter \<Rightarrow> (storeError, database, TopologyServicesRow list) op" where
  "TopologyServices f = query (\<lambda>db. sort_key ts_Service
     (concat (map (\<lambda>(es, e, s).
        let row = (\<lambda>d. \<lparr>ts_EsID = es_ID es, ts_EnvironmentID = es_EnvironmentID es, ts_Service = svc_Name s,
              ts_Stateful = svc_Stateful s, ts_Deployment = d\<rparr>)
        in case filter (\<lambda>d. dep_EnvironmentServiceID d = es_ID es \<and> dep_IsCurrent d) (db_deployments db) of
             [] \<Rightarrow> [row None] | ds \<Rightarrow> map (\<lambda>d. row (Some d)) ds)
      (filter (\<lambda>(es, e, s). scoped f e) (bindings db)))))"

record TopologyDesiredRegionsRow =
  td_EsID :: uuid
  td_Region :: string
  td_Desired :: int

definition TopologyDesiredRegions :: "TopologyFilter \<Rightarrow> (storeError, database, TopologyDesiredRegionsRow list) op" where
  "TopologyDesiredRegions f = query (\<lambda>db.
     [\<lparr>td_EsID = es_ID es, td_Region = dr_Region dr, td_Desired = dr_Replicas dr\<rparr>.
      dr \<leftarrow> db_deploymentRegions db, matches (tf_Region f) (dr_Region dr),
      d \<leftarrow> db_deployments db, dep_ID d = dr_DeploymentID dr \<and> dep_IsCurrent d,
      (es, e) \<leftarrow> deploymentScope db f d])"

record TopologyReplicasRow =
  tr_ID :: uuid
  tr_Region :: string
  tr_Hostname :: "string option"
  tr_HostID :: "uuid option"
  tr_Phase :: ReplicaPhase
  tr_Healthy :: bool
  tr_DesiredStatus :: ReplicaDesiredStatus
  tr_RestartCount :: int
  tr_LastExitReason :: "string option"
  tr_UpdatedAt :: time
  tr_DepVersion :: int
  tr_IsCurrent :: bool
  tr_DeploymentID :: uuid
  tr_EsID :: uuid
  tr_CpuMillicores :: int
  tr_MemBytes :: int
  tr_VolumeID :: "uuid option"

definition topologyReplicasRow :: "database \<Rightarrow> ReplicaRow \<Rightarrow> DeploymentRow \<Rightarrow> EnvironmentService \<Rightarrow> TopologyReplicasRow" where
  "topologyReplicasRow db r d es = \<lparr>tr_ID = rr_ID r, tr_Region = rr_Region r, tr_Hostname = hostnameOf db (rr_HostID r),
     tr_HostID = rr_HostID r, tr_Phase = rr_Phase r, tr_Healthy = rr_Healthy r, tr_DesiredStatus = rr_DesiredStatus r,
     tr_RestartCount = rr_RestartCount r, tr_LastExitReason = rr_LastExitReason r, tr_UpdatedAt = rr_UpdatedAt r,
     tr_DepVersion = dep_Version d, tr_IsCurrent = dep_IsCurrent d, tr_DeploymentID = dep_ID d, tr_EsID = es_ID es,
     tr_CpuMillicores = rr_CpuMillicores r, tr_MemBytes = rr_MemBytes r, tr_VolumeID = rr_VolumeID r\<rparr>"

definition TopologyReplicas :: "TopologyFilter \<Rightarrow> (storeError, database, TopologyReplicasRow list) op" where
  "TopologyReplicas f = query (\<lambda>db.
     [topologyReplicasRow db r d es.
      r \<leftarrow> sort_key (\<lambda>r. (rr_Region r, rr_CreatedAt r)) (filter (\<lambda>r. matches (tf_Region f) (rr_Region r)) (db_replicas db)),
      d \<leftarrow> db_deployments db, dep_ID d = rr_DeploymentID r,
      (es, e) \<leftarrow> deploymentScope db f d])"

record TopologyVolumesRow =
  tv_ID :: uuid
  tv_MountPath :: string
  tv_Region :: string
  tv_HostID :: "uuid option"
  tv_Hostname :: "string option"
  tv_Status :: VolumeStatus
  tv_DesiredSizeBytes :: int
  tv_ObservedSizeBytes :: "int option"
  tv_PreviousDesiredSizeBytes :: "int option"
  tv_EsID :: uuid

definition TopologyVolumes :: "TopologyFilter \<Rightarrow> (storeError, database, TopologyVolumesRow list) op" where
  "TopologyVolumes f = query (\<lambda>db. sort_key tv_MountPath
     [\<lparr>tv_ID = vr_ID v, tv_MountPath = vr_MountPath v, tv_Region = vr_Region v, tv_HostID = vr_HostID v,
        tv_Hostname = hostnameOf db (vr_HostID v), tv_Status = vr_Status v, tv_DesiredSizeBytes = vr_DesiredSizeBytes v,
        tv_ObservedSizeBytes = vr_ObservedSizeBytes v, tv_PreviousDesiredSizeBytes = vr_PreviousDesiredSizeBytes v,
        tv_EsID = vr_EnvironmentServiceID v\<rparr>.
      v \<leftarrow> db_volumes db, matches (tf_Region f) (vr_Region v),
      es \<leftarrow> db_environmentServices db, es_ID es = vr_EnvironmentServiceID v,
      e \<leftarrow> db_environments db, env_ID e = es_EnvironmentID es \<and> scoped f e])"

definition TopologyHosts :: "string \<Rightarrow> (storeError, database, HostRow list) op" where
  "TopologyHosts region = query (\<lambda>db.
     sort_key (\<lambda>h. (hr_Region h, hr_Hostname h)) (filter (\<lambda>h. matches region (hr_Region h)) (db_hosts db)))"

record TopologyServedRow =
  tsv_EnvironmentServiceID :: uuid
  tsv_Region :: string
  tsv_DeploymentID :: uuid
  tsv_DepVersion :: int
  tsv_Service :: string
  tsv_Environment :: string
  tsv_UpdatedAt :: time

definition TopologyServed :: "TopologyFilter \<Rightarrow> (storeError, database, TopologyServedRow list) op" where
  "TopologyServed f = query (\<lambda>db. sort_key (\<lambda>r. (tsv_Environment r, tsv_Service r, tsv_Region r))
     [\<lparr>tsv_EnvironmentServiceID = sr_EnvironmentServiceID sr, tsv_Region = sr_Region sr, tsv_DeploymentID = sr_DeploymentID sr,
        tsv_DepVersion = dep_Version d, tsv_Service = svc_Name s, tsv_Environment = env_Name e, tsv_UpdatedAt = sr_UpdatedAt sr\<rparr>.
      sr \<leftarrow> db_served db,
      d \<leftarrow> db_deployments db, dep_ID d = sr_DeploymentID sr,
      (es, e, s) \<leftarrow> bindings db, es_ID es = dep_EnvironmentServiceID d \<and> scoped f e])"

end
