(* ===== verification/Project.thy ===== *)
theory Project
  imports ProjectQueries Snapshot Deployspec
begin

text \<open>
  Package \<^verbatim>\<open>internal/project\<close>: the operator's commands on projects, environments, services, deployments
  and volumes (\<^verbatim>\<open>project.go\<close>, \<^verbatim>\<open>environment.go\<close>, \<^verbatim>\<open>scale.go\<close>, \<^verbatim>\<open>volume.go\<close>). A function that runs in
  one transaction is an operation on the database; one that issues several statements outside a
  transaction is a sequence of steps other writers may come between.

  A Go map from regions to counts is the list of its entries in the order the runtime ranges over
  them. The JSON text of a service's source is taken as the caller marshalled it.
\<close>

section \<open>Errors\<close>

text \<open>\<open>ErrInvalid\<close> marks a request the caller got wrong; any other error is the store's.\<close>

datatype projectError = ErrInvalid | ErrStore storeError

definition st :: "(storeError, 's, 'a) op \<Rightarrow> (projectError, 's, 'a) op" where
  "st m s = (case m s of Inl e \<Rightarrow> Inl (ErrStore e) | Inr r \<Rightarrow> Inr r)"

text \<open>A lookup any failure of which is reported as the caller's mistake.\<close>

definition orInvalid :: "(storeError, 's, 'a) op \<Rightarrow> (projectError, 's, 'a) op" where
  "orInvalid m s = (case m s of Inl e \<Rightarrow> Inl ErrInvalid | Inr r \<Rightarrow> Inr r)"

text \<open>One statement on the store, outside a transaction.\<close>

definition stmt :: "(nat \<Rightarrow> 's \<Rightarrow> 's) \<Rightarrow> (storeError, 's, 'a) op \<Rightarrow> (projectError, 's, 'a) steps" where
  "stmt env m = WithTx env (st m)"

section \<open>Projects and services\<close>

record Target =
  tg_Project :: string
  tg_Environment :: string
  tg_Service :: string

definition createProject :: "string \<Rightarrow> string \<Rightarrow> (projectError, database, ProjectRow) op" where
  "createProject name env =
     op_bind (st (CreateProject name)) (\<lambda>p.
       op_bind (st (CreateEnvironment name env)) (\<lambda>_. op_ok p))"

definition verifyTarget :: "(nat \<Rightarrow> database \<Rightarrow> database) \<Rightarrow> Target \<Rightarrow> (projectError, database, unit) steps" where
  "verifyTarget env t =
     run_bind (stmt env (GetProject (tg_Project t))) (\<lambda>_.
     run_bind (if tg_Environment t \<noteq> ''''
               then run_bind (stmt env (GetEnvironment (tg_Project t) (tg_Environment t))) (\<lambda>_. run_ok ())
               else run_ok ()) (\<lambda>_.
     if tg_Service t \<noteq> ''''
     then run_bind (stmt env (GetService (tg_Project t) (tg_Service t))) (\<lambda>_. run_ok ())
     else run_ok ()))"

definition listServices :: "(nat \<Rightarrow> database \<Rightarrow> database) \<Rightarrow> Target \<Rightarrow> (projectError, database, ServiceRow list) steps" where
  "listServices env t =
     run_bind (stmt env (GetEnvironment (tg_Project t) (tg_Environment t))) (\<lambda>_.
       stmt env (ListServicesByEnvironment (tg_Project t) (tg_Environment t)))"

record VolumeSpec =
  vsp_MountPath :: string
  vsp_SizeBytes :: int

record AddServiceInput =
  as_Target :: Target
  as_Stateful :: bool
  as_Volume :: "VolumeSpec option"

definition addService :: "AddServiceInput \<Rightarrow> string option \<Rightarrow> (projectError, database, ServiceRow) op" where
  "addService inp source =
     op_bind (st (GetEnvironment (tg_Project (as_Target inp)) (tg_Environment (as_Target inp)))) (\<lambda>env.
     op_bind (st (CreateService (tg_Project (as_Target inp)) (tg_Service (as_Target inp)) (as_Stateful inp))) (\<lambda>svc.
     op_bind (st (AddServiceToEnvironment (env_ID env) (svc_ID svc) source)) (\<lambda>_. op_ok svc)))"

definition BindService :: "(nat \<Rightarrow> database \<Rightarrow> database) \<Rightarrow> uuid \<Rightarrow> uuid \<Rightarrow> string option \<Rightarrow> (projectError, database, EnvironmentService) steps" where
  "BindService env environmentID serviceID source = stmt env (AddServiceToEnvironment environmentID serviceID source)"

section \<open>Environments\<close>

definition listEnvironments :: "(nat \<Rightarrow> database \<Rightarrow> database) \<Rightarrow> string \<Rightarrow> (projectError, database, EnvironmentRow list) steps" where
  "listEnvironments env projectName =
     run_bind (stmt env (GetProject projectName)) (\<lambda>_. stmt env (ListEnvironments projectName))"

record CreateEnvironmentResult =
  ce_Environment :: EnvironmentRow
  ce_SourceEnv :: string
  ce_ServicesCloned :: nat

definition createEnvironment :: "string \<Rightarrow> string \<Rightarrow> string \<Rightarrow> (projectError, database, CreateEnvironmentResult) op" where
  "createEnvironment projectName sourceEnv name =
     op_bind (st (CreateEnvironment projectName name)) (\<lambda>env.
       if sourceEnv = '''' then op_ok \<lparr>ce_Environment = env, ce_SourceEnv = sourceEnv, ce_ServicesCloned = 0\<rparr>
       else op_bind (st (GetEnvironment projectName sourceEnv)) (\<lambda>src.
            op_bind (st (CloneEnvironmentServices (env_ID src) (env_ID env))) (\<lambda>n.
              op_ok \<lparr>ce_Environment = env, ce_SourceEnv = sourceEnv, ce_ServicesCloned = n\<rparr>)))"

section \<open>Deploying\<close>

type_synonym regionCounts = "(string \<times> int) list"

definition maxStatefulReplicas :: int where "maxStatefulReplicas = 1"

text \<open>The count of a region; a missing key reads as zero.\<close>

definition countAt :: "regionCounts \<Rightarrow> string \<Rightarrow> int" where
  "countAt m region = (case map_of m region of None \<Rightarrow> 0 | Some n \<Rightarrow> n)"

text \<open>An int32 sum, which wraps.\<close>

definition totalReplicas :: "regionCounts \<Rightarrow> int" where
  "totalReplicas replicas = foldl (\<lambda>total (region, n). to_int32 (total + n)) 0 replicas"

definition sortedRegions :: "regionCounts \<Rightarrow> string list" where
  "sortedRegions replicas = sort (map fst replicas)"

definition setRegions :: "uuid \<Rightarrow> regionCounts \<Rightarrow> (projectError, database, unit) op" where
  "setRegions deploymentID counts =
     op_each (\<lambda>region. st (SetDeploymentRegion deploymentID region (countAt counts region))) (sortedRegions counts)"

definition orEmptyJSON :: "string \<Rightarrow> string" where
  "orEmptyJSON raw = (if raw = '''' then ''{}'' else raw)"

record DeployInput =
  di_Target :: Target
  di_ImageRef :: string
  di_CPUMillicores :: int
  di_MemBytes :: int
  di_Env :: string
  di_Healthcheck :: string
  di_DrainSeconds :: int
  di_RestartMax :: int
  di_ProgressDeadline :: int
  di_Replicas :: regionCounts
  di_CommitMessage :: string
  di_CreatedBy :: string

record DeployResult =
  dres_Version :: int
  dres_Replicas :: regionCounts

definition deployParams :: "uuid \<Rightarrow> int \<Rightarrow> DeployInput \<Rightarrow> CreateDeploymentParams" where
  "deployParams esID version inp = \<lparr>cd_EnvironmentServiceID = esID, cd_Version = version, cd_ImageRef = di_ImageRef inp,
     cd_CpuMillicores = di_CPUMillicores inp, cd_MemBytes = di_MemBytes inp,
     cd_Env = orEmptyJSON (di_Env inp), cd_Healthcheck = orEmptyJSON (di_Healthcheck inp),
     cd_DrainSeconds = di_DrainSeconds inp, cd_RestartMax = di_RestartMax inp, cd_ProgressDeadline = di_ProgressDeadline inp,
     cd_CommitMessage = nullString (di_CommitMessage inp), cd_CreatedBy = nullString (di_CreatedBy inp)\<rparr>"

definition envService :: "Target \<Rightarrow> (projectError, database, GetEnvironmentServiceRow) op" where
  "envService t = st (GetEnvironmentService (tg_Project t) (tg_Environment t) (tg_Service t))"

definition deploy :: "DeployInput \<Rightarrow> (projectError, database, DeployResult) op" where
  "deploy inp =
     op_bind (envService (di_Target inp)) (\<lambda>es.
       if ges_Stateful es \<and> totalReplicas (di_Replicas inp) > maxStatefulReplicas then op_err ErrInvalid
       else
         op_bind (st (NextDeploymentVersion (ges_ID es))) (\<lambda>version.
         op_seq (st (SupersedeCurrentDeployments (ges_ID es)))
           (op_bind (st (CreateDeployment (deployParams (ges_ID es) version inp))) (\<lambda>dep.
            op_seq (setRegions (dep_ID dep) (di_Replicas inp))
              (op_ok \<lparr>dres_Version = version, dres_Replicas = di_Replicas inp\<rparr>)))))"

definition Service_Deploy :: "(nat \<Rightarrow> database \<Rightarrow> database) \<Rightarrow> DeployInput \<Rightarrow> (projectError, database, DeployResult) steps" where
  "Service_Deploy env inp = WithTx env (deploy inp)"

section \<open>Rolling back\<close>

text \<open>\<^verbatim>\<open>strings.TrimPrefix(s, "v")\<close>; the version is an \<^verbatim>\<open>int\<close> converted to int32.\<close>

definition ParseVersion :: "string \<Rightarrow> int option" where
  "ParseVersion s =
     (let s = TrimSpace s
      in if s = '''' then Some 0
         else case Atoi (if hasPrefix s ''v'' then drop 1 s else s) of
                None \<Rightarrow> None
              | Some n \<Rightarrow> if n \<le> 0 then None else Some (to_int32 n))"

record RollbackInput =
  rb_Target :: Target
  rb_ToVersion :: int

record RollbackResult =
  rbr_From :: int
  rbr_To :: int

text \<open>The counts to write: zero for a region of the older version, then the current ones over them.\<close>

definition carriedCounts :: "regionCounts \<Rightarrow> regionCounts \<Rightarrow> regionCounts" where
  "carriedCounts from to =
     foldl (\<lambda>m (region, n). AList.update region n m) (foldl (\<lambda>m (region, n). AList.update region 0 m) [] to) from"

definition carryRegionCounts :: "uuid \<Rightarrow> uuid \<Rightarrow> (projectError, database, unit) op" where
  "carryRegionCounts fromID toID =
     op_bind (st (ListDeploymentRegions fromID)) (\<lambda>from.
     op_bind (st (ListDeploymentRegions toID)) (\<lambda>to.
       setRegions toID (carriedCounts from to)))"

definition rollbackTarget :: "uuid \<Rightarrow> int \<Rightarrow> int \<Rightarrow> (projectError, database, int) op" where
  "rollbackTarget esID currentVersion toVersion =
     (if toVersion = 0 then orInvalid (PreviousDeploymentVersion esID currentVersion) else op_ok toVersion)"

definition rollbackTo :: "uuid \<Rightarrow> uuid \<Rightarrow> int \<Rightarrow> int \<Rightarrow> (projectError, database, RollbackResult) op" where
  "rollbackTo esID currentID currentVersion target =
     (if target = currentVersion then op_err ErrInvalid
      else
        op_bind (orInvalid (GetDeploymentByVersion esID target)) (\<lambda>(depID, depVersion).
        op_seq (carryRegionCounts currentID depID)
          (op_seq (st (MarkCurrentRolledBack esID))
            (op_seq (st (SetDeploymentCurrent depID))
              (op_ok \<lparr>rbr_From = currentVersion, rbr_To = depVersion\<rparr>)))))"

definition rollback :: "RollbackInput \<Rightarrow> (projectError, database, RollbackResult) op" where
  "rollback inp =
     op_bind (envService (rb_Target inp)) (\<lambda>es.
     op_bind (st (GetCurrentDeployment (ges_ID es))) (\<lambda>(currentID, currentVersion).
     op_bind (rollbackTarget (ges_ID es) currentVersion (rb_ToVersion inp)) (\<lambda>target.
       rollbackTo (ges_ID es) currentID currentVersion target)))"

definition Rollback :: "(nat \<Rightarrow> database \<Rightarrow> database) \<Rightarrow> RollbackInput \<Rightarrow> (projectError, database, RollbackResult) steps" where
  "Rollback env inp = WithTx env (rollback inp)"

section \<open>Scaling\<close>

text \<open>The loop of \<open>ParseRegionCounts\<close>; \<open>None\<close> is its error.\<close>

fun parseRegionCounts :: "string list \<Rightarrow> regionCounts \<Rightarrow> regionCounts option" where
  "parseRegionCounts [] replicas = Some replicas"
| "parseRegionCounts (a # args) replicas =
     (let (region, countStr, ok) = Cut a CHR ''=''
      in if \<not> ok \<or> region = '''' then None
         else case Atoi countStr of
                None \<Rightarrow> None
              | Some cnt \<Rightarrow>
                  if cnt < 0 \<or> cnt > MaxReplicas then None
                  else if map_of replicas region \<noteq> None then None
                  else parseRegionCounts args (replicas @ [(region, to_int32 cnt)]))"

definition ParseRegionCounts :: "string list \<Rightarrow> regionCounts option" where
  "ParseRegionCounts args = parseRegionCounts args []"

record ScaleInput =
  si_Target :: Target
  si_Replicas :: regionCounts
  si_CPUMillicores :: int
  si_MemBytes :: int
  si_CreatedBy :: string

definition checkStatefulScale :: "ScaleInput \<Rightarrow> (projectError, database, unit) op" where
  "checkStatefulScale inp =
     op_bind (st (GetService (tg_Project (si_Target inp)) (tg_Service (si_Target inp)))) (\<lambda>svc.
       if \<not> svc_Stateful svc then op_ok ()
       else if totalReplicas (si_Replicas inp) > maxStatefulReplicas then op_err ErrInvalid
       else op_ok ())"

definition currentID :: "Target \<Rightarrow> (projectError, database, uuid) op" where
  "currentID t = st (CurrentDeploymentID (tg_Project t) (tg_Environment t) (tg_Service t))"

definition applyRegionCounts :: "ScaleInput \<Rightarrow> (projectError, database, unit) op" where
  "applyRegionCounts inp = op_bind (currentID (si_Target inp)) (\<lambda>depID. setRegions depID (si_Replicas inp))"

definition orCurrent :: "int \<Rightarrow> int \<Rightarrow> int" where
  "orCurrent v current = (if v = 0 then current else v)"

definition itoa :: "int \<Rightarrow> string" where
  "itoa n = (if n < 0 then CHR ''-'' # decimal (nat (- n)) else decimal (nat n))"

text \<open>The arrow of the message is the rune U+2192; \<^verbatim>\<open>>> 20\<close> on an int64 rounds down.\<close>

definition resizeMessage :: "DeploymentRow \<Rightarrow> int \<Rightarrow> int \<Rightarrow> string" where
  "resizeMessage cur cpu mem =
     ''resize v'' @ itoa (dep_Version cur) @ '': cpu '' @ itoa (dep_CpuMillicores cur) @ ''m'' @ bytes [226, 134, 146]
       @ itoa cpu @ ''m, mem '' @ itoa (dep_MemBytes cur div 2 ^ 20) @ bytes [226, 134, 146] @ itoa (mem div 2 ^ 20) @ '' MiB''"

definition patchedCounts :: "regionCounts \<Rightarrow> regionCounts \<Rightarrow> regionCounts" where
  "patchedCounts regions patch = foldl (\<lambda>m (region, n). AList.update region n m)
     (foldl (\<lambda>m (region, n). AList.update region n m) [] regions) patch"

definition resizeInput :: "ScaleInput \<Rightarrow> DeploymentRow \<Rightarrow> int \<Rightarrow> int \<Rightarrow> regionCounts \<Rightarrow> DeployInput" where
  "resizeInput inp cur cpu mem regions = \<lparr>di_Target = si_Target inp, di_ImageRef = dep_ImageRef cur,
     di_CPUMillicores = cpu, di_MemBytes = mem, di_Env = dep_Env cur, di_Healthcheck = dep_Healthcheck cur,
     di_DrainSeconds = dep_DrainSeconds cur, di_RestartMax = dep_RestartMax cur,
     di_ProgressDeadline = dep_ProgressDeadline cur, di_Replicas = patchedCounts regions (si_Replicas inp),
     di_CommitMessage = resizeMessage cur cpu mem, di_CreatedBy = si_CreatedBy inp\<rparr>"

text \<open>The result is the version a resize created, or zero.\<close>

definition resize :: "ScaleInput \<Rightarrow> (projectError, database, int) op" where
  "resize inp =
     op_bind (envService (si_Target inp)) (\<lambda>es.
     op_bind (st (GetCurrentDeploymentSpec (ges_ID es))) (\<lambda>cur.
       let cpu = orCurrent (si_CPUMillicores inp) (dep_CpuMillicores cur);
           mem = orCurrent (si_MemBytes inp) (dep_MemBytes cur)
       in if cpu = dep_CpuMillicores cur \<and> mem = dep_MemBytes cur
          then op_seq (applyRegionCounts inp) (op_ok 0)
          else op_bind (st (ListDeploymentRegions (dep_ID cur))) (\<lambda>regions.
               op_bind (deploy (resizeInput inp cur cpu mem regions)) (\<lambda>out. op_ok (dres_Version out)))))"

definition scale :: "ScaleInput \<Rightarrow> (projectError, database, int) op" where
  "scale inp =
     op_seq (checkStatefulScale inp)
       (if si_CPUMillicores inp = 0 \<and> si_MemBytes inp = 0
        then op_seq (applyRegionCounts inp) (op_ok 0)
        else resize inp)"

definition Scale :: "(nat \<Rightarrow> database \<Rightarrow> database) \<Rightarrow> ScaleInput \<Rightarrow> (projectError, database, int) steps" where
  "Scale env inp = WithTx env (scale inp)"

definition down :: "Target \<Rightarrow> (projectError, database, unit) op" where
  "down t = op_bind (currentID t) (\<lambda>depID. st (ZeroDeploymentRegions depID))"

section \<open>Volumes\<close>

definition defaultVolumeRegion :: string where "defaultVolumeRegion = ''us-east-1''"
definition defaultVolumeSizeBytes :: int where "defaultVolumeSizeBytes = 2 ^ 30"

text \<open>\<^verbatim>\<open>strings.Trim(mountPath, "/")\<close> and \<^verbatim>\<open>strings.ReplaceAll(trimmed, "/", "-")\<close>\<close>

definition volumeName :: "string \<Rightarrow> string" where
  "volumeName mountPath =
     (let trimmed = TrimRight (dropWhile (\<lambda>c. c = CHR ''/'') mountPath) CHR ''/''
      in if trimmed = '''' then ''root'' else map (\<lambda>c. if c = CHR ''/'' then CHR ''-'' else c) trimmed)"

definition environmentServiceID :: "Target \<Rightarrow> (storeError, database, uuid) op" where
  "environmentServiceID t =
     op_bind (GetEnvironmentService (tg_Project t) (tg_Environment t) (tg_Service t)) (\<lambda>row. op_ok (ges_ID row))"

record AddVolumeInput =
  av_Target :: Target
  av_MountPath :: string
  av_SizeBytes :: int
  av_Region :: string

definition createVolumeAt :: "AddVolumeInput \<Rightarrow> uuid \<Rightarrow> (storeError, database, VolumeRow) op" where
  "createVolumeAt inp i =
     (let sizeBytes = (if av_SizeBytes inp \<le> 0 then defaultVolumeSizeBytes else av_SizeBytes inp);
          region = (if av_Region inp = '''' then defaultVolumeRegion else av_Region inp)
      in CreateVolume i (volumeName (av_MountPath inp)) region (av_MountPath inp) sizeBytes)"

definition addVolume :: "AddVolumeInput \<Rightarrow> (projectError, database, VolumeRow) op" where
  "addVolume inp = op_bind (st (environmentServiceID (av_Target inp))) (\<lambda>i. st (createVolumeAt inp i))"

definition AddVolume :: "(nat \<Rightarrow> database \<Rightarrow> database) \<Rightarrow> AddVolumeInput \<Rightarrow> (projectError, database, VolumeRow) steps" where
  "AddVolume env inp = run_bind (stmt env (environmentServiceID (av_Target inp))) (\<lambda>i. stmt env (createVolumeAt inp i))"

definition launchVolumeRegion :: "DeployInput option \<Rightarrow> string" where
  "launchVolumeRegion dep =
     (case dep of None \<Rightarrow> ''''
      | Some d \<Rightarrow> (case find (\<lambda>(region, n). n > 0) (di_Replicas d) of None \<Rightarrow> '''' | Some (region, n) \<Rightarrow> region))"

definition launch :: "AddServiceInput \<Rightarrow> string option \<Rightarrow> DeployInput option \<Rightarrow> (projectError, database, ServiceRow \<times> DeployResult option) op" where
  "launch inp source dep =
     op_bind (addService inp source) (\<lambda>svc.
     op_seq (case as_Volume inp of
               None \<Rightarrow> op_ok ()
             | Some v \<Rightarrow> op_bind (addVolume \<lparr>av_Target = as_Target inp, av_MountPath = vsp_MountPath v,
                 av_SizeBytes = vsp_SizeBytes v, av_Region = launchVolumeRegion dep\<rparr>) (\<lambda>_. op_ok ()))
       (case dep of
          None \<Rightarrow> op_ok (svc, None)
        | Some spec \<Rightarrow> op_bind (deploy (spec\<lparr>di_Target := as_Target inp\<rparr>)) (\<lambda>out. op_ok (svc, Some out))))"

definition LaunchService ::
  "(nat \<Rightarrow> database \<Rightarrow> database) \<Rightarrow> AddServiceInput \<Rightarrow> string option \<Rightarrow> DeployInput option \<Rightarrow>
   (projectError, database, ServiceRow \<times> DeployResult option) steps" where
  "LaunchService env inp source dep =
     (if as_Volume inp \<noteq> None \<and> \<not> as_Stateful inp then run_err ErrInvalid else WithTx env (launch inp source dep))"

definition ListVolumes :: "(nat \<Rightarrow> database \<Rightarrow> database) \<Rightarrow> Target \<Rightarrow> (projectError, database, VolumeRow list) steps" where
  "ListVolumes env t = run_bind (stmt env (environmentServiceID t)) (\<lambda>_.
     stmt env (ListVolumesByEnvironmentService (tg_Project t) (tg_Environment t) (tg_Service t)))"

record ResizeOutcome =
  rz_Volume :: VolumeRow
  rz_WaitingForSpace :: bool
  rz_ShortfallBytes :: int

text \<open>The host's view: what its volumes commit plus the grow, against the budget under the default knobs.\<close>

definition resizeAdvice :: "VolumeRow \<Rightarrow> HostRow \<Rightarrow> VolumeRow list \<Rightarrow> ResizeOutcome" where
  "resizeAdvice vol host onHost =
     (let committed = foldl (\<lambda>c v. to_int64 (c + Committed (SizingOf v))) 0 onHost;
          need = to_int64 (committed + GrowDelta (SizingOf vol));
          budget = DiskBudget DefaultPlacement (hr_DiskBytes host)
      in if need > budget
         then \<lparr>rz_Volume = vol, rz_WaitingForSpace = True, rz_ShortfallBytes = need - budget\<rparr>
         else \<lparr>rz_Volume = vol, rz_WaitingForSpace = False, rz_ShortfallBytes = 0\<rparr>)"

definition mayGrow :: "VolumeSizing \<Rightarrow> int \<Rightarrow> bool" where
  "mayGrow sz sizeBytes =
     (if vs_Status sz \<noteq> VolumePending \<and> vs_Status sz \<noteq> VolumeAttached then False
      else if Drifting sz then False
      else if sizeBytes = vs_Desired sz then False
      else \<not> sizeBytes < vs_Desired sz)"

text \<open>
  The statements of a request run under its context: once the context is done - the client gone, the
  deadline passed - a statement fails without touching the database. \<open>ctx k\<close> says that it is done before the
  k-th transaction.
\<close>

definition stmtIn :: "(nat \<Rightarrow> bool) \<Rightarrow> (nat \<Rightarrow> database \<Rightarrow> database) \<Rightarrow> (storeError, database, 'a) op \<Rightarrow> (projectError, database, 'a) steps" where
  "stmtIn ctx env m ks =
     (if ctx (fst ks) then (Inl (ErrStore ErrDriver), (Suc (fst ks), env (fst ks) (snd ks))) else stmt env m ks)"

definition ResizeVolumeIn ::
  "(nat \<Rightarrow> bool) \<Rightarrow> (nat \<Rightarrow> database \<Rightarrow> database) \<Rightarrow> Target \<Rightarrow> string \<Rightarrow> int \<Rightarrow> (projectError, database, ResizeOutcome) steps" where
  "ResizeVolumeIn ctx env t mountPath sizeBytes =
     run_bind (stmtIn ctx env (environmentServiceID t)) (\<lambda>i.
     run_bind (stmtIn ctx env (GetVolume i mountPath)) (\<lambda>cur.
       if \<not> mayGrow (SizingOf cur) sizeBytes then run_err ErrInvalid
       else run_bind (stmtIn ctx env (UpdateVolumeSize i mountPath sizeBytes)) (\<lambda>vol.
         case vr_HostID vol of
           None \<Rightarrow> run_ok \<lparr>rz_Volume = vol, rz_WaitingForSpace = False, rz_ShortfallBytes = 0\<rparr>
         | Some h \<Rightarrow>
             run_bind (stmtIn ctx env (GetHost h)) (\<lambda>host.
             run_bind (stmtIn ctx env (ListVolumesByHost (hr_ID host))) (\<lambda>onHost.
               run_ok (resizeAdvice vol host onHost))))))"

text \<open>The same under a context that lasts, as the command line has it.\<close>

definition ResizeVolume :: "(nat \<Rightarrow> database \<Rightarrow> database) \<Rightarrow> Target \<Rightarrow> string \<Rightarrow> int \<Rightarrow> (projectError, database, ResizeOutcome) steps" where
  "ResizeVolume = ResizeVolumeIn (\<lambda>_. False)"

lemma stmtIn_lasting [simp]: "stmtIn (\<lambda>_. False) env m = stmt env m"
  by (simp add: fun_eq_iff stmtIn_def)

lemmas ResizeVolume_steps = ResizeVolumeIn_def [of "\<lambda>_. False", unfolded stmtIn_lasting, folded ResizeVolume_def]

definition RevertVolume :: "(nat \<Rightarrow> database \<Rightarrow> database) \<Rightarrow> Target \<Rightarrow> string \<Rightarrow> (projectError, database, VolumeRow) steps" where
  "RevertVolume env t mountPath =
     run_bind (stmt env (environmentServiceID t)) (\<lambda>i.
     run_bind (stmt env (GetVolume i mountPath)) (\<lambda>cur.
       if vs_Status (SizingOf cur) \<noteq> VolumeResizePending then run_err ErrInvalid
       else (\<lambda>ks. case stmt env (RevertVolumeSize i mountPath) ks of
               (Inl e, ks') \<Rightarrow> (Inl (if e = ErrStore ErrNotFound then ErrInvalid else e), ks')
             | (Inr vol, ks') \<Rightarrow> (Inr vol, ks'))))"

definition RemoveVolume :: "(nat \<Rightarrow> database \<Rightarrow> database) \<Rightarrow> Target \<Rightarrow> string \<Rightarrow> (projectError, database, VolumeRow) steps" where
  "RemoveVolume env t mountPath =
     run_bind (stmt env (environmentServiceID t)) (\<lambda>i. stmt env (DeleteVolume i mountPath))"

end
