(* ===== verification/OperatorViews.thy ===== *)
theory OperatorViews
  imports ControlPlaneQueries Project
begin

text \<open>
  The operator's reads: \<^verbatim>\<open>internal/api/topology.go\<close>, \<^verbatim>\<open>hosts.go\<close>, \<^verbatim>\<open>replicas.go\<close> and
  \<^verbatim>\<open>placement.go\<close>. The handlers read the store one statement after the other, so other writers may
  come between the slices of one answer; what they make of the slices is a pure function. The tree is
  assembled through Go maps keyed by service, environment and project, each filled by appending or
  assigning in the order of the rows. A nil slice and an empty one are the same list here, as \<^verbatim>\<open>orEmpty\<close>
  makes them the same JSON; a nullable column is an option on both sides.
\<close>

section \<open>Maps of slices\<close>

text \<open>\<^verbatim>\<open>m[key(x)] = append(m[key(x)], f(x))\<close> for every \<open>x\<close>, on a map that starts empty.\<close>

definition appendAll :: "('a \<Rightarrow> 'k) \<Rightarrow> ('a \<Rightarrow> 'b) \<Rightarrow> 'a list \<Rightarrow> 'k \<Rightarrow> 'b list" where
  "appendAll key f xs = foldl (\<lambda>m x. m(key x := m (key x) @ [f x])) (\<lambda>_. []) xs"

lemma appendAll_filter: "appendAll key f xs k = map f (filter (\<lambda>x. key x = k) xs)"
proof -
  have "foldl (\<lambda>m x. m(key x := m (key x) @ [f x])) m0 xs k = m0 k @ map f (filter (\<lambda>x. key x = k) xs)" for m0
    by (induction xs arbitrary: m0) auto
  then show ?thesis by (simp add: appendAll_def)
qed

section \<open>Why a replica is not placed\<close>

record blockerScan =
  bs_inRegion :: nat
  bs_open :: nat
  bs_best :: string
  bs_bestCPU :: int
  bs_bestMem :: int

definition reserveOf :: "float64 \<Rightarrow> int \<Rightarrow> int" where
  "reserveOf headroom n = int_of_float (float_mul headroom (float_of_int n))"

definition freeCPU :: "float64 \<Rightarrow> (uuid \<rightharpoonup> HostUsage) \<Rightarrow> HostRow \<Rightarrow> int" where
  "freeCPU headroom usage h = hr_CpuMillicores h - hu_CPUMillicores (usageAt usage (hr_ID h)) - reserveOf headroom (hr_CpuMillicores h)"

definition freeMem :: "float64 \<Rightarrow> (uuid \<rightharpoonup> HostUsage) \<Rightarrow> HostRow \<Rightarrow> int" where
  "freeMem headroom usage h = hr_MemBytes h - hu_MemBytes (usageAt usage (hr_ID h)) - reserveOf headroom (hr_MemBytes h)"

definition blockerText :: "TopologyReplicasRow \<Rightarrow> blockerScan \<Rightarrow> string" where
  "blockerText r sc =
     (if bs_inRegion sc = 0 then ''no hosts in '' @ tr_Region r
      else if bs_open sc = 0 then ''no healthy open host in '' @ tr_Region r @ '' (all cordoned, draining or down)''
      else ''no host in '' @ tr_Region r @ '' has room for '' @ itoa (tr_CpuMillicores r) @ ''m CPU / ''
        @ itoa (tr_MemBytes r div 2 ^ 20) @ '' MiB; most free: '' @ bs_best sc @ '' with '' @ itoa (max (bs_bestCPU sc) 0)
        @ ''m / '' @ itoa (max (bs_bestMem sc) 0 div 2 ^ 20) @ '' MiB'')"

text \<open>The loop over the hosts; it returns the empty text at the first host that fits.\<close>

fun scanHosts :: "float64 \<Rightarrow> (uuid \<rightharpoonup> HostUsage) \<Rightarrow> TopologyReplicasRow \<Rightarrow> HostRow list \<Rightarrow> blockerScan \<Rightarrow> string" where
  "scanHosts headroom usage r [] sc = blockerText r sc"
| "scanHosts headroom usage r (h # hs) sc =
     (if hr_Region h \<noteq> tr_Region r then scanHosts headroom usage r hs sc
      else let sc1 = sc\<lparr>bs_inRegion := bs_inRegion sc + 1\<rparr>
      in if \<not> hr_HostHealthy h \<or> hr_Status h \<noteq> HostOpen then scanHosts headroom usage r hs sc1
      else let sc2 = sc1\<lparr>bs_open := bs_open sc1 + 1\<rparr>; cpu = freeCPU headroom usage h; mem = freeMem headroom usage h
      in if tr_CpuMillicores r \<le> cpu \<and> tr_MemBytes r \<le> mem then ''''
         else scanHosts headroom usage r hs
           (if bs_best sc2 = '''' \<or> cpu > bs_bestCPU sc2
            then sc2\<lparr>bs_best := hr_Hostname h, bs_bestCPU := cpu, bs_bestMem := mem\<rparr> else sc2))"

definition placementBlocker :: "TopologyReplicasRow \<Rightarrow> HostRow list \<Rightarrow> (uuid \<rightharpoonup> HostUsage) \<Rightarrow> float64 \<Rightarrow> string" where
  "placementBlocker r hosts usage headroom =
     scanHosts (if tr_Phase r = ReplicaPhaseReplacing then 0 else headroom) usage r hosts
       \<lparr>bs_inRegion = 0, bs_open = 0, bs_best = '''', bs_bestCPU = 0, bs_bestMem = 0\<rparr>"

text \<open>A row the loop looks at: not placed, free to go anywhere in its region, and wanted.\<close>

definition unplaced :: "TopologyReplicasRow \<Rightarrow> bool" where
  "unplaced r \<longleftrightarrow> tr_HostID r = None \<and> tr_VolumeID r = None \<and> tr_DesiredStatus r = ReplicaDesiredRunning"

definition placementBlockers :: "TopologyReplicasRow list \<Rightarrow> HostRow list \<Rightarrow> (uuid \<rightharpoonup> HostUsage) \<Rightarrow> uuid \<rightharpoonup> string" where
  "placementBlockers reps hosts usage =
     foldl (\<lambda>out r. if \<not> unplaced r then out
       else let reason = placementBlocker r hosts usage (pl_Headroom DefaultPlacement)
            in if reason \<noteq> '''' then out(tr_ID r \<mapsto> reason) else out) Map.empty reps"

text \<open>The map read with its zero value, and the empty text sent as null.\<close>

definition optionalStr :: "string \<Rightarrow> string option" where
  "optionalStr s = (if s = '''' then None else Some s)"

definition blockerAt :: "(uuid \<rightharpoonup> string) \<Rightarrow> uuid \<Rightarrow> string option" where
  "blockerAt blockers i = optionalStr (case blockers i of None \<Rightarrow> '''' | Some s \<Rightarrow> s)"

section \<open>Hosts and replicas\<close>

record hostJSON =
  hj_ID :: uuid
  hj_Hostname :: string
  hj_Region :: string
  hj_Healthy :: bool
  hj_Status :: HostStatus
  hj_DrainStartedAt :: "time option"
  hj_ReplicasOnHost :: nat
  hj_LastHeartbeat :: "time option"
  hj_CPUMillicores :: int
  hj_MemBytes :: int
  hj_DiskBytes :: int
  hj_DiskBudgetBytes :: int
  hj_Used :: HostUsage

definition hostsJSON :: "HostRow list \<Rightarrow> (uuid \<rightharpoonup> nat) \<Rightarrow> (uuid \<rightharpoonup> HostUsage) \<Rightarrow> hostJSON list" where
  "hostsJSON hosts replicas usage = map (\<lambda>h.
     \<lparr>hj_ID = hr_ID h, hj_Hostname = hr_Hostname h, hj_Region = hr_Region h, hj_Healthy = hr_HostHealthy h,
      hj_Status = hr_Status h, hj_DrainStartedAt = hr_DrainStartedAt h,
      hj_ReplicasOnHost = (case replicas (hr_ID h) of None \<Rightarrow> 0 | Some n \<Rightarrow> n), hj_LastHeartbeat = hr_LastHeartbeat h,
      hj_CPUMillicores = hr_CpuMillicores h, hj_MemBytes = hr_MemBytes h, hj_DiskBytes = hr_DiskBytes h,
      hj_DiskBudgetBytes = DiskBudget DefaultPlacement (hr_DiskBytes h), hj_Used = usageAt usage (hr_ID h)\<rparr>) hosts"

definition listHosts :: "(nat \<Rightarrow> database \<Rightarrow> database) \<Rightarrow> (storeError, database, hostJSON list) steps" where
  "listHosts env =
     run_bind (WithTx env ListAgentHosts) (\<lambda>hosts.
     run_bind (WithTx env ListHostReplicaCounts) (\<lambda>counts.
     run_bind (WithTx env ListHostUsage) (\<lambda>usage. run_ok (hostsJSON hosts counts usage))))"

record replicaJSON =
  rj_ID :: uuid
  rj_DeploymentID :: uuid
  rj_Region :: string
  rj_HostID :: "uuid option"
  rj_VolumeID :: "uuid option"
  rj_DesiredStatus :: ReplicaDesiredStatus
  rj_Phase :: ReplicaPhase
  rj_Healthy :: bool
  rj_RestartCount :: int
  rj_LastExitReason :: string
  rj_Revision :: int
  rj_DrainedAt :: "time option"

definition replicasJSON :: "ReplicaRow list \<Rightarrow> replicaJSON list" where
  "replicasJSON replicas = map (\<lambda>rep.
     \<lparr>rj_ID = rr_ID rep, rj_DeploymentID = rr_DeploymentID rep, rj_Region = rr_Region rep, rj_HostID = rr_HostID rep,
      rj_VolumeID = rr_VolumeID rep, rj_DesiredStatus = rr_DesiredStatus rep, rj_Phase = rr_Phase rep,
      rj_Healthy = rr_Healthy rep, rj_RestartCount = rr_RestartCount rep,
      rj_LastExitReason = (case rr_LastExitReason rep of None \<Rightarrow> '''' | Some s \<Rightarrow> s),
      rj_Revision = rr_Revision rep, rj_DrainedAt = rr_DrainedAt rep\<rparr>) replicas"

definition listReplicas :: "(nat \<Rightarrow> database \<Rightarrow> database) \<Rightarrow> (storeError, database, replicaJSON list) steps" where
  "listReplicas env = run_bind (WithTx env ListReplicas) (\<lambda>rs. run_ok (replicasJSON rs))"

section \<open>The flat lists\<close>

record metaJSON =
  mj_Projects :: "string list"
  mj_Environments :: "(uuid \<times> string \<times> string) list"
  mj_Regions :: "string list"

definition readMeta :: "(nat \<Rightarrow> database \<Rightarrow> database) \<Rightarrow> (storeError, database, metaJSON) steps" where
  "readMeta env =
     run_bind (WithTx env (ListProjectNames '''')) (\<lambda>projects.
     run_bind (WithTx env (ListEnvironmentRows '''' '''')) (\<lambda>environments.
     run_bind (WithTx env ListRegionNames) (\<lambda>regions.
     run_ok \<lparr>mj_Projects = projects, mj_Environments = environments, mj_Regions = regions\<rparr>)))"

section \<open>The tree\<close>

record deploymentJSON =
  dj_ID :: uuid
  dj_Version :: int
  dj_Status :: DeploymentStatus
  dj_ImageRef :: string
  dj_CPUMillicores :: int
  dj_MemBytes :: int
  dj_CreatedAt :: time
  dj_CreatedBy :: "string option"
  dj_CommitMessage :: "string option"

record regionSummaryJSON =
  rg_Region :: string
  rg_Desired :: int
  rg_Observed :: nat
  rg_Healthy :: nat

record topologyReplicaJSON =
  tj_ID :: uuid
  tj_Region :: string
  tj_Hostname :: "string option"
  tj_HostID :: "uuid option"
  tj_Phase :: ReplicaPhase
  tj_Healthy :: bool
  tj_DesiredStatus :: ReplicaDesiredStatus
  tj_RestartCount :: int
  tj_LastExitReason :: "string option"
  tj_UpdatedAt :: time
  tj_DeploymentVersion :: int
  tj_IsCurrent :: bool
  tj_EnvironmentServiceID :: uuid
  tj_DeploymentID :: uuid
  tj_PlacementBlocker :: "string option"

record topologyVolumeJSON =
  vj_ID :: uuid
  vj_MountPath :: string
  vj_Region :: string
  vj_HostID :: "uuid option"
  vj_Hostname :: "string option"
  vj_Status :: VolumeStatus
  vj_DesiredSizeBytes :: int
  vj_ObservedSizeBytes :: "int option"
  vj_PreviousDesiredSizeBytes :: "int option"

record servedJSON =
  sj_EnvironmentServiceID :: uuid
  sj_Region :: string
  sj_DeploymentID :: uuid
  sj_DeploymentVersion :: int
  sj_Service :: string
  sj_Environment :: string
  sj_UpdatedAt :: time

record serviceNode =
  nd_EnvironmentServiceID :: uuid
  nd_EnvironmentID :: uuid
  nd_Service :: string
  nd_Stateful :: bool
  nd_Deployment :: "deploymentJSON option"
  nd_Regions :: "regionSummaryJSON list"
  nd_Replicas :: "topologyReplicaJSON list"
  nd_Volumes :: "topologyVolumeJSON list"

record environmentNode =
  en_ID :: uuid
  en_Name :: string
  en_Services :: "serviceNode list"

record projectNode =
  pn_Project :: string
  pn_Environments :: "environmentNode list"

record topologyJSON =
  tp_Tree :: "projectNode list"
  tp_Hosts :: "hostJSON list"
  tp_Served :: "servedJSON list"

definition topologyReplica :: "(uuid \<rightharpoonup> string) \<Rightarrow> TopologyReplicasRow \<Rightarrow> topologyReplicaJSON" where
  "topologyReplica blockers rep = \<lparr>tj_ID = tr_ID rep, tj_Region = tr_Region rep, tj_Hostname = tr_Hostname rep,
     tj_HostID = tr_HostID rep, tj_Phase = tr_Phase rep, tj_Healthy = tr_Healthy rep, tj_DesiredStatus = tr_DesiredStatus rep,
     tj_RestartCount = tr_RestartCount rep, tj_LastExitReason = tr_LastExitReason rep, tj_UpdatedAt = tr_UpdatedAt rep,
     tj_DeploymentVersion = tr_DepVersion rep, tj_IsCurrent = tr_IsCurrent rep, tj_EnvironmentServiceID = tr_EsID rep,
     tj_DeploymentID = tr_DeploymentID rep, tj_PlacementBlocker = blockerAt blockers (tr_ID rep)\<rparr>"

definition topologyVolume :: "TopologyVolumesRow \<Rightarrow> topologyVolumeJSON" where
  "topologyVolume vol = \<lparr>vj_ID = tv_ID vol, vj_MountPath = tv_MountPath vol, vj_Region = tv_Region vol,
     vj_HostID = tv_HostID vol, vj_Hostname = tv_Hostname vol, vj_Status = tv_Status vol,
     vj_DesiredSizeBytes = tv_DesiredSizeBytes vol, vj_ObservedSizeBytes = tv_ObservedSizeBytes vol,
     vj_PreviousDesiredSizeBytes = tv_PreviousDesiredSizeBytes vol\<rparr>"

definition currentDeployment :: "TopologyServicesRow \<Rightarrow> deploymentJSON option" where
  "currentDeployment svc = map_option (\<lambda>d. \<lparr>dj_ID = dep_ID d, dj_Version = dep_Version d, dj_Status = dep_Status d,
     dj_ImageRef = dep_ImageRef d, dj_CPUMillicores = dep_CpuMillicores d, dj_MemBytes = dep_MemBytes d,
     dj_CreatedAt = dep_CreatedAt d, dj_CreatedBy = dep_CreatedBy d, dj_CommitMessage = dep_CommitMessage d\<rparr>) (ts_Deployment svc)"

text \<open>
  The summaries by region: the Go map is an association list with one entry per region. It is sorted by
  region at the end, so the order in which the runtime ranges over it does not show.
\<close>

definition emptySummary :: "string \<Rightarrow> int \<Rightarrow> regionSummaryJSON" where
  "emptySummary region n = \<lparr>rg_Region = region, rg_Desired = n, rg_Observed = 0, rg_Healthy = 0\<rparr>"

definition countReplica :: "topologyReplicaJSON \<Rightarrow> regionSummaryJSON \<Rightarrow> regionSummaryJSON" where
  "countReplica rep s =
     (let s1 = (if tj_DesiredStatus rep = ReplicaDesiredRunning then s\<lparr>rg_Observed := rg_Observed s + 1\<rparr> else s)
      in if tj_Healthy rep then s1\<lparr>rg_Healthy := rg_Healthy s1 + 1\<rparr> else s1)"

definition summarize :: "topologyReplicaJSON \<Rightarrow> (string \<times> regionSummaryJSON) list \<Rightarrow> (string \<times> regionSummaryJSON) list" where
  "summarize rep byRegion =
     (if \<not> tj_IsCurrent rep then byRegion
      else AList.update (tj_Region rep) (countReplica rep (case map_of byRegion (tj_Region rep) of
             None \<Rightarrow> emptySummary (tj_Region rep) 0 | Some s \<Rightarrow> s)) byRegion)"

definition regionSummaries :: "regionCounts \<Rightarrow> topologyReplicaJSON list \<Rightarrow> regionSummaryJSON list" where
  "regionSummaries desired reps =
     sort_key rg_Region (map snd (foldl (\<lambda>m rep. summarize rep m) (map (\<lambda>(r, n). (r, emptySummary r n)) desired) reps))"

text \<open>\<^verbatim>\<open>desiredByService[row.EsID][row.Region] = row.Desired\<close>\<close>

definition desiredOfService :: "TopologyDesiredRegionsRow list \<Rightarrow> uuid \<Rightarrow> regionCounts" where
  "desiredOfService desired esID =
     foldl (\<lambda>m row. if td_EsID row = esID then AList.update (td_Region row) (td_Desired row) m else m) [] desired"

definition buildServiceNodes ::
  "TopologyServicesRow list \<Rightarrow> TopologyDesiredRegionsRow list \<Rightarrow> TopologyReplicasRow list \<Rightarrow> TopologyVolumesRow list \<Rightarrow>
   (uuid \<rightharpoonup> string) \<Rightarrow> serviceNode list" where
  "buildServiceNodes services desired replicas volumes blockers =
     (let replicasByService = appendAll tr_EsID (topologyReplica blockers) replicas;
          volumesByService = appendAll tv_EsID topologyVolume volumes
      in map (\<lambda>svc. \<lparr>nd_EnvironmentServiceID = ts_EsID svc, nd_EnvironmentID = ts_EnvironmentID svc,
           nd_Service = ts_Service svc, nd_Stateful = ts_Stateful svc, nd_Deployment = currentDeployment svc,
           nd_Regions = regionSummaries (desiredOfService desired (ts_EsID svc)) (replicasByService (ts_EsID svc)),
           nd_Replicas = replicasByService (ts_EsID svc), nd_Volumes = volumesByService (ts_EsID svc)\<rparr>) services)"

definition buildTree :: "string list \<Rightarrow> (uuid \<times> string \<times> string) list \<Rightarrow> serviceNode list \<Rightarrow> projectNode list" where
  "buildTree projects environments nodes =
     (let servicesByEnv = appendAll nd_EnvironmentID (\<lambda>node. node) nodes;
          envsByProject = appendAll (\<lambda>(i, project, name). project)
            (\<lambda>(i, project, name). \<lparr>en_ID = i, en_Name = name, en_Services = servicesByEnv i\<rparr>) environments
      in map (\<lambda>name. \<lparr>pn_Project = name, pn_Environments = envsByProject name\<rparr>) projects)"

definition servedRowsJSON :: "TopologyServedRow list \<Rightarrow> servedJSON list" where
  "servedRowsJSON rows = map (\<lambda>row. \<lparr>sj_EnvironmentServiceID = tsv_EnvironmentServiceID row, sj_Region = tsv_Region row,
     sj_DeploymentID = tsv_DeploymentID row, sj_DeploymentVersion = tsv_DepVersion row, sj_Service = tsv_Service row,
     sj_Environment = tsv_Environment row, sj_UpdatedAt = tsv_UpdatedAt row\<rparr>) rows"

definition readTopology :: "(nat \<Rightarrow> database \<Rightarrow> database) \<Rightarrow> TopologyFilter \<Rightarrow> (storeError, database, topologyJSON) steps" where
  "readTopology env f =
     run_bind (WithTx env (ListProjectNames (tf_Project f))) (\<lambda>projects.
     run_bind (WithTx env (ListEnvironmentRows (tf_Project f) (tf_Environment f))) (\<lambda>environments.
     run_bind (WithTx env (TopologyServices f)) (\<lambda>services.
     run_bind (WithTx env (TopologyDesiredRegions f)) (\<lambda>desired.
     run_bind (WithTx env (TopologyReplicas f)) (\<lambda>replicas.
     run_bind (WithTx env (TopologyVolumes f)) (\<lambda>volumes.
     run_bind (WithTx env (TopologyHosts (tf_Region f))) (\<lambda>hosts.
     run_bind (WithTx env ListHostReplicaCounts) (\<lambda>hostReplicas.
     run_bind (WithTx env ListHostUsage) (\<lambda>usage.
     run_bind (WithTx env (TopologyServed f)) (\<lambda>served.
     run_ok \<lparr>tp_Tree = buildTree projects environments
                 (buildServiceNodes services desired replicas volumes (placementBlockers replicas hosts usage)),
              tp_Hosts = hostsJSON hosts hostReplicas usage,
              tp_Served = servedRowsJSON served\<rparr>))))))))))"

end
