(* ===== verification/OperatorApi.thy ===== *)
theory OperatorApi
  imports OperatorViews SensorQueries
begin

text \<open>
  The operator's HTTP interface: \<^verbatim>\<open>internal/api/desiredstate.go\<close>, \<^verbatim>\<open>operatorapi.go\<close>, and the
  handlers of \<^verbatim>\<open>hosts.go\<close>, \<^verbatim>\<open>replicas.go\<close> and \<^verbatim>\<open>topology.go\<close>. A handler is a sequence of transactions
  that ends in a reply: a status and what is encoded as the body. The decoded body of a request is an
  option, \<open>None\<close> where the JSON decoder refuses it; a path segment or an ID field is likewise what
  \<^verbatim>\<open>uuid.Parse\<close> makes of it. The text of an error is not modelled, its cause is; log lines are left out.
\<close>

section \<open>Replies\<close>

datatype 'j reply = Reply nat 'j | ErrorReply nat

fun status_of :: "'j reply \<Rightarrow> nat" where
  "status_of (Reply code v) = code"
| "status_of (ErrorReply code) = code"

abbreviation StatusOK :: nat where "StatusOK \<equiv> 200"
abbreviation StatusCreated :: nat where "StatusCreated \<equiv> 201"
abbreviation StatusBadRequest :: nat where "StatusBadRequest \<equiv> 400"
abbreviation StatusNotFound :: nat where "StatusNotFound \<equiv> 404"
abbreviation StatusConflict :: nat where "StatusConflict \<equiv> 409"
abbreviation StatusInternalServerError :: nat where "StatusInternalServerError \<equiv> 500"

definition maxRequestBytes :: nat where "maxRequestBytes = 2 ^ 20"

fun writeDomainError :: "projectError \<Rightarrow> 'j reply" where
  "writeDomainError (ErrStore ErrNotFound) = ErrorReply StatusNotFound"
| "writeDomainError (ErrStore ErrExists) = ErrorReply StatusConflict"
| "writeDomainError ErrInvalid = ErrorReply StatusBadRequest"
| "writeDomainError (ErrStore e) = ErrorReply StatusInternalServerError"

fun writeStateError :: "projectError \<Rightarrow> 'j reply" where
  "writeStateError (ErrStore ErrNotFound) = ErrorReply StatusNotFound"
| "writeStateError ErrInvalid = ErrorReply StatusConflict"
| "writeStateError (ErrStore ErrExists) = ErrorReply StatusConflict"
| "writeStateError (ErrStore e) = ErrorReply StatusInternalServerError"

text \<open>A handler: the command, then one of the error mappings or the reply to its result.\<close>

type_synonym 'j handler = "nat \<times> database \<Rightarrow> 'j reply \<times> (nat \<times> database)"

definition refuse :: "nat \<Rightarrow> 'j handler" where
  "refuse code ks = (ErrorReply code, ks)"

definition respond :: "('e, database, 'a) steps \<Rightarrow> ('e \<Rightarrow> 'j reply) \<Rightarrow> ('a \<Rightarrow> 'j reply) \<Rightarrow> 'j handler" where
  "respond cmd onErr onOk ks = (case cmd ks of (Inl e, ks') \<Rightarrow> (onErr e, ks') | (Inr x, ks') \<Rightarrow> (onOk x, ks'))"

definition writeInternalError :: "storeError \<Rightarrow> 'j reply" where
  "writeInternalError e = ErrorReply StatusInternalServerError"

text \<open>\<^verbatim>\<open>decodeJSON\<close>, then \<^verbatim>\<open>validate\<close>: both refuse with 400.\<close>

definition checked :: "'r option \<Rightarrow> ('r \<Rightarrow> 'x option) \<Rightarrow> ('r \<Rightarrow> 'j handler) \<Rightarrow> 'j handler" where
  "checked req validate run =
     (case req of None \<Rightarrow> refuse StatusBadRequest
      | Some r \<Rightarrow> (case validate r of Some e \<Rightarrow> refuse StatusBadRequest | None \<Rightarrow> run r))"

section \<open>Requests\<close>

text \<open>Why a request is refused.\<close>

datatype requestError =
    NameRequired | TargetRequired | ImageRefRequired | SizingNotPositive | KnobNegative | NoRegions | EmptyRegion
  | CountOutOfRange string | VolumeNeedsEnvironment | VolumeNeedsStateful | MountPathNotAbsolute | SizeNegative
  | DeployNeedsEnvironment | DeployNeedsImage | LimitNegative | MountPathRequired | SizeNotPositive | VersionNegative

record createProjectRequest =
  cp_Name :: string
  cp_Environment :: string

record createEnvironmentRequest =
  cen_Project :: string
  cen_Name :: string
  cen_SourceEnvironment :: string

record deploySpec =
  dsp_CPUMillicores :: int
  dsp_MemBytes :: int
  dsp_DrainSeconds :: int
  dsp_RestartMax :: int
  dsp_ProgressDeadline :: int
  dsp_CommitMessage :: string
  dsp_CreatedBy :: string
  dsp_Replicas :: regionCounts

record Source =
  so_Repo :: string
  so_Image :: string

record createServiceRequest =
  csr_Project :: string
  csr_Name :: string
  csr_Stateful :: bool
  csr_Environment :: string
  csr_Source :: Source
  csr_Deploy :: "deploySpec option"
  csr_Volume :: "VolumeSpec option"

record bindServiceRequest =
  bs_EnvironmentID :: "uuid option"
  bs_ServiceID :: "uuid option"
  bs_Source :: Source

record deployRequest =
  dq_Target :: Target
  dq_ImageRef :: string
  dq_Spec :: deploySpec

record scaleRequest =
  sq_Target :: Target
  sq_Replicas :: regionCounts
  sq_CPUMillicores :: int
  sq_MemBytes :: int
  sq_CreatedBy :: string

record volumeResizeRequest =
  vq_Target :: Target
  vq_MountPath :: string
  vq_SizeBytes :: int

record volumeRevertRequest =
  vv_Target :: Target
  vv_MountPath :: string

record rollbackRequest =
  rq_Target :: Target
  rq_ToVersion :: int

record volumeAddRequest =
  va_Target :: Target
  va_Volume :: VolumeSpec
  va_Region :: string

section \<open>Validation\<close>

definition validateTarget :: "Target \<Rightarrow> requestError option" where
  "validateTarget t = (if tg_Project t = '''' \<or> tg_Environment t = '''' \<or> tg_Service t = '''' then Some TargetRequired else None)"

text \<open>The loop ranges over a map: which bad entry is named depends on the order, that one is does not.\<close>

fun validateCounts :: "regionCounts \<Rightarrow> requestError option" where
  "validateCounts [] = None"
| "validateCounts ((region, n) # rest) =
     (if region = '''' then Some EmptyRegion
      else if n < 0 \<or> n > MaxReplicas then Some (CountOutOfRange region)
      else validateCounts rest)"

definition validateReplicas :: "regionCounts \<Rightarrow> requestError option" where
  "validateReplicas replicas = (if replicas = [] then Some NoRegions else validateCounts replicas)"

definition validateSpec :: "deploySpec \<Rightarrow> requestError option" where
  "validateSpec d =
     (if dsp_CPUMillicores d \<le> 0 \<or> dsp_MemBytes d \<le> 0 then Some SizingNotPositive
      else if dsp_DrainSeconds d < 0 \<or> dsp_RestartMax d < 0 \<or> dsp_ProgressDeadline d < 0 then Some KnobNegative
      else validateReplicas (dsp_Replicas d))"

definition orElse :: "'x option \<Rightarrow> 'x option \<Rightarrow> 'x option" where
  "orElse a b = (case a of Some e \<Rightarrow> Some e | None \<Rightarrow> b)"

definition validateDeploy :: "deployRequest \<Rightarrow> requestError option" where
  "validateDeploy r = orElse (validateTarget (dq_Target r))
     (if dq_ImageRef r = '''' then Some ImageRefRequired else validateSpec (dq_Spec r))"

definition validateVolumeSpec :: "VolumeSpec \<Rightarrow> requestError option" where
  "validateVolumeSpec v = (if \<not> hasPrefix (vsp_MountPath v) ''/'' then Some MountPathNotAbsolute
     else if vsp_SizeBytes v < 0 then Some SizeNegative else None)"

definition validateCreateService :: "createServiceRequest \<Rightarrow> requestError option" where
  "validateCreateService r =
     (if csr_Project r = '''' \<or> csr_Name r = '''' then Some NameRequired
      else orElse (case csr_Volume r of None \<Rightarrow> None
             | Some v \<Rightarrow> if csr_Environment r = '''' then Some VolumeNeedsEnvironment
                         else if \<not> csr_Stateful r then Some VolumeNeedsStateful else validateVolumeSpec v)
           (case csr_Deploy r of None \<Rightarrow> None
            | Some d \<Rightarrow> if csr_Environment r = '''' then Some DeployNeedsEnvironment
                        else if so_Image (csr_Source r) = '''' then Some DeployNeedsImage else validateSpec d))"

definition validateScale :: "scaleRequest \<Rightarrow> requestError option" where
  "validateScale r = orElse (validateTarget (sq_Target r))
     (if sq_CPUMillicores r < 0 \<or> sq_MemBytes r < 0 then Some LimitNegative else validateReplicas (sq_Replicas r))"

definition validateVolumeResize :: "volumeResizeRequest \<Rightarrow> requestError option" where
  "validateVolumeResize r = orElse (validateTarget (vq_Target r))
     (if vq_MountPath r = '''' then Some MountPathRequired else if vq_SizeBytes r \<le> 0 then Some SizeNotPositive else None)"

definition validateVolumeAdd :: "volumeAddRequest \<Rightarrow> requestError option" where
  "validateVolumeAdd r = orElse (validateTarget (va_Target r)) (validateVolumeSpec (va_Volume r))"

definition validateVolumeRevert :: "volumeRevertRequest \<Rightarrow> requestError option" where
  "validateVolumeRevert r = orElse (validateTarget (vv_Target r)) (if vv_MountPath r = '''' then Some MountPathRequired else None)"

text \<open>The handler checks the version after the target.\<close>

definition validateRollback :: "rollbackRequest \<Rightarrow> requestError option" where
  "validateRollback r = orElse (validateTarget (rq_Target r)) (if rq_ToVersion r < 0 then Some VersionNegative else None)"

definition deployInput :: "deploySpec \<Rightarrow> Target \<Rightarrow> string \<Rightarrow> DeployInput" where
  "deployInput d t imageRef = \<lparr>di_Target = t, di_ImageRef = imageRef, di_CPUMillicores = dsp_CPUMillicores d,
     di_MemBytes = dsp_MemBytes d, di_Env = '''', di_Healthcheck = '''', di_DrainSeconds = dsp_DrainSeconds d,
     di_RestartMax = dsp_RestartMax d, di_ProgressDeadline = dsp_ProgressDeadline d, di_Replicas = dsp_Replicas d,
     di_CommitMessage = dsp_CommitMessage d, di_CreatedBy = dsp_CreatedBy d\<rparr>"

section \<open>The handlers of the writes\<close>

definition DefaultEnvironment :: string where "DefaultEnvironment = ''production''"

definition orDefault :: "string \<Rightarrow> string \<Rightarrow> string" where
  "orDefault v fallback = (if v \<noteq> '''' then v else fallback)"

definition handleCreateProject :: "(nat \<Rightarrow> database \<Rightarrow> database) \<Rightarrow> createProjectRequest option \<Rightarrow> (string \<times> string) handler" where
  "handleCreateProject env req = checked req (\<lambda>r. if cp_Name r = '''' then Some NameRequired else None) (\<lambda>r.
     let e = orDefault (cp_Environment r) DefaultEnvironment
     in respond (WithTx env (createProject (cp_Name r) e)) writeDomainError (\<lambda>_. Reply StatusCreated (cp_Name r, e)))"

definition handleCreateEnvironment ::
  "(nat \<Rightarrow> database \<Rightarrow> database) \<Rightarrow> createEnvironmentRequest option \<Rightarrow> (uuid \<times> string \<times> string \<times> string \<times> nat) handler" where
  "handleCreateEnvironment env req =
     checked req (\<lambda>r. if cen_Project r = '''' \<or> cen_Name r = '''' then Some NameRequired else None) (\<lambda>r.
       respond (WithTx env (createEnvironment (cen_Project r) (cen_SourceEnvironment r) (cen_Name r))) writeDomainError
         (\<lambda>res. Reply StatusCreated (env_ID (ce_Environment res), cen_Project r, env_Name (ce_Environment res),
            ce_SourceEnv res, ce_ServicesCloned res)))"

record launchedJSON =
  lj_ID :: uuid
  lj_Name :: string
  lj_Stateful :: bool
  lj_Version :: int

definition launched :: "ServiceRow \<Rightarrow> DeployResult option \<Rightarrow> launchedJSON" where
  "launched svc res = \<lparr>lj_ID = svc_ID svc, lj_Name = svc_Name svc, lj_Stateful = svc_Stateful svc,
     lj_Version = (case res of None \<Rightarrow> 0 | Some out \<Rightarrow> dres_Version out)\<rparr>"

text \<open>\<open>encode\<close> is \<^verbatim>\<open>json.Marshal\<close> of a source.\<close>

definition handleCreateService ::
  "(Source \<Rightarrow> string) \<Rightarrow> (nat \<Rightarrow> database \<Rightarrow> database) \<Rightarrow> createServiceRequest option \<Rightarrow> launchedJSON handler" where
  "handleCreateService encode env req = checked req validateCreateService (\<lambda>r.
     if csr_Environment r = ''''
     then respond (stmt env (CreateService (csr_Project r) (csr_Name r) (csr_Stateful r))) writeDomainError
            (\<lambda>svc. Reply StatusCreated (launched svc None))
     else let t = \<lparr>tg_Project = csr_Project r, tg_Environment = csr_Environment r, tg_Service = csr_Name r\<rparr>;
              dep = map_option (\<lambda>d. deployInput d t (so_Image (csr_Source r))) (csr_Deploy r);
              inp = \<lparr>as_Target = t, as_Stateful = csr_Stateful r, as_Volume = csr_Volume r\<rparr>
          in respond (LaunchService env inp (Some (encode (csr_Source r))) dep) writeDomainError
               (\<lambda>(svc, res). Reply StatusCreated (launched svc res)))"

definition handleBindService ::
  "(Source \<Rightarrow> string) \<Rightarrow> (nat \<Rightarrow> database \<Rightarrow> database) \<Rightarrow> bindServiceRequest option \<Rightarrow> uuid handler" where
  "handleBindService encode env req =
     (case req of None \<Rightarrow> refuse StatusBadRequest
      | Some r \<Rightarrow> (case bs_EnvironmentID r of None \<Rightarrow> refuse StatusBadRequest
          | Some environmentID \<Rightarrow> (case bs_ServiceID r of None \<Rightarrow> refuse StatusBadRequest
              | Some serviceID \<Rightarrow> respond (BindService env environmentID serviceID (Some (encode (bs_Source r))))
                  writeDomainError (\<lambda>es. Reply StatusCreated (es_ID es)))))"

definition handleDeploy :: "(nat \<Rightarrow> database \<Rightarrow> database) \<Rightarrow> deployRequest option \<Rightarrow> DeployResult handler" where
  "handleDeploy env req = checked req validateDeploy (\<lambda>r.
     respond (Service_Deploy env (deployInput (dq_Spec r) (dq_Target r) (dq_ImageRef r))) writeDomainError (Reply StatusCreated))"

definition handleScale :: "(nat \<Rightarrow> database \<Rightarrow> database) \<Rightarrow> scaleRequest option \<Rightarrow> int handler" where
  "handleScale env req = checked req validateScale (\<lambda>r.
     respond (Scale env \<lparr>si_Target = sq_Target r, si_Replicas = sq_Replicas r, si_CPUMillicores = sq_CPUMillicores r,
         si_MemBytes = sq_MemBytes r, si_CreatedBy = sq_CreatedBy r\<rparr>) writeDomainError (Reply StatusOK))"

definition handleResizeVolumeIn ::
  "(nat \<Rightarrow> bool) \<Rightarrow> (nat \<Rightarrow> database \<Rightarrow> database) \<Rightarrow> volumeResizeRequest option \<Rightarrow> (bool \<times> int) handler" where
  "handleResizeVolumeIn ctx env req = checked req validateVolumeResize (\<lambda>r.
     respond (ResizeVolumeIn ctx env (vq_Target r) (vq_MountPath r) (vq_SizeBytes r)) writeStateError
       (\<lambda>out. Reply StatusOK (rz_WaitingForSpace out, rz_ShortfallBytes out)))"

definition handleResizeVolume :: "(nat \<Rightarrow> database \<Rightarrow> database) \<Rightarrow> volumeResizeRequest option \<Rightarrow> (bool \<times> int) handler" where
  "handleResizeVolume = handleResizeVolumeIn (\<lambda>_. False)"

lemmas handleResizeVolume_steps = handleResizeVolumeIn_def [of "\<lambda>_. False", folded handleResizeVolume_def ResizeVolume_def]

definition handleRevertVolume :: "(nat \<Rightarrow> database \<Rightarrow> database) \<Rightarrow> volumeRevertRequest option \<Rightarrow> int handler" where
  "handleRevertVolume env req = checked req validateVolumeRevert (\<lambda>r.
     respond (RevertVolume env (vv_Target r) (vv_MountPath r)) writeStateError (\<lambda>vol. Reply StatusOK (vr_DesiredSizeBytes vol)))"

definition handleRollback :: "(nat \<Rightarrow> database \<Rightarrow> database) \<Rightarrow> rollbackRequest option \<Rightarrow> RollbackResult handler" where
  "handleRollback env req = checked req validateRollback (\<lambda>r.
     respond (Rollback env \<lparr>rb_Target = rq_Target r, rb_ToVersion = rq_ToVersion r\<rparr>) writeStateError (Reply StatusOK))"

definition handleAddVolume :: "(nat \<Rightarrow> database \<Rightarrow> database) \<Rightarrow> volumeAddRequest option \<Rightarrow> (uuid \<times> string \<times> int) handler" where
  "handleAddVolume env req = checked req validateVolumeAdd (\<lambda>r.
     respond (AddVolume env \<lparr>av_Target = va_Target r, av_MountPath = vsp_MountPath (va_Volume r),
         av_SizeBytes = vsp_SizeBytes (va_Volume r), av_Region = va_Region r\<rparr>) writeStateError
       (\<lambda>vol. Reply StatusCreated (vr_ID vol, vr_Region vol, vr_DesiredSizeBytes vol)))"

section \<open>The handlers of the operator's own transitions\<close>

definition hostTransition :: "(uuid \<Rightarrow> (storeError, database, bool) steps) \<Rightarrow> uuid option \<Rightarrow> unit handler" where
  "hostTransition fn hid =
     (case hid of None \<Rightarrow> refuse StatusBadRequest
      | Some hostID \<Rightarrow> respond (fn hostID) writeInternalError (\<lambda>applied. if applied then Reply StatusOK () else ErrorReply StatusConflict))"

definition cordon :: "(nat \<Rightarrow> database \<Rightarrow> database) \<Rightarrow> uuid option \<Rightarrow> unit handler" where
  "cordon env = hostTransition (\<lambda>i. WithTx env (CordonHost i))"

definition uncordon :: "(nat \<Rightarrow> database \<Rightarrow> database) \<Rightarrow> uuid option \<Rightarrow> unit handler" where
  "uncordon env = hostTransition (\<lambda>i. WithTx env (UncordonHost i))"

definition drain :: "(nat \<Rightarrow> database \<Rightarrow> database) \<Rightarrow> time \<Rightarrow> uuid option \<Rightarrow> unit handler" where
  "drain env now = hostTransition (\<lambda>i. WithTx env (DrainHost now i))"

definition handleDeleteReplica :: "(nat \<Rightarrow> database \<Rightarrow> database) \<Rightarrow> uuid option \<Rightarrow> unit handler" where
  "handleDeleteReplica env rid = (case rid of None \<Rightarrow> refuse StatusBadRequest
     | Some i \<Rightarrow> respond (WithTx env (DeleteReplica i)) writeInternalError (Reply StatusOK))"

definition restartError :: "storeError \<Rightarrow> 'j reply" where
  "restartError e = (case e of ErrNotFound \<Rightarrow> ErrorReply StatusNotFound | ErrConflict \<Rightarrow> ErrorReply StatusConflict
     | _ \<Rightarrow> writeInternalError e)"

definition handleRestartReplica :: "(nat \<Rightarrow> database \<Rightarrow> database) \<Rightarrow> uuid option \<Rightarrow> unit handler" where
  "handleRestartReplica env rid = (case rid of None \<Rightarrow> refuse StatusBadRequest
     | Some i \<Rightarrow> respond (WithTx env (RestartReplica i)) restartError (Reply StatusOK))"

section \<open>The handlers of the reads\<close>

text \<open>The user interface's own word for no filter.\<close>

definition filterValue :: "string \<Rightarrow> string" where
  "filterValue v = (if v = ''all'' then '''' else v)"

definition handleListHosts :: "(nat \<Rightarrow> database \<Rightarrow> database) \<Rightarrow> hostJSON list handler" where
  "handleListHosts env = respond (listHosts env) writeInternalError (Reply StatusOK)"

definition handleListReplicas :: "(nat \<Rightarrow> database \<Rightarrow> database) \<Rightarrow> replicaJSON list handler" where
  "handleListReplicas env = respond (listReplicas env) writeInternalError (Reply StatusOK)"

definition handleDeploymentReplicas :: "(nat \<Rightarrow> database \<Rightarrow> database) \<Rightarrow> uuid option \<Rightarrow> uuid list handler" where
  "handleDeploymentReplicas env did = (case did of None \<Rightarrow> refuse StatusBadRequest
     | Some i \<Rightarrow> respond (WithTx env (ListDeploymentReplicaIDs i)) writeInternalError (Reply StatusOK))"

definition handleMeta :: "(nat \<Rightarrow> database \<Rightarrow> database) \<Rightarrow> metaJSON handler" where
  "handleMeta env = respond (readMeta env) writeInternalError (Reply StatusOK)"

definition handleTopology :: "(nat \<Rightarrow> database \<Rightarrow> database) \<Rightarrow> string \<Rightarrow> string \<Rightarrow> string \<Rightarrow> topologyJSON handler" where
  "handleTopology env project environment region = respond (readTopology env
     \<lparr>tf_Project = filterValue project, tf_Environment = filterValue environment, tf_Region = filterValue region\<rparr>)
     writeInternalError (Reply StatusOK)"

definition handleListServices :: "(nat \<Rightarrow> database \<Rightarrow> database) \<Rightarrow> string \<Rightarrow> string \<Rightarrow> (uuid \<times> string \<times> bool) list handler" where
  "handleListServices env project environment =
     (if filterValue project = '''' then refuse StatusBadRequest
      else respond (WithTx env (ListProjectServices (filterValue project) (filterValue environment))) writeInternalError (Reply StatusOK))"

section \<open>The routes\<close>

datatype operatorRequest =
    GetHealthz | GetHosts | GetReplicas | GetMeta | GetTopology string string string | GetServices string string
  | GetDeploymentReplicas "uuid option"
  | PostCordon "uuid option" | PostUncordon "uuid option" | PostDrain "uuid option"
  | DeleteReplicas "uuid option" | PostRestart "uuid option"
  | PostProjects "createProjectRequest option" | PostEnvironments "createEnvironmentRequest option"
  | PostServices "createServiceRequest option" | PostEnvironmentServices "bindServiceRequest option"
  | PostDeployments "deployRequest option" | PostScale "scaleRequest option" | PostRollback "rollbackRequest option"
  | PostVolumesResize "volumeResizeRequest option" | PostVolumesRevert "volumeRevertRequest option"
  | PostVolumes "volumeAddRequest option"

definition only_status :: "'j handler \<Rightarrow> nat \<times> database \<Rightarrow> nat \<times> (nat \<times> database)" where
  "only_status h ks = (case h ks of (r, ks') \<Rightarrow> (status_of r, ks'))"

text \<open>\<^verbatim>\<open>OperatorAPI.Handler\<close>, down to the status: \<open>now\<close> is the clock the drain route reads.\<close>

fun serve :: "(Source \<Rightarrow> string) \<Rightarrow> (nat \<Rightarrow> database \<Rightarrow> database) \<Rightarrow> time \<Rightarrow> operatorRequest \<Rightarrow>
    nat \<times> database \<Rightarrow> nat \<times> (nat \<times> database)" where
  "serve encode env now GetHealthz = only_status (\<lambda>ks. (Reply StatusOK (), ks))"
| "serve encode env now GetHosts = only_status (handleListHosts env)"
| "serve encode env now GetReplicas = only_status (handleListReplicas env)"
| "serve encode env now GetMeta = only_status (handleMeta env)"
| "serve encode env now (GetTopology p e r) = only_status (handleTopology env p e r)"
| "serve encode env now (GetServices p e) = only_status (handleListServices env p e)"
| "serve encode env now (GetDeploymentReplicas i) = only_status (handleDeploymentReplicas env i)"
| "serve encode env now (PostCordon i) = only_status (cordon env i)"
| "serve encode env now (PostUncordon i) = only_status (uncordon env i)"
| "serve encode env now (PostDrain i) = only_status (drain env now i)"
| "serve encode env now (DeleteReplicas i) = only_status (handleDeleteReplica env i)"
| "serve encode env now (PostRestart i) = only_status (handleRestartReplica env i)"
| "serve encode env now (PostProjects q) = only_status (handleCreateProject env q)"
| "serve encode env now (PostEnvironments q) = only_status (handleCreateEnvironment env q)"
| "serve encode env now (PostServices q) = only_status (handleCreateService encode env q)"
| "serve encode env now (PostEnvironmentServices q) = only_status (handleBindService encode env q)"
| "serve encode env now (PostDeployments q) = only_status (handleDeploy env q)"
| "serve encode env now (PostScale q) = only_status (handleScale env q)"
| "serve encode env now (PostRollback q) = only_status (handleRollback env q)"
| "serve encode env now (PostVolumesResize q) = only_status (handleResizeVolume env q)"
| "serve encode env now (PostVolumesRevert q) = only_status (handleRevertVolume env q)"
| "serve encode env now (PostVolumes q) = only_status (handleAddVolume env q)"

end
