(* ===== verification/ProjectCorrect.thy ===== *)
theory ProjectCorrect
  imports Project
begin

text \<open>
  What the operator's commands guarantee on the database: a commit makes exactly one new current
  version with the counts it was given, a rollback moves the pointer and not the scale, and every
  command keeps the schema's constraints.
\<close>

section \<open>Steps through an operation\<close>

lemma st_Inr [simp]: "st m s = Inr r \<longleftrightarrow> m s = Inr r"
  by (auto simp: st_def split: sum.splits)

lemma st_Inl [simp]: "st m s = Inl e \<longleftrightarrow> (\<exists>e'. m s = Inl e' \<and> e = ErrStore e')"
  by (auto simp: st_def split: sum.splits)

lemma orInvalid_Inr [simp]: "orInvalid m s = Inr r \<longleftrightarrow> m s = Inr r"
  by (auto simp: orInvalid_def split: sum.splits)

lemma op_keeps_st [keeps]: "op_keeps J m \<Longrightarrow> op_keeps J (st m)"
  by (simp add: op_keeps_def)

lemma op_keeps_orInvalid [keeps]: "op_keeps J m \<Longrightarrow> op_keeps J (orInvalid m)"
  by (simp add: op_keeps_def)

lemma op_keeps_mapError [keeps]:
  assumes "\<And>s x s'. J s \<Longrightarrow> m s = Inr (x, s') \<Longrightarrow> J s'"
  shows "op_keeps J (mapError f m)"
  by (rule op_keepsI) (use assms in auto)

lemma op_keeps_queryRow [keeps]: "op_keeps J (mapError f (queryRow rows))"
  by (intro keeps) (auto simp: queryRow_Inr)

lemma op_keeps_query [keeps]: "op_keeps J (query rows)"
  by (rule op_keepsI) simp

lemma op_keeps_split [keeps]: "(\<And>a b. op_keeps J (f a b)) \<Longrightarrow> op_keeps J (case p of (a, b) \<Rightarrow> f a b)"
  by (cases p) simp

lemma op_keeps_Let [keeps]: "op_keeps J (f x) \<Longrightarrow> op_keeps J (let y = x in f y)"
  by simp

lemma op_keeps_option [keeps]:
  "op_keeps J m \<Longrightarrow> (\<And>x. op_keeps J (f x)) \<Longrightarrow> op_keeps J (case v of None \<Rightarrow> m | Some x \<Rightarrow> f x)"
  by (cases v) auto

lemmas project_queries = q_GetProject_def q_GetEnvironment_def q_GetService_def q_GetEnvironmentService_def
  q_GetCurrentDeployment_def q_GetCurrentDeploymentSpec_def q_GetDeploymentByVersion_def
  q_PreviousDeploymentVersion_def q_CurrentDeploymentID_def q_GetVolume_def q_GetHost_def

lemmas project_reads = GetProject_def GetEnvironment_def GetService_def GetEnvironmentService_def
  GetCurrentDeployment_def GetCurrentDeploymentSpec_def GetDeploymentByVersion_def
  PreviousDeploymentVersion_def CurrentDeploymentID_def GetVolume_def GetHost_def project_queries

lemma reads_keep [keeps]:
  "op_keeps J (GetProject a)" "op_keeps J (GetEnvironment a b)" "op_keeps J (GetService a b)"
  "op_keeps J (GetEnvironmentService a b c)" "op_keeps J (GetCurrentDeployment i)" "op_keeps J (GetCurrentDeploymentSpec i)"
  "op_keeps J (GetDeploymentByVersion i n)" "op_keeps J (PreviousDeploymentVersion i n)"
  "op_keeps J (CurrentDeploymentID a b c)" "op_keeps J (GetVolume i a)" "op_keeps J (GetHost i)"
  "op_keeps J (ListDeploymentRegions i)"
  by (simp_all only: project_reads op_keeps_queryRow ListDeploymentRegions_def q_ListDeploymentRegions_def op_keeps_query)

lemma NextDeploymentVersion_Inr:
  "NextDeploymentVersion i db = Inr (v, db') \<longleftrightarrow> db' = db \<and> v = maxVersion (deploymentsOf db i) + 1 \<and> v < 2 ^ 31"
  by (auto simp: NextDeploymentVersion_def q_NextDeploymentVersion_def Let_def split: if_splits)

lemma NextDeploymentVersion_keeps [keeps]: "op_keeps J (NextDeploymentVersion i)"
  by (rule op_keepsI) (simp add: NextDeploymentVersion_Inr)

section \<open>The counts of a deployment\<close>

definition regionsOf :: "database \<Rightarrow> uuid \<Rightarrow> string \<rightharpoonup> int" where
  "regionsOf db i = map_of (map (\<lambda>r. (dr_Region r, dr_Replicas r)) (filter (\<lambda>r. dr_DeploymentID r = i) (db_deploymentRegions db)))"

text \<open>Only the rows of \<open>deployment_regions\<close> differ.\<close>

definition regionsOnly :: "database \<Rightarrow> database \<Rightarrow> bool" where
  "regionsOnly db db' \<longleftrightarrow> db' = db\<lparr>db_deploymentRegions := db_deploymentRegions db'\<rparr>"

lemma regionsOnly_refl [simp]: "regionsOnly db db"
  by (simp add: regionsOnly_def)

lemma regionsOnly_trans: "regionsOnly a b \<Longrightarrow> regionsOnly b c \<Longrightarrow> regionsOnly a c"
  unfolding regionsOnly_def by (metis database.surjective database.update_convs(3))

lemma regionsOnly_fields:
  assumes "regionsOnly db db'"
  shows "db_deployments db' = db_deployments db" "db_environmentServices db' = db_environmentServices db"
    "db_environments db' = db_environments db" "db_services db' = db_services db" "db_regions db' = db_regions db"
    "db_replicas db' = db_replicas db" "db_volumes db' = db_volumes db" "db_leases db' = db_leases db"
    "db_hosts db' = db_hosts db" "db_served db' = db_served db"
  using arg_cong [OF assms [unfolded regionsOnly_def], of db_deployments]
    arg_cong [OF assms [unfolded regionsOnly_def], of db_environmentServices]
    arg_cong [OF assms [unfolded regionsOnly_def], of db_environments]
    arg_cong [OF assms [unfolded regionsOnly_def], of db_services]
    arg_cong [OF assms [unfolded regionsOnly_def], of db_regions]
    arg_cong [OF assms [unfolded regionsOnly_def], of db_replicas]
    arg_cong [OF assms [unfolded regionsOnly_def], of db_volumes]
    arg_cong [OF assms [unfolded regionsOnly_def], of db_leases]
    arg_cong [OF assms [unfolded regionsOnly_def], of db_hosts]
    arg_cong [OF assms [unfolded regionsOnly_def], of db_served]
  by simp_all

lemma regionsOf_upsert:
  "map_of (map (\<lambda>r. (dr_Region r, dr_Replicas r)) (filter (\<lambda>r. dr_DeploymentID r = j)
      (map (\<lambda>r. if regionHit i region r then r\<lparr>dr_Replicas := n\<rparr> else r) rows)))
   = (let old = map_of (map (\<lambda>r. (dr_Region r, dr_Replicas r)) (filter (\<lambda>r. dr_DeploymentID r = j) rows))
      in if j = i \<and> list_ex (regionHit i region) rows then old(region \<mapsto> n) else old)"
  by (induction rows) (auto simp: regionHit_def Let_def fun_eq_iff)

lemma SetDeploymentRegion_Inr:
  assumes "SetDeploymentRegion i region n db = Inr (u, db')"
  shows "0 \<le> n \<and> regionsOnly db db' \<and> regionsOf db' = (regionsOf db)(i := (regionsOf db i)(region \<mapsto> n))"
proof (cases "list_ex (regionHit i region) (db_deploymentRegions db)")
  case True
  then have "0 \<le> n" and db': "db' = db\<lparr>db_deploymentRegions :=
      map (\<lambda>r. if regionHit i region r then r\<lparr>dr_Replicas := n\<rparr> else r) (db_deploymentRegions db)\<rparr>"
    using assms by (auto simp: SetDeploymentRegion_def q_SetDeploymentRegion_def split: if_splits)
  with True show ?thesis
    by (simp add: regionsOnly_def regionsOf_def regionsOf_upsert Let_def fun_eq_iff)
next
  case False
  then have "0 \<le> n" and db': "db' = db\<lparr>db_deploymentRegions := db_deploymentRegions db
      @ [\<lparr>dr_DeploymentID = i, dr_Region = region, dr_Replicas = n\<rparr>]\<rparr>"
    using assms by (auto simp: SetDeploymentRegion_def q_SetDeploymentRegion_def split: if_splits)
  moreover have "regionsOf db i region = None"
    using False by (auto simp: regionsOf_def map_of_eq_None_iff list_ex_iff regionHit_def)
  ultimately show ?thesis
    by (auto simp: regionsOnly_def regionsOf_def fun_eq_iff map_add_def split: option.splits)
qed

lemma countAt_key: "region \<in> fst ` set m \<Longrightarrow> map_of m region = Some (countAt m region)"
  unfolding countAt_def by (metis domIff dom_map_of_conv_image_fst option.case_eq_if option.collapse)

lemma set_sortedRegions [simp]: "set (sortedRegions m) = fst ` set m"
  by (simp add: sortedRegions_def)

lemma setRegions_loop:
  assumes "op_each (\<lambda>region. st (SetDeploymentRegion i region (countAt counts region))) rs db = Inr (u, db')"
    and "set rs \<subseteq> fst ` set counts"
  shows "regionsOnly db db' \<and> (\<forall>j. regionsOf db' j =
    (if j = i then (\<lambda>r. if r \<in> set rs then map_of counts r else regionsOf db i r) else regionsOf db j))
    \<and> (\<forall>r \<in> set rs. 0 \<le> countAt counts r)"
  using assms
proof (induction rs arbitrary: db)
  case Nil
  then show ?case by (auto simp: op_ok_def)
next
  case (Cons r rs)
  obtain u1 db1 where one: "SetDeploymentRegion i r (countAt counts r) db = Inr (u1, db1)"
    and rest: "op_each (\<lambda>region. st (SetDeploymentRegion i region (countAt counts region))) rs db1 = Inr (u, db')"
    using Cons.prems(1) by (auto simp: op_seq_Inr)
  note step = SetDeploymentRegion_Inr [OF one]
  have key: "map_of counts r = Some (countAt counts r)"
    using Cons.prems(2) by (intro countAt_key) auto
  from Cons.IH [OF rest] Cons.prems(2) step show ?case
    by (auto simp: key fun_eq_iff intro: regionsOnly_trans)
qed

text \<open>The counts written are the map's, and the other rows and deployments keep theirs.\<close>

lemma setRegions_Inr:
  assumes "setRegions i counts db = Inr (u, db')"
  shows "regionsOnly db db'" "regionsOf db' = (regionsOf db)(i := regionsOf db i ++ map_of counts)"
    "\<forall>r \<in> fst ` set counts. 0 \<le> countAt counts r"
proof -
  note loop = setRegions_loop [OF assms [unfolded setRegions_def]]
  then show "regionsOnly db db'" "\<forall>r \<in> fst ` set counts. 0 \<le> countAt counts r" by simp_all
  have "map_of counts r = None" if "r \<notin> fst ` set counts" for r
    using that by (simp add: map_of_eq_None_iff)
  then show "regionsOf db' = (regionsOf db)(i := regionsOf db i ++ map_of counts)"
    using loop by (fastforce simp: fun_eq_iff map_add_def countAt_key split: option.splits)
qed

section \<open>The constraints the commands rely on\<close>

text \<open>
  The constraints of the tables of deployments and of the naming tree, beside those of
  \<^verbatim>\<open>Schema.db_wf\<close>.
\<close>

definition deployment_ok :: "database \<Rightarrow> DeploymentRow \<Rightarrow> bool" where
  "deployment_ok db d \<longleftrightarrow> 0 < dep_CpuMillicores d \<and> 0 < dep_MemBytes d \<and> 0 \<le> dep_ProgressDeadline d
     \<and> dep_EnvironmentServiceID d \<in> es_ID ` set (db_environmentServices db)"

definition region_ok :: "database \<Rightarrow> DeploymentRegion \<Rightarrow> bool" where
  "region_ok db r \<longleftrightarrow> 0 \<le> dr_Replicas r \<and> dr_DeploymentID r \<in> dep_ID ` set (db_deployments db) \<and> dr_Region r \<in> set (db_regions db)"

definition deployments_wf :: "database \<Rightarrow> bool" where
  "deployments_wf db \<longleftrightarrow>
     distinct (map (\<lambda>d. (dep_EnvironmentServiceID d, dep_Version d)) (db_deployments db))
     \<and> (\<forall>d \<in> set (db_deployments db). deployment_ok db d)
     \<and> (\<forall>r \<in> set (db_deploymentRegions db). region_ok db r)"

definition project_wf :: "database \<Rightarrow> bool" where
  "project_wf db \<longleftrightarrow> db_wf db \<and> deployments_wf db"

lemma db_wf_next [simp]: "db_wf (db\<lparr>db_next := n\<rparr>) \<longleftrightarrow> db_wf db"
  by (simp add: db_wf_def keys_ok_def one_current_def refs_ok_def replica_refs_def rows_ok_def)

lemma deployments_wf_next [simp]: "deployments_wf (db\<lparr>db_next := n\<rparr>) \<longleftrightarrow> deployments_wf db"
  by (simp add: deployments_wf_def deployment_ok_def region_ok_def)

lemma db_wf_setRegions:
  assumes "db_wf db" "distinct (map (\<lambda>d. (dr_DeploymentID d, dr_Region d)) rs)"
    and "(\<lambda>d. (dr_DeploymentID d, dr_Region d)) ` set (db_deploymentRegions db) \<subseteq> (\<lambda>d. (dr_DeploymentID d, dr_Region d)) ` set rs"
  shows "db_wf (db\<lparr>db_deploymentRegions := rs\<rparr>)"
proof -
  have "replica_refs (db\<lparr>db_deploymentRegions := rs\<rparr>) r" if "replica_refs db r" for r
    using that assms(3) unfolding replica_refs_def by auto
  with assms(1,2) show ?thesis
    by (simp add: db_wf_def keys_ok_def one_current_def refs_ok_def rows_ok_def)
qed

lemma deployments_wf_setRegions:
  "deployments_wf db \<Longrightarrow> (\<And>r. r \<in> set rs \<Longrightarrow> region_ok db r) \<Longrightarrow> deployments_wf (db\<lparr>db_deploymentRegions := rs\<rparr>)"
  by (simp add: deployments_wf_def deployment_ok_def region_ok_def)

lemma project_wf_mapRegions:
  assumes "project_wf db" and "\<And>r. dr_DeploymentID (f r) = dr_DeploymentID r" "\<And>r. dr_Region (f r) = dr_Region r"
    and "\<And>r. 0 \<le> dr_Replicas r \<Longrightarrow> 0 \<le> dr_Replicas (f r)"
  shows "project_wf (db\<lparr>db_deploymentRegions := map f (db_deploymentRegions db)\<rparr>)"
proof -
  let ?key = "\<lambda>d. (dr_DeploymentID d, dr_Region d)"
  have same: "map ?key (map f (db_deploymentRegions db)) = map ?key (db_deploymentRegions db)"
    using assms(2,3) by simp
  have wf: "db_wf db" "deployments_wf db" using assms(1) by (simp_all add: project_wf_def)
  have "db_wf (db\<lparr>db_deploymentRegions := map f (db_deploymentRegions db)\<rparr>)"
  proof (rule db_wf_setRegions [OF wf(1)])
    show "distinct (map ?key (map f (db_deploymentRegions db)))"
      unfolding same using wf(1) by (simp add: db_wf_def keys_ok_def)
    show "?key ` set (db_deploymentRegions db) \<subseteq> ?key ` set (map f (db_deploymentRegions db))"
      using arg_cong [OF same, of set] by (simp only: list.set_map order.refl)
  qed
  moreover have "deployments_wf (db\<lparr>db_deploymentRegions := map f (db_deploymentRegions db)\<rparr>)"
    by (rule deployments_wf_setRegions [OF wf(2)]) (use wf(2) assms in \<open>auto simp: deployments_wf_def region_ok_def\<close>)
  ultimately show ?thesis by (simp add: project_wf_def)
qed

lemma keeps_SetDeploymentRegion [keeps]: "op_keeps project_wf (SetDeploymentRegion i region n)"
proof (rule op_keepsI)
  fix db x db'
  let ?key = "\<lambda>d. (dr_DeploymentID d, dr_Region d)" and ?hit = "regionHit i region"
  let ?upd = "\<lambda>r. if ?hit r then r\<lparr>dr_Replicas := n\<rparr> else r"
  assume wf: "project_wf db" and ok: "SetDeploymentRegion i region n db = Inr (x, db')"
  then have dbwf: "db_wf db" and dwf: "deployments_wf db" by (simp_all add: project_wf_def)
  have keys: "distinct (map ?key (db_deploymentRegions db))"
    using dbwf by (simp add: db_wf_def keys_ok_def)
  have rok: "r \<in> set (db_deploymentRegions db) \<Longrightarrow> region_ok db r" for r
    using dwf by (simp add: deployments_wf_def)
  show "project_wf db'"
  proof (cases "list_ex ?hit (db_deploymentRegions db)")
    case True
    then have n: "0 \<le> n" and db': "db' = db\<lparr>db_deploymentRegions := map ?upd (db_deploymentRegions db)\<rparr>"
      using ok by (auto simp: SetDeploymentRegion_def q_SetDeploymentRegion_def split: if_splits)
    show ?thesis unfolding db'
      by (rule project_wf_mapRegions [OF wf]) (simp_all add: n)
  next
    case False
    then have n: "0 \<le> n" "i \<in> dep_ID ` set (db_deployments db)" "region \<in> set (db_regions db)"
      and db': "db' = db\<lparr>db_deploymentRegions := db_deploymentRegions db @ [\<lparr>dr_DeploymentID = i, dr_Region = region, dr_Replicas = n\<rparr>]\<rparr>"
      using ok by (auto simp: SetDeploymentRegion_def q_SetDeploymentRegion_def split: if_splits)
    have "db_wf db'" unfolding db'
      by (rule db_wf_setRegions [OF dbwf]) (use keys False in \<open>auto simp: list_ex_iff regionHit_def\<close>)
    moreover have "deployments_wf db'" unfolding db'
      by (rule deployments_wf_setRegions [OF dwf]) (use rok n in \<open>auto simp: region_ok_def\<close>)
    ultimately show ?thesis by (simp add: project_wf_def)
  qed
qed

lemma keeps_setRegions [keeps]: "op_keeps project_wf (setRegions i counts)"
  unfolding setRegions_def by (intro keeps)

lemma keeps_ZeroDeploymentRegions [keeps]: "op_keeps project_wf (ZeroDeploymentRegions i)"
proof (rule op_keepsI)
  fix db x db'
  assume wf: "project_wf db" and "ZeroDeploymentRegions i db = Inr (x, db')"
  then have db': "db' = db\<lparr>db_deploymentRegions := map (\<lambda>r. if dr_DeploymentID r = i then r\<lparr>dr_Replicas := 0\<rparr> else r) (db_deploymentRegions db)\<rparr>"
    by (simp add: ZeroDeploymentRegions_def)
  show "project_wf db'" unfolding db'
    by (rule project_wf_mapRegions [OF wf]) simp_all
qed

text \<open>Rewriting the deployments without touching identity, version or limits.\<close>

lemma deployments_wf_map:
  assumes "deployments_wf db" "\<And>d. dep_ID (f d) = dep_ID d \<and> dep_EnvironmentServiceID (f d) = dep_EnvironmentServiceID d
      \<and> dep_Version (f d) = dep_Version d \<and> dep_CpuMillicores (f d) = dep_CpuMillicores d \<and> dep_MemBytes (f d) = dep_MemBytes d
      \<and> dep_ProgressDeadline (f d) = dep_ProgressDeadline d"
  shows "deployments_wf (db\<lparr>db_deployments := map f (db_deployments db)\<rparr>)"
  using assms by (auto simp: deployments_wf_def deployment_ok_def region_ok_def comp_def image_image)

lemma retireCurrent_simps [simp]:
  "retireCurrent s esID db = db\<lparr>db_deployments := map (\<lambda>d. if dep_EnvironmentServiceID d = esID \<and> dep_IsCurrent d
      then d\<lparr>dep_IsCurrent := False, dep_Status := s\<rparr> else d) (db_deployments db)\<rparr>"
  by (simp add: retireCurrent_def)

lemma retireCurrent_ids: "dep_ID ` set (db_deployments (retireCurrent s esID db)) = dep_ID ` set (db_deployments db)"
proof -
  have "map dep_ID (db_deployments (retireCurrent s esID db)) = map dep_ID (db_deployments db)" by simp
  from arg_cong [OF this, of set] show ?thesis by (simp only: list.set_map)
qed

lemma current_after_retire:
  "map dep_EnvironmentServiceID (filter dep_IsCurrent (map (\<lambda>d. if dep_EnvironmentServiceID d = esID \<and> dep_IsCurrent d
      then d\<lparr>dep_IsCurrent := False, dep_Status := s\<rparr> else d) ds))
   = filter (\<lambda>e. e \<noteq> esID) (map dep_EnvironmentServiceID (filter dep_IsCurrent ds))"
  by (induction ds) auto

lemma project_wf_retireCurrent: "project_wf db \<Longrightarrow> project_wf (retireCurrent s esID db)"
proof -
  assume wf: "project_wf db"
  let ?f = "\<lambda>d. if dep_EnvironmentServiceID d = esID \<and> dep_IsCurrent d then d\<lparr>dep_IsCurrent := False, dep_Status := s\<rparr> else d"
  have ids: "map dep_ID (map ?f (db_deployments db)) = map dep_ID (db_deployments db)" by simp
  have "db_wf (db\<lparr>db_deployments := map ?f (db_deployments db)\<rparr>)"
  proof (rule db_wf_setDeployments)
    show "db_wf db" using wf by (simp add: project_wf_def)
    then show "distinct (map dep_ID (map ?f (db_deployments db)))" unfolding ids by (rule db_wf_rows)
    show "dep_ID ` set (db_deployments db) \<subseteq> dep_ID ` set (map ?f (db_deployments db))"
      using arg_cong [OF ids, of set] by (simp only: list.set_map order.refl)
    show "distinct (map dep_EnvironmentServiceID (filter dep_IsCurrent (map ?f (db_deployments db))))"
      unfolding current_after_retire using wf by (simp add: project_wf_def db_wf_def one_current_def)
  qed
  moreover have "deployments_wf (db\<lparr>db_deployments := map ?f (db_deployments db)\<rparr>)"
    by (rule deployments_wf_map) (use wf in \<open>simp_all add: project_wf_def\<close>)
  ultimately show ?thesis by (simp add: project_wf_def)
qed

lemma keeps_retire [keeps]:
  "op_keeps project_wf (SupersedeCurrentDeployments esID)" "op_keeps project_wf (MarkCurrentRolledBack esID)"
  by (auto simp: op_keeps_def SupersedeCurrentDeployments_def MarkCurrentRolledBack_def
      intro: project_wf_retireCurrent simp del: retireCurrent_simps)

lemma CreateDeployment_Inr:
  assumes "CreateDeployment arg db = Inr (d, db')"
  shows "d = newDeployment (db_gen db (db_next db)) (db_now db) arg"
    "db' = db\<lparr>db_deployments := db_deployments db @ [d], db_next := Suc (db_next db)\<rparr>"
    "dep_ID d \<notin> dep_ID ` set (db_deployments db)"
    "0 < cd_CpuMillicores arg" "0 < cd_MemBytes arg" "0 \<le> cd_ProgressDeadline arg"
    "cd_EnvironmentServiceID arg \<in> es_ID ` set (db_environmentServices db)"
    "\<forall>o' \<in> set (db_deployments db). dep_EnvironmentServiceID o' = cd_EnvironmentServiceID arg \<longrightarrow>
       dep_Version o' \<noteq> cd_Version arg \<and> \<not> dep_IsCurrent o'"
  using assms
  by (cases db; auto simp: CreateDeployment_def q_CreateDeployment_def freshID_def Let_def newDeployment_def list_ex_iff split: if_splits)+

lemma newDeployment_simps [simp]:
  "dep_ID (newDeployment i t arg) = i" "dep_IsCurrent (newDeployment i t arg)"
  "dep_EnvironmentServiceID (newDeployment i t arg) = cd_EnvironmentServiceID arg"
  "dep_Version (newDeployment i t arg) = cd_Version arg" "dep_Status (newDeployment i t arg) = DeploymentPending"
  "dep_CpuMillicores (newDeployment i t arg) = cd_CpuMillicores arg" "dep_MemBytes (newDeployment i t arg) = cd_MemBytes arg"
  "dep_ProgressDeadline (newDeployment i t arg) = cd_ProgressDeadline arg"
  by (simp_all add: newDeployment_def)

lemma keeps_CreateDeployment [keeps]: "op_keeps project_wf (CreateDeployment arg)"
proof (rule op_keepsI)
  fix db d db'
  assume wf: "project_wf db" and ok: "CreateDeployment arg db = Inr (d, db')"
  note new = CreateDeployment_Inr [OF ok]
  let ?ds = "db_deployments db @ [d]"
  have "db_wf (db\<lparr>db_deployments := ?ds\<rparr>)"
  proof (rule db_wf_setDeployments)
    show dbwf: "db_wf db" using wf by (simp add: project_wf_def)
    show "distinct (map dep_ID ?ds)" using db_wf_rows(9) [OF dbwf] new(3) by simp
    show "dep_ID ` set (db_deployments db) \<subseteq> dep_ID ` set ?ds" by auto
    show "distinct (map dep_EnvironmentServiceID (filter dep_IsCurrent ?ds))"
      using dbwf new(1,8) by (auto simp: db_wf_def one_current_def)
  qed
  moreover have "deployments_wf (db\<lparr>db_deployments := ?ds\<rparr>)"
    using wf new(1,4-8) by (auto simp: project_wf_def deployments_wf_def deployment_ok_def region_ok_def)
  ultimately have "project_wf ((db\<lparr>db_deployments := ?ds\<rparr>)\<lparr>db_next := Suc (db_next db)\<rparr>)"
    by (simp only: project_wf_def db_wf_next deployments_wf_next simp_thms)
  then show "project_wf db'" unfolding new(2) by simp
qed

lemma SetDeploymentCurrent_Inr:
  "SetDeploymentCurrent i db = Inr (u, db') \<longleftrightarrow> one_current db' \<and> db' = db\<lparr>db_deployments :=
     map (\<lambda>d. if dep_ID d = i then d\<lparr>dep_IsCurrent := True, dep_Status := DeploymentPending\<rparr> else d) (db_deployments db)\<rparr>"
  by (auto simp: SetDeploymentCurrent_def q_SetDeploymentCurrent_def Let_def split: if_splits)

lemma keeps_SetDeploymentCurrent [keeps]: "op_keeps project_wf (SetDeploymentCurrent i)"
proof (rule op_keepsI)
  fix db u db'
  let ?f = "\<lambda>d. if dep_ID d = i then d\<lparr>dep_IsCurrent := True, dep_Status := DeploymentPending\<rparr> else d"
  assume wf: "project_wf db" and ok: "SetDeploymentCurrent i db = Inr (u, db')"
  have one: "one_current db'" and db': "db' = db\<lparr>db_deployments := map ?f (db_deployments db)\<rparr>"
    using ok [unfolded SetDeploymentCurrent_Inr] by blast+
  have ids: "map dep_ID (map ?f (db_deployments db)) = map dep_ID (db_deployments db)" by simp
  have "db_wf db'" unfolding db'
  proof (rule db_wf_setDeployments)
    show "db_wf db" using wf by (simp add: project_wf_def)
    then show "distinct (map dep_ID (map ?f (db_deployments db)))" unfolding ids by (rule db_wf_rows)
    show "dep_ID ` set (db_deployments db) \<subseteq> dep_ID ` set (map ?f (db_deployments db))"
      using arg_cong [OF ids, of set] by (simp only: list.set_map order.refl)
    show "distinct (map dep_EnvironmentServiceID (filter dep_IsCurrent (map ?f (db_deployments db))))"
      using one by (simp add: db' one_current_def)
  qed
  moreover have "deployments_wf db'" unfolding db'
    by (rule deployments_wf_map) (use wf in \<open>simp_all add: project_wf_def\<close>)
  ultimately show "project_wf db'" by (simp add: project_wf_def)
qed

lemma keeps_envService [keeps]: "op_keeps J (envService t)" "op_keeps J (currentID t)"
  by (simp_all add: envService_def currentID_def op_keeps_st reads_keep)

lemma keeps_deploy [keeps]: "op_keeps project_wf (deploy inp)"
  unfolding deploy_def by (intro keeps)

lemma keeps_rollback: "op_keeps project_wf (rollback inp)"
  unfolding rollback_def rollbackTarget_def rollbackTo_def carryRegionCounts_def by (intro keeps)

lemma keeps_scale: "op_keeps project_wf (scale inp)"
  unfolding scale_def checkStatefulScale_def resize_def applyRegionCounts_def Let_def by (intro keeps)

lemma keeps_down: "op_keeps project_wf (down t)"
  unfolding down_def by (intro keeps)

section \<open>Committing a version\<close>

text \<open>The binding a target names.\<close>

definition boundTo :: "database \<Rightarrow> Target \<Rightarrow> (EnvironmentService \<times> EnvironmentRow \<times> ServiceRow) option" where
  "boundTo db t = find (targeted (tg_Project t) (tg_Environment t) (tg_Service t)) (bindings db)"

definition boundID :: "EnvironmentService \<times> EnvironmentRow \<times> ServiceRow \<Rightarrow> uuid" where
  "boundID b = es_ID (fst b)"

lemma filter_Cons_find: "(\<exists>ys. filter P xs = y # ys) \<longleftrightarrow> find P xs = Some y"
  by (induction xs) auto

lemma envService_Inr:
  "envService t db = Inr (row, db') \<longleftrightarrow> db' = db \<and> (\<exists>b. boundTo db t = Some b \<and> row =
     \<lparr>ges_ID = boundID b, ges_Source = es_Source (fst b), ges_ServiceID = svc_ID (snd (snd b)), ges_Stateful = svc_Stateful (snd (snd b))\<rparr>)"
  unfolding envService_def st_Inr GetEnvironmentService_def q_GetEnvironmentService_def mapError_Inr queryRow_Inr boundTo_def
  by (auto simp: filter_Cons_find [symmetric] boundID_def Cons_eq_map_conv map_eq_Cons_conv split: prod.splits)

lemma maxVersion_ge: "d \<in> set ds \<Longrightarrow> dep_Version d \<le> maxVersion ds"
proof (cases ds)
  case (Cons x xs)
  have "foldl (\<lambda>m d. max m (dep_Version d)) m ys \<ge> m \<and> (\<forall>d \<in> set ys. dep_Version d \<le> foldl (\<lambda>m d. max m (dep_Version d)) m ys)" for m ys
    by (induction ys arbitrary: m) (auto, (metis max.bounded_iff)+)
  then show "d \<in> set ds \<Longrightarrow> dep_Version d \<le> maxVersion ds"
    unfolding Cons maxVersion_def by auto
qed simp

lemma regionsOf_none: "deployments_wf db \<Longrightarrow> i \<notin> dep_ID ` set (db_deployments db) \<Longrightarrow> regionsOf db i = Map.empty"
  unfolding regionsOf_def
  by (subst filter_False) (auto simp: deployments_wf_def region_ok_def)

lemma regionsOf_cong: "db_deploymentRegions db' = db_deploymentRegions db \<Longrightarrow> regionsOf db' = regionsOf db"
  by (simp add: regionsOf_def fun_eq_iff)

text \<open>The state a successful commit leaves.\<close>

lemma deploy_Inr:
  assumes "deploy inp db = Inr (res, db')" and wf: "project_wf db"
  obtains b d where "boundTo db (di_Target inp) = Some b"
    and "svc_Stateful (snd (snd b)) \<longrightarrow> totalReplicas (di_Replicas inp) \<le> maxStatefulReplicas"
    and "dres_Version res = maxVersion (deploymentsOf db (boundID b)) + 1" "dres_Version res < 2 ^ 31"
    and "dres_Replicas res = di_Replicas inp"
    and "d = newDeployment (dep_ID d) (db_now db) (deployParams (boundID b) (dres_Version res) inp)"
    and "dep_ID d \<notin> dep_ID ` set (db_deployments db)"
    and "db_deployments db' = db_deployments (retireCurrent DeploymentSuperseded (boundID b) db) @ [d]"
    and "regionsOf db' = (regionsOf db)(dep_ID d := map_of (di_Replicas inp))"
    and "db_replicas db' = db_replicas db" "db_volumes db' = db_volumes db" "db_served db' = db_served db"
proof -
  obtain b where b: "boundTo db (di_Target inp) = Some b"
    and cap: "svc_Stateful (snd (snd b)) \<longrightarrow> totalReplicas (di_Replicas inp) \<le> maxStatefulReplicas"
    and rest: "op_bind (st (NextDeploymentVersion (boundID b))) (\<lambda>version.
         op_seq (st (SupersedeCurrentDeployments (boundID b)))
           (op_bind (st (CreateDeployment (deployParams (boundID b) version inp))) (\<lambda>dep.
            op_seq (setRegions (dep_ID dep) (di_Replicas inp))
              (op_ok \<lparr>dres_Version = version, dres_Replicas = di_Replicas inp\<rparr>)))) db = Inr (res, db')"
  proof -
    let ?then = "\<lambda>es. if ges_Stateful es \<and> totalReplicas (di_Replicas inp) > maxStatefulReplicas then op_err ErrInvalid
       else op_bind (st (NextDeploymentVersion (ges_ID es))) (\<lambda>version.
         op_seq (st (SupersedeCurrentDeployments (ges_ID es)))
           (op_bind (st (CreateDeployment (deployParams (ges_ID es) version inp))) (\<lambda>dep.
            op_seq (setRegions (dep_ID dep) (di_Replicas inp))
              (op_ok \<lparr>dres_Version = version, dres_Replicas = di_Replicas inp\<rparr>))))"
    obtain es dbx where es: "envService (di_Target inp) db = Inr (es, dbx)" and rest: "?then es dbx = Inr (res, db')"
      using assms(1) unfolding deploy_def by (subst (asm) op_bind_Inr) blast
    obtain b where b: "boundTo db (di_Target inp) = Some b" "dbx = db" "ges_ID es = boundID b"
      "ges_Stateful es = svc_Stateful (snd (snd b))"
      using es unfolding envService_Inr by auto
    have "\<not> (ges_Stateful es \<and> totalReplicas (di_Replicas inp) > maxStatefulReplicas)"
      using rest by (simp split: if_splits)
    with rest b show ?thesis
      by (intro that [of b]) (auto split: if_splits)
  qed
  define v where "v = maxVersion (deploymentsOf db (boundID b)) + 1"
  define db1 where "db1 = retireCurrent DeploymentSuperseded (boundID b) db"
  obtain d db2 where v: "v < 2 ^ 31"
    and create: "CreateDeployment (deployParams (boundID b) v inp) db1 = Inr (d, db2)"
    and regions: "setRegions (dep_ID d) (di_Replicas inp) db2 = Inr ((), db')"
    and res: "res = \<lparr>dres_Version = v, dres_Replicas = di_Replicas inp\<rparr>"
    using rest by (auto simp: op_bind_Inr op_seq_Inr NextDeploymentVersion_Inr SupersedeCurrentDeployments_def v_def db1_def
        simp del: retireCurrent_simps)
  note new = CreateDeployment_Inr [OF create]
  note only = setRegions_Inr [OF regions]
  note same = regionsOnly_fields [OF only(1)]
  have wf1: "project_wf db1"
    unfolding db1_def by (rule project_wf_retireCurrent [OF wf])
  have ids: "dep_ID ` set (db_deployments db1) = dep_ID ` set (db_deployments db)"
    unfolding db1_def by (rule retireCurrent_ids)
  have "regionsOf db2 = regionsOf db1" "regionsOf db1 = regionsOf db"
    by (rule regionsOf_cong, simp add: new(2) db1_def)+
  moreover have "regionsOf db1 (dep_ID d) = Map.empty"
    using wf1 new(3) by (intro regionsOf_none) (simp_all add: project_wf_def)
  ultimately have counts: "regionsOf db' = (regionsOf db)(dep_ID d := map_of (di_Replicas inp))"
    by (simp add: only(2))
  show thesis
  proof (rule that [OF b cap])
    show "dres_Version res = maxVersion (deploymentsOf db (boundID b)) + 1" "dres_Version res < 2 ^ 31"
      "dres_Replicas res = di_Replicas inp"
      using v by (simp_all add: res v_def)
    show "d = newDeployment (dep_ID d) (db_now db) (deployParams (boundID b) (dres_Version res) inp)"
      using new(1) by (simp add: db1_def res)
    show "dep_ID d \<notin> dep_ID ` set (db_deployments db)"
      using new(3) unfolding ids .
    show "db_deployments db' = db_deployments (retireCurrent DeploymentSuperseded (boundID b) db) @ [d]"
      unfolding same(1) new(2) db1_def by simp
    show "regionsOf db' = (regionsOf db)(dep_ID d := map_of (di_Replicas inp))" by (rule counts)
    show "db_replicas db' = db_replicas db" "db_volumes db' = db_volumes db" "db_served db' = db_served db"
      unfolding same new(2) by (simp_all add: db1_def)
  qed
qed

lemma current_deploymentsOf_retired: "filter dep_IsCurrent (deploymentsOf (retireCurrent s esID db) esID) = []"
proof -
  have "filter dep_IsCurrent (filter (\<lambda>d. dep_EnvironmentServiceID d = esID) (map (\<lambda>d.
      if dep_EnvironmentServiceID d = esID \<and> dep_IsCurrent d then d\<lparr>dep_IsCurrent := False, dep_Status := s\<rparr> else d) ds)) = []" for ds
    by (induction ds) auto
  moreover have "db_deployments (db\<lparr>db_deployments := x\<rparr>) = x" for x by simp
  ultimately show ?thesis by (simp only: deploymentsOf_def retireCurrent_simps)
qed

section \<open>Rolling back\<close>

lemma map_of_updates: "map_of (foldl (\<lambda>m (k, v). AList.update k v m) m0 xs) = map_of m0 ++ map_of (rev xs)"
  by (induction xs arbitrary: m0) (auto simp: update_conv' fun_eq_iff map_add_def split: option.splits)

lemma map_of_zeros: "map_of (foldl (\<lambda>m (k, v). AList.update k 0 m) m0 xs) k =
    (if k \<in> fst ` set xs then Some 0 else map_of m0 k)"
  by (induction xs arbitrary: m0) (auto simp: update_conv')

lemma keys_updates: "fst ` set (foldl (\<lambda>m (k, v). AList.update k (f v) m) m0 xs) = fst ` set m0 \<union> fst ` set xs"
  by (induction xs arbitrary: m0) (auto simp: update_conv' dom_map_of_conv_image_fst [symmetric])

lemma map_of_rev_distinct: "distinct (map fst xs) \<Longrightarrow> map_of (rev xs) = map_of xs"
  by (subst map_of_inject_set) (simp_all add: rev_map [symmetric])

text \<open>A listing of a deployment's regions has each region once and the counts of the table.\<close>

lemma ListDeploymentRegions_Inr:
  assumes "db_wf db"
  shows "ListDeploymentRegions i db = Inr (rows, db') \<Longrightarrow> db' = db \<and> distinct (map fst rows) \<and> map_of rows = regionsOf db i"
proof -
  let ?own = "filter (\<lambda>r. dr_DeploymentID r = i) (db_deploymentRegions db)"
  let ?row = "\<lambda>r. (dr_Region r, dr_Replicas r)"
  assume "ListDeploymentRegions i db = Inr (rows, db')"
  then have rows: "rows = map ?row (sort_key dr_Region ?own)" and db': "db' = db"
    by (simp_all add: ListDeploymentRegions_def q_ListDeploymentRegions_def)
  have "distinct (map (\<lambda>d. (dr_DeploymentID d, dr_Region d)) ?own)"
    using assms distinct_map_filter by (fastforce simp: db_wf_def keys_ok_def)
  then have own: "distinct (map dr_Region ?own)"
    by (simp add: distinct_map inj_on_def)
  have "mset (map dr_Region (sort_key dr_Region ?own)) = mset (map dr_Region ?own)" by simp
  with own have "distinct (map dr_Region (sort_key dr_Region ?own))"
    by (metis mset_eq_imp_distinct_iff)
  moreover from own calculation have "map_of rows = map_of (map ?row ?own)"
    unfolding rows by (subst map_of_inject_set) (simp_all add: comp_def)
  ultimately show ?thesis
    unfolding regionsOf_def by (simp add: rows db' comp_def)
qed

text \<open>What a rollback makes of two versions' counts.\<close>

definition carried :: "(string \<rightharpoonup> int) \<Rightarrow> (string \<rightharpoonup> int) \<Rightarrow> string \<rightharpoonup> int" where
  "carried from to r = (case from r of Some n \<Rightarrow> Some n | None \<Rightarrow> map_option (\<lambda>_. 0) (to r))"

lemma map_of_zeros_option: "map_of (foldl (\<lambda>m (k, v). AList.update k 0 m) [] xs) k = map_option (\<lambda>_. 0) (map_of xs k)"
  by (cases "map_of xs k") (auto simp: map_of_zeros map_of_eq_None_iff intro: map_of_SomeD rev_image_eqI dest: map_of_SomeD)

lemma carriedCounts_map_of:
  "distinct (map fst fr) \<Longrightarrow> map_of (carriedCounts fr to) = carried (map_of fr) (map_of to)"
  unfolding carriedCounts_def map_of_updates
  by (auto simp: map_of_zeros_option map_of_rev_distinct carried_def fun_eq_iff map_add_def split: option.splits)

lemma carryRegionCounts_Inr:
  assumes "carryRegionCounts i j db = Inr (u, db')" "db_wf db"
  shows "regionsOnly db db' \<and> regionsOf db' = (regionsOf db)(j := carried (regionsOf db i) (regionsOf db j))"
proof -
  obtain fr to db1 db2 where l1: "ListDeploymentRegions i db = Inr (fr, db1)"
    and l2: "ListDeploymentRegions j db1 = Inr (to, db2)" and set: "setRegions j (carriedCounts fr to) db2 = Inr (u, db')"
    using assms(1) by (auto simp: carryRegionCounts_def op_bind_Inr)
  note f = ListDeploymentRegions_Inr [OF assms(2) l1]
  then have db1: "db1 = db" by simp
  note t = ListDeploymentRegions_Inr [OF assms(2) l2 [unfolded db1]]
  then have db2: "db2 = db" by simp
  note out = setRegions_Inr [OF set [unfolded db2]]
  have m: "map_of (carriedCounts fr to) = carried (regionsOf db i) (regionsOf db j)"
    using f t by (simp add: carriedCounts_map_of)
  have "regionsOf db j ++ carried (regionsOf db i) (regionsOf db j) = carried (regionsOf db i) (regionsOf db j)"
    by (auto simp: fun_eq_iff map_add_def carried_def split: option.splits)
  then show ?thesis
    using out(1,2) unfolding m by simp
qed

lemma queryRow_filter: "mapError f (queryRow (\<lambda>db. map g (filter P (rows db)))) db = Inr (x, db') \<longleftrightarrow>
    db' = db \<and> (\<exists>r. find P (rows db) = Some r \<and> x = g r)"
  by (auto simp: queryRow_Inr Cons_eq_map_conv map_eq_Cons_conv filter_Cons_find [symmetric])

lemma rev_sort_Cons:
  fixes xs :: "int list"
  assumes "rev (sort xs) = v # vs"
  shows "v \<in> set xs \<and> (\<forall>w \<in> set xs. w \<le> v)"
proof -
  have "sort xs = rev vs @ [v]" using arg_cong [OF assms, of rev] by simp
  moreover have "sorted (sort xs)" "set (sort xs) = set xs" by simp_all
  ultimately have "sorted (rev vs @ [v])" "set (rev vs @ [v]) = set xs" by (simp_all only:)
  then show ?thesis by (fastforce simp: sorted_append)
qed

lemma PreviousDeploymentVersion_Inr:
  assumes "PreviousDeploymentVersion e n db = Inr (v, db')"
  shows "db' = db \<and> v < n \<and> (\<exists>d \<in> set (deploymentsOf db e). dep_Version d = v)
    \<and> (\<forall>d \<in> set (deploymentsOf db e). dep_Version d < n \<longrightarrow> dep_Version d \<le> v)"
proof -
  obtain vs where "db' = db" and "rev (sort (map dep_Version (filter (\<lambda>d. dep_Version d < n) (deploymentsOf db e)))) = v # vs"
    using assms by (auto simp: PreviousDeploymentVersion_def q_PreviousDeploymentVersion_def queryRow_Inr)
  with rev_sort_Cons [OF this(2)] show ?thesis by auto
qed

text \<open>The pointer moved from one deployment to another.\<close>

definition repoint :: "DeploymentRow \<Rightarrow> DeploymentRow \<Rightarrow> DeploymentRow \<Rightarrow> DeploymentRow" where
  "repoint cur tgt d =
     (if d = tgt then d\<lparr>dep_IsCurrent := True, dep_Status := DeploymentPending\<rparr>
      else if d = cur then d\<lparr>dep_IsCurrent := False, dep_Status := DeploymentRolledBack\<rparr> else d)"

lemma repoint_rows:
  assumes "db_wf db" "cur \<in> set (deploymentsOf db e)" "dep_IsCurrent cur" "tgt \<in> set (deploymentsOf db e)" "tgt \<noteq> cur"
  shows "map (\<lambda>d. if dep_ID d = dep_ID tgt then d\<lparr>dep_IsCurrent := True, dep_Status := DeploymentPending\<rparr> else d)
      (db_deployments (retireCurrent DeploymentRolledBack e db)) = map (repoint cur tgt) (db_deployments db)"
proof -
  have key: "dep_ID d = dep_ID tgt \<longleftrightarrow> d = tgt" if "d \<in> set (db_deployments db)" for d
    using db_wf_rows(9) [OF assms(1)] assms(4) that by (auto simp: distinct_map inj_on_def deploymentsOf_def)
  have one: "dep_EnvironmentServiceID d = e \<and> dep_IsCurrent d \<longleftrightarrow> d = cur" if "d \<in> set (db_deployments db)" for d
  proof -
    have "distinct (map dep_EnvironmentServiceID (filter dep_IsCurrent (db_deployments db)))"
      using assms(1) by (simp add: db_wf_def one_current_def)
    with that assms(2,3) show ?thesis by (auto simp: distinct_map inj_on_def deploymentsOf_def)
  qed
  have "(\<lambda>d. if dep_ID d = dep_ID tgt then d\<lparr>dep_IsCurrent := True, dep_Status := DeploymentPending\<rparr> else d)
      (if dep_EnvironmentServiceID d = e \<and> dep_IsCurrent d then d\<lparr>dep_IsCurrent := False, dep_Status := DeploymentRolledBack\<rparr> else d)
    = repoint cur tgt d" if "d \<in> set (db_deployments db)" for d
    unfolding repoint_def one [OF that] using key [OF that] key [of cur] assms(2,5) by (auto simp: deploymentsOf_def)
  then show ?thesis
    unfolding retireCurrent_simps by (simp cong: map_cong)
qed

lemma GetCurrentDeployment_Inr:
  "GetCurrentDeployment e db = Inr (x, db') \<longleftrightarrow> db' = db \<and>
     (\<exists>d. find dep_IsCurrent (deploymentsOf db e) = Some d \<and> x = (dep_ID d, dep_Version d))"
  unfolding GetCurrentDeployment_def q_GetCurrentDeployment_def by (rule queryRow_filter)

lemma GetDeploymentByVersion_Inr:
  "GetDeploymentByVersion e n db = Inr (x, db') \<longleftrightarrow> db' = db \<and>
     (\<exists>d. find (\<lambda>d. dep_Version d = n) (deploymentsOf db e) = Some d \<and> x = (dep_ID d, dep_Version d))"
  unfolding GetDeploymentByVersion_def q_GetDeploymentByVersion_def by (rule queryRow_filter)

lemma if_apply: "(if b then m else n) s = (if b then m s else n s)"
  by simp

lemma rollbackTo_Inr:
  "rollbackTo e i v n db = Inr (res, db') \<longleftrightarrow> n \<noteq> v \<and> (\<exists>depID depV db1 db2.
     GetDeploymentByVersion e n db = Inr ((depID, depV), db1) \<and> carryRegionCounts i depID db1 = Inr ((), db2)
     \<and> SetDeploymentCurrent depID (retireCurrent DeploymentRolledBack e db2) = Inr ((), db')
     \<and> res = \<lparr>rbr_From = v, rbr_To = depV\<rparr>)"
  unfolding rollbackTo_def
  by (auto simp: op_bind_Inr op_seq_Inr MarkCurrentRolledBack_def simp del: retireCurrent_simps)

lemma rollbackTarget_Inr:
  "rollbackTarget e v n db = Inr (target, db') \<longleftrightarrow>
     (if n = 0 then PreviousDeploymentVersion e v db = Inr (target, db') else target = n \<and> db' = db)"
  by (auto simp: rollbackTarget_def)

lemma rollback_steps:
  "rollback inp db = Inr (res, db') \<longleftrightarrow> (\<exists>b v i target db1 db2. boundTo db (rb_Target inp) = Some b
    \<and> GetCurrentDeployment (boundID b) db = Inr ((i, v), db1)
    \<and> rollbackTarget (boundID b) v (rb_ToVersion inp) db1 = Inr (target, db2)
    \<and> rollbackTo (boundID b) i v target db2 = Inr (res, db'))"
  unfolding rollback_def by (auto simp: op_bind_Inr envService_Inr)

lemma rollback_Inr:
  assumes "rollback inp db = Inr (res, db')" and wf: "project_wf db"
  obtains b cur tgt where "boundTo db (rb_Target inp) = Some b"
    and "find dep_IsCurrent (deploymentsOf db (boundID b)) = Some cur" "dep_Version cur = rbr_From res"
    and "find (\<lambda>d. dep_Version d = rbr_To res) (deploymentsOf db (boundID b)) = Some tgt"
    and "rbr_To res \<noteq> rbr_From res"
    and "rb_ToVersion inp \<noteq> 0 \<Longrightarrow> rbr_To res = rb_ToVersion inp"
    and "rb_ToVersion inp = 0 \<Longrightarrow> rbr_To res < rbr_From res
          \<and> (\<forall>d \<in> set (deploymentsOf db (boundID b)). dep_Version d < rbr_From res \<longrightarrow> dep_Version d \<le> rbr_To res)"
    and "db_deployments db' = map (repoint cur tgt) (db_deployments db)"
    and "regionsOf db' = (regionsOf db)(dep_ID tgt := carried (regionsOf db (dep_ID cur)) (regionsOf db (dep_ID tgt)))"
    and "db_replicas db' = db_replicas db" "db_volumes db' = db_volumes db" "db_served db' = db_served db"
    and "bindings db' = bindings db" "db_regions db' = db_regions db"
proof -
  have dbwf: "db_wf db" using wf by (simp add: project_wf_def)
  obtain b v i target depID depV db1 db2 db3 db4 where b: "boundTo db (rb_Target inp) = Some b"
    and cur: "GetCurrentDeployment (boundID b) db = Inr ((i, v), db1)"
    and target: "if rb_ToVersion inp = 0 then PreviousDeploymentVersion (boundID b) v db1 = Inr (target, db2)
        else target = rb_ToVersion inp \<and> db2 = db1" "target \<noteq> v"
    and dep: "GetDeploymentByVersion (boundID b) target db2 = Inr ((depID, depV), db3)"
    and carry: "carryRegionCounts i depID db3 = Inr ((), db4)"
    and final: "SetDeploymentCurrent depID (retireCurrent DeploymentRolledBack (boundID b) db4) = Inr ((), db')"
    and res: "res = \<lparr>rbr_From = v, rbr_To = depV\<rparr>"
    using assms(1) unfolding rollback_steps rollbackTarget_Inr rollbackTo_Inr by blast
  obtain c where c: "find dep_IsCurrent (deploymentsOf db (boundID b)) = Some c" "i = dep_ID c" "v = dep_Version c"
    and db1: "db1 = db" using cur unfolding GetCurrentDeployment_Inr by auto
  have db2: "db2 = db"
    using target(1) unfolding db1 by (auto split: if_splits dest: PreviousDeploymentVersion_Inr)
  obtain t where t: "find (\<lambda>d. dep_Version d = target) (deploymentsOf db (boundID b)) = Some t" "depID = dep_ID t" "depV = dep_Version t"
    and db3: "db3 = db" using dep unfolding db2 GetDeploymentByVersion_Inr by auto
  have tv: "dep_Version t = target" and tin: "t \<in> set (deploymentsOf db (boundID b))" using find_Some_set [OF t(1)] by simp_all
  have cin: "c \<in> set (deploymentsOf db (boundID b))" "dep_IsCurrent c" using find_Some_set [OF c(1)] by simp_all
  note carried = carryRegionCounts_Inr [OF carry [unfolded db3] dbwf]
  note same = regionsOnly_fields [OF conjunct1 [OF carried]]
  have ne: "t \<noteq> c" using target(2) tv c(3) by auto
  have rows: "db_deployments db' = map (repoint c t) (db_deployments db)"
    using final repoint_rows [OF dbwf cin tin ne] unfolding SetDeploymentCurrent_Inr t(2)
    by (simp add: same)
  have regions: "db_deploymentRegions db' = db_deploymentRegions db4" and frame: "db_replicas db' = db_replicas db4"
      "db_volumes db' = db_volumes db4" "db_served db' = db_served db4" "db_environmentServices db' = db_environmentServices db4"
      "db_environments db' = db_environments db4" "db_services db' = db_services db4" "db_regions db' = db_regions db4"
    using final unfolding SetDeploymentCurrent_Inr by auto
  show thesis
  proof (rule that [OF b c(1)])
    show "dep_Version c = rbr_From res" using c(3) by (simp add: res)
    show "find (\<lambda>d. dep_Version d = rbr_To res) (deploymentsOf db (boundID b)) = Some t" using t tv by (simp add: res)
    show "rbr_To res \<noteq> rbr_From res" using target(2) t(3) tv by (simp add: res)
    show "rb_ToVersion inp \<noteq> 0 \<Longrightarrow> rbr_To res = rb_ToVersion inp" using target(1) t(3) tv by (simp add: res)
    show "rb_ToVersion inp = 0 \<Longrightarrow> rbr_To res < rbr_From res
          \<and> (\<forall>d \<in> set (deploymentsOf db (boundID b)). dep_Version d < rbr_From res \<longrightarrow> dep_Version d \<le> rbr_To res)"
      using target(1) t(3) tv PreviousDeploymentVersion_Inr [of "boundID b" v db1 target db2] by (simp add: res db1)
    show "db_deployments db' = map (repoint c t) (db_deployments db)" by (rule rows)
    show "regionsOf db' = (regionsOf db)(dep_ID t := carried (regionsOf db (dep_ID c)) (regionsOf db (dep_ID t)))"
      using carried regionsOf_cong [OF regions] by (simp add: c(2) t(2))
    show "db_replicas db' = db_replicas db" "db_volumes db' = db_volumes db" "db_served db' = db_served db"
      "bindings db' = bindings db" "db_regions db' = db_regions db"
      using same frame by (simp_all add: bindings_def)
  qed
qed

lemma find_unique: "x \<in> set xs \<Longrightarrow> P x \<Longrightarrow> (\<And>y. y \<in> set xs \<Longrightarrow> P y \<Longrightarrow> y = x) \<Longrightarrow> find P xs = Some x"
proof (cases "find P xs")
  case None
  assume "x \<in> set xs" "P x"
  with None show ?thesis by (auto simp: find_None_iff)
next
  case (Some y)
  assume "\<And>y. y \<in> set xs \<Longrightarrow> P y \<Longrightarrow> y = x"
  then have "y = x" using find_Some_set [OF Some] by blast
  with Some show ?thesis by simp
qed

lemma current_unique:
  assumes "db_wf db" "x \<in> set (deploymentsOf db e)" "dep_IsCurrent x"
  shows "find dep_IsCurrent (deploymentsOf db e) = Some x"
proof (rule find_unique [where P = dep_IsCurrent])
  show "x \<in> set (deploymentsOf db e)" "dep_IsCurrent x" by (fact assms)+
  have "distinct (map dep_EnvironmentServiceID (filter dep_IsCurrent (db_deployments db)))"
    using assms(1) by (simp add: db_wf_def one_current_def)
  then show "\<And>y. y \<in> set (deploymentsOf db e) \<Longrightarrow> dep_IsCurrent y \<Longrightarrow> y = x"
    using assms(2,3) by (auto simp: distinct_map inj_on_def deploymentsOf_def)
qed

lemma version_unique:
  assumes "deployments_wf db" "x \<in> set (deploymentsOf db e)"
  shows "find (\<lambda>d. dep_Version d = dep_Version x) (deploymentsOf db e) = Some x"
proof (rule find_unique [where P = "\<lambda>d. dep_Version d = dep_Version x"])
  show "x \<in> set (deploymentsOf db e)" by (rule assms(2))
  have "inj_on (\<lambda>d. (dep_EnvironmentServiceID d, dep_Version d)) (set (db_deployments db))"
    using assms(1) by (simp add: deployments_wf_def distinct_map)
  then show "y = x" if "y \<in> set (deploymentsOf db e)" "dep_Version y = dep_Version x" for y
    using that assms(2) by (auto simp: deploymentsOf_def dest: inj_onD)
qed simp

lemma regionsOf_ok: "deployments_wf db \<Longrightarrow> regionsOf db i r = Some n \<Longrightarrow> 0 \<le> n \<and> r \<in> set (db_regions db)"
  unfolding regionsOf_def by (drule map_of_SomeD) (auto simp: deployments_wf_def region_ok_def)

lemma SetDeploymentRegion_succeeds:
  "0 \<le> n \<Longrightarrow> i \<in> dep_ID ` set (db_deployments db) \<Longrightarrow> r \<in> set (db_regions db) \<Longrightarrow> \<exists>db'. SetDeploymentRegion i r n db = Inr ((), db')"
  by (auto simp: SetDeploymentRegion_def q_SetDeploymentRegion_def)

lemma setRegions_succeeds:
  assumes "i \<in> dep_ID ` set (db_deployments db)" "\<And>r. r \<in> fst ` set counts \<Longrightarrow> 0 \<le> countAt counts r \<and> r \<in> set (db_regions db)"
  shows "\<exists>db'. setRegions i counts db = Inr ((), db')"
proof -
  have "\<exists>db'. op_each (\<lambda>region. st (SetDeploymentRegion i region (countAt counts region))) rs db = Inr ((), db')"
    if "set rs \<subseteq> fst ` set counts" "i \<in> dep_ID ` set (db_deployments db)"
      "\<forall>r \<in> fst ` set counts. 0 \<le> countAt counts r \<and> r \<in> set (db_regions db)" for rs db
    using that
  proof (induction rs arbitrary: db)
    case (Cons r rs)
    then obtain db1 where one: "SetDeploymentRegion i r (countAt counts r) db = Inr ((), db1)"
      using SetDeploymentRegion_succeeds [of "countAt counts r" i db r] by auto
    note same = regionsOnly_fields [OF conjunct1 [OF conjunct2 [OF SetDeploymentRegion_Inr [OF one]]]]
    have "\<exists>db'. op_each (\<lambda>region. st (SetDeploymentRegion i region (countAt counts region))) rs db1 = Inr ((), db')"
      by (rule Cons.IH) (use Cons.prems same in auto)
    with one show ?case by (auto simp: op_seq_Inr)
  qed (auto simp: op_ok_def)
  from this [of "sortedRegions counts" db] assms show ?thesis by (simp add: setRegions_def)
qed

lemma carryRegionCounts_succeeds:
  assumes "project_wf db" "j \<in> dep_ID ` set (db_deployments db)"
  shows "\<exists>db'. carryRegionCounts i j db = Inr ((), db')"
proof -
  have wf: "db_wf db" "deployments_wf db" using assms(1) by (simp_all add: project_wf_def)
  obtain fr where fr: "ListDeploymentRegions i db = Inr (fr, db)"
    by (auto simp: ListDeploymentRegions_def q_ListDeploymentRegions_def)
  obtain to where to: "ListDeploymentRegions j db = Inr (to, db)"
    by (auto simp: ListDeploymentRegions_def q_ListDeploymentRegions_def)
  have m: "map_of (carriedCounts fr to) = carried (regionsOf db i) (regionsOf db j)"
    using ListDeploymentRegions_Inr [OF wf(1) fr] ListDeploymentRegions_Inr [OF wf(1) to] by (simp add: carriedCounts_map_of)
  have "0 \<le> countAt (carriedCounts fr to) r \<and> r \<in> set (db_regions db)" if "r \<in> fst ` set (carriedCounts fr to)" for r
    using countAt_key [OF that] regionsOf_ok [OF wf(2), of i r] regionsOf_ok [OF wf(2), of j r]
    unfolding m by (auto simp: carried_def split: option.splits)
  then obtain db' where "setRegions j (carriedCounts fr to) db = Inr ((), db')"
    using setRegions_succeeds [OF assms(2)] by blast
  with fr to show ?thesis by (auto simp: carryRegionCounts_def op_bind_Inr)
qed

lemma repoint_simps [simp]:
  "dep_ID (repoint c t d) = dep_ID d" "dep_EnvironmentServiceID (repoint c t d) = dep_EnvironmentServiceID d"
  "dep_Version (repoint c t d) = dep_Version d"
  by (simp_all add: repoint_def)

lemma repoint_current: "t \<noteq> c \<Longrightarrow> dep_IsCurrent (repoint c t d) \<longleftrightarrow> d = t \<or> d \<noteq> c \<and> dep_IsCurrent d"
  by (auto simp: repoint_def)

lemma repoint_one_current:
  assumes "db_wf db" "c \<in> set (deploymentsOf db e)" "dep_IsCurrent c" "t \<in> set (deploymentsOf db e)" "t \<noteq> c"
  shows "distinct (map dep_EnvironmentServiceID (filter dep_IsCurrent (map (repoint c t) (db_deployments db))))"
proof -
  have one: "inj_on dep_EnvironmentServiceID (set (filter dep_IsCurrent (db_deployments db)))"
    using assms(1) by (simp add: db_wf_def one_current_def distinct_map)
  have "distinct (map dep_ID (map (repoint c t) (db_deployments db)))"
    using db_wf_rows(9) [OF assms(1)] by (simp add: comp_def)
  then have "distinct (map (repoint c t) (db_deployments db))"
    using distinct_map by blast
  moreover have "inj_on dep_EnvironmentServiceID (set (filter dep_IsCurrent (map (repoint c t) (db_deployments db))))"
  proof (rule inj_onI)
    fix x y
    assume "x \<in> set (filter dep_IsCurrent (map (repoint c t) (db_deployments db)))"
      and "y \<in> set (filter dep_IsCurrent (map (repoint c t) (db_deployments db)))"
      and es: "dep_EnvironmentServiceID x = dep_EnvironmentServiceID y"
    then obtain a b where a: "x = repoint c t a" "a \<in> set (db_deployments db)" "a = t \<or> a \<noteq> c \<and> dep_IsCurrent a"
      and b: "y = repoint c t b" "b \<in> set (db_deployments db)" "b = t \<or> b \<noteq> c \<and> dep_IsCurrent b"
      using repoint_current [OF assms(5)] by auto
    have eq: "dep_EnvironmentServiceID a = dep_EnvironmentServiceID b" using es a b by simp
    have ct: "dep_EnvironmentServiceID c = e" "dep_EnvironmentServiceID t = e" "c \<in> set (db_deployments db)"
      using assms(2,4) by (auto simp: deploymentsOf_def)
    have cur: "u = v" if "u \<in> set (db_deployments db)" "v \<in> set (db_deployments db)" "dep_IsCurrent u" "dep_IsCurrent v"
      "dep_EnvironmentServiceID u = dep_EnvironmentServiceID v" for u v
      using inj_onD [OF one that(5)] that by auto
    have "a = b"
      using a(2,3) b(2,3) eq ct assms(3) cur by metis
    then show "x = y" by (simp add: a b)
  qed
  ultimately show ?thesis by (simp add: distinct_map)
qed

text \<open>A rollback to any other version of the target succeeds.\<close>

lemma rollback_succeeds:
  assumes wf: "project_wf db" and b: "boundTo db tg = Some b" and c: "find dep_IsCurrent (deploymentsOf db (boundID b)) = Some c"
    and t: "t \<in> set (deploymentsOf db (boundID b))" and n: "dep_Version t \<noteq> 0" "dep_Version t \<noteq> dep_Version c"
  shows "\<exists>db'. rollback \<lparr>rb_Target = tg, rb_ToVersion = dep_Version t\<rparr> db
    = Inr (\<lparr>rbr_From = dep_Version c, rbr_To = dep_Version t\<rparr>, db')"
proof -
  let ?e = "boundID b"
  have dbwf: "db_wf db" and dwf: "deployments_wf db" using wf by (simp_all add: project_wf_def)
  have ft: "find (\<lambda>d. dep_Version d = dep_Version t) (deploymentsOf db ?e) = Some t" by (rule version_unique [OF dwf t])
  have cin: "c \<in> set (deploymentsOf db ?e)" "dep_IsCurrent c" using find_Some_set [OF c] by simp_all
  have "dep_ID t \<in> dep_ID ` set (db_deployments db)" using t by (auto simp: deploymentsOf_def)
  then obtain db1 where carry: "carryRegionCounts (dep_ID c) (dep_ID t) db = Inr ((), db1)"
    using carryRegionCounts_succeeds [OF wf] by blast
  note same = regionsOnly_fields [OF conjunct1 [OF carryRegionCounts_Inr [OF carry dbwf]]]
  have ne: "t \<noteq> c" using n(2) by auto
  define db2 where "db2 = retireCurrent DeploymentRolledBack ?e db1"
  define db3 where "db3 = db2\<lparr>db_deployments := map (repoint c t) (db_deployments db)\<rparr>"
  have "db_deployments db2 = db_deployments (retireCurrent DeploymentRolledBack ?e db)"
    by (simp add: db2_def same)
  then have "db3 = db2\<lparr>db_deployments := map (\<lambda>d. if dep_ID d = dep_ID t then d\<lparr>dep_IsCurrent := True, dep_Status := DeploymentPending\<rparr>
      else d) (db_deployments db2)\<rparr>"
    unfolding db3_def using repoint_rows [OF dbwf cin t ne] by simp
  moreover have "one_current db3"
    using repoint_one_current [OF dbwf cin t ne] by (simp add: db3_def one_current_def)
  ultimately have "SetDeploymentCurrent (dep_ID t) db2 = Inr ((), db3)"
    unfolding SetDeploymentCurrent_Inr by blast
  then have "rollbackTo ?e (dep_ID c) (dep_Version c) (dep_Version t) db = Inr (\<lparr>rbr_From = dep_Version c, rbr_To = dep_Version t\<rparr>, db3)"
    unfolding rollbackTo_Inr GetDeploymentByVersion_Inr using n ft carry unfolding db2_def by blast
  moreover have "GetCurrentDeployment ?e db = Inr ((dep_ID c, dep_Version c), db)"
    unfolding GetCurrentDeployment_Inr using c by blast
  moreover have "rollbackTarget ?e (dep_Version c) (dep_Version t) db = Inr (dep_Version t, db)"
    unfolding rollbackTarget_Inr using n(1) by simp
  ultimately have "rollback \<lparr>rb_Target = tg, rb_ToVersion = dep_Version t\<rparr> db
    = Inr (\<lparr>rbr_From = dep_Version c, rbr_To = dep_Version t\<rparr>, db3)"
    unfolding rollback_steps RollbackInput.select_convs using b by blast
  then show ?thesis by blast
qed

end
