(* ===== verification/ProjectKeeps.thy ===== *)
theory ProjectKeeps
  imports ProjectCorrect
begin

text \<open>
  Every operator command keeps the database sound: the writes to the naming tree and to the volumes,
  and the commands as the sequences of transactions they are.
\<close>

section \<open>The naming tree\<close>

text \<open>Rows of tables no constraint of the invariant mentions, or that only grow.\<close>

lemma project_wf_names:
  assumes "project_wf db"
  shows "project_wf (db\<lparr>db_projects := ps\<rparr>)"
    and "project_wf (db\<lparr>db_environments := es, db_next := n\<rparr>)"
  using assms
  by (simp_all add: project_wf_def deployments_wf_def deployment_ok_def region_ok_def db_wf_def keys_ok_def
      one_current_def refs_ok_def replica_refs_def rows_ok_def)

lemma project_wf_services:
  "project_wf db \<Longrightarrow> distinct (map svc_ID ss) \<Longrightarrow> project_wf (db\<lparr>db_services := ss, db_next := n\<rparr>)"
  by (simp add: project_wf_def deployments_wf_def deployment_ok_def region_ok_def db_wf_def keys_ok_def
      one_current_def refs_ok_def replica_refs_def rows_ok_def)

lemma project_wf_bindings:
  "project_wf db \<Longrightarrow> distinct (map es_ID bs) \<Longrightarrow> es_ID ` set (db_environmentServices db) \<subseteq> es_ID ` set bs \<Longrightarrow>
   project_wf (db\<lparr>db_environmentServices := bs, db_next := n\<rparr>)"
  by (auto simp: project_wf_def deployments_wf_def deployment_ok_def region_ok_def db_wf_def keys_ok_def
      one_current_def refs_ok_def replica_refs_def rows_ok_def)

lemma keeps_CreateProject [keeps]: "op_keeps project_wf (CreateProject name)"
  by (rule op_keepsI) (auto simp: CreateProject_def q_CreateProject_def Let_def project_wf_names split: if_splits)

lemma keeps_CreateEnvironment [keeps]: "op_keeps project_wf (CreateEnvironment p name)"
proof (rule op_keepsI)
  fix db x db'
  assume wf: "project_wf db" and "CreateEnvironment p name db = Inr (x, db')"
  then have "db' = db\<lparr>db_environments := db_environments db @ [x], db_next := Suc (db_next db)\<rparr>"
    by (cases db) (auto simp: CreateEnvironment_def q_CreateEnvironment_def freshID_def Let_def split: if_splits)
  with project_wf_names(2) [OF wf] show "project_wf db'" by simp
qed

lemma keeps_CreateService [keeps]: "op_keeps project_wf (CreateService p name stateful)"
proof (rule op_keepsI)
  fix db x db'
  assume wf: "project_wf db" and "CreateService p name stateful db = Inr (x, db')"
  then have db': "db' = db\<lparr>db_services := db_services db @ [x], db_next := Suc (db_next db)\<rparr>"
    and "svc_ID x \<notin> svc_ID ` set (db_services db)"
    by (cases db; auto simp: CreateService_def q_CreateService_def freshID_def Let_def split: if_splits)+
  with wf show "project_wf db'"
    unfolding db' by (intro project_wf_services) (simp_all add: project_wf_def db_wf_def keys_ok_def)
qed

lemma q_AddServiceToEnvironment_Inr:
  assumes "q_AddServiceToEnvironment e s src db = Inr (x, db')"
  shows "db' = db\<lparr>db_environmentServices := db_environmentServices db @ [x], db_next := Suc (db_next db)\<rparr>"
    "es_ID x \<notin> es_ID ` set (db_environmentServices db)" "es_EnvironmentID x = e" "es_ServiceID x = s" "es_Source x = src"
  using assms by (cases db; auto simp: q_AddServiceToEnvironment_def freshID_def Let_def split: if_splits)+

lemma keeps_q_AddServiceToEnvironment: "op_keeps project_wf (q_AddServiceToEnvironment e s src)"
proof (rule op_keepsI)
  fix db x db'
  assume wf: "project_wf db" and ok: "q_AddServiceToEnvironment e s src db = Inr (x, db')"
  note new = q_AddServiceToEnvironment_Inr [OF ok]
  show "project_wf db'"
    unfolding new(1)
    by (rule project_wf_bindings [OF wf]) (use wf new(2) in \<open>auto simp: project_wf_def db_wf_def keys_ok_def\<close>)
qed

lemma keeps_AddServiceToEnvironment [keeps]: "op_keeps project_wf (AddServiceToEnvironment e s src)"
  unfolding AddServiceToEnvironment_def
  by (rule op_keeps_mapError) (rule op_keepsD [OF keeps_q_AddServiceToEnvironment])

lemma keeps_CloneEnvironmentServices [keeps]: "op_keeps project_wf (CloneEnvironmentServices src dst)"
  unfolding CloneEnvironmentServices_def
proof (rule op_keeps_mapError)
  fix db db' :: database and x
  let ?each = "\<lambda>bs. op_each (\<lambda>b. op_bind (q_AddServiceToEnvironment dst (es_ServiceID b) (es_Source b)) (\<lambda>_. op_ok ())) bs"
  let ?from = "filter (\<lambda>b. es_EnvironmentID b = src) (db_environmentServices db)"
  assume wf: "project_wf db" and ok: "q_CloneEnvironmentServices dst src db = Inr (x, db')"
  have each: "?each ?from db = Inr ((), db')"
  proof (cases "?each ?from db")
    case (Inl e)
    with ok show ?thesis by (simp add: q_CloneEnvironmentServices_def Let_def)
  next
    case (Inr r)
    with ok show ?thesis by (cases r) (simp add: q_CloneEnvironmentServices_def Let_def)
  qed
  have "op_keeps project_wf (?each bs)" for bs
    by (rule op_keeps_each, rule op_keeps_bind, rule keeps_q_AddServiceToEnvironment, rule op_keeps_ok)
  from op_keepsD [OF this wf each] show "project_wf db'" .
qed

section \<open>Volumes\<close>

lemma deployments_wf_volumes [simp]: "deployments_wf (db\<lparr>db_volumes := vs\<rparr>) \<longleftrightarrow> deployments_wf db"
  by (simp add: deployments_wf_def deployment_ok_def region_ok_def)

lemma keeps_CreateVolume [keeps]: "op_keeps project_wf (CreateVolume e name region mount n)"
proof (rule op_keepsI)
  fix db v db'
  assume wf: "project_wf db" and ok: "CreateVolume e name region mount n db = Inr (v, db')"
  then have db': "db' = db\<lparr>db_volumes := db_volumes db @ [v], db_next := Suc (db_next db)\<rparr>"
    and v: "vr_ID v \<notin> vr_ID ` set (db_volumes db)" "vr_HostID v = None" "vr_Status v = VolumePending" "0 < vr_DesiredSizeBytes v"
    by (cases db; auto simp: CreateVolume_def q_CreateVolume_def freshID_def Let_def split: if_splits)+
  have "db_wf (db\<lparr>db_volumes := db_volumes db @ [v]\<rparr>)"
    using wf v by (auto simp: project_wf_def db_wf_def keys_ok_def one_current_def refs_ok_def replica_refs_def rows_ok_def
        volume_ok_def placed_status_def)
  then have "project_wf ((db\<lparr>db_volumes := db_volumes db @ [v]\<rparr>)\<lparr>db_next := Suc (db_next db)\<rparr>)"
    using wf by (simp only: project_wf_def db_wf_next deployments_wf_next deployments_wf_volumes simp_thms)
  then show "project_wf db'" unfolding db' by simp
qed

lemma updateVolumeRow_Inr:
  assumes "updateVolumeRow P f db = Inr (x, db')"
  shows "\<exists>v vs. filter P (db_volumes db) = v # vs \<and> x = f v \<and> (\<forall>w \<in> set (db_volumes db). P w \<longrightarrow> volume_ok (f w))
    \<and> db' = snd (updateVolumes P f db)"
proof -
  obtain v vs where v: "filter P (db_volumes db) = v # vs" "x = f v" "db' = snd (updateVolumes P f db)"
    and ok: "\<forall>w \<in> set (v # vs). volume_ok (f w)"
    using assms by (auto simp: updateVolumeRow_def list_all_iff simp del: updateVolumes_simps split: list.splits if_splits)
  have "volume_ok (f w)" if "w \<in> set (db_volumes db)" "P w" for w
    using ok that unfolding v(1) [symmetric] by simp
  with v show ?thesis by blast
qed

lemma keeps_updateVolumeRow:
  assumes "\<And>v. vr_ID (f v) = vr_ID v \<and> vr_HostID (f v) = vr_HostID v \<and> vr_Status (f v) = vr_Status v"
  shows "op_keeps project_wf (updateVolumeRow P f)"
proof (rule op_keepsI)
  fix db x db'
  assume wf: "project_wf db" and ok: "updateVolumeRow P f db = Inr (x, db')"
  then have dbwf: "db_wf db" by (simp add: project_wf_def)
  from updateVolumeRow_Inr [OF ok] have vok: "\<And>w. w \<in> set (db_volumes db) \<Longrightarrow> P w \<Longrightarrow> volume_ok (f w)"
    and db': "db' = snd (updateVolumes P f db)" by auto
  have "db_wf (snd (updateVolumes P f db))"
    by (rule db_wf_updateVolumes [OF dbwf])
      (use assms vok dbwf in \<open>auto simp: placed_status_def db_wf_def refs_ok_def\<close>)
  then show "project_wf db'" using wf by (simp add: project_wf_def db')
qed

lemma keeps_volumeUpdates [keeps]:
  "op_keeps project_wf (UpdateVolumeSize e m n)" "op_keeps project_wf (RevertVolumeSize e m)"
  unfolding UpdateVolumeSize_def q_UpdateVolumeSize_def RevertVolumeSize_def q_RevertVolumeSize_def
  by (intro op_keeps_mapError; rule op_keepsD [OF keeps_updateVolumeRow]; simp)+

lemma q_DeleteVolume_Inr:
  assumes "q_DeleteVolume e m db = Inr (v, db')"
  shows "v \<in> set (db_volumes db)" "volumeHit e m v"
    "\<forall>r \<in> set (db_replicas db). \<forall>w \<in> set (db_volumes db). volumeHit e m w \<longrightarrow> rr_VolumeID r \<noteq> Some (vr_ID w)"
    "db' = db\<lparr>db_volumes := filter (\<lambda>w. \<not> volumeHit e m w) (db_volumes db),
      db_leases := filter (\<lambda>l. vl_VolumeID l \<notin> vr_ID ` set (filter (volumeHit e m) (db_volumes db))) (db_leases db)\<rparr>"
proof -
  obtain vs where vs: "filter (volumeHit e m) (db_volumes db) = v # vs"
    and free: "\<not> list_ex (\<lambda>r. case rr_VolumeID r of None \<Rightarrow> False | Some i \<Rightarrow> i \<in> set (map vr_ID (v # vs))) (db_replicas db)"
    and db': "db' = db\<lparr>db_volumes := filter (\<lambda>w. \<not> volumeHit e m w) (db_volumes db),
      db_leases := filter (\<lambda>l. vl_VolumeID l \<notin> set (map vr_ID (v # vs))) (db_leases db)\<rparr>"
    using assms by (auto simp: q_DeleteVolume_def Let_def simp del: list.map split: list.splits if_splits)
  have mem: "w \<in> set (v # vs) \<longleftrightarrow> w \<in> set (db_volumes db) \<and> volumeHit e m w" for w
    unfolding vs [symmetric] by auto
  then show "v \<in> set (db_volumes db)" "volumeHit e m v" by (meson list.set_intros(1))+
  show "\<forall>r \<in> set (db_replicas db). \<forall>w \<in> set (db_volumes db). volumeHit e m w \<longrightarrow> rr_VolumeID r \<noteq> Some (vr_ID w)"
  proof (intro ballI impI notI)
    fix r w
    assume "r \<in> set (db_replicas db)" "w \<in> set (db_volumes db)" "volumeHit e m w" "rr_VolumeID r = Some (vr_ID w)"
    with free mem [of w] show False by (auto simp: list_ex_iff)
  qed
  show "db' = db\<lparr>db_volumes := filter (\<lambda>w. \<not> volumeHit e m w) (db_volumes db),
      db_leases := filter (\<lambda>l. vl_VolumeID l \<notin> vr_ID ` set (filter (volumeHit e m) (db_volumes db))) (db_leases db)\<rparr>"
    unfolding db' vs by simp
qed

lemma keeps_DeleteVolume [keeps]: "op_keeps project_wf (DeleteVolume e m)"
  unfolding DeleteVolume_def
proof (rule op_keeps_mapError)
  fix db v db'
  assume wf: "project_wf db" and ok: "q_DeleteVolume e m db = Inr (v, db')"
  note del = q_DeleteVolume_Inr [OF ok]
  have dbwf: "db_wf db" using wf by (simp add: project_wf_def)
  have kept: "i \<in> vr_ID ` set (filter (\<lambda>w. \<not> volumeHit e m w) (db_volumes db))"
    if "i \<in> vr_ID ` set (db_volumes db)" "i \<notin> vr_ID ` set (filter (volumeHit e m) (db_volumes db))" for i
    using that by auto
  have refs: "replica_refs db' r" if "r \<in> set (db_replicas db)" for r
  proof -
    have "i \<in> vr_ID ` set (filter (\<lambda>w. \<not> volumeHit e m w) (db_volumes db))" if "rr_VolumeID r = Some i" for i
      using db_wf_rows(3) [OF dbwf \<open>r \<in> set (db_replicas db)\<close>] that del(3) \<open>r \<in> set (db_replicas db)\<close>
      by (intro kept) (auto simp: replica_refs_def)
    with db_wf_rows(3) [OF dbwf that] show ?thesis
      unfolding del(4) replica_refs_def by simp
  qed
  have "refs_ok db'"
    using refs kept dbwf unfolding refs_ok_def by (auto simp: del(4) db_wf_def refs_ok_def)
  moreover have "keys_ok db'" "one_current db'" "rows_ok db'"
    using dbwf by (simp_all add: del(4) db_wf_def keys_ok_def one_current_def rows_ok_def distinct_map_filter)
  moreover have "deployments_wf db'"
    using wf by (simp add: del(4) project_wf_def deployments_wf_def deployment_ok_def region_ok_def)
  ultimately show "project_wf db'" by (simp add: project_wf_def db_wf_def)
qed

section \<open>The commands\<close>

lemma keeps_environmentServiceID [keeps]: "op_keeps J (environmentServiceID t)"
  unfolding environmentServiceID_def by (rule op_keeps_bind, rule reads_keep, rule op_keeps_ok)

lemma keeps_createVolumeAt [keeps]: "op_keeps project_wf (createVolumeAt inp i)"
  unfolding createVolumeAt_def Let_def by (rule keeps_CreateVolume)

lemma keeps_addVolume [keeps]: "op_keeps project_wf (addVolume inp)"
  unfolding addVolume_def by (intro op_keeps_bind op_keeps_st keeps_environmentServiceID keeps_createVolumeAt)

lemma keeps_addService [keeps]: "op_keeps project_wf (addService inp source)"
  unfolding addService_def
  by (intro op_keeps_bind op_keeps_st reads_keep keeps_CreateService keeps_AddServiceToEnvironment op_keeps_ok)

lemma keeps_createProject: "op_keeps project_wf (createProject name env)"
  unfolding createProject_def by (intro op_keeps_bind op_keeps_st keeps_CreateProject keeps_CreateEnvironment op_keeps_ok)

lemma keeps_createEnvironment: "op_keeps project_wf (createEnvironment p src name)"
  unfolding createEnvironment_def
  by (intro op_keeps_bind op_keeps_if op_keeps_st reads_keep keeps_CreateEnvironment keeps_CloneEnvironmentServices op_keeps_ok)

lemma keeps_launch: "op_keeps project_wf (launch inp source dep)"
  unfolding launch_def
  by (intro op_keeps_bind op_keeps_seq op_keeps_option keeps_addService keeps_addVolume keeps_deploy op_keeps_ok)

lemma stmt_keeps: "op_keeps J m \<Longrightarrow> env_keeps J env \<Longrightarrow> run_keeps J (stmt env m)"
  unfolding stmt_def by (intro WithTx_keeps op_keeps_st)

lemma run_keeps_option:
  "run_keeps J m \<Longrightarrow> (\<And>x. run_keeps J (f x)) \<Longrightarrow> run_keeps J (case v of None \<Rightarrow> m | Some x \<Rightarrow> f x)"
  by (cases v) auto

lemma ResizeVolume_keeps: "env_keeps project_wf env \<Longrightarrow> run_keeps project_wf (ResizeVolume env t m n)"
  unfolding ResizeVolume_steps
  by (intro run_keeps_bind run_keeps_if run_keeps_option run_keeps_ok run_keeps_err stmt_keeps keeps_environmentServiceID
      reads_keep keeps_volumeUpdates)
    (auto simp: ListVolumesByHost_def intro: op_keepsI)

lemma RevertVolume_keeps:
  assumes "env_keeps project_wf env"
  shows "run_keeps project_wf (RevertVolume env t m)"
proof -
  have "run_keeps project_wf (\<lambda>ks. case stmt env (RevertVolumeSize i m) ks of
      (Inl e, ks') \<Rightarrow> (Inl (if e = ErrStore ErrNotFound then ErrInvalid else e), ks') | (Inr vol, ks') \<Rightarrow> (Inr vol, ks'))" for i
    using stmt_keeps [OF keeps_volumeUpdates(2) assms]
    by (auto simp: run_keeps_def split: prod.splits sum.splits)
  then show ?thesis
    unfolding RevertVolume_def
    by (intro run_keeps_bind run_keeps_if run_keeps_err stmt_keeps keeps_environmentServiceID reads_keep assms)
qed

lemma RemoveVolume_keeps: "env_keeps project_wf env \<Longrightarrow> run_keeps project_wf (RemoveVolume env t m)"
  unfolding RemoveVolume_def by (intro run_keeps_bind stmt_keeps keeps_environmentServiceID keeps_DeleteVolume)

lemma AddVolume_keeps: "env_keeps project_wf env \<Longrightarrow> run_keeps project_wf (AddVolume env inp)"
  unfolding AddVolume_def by (intro run_keeps_bind stmt_keeps keeps_environmentServiceID keeps_createVolumeAt)

text \<open>The commands that write, each the sequence of transactions it runs.\<close>

datatype command =
    CmdCreateProject string string
  | CmdCreateEnvironment string string string
  | CmdLaunch AddServiceInput "string option" "DeployInput option"
  | CmdCreateService string string bool
  | CmdBindService uuid uuid "string option"
  | CmdDeploy DeployInput
  | CmdRollback RollbackInput
  | CmdScale ScaleInput
  | CmdDown Target
  | CmdAddVolume AddVolumeInput
  | CmdResizeVolume Target string int
  | CmdRevertVolume Target string
  | CmdRemoveVolume Target string

definition noResult :: "('e, 's, 'a) steps \<Rightarrow> ('e, 's, unit) steps" where
  "noResult m = run_bind m (\<lambda>_. run_ok ())"

fun runCommand :: "(nat \<Rightarrow> database \<Rightarrow> database) \<Rightarrow> command \<Rightarrow> (projectError, database, unit) steps" where
  "runCommand env (CmdCreateProject name e) = noResult (WithTx env (createProject name e))"
| "runCommand env (CmdCreateEnvironment p src name) = noResult (WithTx env (createEnvironment p src name))"
| "runCommand env (CmdLaunch inp source dep) = noResult (LaunchService env inp source dep)"
| "runCommand env (CmdCreateService p name stateful) = noResult (stmt env (CreateService p name stateful))"
| "runCommand env (CmdBindService e s source) = noResult (BindService env e s source)"
| "runCommand env (CmdDeploy inp) = noResult (Service_Deploy env inp)"
| "runCommand env (CmdRollback inp) = noResult (Rollback env inp)"
| "runCommand env (CmdScale inp) = noResult (Scale env inp)"
| "runCommand env (CmdDown t) = noResult (WithTx env (down t))"
| "runCommand env (CmdAddVolume inp) = noResult (AddVolume env inp)"
| "runCommand env (CmdResizeVolume t m n) = noResult (ResizeVolume env t m n)"
| "runCommand env (CmdRevertVolume t m) = noResult (RevertVolume env t m)"
| "runCommand env (CmdRemoveVolume t m) = noResult (RemoveVolume env t m)"

lemma runCommand_keeps:
  assumes "env_keeps project_wf env"
  shows "run_keeps project_wf (runCommand env c)"
  by (cases c; simp only: runCommand.simps noResult_def LaunchService_def BindService_def Service_Deploy_def Rollback_def Scale_def;
      intro run_keeps_bind run_keeps_if run_keeps_ok run_keeps_err WithTx_keeps stmt_keeps keeps_createProject
        keeps_createEnvironment keeps_launch keeps_CreateService keeps_AddServiceToEnvironment keeps_deploy keeps_rollback
        keeps_scale keeps_down AddVolume_keeps ResizeVolume_keeps RevertVolume_keeps RemoveVolume_keeps assms)

end
