(* ===== verification/ProjectProperties.thy ===== *)
theory ProjectProperties
  imports ProjectKeeps
begin

text \<open>
  The properties of the operator's commands: rollbacks move the pointer and not the scale, and going
  back and forth changes nothing; the caps on stateful services; the life of a volume's size. The
  concrete database of the examples is one project with a stateless and a stateful service.
\<close>

section \<open>A concrete database\<close>

definition shop_deployment :: "uuid \<Rightarrow> uuid \<Rightarrow> int \<Rightarrow> DeploymentRow" where
  "shop_deployment i es v = \<lparr>dep_ID = i, dep_EnvironmentServiceID = es, dep_Version = v, dep_IsCurrent = True,
     dep_ImageRef = ''img'', dep_CpuMillicores = 250, dep_MemBytes = 1000, dep_Env = ''{}'', dep_Healthcheck = ''{}'',
     dep_DrainSeconds = 30, dep_RestartMax = 5, dep_CommitMessage = None, dep_CreatedBy = None,
     dep_Status = DeploymentActive, dep_CreatedAt = 1, dep_ProgressDeadline = 600\<rparr>"

definition shop_host :: HostRow where
  "shop_host = \<lparr>hr_ID = 9, hr_Region = ''us'', hr_Hostname = ''h'', hr_CpuMillicores = 4000, hr_MemBytes = 9000,
     hr_DiskBytes = 1000, hr_Labels = ''{}'', hr_Status = HostOpen, hr_LastHeartbeat = Some 90, hr_CreatedAt = 1,
     hr_HostHealthy = True, hr_DrainStartedAt = None\<rparr>"

definition shop_volume :: VolumeRow where
  "shop_volume = \<lparr>vr_ID = 5, vr_Name = ''data'', vr_MountPath = ''/data'', vr_Region = ''us'', vr_HostID = Some 9,
     vr_Backing = ''local'', vr_DesiredSizeBytes = 100, vr_ObservedSizeBytes = Some 100, vr_Status = VolumeAttached,
     vr_CreatedAt = 1, vr_PreviousDesiredSizeBytes = None, vr_EnvironmentServiceID = 12\<rparr>"

definition shop_db :: database where
  "shop_db = \<lparr>db_instances = [],
     db_deployments = [(shop_deployment 21 11 1)\<lparr>dep_IsCurrent := False\<rparr>, shop_deployment 22 11 2, shop_deployment 31 12 1],
     db_deploymentRegions = [\<lparr>dr_DeploymentID = 21, dr_Region = ''us'', dr_Replicas = 1\<rparr>,
        \<lparr>dr_DeploymentID = 22, dr_Region = ''eu'', dr_Replicas = 2\<rparr>, \<lparr>dr_DeploymentID = 31, dr_Region = ''us'', dr_Replicas = 1\<rparr>],
     db_environments = [\<lparr>env_ID = 1, env_ProjectName = ''p'', env_Name = ''e'', env_CreatedAt = 1\<rparr>],
     db_environmentServices = [\<lparr>es_ID = 11, es_EnvironmentID = 1, es_ServiceID = 2, es_Source = ''{}''\<rparr>,
        \<lparr>es_ID = 12, es_EnvironmentID = 1, es_ServiceID = 3, es_Source = ''{}''\<rparr>],
     db_hosts = [shop_host], db_projects = [\<lparr>pr_Name = ''p'', pr_CreatedAt = 1\<rparr>], db_regions = [''us'', ''eu''],
     db_replicas = [], db_served = [],
     db_services = [\<lparr>svc_ID = 2, svc_ProjectName = ''p'', svc_Name = ''web'', svc_Stateful = False, svc_CreatedAt = 1\<rparr>,
        \<lparr>svc_ID = 3, svc_ProjectName = ''p'', svc_Name = ''pg'', svc_Stateful = True, svc_CreatedAt = 1\<rparr>],
     db_volumes = [shop_volume], db_leases = [], db_now = 100, db_gen = (\<lambda>n. 100 + of_nat n), db_next = 0\<rparr>"

definition shop_target :: "string \<Rightarrow> Target" where
  "shop_target service = \<lparr>tg_Project = ''p'', tg_Environment = ''e'', tg_Service = service\<rparr>"

lemma shop_wf: "project_wf shop_db"
  by (simp add: shop_db_def shop_deployment_def shop_host_def shop_volume_def project_wf_def deployments_wf_def
      deployment_ok_def region_ok_def db_wf_def keys_ok_def one_current_def refs_ok_def rows_ok_def
      host_row_ok_def HostStatus_Valid_def volume_ok_def placed_status_def)

definition shop_deploy :: DeployInput where
  "shop_deploy = \<lparr>di_Target = shop_target ''web'', di_ImageRef = ''img2'', di_CPUMillicores = 500, di_MemBytes = 2000,
     di_Env = '''', di_Healthcheck = '''', di_DrainSeconds = 30, di_RestartMax = 5, di_ProgressDeadline = 600,
     di_Replicas = [(''us'', 2), (''eu'', 1)], di_CommitMessage = ''m'', di_CreatedBy = ''''\<rparr>"

lemma shop_deploys: "\<not> isl (deploy shop_deploy shop_db)"
  by code_simp

lemma shop_rolls_back: "\<not> isl (rollback \<lparr>rb_Target = shop_target ''web'', rb_ToVersion = 0\<rparr> shop_db)"
  by code_simp

lemma shop_bound: "map_option boundID (boundTo shop_db (shop_target ''web'')) = Some 11"
  by code_simp

section \<open>Deploying\<close>

text \<open>
  C19: A deploy commits exactly one new current version. On a sound database a deploy that succeeds
  leaves the target with one current deployment, which is a new row holding the request's image,
  limits and knobs, numbered above every earlier version; the one that was current is superseded and
  every other deployment is as it was; the new version's counts are exactly the requested map and no
  other version's counts move; replicas, volumes and the traffic pointer are untouched.
\<close>
theorem deploy_commits:
  assumes "project_wf db" and "deploy inp db = Inr (res, db')"
  shows "\<exists>b d. boundTo db (di_Target inp) = Some b
    \<and> filter dep_IsCurrent (deploymentsOf db' (boundID b)) = [d]
    \<and> dep_ID d \<notin> dep_ID ` set (db_deployments db)
    \<and> d = newDeployment (dep_ID d) (db_now db) (deployParams (boundID b) (dres_Version res) inp)
    \<and> (\<forall>old \<in> set (deploymentsOf db (boundID b)). dep_Version old < dres_Version res)
    \<and> db_deployments db' = db_deployments (retireCurrent DeploymentSuperseded (boundID b) db) @ [d]
    \<and> regionsOf db' = (regionsOf db)(dep_ID d := map_of (di_Replicas inp))
    \<and> db_replicas db' = db_replicas db \<and> db_volumes db' = db_volumes db \<and> db_served db' = db_served db"
proof -
  obtain b d where b: "boundTo db (di_Target inp) = Some b"
    and v: "dres_Version res = maxVersion (deploymentsOf db (boundID b)) + 1"
    and d: "d = newDeployment (dep_ID d) (db_now db) (deployParams (boundID b) (dres_Version res) inp)"
    and rows: "db_deployments db' = db_deployments (retireCurrent DeploymentSuperseded (boundID b) db) @ [d]"
    and rest: "dep_ID d \<notin> dep_ID ` set (db_deployments db)" "regionsOf db' = (regionsOf db)(dep_ID d := map_of (di_Replicas inp))"
      "db_replicas db' = db_replicas db" "db_volumes db' = db_volumes db" "db_served db' = db_served db"
    by (rule deploy_Inr [OF assms(2,1)], rule that, assumption+)
  have mine: "dep_EnvironmentServiceID d = boundID b" "dep_IsCurrent d"
    by (subst d, simp add: deployParams_def)+
  then have "filter dep_IsCurrent (deploymentsOf db' (boundID b)) = [d]"
    using current_deploymentsOf_retired [of DeploymentSuperseded "boundID b" db] unfolding deploymentsOf_def rows
    by (simp del: retireCurrent_simps)
  moreover have "\<forall>old \<in> set (deploymentsOf db (boundID b)). dep_Version old < dres_Version res"
    using maxVersion_ge v by fastforce
  ultimately show ?thesis
    using b d rows rest by blast
qed

theorem deploy_commits_witness:
  "\<exists>res db' d. deploy shop_deploy shop_db = Inr (res, db') \<and> filter dep_IsCurrent (deploymentsOf db' 11) = [d]
     \<and> dep_Version d = dres_Version res \<and> regionsOf db' (dep_ID d) = map_of [(''us'', 2), (''eu'', 1)]"
proof -
  obtain r where r: "deploy shop_deploy shop_db = Inr r"
    using shop_deploys by (cases "deploy shop_deploy shop_db") auto
  then have "deploy shop_deploy shop_db = Inr (fst r, snd r)" by simp
  from deploy_commits [OF shop_wf this] obtain b d where
    "boundTo shop_db (di_Target shop_deploy) = Some b" "filter dep_IsCurrent (deploymentsOf (snd r) (boundID b)) = [d]"
    "d = newDeployment (dep_ID d) (db_now shop_db) (deployParams (boundID b) (dres_Version (fst r)) shop_deploy)"
    "regionsOf (snd r) = (regionsOf shop_db)(dep_ID d := map_of (di_Replicas shop_deploy))" by blast
  moreover from this(3) have "dep_Version d = dres_Version (fst r)"
    by (metis newDeployment_simps(4) deployParams_def CreateDeploymentParams.select_convs(2))
  ultimately show ?thesis
    using shop_bound r by (intro exI [of _ "fst r"] exI [of _ "snd r"] exI [of _ d]) (auto simp: shop_deploy_def)
qed

section \<open>Rolling back\<close>

text \<open>
  A rollback moves the pointer and nothing of the code or the scale. On a sound database a rollback
  that succeeds names two versions of the target: the current one, which it marks rolled back, and the
  requested one (the highest lower version when none is named), which becomes current and pending again,
  otherwise as it was committed. No row is added. The promoted version takes over the current version's
  count in every region that has one, and zero in a region only it declares; no other count moves, and
  replicas, volumes and the traffic pointer are untouched.
\<close>
theorem rollback_moves_pointer:
  assumes "project_wf db" and "rollback inp db = Inr (res, db')"
  shows "\<exists>b cur tgt. boundTo db (rb_Target inp) = Some b
    \<and> cur \<in> set (deploymentsOf db (boundID b)) \<and> dep_IsCurrent cur \<and> dep_Version cur = rbr_From res
    \<and> tgt \<in> set (deploymentsOf db (boundID b)) \<and> dep_Version tgt = rbr_To res \<and> rbr_To res \<noteq> rbr_From res
    \<and> (if rb_ToVersion inp = 0
       then rbr_To res < rbr_From res
         \<and> (\<forall>d \<in> set (deploymentsOf db (boundID b)). dep_Version d < rbr_From res \<longrightarrow> dep_Version d \<le> rbr_To res)
       else rbr_To res = rb_ToVersion inp)
    \<and> db_deployments db' = map (repoint cur tgt) (db_deployments db)
    \<and> regionsOf db' = (regionsOf db)(dep_ID tgt := carried (regionsOf db (dep_ID cur)) (regionsOf db (dep_ID tgt)))
    \<and> db_replicas db' = db_replicas db \<and> db_volumes db' = db_volumes db \<and> db_served db' = db_served db"
proof -
  obtain b cur tgt where b: "boundTo db (rb_Target inp) = Some b"
    and c: "find dep_IsCurrent (deploymentsOf db (boundID b)) = Some cur" "dep_Version cur = rbr_From res"
    and t: "find (\<lambda>d. dep_Version d = rbr_To res) (deploymentsOf db (boundID b)) = Some tgt" "rbr_To res \<noteq> rbr_From res"
    and v: "rb_ToVersion inp \<noteq> 0 \<Longrightarrow> rbr_To res = rb_ToVersion inp"
      "rb_ToVersion inp = 0 \<Longrightarrow> rbr_To res < rbr_From res
          \<and> (\<forall>d \<in> set (deploymentsOf db (boundID b)). dep_Version d < rbr_From res \<longrightarrow> dep_Version d \<le> rbr_To res)"
    and out: "db_deployments db' = map (repoint cur tgt) (db_deployments db)"
      "regionsOf db' = (regionsOf db)(dep_ID tgt := carried (regionsOf db (dep_ID cur)) (regionsOf db (dep_ID tgt)))"
      "db_replicas db' = db_replicas db" "db_volumes db' = db_volumes db" "db_served db' = db_served db"
    by (rule rollback_Inr [OF assms(2,1)], rule that; assumption)
  have "if rb_ToVersion inp = 0
       then rbr_To res < rbr_From res
         \<and> (\<forall>d \<in> set (deploymentsOf db (boundID b)). dep_Version d < rbr_From res \<longrightarrow> dep_Version d \<le> rbr_To res)
       else rbr_To res = rb_ToVersion inp"
    using v by simp
  with b find_Some_set [OF c(1)] c(2) find_Some_set [OF t(1)] t(2) out show ?thesis by blast
qed

theorem rollback_moves_pointer_witness:
  "\<exists>res db'. rollback \<lparr>rb_Target = shop_target ''web'', rb_ToVersion = 0\<rparr> shop_db = Inr (res, db') \<and> rbr_To res < rbr_From res"
proof -
  let ?in = "\<lparr>rb_Target = shop_target ''web'', rb_ToVersion = 0\<rparr>"
  obtain r where r: "rollback ?in shop_db = Inr (fst r, snd r)"
    using shop_rolls_back by (cases "rollback ?in shop_db") auto
  from rollback_moves_pointer [OF shop_wf r] have "rbr_To (fst r) < rbr_From (fst r)" by auto
  with r show ?thesis by blast
qed

text \<open>A region without a row counts as zero.\<close>

definition counted :: "(string \<rightharpoonup> int) \<Rightarrow> string \<Rightarrow> int" where
  "counted m r = (case m r of None \<Rightarrow> 0 | Some n \<Rightarrow> n)"

definition pendingStatus :: "DeploymentRow \<Rightarrow> DeploymentRow" where
  "pendingStatus d = d\<lparr>dep_Status := DeploymentPending\<rparr>"

lemma repoint_back:
  assumes "d \<noteq> c \<longrightarrow> d \<noteq> t \<or> \<not> dep_IsCurrent t" "dep_IsCurrent c" "t \<noteq> c" "dep_ID t \<noteq> dep_ID c"
    and "d = c \<or> dep_ID d \<noteq> dep_ID c" "d = t \<or> dep_ID d \<noteq> dep_ID t"
  shows "pendingStatus (repoint (repoint c t t) (repoint c t c) (repoint c t d)) = pendingStatus d"
proof -
  have "repoint c t d = repoint c t c \<longleftrightarrow> d = c" "repoint c t d = repoint c t t \<longleftrightarrow> d = t"
    using assms(5,6) by (metis repoint_simps(1))+
  then show ?thesis
    using assms(1-3) unfolding repoint_def [of "repoint c t t" "repoint c t c"]
    by (auto simp: pendingStatus_def repoint_def)
qed

text \<open>Versions are numbered from one: a deploy's is the highest of the target plus one, a rollback numbers nothing.\<close>

definition numberedFromOne :: "database \<Rightarrow> bool" where
  "numberedFromOne db \<longleftrightarrow> (\<forall>d \<in> set (db_deployments db). 0 < dep_Version d)"

lemma retired_versions:
  "x \<in> set (db_deployments (retireCurrent status e db)) \<Longrightarrow> dep_Version x \<in> dep_Version ` set (db_deployments db)"
  by (auto split: if_splits)

lemma versions_stay_numbered:
  assumes "project_wf db" "numberedFromOne db"
  shows "deploy inp db = Inr (res, db1) \<Longrightarrow> numberedFromOne db1" "rollback rb db = Inr (out, db2) \<Longrightarrow> numberedFromOne db2"
proof -
  assume run: "deploy inp db = Inr (res, db1)"
  obtain b d where v: "dres_Version res = maxVersion (deploymentsOf db (boundID b)) + 1"
    and d: "d = newDeployment (dep_ID d) (db_now db) (deployParams (boundID b) (dres_Version res) inp)"
    and rows: "db_deployments db1 = db_deployments (retireCurrent DeploymentSuperseded (boundID b) db) @ [d]"
    by (rule deploy_Inr [OF run assms(1)], rule that, assumption+)
  have "0 \<le> maxVersion (deploymentsOf db (boundID b))"
  proof (cases "deploymentsOf db (boundID b)")
    case (Cons x xs)
    then have "x \<in> set (deploymentsOf db (boundID b))" by simp
    with maxVersion_ge [OF this] assms(2) show ?thesis by (fastforce simp: numberedFromOne_def deploymentsOf_def)
  qed (simp add: maxVersion_def)
  moreover have "dep_Version d = dres_Version res" by (subst d) (simp add: deployParams_def)
  moreover have "0 < dep_Version x" if "x \<in> set (db_deployments (retireCurrent DeploymentSuperseded (boundID b) db))" for x
  proof -
    have "dep_Version x \<in> dep_Version ` set (db_deployments db)"
      by (rule retired_versions [OF that])
    with assms(2) show ?thesis by (auto simp: numberedFromOne_def)
  qed
  ultimately show "numberedFromOne db1" using v by (simp add: numberedFromOne_def rows ball_Un del: retireCurrent_simps)
next
  assume "rollback rb db = Inr (out, db2)"
  then obtain cur tgt where "db_deployments db2 = map (repoint cur tgt) (db_deployments db)"
    by (rule rollback_Inr [OF _ assms(1)]) (rule that; assumption)
  with assms(2) show "numberedFromOne db2" by (simp add: numberedFromOne_def)
qed

text \<open>
  C20: A rollback can always be undone. On a sound database whose versions are numbered from one, after a
  successful rollback, rolling back to the version it left succeeds and restores every deployment:
  identity, code, limits, and which one is current; only the rollout status starts over as pending. The
  version that was left and is current again has the count it had in every region. The version that was
  visited does not get back counts of its own: it keeps those it took over, equal in every region to
  the current version's. No other version's counts, no replica, volume or traffic pointer has moved.
\<close>
theorem rollback_round_trip:
  assumes "project_wf db" and "numberedFromOne db" and "rollback inp db = Inr (res, db')"
  shows "\<exists>b cur tgt db2. boundTo db (rb_Target inp) = Some b
    \<and> find dep_IsCurrent (deploymentsOf db (boundID b)) = Some cur
    \<and> find (\<lambda>d. dep_Version d = rbr_To res) (deploymentsOf db (boundID b)) = Some tgt
    \<and> rollback \<lparr>rb_Target = rb_Target inp, rb_ToVersion = rbr_From res\<rparr> db'
       = Inr (\<lparr>rbr_From = rbr_To res, rbr_To = rbr_From res\<rparr>, db2)
    \<and> map pendingStatus (db_deployments db2) = map pendingStatus (db_deployments db)
    \<and> (\<forall>r. counted (regionsOf db2 (dep_ID cur)) r = counted (regionsOf db (dep_ID cur)) r)
    \<and> (\<forall>r. counted (regionsOf db2 (dep_ID tgt)) r = counted (regionsOf db (dep_ID cur)) r)
    \<and> (\<forall>i. i \<noteq> dep_ID cur \<and> i \<noteq> dep_ID tgt \<longrightarrow> regionsOf db2 i = regionsOf db i)
    \<and> db_replicas db2 = db_replicas db \<and> db_volumes db2 = db_volumes db \<and> db_served db2 = db_served db"
proof -
  obtain b cur tgt where b: "boundTo db (rb_Target inp) = Some b"
    and c: "find dep_IsCurrent (deploymentsOf db (boundID b)) = Some cur" "dep_Version cur = rbr_From res"
    and t: "find (\<lambda>d. dep_Version d = rbr_To res) (deploymentsOf db (boundID b)) = Some tgt" "rbr_To res \<noteq> rbr_From res"
    and rows: "db_deployments db' = map (repoint cur tgt) (db_deployments db)"
    and regs: "regionsOf db' = (regionsOf db)(dep_ID tgt := carried (regionsOf db (dep_ID cur)) (regionsOf db (dep_ID tgt)))"
    and binds: "bindings db' = bindings db"
    and rest: "db_replicas db' = db_replicas db" "db_volumes db' = db_volumes db" "db_served db' = db_served db"
    by (rule rollback_Inr [OF assms(3,1)], rule that; assumption)
  let ?e = "boundID b" and ?in2 = "\<lparr>rb_Target = rb_Target inp, rb_ToVersion = rbr_From res\<rparr>"
  have wf: "db_wf db" and wf': "project_wf db'"
    using assms(1) op_keepsD [OF keeps_rollback assms(1,3)] by (simp_all add: project_wf_def)
  have cin: "cur \<in> set (deploymentsOf db ?e)" "dep_IsCurrent cur" using find_Some_set [OF c(1)] by simp_all
  have tin: "tgt \<in> set (deploymentsOf db ?e)" "dep_Version tgt = rbr_To res" using find_Some_set [OF t(1)] by simp_all
  have ne: "tgt \<noteq> cur" using c(2) t(2) tin(2) by auto
  have ids: "d = d'" if "d \<in> set (db_deployments db)" "d' \<in> set (db_deployments db)" "dep_ID d = dep_ID d'" for d d'
    using db_wf_rows(9) [OF wf] that by (auto simp: distinct_map inj_on_def)
  have own: "cur \<in> set (db_deployments db)" "tgt \<in> set (db_deployments db)"
    using cin(1) tin(1) by (simp_all add: deploymentsOf_def)
  have idne: "dep_ID tgt \<noteq> dep_ID cur" using ids [OF own(2,1)] ne by blast
  have tnot: "\<not> dep_IsCurrent tgt"
    using current_unique [OF wf tin(1)] c(1) ne by auto
  have of': "deploymentsOf db' ?e = map (repoint cur tgt) (deploymentsOf db ?e)"
    by (simp add: deploymentsOf_def rows filter_map comp_def)
  have b': "boundTo db' (rb_Target inp) = Some b" using b by (simp add: boundTo_def binds)
  have cur': "find dep_IsCurrent (deploymentsOf db' ?e) = Some (repoint cur tgt tgt)"
    by (rule current_unique) (use wf' tin(1) ne in \<open>simp_all add: project_wf_def of' repoint_current\<close>)
  have tgt': "repoint cur tgt cur \<in> set (deploymentsOf db' ?e)" using cin(1) by (simp add: of')
  have positive: "rbr_From res \<noteq> 0" using assms(2) own(1) c(2) by (auto simp: numberedFromOne_def)
  have v': "dep_Version (repoint cur tgt cur) = rbr_From res" "dep_Version (repoint cur tgt tgt) = rbr_To res"
    using c(2) tin(2) by simp_all
  obtain db2 where undone: "rollback ?in2 db' = Inr (\<lparr>rbr_From = rbr_To res, rbr_To = rbr_From res\<rparr>, db2)"
    using rollback_succeeds [OF wf' b' cur' tgt', unfolded v'] positive t(2) by metis
  obtain b2 c2 t2 where "boundTo db' (rb_Target ?in2) = Some b2"
    and "find dep_IsCurrent (deploymentsOf db' (boundID b2)) = Some c2"
    and "find (\<lambda>d. dep_Version d = rbr_From res) (deploymentsOf db' (boundID b2)) = Some t2"
    and rows2: "db_deployments db2 = map (repoint c2 t2) (db_deployments db')"
    and regs2: "regionsOf db2 = (regionsOf db')(dep_ID t2 := carried (regionsOf db' (dep_ID c2)) (regionsOf db' (dep_ID t2)))"
    and rest2: "db_replicas db2 = db_replicas db'" "db_volumes db2 = db_volumes db'" "db_served db2 = db_served db'"
    by (rule rollback_Inr [OF undone wf'], rule that; simp)
  then have c2: "c2 = repoint cur tgt tgt" and t2: "t2 = repoint cur tgt cur"
    using b' cur' version_unique [OF _ tgt'] wf' by (auto simp: v' c(2) project_wf_def)
  have "map pendingStatus (db_deployments db2) = map pendingStatus (db_deployments db)"
    unfolding rows2 rows c2 t2 map_map comp_def
  proof (rule map_cong [OF refl])
    fix d assume d: "d \<in> set (db_deployments db)"
    show "pendingStatus (repoint (repoint cur tgt tgt) (repoint cur tgt cur) (repoint cur tgt d)) = pendingStatus d"
      by (rule repoint_back) (use d ids own ne idne tnot cin(2) in auto)
  qed
  moreover have "counted (regionsOf db2 (dep_ID cur)) r = counted (regionsOf db (dep_ID cur)) r" for r
    unfolding regs2 c2 t2 regs using idne by (auto simp: counted_def carried_def split: option.splits)
  moreover have "counted (regionsOf db2 (dep_ID tgt)) r = counted (regionsOf db (dep_ID cur)) r" for r
    unfolding regs2 c2 t2 regs using idne by (auto simp: counted_def carried_def split: option.splits)
  moreover have "i \<noteq> dep_ID cur \<and> i \<noteq> dep_ID tgt \<longrightarrow> regionsOf db2 i = regionsOf db i" for i
    unfolding regs2 c2 t2 regs by simp
  moreover note rest2 [unfolded rest]
  ultimately show ?thesis using b c(1) t(1) undone by blast
qed

theorem rollback_round_trip_witness:
  "\<exists>res db' db2. rollback \<lparr>rb_Target = shop_target ''web'', rb_ToVersion = 0\<rparr> shop_db = Inr (res, db')
     \<and> rollback \<lparr>rb_Target = shop_target ''web'', rb_ToVersion = rbr_From res\<rparr> db'
        = Inr (\<lparr>rbr_From = rbr_To res, rbr_To = rbr_From res\<rparr>, db2)
     \<and> map pendingStatus (db_deployments db2) = map pendingStatus (db_deployments shop_db)"
proof -
  let ?in = "\<lparr>rb_Target = shop_target ''web'', rb_ToVersion = 0\<rparr>"
  obtain res db' where r: "rollback ?in shop_db = Inr (res, db')"
    using shop_rolls_back by (cases "rollback ?in shop_db") auto
  have "numberedFromOne shop_db" by (simp add: numberedFromOne_def shop_db_def shop_deployment_def)
  from rollback_round_trip [OF shop_wf this r] obtain db2 where
    "rollback \<lparr>rb_Target = shop_target ''web'', rb_ToVersion = rbr_From res\<rparr> db'
        = Inr (\<lparr>rbr_From = rbr_To res, rbr_To = rbr_From res\<rparr>, db2)"
    "map pendingStatus (db_deployments db2) = map pendingStatus (db_deployments shop_db)" by auto
  with r show ?thesis by blast
qed

section \<open>Every command\<close>

text \<open>
  No operator command breaks the database. Whatever command runs - project, environment and service
  creation, launch, bind, deploy, rollback, scale, resize, down, and the life of a volume - with whatever
  arguments, succeeding or failing, and whatever sound writes other clients commit between its
  statements, the schema's constraints hold afterwards: keys, one current deployment per service, unique
  versions, positive limits, non-negative counts in known regions, foreign keys, placed volumes with a host.
\<close>
theorem commands_keep_schema:
  assumes "project_wf db" and "\<forall>k s. project_wf s \<longrightarrow> project_wf (env k s)"
  shows "project_wf (snd (snd (runCommand env c (k, db))))"
proof -
  have "env_keeps project_wf env" using assms(2) by (simp add: env_keeps_def)
  from runCommand_keeps [OF this, of c] assms(1) show ?thesis
    by (metis run_keepsD prod.collapse snd_conv)
qed

theorem commands_keep_schema_witness:
  "project_wf (snd (snd (runCommand (\<lambda>_ s. s) (CmdDeploy shop_deploy) (0, shop_db))))"
  by (rule commands_keep_schema [OF shop_wf]) simp

section \<open>The single instance of a stateful service\<close>

definition shop_scale :: ScaleInput where
  "shop_scale = \<lparr>si_Target = shop_target ''pg'', si_Replicas = [(''eu'', 1)], si_CPUMillicores = 0, si_MemBytes = 0, si_CreatedBy = ''''\<rparr>"

definition shop_wide :: DeployInput where
  "shop_wide = shop_deploy\<lparr>di_Target := shop_target ''pg'', di_Replicas := [(''us'', 2 ^ 31 - 1), (''eu'', 2 ^ 31 - 1)]\<rparr>"

definition desiredAfter :: "(projectError + 'a \<times> database) \<Rightarrow> uuid \<Rightarrow> int option" where
  "desiredAfter r i = (case r of Inl e \<Rightarrow> None | Inr (x, db') \<Rightarrow> Some (desiredReplicas db' i))"

text \<open>
  The cap of one instance on a stateful service does not hold. The check adds up the counts of the
  request alone, so scaling only a second region to one replica passes and leaves two desired
  (\<open>pg\<close> runs one in \<open>us\<close>; the request says \<open>eu=1\<close>); and it adds them up in int32, so a deploy of
  2147483647 in each of two regions sums to -2 and passes as well.
\<close>
theorem stateful_cap_gap:
  "desiredReplicas shop_db 31 = 1 \<and> desiredAfter (scale shop_scale shop_db) 31 = Some 2
   \<and> desiredAfter (deploy shop_wide shop_db) 100 = Some (2 ^ 32 - 2)"
proof -
  have "desiredReplicas shop_db 31 = 1" by code_simp
  moreover have "desiredAfter (scale shop_scale shop_db) 31 = Some 2" by code_simp
  moreover have "desiredAfter (deploy shop_wide shop_db) 100 = Some (2 ^ 32 - 2)" by code_simp
  ultimately show ?thesis by blast
qed

section \<open>Growing a volume\<close>

lemma GetVolume_Inr: "GetVolume e m db = Inr (v, db') \<longleftrightarrow> db' = db \<and> find (volumeHit e m) (db_volumes db) = Some v"
  by (auto simp: GetVolume_def q_GetVolume_def queryRow_Inr filter_Cons_find [symmetric])

lemma environmentServiceID_Inr: "environmentServiceID t db = Inr (i, db') \<longleftrightarrow> db' = db \<and> (\<exists>b. boundTo db t = Some b \<and> i = boundID b)"
proof -
  have "environmentServiceID t db = Inr (i, db') \<longleftrightarrow> (\<exists>row. envService t db = Inr (row, db') \<and> i = ges_ID row)"
    by (auto simp: environmentServiceID_def envService_def op_bind_Inr)
  then show ?thesis by (auto simp: envService_Inr)
qed

lemma quiet_stmt: "stmt quiet m (k, s) = (case m s of Inl e \<Rightarrow> (Inl (ErrStore e), (Suc k, s)) | Inr (x, s') \<Rightarrow> (Inr x, (Suc k, s')))"
  by (auto simp: stmt_def WithTx_def quiet_def st_def split: sum.splits prod.splits)

text \<open>The row an accepted resize writes.\<close>

definition grown :: "int \<Rightarrow> VolumeRow \<Rightarrow> VolumeRow" where
  "grown n v = v\<lparr>vr_PreviousDesiredSizeBytes := Some (vr_DesiredSizeBytes v), vr_DesiredSizeBytes := n\<rparr>"

end
