(* ===== verification/OperatorViewsCorrect.thy ===== *)
theory OperatorViewsCorrect
  imports OperatorViews ProjectProperties
begin

text \<open>
  What the operator is shown is what the engine decides on: the usage bars are the placer's ledger, a
  pending replica carries a blocker exactly when the placer would find no host for it, and the summaries
  and the tree count every row once.
\<close>

section \<open>The rows of a pass\<close>

lemma filter_at_key:
  assumes "distinct (map key xs)" "x \<in> set xs"
  shows "filter (\<lambda>y. key y = key x) xs = [x]"
  using assms
proof (induction xs)
  case (Cons y ys)
  show ?case
  proof (cases "y = x")
    case True
    with Cons.prems have "filter (\<lambda>z. key z = key x) ys = []"
      by (auto simp: filter_empty_conv image_iff)
    with True show ?thesis by simp
  next
    case False
    with Cons.prems have "key y \<noteq> key x" "x \<in> set ys" by auto
    with Cons show ?thesis by simp
  qed
qed simp

lemma concat_guard: "concat (map (\<lambda>x. if P x then f x else []) xs) = concat (map f (filter P xs))"
  by (induction xs) auto

text \<open>
  Every service that has a version has a current one, and so has the service of every placed volume: a
  deploy retires the old current version and commits the new one in one transaction, a rollback moves
  the flag, and the engine only places volumes of services it reads a current version of.
\<close>

definition hasCurrent :: "database \<Rightarrow> uuid \<Rightarrow> bool" where
  "hasCurrent db esID \<longleftrightarrow> list_ex (\<lambda>c. dep_EnvironmentServiceID c = esID \<and> dep_IsCurrent c) (db_deployments db)"

definition all_current :: "database \<Rightarrow> bool" where
  "all_current db \<longleftrightarrow> (\<forall>d \<in> set (db_deployments db). hasCurrent db (dep_EnvironmentServiceID d))
     \<and> (\<forall>v \<in> set (db_volumes db). vr_HostID v \<noteq> None \<longrightarrow> hasCurrent db (vr_EnvironmentServiceID v))"

lemma replica_joins:
  assumes "project_wf db" "r \<in> set (db_replicas db)"
  obtains d es where "d \<in> set (db_deployments db)" "dep_ID d = rr_DeploymentID r"
    "es \<in> set (db_environmentServices db)" "es_ID es = dep_EnvironmentServiceID d"
    "filter (\<lambda>x. dep_ID x = rr_DeploymentID r) (db_deployments db) = [d]"
    "filter (\<lambda>x. es_ID x = dep_EnvironmentServiceID d) (db_environmentServices db) = [es]"
proof -
  have wf: "db_wf db" "deployments_wf db" using assms(1) by (auto simp: project_wf_def)
  have "replica_refs db r" using db_wf_rows(3) [OF wf(1) assms(2)] .
  then obtain dr where "dr \<in> set (db_deploymentRegions db)" "dr_DeploymentID dr = rr_DeploymentID r"
    by (auto simp: replica_refs_def)
  then have "rr_DeploymentID r \<in> dep_ID ` set (db_deployments db)"
    using wf(2) unfolding deployments_wf_def region_ok_def by metis
  then obtain d where d: "d \<in> set (db_deployments db)" "dep_ID d = rr_DeploymentID r" by force
  then obtain es where es: "es \<in> set (db_environmentServices db)" "es_ID es = dep_EnvironmentServiceID d"
    using wf(2) by (auto simp: deployments_wf_def deployment_ok_def)
  have keys: "distinct (map dep_ID (db_deployments db))" "distinct (map es_ID (db_environmentServices db))"
    using wf(1) by (auto simp: db_wf_def keys_ok_def)
  show thesis
    using that [OF d es] filter_at_key [OF keys(1) d(1)] filter_at_key [OF keys(2) es(1)] d(2) es(2) by simp
qed

lemma active_rows:
  assumes "project_wf db" "all_current db"
  shows "map ar_Replica (ListActiveReplicas db) = filter (\<lambda>r. rr_Phase r \<noteq> ReplicaPhaseReaped) (db_replicas db)"
proof -
  have row: "map ar_Replica (concat (map (\<lambda>d. if dep_ID d = rr_DeploymentID r then
      concat (map (\<lambda>es. if es_ID es = dep_EnvironmentServiceID d then
        (if list_ex (\<lambda>c. dep_EnvironmentServiceID c = dep_EnvironmentServiceID d \<and> dep_IsCurrent c) (db_deployments db)
         then [\<lparr>ar_Replica = r, ar_EnvironmentServiceID = dep_EnvironmentServiceID d, ar_ServiceID = es_ServiceID es,
          ar_Version = dep_Version d, ar_IsCurrent = dep_IsCurrent d, ar_DrainSeconds = dep_DrainSeconds d,
          ar_HostDraining = hostDraining db r\<rparr>] else []) else []) (db_environmentServices db)) else []) (db_deployments db)))
    = [r]" if r: "r \<in> set (db_replicas db)" for r
  proof -
    obtain d es where j: "d \<in> set (db_deployments db)" "dep_ID d = rr_DeploymentID r"
        "filter (\<lambda>x. dep_ID x = rr_DeploymentID r) (db_deployments db) = [d]"
        "filter (\<lambda>x. es_ID x = dep_EnvironmentServiceID d) (db_environmentServices db) = [es]"
      by (rule replica_joins [OF assms(1) r])
    have "list_ex (\<lambda>c. dep_EnvironmentServiceID c = dep_EnvironmentServiceID d \<and> dep_IsCurrent c) (db_deployments db)"
      using assms(2) j(1) by (auto simp: all_current_def hasCurrent_def)
    then show ?thesis
      by (simp add: concat_guard j)
  qed
  have each: "map ar_Replica (concat (map (\<lambda>r. if P r then f r else []) rs)) = filter P rs"
    if "\<And>r. r \<in> set rs \<Longrightarrow> map ar_Replica (f r) = [r]" for f P and rs :: "ReplicaRow list"
    using that by (induction rs) auto
  show ?thesis
    unfolding ListActiveReplicas_def by (rule each, rule row)
qed

lemma active_volumes:
  assumes "db_wf db"
  shows "mset (ListActiveVolumes db) = mset (filter (\<lambda>v. hasCurrent db (vr_EnvironmentServiceID v)) (db_volumes db))"
proof -
  have one: "concat (map (\<lambda>d. if dep_EnvironmentServiceID d = e \<and> dep_IsCurrent d then [v] else []) ds)
      = (if list_ex (\<lambda>c. dep_EnvironmentServiceID c = e \<and> dep_IsCurrent c) ds then [v] else [])"
    if "distinct (map dep_EnvironmentServiceID (filter dep_IsCurrent ds))" for e ds and v :: VolumeRow
    using that
  proof (induction ds)
    case (Cons d ds)
    have IH: "concat (map (\<lambda>d. if dep_EnvironmentServiceID d = e \<and> dep_IsCurrent d then [v] else []) ds)
      = (if list_ex (\<lambda>c. dep_EnvironmentServiceID c = e \<and> dep_IsCurrent c) ds then [v] else [])"
      using Cons by (simp split: if_splits)
    have "\<not> list_ex (\<lambda>c. dep_EnvironmentServiceID c = e \<and> dep_IsCurrent c) ds"
      if "dep_EnvironmentServiceID d = e" "dep_IsCurrent d"
      using Cons.prems that by (auto simp: list_ex_iff image_iff)
    with IH show ?case by auto
  qed simp
  have "distinct (map dep_EnvironmentServiceID (filter dep_IsCurrent (db_deployments db)))"
    using assms by (simp add: db_wf_def one_current_def)
  note one = one [OF this]
  have "concat (map (\<lambda>v. if hasCurrent db (vr_EnvironmentServiceID v) then [v] else []) vs)
      = filter (\<lambda>v. hasCurrent db (vr_EnvironmentServiceID v)) vs" for vs
    by (induction vs) auto
  note sel = this
  show ?thesis
    unfolding ListActiveVolumes_def mset_sort_by one sel [unfolded hasCurrent_def] hasCurrent_def ..
qed


section \<open>Usage and ledger\<close>

lemma UUID_eq: "k \<noteq> uuid_Nil \<Longrightarrow> UUID x = k \<longleftrightarrow> x = Some k"
  by (cases x) (auto simp: UUID_def)

lemma sum_mset_list: "mset xs = mset ys \<Longrightarrow> sum_list (map f xs) = (sum_list (map f ys) :: int)"
  by (metis mset_map sum_mset_sum_list)

lemma Committed_row: "Committed (SizingOf v) = committedBytes v"
  by (auto simp: Committed_def SizingOf_def committedBytes_def Let_def Reported_def split: option.splits)

lemma residual_usage:
  fixes now cfg
  assumes wf: "project_wf db" and cur: "all_current db" and k: "hr_ID h \<noteq> uuid_Nil"
  defines "hl \<equiv> residual cfg (loadSnapshot now db) (hostOf h)"
  shows "hl_cpu hl = hr_CpuMillicores h - hu_CPUMillicores (hostUsage db (hr_ID h))"
    and "hl_mem hl = hr_MemBytes h - hu_MemBytes (hostUsage db (hr_ID h))"
    and "hl_disk hl = DiskBudget cfg (hr_DiskBytes h) - hu_DiskBytes (hostUsage db (hr_ID h))"
proof -
  let ?rs = "filter (\<lambda>r. rr_HostID r = Some (hr_ID h) \<and> rr_Phase r \<noteq> ReplicaPhaseReaped) (db_replicas db)"
  have on: "replicasOn (loadSnapshot now db) (hr_ID h) =
      map replicaOfRow (filter (\<lambda>a. rr_HostID (ar_Replica a) = Some (hr_ID h)) (ListActiveReplicas db))"
    by (simp add: replicasOn_def filter_map o_def UUID_eq [OF k])
  have "map ar_Replica (filter (\<lambda>a. rr_HostID (ar_Replica a) = Some (hr_ID h)) (ListActiveReplicas db))
      = filter (\<lambda>r. rr_HostID r = Some (hr_ID h)) (map ar_Replica (ListActiveReplicas db))"
    by (simp add: filter_map o_def)
  also have "\<dots> = ?rs"
    by (simp add: active_rows [OF wf cur] conj_commute)
  finally have rs: "map ar_Replica (filter (\<lambda>a. rr_HostID (ar_Replica a) = Some (hr_ID h)) (ListActiveReplicas db)) = ?rs" .
  have row: "r_CPUMillicores \<circ> replicaOfRow = rr_CpuMillicores \<circ> ar_Replica" "r_MemBytes \<circ> replicaOfRow = rr_MemBytes \<circ> ar_Replica"
    by (auto simp: fun_eq_iff replicaOfRow_def Let_def)
  have "sum_list (map (f \<circ> ar_Replica) (filter (\<lambda>a. rr_HostID (ar_Replica a) = Some (hr_ID h)) (ListActiveReplicas db)))
      = sum_list (map f ?rs)" for f :: "ReplicaRow \<Rightarrow> int"
    by (simp only: map_map [symmetric] rs)
  then show "hl_cpu hl = hr_CpuMillicores h - hu_CPUMillicores (hostUsage db (hr_ID h))"
    "hl_mem hl = hr_MemBytes h - hu_MemBytes (hostUsage db (hr_ID h))"
    by (simp_all add: hl_def residual_def hostOf_def on hostUsage_def Let_def row)
  have "mset (filter (\<lambda>v. vr_HostID v = Some (hr_ID h)) (ListActiveVolumes db))
      = mset (filter (\<lambda>v. vr_HostID v = Some (hr_ID h)) (filter (\<lambda>v. hasCurrent db (vr_EnvironmentServiceID v)) (db_volumes db)))"
    unfolding mset_filter active_volumes [OF wf [unfolded project_wf_def, THEN conjunct1]] ..
  also have "filter (\<lambda>v. vr_HostID v = Some (hr_ID h)) (filter (\<lambda>v. hasCurrent db (vr_EnvironmentServiceID v)) (db_volumes db))
      = filter (\<lambda>v. vr_HostID v = Some (hr_ID h)) (db_volumes db)"
    unfolding filter_filter by (rule filter_cong) (use cur in \<open>auto simp: all_current_def\<close>)
  finally have vs: "mset (filter (\<lambda>v. vr_HostID v = Some (hr_ID h)) (ListActiveVolumes db))
      = mset (filter (\<lambda>v. vr_HostID v = Some (hr_ID h)) (db_volumes db))" .
  have "volumesOn (loadSnapshot now db) (hr_ID h) = map volumeOfRow (filter (\<lambda>v. vr_HostID v = Some (hr_ID h)) (ListActiveVolumes db))"
    by (simp add: volumesOn_def filter_map o_def volumeOfRow_def UUID_eq [OF k])
  moreover have "(\<lambda>v. Committed (v_Sizing v)) \<circ> volumeOfRow = committedBytes"
    by (auto simp: fun_eq_iff volumeOfRow_def Committed_row)
  ultimately show "hl_disk hl = DiskBudget cfg (hr_DiskBytes h) - hu_DiskBytes (hostUsage db (hr_ID h))"
    using sum_mset_list [OF vs, of committedBytes]
    by (simp add: hl_def residual_def hostOf_def hostUsage_def Let_def diskBudget_def)
qed

lemma ListHostUsage_Inr:
  assumes "ListHostUsage db = Inr (usage, db')" "h \<in> set (db_hosts db)"
  shows "usageAt usage (hr_ID h) = hostUsage db (hr_ID h)"
proof -
  have "usage = map_of (map (\<lambda>h. (hr_ID h, hostUsage db (hr_ID h))) (db_hosts db))"
    using assms(1) by (auto simp: ListHostUsage_def op_bind_Inr q_ListHostUsage_def Let_def op_ok_def split: if_splits)
  moreover have "map_of (map (\<lambda>h. (hr_ID h, hostUsage db (hr_ID h))) hs) (hr_ID h) = Some (hostUsage db (hr_ID h))"
    if "h \<in> set hs" for hs
    using that by (induction hs) auto
  ultimately show ?thesis using assms(2) by (simp add: usageAt_def)
qed

lemma ledger_of_host:
  assumes wf: "db_wf db"
  shows "map_of (newLedger cfg (loadSnapshot now db)) k = Some hl \<longleftrightarrow>
    (\<exists>h \<in> set (db_hosts db). hr_HostHealthy h \<and> hr_ID h = k \<and> hl = residual cfg (loadSnapshot now db) (hostOf h))"
proof -
  let ?hs = "map hostOf (ListHealthyHosts db)"
  have ids: "map h_ID ?hs = map hr_ID (ListHealthyHosts db)"
    by (simp add: hostOf_def)
  have "distinct (map hr_ID (ListHealthyHosts db))"
    unfolding ListHealthyHosts_def by (rule distinct_map_filter [OF db_wf_rows(7) [OF wf]])
  then have d: "distinct (map h_ID ?hs)" by (simp only: ids)
  have "index_last h_ID ?hs k = Some x \<longleftrightarrow> x \<in> set ?hs \<and> h_ID x = k" for x
    using index_last_Some [of h_ID ?hs k x] index_last_distinct [OF d, of x] by auto
  then show ?thesis
    by (auto simp: map_of_newLedger ListHealthyHosts_def hostOf_def)
qed

section \<open>Blockers\<close>

definition hostFits :: "float64 \<Rightarrow> (uuid \<rightharpoonup> HostUsage) \<Rightarrow> TopologyReplicasRow \<Rightarrow> HostRow \<Rightarrow> bool" where
  "hostFits headroom usage r h \<longleftrightarrow> hr_Region h = tr_Region r \<and> hr_HostHealthy h \<and> hr_Status h = HostOpen
     \<and> tr_CpuMillicores r \<le> freeCPU headroom usage h \<and> tr_MemBytes r \<le> freeMem headroom usage h"

lemma blockerText_nonempty: "blockerText r s \<noteq> ''''"
  by (simp add: blockerText_def)

lemma scanHosts_empty: "scanHosts headroom usage r hs s = '''' \<longleftrightarrow> (\<exists>h \<in> set hs. hostFits headroom usage r h)"
proof (induction hs arbitrary: s)
  case (Cons h hs)
  then show ?case by (auto simp: hostFits_def Let_def)
qed (simp add: blockerText_nonempty)

definition headroomFor :: "TopologyReplicasRow \<Rightarrow> float64" where
  "headroomFor r = (if tr_Phase r = ReplicaPhaseReplacing then 0 else pl_Headroom DefaultPlacement)"

lemma placementBlocker_empty:
  "placementBlocker r hosts usage (pl_Headroom DefaultPlacement) = '''' \<longleftrightarrow> (\<exists>h \<in> set hosts. hostFits (headroomFor r) usage r h)"
  by (simp add: placementBlocker_def scanHosts_empty headroomFor_def)

text \<open>Rows with the ID of \<open>r\<close> that look the same to the loop leave one verdict in the map.\<close>

lemma placementBlockers_at:
  assumes "r \<in> set reps"
    and "\<And>x. x \<in> set reps \<Longrightarrow> tr_ID x = tr_ID r \<Longrightarrow> unplaced x = unplaced r
      \<and> placementBlocker x hosts usage (pl_Headroom DefaultPlacement) = placementBlocker r hosts usage (pl_Headroom DefaultPlacement)"
  shows "placementBlockers reps hosts usage (tr_ID r) =
    (if unplaced r \<and> placementBlocker r hosts usage (pl_Headroom DefaultPlacement) \<noteq> ''''
     then Some (placementBlocker r hosts usage (pl_Headroom DefaultPlacement)) else None)"
proof -
  let ?b = "\<lambda>x. placementBlocker x hosts usage (pl_Headroom DefaultPlacement)"
  let ?step = "\<lambda>out x. if \<not> unplaced x then out else let reason = ?b x in if reason \<noteq> '''' then out(tr_ID x \<mapsto> reason) else out"
  let ?v = "if unplaced r \<and> ?b r \<noteq> '''' then Some (?b r) else None"
  have "foldl ?step m xs (tr_ID r) = (if \<exists>x \<in> set xs. tr_ID x = tr_ID r then ?v else m (tr_ID r))"
    if "m (tr_ID r) = None \<or> m (tr_ID r) = ?v" "set xs \<subseteq> set reps" for xs m
    using that
  proof (induction xs arbitrary: m)
    case (Cons x xs)
    show ?case
    proof (cases "tr_ID x = tr_ID r")
      case True
      then have x: "unplaced x = unplaced r" "?b x = ?b r" using assms(2) Cons.prems(2) by auto
      have "?step m x (tr_ID r) = ?v"
        using Cons.prems(1) True x by (auto simp: Let_def split: if_splits)
      then show ?thesis
        using Cons.IH [of "?step m x"] Cons.prems(2) True by simp
    next
      case False
      then have "?step m x (tr_ID r) = m (tr_ID r)" by (simp add: Let_def)
      with Cons.IH [of "?step m x"] Cons.prems False show ?thesis by simp
    qed
  qed simp
  from this [of Map.empty reps] assms(1) show ?thesis
    unfolding placementBlockers_def by auto
qed

lemma TopologyReplicas_row:
  assumes "TopologyReplicas f db = Inr (reps, db')" "t \<in> set reps"
  obtains r where "r \<in> set (db_replicas db)" "tr_ID t = rr_ID r" "tr_Region t = rr_Region r" "tr_HostID t = rr_HostID r"
    "tr_Phase t = rr_Phase r" "tr_DesiredStatus t = rr_DesiredStatus r" "tr_CpuMillicores t = rr_CpuMillicores r"
    "tr_MemBytes t = rr_MemBytes r" "tr_VolumeID t = rr_VolumeID r" "matches (tf_Region f) (rr_Region r)"
  using assms by (auto simp: TopologyReplicas_def topologyReplicasRow_def split: if_splits)

lemma scanHosts_cong:
  assumes "tr_Region x = tr_Region r" "tr_CpuMillicores x = tr_CpuMillicores r" "tr_MemBytes x = tr_MemBytes r"
  shows "scanHosts headroom usage x hs s = scanHosts headroom usage r hs s"
  using assms by (induction hs arbitrary: s) (simp_all add: blockerText_def Let_def)

lemma blocker_of_row:
  assumes "db_wf db" "TopologyReplicas f db = Inr (reps, db')" "t \<in> set reps" "unplaced t"
  shows "blockerAt (placementBlockers reps hosts usage) (tr_ID t) = None \<longleftrightarrow>
    (\<exists>h \<in> set hosts. hostFits (headroomFor t) usage t h)"
proof -
  let ?b = "\<lambda>x. placementBlocker x hosts usage (pl_Headroom DefaultPlacement)"
  have same: "unplaced x = unplaced t \<and> ?b x = ?b t" if x: "x \<in> set reps" "tr_ID x = tr_ID t" for x
  proof -
    obtain r where r: "r \<in> set (db_replicas db)" "tr_ID t = rr_ID r" "tr_Region t = rr_Region r" "tr_HostID t = rr_HostID r"
      "tr_Phase t = rr_Phase r" "tr_DesiredStatus t = rr_DesiredStatus r" "tr_CpuMillicores t = rr_CpuMillicores r"
      "tr_MemBytes t = rr_MemBytes r" "tr_VolumeID t = rr_VolumeID r"
      by (rule TopologyReplicas_row [OF assms(2,3)])
    obtain q where q: "q \<in> set (db_replicas db)" "tr_ID x = rr_ID q" "tr_Region x = rr_Region q" "tr_HostID x = rr_HostID q"
      "tr_Phase x = rr_Phase q" "tr_DesiredStatus x = rr_DesiredStatus q" "tr_CpuMillicores x = rr_CpuMillicores q"
      "tr_MemBytes x = rr_MemBytes q" "tr_VolumeID x = rr_VolumeID q"
      by (rule TopologyReplicas_row [OF assms(2) x(1)])
    have "q = r"
      using db_wf_rows(1) [OF assms(1)] q(1,2) r(1,2) x(2) by (simp add: distinct_map inj_on_def)
    with q r have "tr_Region x = tr_Region t" "tr_CpuMillicores x = tr_CpuMillicores t" "tr_MemBytes x = tr_MemBytes t"
      "tr_Phase x = tr_Phase t" "unplaced x = unplaced t" by (simp_all add: unplaced_def)
    then show ?thesis
      by (simp add: placementBlocker_def scanHosts_cong [of x t])
  qed
  have "placementBlockers reps hosts usage (tr_ID t) = (if ?b t \<noteq> '''' then Some (?b t) else None)"
    using placementBlockers_at [OF assms(3) same] assms(4) by simp
  then have "blockerAt (placementBlockers reps hosts usage) (tr_ID t) = None \<longleftrightarrow> ?b t = ''''"
    by (simp add: blockerAt_def optionalStr_def)
  with placementBlocker_empty show ?thesis by simp
qed

lemma reserve_none [simp]: "reserveOf 0 n = 0"
  by (simp add: reserveOf_def float_mul_def round64_def int_of_float_def)

text \<open>The placer's test for one host of the ledger is the loop's test on the host's row and usage.\<close>

lemma feasible_hostFits:
  assumes wf: "project_wf db" and cur: "all_current db" and k: "hr_ID h \<noteq> uuid_Nil"
    and usage: "usageAt usage (hr_ID h) = hostUsage db (hr_ID h)" and healthy: "hr_HostHealthy h"
    and row: "rs_Region (r_Slot r) = tr_Region t" "r_CPUMillicores r = tr_CpuMillicores t" "r_MemBytes r = tr_MemBytes t"
      "r_Phase r = tr_Phase t"
  shows "feasible DefaultPlacement (replicaItem DefaultPlacement r) (residual DefaultPlacement (loadSnapshot now db) (hostOf h))
    \<longleftrightarrow> hostFits (headroomFor t) usage t h"
proof -
  note [simp] = residual_usage [OF wf cur k]
  have [simp]: "hl_host (residual DefaultPlacement (loadSnapshot now db) (hostOf h)) = hostOf h"
    by (simp add: residual_def)
  have [simp]: "h_Open (hostOf h) \<longleftrightarrow> hr_Status h = HostOpen" "h_Region (hostOf h) = hr_Region h"
    "h_CPUMillicores (hostOf h) = hr_CpuMillicores h" "h_MemBytes (hostOf h) = hr_MemBytes h"
    by (simp_all add: hostOf_def)
  have "feasible DefaultPlacement (replicaItem DefaultPlacement r) (residual DefaultPlacement (loadSnapshot now db) (hostOf h))
    \<longleftrightarrow> hr_Status h = HostOpen \<and> hr_Region h = tr_Region t
      \<and> tr_CpuMillicores t \<le> hr_CpuMillicores h - hu_CPUMillicores (hostUsage db (hr_ID h)) - reserveOf (headroomFor t) (hr_CpuMillicores h)
      \<and> tr_MemBytes t \<le> hr_MemBytes h - hu_MemBytes (hostUsage db (hr_ID h)) - reserveOf (headroomFor t) (hr_MemBytes h)"
    by (simp add: feasible_def fits_def Let_def replicaItem_def zero_item_def isReplacement_def row headroomFor_def
        reserveOf_def [of "pl_Headroom DefaultPlacement", symmetric])
  then show ?thesis
    by (auto simp: hostFits_def freeCPU_def freeMem_def usage healthy)
qed

section \<open>Properties\<close>

text \<open>
  C23: The usage an operator sees is the placer's own ledger: for every healthy host, what the ledger of a
  pass over the same database has left is the host's capacity (for the disk, its volume budget) less the
  usage reported for it, failed replicas and the committed bytes of volumes included.
\<close>
theorem usage_is_ledger:
  assumes "project_wf db" "all_current db" "ListHostUsage db = Inr (usage, db')"
    and "h \<in> set (db_hosts db)" "hr_HostHealthy h" "hr_ID h \<noteq> uuid_Nil"
  shows "\<exists>hl. map_of (newLedger cfg (loadSnapshot now db)) (hr_ID h) = Some hl \<and> hl_host hl = hostOf h
    \<and> hl_cpu hl = hr_CpuMillicores h - hu_CPUMillicores (usageAt usage (hr_ID h))
    \<and> hl_mem hl = hr_MemBytes h - hu_MemBytes (usageAt usage (hr_ID h))
    \<and> hl_disk hl = DiskBudget cfg (hr_DiskBytes h) - hu_DiskBytes (usageAt usage (hr_ID h))"
proof (intro exI conjI)
  show "map_of (newLedger cfg (loadSnapshot now db)) (hr_ID h) = Some (residual cfg (loadSnapshot now db) (hostOf h))"
    using assms by (auto simp: ledger_of_host project_wf_def)
qed (simp_all add: residual_usage [OF assms(1,2,6)] ListHostUsage_Inr [OF assms(3,4)], simp add: residual_def)

text \<open>
  C24: A pending replica is shown a placement blocker exactly when the placer has no host for it: on the
  ledger of a pass over the same database, with the default knobs, the choice of a host for the
  replica fails if and only if the loop over the listed hosts finds none.
\<close>
theorem blocker_tells_placement:
  assumes "project_wf db" "all_current db" "uuid_Nil \<notin> hr_ID ` set (db_hosts db)"
    and "TopologyReplicas f db = Inr (reps, db1)" "TopologyHosts (tf_Region f) db = Inr (hosts, db2)"
    and "ListHostUsage db = Inr (usage, db3)"
    and "t \<in> set reps" "unplaced t" "tr_Phase t \<noteq> ReplicaPhaseReaped" and "iteration_order ord"
  shows "\<exists>r \<in> set (sn_replicas (loadSnapshot now db)). r_ID r = tr_ID t \<and>
    (blockerAt (placementBlockers reps hosts usage) (tr_ID t) = None \<longleftrightarrow>
     pick ord DefaultPlacement (replicaItem DefaultPlacement r) (newLedger DefaultPlacement (loadSnapshot now db)) rw \<noteq> None)"
proof -
  have wf: "db_wf db" using assms(1) by (simp add: project_wf_def)
  obtain q where q: "q \<in> set (db_replicas db)" "tr_ID t = rr_ID q" "tr_Region t = rr_Region q" "tr_Phase t = rr_Phase q"
      "tr_CpuMillicores t = rr_CpuMillicores q" "tr_MemBytes t = rr_MemBytes q" "matches (tf_Region f) (rr_Region q)"
    by (rule TopologyReplicas_row [OF assms(4,7)])
  have "q \<in> set (map ar_Replica (ListActiveReplicas db))"
    using q(1,4) assms(9) by (simp add: active_rows [OF assms(1,2)] del: set_map)
  then obtain a where a: "a \<in> set (ListActiveReplicas db)" "ar_Replica a = q" by auto
  define r where "r = replicaOfRow a"
  have row: "r_ID r = tr_ID t" "rs_Region (r_Slot r) = tr_Region t" "r_CPUMillicores r = tr_CpuMillicores t"
      "r_MemBytes r = tr_MemBytes t" "r_Phase r = tr_Phase t"
    using a(2) q by (simp_all add: r_def replicaOfRow_def Let_def)
  have hosts: "set hosts = {h \<in> set (db_hosts db). matches (tf_Region f) (hr_Region h)}"
    using assms(5) by (auto simp: TopologyHosts_def)
  have fit: "feasible DefaultPlacement (replicaItem DefaultPlacement r) (residual DefaultPlacement (loadSnapshot now db) (hostOf h))
      \<longleftrightarrow> hostFits (headroomFor t) usage t h" if "h \<in> set (db_hosts db)" "hr_HostHealthy h" for h
    using that assms(3) by (intro feasible_hostFits [OF assms(1,2) _ ListHostUsage_Inr [OF assms(6)]] row) auto
  have "pick ord DefaultPlacement (replicaItem DefaultPlacement r) (newLedger DefaultPlacement (loadSnapshot now db)) rw = None
      \<longleftrightarrow> (\<forall>h \<in> set (db_hosts db). hr_HostHealthy h \<longrightarrow> \<not> hostFits (headroomFor t) usage t h)"
    unfolding pick_None [OF ledger_wf_newLedger assms(10)] ledger_of_host [OF wf] using fit by auto
  also have "\<dots> \<longleftrightarrow> \<not> (\<exists>h \<in> set hosts. hostFits (headroomFor t) usage t h)"
    using q(3,7) by (auto simp: hosts hostFits_def)
  finally show ?thesis
    using a(1) row(1) blocker_of_row [OF wf assms(4,7,8), of hosts usage] by (intro bexI [of _ r]) (auto simp: r_def)
qed

text \<open>The shop with a replica of the web service waiting in a region without hosts.\<close>

definition view_pending :: ReplicaRow where
  "view_pending = \<lparr>rr_ID = 41, rr_DeploymentID = 22, rr_Region = ''eu'', rr_HostID = None, rr_VolumeID = None,
     rr_CpuMillicores = 250, rr_MemBytes = 1000, rr_AllocReason = None, rr_DesiredStatus = ReplicaDesiredRunning,
     rr_Phase = ReplicaPhasePending, rr_Healthy = False, rr_RestartCount = 0, rr_LastExitReason = None, rr_Revision = 0,
     rr_CreatedAt = 1, rr_UpdatedAt = 1, rr_DrainedAt = None, rr_HealthChecksPassedAt = None\<rparr>"

definition view_placed :: ReplicaRow where
  "view_placed = view_pending\<lparr>rr_ID := 42, rr_DeploymentID := 31, rr_Region := ''us'', rr_HostID := Some 9,
     rr_Phase := ReplicaPhaseScheduling\<rparr>"

definition view_db :: database where
  "view_db = shop_db\<lparr>db_replicas := [view_pending, view_placed]\<rparr>"

definition view_filter :: TopologyFilter where
  "view_filter = \<lparr>tf_Project = ''p'', tf_Environment = '''', tf_Region = ''''\<rparr>"

lemmas view_defs = view_db_def view_pending_def view_placed_def shop_db_def shop_deployment_def shop_host_def shop_volume_def

lemma view_wf: "project_wf view_db"
  by (simp add: view_defs project_wf_def deployments_wf_def deployment_ok_def region_ok_def db_wf_def keys_ok_def one_current_def
      refs_ok_def replica_refs_def rows_ok_def replica_ok_def ReplicaPhase_Valid_def host_row_ok_def HostStatus_Valid_def
      volume_ok_def placed_status_def)

lemma view_current: "all_current view_db"
  by (simp add: view_defs all_current_def hasCurrent_def)

definition view_usage :: "uuid \<rightharpoonup> HostUsage" where
  "view_usage = map_of (map (\<lambda>h. (hr_ID h, hostUsage view_db (hr_ID h))) (db_hosts view_db))"

lemma view_ListHostUsage: "ListHostUsage view_db = Inr (view_usage, view_db)"
proof -
  have "list_all (\<lambda>(i, u). usage_in_range u) (map (\<lambda>h. (hr_ID h, hostUsage view_db (hr_ID h))) (db_hosts view_db))"
    by code_simp
  then show ?thesis
    by (simp add: ListHostUsage_def op_bind_def q_ListHostUsage_def Let_def op_ok_def view_usage_def)
qed

definition view_reps :: "TopologyReplicasRow list" where
  "view_reps = (case TopologyReplicas view_filter view_db of Inl e \<Rightarrow> [] | Inr (rows, db) \<Rightarrow> rows)"

lemma view_TopologyReplicas: "TopologyReplicas view_filter view_db = Inr (view_reps, view_db)"
  by (simp add: view_reps_def TopologyReplicas_def query_def)

lemma view_row: "map (\<lambda>t. (tr_ID t, unplaced t, tr_Phase t)) view_reps = [(41, True, ReplicaPhasePending), (42, False, ReplicaPhaseScheduling)]"
  by code_simp

lemma view_blocker: "blockerAt (placementBlockers view_reps (db_hosts view_db) view_usage) 41 = Some ''no hosts in eu''"
  by code_simp

theorem usage_is_ledger_witness:
  "\<exists>hl. map_of (newLedger DefaultPlacement (loadSnapshot 100 view_db)) 9 = Some hl \<and> hl_cpu hl = 3750 \<and> hl_mem hl = 8000"
proof -
  have "hu_CPUMillicores (usageAt view_usage 9) = 250" "hu_MemBytes (usageAt view_usage 9) = 1000"
    by code_simp+
  moreover have "shop_host \<in> set (db_hosts view_db)" "hr_HostHealthy shop_host" "hr_ID shop_host = 9" "hr_ID shop_host \<noteq> uuid_Nil"
      "hr_CpuMillicores shop_host = 4000" "hr_MemBytes shop_host = 9000"
    by (simp_all add: view_db_def shop_db_def shop_host_def)
  ultimately show ?thesis
    using usage_is_ledger [OF view_wf view_current view_ListHostUsage, of shop_host DefaultPlacement 100] by auto
qed

theorem blocker_tells_placement_witness:
  "\<exists>r \<in> set (sn_replicas (loadSnapshot 100 view_db)). r_ID r = 41 \<and>
     pick rev DefaultPlacement (replicaItem DefaultPlacement r) (newLedger DefaultPlacement (loadSnapshot 100 view_db)) Map.empty = None"
proof -
  obtain t rest where reps: "view_reps = t # rest"
    using view_row by (cases view_reps) simp_all
  have t: "t \<in> set view_reps" "tr_ID t = 41" "unplaced t" "tr_Phase t = ReplicaPhasePending"
    using view_row unfolding reps by auto
  have "TopologyHosts (tf_Region view_filter) view_db = Inr (db_hosts view_db, view_db)"
    by (simp add: TopologyHosts_def query_def view_filter_def matches_def view_db_def shop_db_def)
  moreover have "uuid_Nil \<notin> hr_ID ` set (db_hosts view_db)"
    by (simp add: view_db_def shop_db_def shop_host_def)
  moreover have "iteration_order rev" by (simp add: iteration_order_def)
  ultimately show ?thesis
    using blocker_tells_placement [OF view_wf view_current _ view_TopologyReplicas _ view_ListHostUsage t(1,3), of _ _ rev 100 Map.empty]
      t(2,4) view_blocker by auto
qed

section \<open>Summaries and tree\<close>

definition currentIn :: "string \<Rightarrow> topologyReplicaJSON \<Rightarrow> bool" where
  "currentIn k rep \<longleftrightarrow> tj_IsCurrent rep \<and> tj_Region rep = k"

definition summaryFor :: "regionCounts \<Rightarrow> topologyReplicaJSON list \<Rightarrow> string \<Rightarrow> regionSummaryJSON" where
  "summaryFor desired reps k = \<lparr>rg_Region = k, rg_Desired = countAt desired k,
     rg_Observed = length (filter (\<lambda>rep. currentIn k rep \<and> tj_DesiredStatus rep = ReplicaDesiredRunning) reps),
     rg_Healthy = length (filter (\<lambda>rep. currentIn k rep \<and> tj_Healthy rep) reps)\<rparr>"

definition regionShown :: "regionCounts \<Rightarrow> topologyReplicaJSON list \<Rightarrow> string \<Rightarrow> bool" where
  "regionShown desired reps k \<longleftrightarrow> k \<in> fst ` set desired \<or> (\<exists>rep \<in> set reps. currentIn k rep)"

lemma summaryFor_snoc:
  "summaryFor desired (reps @ [rep]) k = (if currentIn k rep then countReplica rep (summaryFor desired reps k) else summaryFor desired reps k)"
  by (simp add: summaryFor_def countReplica_def Let_def)

lemma summaryFor_fresh: "\<not> regionShown desired reps k \<Longrightarrow> summaryFor desired reps k = emptySummary k 0"
  by (auto simp: regionShown_def summaryFor_def emptySummary_def countAt_def filter_empty_conv split: option.splits
      dest!: map_of_SomeD intro: rev_image_eqI)

lemma summarize_map_of:
  "map_of (foldl (\<lambda>m rep. summarize rep m) (map (\<lambda>(r, n). (r, emptySummary r n)) desired) reps) k
    = (if regionShown desired reps k then Some (summaryFor desired reps k) else None)"
proof (induction reps rule: rev_induct)
  case Nil
  have "map_of (map (\<lambda>(r, n). (r, emptySummary r n)) desired) k = map_option (emptySummary k) (map_of desired k)"
    by (induction desired) auto
  then show ?case
    by (auto simp: regionShown_def summaryFor_def emptySummary_def countAt_def map_of_eq_None_iff split: option.splits
        dest: map_of_SomeD)
next
  case (snoc rep reps)
  let ?m = "foldl (\<lambda>m rep. summarize rep m) (map (\<lambda>(r, n). (r, emptySummary r n)) desired) reps"
  have shown: "regionShown desired (reps @ [rep]) k \<longleftrightarrow> regionShown desired reps k \<or> currentIn k rep"
    by (auto simp: regionShown_def)
  show ?case
  proof (cases "currentIn k rep")
    case True
    then have "map_of (summarize rep ?m) k = Some (countReplica rep (summaryFor desired reps k))"
      using snoc.IH summaryFor_fresh [of desired reps k] by (auto simp: summarize_def currentIn_def update_conv')
    with True shown show ?thesis by (simp add: summaryFor_snoc)
  next
    case False
    then have "map_of (summarize rep ?m) k = map_of ?m k"
      by (auto simp: summarize_def currentIn_def update_conv')
    with False shown snoc.IH show ?thesis by (simp add: summaryFor_snoc)
  qed
qed

lemma summarize_distinct:
  assumes "distinct (map fst desired)"
  shows "distinct (map fst (foldl (\<lambda>m rep. summarize rep m) (map (\<lambda>(r, n). (r, emptySummary r n)) desired) reps))"
proof (induction reps rule: rev_induct)
  case Nil
  have "fst \<circ> (\<lambda>(r, n). (r, emptySummary r n)) = fst" by auto
  with assms show ?case by simp
qed (simp add: summarize_def distinct_update)

text \<open>
  The summary of a service has one row per region that is asked for or still holds a replica of the
  current version, in the order of the regions' names; it counts the replicas asked for, and of the current
  version's replicas those meant to run and those that are healthy. Nothing else is counted.
\<close>
theorem region_summaries_count:
  assumes "distinct (map fst desired)"
  shows "sorted_wrt (<) (map rg_Region (regionSummaries desired reps))
    \<and> set (regionSummaries desired reps) = summaryFor desired reps ` {k. regionShown desired reps k}"
proof -
  let ?m = "foldl (\<lambda>m rep. summarize rep m) (map (\<lambda>(r, n). (r, emptySummary r n)) desired) reps"
  note d = summarize_distinct [OF assms, of reps]
  have snd: "s = summaryFor desired reps k \<and> regionShown desired reps k" if "(k, s) \<in> set ?m" for k s
    using map_of_is_SomeI [OF d that] summarize_map_of [of desired reps k] by (auto split: if_splits)
  have entry: "(k, summaryFor desired reps k) \<in> set ?m" if "regionShown desired reps k" for k
    using summarize_map_of [of desired reps k] that by (auto dest: map_of_SomeD)
  have "\<forall>e \<in> set ?m. rg_Region (snd e) = fst e"
  proof
    fix e assume "e \<in> set ?m"
    then show "rg_Region (snd e) = fst e"
      using snd [of "fst e" "snd e"] by (simp add: summaryFor_def)
  qed
  then have keys: "map rg_Region (map snd ?m) = map fst ?m" by simp
  have "mset (map rg_Region (regionSummaries desired reps)) = mset (map rg_Region (map snd ?m))"
    unfolding regionSummaries_def by (simp only: mset_map mset_sort)
  then have "distinct (map rg_Region (regionSummaries desired reps)) = distinct (map fst ?m)"
    unfolding keys by (rule mset_eq_imp_distinct_iff)
  with d have "distinct (map rg_Region (regionSummaries desired reps))" by (rule rev_iffD2)
  moreover have "sorted (map rg_Region (regionSummaries desired reps))"
    unfolding regionSummaries_def by (rule sorted_sort_key)
  moreover have "set (regionSummaries desired reps) = summaryFor desired reps ` {k. regionShown desired reps k}"
  proof (rule equalityI; rule subsetI)
    fix s assume "s \<in> set (regionSummaries desired reps)"
    then obtain k where "(k, s) \<in> set ?m" unfolding regionSummaries_def by auto
    from snd [OF this] show "s \<in> summaryFor desired reps ` {k. regionShown desired reps k}" by blast
  next
    fix s assume "s \<in> summaryFor desired reps ` {k. regionShown desired reps k}"
    then obtain k where k: "s = summaryFor desired reps k" "regionShown desired reps k" by blast
    have "s \<in> snd ` set ?m"
      unfolding k(1) by (rule image_eqI [OF _ entry [OF k(2)]], rule snd_conv [symmetric])
    then show "s \<in> set (regionSummaries desired reps)" unfolding regionSummaries_def by simp
  qed
  ultimately show ?thesis by (simp add: strict_sorted_iff)
qed

text \<open>Every service of the tree's environments hangs under its own environment, once.\<close>

lemma mset_by_key:
  assumes "distinct ks" "\<And>x. x \<in> set xs \<Longrightarrow> key x \<in> set ks"
  shows "mset (concat (map (\<lambda>k. filter (\<lambda>x. key x = k) xs) ks)) = mset xs"
  using assms
proof (induction ks arbitrary: xs)
  case Nil
  then show ?case by (cases xs) auto
next
  case (Cons k ks)
  have "filter (\<lambda>x. key x = j) xs = filter (\<lambda>x. key x = j) (filter (\<lambda>x. key x \<noteq> k) xs)" if "j \<in> set ks" for j
    unfolding filter_filter by (rule filter_cong) (use Cons.prems(1) that in auto)
  then have "map (\<lambda>k. filter (\<lambda>x. key x = k) xs) ks = map (\<lambda>j. filter (\<lambda>x. key x = j) (filter (\<lambda>x. key x \<noteq> k) xs)) ks"
    by simp
  then have "mset (concat (map (\<lambda>k. filter (\<lambda>x. key x = k) xs) ks)) = mset (filter (\<lambda>x. key x \<noteq> k) xs)"
    using Cons.IH [of "filter (\<lambda>x. key x \<noteq> k) xs"] Cons.prems by (simp only:) auto
  then show ?case
    by (simp only: list.map concat.simps mset_append mset_filter)
      (simp add: multiset_partition [symmetric])
qed

theorem tree_lists_every_service:
  assumes "distinct projects" "distinct (map fst environments)"
    and "\<And>e. e \<in> set environments \<Longrightarrow> fst (snd e) \<in> set projects"
    and "\<And>n. n \<in> set nodes \<Longrightarrow> nd_EnvironmentID n \<in> fst ` set environments"
  shows "mset (concat (map en_Services (concat (map pn_Environments (buildTree projects environments nodes))))) = mset nodes"
proof -
  let ?node = "\<lambda>(i, project, name). \<lparr>en_ID = i, en_Name = name, en_Services = filter (\<lambda>n. nd_EnvironmentID n = i) nodes\<rparr>"
  let ?of = "\<lambda>p. filter (\<lambda>e. fst (snd e) = p) environments"
  have "concat (map pn_Environments (buildTree projects environments nodes)) = map ?node (concat (map ?of projects))"
    by (simp add: buildTree_def Let_def appendAll_filter [abs_def] o_def map_concat case_prod_beta')
  then have "concat (map en_Services (concat (map pn_Environments (buildTree projects environments nodes))))
      = concat (map (\<lambda>e. filter (\<lambda>n. nd_EnvironmentID n = fst e) nodes) (concat (map ?of projects)))"
    by (simp add: o_def case_prod_beta' del: map_concat)
  also have "mset \<dots> = sum_mset (image_mset (\<lambda>e. mset (filter (\<lambda>n. nd_EnvironmentID n = fst e) nodes)) (mset (concat (map ?of projects))))"
    by (simp only: mset_concat mset_map sum_mset_sum_list [symmetric] multiset.map_comp o_def)
  also have "mset (concat (map ?of projects)) = mset environments"
    by (rule mset_by_key) (use assms(1,3) in auto)
  also have "sum_mset (image_mset (\<lambda>e. mset (filter (\<lambda>n. nd_EnvironmentID n = fst e) nodes)) (mset environments))
      = mset (concat (map (\<lambda>k. filter (\<lambda>n. nd_EnvironmentID n = k) nodes) (map fst environments)))"
    by (simp only: mset_concat mset_map sum_mset_sum_list [symmetric] multiset.map_comp o_def)
  also have "\<dots> = mset nodes"
    by (rule mset_by_key) (use assms(2,4) in auto)
  finally show ?thesis .
qed

text \<open>A replica of the current version waits in a region that is not asked for any more.\<close>

definition view_shown :: "topologyReplicaJSON list" where
  "view_shown = map (topologyReplica Map.empty) view_reps"

theorem region_summaries_count_witness:
  "\<exists>s \<in> set (regionSummaries [(''us'', 2)] view_shown). rg_Region s = ''eu'' \<and> rg_Desired s = 0 \<and> rg_Observed s = 1 \<and> rg_Healthy s = 0"
proof -
  have d: "distinct (map fst [(''us'', 2 :: int)])" by simp
  have "list_ex (currentIn ''eu'') view_shown" by code_simp
  then have "regionShown [(''us'', 2)] view_shown ''eu''" by (auto simp: regionShown_def list_ex_iff)
  then have "summaryFor [(''us'', 2)] view_shown ''eu'' \<in> set (regionSummaries [(''us'', 2)] view_shown)"
    using region_summaries_count [OF d, of view_shown] by auto
  moreover have "summaryFor [(''us'', 2)] view_shown ''eu'' = \<lparr>rg_Region = ''eu'', rg_Desired = 0, rg_Observed = 1, rg_Healthy = 0\<rparr>"
    by code_simp
  ultimately show ?thesis by (intro bexI) simp_all
qed

end
