(* ===== verification/VolumeLife.thy ===== *)
theory VolumeLife
  imports ProjectProperties
begin

text \<open>
  The life of a volume's size between the operator and the engine: what a grow request writes, that the
  answer it gets is the engine's first verdict, that a parked grow can be taken back once, and what two
  requests at the same time lose.
\<close>

section \<open>The request\<close>

lemma mayGrow_iff: "mayGrow sz n \<longleftrightarrow> vs_Status sz \<in> {VolumePending, VolumeAttached} \<and> \<not> Drifting sz \<and> vs_Desired sz < n"
  by (auto simp: mayGrow_def)

lemma mayGrow_row: "mayGrow (SizingOf v) n \<longleftrightarrow>
    vr_Status v \<in> {VolumePending, VolumeAttached} \<and> \<not> Drifting (SizingOf v) \<and> vr_DesiredSizeBytes v < n"
  by (simp add: mayGrow_iff) (simp add: SizingOf_def)

lemma grown_simps [simp]:
  "vr_ID (grown n v) = vr_ID v" "vr_HostID (grown n v) = vr_HostID v" "vr_DesiredSizeBytes (grown n v) = n"
  "vr_PreviousDesiredSizeBytes (grown n v) = Some (vr_DesiredSizeBytes v)" "vr_Status (grown n v) = vr_Status v"
  by (simp_all add: grown_def)

lemma resizeAdvice_volume [simp]: "rz_Volume (resizeAdvice v h vs) = v"
  by (simp add: resizeAdvice_def Let_def)

lemma UpdateVolumeSize_quiet:
  assumes "find (volumeHit e m) (db_volumes db) = Some v" "0 < n"
  shows "UpdateVolumeSize e m n db = Inr (grown n v, snd (updateVolumes (volumeHit e m) (grown n) db))"
proof -
  obtain vs where "filter (volumeHit e m) (db_volumes db) = v # vs"
    using assms(1) by (auto simp: filter_Cons_find [symmetric])
  moreover have "(\<lambda>v. v\<lparr>vr_PreviousDesiredSizeBytes := Some (vr_DesiredSizeBytes v), vr_DesiredSizeBytes := n\<rparr>) = grown n"
    by (simp add: fun_eq_iff grown_def)
  moreover have "list_all volume_ok (map (grown n) ws)" for ws
    using assms(2) by (simp add: list_all_iff volume_ok_def)
  ultimately show ?thesis
    by (simp add: UpdateVolumeSize_def q_UpdateVolumeSize_def mapError_def updateVolumeRow_def del: updateVolumes_simps list.map)
qed

text \<open>What a request sees: the volume it names.\<close>

definition namedVolume :: "database \<Rightarrow> Target \<Rightarrow> string \<Rightarrow> (uuid \<times> VolumeRow) option" where
  "namedVolume db t m = (case boundTo db t of None \<Rightarrow> None
     | Some b \<Rightarrow> map_option (\<lambda>v. (boundID b, v)) (find (volumeHit (boundID b) m) (db_volumes db)))"

lemma environmentServiceID_None: "boundTo db t = None \<Longrightarrow> \<exists>e. environmentServiceID t db = Inl e"
  using environmentServiceID_Inr [of t db] by (cases "environmentServiceID t db") auto

lemma GetVolume_None: "find (volumeHit i m) (db_volumes db) = None \<Longrightarrow> \<exists>e. GetVolume i m db = Inl e"
  using GetVolume_Inr [of i m db] by (cases "GetVolume i m db") auto

lemma GetHost_known:
  assumes "h \<in> hr_ID ` set (db_hosts db)"
  shows "\<exists>host \<in> set (db_hosts db). hr_ID host = h \<and> GetHost h db = Inr (host, db)"
proof -
  obtain host where host: "find (\<lambda>x. hr_ID x = h) (db_hosts db) = Some host"
    using assms by (cases "find (\<lambda>x. hr_ID x = h) (db_hosts db)") (auto simp: find_None_iff)
  then have "GetHost h db = Inr (host, db)"
    by (auto simp: GetHost_def q_GetHost_def queryRow_Inr filter_Cons_find)
  with find_Some_set [OF host] show ?thesis by blast
qed

lemma ResizeVolume_refused:
  assumes "namedVolume db t m = None \<or> (\<exists>i v. namedVolume db t m = Some (i, v) \<and> \<not> mayGrow (SizingOf v) n)"
  shows "\<exists>e k'. ResizeVolume quiet t m n (k, db) = (Inl e, (k', db))"
proof (cases "boundTo db t")
  case None
  then obtain e where "environmentServiceID t db = Inl e" using environmentServiceID_None by blast
  then show ?thesis by (simp add: ResizeVolume_steps run_bind_def quiet_stmt)
next
  case (Some b)
  then have id: "environmentServiceID t db = Inr (boundID b, db)" by (simp add: environmentServiceID_Inr)
  show ?thesis
  proof (cases "find (volumeHit (boundID b) m) (db_volumes db)")
    case None
    then obtain e where "GetVolume (boundID b) m db = Inl e" using GetVolume_None by blast
    with id show ?thesis by (simp add: ResizeVolume_steps run_bind_def quiet_stmt)
  next
    case v: (Some v)
    then have "GetVolume (boundID b) m db = Inr (v, db)" by (simp add: GetVolume_Inr)
    moreover have "\<not> mayGrow (SizingOf v) n" using assms Some v by (simp add: namedVolume_def)
    ultimately show ?thesis using id by (simp add: ResizeVolume_steps run_bind_def quiet_stmt run_err_def)
  qed
qed

lemma ResizeVolume_accepted:
  assumes "db_wf db" "namedVolume db t m = Some (i, v)" "mayGrow (SizingOf v) n"
  shows "\<exists>out k'. ResizeVolume quiet t m n (k, db) = (Inr out, (k', snd (updateVolumes (volumeHit i m) (grown n) db)))
    \<and> rz_Volume out = grown n v
    \<and> (case vr_HostID v of
         None \<Rightarrow> \<not> rz_WaitingForSpace out
       | Some h \<Rightarrow> \<exists>host \<in> set (db_hosts db). hr_ID host = h \<and> out = resizeAdvice (grown n v) host
           (sort_by (uuidCmp vr_ID) (filter (\<lambda>v. vr_HostID v = Some h) (db_volumes (snd (updateVolumes (volumeHit i m) (grown n) db))))))"
proof -
  let ?db' = "snd (updateVolumes (volumeHit i m) (grown n) db)"
  obtain b where b: "boundTo db t = Some b" "i = boundID b" and v: "find (volumeHit i m) (db_volumes db) = Some v"
    using assms(2) by (auto simp: namedVolume_def split: option.splits)
  have vin: "v \<in> set (db_volumes db)" using find_Some_set [OF v] by simp
  then have "0 < vr_DesiredSizeBytes v" using assms(1) by (auto simp: db_wf_def rows_ok_def volume_ok_def)
  then have "0 < n" using assms(3) by (simp add: mayGrow_iff SizingOf_def)
  note upd = UpdateVolumeSize_quiet [OF v this]
  have steps: "environmentServiceID t db = Inr (i, db)" "GetVolume i m db = Inr (v, db)"
    using b v by (simp_all add: environmentServiceID_Inr GetVolume_Inr)
  show ?thesis
  proof (cases "vr_HostID v")
    case None
    with steps upd assms(3) show ?thesis
      by (simp add: ResizeVolume_steps run_bind_def quiet_stmt run_ok_def del: updateVolumes_simps)
  next
    case (Some h)
    then have "h \<in> hr_ID ` set (db_hosts db)"
      using assms(1) vin by (auto simp: db_wf_def refs_ok_def)
    moreover have "db_hosts ?db' = db_hosts db" by simp
    ultimately obtain host where host: "host \<in> set (db_hosts db)" "hr_ID host = h" "GetHost h ?db' = Inr (host, ?db')"
      using GetHost_known [of h ?db'] by (auto simp del: updateVolumes_simps)
    with steps upd assms(3) Some show ?thesis
      by (auto simp: ResizeVolume_steps run_bind_def quiet_stmt run_ok_def ListVolumesByHost_def simp del: updateVolumes_simps)
  qed
qed

text \<open>
  A grow request does exactly one thing. When nobody else writes meanwhile, it is accepted if and
  only if the target names a volume that is unplaced or attached, has no grow outstanding and is smaller
  than the size asked for; it then sets that volume's desired size, remembers the size it replaced, and
  changes nothing else. A refused request leaves the database as it was.
\<close>
theorem resize_grows_once:
  assumes "db_wf db"
  shows "\<exists>r k' db'. ResizeVolume quiet t m n (k, db) = (r, (k', db')) \<and>
    (case namedVolume db t m of
       None \<Rightarrow> isl r \<and> db' = db
     | Some (i, v) \<Rightarrow>
         if vr_Status v \<in> {VolumePending, VolumeAttached} \<and> \<not> Drifting (SizingOf v) \<and> vr_DesiredSizeBytes v < n
         then \<not> isl r \<and> rz_Volume (projr r) = grown n v
           \<and> db' = db\<lparr>db_volumes := map (\<lambda>w. if volumeHit i m w then grown n w else w) (db_volumes db)\<rparr>
         else isl r \<and> db' = db)"
proof (cases "\<exists>i v. namedVolume db t m = Some (i, v) \<and> mayGrow (SizingOf v) n")
  case True
  then obtain i v where v: "namedVolume db t m = Some (i, v)" "mayGrow (SizingOf v) n" by blast
  then have "vr_Status v \<in> {VolumePending, VolumeAttached} \<and> \<not> Drifting (SizingOf v) \<and> vr_DesiredSizeBytes v < n"
    by (simp add: mayGrow_row)
  with ResizeVolume_accepted [OF assms v, of k] v show ?thesis by auto
next
  case False
  then have "namedVolume db t m = None \<or> (\<exists>i v. namedVolume db t m = Some (i, v) \<and> \<not> mayGrow (SizingOf v) n)"
    by (cases "namedVolume db t m") auto
  from ResizeVolume_refused [OF this, of k] obtain e k' where r: "ResizeVolume quiet t m n (k, db) = (Inl e, (k', db))"
    by blast
  show ?thesis
    by (intro exI conjI, rule r) (use False in \<open>auto simp: mayGrow_row split: option.splits\<close>)
qed

lemma shop_named: "map_option snd (namedVolume shop_db (shop_target ''pg'') ''/data'') = Some shop_volume"
  by code_simp

lemma shop_volume_sizing: "vr_Status shop_volume = VolumeAttached" "\<not> Drifting (SizingOf shop_volume)" "vr_DesiredSizeBytes shop_volume = 100"
  by (simp_all add: shop_volume_def SizingOf_def Drifting_def)

theorem resize_grows_once_witness:
  "\<exists>r k' db'. ResizeVolume quiet (shop_target ''pg'') ''/data'' 200 (0, shop_db) = (r, (k', db')) \<and> \<not> isl r \<and> rz_Volume (projr r) = grown 200 shop_volume"
proof -
  have "db_wf shop_db" using shop_wf by (simp add: project_wf_def)
  from resize_grows_once [OF this, of "shop_target ''pg''" "''/data''" 200 0] shop_named show ?thesis
    by (auto simp: shop_volume_sizing)
qed

section \<open>The advice\<close>

lemma sum_list_int_nonneg:
  fixes f :: "'a \<Rightarrow> int"
  shows "(\<And>v. v \<in> set vs \<Longrightarrow> 0 \<le> f v) \<Longrightarrow> 0 \<le> (\<Sum>v\<leftarrow>vs. f v)"
  by (induction vs) (auto intro: add_nonneg_nonneg)

lemma sum_int64:
  assumes "\<And>v. v \<in> set vs \<Longrightarrow> 0 \<le> f v" "0 \<le> c" "c + (\<Sum>v\<leftarrow>vs. f v) < 2 ^ 63"
  shows "foldl (\<lambda>c v. to_int64 (c + f v)) c vs = c + (\<Sum>v\<leftarrow>vs. f v)"
  using assms
proof (induction vs arbitrary: c)
  case (Cons v vs)
  have "0 \<le> f v" and rest: "0 \<le> (\<Sum>v\<leftarrow>vs. f v)" using Cons.prems(1) by (auto intro!: sum_list_int_nonneg)
  then have "is_int64 (c + f v)" using Cons.prems(2,3) by (simp add: is_int64_def)
  moreover have "foldl (\<lambda>c v. to_int64 (c + f v)) (c + f v) vs = c + f v + (\<Sum>v\<leftarrow>vs. f v)"
    by (rule Cons.IH) (use Cons.prems \<open>0 \<le> f v\<close> in auto)
  ultimately show ?case by simp
qed simp

lemma sum_list_mset_eq:
  fixes f :: "'a \<Rightarrow> int"
  assumes "mset xs = mset ys"
  shows "(\<Sum>x\<leftarrow>xs. f x) = (\<Sum>x\<leftarrow>ys. f x)"
  using assms by (metis mset_map sum_mset_sum_list)

text \<open>A host whose volumes all belong to deployed services: both sides add up the same volumes.\<close>

definition allActive :: "database \<Rightarrow> uuid \<Rightarrow> bool" where
  "allActive db h \<longleftrightarrow> (\<forall>w \<in> set (db_volumes db). vr_HostID w = Some h \<longrightarrow>
     (\<exists>d \<in> set (db_deployments db). dep_EnvironmentServiceID d = vr_EnvironmentServiceID w \<and> dep_IsCurrent d))"

lemma active_volumes_on:
  assumes "db_wf db" "allActive db h"
  shows "mset (filter (\<lambda>v. vr_HostID v = Some h) (ListActiveVolumes db)) = mset (filter (\<lambda>v. vr_HostID v = Some h) (db_volumes db))"
proof -
  have "distinct (ListActiveVolumes db)" "distinct (db_volumes db)"
    using distinct_active_volumes [OF assms(1)] db_wf_rows(8) [OF assms(1)] by (auto simp: distinct_map)
  moreover have "set (filter (\<lambda>v. vr_HostID v = Some h) (ListActiveVolumes db)) = set (filter (\<lambda>v. vr_HostID v = Some h) (db_volumes db))"
    using assms(2) by (auto simp: ListActiveVolumes_def allActive_def)
  ultimately show ?thesis by (subst set_eq_iff_mset_eq_distinct [symmetric]) (simp_all only: distinct_filter)
qed

lemma committed_nonneg: "db_wf db \<Longrightarrow> v \<in> set (db_volumes db) \<Longrightarrow> 0 \<le> Committed (SizingOf v)"
  by (rule less_imp_le, rule Committed_pos) (auto simp: db_wf_def rows_ok_def volume_ok_def SizingOf_def)

text \<open>The bytes a host's volumes commit.\<close>

definition committedOn :: "database \<Rightarrow> uuid \<Rightarrow> int" where
  "committedOn db h = (\<Sum>v\<leftarrow>filter (\<lambda>v. vr_HostID v = Some h) (db_volumes db). Committed (SizingOf v))"

lemma ledger_disk:
  assumes "db_wf db" "host \<in> set (db_hosts db)" "hr_HostHealthy host" "hr_ID host \<noteq> uuid_Nil" "allActive db (hr_ID host)"
    and "map_of (newLedger cfg (loadSnapshot now db)) (hr_ID host) = Some hl"
  shows "hl_disk hl = DiskBudget cfg (hr_DiskBytes host) - committedOn db (hr_ID host)"
proof -
  let ?snap = "loadSnapshot now db" and ?h = "hr_ID host"
  have ids: "h_ID (hostOf host) = ?h" by (simp add: hostOf_def)
  have "index_last h_ID (sn_hosts ?snap) (h_ID (hostOf host)) = Some (hostOf host)"
    by (rule index_last_distinct)
      (use loadSnapshot_wf [OF assms(1)] assms(2,3) in \<open>auto simp: snapshot_wf_def ListHealthyHosts_def\<close>)
  then have hl: "hl = residual cfg ?snap (hostOf host)"
    using assms(6) by (simp add: map_of_newLedger ids)
  have "volumesOn ?snap ?h = map volumeOfRow (filter (\<lambda>v. vr_HostID v = Some ?h) (ListActiveVolumes db))"
    using assms(4) by (auto simp: volumesOn_def filter_map comp_def volumeOfRow_def UUID_def
        intro!: arg_cong [where f = "map volumeOfRow"] filter_cong split: option.splits)
  then have "(\<Sum>v\<leftarrow>volumesOn ?snap ?h. Committed (v_Sizing v))
      = (\<Sum>v\<leftarrow>filter (\<lambda>v. vr_HostID v = Some ?h) (ListActiveVolumes db). Committed (SizingOf v))"
    by (simp add: comp_def volumeOfRow_def)
  also have "\<dots> = committedOn db ?h"
    unfolding committedOn_def by (rule sum_list_mset_eq [OF active_volumes_on [OF assms(1,5)]])
  finally show ?thesis
    by (simp add: hl residual_def ids diskBudget_def) (simp add: hostOf_def)
qed

lemma fits_resizeItem:
  "fits cfg (resizeItem v) hl \<longleftrightarrow> 0 \<le> hl_cpu hl \<and> 0 \<le> hl_mem hl \<and> (GrowDelta (v_Sizing v) \<le> 0 \<or> GrowDelta (v_Sizing v) \<le> hl_disk hl)"
  by (simp add: fits_def Let_def) (auto simp: resizeItem_def zero_item_def)

text \<open>
  C21: The answer to a grow request is the engine's first verdict. For an attached, drifting volume on a
  healthy host whose volumes all belong to deployed services, whose cpu and memory are not overdrawn and
  whose sizes fit int64, the answer says "waiting for space" exactly when the engine, meeting the volume
  on the ledger of a snapshot of the same state under the default knobs, parks it as pending; otherwise
  the engine approves the grow, and the shortfall reported is what the host's volume budget lacks.
\<close>
theorem advice_is_first_verdict:
  assumes "db_wf db" "host \<in> set (db_hosts db)" "hr_HostHealthy host" "hr_ID host \<noteq> uuid_Nil" "allActive db (hr_ID host)"
    and "vr_HostID v = Some (hr_ID host)" "vr_Status v = VolumeAttached" "Drifting (SizingOf v)"
    and "map_of (newLedger DefaultPlacement (loadSnapshot now db)) (hr_ID host) = Some hl" "0 \<le> hl_cpu hl" "0 \<le> hl_mem hl"
    and "committedOn db (hr_ID host) + GrowDelta (SizingOf v) < 2 ^ 63"
    and "ListVolumesByHost (hr_ID host) db = Inr (onHost, db)"
  shows "fst (resizeStep DefaultPlacement (volumeOfRow v) (newLedger DefaultPlacement (loadSnapshot now db)))
      = [(mkIntent (if rz_WaitingForSpace (resizeAdvice v host onHost) then IntentVolumeResizePending else IntentResizeVolume))
           \<lparr>it_VolumeID := vr_ID v\<rparr>]
    \<and> rz_ShortfallBytes (resizeAdvice v host onHost)
      = max 0 (committedOn db (hr_ID host) + GrowDelta (SizingOf v) - DiskBudget DefaultPlacement (hr_DiskBytes host))"
proof -
  let ?h = "hr_ID host" and ?led = "newLedger DefaultPlacement (loadSnapshot now db)"
  have grow: "0 < GrowDelta (SizingOf v)" by (rule Drifting_GrowDelta_pos [OF assms(8)])
  have on: "mset onHost = mset (filter (\<lambda>v. vr_HostID v = Some ?h) (db_volumes db))"
    using assms(13) by (auto simp: ListVolumesByHost_def)
  have sum: "(\<Sum>w\<leftarrow>onHost. Committed (SizingOf w)) = committedOn db ?h"
    unfolding committedOn_def by (rule sum_list_mset_eq [OF on])
  have nn: "0 \<le> Committed (SizingOf w)" if "w \<in> set onHost" for w
    using that mset_eq_setD [OF on] committed_nonneg [OF assms(1)] by auto
  then have com: "0 \<le> committedOn db ?h" unfolding sum [symmetric] by (intro sum_list_int_nonneg)
  have fold: "foldl (\<lambda>c w. to_int64 (c + Committed (SizingOf w))) 0 onHost = committedOn db ?h"
    using sum_int64 [of onHost "\<lambda>w. Committed (SizingOf w)" 0] nn assms(12) grow by (simp add: sum)
  have "is_int64 (committedOn db ?h + GrowDelta (SizingOf v))"
    using com grow assms(12) by (simp add: is_int64_def)
  then have waits: "rz_WaitingForSpace (resizeAdvice v host onHost) \<longleftrightarrow>
      committedOn db ?h + GrowDelta (SizingOf v) > DiskBudget DefaultPlacement (hr_DiskBytes host)"
    and short: "rz_ShortfallBytes (resizeAdvice v host onHost)
      = max 0 (committedOn db ?h + GrowDelta (SizingOf v) - DiskBudget DefaultPlacement (hr_DiskBytes host))"
    by (simp_all add: resizeAdvice_def Let_def fold)
  have vol: "v_Sizing (volumeOfRow v) = SizingOf v" "v_HostID (volumeOfRow v) = ?h" "v_ID (volumeOfRow v) = vr_ID v"
    "vs_Status (SizingOf v) = VolumeAttached"
    using assms(6,7) by (simp_all add: volumeOfRow_def) (simp add: SizingOf_def)
  have "fits DefaultPlacement (resizeItem (volumeOfRow v)) hl \<longleftrightarrow> \<not> rz_WaitingForSpace (resizeAdvice v host onHost)"
    unfolding fits_resizeItem waits vol ledger_disk [OF assms(1-5,9)] using assms(10,11) grow by linarith
  then have "fst (resizeStep DefaultPlacement (volumeOfRow v) ?led)
      = [(mkIntent (if rz_WaitingForSpace (resizeAdvice v host onHost) then IntentVolumeResizePending else IntentResizeVolume))
           \<lparr>it_VolumeID := vr_ID v\<rparr>]"
    using assms(8,9) unfolding resizeStep_def Let_def vol by (simp add: Drifting_def)
  with short show ?thesis by blast
qed

definition grow_db :: database where
  "grow_db = shop_db\<lparr>db_volumes := [grown 200 shop_volume]\<rparr>"

lemma grow_wf: "db_wf grow_db"
  using shop_wf
  by (simp add: grow_db_def shop_db_def project_wf_def db_wf_def keys_ok_def one_current_def refs_ok_def rows_ok_def
      shop_volume_def grown_def volume_ok_def placed_status_def)

lemma grow_ledger: "map_option (\<lambda>hl. (hl_cpu hl, hl_mem hl)) (map_of (newLedger DefaultPlacement (loadSnapshot 100 grow_db)) 9) = Some (4000, 9000)"
  by code_simp

theorem advice_is_first_verdict_witness:
  "\<exists>onHost. fst (resizeStep DefaultPlacement (volumeOfRow (grown 200 shop_volume)) (newLedger DefaultPlacement (loadSnapshot 100 grow_db)))
      = [(mkIntent (if rz_WaitingForSpace (resizeAdvice (grown 200 shop_volume) shop_host onHost) then IntentVolumeResizePending
          else IntentResizeVolume))\<lparr>it_VolumeID := 5\<rparr>]"
proof -
  obtain hl where hl: "map_of (newLedger DefaultPlacement (loadSnapshot 100 grow_db)) (hr_ID shop_host) = Some hl" "0 \<le> hl_cpu hl" "0 \<le> hl_mem hl"
    using grow_ledger by (auto simp: shop_host_def)
  have facts: "shop_host \<in> set (db_hosts grow_db)" "hr_HostHealthy shop_host" "hr_ID shop_host \<noteq> uuid_Nil"
    "allActive grow_db (hr_ID shop_host)" "vr_HostID (grown 200 shop_volume) = Some (hr_ID shop_host)"
    "vr_Status (grown 200 shop_volume) = VolumeAttached" "Drifting (SizingOf (grown 200 shop_volume))"
    "committedOn grow_db (hr_ID shop_host) + GrowDelta (SizingOf (grown 200 shop_volume)) < 2 ^ 63"
    by (simp_all add: grow_db_def shop_db_def shop_host_def shop_volume_def grown_def allActive_def shop_deployment_def
        SizingOf_def Drifting_def Reported_def committedOn_def Committed_def GrowDelta_def)
  show ?thesis
    using advice_is_first_verdict [OF grow_wf facts(1-7) hl facts(8), where onHost = "sort_by (uuidCmp vr_ID)
        (filter (\<lambda>v. vr_HostID v = Some (hr_ID shop_host)) (db_volumes grow_db))"]
    by (auto simp: ListVolumesByHost_def shop_volume_def)
qed

section \<open>Taking a grow back\<close>

text \<open>The database with one volume's row replaced.\<close>

definition setRow :: "VolumeRow \<Rightarrow> VolumeRow \<Rightarrow> database \<Rightarrow> database" where
  "setRow v x db = db\<lparr>db_volumes := map (\<lambda>w. if w = v then x else w) (db_volumes db)\<rparr>"

lemma setRow_update:
  assumes "P x" "\<forall>w \<in> set (db_volumes db). w \<noteq> v \<longrightarrow> \<not> P w"
  shows "snd (updateVolumes P f (setRow v x db)) = setRow v (f x) db"
  using assms by (auto simp: setRow_def)

lemma setRow_find:
  assumes "P x" "\<forall>w \<in> set (db_volumes db). w \<noteq> v \<longrightarrow> \<not> P w" "v \<in> set (db_volumes db)"
  shows "find P (db_volumes (setRow v x db)) = Some x"
proof -
  have "find P (map (\<lambda>w. if w = v then x else w) ws) = Some x"
    if "v \<in> set ws" "\<forall>w \<in> set ws. w \<noteq> v \<longrightarrow> \<not> P w" for ws
    using that assms(1) by (induction ws) auto
  with assms(2,3) show ?thesis by (simp add: setRow_def)
qed

lemma setRow_status:
  assumes "db_wf db" "v \<in> set (db_volumes db)" "vr_ID x = vr_ID v" "Q x"
  shows "orConflict (exec_rows (updateVolumes (\<lambda>w. vr_ID w = vr_ID v \<and> Q w) f)) (setRow v x db) = Inr ((), setRow v (f x) db)"
proof -
  let ?P = "\<lambda>w. vr_ID w = vr_ID v \<and> Q w"
  have others: "\<forall>w \<in> set (db_volumes db). w \<noteq> v \<longrightarrow> \<not> ?P w"
    using db_wf_rows(8) [OF assms(1)] assms(2) by (auto simp: distinct_map inj_on_def)
  have "x \<in> set (filter ?P (db_volumes (setRow v x db)))"
    using assms(2-4) by (auto simp: setRow_def)
  then have "filter ?P (db_volumes (setRow v x db)) \<noteq> []" by (metis empty_iff list.set(1))
  then have "fst (updateVolumes ?P f (setRow v x db)) \<noteq> 0" by simp
  moreover have "snd (updateVolumes ?P f (setRow v x db)) = setRow v (f x) db"
    by (rule setRow_update) (use assms(3,4) others in auto)
  ultimately show ?thesis
    by (auto simp: orConflict_def op_bind_def exec_rows_def op_ok_def simp del: updateVolumes_simps split: prod.splits)
qed

lemma setRow_named:
  assumes "namedVolume db t m = Some (i, v)" "\<forall>w \<in> set (db_volumes db). volumeHit i m w \<longrightarrow> w = v" "volumeHit i m x"
  shows "namedVolume (setRow v x db) t m = Some (i, x)"
proof -
  obtain b where b: "boundTo db t = Some b" "i = boundID b" "find (volumeHit i m) (db_volumes db) = Some v"
    using assms(1) by (auto simp: namedVolume_def split: option.splits)
  have "find (volumeHit i m) (db_volumes (setRow v x db)) = Some x"
    by (rule setRow_find) (use assms(2,3) find_Some_set [OF b(3)] in auto)
  moreover have "boundTo (setRow v x db) t = Some b"
    using b(1) by (simp add: boundTo_def bindings_def setRow_def)
  ultimately show ?thesis using b(2) by (simp add: namedVolume_def)
qed

lemma named_steps:
  assumes "namedVolume db t m = Some (i, v)"
  shows "environmentServiceID t db = Inr (i, db)" "GetVolume i m db = Inr (v, db)" "v \<in> set (db_volumes db)" "volumeHit i m v"
  using assms find_Some_set [of "volumeHit i m" "db_volumes db" v]
  by (auto simp: namedVolume_def environmentServiceID_Inr GetVolume_Inr split: option.splits)

definition reverted :: "int \<Rightarrow> VolumeRow \<Rightarrow> VolumeRow" where
  "reverted n v = v\<lparr>vr_DesiredSizeBytes := n, vr_PreviousDesiredSizeBytes := None\<rparr>"

lemma RevertVolume_accepted:
  assumes "namedVolume db t m = Some (i, v)" "\<forall>w \<in> set (db_volumes db). volumeHit i m w \<longrightarrow> w = v"
    and "vr_Status x = VolumeResizePending" "vr_PreviousDesiredSizeBytes x = Some p" "0 < p" "volumeHit i m x"
  shows "\<exists>k'. RevertVolume quiet t m (k, setRow v x db) = (Inr (reverted p x), (k', setRow v (reverted p x) db))"
proof -
  let ?db = "setRow v x db" and ?P = "\<lambda>w. volumeHit i m w \<and> revertible w"
  let ?f = "\<lambda>v. v\<lparr>vr_DesiredSizeBytes := (case vr_PreviousDesiredSizeBytes v of None \<Rightarrow> 0 | Some n \<Rightarrow> n), vr_PreviousDesiredSizeBytes := None\<rparr>"
  have others: "\<forall>w \<in> set (db_volumes db). w \<noteq> v \<longrightarrow> \<not> ?P w" using assms(2) by auto
  have x: "?P x" "?f x = reverted p x" using assms(3,4,6) by (simp_all add: revertible_def reverted_def)
  have "find ?P (db_volumes ?db) = Some x"
    by (rule setRow_find [where P = ?P]) (use x others named_steps(3) [OF assms(1)] in auto)
  then obtain vs where vs: "filter ?P (db_volumes ?db) = x # vs" by (auto simp: filter_Cons_find [symmetric])
  have only: "w = x" if "w \<in> set (db_volumes ?db)" "?P w" for w
    using that others by (auto simp: setRow_def split: if_splits)
  then have all: "w = x" if "w \<in> set (filter ?P (db_volumes ?db))" for w using that by auto
  have "volume_ok (?f x)"
    unfolding x(2) using assms(5) by (simp add: volume_ok_def reverted_def)
  then have "list_all volume_ok (map ?f (filter ?P (db_volumes ?db)))"
    unfolding list_all_iff set_map using all by fast
  moreover have "snd (updateVolumes ?P ?f ?db) = setRow v (?f x) db"
    by (rule setRow_update) (use x others in auto)
  ultimately have "RevertVolumeSize i m ?db = Inr (reverted p x, setRow v (reverted p x) db)"
    using vs x(2) by (simp add: RevertVolumeSize_def q_RevertVolumeSize_def mapError_def updateVolumeRow_def del: updateVolumes_simps list.map)
  moreover have "namedVolume ?db t m = Some (i, x)" by (rule setRow_named) (use assms in auto)
  note named_steps(1,2) [OF this]
  ultimately show ?thesis
    using assms(3) by (simp add: RevertVolume_def run_bind_def quiet_stmt SizingOf_def)
qed

lemma RevertVolume_refused:
  assumes "namedVolume db t m = Some (i, v)" "vr_Status v \<noteq> VolumeResizePending"
  shows "\<exists>k'. RevertVolume quiet t m (k, db) = (Inl ErrInvalid, (k', db))"
  using named_steps(1,2) [OF assms(1)] assms(2) by (simp add: RevertVolume_def run_bind_def quiet_stmt run_err_def SizingOf_def)

text \<open>
  C22: A grow the host cannot hold can be taken back, once. For an attached, caught-up volume: request a
  larger size, let the engine park it, revert, let the engine settle it - with nobody else writing, every
  step succeeds, and the database is the original one (the volume's size and status included; only a
  stale revert target, if it had one, is gone). Reverting again is refused and changes nothing.
\<close>
theorem parked_grow_reverts:
  assumes "db_wf db" and "namedVolume db t m = Some (i, v)" and "\<forall>w \<in> set (db_volumes db). volumeHit i m w \<longrightarrow> w = v"
    and "vr_Status v = VolumeAttached" "vr_ObservedSizeBytes v = Some ob" "vr_DesiredSizeBytes v \<le> ob" "ob < n"
  shows "\<exists>out k1 db1 db2 vol k3 db3 db4 k5.
      ResizeVolume quiet t m n (k, db) = (Inr out, (k1, db1))
    \<and> MarkVolumeResizePending (vr_ID v) db1 = Inr ((), db2)
    \<and> RevertVolume quiet t m (k2, db2) = (Inr vol, (k3, db3))
    \<and> MarkVolumeAttached (vr_ID v) db3 = Inr ((), db4)
    \<and> db4 = setRow v (v\<lparr>vr_PreviousDesiredSizeBytes := None\<rparr>) db
    \<and> RevertVolume quiet t m (k4, db4) = (Inl ErrInvalid, (k5, db4))"
proof -
  let ?d = "vr_DesiredSizeBytes v"
  let ?v1 = "grown n v" and ?v2 = "(grown n v)\<lparr>vr_Status := VolumeResizePending\<rparr>"
  let ?v3 = "reverted ?d ?v2" and ?v4 = "v\<lparr>vr_PreviousDesiredSizeBytes := None\<rparr>"
  note vin = named_steps(3,4) [OF assms(2)]
  have pos: "0 < ?d" using assms(1) vin(1) by (auto simp: db_wf_def rows_ok_def volume_ok_def)
  have hit: "volumeHit i m ?v2" "volumeHit i m ?v4" using vin(2) by (simp_all add: volumeHit_def grown_def)
  have only: "\<forall>w \<in> set (db_volumes db). w \<noteq> v \<longrightarrow> \<not> volumeHit i m w" using assms(3) by auto
  have "mayGrow (SizingOf v) n"
    unfolding mayGrow_row using assms(4-7) by (simp add: SizingOf_def Drifting_def)
  from ResizeVolume_accepted [OF assms(1,2) this, of k] obtain out k1 where
    grow: "ResizeVolume quiet t m n (k, db) = (Inr out, (k1, snd (updateVolumes (volumeHit i m) (grown n) db)))" by blast
  have self: "setRow v v db = db" by (simp add: setRow_def map_idI)
  have "snd (updateVolumes (volumeHit i m) (grown n) (setRow v v db)) = setRow v ?v1 db"
    by (rule setRow_update [where P = "volumeHit i m", OF vin(2) only])
  then have db1: "snd (updateVolumes (volumeHit i m) (grown n) db) = setRow v ?v1 db" by (simp only: self)
  have park: "MarkVolumeResizePending (vr_ID v) (setRow v ?v1 db) = Inr ((), setRow v ?v2 db)"
    unfolding MarkVolumeResizePending_def
    by (rule setRow_status [OF assms(1) vin(1)]) (use assms(4,5,7) in \<open>simp_all add: driftingRow_def grown_def\<close>)
  obtain k3 where revert: "RevertVolume quiet t m (k2, setRow v ?v2 db) = (Inr ?v3, (k3, setRow v ?v3 db))"
    using RevertVolume_accepted [OF assms(2,3) _ _ pos hit(1), of k2] by auto
  have settled: "?v3\<lparr>vr_Status := VolumeAttached\<rparr> = ?v4"
    using assms(4) by (simp add: reverted_def grown_def)
  have settle: "MarkVolumeAttached (vr_ID v) (setRow v ?v3 db) = Inr ((), setRow v ?v4 db)"
    unfolding MarkVolumeAttached_def settled [symmetric]
    by (rule setRow_status [OF assms(1) vin(1)]) (use assms(5,6) in \<open>simp_all add: caughtUpRow_def reverted_def grown_def\<close>)
  have "namedVolume (setRow v ?v4 db) t m = Some (i, ?v4)" by (rule setRow_named [OF assms(2,3) hit(2)])
  from RevertVolume_refused [OF this, of k4] assms(4) obtain k5 where
    again: "RevertVolume quiet t m (k4, setRow v ?v4 db) = (Inl ErrInvalid, (k5, setRow v ?v4 db))" by auto
  show ?thesis
    using grow park revert settle again unfolding db1 by blast
qed

theorem parked_grow_reverts_witness:
  "\<exists>out k1 db1 db2 vol k3 db3.
      ResizeVolume quiet (shop_target ''pg'') ''/data'' 200 (0, shop_db) = (Inr out, (k1, db1))
    \<and> MarkVolumeResizePending 5 db1 = Inr ((), db2)
    \<and> RevertVolume quiet (shop_target ''pg'') ''/data'' (0, db2) = (Inr vol, (k3, db3))
    \<and> MarkVolumeAttached 5 db3 = Inr ((), setRow shop_volume shop_volume shop_db)"
proof -
  have wf: "db_wf shop_db" using shop_wf by (simp add: project_wf_def)
  obtain i where named: "namedVolume shop_db (shop_target ''pg'') ''/data'' = Some (i, shop_volume)"
    using shop_named by (cases "namedVolume shop_db (shop_target ''pg'') ''/data''") auto
  have facts: "\<forall>w \<in> set (db_volumes shop_db). volumeHit i ''/data'' w \<longrightarrow> w = shop_volume"
    "vr_Status shop_volume = VolumeAttached" "vr_ObservedSizeBytes shop_volume = Some 100" "vr_DesiredSizeBytes shop_volume \<le> 100"
    "(100 :: int) < 200" "vr_ID shop_volume = 5" "shop_volume\<lparr>vr_PreviousDesiredSizeBytes := None\<rparr> = shop_volume"
    by (simp_all add: shop_db_def shop_volume_def)
  from parked_grow_reverts [OF wf named facts(1-5), of 0 0 0] show ?thesis
    unfolding facts(6,7) by blast
qed

section \<open>Two requests at once\<close>

text \<open>Another client whose request for 300 bytes is written between this one's check and its write.\<close>

definition other_grow :: "nat \<Rightarrow> database \<Rightarrow> database" where
  "other_grow k s = (if k = 2 then (case UpdateVolumeSize 12 ''/data'' 300 s of Inl e \<Rightarrow> s | Inr (x, s') \<Rightarrow> s') else s)"

definition sizesAfter :: "('e + 'a) \<times> nat \<times> database \<Rightarrow> bool \<times> (int \<times> int option) list" where
  "sizesAfter r = (isl (fst r), map (\<lambda>v. (vr_DesiredSizeBytes v, vr_PreviousDesiredSizeBytes v)) (db_volumes (snd (snd r))))"

text \<open>
  "Only one grow may be in flight" and "grow-only" hold for one client at a time. The checks of
  ResizeVolume and its write are separate statements and the write has no guard, so when another request
  for 300 bytes lands in between, a request for 200 on a volume of 100 bytes succeeds as well: the
  desired size goes back from 300 to 200, and the size to revert to is 300, no longer the original 100.
\<close>
theorem concurrent_resizes_lose_target:
  "sizesAfter (ResizeVolume quiet (shop_target ''pg'') ''/data'' 200 (0, shop_db)) = (False, [(200, Some 100)])
   \<and> sizesAfter (ResizeVolume other_grow (shop_target ''pg'') ''/data'' 200 (0, shop_db)) = (False, [(200, Some 300)])"
proof -
  have "sizesAfter (ResizeVolume quiet (shop_target ''pg'') ''/data'' 200 (0, shop_db)) = (False, [(200, Some 100)])"
    by code_simp
  moreover have "sizesAfter (ResizeVolume other_grow (shop_target ''pg'') ''/data'' 200 (0, shop_db)) = (False, [(200, Some 300)])"
    by code_simp
  ultimately show ?thesis by blast
qed

end
