(* ===== verification/OperatorApiCorrect.thy ===== *)
theory OperatorApiCorrect
  imports OperatorApi OperatorViewsCorrect VolumeLife
begin

text \<open>
  What the operator's HTTP interface answers: which status a deploy gets in every case, that a validated
  count cannot wrap, that a request answered 400, 404 or 409 changes nothing, the state machine of a host
  behind its three transitions, and that every request keeps the schema's constraints.
\<close>

section \<open>Validated requests\<close>

lemma orElse_None [simp]: "orElse a b = None \<longleftrightarrow> a = None \<and> b = None"
  by (auto simp: orElse_def split: option.splits)

lemma validateCounts_None:
  "validateCounts m = None \<longleftrightarrow> (\<forall>(region, n) \<in> set m. region \<noteq> '''' \<and> 0 \<le> n \<and> n \<le> MaxReplicas)"
  by (induction m rule: validateCounts.induct) auto

lemma validateReplicas_None:
  "validateReplicas m = None \<longleftrightarrow> m \<noteq> [] \<and> (\<forall>(region, n) \<in> set m. region \<noteq> '''' \<and> 0 \<le> n \<and> n \<le> MaxReplicas)"
  by (simp add: validateReplicas_def validateCounts_None)

lemma validateSpec_None:
  "validateSpec d = None \<longleftrightarrow> 0 < dsp_CPUMillicores d \<and> 0 < dsp_MemBytes d \<and> 0 \<le> dsp_DrainSeconds d \<and> 0 \<le> dsp_RestartMax d
     \<and> 0 \<le> dsp_ProgressDeadline d \<and> validateReplicas (dsp_Replicas d) = None"
  by (auto simp: validateSpec_def)

lemma validateDeploy_None:
  "validateDeploy r = None \<longleftrightarrow> validateTarget (dq_Target r) = None \<and> dq_ImageRef r \<noteq> '''' \<and> validateSpec (dq_Spec r) = None"
  by (auto simp: validateDeploy_def)

lemma deployInput_simps [simp]:
  "di_Target (deployInput d t i) = t" "di_Replicas (deployInput d t i) = dsp_Replicas d"
  "di_CPUMillicores (deployInput d t i) = dsp_CPUMillicores d" "di_MemBytes (deployInput d t i) = dsp_MemBytes d"
  "di_ProgressDeadline (deployInput d t i) = dsp_ProgressDeadline d"
  by (simp_all add: deployInput_def)

text \<open>Counts the validation lets through sum without wrapping, as long as the regions fit a request body.\<close>

lemma totalReplicas_exact:
  assumes "\<forall>(region, n) \<in> set m. 0 \<le> n \<and> n \<le> MaxReplicas" "length m \<le> maxRequestBytes"
  shows "totalReplicas m = sum_list (map snd m)"
proof -
  have "foldl (\<lambda>total (region, n). to_int32 (total + n)) t xs = t + sum_list (map snd xs)"
    if "\<forall>(region, n) \<in> set xs. 0 \<le> n \<and> n \<le> MaxReplicas" "0 \<le> t" "t + MaxReplicas * int (length xs) < 2 ^ 31"
    for t and xs :: regionCounts
    using that
  proof (induction xs arbitrary: t)
    case (Cons x xs)
    obtain region n where x: "x = (region, n)" by (cases x)
    have n: "0 \<le> n" "n \<le> MaxReplicas" using Cons.prems(1) x by auto
    have "0 \<le> MaxReplicas * int (length xs)" by (simp add: MaxReplicas_def)
    moreover have "t + MaxReplicas + MaxReplicas * int (length xs) < 2 ^ 31"
      using Cons.prems(3) by (simp add: algebra_simps)
    ultimately have "0 \<le> t + n" "t + n < 2 ^ 31"
      using Cons.prems(2) n by linarith+
    then have "to_int32 (t + n) = t + n" by (simp add: to_int32_def)
    moreover have "foldl (\<lambda>total (region, n). to_int32 (total + n)) (t + n) xs = (t + n) + sum_list (map snd xs)"
      by (rule Cons.IH) (use Cons.prems n \<open>0 \<le> t + n\<close> in \<open>auto simp: algebra_simps\<close>)
    ultimately show ?case by (simp add: x)
  qed simp
  from this [of m 0] assms show ?thesis
    by (simp add: totalReplicas_def MaxReplicas_def maxRequestBytes_def)
qed

section \<open>A deploy, case by case\<close>

lemma st_cases: "m s = Inl e \<Longrightarrow> st m s = Inl (ErrStore e)" "m s = Inr r \<Longrightarrow> st m s = Inr r"
  by (simp_all add: st_def)

lemma targeted_row: "GetEnvironmentService p e s db =
    (case find (targeted p e s) (bindings db) of None \<Rightarrow> Inl ErrNotFound
     | Some b \<Rightarrow> Inr (\<lparr>ges_ID = boundID b, ges_Source = es_Source (fst b), ges_ServiceID = svc_ID (snd (snd b)),
         ges_Stateful = svc_Stateful (snd (snd b))\<rparr>, db))"
proof (cases "filter (targeted p e s) (bindings db)")
  case Nil
  then have "find (targeted p e s) (bindings db) = None"
    by (auto simp: find_None_iff filter_empty_conv)
  with Nil show ?thesis
    by (simp add: GetEnvironmentService_def q_GetEnvironmentService_def mapError_def queryRow_def notFound_def)
next
  case (Cons b bs)
  then have "find (targeted p e s) (bindings db) = Some b"
    using filter_Cons_find by metis
  with Cons show ?thesis
    by (cases b) (simp add: GetEnvironmentService_def q_GetEnvironmentService_def mapError_def queryRow_def boundID_def)
qed

lemma envService_cases: "envService t db = (case boundTo db t of None \<Rightarrow> Inl (ErrStore ErrNotFound)
    | Some b \<Rightarrow> Inr (\<lparr>ges_ID = boundID b, ges_Source = es_Source (fst b), ges_ServiceID = svc_ID (snd (snd b)),
        ges_Stateful = svc_Stateful (snd (snd b))\<rparr>, db))"
  by (simp add: envService_def st_def targeted_row boundTo_def split: option.splits)

lemma boundTo_binding: "boundTo db t = Some b \<Longrightarrow> b \<in> set (bindings db)"
  unfolding boundTo_def by (drule find_Some_set) simp

lemma boundID_known: "boundTo db t = Some b \<Longrightarrow> boundID b \<in> es_ID ` set (db_environmentServices db)"
  by (drule boundTo_binding) (auto simp: bindings_def boundID_def split: if_splits)

lemma CreateDeployment_succeeds:
  assumes "0 < cd_CpuMillicores arg" "0 < cd_MemBytes arg" "0 \<le> cd_ProgressDeadline arg"
    and "db_gen db (db_next db) \<notin> dep_ID ` set (db_deployments db)"
    and "\<forall>d \<in> set (db_deployments db). dep_EnvironmentServiceID d = cd_EnvironmentServiceID arg \<longrightarrow>
       dep_Version d \<noteq> cd_Version arg \<and> \<not> dep_IsCurrent d"
    and "cd_EnvironmentServiceID arg \<in> es_ID ` set (db_environmentServices db)"
  shows "\<exists>d db'. CreateDeployment arg db = Inr (d, db')"
  using assms by (auto simp: CreateDeployment_def q_CreateDeployment_def freshID_def Let_def list_ex_iff)

lemma setRegions_cases:
  assumes "i \<in> dep_ID ` set (db_deployments db)" "\<forall>r \<in> fst ` set counts. 0 \<le> countAt counts r"
    and "deployments_wf db" "regionsOf db i = Map.empty"
  shows "if fst ` set counts \<subseteq> set (db_regions db) then \<exists>db'. setRegions i counts db = Inr ((), db')
    else setRegions i counts db = Inl (ErrStore ErrDriver)"
proof (cases "fst ` set counts \<subseteq> set (db_regions db)")
  case True
  then show ?thesis using setRegions_succeeds [of i db counts] assms by auto
next
  case False
  have loop: "op_each (\<lambda>region. st (SetDeploymentRegion i region (countAt counts region))) rs d = Inl (ErrStore ErrDriver)"
    if "set rs \<subseteq> fst ` set counts" "\<exists>r \<in> set rs. r \<notin> set (db_regions d)" "\<forall>x \<in> set (db_deploymentRegions d). dr_Region x \<in> set (db_regions d)"
    for rs d
    using that
  proof (induction rs arbitrary: d)
    case (Cons r rs)
    show ?case
    proof (cases "r \<in> set (db_regions d)")
      case False
      then have "\<not> list_ex (regionHit i r) (db_deploymentRegions d)"
        using Cons.prems(3) by (auto simp: list_ex_iff regionHit_def)
      with False show ?thesis
        using assms(2) Cons.prems(1) by (auto simp: op_seq_def op_bind_def st_def SetDeploymentRegion_def q_SetDeploymentRegion_def mapError_def)
    next
      case True
      show ?thesis
      proof (cases "SetDeploymentRegion i r (countAt counts r) d")
        case (Inl e)
        then have "e = ErrDriver"
          by (auto simp: SetDeploymentRegion_def mapError_def split: sum.splits)
        with Inl show ?thesis by (simp add: op_seq_def op_bind_def st_cases)
      next
        case (Inr p)
        then obtain d1 where one: "SetDeploymentRegion i r (countAt counts r) d = Inr ((), d1)" by (cases p) auto
        have "\<forall>x \<in> set (db_deploymentRegions d1). dr_Region x \<in> set (db_regions d1)" "db_regions d1 = db_regions d"
          using one Cons.prems(3) True
          by (auto simp: SetDeploymentRegion_def q_SetDeploymentRegion_def mapError_def split: if_splits)
        then have "op_each (\<lambda>region. st (SetDeploymentRegion i region (countAt counts region))) rs d1 = Inl (ErrStore ErrDriver)"
          using Cons.prems True by (intro Cons.IH) auto
        with one show ?thesis by (simp add: op_seq_def op_bind_def st_cases)
      qed
    qed
  qed simp
  have "setRegions i counts db = Inl (ErrStore ErrDriver)"
    unfolding setRegions_def by (rule loop) (use False assms(3) in \<open>auto simp: deployments_wf_def region_ok_def\<close>)
  with False show ?thesis by simp
qed

lemma deploy_bound:
  fixes db inp b
  defines "v \<equiv> maxVersion (deploymentsOf db (boundID b)) + 1"
  assumes b: "boundTo db (di_Target inp) = Some b" and wf: "project_wf db"
    and cap: "svc_Stateful (snd (snd b)) \<longrightarrow> totalReplicas (di_Replicas inp) \<le> maxStatefulReplicas"
    and sizing: "0 < di_CPUMillicores inp" "0 < di_MemBytes inp" "0 \<le> di_ProgressDeadline inp"
    and fresh: "db_gen db (db_next db) \<notin> dep_ID ` set (db_deployments db)" and v: "v < 2 ^ 31"
  obtains i db2 where "deploy inp db = (case setRegions i (di_Replicas inp) db2 of Inl e \<Rightarrow> Inl e
        | Inr (_, db3) \<Rightarrow> Inr (\<lparr>dres_Version = v, dres_Replicas = di_Replicas inp\<rparr>, db3))"
    "i \<in> dep_ID ` set (db_deployments db2)" "deployments_wf db2" "regionsOf db2 i = Map.empty" "db_regions db2 = db_regions db"
proof -
  let ?arg = "deployParams (boundID b) v inp"
  define db1 where "db1 = retireCurrent DeploymentSuperseded (boundID b) db"
  have wf1: "project_wf db1" unfolding db1_def by (rule project_wf_retireCurrent [OF wf])
  have ids: "dep_ID ` set (db_deployments db1) = dep_ID ` set (db_deployments db)"
    unfolding db1_def by (rule retireCurrent_ids)
  have others: "\<forall>d \<in> set (db_deployments db1). dep_EnvironmentServiceID d = boundID b \<longrightarrow> dep_Version d \<noteq> v \<and> \<not> dep_IsCurrent d"
    using maxVersion_ge [of _ "deploymentsOf db (boundID b)"] by (fastforce simp: db1_def v_def deploymentsOf_def)
  have same: "db_gen db1 = db_gen db" "db_next db1 = db_next db" "db_environmentServices db1 = db_environmentServices db"
      "db_regions db1 = db_regions db"
    by (simp_all add: db1_def)
  have "\<exists>d db2. CreateDeployment ?arg db1 = Inr (d, db2)"
    by (rule CreateDeployment_succeeds)
      (use sizing fresh others boundID_known [OF b] in \<open>simp_all add: ids same deployParams_def\<close>)
  then obtain d db2 where create: "CreateDeployment ?arg db1 = Inr (d, db2)" by blast
  note new = CreateDeployment_Inr [OF create]
  have wf2: "project_wf db2" using op_keepsD [OF keeps_CreateDeployment wf1 create] .
  have "\<not> (svc_Stateful (snd (snd b)) \<and> totalReplicas (di_Replicas inp) > maxStatefulReplicas)"
    using cap by auto
  moreover have "NextDeploymentVersion (boundID b) db = Inr (v, db)"
    using v by (simp add: NextDeploymentVersion_Inr v_def)
  moreover have "SupersedeCurrentDeployments (boundID b) db = Inr ((), db1)"
    by (simp add: SupersedeCurrentDeployments_def db1_def)
  ultimately have run: "deploy inp db = op_bind (setRegions (dep_ID d) (di_Replicas inp))
      (\<lambda>_. op_ok \<lparr>dres_Version = v, dres_Replicas = di_Replicas inp\<rparr>) db2"
    using create by (simp add: deploy_def op_bind_def [of "envService _"] envService_cases b)
      (auto simp add: op_bind_def op_seq_def st_cases)
  show thesis
  proof (rule that)
    show "deploy inp db = (case setRegions (dep_ID d) (di_Replicas inp) db2 of Inl e \<Rightarrow> Inl e
        | Inr (_, db3) \<Rightarrow> Inr (\<lparr>dres_Version = v, dres_Replicas = di_Replicas inp\<rparr>, db3))"
      unfolding run by (auto simp: op_bind_def op_ok_def split: sum.splits)
    show "dep_ID d \<in> dep_ID ` set (db_deployments db2)" by (simp add: new(2))
    show "deployments_wf db2" using wf2 by (simp add: project_wf_def)
    have "regionsOf db2 (dep_ID d) = regionsOf db1 (dep_ID d)"
      by (simp add: new(2) regionsOf_def)
    also have "\<dots> = Map.empty"
      using wf1 new(3) by (intro regionsOf_none) (simp_all add: project_wf_def)
    finally show "regionsOf db2 (dep_ID d) = Map.empty" .
    show "db_regions db2 = db_regions db" by (simp add: new(2) same)
  qed
qed

lemma respond_status:
  "status_of (fst (respond cmd onErr onOk ks)) = (case fst (cmd ks) of Inl e \<Rightarrow> status_of (onErr e) | Inr x \<Rightarrow> status_of (onOk x))"
  by (simp add: respond_def split: prod.splits sum.splits)

lemma countAt_valid: "\<forall>(region, n) \<in> set m. region \<noteq> '''' \<and> 0 \<le> n \<and> n \<le> MaxReplicas \<Longrightarrow> \<forall>r \<in> fst ` set m. 0 \<le> countAt m r"
proof
  fix r
  assume m: "\<forall>(region, n) \<in> set m. region \<noteq> '''' \<and> 0 \<le> n \<and> n \<le> MaxReplicas" and "r \<in> fst ` set m"
  from map_of_SomeD [OF countAt_key [OF this(2)]] m show "0 \<le> countAt m r" by auto
qed

lemma deploy_status:
  assumes "project_wf db" "validateDeploy r = None"
    and "db_gen db (db_next db) \<notin> dep_ID ` set (db_deployments db)"
    and "\<forall>d \<in> set (db_deployments db). dep_Version d < 2 ^ 31 - 1"
  shows "status_of (fst (handleDeploy quiet (Some r) (k, db))) =
    (case boundTo db (dq_Target r) of None \<Rightarrow> StatusNotFound
     | Some b \<Rightarrow> if svc_Stateful (snd (snd b)) \<and> totalReplicas (dsp_Replicas (dq_Spec r)) > maxStatefulReplicas then StatusBadRequest
                 else if fst ` set (dsp_Replicas (dq_Spec r)) \<subseteq> set (db_regions db) then StatusCreated
                 else StatusInternalServerError)"
proof -
  let ?inp = "deployInput (dq_Spec r) (dq_Target r) (dq_ImageRef r)"
  have status: "status_of (fst (handleDeploy quiet (Some r) (k, db))) =
      (case deploy ?inp db of Inl e \<Rightarrow> status_of (writeDomainError e :: DeployResult reply) | Inr (x, db') \<Rightarrow> StatusCreated)"
    using assms(2) by (auto simp: handleDeploy_def checked_def respond_status Service_Deploy_def WithTx_def quiet_def
        split: sum.splits prod.splits)
  show ?thesis
  proof (cases "boundTo db (dq_Target r)")
    case None
    then show ?thesis by (simp add: status deploy_def op_bind_def envService_cases)
  next
    case (Some b)
    show ?thesis
    proof (cases "svc_Stateful (snd (snd b)) \<and> totalReplicas (dsp_Replicas (dq_Spec r)) > maxStatefulReplicas")
      case True
      with Some show ?thesis by (simp add: status deploy_def op_bind_def envService_cases op_err_def)
    next
      case False
      have ok: "validateSpec (dq_Spec r) = None" using assms(2) by (simp add: validateDeploy_None)
      have "maxVersion (deploymentsOf db (boundID b)) + 1 < 2 ^ 31"
      proof (cases "deploymentsOf db (boundID b)")
        case (Cons d ds)
        have "maxVersion (deploymentsOf db (boundID b)) \<in> dep_Version ` set (deploymentsOf db (boundID b))"
        proof -
          have "foldl (\<lambda>m d. max m (dep_Version d)) m xs \<in> insert m (dep_Version ` set xs)" for m and xs :: "DeploymentRow list"
          proof (induction xs arbitrary: m)
            case (Cons x xs)
            from Cons.IH [of "max m (dep_Version x)"] show ?case by (auto simp: max_def)
          qed simp
          from this [of "dep_Version d" ds] show ?thesis by (simp add: Cons maxVersion_def)
        qed
        with assms(4) show ?thesis by (auto simp: deploymentsOf_def)
      qed (simp add: maxVersion_def)
      then obtain i db2 where run: "deploy ?inp db = (case setRegions i (dsp_Replicas (dq_Spec r)) db2 of Inl e \<Rightarrow> Inl e
            | Inr (_, db3) \<Rightarrow> Inr (\<lparr>dres_Version = maxVersion (deploymentsOf db (boundID b)) + 1,
                dres_Replicas = dsp_Replicas (dq_Spec r)\<rparr>, db3))"
          "i \<in> dep_ID ` set (db_deployments db2)" "deployments_wf db2" "regionsOf db2 i = Map.empty" "db_regions db2 = db_regions db"
      proof -
        have spec: "0 < dsp_CPUMillicores (dq_Spec r)" "0 < dsp_MemBytes (dq_Spec r)" "0 \<le> dsp_ProgressDeadline (dq_Spec r)"
          using ok by (simp_all add: validateSpec_None)
        have cap: "svc_Stateful (snd (snd b)) \<longrightarrow> totalReplicas (dsp_Replicas (dq_Spec r)) \<le> maxStatefulReplicas"
          using False by auto
        show thesis
          by (rule deploy_bound [where db = db and inp = ?inp and b = b, unfolded deployInput_simps,
                OF Some assms(1) cap spec assms(3) \<open>maxVersion (deploymentsOf db (boundID b)) + 1 < 2 ^ 31\<close>])
            (rule that)
      qed
      have "\<forall>r' \<in> fst ` set (dsp_Replicas (dq_Spec r)). 0 \<le> countAt (dsp_Replicas (dq_Spec r)) r'"
        using ok by (intro countAt_valid) (simp add: validateSpec_None validateReplicas_None)
      from setRegions_cases [OF run(2) this run(3,4)] False Some show ?thesis
        by (auto simp: status run(1,5) split: if_splits)
    qed
  qed
qed

section \<open>Properties\<close>

text \<open>
  C25: The status of every deploy request that passes the validation, with no other writer at work: 404
  when the target is not bound, 400 when it would give a stateful service more than one replica, 500 when
  it names a region the database does not have - a mistake of the caller the validation does not look
  for - and 201 otherwise.
\<close>
theorem deploy_answers:
  assumes "project_wf db" "validateDeploy r = None"
    and "db_gen db (db_next db) \<notin> dep_ID ` set (db_deployments db)"
    and "\<forall>d \<in> set (db_deployments db). dep_Version d < 2 ^ 31 - 1"
  shows "status_of (fst (handleDeploy quiet (Some r) (k, db))) =
    (case boundTo db (dq_Target r) of None \<Rightarrow> StatusNotFound
     | Some b \<Rightarrow> if svc_Stateful (snd (snd b)) \<and> totalReplicas (dsp_Replicas (dq_Spec r)) > maxStatefulReplicas then StatusBadRequest
                 else if fst ` set (dsp_Replicas (dq_Spec r)) \<subseteq> set (db_regions db) then StatusCreated
                 else StatusInternalServerError)"
  by (rule deploy_status [OF assms])

section \<open>Refusals\<close>

text \<open>What the other writers make of a database between two counts of transactions.\<close>

definition alone :: "(nat \<Rightarrow> database \<Rightarrow> database) \<Rightarrow> nat \<Rightarrow> nat \<Rightarrow> database \<Rightarrow> database" where
  "alone env k k' = fold env [k..<k']"

lemma alone_same [simp]: "alone env k k db = db"
  by (simp add: alone_def)

lemma alone_Suc [simp]: "alone env k (Suc k) db = env k db"
  by (simp add: alone_def)

lemma alone_trans: "k \<le> k' \<Longrightarrow> k' \<le> k'' \<Longrightarrow> alone env k' k'' (alone env k k' db) = alone env k k'' db"
  unfolding alone_def by (metis comp_apply fold_append le_add_diff_inverse upt_add_eq_append)

text \<open>
  A sequence of steps that only reads, one that fails without a trace, and a handler that leaves no trace
  when it refuses: what it leaves is what the others alone would have left.
\<close>

definition untraced :: "(nat \<Rightarrow> database \<Rightarrow> database) \<Rightarrow> nat \<times> database \<Rightarrow> nat \<times> database \<Rightarrow> bool" where
  "untraced env ks ks' \<longleftrightarrow> fst ks \<le> fst ks' \<and> snd ks' = alone env (fst ks) (fst ks') (snd ks)"

definition refusal :: "nat \<Rightarrow> bool" where
  "refusal code \<longleftrightarrow> code \<in> {StatusBadRequest, StatusNotFound, StatusConflict}"

definition reads_only :: "(nat \<Rightarrow> database \<Rightarrow> database) \<Rightarrow> (nat \<times> database \<Rightarrow> 'r \<times> (nat \<times> database)) \<Rightarrow> bool" where
  "reads_only env cmd \<longleftrightarrow> (\<forall>ks. untraced env ks (snd (cmd ks)))"

definition fails_cleanly :: "(nat \<Rightarrow> database \<Rightarrow> database) \<Rightarrow> ('e, database, 'a) steps \<Rightarrow> bool" where
  "fails_cleanly env cmd \<longleftrightarrow> (\<forall>ks. isl (fst (cmd ks)) \<longrightarrow> untraced env ks (snd (cmd ks)))"

definition inert :: "(nat \<Rightarrow> database \<Rightarrow> database) \<Rightarrow> 'j handler \<Rightarrow> bool" where
  "inert env h \<longleftrightarrow> (\<forall>ks. project_wf (snd ks) \<longrightarrow> refusal (status_of (fst (h ks))) \<longrightarrow> untraced env ks (snd (h ks)))"

named_theorems clean

lemma untraced_refl [simp]: "untraced env ks ks"
  by (simp add: untraced_def)

lemma untraced_trans: "untraced env ks ks' \<Longrightarrow> untraced env ks' ks'' \<Longrightarrow> untraced env ks ks''"
  by (auto simp: untraced_def alone_trans)

lemma untraced_step [simp]: "untraced env (k, db) (Suc k, env k db)"
  by (simp add: untraced_def)

lemma reads_only_tx [clean]:
  assumes "\<And>J. op_keeps J m" shows "reads_only env (WithTx env m)"
proof -
  have "s' = s" if "m s = Inr (x, s')" for s x s'
    using op_keepsD [OF assms [of "\<lambda>t. t = s"] _ that] by simp
  then show ?thesis
    by (auto simp: reads_only_def WithTx_def Let_def split: sum.splits) (metis untraced_step)
qed

lemma reads_only_stmt [clean]: "(\<And>J. op_keeps J m) \<Longrightarrow> reads_only env (stmt env m)"
  unfolding stmt_def by (intro reads_only_tx op_keeps_st)

lemma reads_only_stmtIn [clean]: "(\<And>J. op_keeps J m) \<Longrightarrow> reads_only env (stmtIn ctx env m)"
  using reads_only_stmt [of m env] by (simp add: reads_only_def stmtIn_def untraced_step)

lemma reads_only_ok [clean]: "reads_only env (run_ok x)" "reads_only env (run_err e)"
  by (simp_all add: reads_only_def run_ok_def run_err_def)

lemma reads_only_bind [clean]:
  assumes "reads_only env m" "\<And>x. reads_only env (f x)"
  shows "reads_only env (run_bind m f)"
  unfolding reads_only_def
proof
  fix ks
  obtain r ks1 where m: "m ks = (r, ks1)" by (cases "m ks")
  with assms(1) have "untraced env ks ks1" unfolding reads_only_def by (metis snd_conv)
  moreover have "untraced env ks1 (snd (f x ks1))" for x using assms(2) unfolding reads_only_def by blast
  ultimately show "untraced env ks (snd (run_bind m f ks))"
    using untraced_trans m by (cases r) (auto simp: run_bind_def)
qed

lemma fails_cleanly_reads: "reads_only env cmd \<Longrightarrow> fails_cleanly env cmd"
  by (simp add: fails_cleanly_def reads_only_def)

lemma fails_cleanly_tx [clean]: "fails_cleanly env (WithTx env m)"
  by (auto simp: fails_cleanly_def WithTx_def Let_def untraced_step split: sum.splits)

lemma fails_cleanly_stmt [clean]: "fails_cleanly env (stmt env m)"
  by (simp add: stmt_def fails_cleanly_tx)

lemma fails_cleanly_stmtIn [clean]: "fails_cleanly env (stmtIn ctx env m)"
  using fails_cleanly_stmt [of env m] by (simp add: fails_cleanly_def stmtIn_def untraced_step)

lemma fails_cleanly_err [clean]: "fails_cleanly env (run_err e)" "fails_cleanly env (run_ok x)"
  by (simp_all add: fails_cleanly_def run_ok_def run_err_def)

lemma fails_cleanly_bind [clean]:
  assumes "reads_only env m" "\<And>x. fails_cleanly env (f x)"
  shows "fails_cleanly env (run_bind m f)"
  unfolding fails_cleanly_def
proof (intro allI impI)
  fix ks
  assume "isl (fst (run_bind m f ks))"
  moreover obtain r ks1 where m: "m ks = (r, ks1)" by (cases "m ks")
  moreover have "untraced env ks ks1" using assms(1) m unfolding reads_only_def by (metis snd_conv)
  moreover have "isl (fst (f x ks1)) \<Longrightarrow> untraced env ks1 (snd (f x ks1))" for x
    using assms(2) unfolding fails_cleanly_def by blast
  ultimately show "untraced env ks (snd (run_bind m f ks))"
    using untraced_trans by (cases r) (auto simp: run_bind_def)
qed

lemma fails_cleanly_if [clean]: "fails_cleanly env m \<Longrightarrow> fails_cleanly env n \<Longrightarrow> fails_cleanly env (if b then m else n)"
  by simp

lemma inert_refuse [clean]: "inert env (refuse code)"
  by (simp add: inert_def refuse_def)

lemma accepted [simp]: "\<not> refusal StatusOK" "\<not> refusal StatusCreated" "\<not> refusal StatusInternalServerError"
  by (simp_all add: refusal_def)

lemma inert_respond [clean]:
  assumes "fails_cleanly env cmd" "\<And>x. \<not> refusal (status_of (onOk x))"
  shows "inert env (respond cmd onErr onOk)"
  unfolding inert_def
proof (intro allI impI)
  fix ks
  assume "refusal (status_of (fst (respond cmd onErr onOk ks)))"
  with assms(2) have "isl (fst (cmd ks))" by (auto simp: respond_def split: prod.splits sum.splits)
  with assms(1) have "untraced env ks (snd (cmd ks))" unfolding fails_cleanly_def by blast
  then show "untraced env ks (snd (respond cmd onErr onOk ks))" by (auto simp: respond_def split: prod.splits sum.splits)
qed

lemma inert_checked [clean]: "(\<And>r. inert env (run r)) \<Longrightarrow> inert env (checked req validate run)"
  by (simp add: checked_def inert_refuse split: option.split)

lemma inert_if [clean]: "inert env h \<Longrightarrow> inert env h' \<Longrightarrow> inert env (if b then h else h')"
  by simp

lemma inert_option [clean]: "inert env h \<Longrightarrow> (\<And>x. inert env (h' x)) \<Longrightarrow> inert env (case v of None \<Rightarrow> h | Some x \<Rightarrow> h' x)"
  by (cases v) auto

lemma inert_let [clean]: "(\<And>x. inert env (h x)) \<Longrightarrow> inert env (let x = v in h x)"
  by simp

lemma map_unchanged: "filter P xs = [] \<Longrightarrow> map (\<lambda>x. if P x then f x else x) xs = xs"
  by (induction xs) (auto split: if_splits)

lemma updateHosts_none: "filter P (db_hosts db) = [] \<Longrightarrow> snd (updateHosts P f db) = db"
  by (simp add: map_unchanged)

lemma inert_transition:
  assumes "\<And>i db b db'. fn i db = Inr (b, db') \<Longrightarrow> \<not> b \<Longrightarrow> db' = db"
  shows "inert env (hostTransition (\<lambda>i. WithTx env (fn i)) hid)"
  unfolding hostTransition_def
proof (intro inert_option inert_refuse)
  fix i
  show "inert env (respond (WithTx env (fn i)) writeInternalError (\<lambda>applied. if applied then Reply StatusOK () else ErrorReply StatusConflict))"
    using assms [of i]
    by (auto simp: inert_def respond_def WithTx_def Let_def writeInternalError_def split: sum.splits prod.splits if_splits)
      (metis untraced_step)
qed

lemma HostTransitions_Inr:
  "CordonHost i db = Inr (b, db') \<Longrightarrow> \<not> b \<Longrightarrow> db' = db"
  "UncordonHost i db = Inr (b, db') \<Longrightarrow> \<not> b \<Longrightarrow> db' = db"
  "DrainHost now i db = Inr (b, db') \<Longrightarrow> \<not> b \<Longrightarrow> db' = db"
  by (auto simp: CordonHost_def UncordonHost_def DrainHost_def op_bind_Inr exec_rows_def prod_eq_iff
      simp del: updateHosts_simps(2) intro!: updateHosts_none)

text \<open>
  The other writers are sound: they keep the constraints, and no host disappears - no statement of the
  program deletes one.
\<close>

definition sound_writers :: "(nat \<Rightarrow> database \<Rightarrow> database) \<Rightarrow> bool" where
  "sound_writers env \<longleftrightarrow> env_keeps project_wf env
     \<and> (\<forall>k db. hr_ID ` set (db_hosts db) \<subseteq> hr_ID ` set (db_hosts (env k db)))"

lemma sound_quiet: "sound_writers quiet"
  by (simp add: sound_writers_def) (simp add: quiet_def)

lemma sound_alone:
  assumes "sound_writers env" "project_wf db"
  shows "project_wf (alone env k k' db)"
proof -
  have "project_wf (fold env ks db)" for ks
    using assms by (induction ks arbitrary: db) (simp_all add: sound_writers_def env_keeps_def)
  then show ?thesis by (simp add: alone_def)
qed

lemma UpdateVolumeSize_host:
  assumes "UpdateVolumeSize i m n db = Inr (vol, db')" "db_wf db" "vr_HostID vol = Some h"
  shows "h \<in> hr_ID ` set (db_hosts db')"
proof -
  let ?grow = "\<lambda>v. v\<lparr>vr_PreviousDesiredSizeBytes := Some (vr_DesiredSizeBytes v), vr_DesiredSizeBytes := n\<rparr>"
  obtain v vs where hit: "filter (volumeHit i m) (db_volumes db) = v # vs" and "vol = ?grow v" "db_hosts db' = db_hosts db"
    using assms(1)
    by (auto simp: UpdateVolumeSize_def q_UpdateVolumeSize_def mapError_def updateVolumeRow_def Let_def
        split: list.splits if_splits sum.splits)
  moreover have "v \<in> set (db_volumes db)"
    using hit by (metis filter_eq_ConsD in_set_conv_decomp)
  ultimately have "v \<in> set (db_volumes db)" "vr_HostID vol = vr_HostID v" "db_hosts db' = db_hosts db" by simp_all
  then show ?thesis using assms(2,3) by (auto simp: db_wf_def refs_ok_def)
qed

text \<open>
  Once the size is written, a grow request is not refused any more: what can still fail is a read under a
  context that is done, and that is an internal error.
\<close>

lemma ResizeVolumeIn_error:
  assumes "sound_writers env" "project_wf (snd ks)" "ResizeVolumeIn ctx env t m n ks = (Inl e, ks')" "e \<noteq> ErrStore ErrDriver"
  shows "untraced env ks ks'"
proof -
  have readId: "reads_only env (stmtIn ctx env (environmentServiceID t))"
    and readVol: "reads_only env (stmtIn ctx env (GetVolume i m))" for i
    by (intro clean keeps_environmentServiceID reads_keep)+
  obtain r1 ks1 where s1: "stmtIn ctx env (environmentServiceID t) ks = (r1, ks1)" by (cases "stmtIn ctx env (environmentServiceID t) ks")
  with readId have u1: "untraced env ks ks1" unfolding reads_only_def by (metis snd_conv)
  show ?thesis
  proof (cases r1)
    case (Inl e1)
    with s1 u1 assms(3) show ?thesis by (simp add: ResizeVolumeIn_def run_bind_def)
  next
    case (Inr i)
    obtain r2 ks2 where s2: "stmtIn ctx env (GetVolume i m) ks1 = (r2, ks2)" by (cases "stmtIn ctx env (GetVolume i m) ks1")
    with readVol have "untraced env ks1 ks2" unfolding reads_only_def by (metis snd_conv)
    with u1 have u2: "untraced env ks ks2" by (rule untraced_trans)
    show ?thesis
    proof (cases "\<exists>cur. r2 = Inr cur \<and> mayGrow (SizingOf cur) n")
      case False
      with s1 s2 u2 Inr assms(3) show ?thesis
        by (cases r2) (auto simp: ResizeVolumeIn_def run_bind_def run_err_def)
    next
      case True
      then obtain cur where cur: "r2 = Inr cur" "mayGrow (SizingOf cur) n" by blast
      obtain r3 ks3 where s3: "stmtIn ctx env (UpdateVolumeSize i m n) ks2 = (r3, ks3)" by (cases "stmtIn ctx env (UpdateVolumeSize i m n) ks2")
      show ?thesis
      proof (cases r3)
        case (Inl e3)
        with s3 have "untraced env ks2 ks3"
          using fails_cleanly_stmtIn [of env ctx "UpdateVolumeSize i m n"] unfolding fails_cleanly_def
          by (metis fst_conv snd_conv isl_def)
        with u2 have "untraced env ks ks3" by (rule untraced_trans)
        with s1 s2 s3 Inr cur Inl assms(3) show ?thesis by (simp add: ResizeVolumeIn_def run_bind_def)
      next
        case vol: (Inr vol)
        with s1 s2 s3 Inr cur assms(3) obtain h where h: "vr_HostID vol = Some h"
          and rest: "run_bind (stmtIn ctx env (GetHost h)) (\<lambda>host. run_bind (stmtIn ctx env (ListVolumesByHost (hr_ID host)))
              (\<lambda>onHost. run_ok (resizeAdvice vol host onHost))) ks3 = (Inl e, ks')"
          by (cases "vr_HostID vol") (auto simp: ResizeVolumeIn_def run_bind_def run_ok_def)
        have "project_wf (snd ks2)"
          using u2 sound_alone [OF assms(1,2)] by (simp add: untraced_def)
        then have wf: "project_wf (env (fst ks2) (snd ks2))"
          using assms(1) by (simp add: sound_writers_def env_keeps_def)
        have "UpdateVolumeSize i m n (env (fst ks2) (snd ks2)) = Inr (vol, snd ks3)"
          using s3 vol by (auto simp: stmtIn_def stmt_def WithTx_def st_def Let_def split: if_splits sum.splits)
        from UpdateVolumeSize_host [OF this _ h] wf have "h \<in> hr_ID ` set (db_hosts (snd ks3))"
          by (simp add: project_wf_def)
        then have "h \<in> hr_ID ` set (db_hosts (env (fst ks3) (snd ks3)))"
          using assms(1) unfolding sound_writers_def by blast
        from GetHost_known [OF this] obtain host where "GetHost h (env (fst ks3) (snd ks3)) = Inr (host, env (fst ks3) (snd ks3))"
          by blast
        then have "e = ErrStore ErrDriver"
          using rest by (auto simp: run_bind_def stmtIn_def stmt_def WithTx_def st_def ListVolumesByHost_def run_ok_def Let_def
              split: if_splits)
        with assms(4) show ?thesis by simp
      qed
    qed
  qed
qed

lemma inert_resizeIn: "sound_writers env \<Longrightarrow> inert env (handleResizeVolumeIn ctx env q)"
  unfolding handleResizeVolumeIn_def
proof (rule inert_checked)
  fix r
  assume sound: "sound_writers env"
  show "inert env (respond (ResizeVolumeIn ctx env (vq_Target r) (vq_MountPath r) (vq_SizeBytes r)) writeStateError
      (\<lambda>out. Reply StatusOK (rz_WaitingForSpace out, rz_ShortfallBytes out)))"
    unfolding inert_def
  proof (intro allI impI)
    fix ks
    let ?run = "ResizeVolumeIn ctx env (vq_Target r) (vq_MountPath r) (vq_SizeBytes r)"
    assume wf: "project_wf (snd ks)" and code: "refusal (status_of (fst (respond ?run writeStateError
      (\<lambda>out. Reply StatusOK (rz_WaitingForSpace out, rz_ShortfallBytes out)) ks)))"
    obtain r1 ks' where run: "?run ks = (r1, ks')" by (cases "?run ks")
    show "untraced env ks (snd (respond ?run writeStateError
      (\<lambda>out. Reply StatusOK (rz_WaitingForSpace out, rz_ShortfallBytes out)) ks))"
    proof (cases r1)
      case (Inl e)
      then have "e \<noteq> ErrStore ErrDriver" using code run by (auto simp: respond_def)
      with ResizeVolumeIn_error [OF sound wf] run Inl show ?thesis by (simp add: respond_def)
    qed (use code run in \<open>simp add: respond_def\<close>)
  qed
qed

lemma fails_cleanly_revert [clean]: "fails_cleanly env (RevertVolume env t m)"
proof -
  have "fails_cleanly env (\<lambda>ks. case stmt env (RevertVolumeSize i m) ks of
      (Inl e, ks') \<Rightarrow> (Inl (if e = ErrStore ErrNotFound then ErrInvalid else e), ks') | (Inr vol, ks') \<Rightarrow> (Inr vol, ks'))" for i
    unfolding fails_cleanly_def
  proof (intro allI impI)
    fix ks
    assume "isl (fst (case stmt env (RevertVolumeSize i m) ks of
      (Inl e, ks') \<Rightarrow> (Inl (if e = ErrStore ErrNotFound then ErrInvalid else e), ks') | (Inr vol, ks') \<Rightarrow> (Inr vol, ks')))"
    then obtain e ks' where run: "stmt env (RevertVolumeSize i m) ks = (Inl e, ks')"
      by (cases "stmt env (RevertVolumeSize i m) ks") (auto split: sum.splits)
    then have "untraced env ks ks'"
      using fails_cleanly_stmt [of env "RevertVolumeSize i m"] unfolding fails_cleanly_def by (metis fst_conv isl_def snd_conv)
    with run show "untraced env ks (snd (case stmt env (RevertVolumeSize i m) ks of
      (Inl e, ks') \<Rightarrow> (Inl (if e = ErrStore ErrNotFound then ErrInvalid else e), ks') | (Inr vol, ks') \<Rightarrow> (Inr vol, ks')))"
      by simp
  qed
  then show ?thesis
    unfolding RevertVolume_def by (intro clean keeps_environmentServiceID reads_keep)
qed

lemma fails_cleanly_launch [clean]: "fails_cleanly env (LaunchService env inp source dep)"
  unfolding LaunchService_def by (intro clean)

lemma view_queries_keep [keeps]:
  "op_keeps J ListReplicas" "op_keeps J ListAgentHosts" "op_keeps J (ListDeploymentReplicaIDs i)" "op_keeps J (ListProjectNames s)"
  "op_keeps J ListRegionNames" "op_keeps J (ListEnvironmentRows s s')" "op_keeps J (ListProjectServices s s')"
  "op_keeps J (TopologyServices f)" "op_keeps J (TopologyDesiredRegions f)" "op_keeps J (TopologyReplicas f)"
  "op_keeps J (TopologyVolumes f)" "op_keeps J (TopologyHosts s)" "op_keeps J (TopologyServed f)"
  "op_keeps J ListHostReplicaCounts" "op_keeps J ListHostUsage"
  by (simp_all only: ListReplicas_def ListAgentHosts_def ListDeploymentReplicaIDs_def ListProjectNames_def ListRegionNames_def
      ListEnvironmentRows_def ListProjectServices_def TopologyServices_def TopologyDesiredRegions_def TopologyReplicas_def
      TopologyVolumes_def TopologyHosts_def TopologyServed_def op_keeps_query)
    (auto intro!: op_keepsI simp: ListHostReplicaCounts_def ListHostUsage_def op_bind_Inr q_ListHostUsage_def Let_def op_ok_def split: if_splits)

lemma views_read [clean]:
  "reads_only env (listHosts env)" "reads_only env (listReplicas env)" "reads_only env (readMeta env)" "reads_only env (readTopology env f)"
  unfolding listHosts_def listReplicas_def readMeta_def readTopology_def by (intro clean keeps)+

lemma only_status_inert: "inert env h \<Longrightarrow> project_wf (snd ks) \<Longrightarrow> refusal (fst (only_status h ks)) \<Longrightarrow> untraced env ks (snd (only_status h ks))"
  unfolding inert_def only_status_def by (metis (no_types, lifting) case_prod_beta fst_conv snd_conv)

lemma reads_inert:
  "inert env (handleListHosts env)" "inert env (handleListReplicas env)" "inert env (handleMeta env)" "inert env (handleTopology env p e r)"
  unfolding handleListHosts_def handleListReplicas_def handleMeta_def handleTopology_def
  by (intro clean fails_cleanly_reads; simp)+

lemma lists_inert: "inert env (handleListServices env p e)" "inert env (handleDeploymentReplicas env i)"
  unfolding handleListServices_def handleDeploymentReplicas_def by (intro clean; simp)+

lemma transitions_inert:
  "inert env (cordon env i)" "inert env (uncordon env i)" "inert env (drain env now i)"
  unfolding cordon_def uncordon_def drain_def by (rule inert_transition; rule HostTransitions_Inr; assumption)+

lemma replicas_inert: "inert env (handleDeleteReplica env i)" "inert env (handleRestartReplica env i)"
  unfolding handleDeleteReplica_def handleRestartReplica_def by (intro clean; simp)+

lemma writes_inert:
  "inert env (handleCreateProject env p)" "inert env (handleCreateEnvironment env q)" "inert env (handleBindService encode env b)"
  "inert env (handleDeploy env d)" "inert env (handleScale env sc)" "inert env (handleRollback env rb)"
  "inert env (handleRevertVolume env rv)" "inert env (handleAddVolume env av)"
  unfolding handleCreateProject_def handleCreateEnvironment_def handleBindService_def handleDeploy_def handleScale_def
    handleRollback_def handleRevertVolume_def handleAddVolume_def BindService_def Service_Deploy_def Scale_def Rollback_def AddVolume_def
  by (intro clean keeps_environmentServiceID reads_keep; simp)+

lemma create_inert: "inert env (handleCreateService encode env q)"
  unfolding handleCreateService_def by (intro clean; auto)

text \<open>
  C26: A request the operator's interface refuses leaves no trace. Whatever the request, on a sound
  database and beside any sound writers: when the answer is 400, 404 or 409, the database is what the
  other writers alone would have made of it. For a grow of a volume this holds under a request context
  that is done before any of its statements, too. Nothing is claimed of 500: there the grow may have been
  written before a read for its advice failed (\<open>cancelled_resize_lands\<close>).
\<close>
theorem refused_requests_change_nothing:
  assumes "project_wf db" "sound_writers env"
    and "serve encode env now q (k, db) = (code, (k', db')) \<or> only_status (handleResizeVolumeIn ctx env v) (k, db) = (code, (k', db'))"
    and "code \<in> {StatusBadRequest, StatusNotFound, StatusConflict}"
  shows "k \<le> k' \<and> db' = fold env [k..<k'] db"
proof -
  have answer: "untraced env (k, db) (k', db')" if "inert env h" "only_status h (k, db) = (code, (k', db'))" for h :: "'x handler"
    using only_status_inert [OF that(1), of "(k, db)"] that(2) assms(1,4) by (simp add: refusal_def)
  have ok: "inert env (\<lambda>ks. (Reply StatusOK (), ks))" by (simp add: inert_def)
  have resize: "inert env (handleResizeVolume env q)" for q
    using inert_resizeIn [OF assms(2)] by (simp add: handleResizeVolume_def)
  from assms(3) have "untraced env (k, db) (k', db')"
  proof
    assume "serve encode env now q (k, db) = (code, (k', db'))"
    then show ?thesis
      by (cases q) (simp_all only: serve.simps, (erule answer [OF ok] answer [OF reads_inert(1)] answer [OF reads_inert(2)] answer [OF reads_inert(3)]
        answer [OF reads_inert(4)] answer [OF lists_inert(1)] answer [OF lists_inert(2)] answer [OF transitions_inert(1)]
        answer [OF transitions_inert(2)] answer [OF transitions_inert(3)] answer [OF replicas_inert(1)] answer [OF replicas_inert(2)]
        answer [OF writes_inert(1)] answer [OF writes_inert(2)] answer [OF writes_inert(3)] answer [OF writes_inert(4)]
        answer [OF writes_inert(5)] answer [OF writes_inert(6)] answer [OF writes_inert(7)] answer [OF writes_inert(8)]
        answer [OF create_inert] answer [OF resize])+)
  next
    assume "only_status (handleResizeVolumeIn ctx env v) (k, db) = (code, (k', db'))"
    with answer [OF inert_resizeIn [OF assms(2)]] show ?thesis by blast
  qed
  then show ?thesis by (simp add: untraced_def alone_def)
qed

text \<open>
  A grow request can be answered as an internal error and be carried out: when its context is done after
  the size is written and before the host is read for the advice.
\<close>

definition grow_request :: volumeResizeRequest where
  "grow_request = \<lparr>vq_Target = shop_target ''pg'', vq_MountPath = ''/data'', vq_SizeBytes = 200\<rparr>"

lemma cancelled_resize_lands:
  "(case handleResizeVolumeIn (\<lambda>k. 3 \<le> k) quiet (Some grow_request) (0, shop_db) of (r, (k', db')) \<Rightarrow>
      status_of r = StatusInternalServerError \<and> map vr_DesiredSizeBytes (db_volumes db') = [200])
   \<and> map vr_DesiredSizeBytes (db_volumes shop_db) = [100]"
  by code_simp

section \<open>Witnesses\<close>

definition ask :: "string \<Rightarrow> deployRequest" where
  "ask region = \<lparr>dq_Target = \<lparr>tg_Project = ''p'', tg_Environment = ''e'', tg_Service = ''web''\<rparr>, dq_ImageRef = ''img'',
     dq_Spec = \<lparr>dsp_CPUMillicores = 100, dsp_MemBytes = 100, dsp_DrainSeconds = 0, dsp_RestartMax = 0,
       dsp_ProgressDeadline = 0, dsp_CommitMessage = '''', dsp_CreatedBy = '''', dsp_Replicas = [(region, 2)]\<rparr>\<rparr>"

lemma ask_valid: "validateDeploy (ask ''eu'') = None" "validateDeploy (ask ''mars'') = None"
  by code_simp+

lemma shop_ids:
  "db_gen shop_db (db_next shop_db) \<notin> dep_ID ` set (db_deployments shop_db)"
  "\<forall>d \<in> set (db_deployments shop_db). dep_Version d < 2 ^ 31 - 1"
  by (simp_all add: shop_db_def shop_deployment_def)

theorem deploy_answers_witness:
  "status_of (fst (handleDeploy quiet (Some (ask ''eu'')) (0, shop_db))) = StatusCreated
   \<and> status_of (fst (handleDeploy quiet (Some (ask ''mars'')) (0, shop_db))) = StatusInternalServerError"
  by (rule conjI; subst deploy_answers [OF shop_wf _ shop_ids], rule ask_valid, code_simp)

theorem refused_requests_change_nothing_witness:
  "serve (\<lambda>_. ''{}'') quiet 0 (PostDeployments (Some ((ask ''eu'')\<lparr>dq_ImageRef := ''''\<rparr>))) (0, shop_db) = (StatusBadRequest, (0, shop_db))"
proof -
  let ?q = "PostDeployments (Some ((ask ''eu'')\<lparr>dq_ImageRef := ''''\<rparr>))"
  let ?ans = "serve (\<lambda>_. ''{}'') quiet 0 ?q (0, shop_db)"
  have code: "fst ?ans = StatusBadRequest" "fst (snd ?ans) = 0" by code_simp+
  then have ans: "?ans = (StatusBadRequest, (0, snd (snd ?ans)))" by (metis prod.collapse)
  have "snd (snd ?ans) = fold quiet [0..<0] shop_db"
    by (rule refused_requests_change_nothing [OF shop_wf sound_quiet disjI1 [OF ans], THEN conjunct2]) simp
  with ans show ?thesis by simp
qed

end
