(* ===== verification/OperatorTransitions.thy ===== *)
theory OperatorTransitions
  imports OperatorApiCorrect
begin

text \<open>
  What the operator's interface keeps and what its own transitions do: every request keeps the
  constraints of the database, whatever other writers do in between; cordon, uncordon and drain are the
  steps of one small state machine of a host; a restart thaws a frozen replica and nothing else.
\<close>

section \<open>Every request keeps the database well-formed\<close>

lemma project_wf_hosts:
  assumes "project_wf db" "\<And>h. hr_ID (f h) = hr_ID h"
    and "\<And>h. h \<in> set (db_hosts db) \<Longrightarrow> P h \<Longrightarrow> host_row_ok h \<Longrightarrow> host_row_ok (f h)"
  shows "project_wf (snd (updateHosts P f db))"
  using db_wf_updateHosts [of db f P] assms
  by (simp add: project_wf_def deployments_wf_def deployment_ok_def region_ok_def)

lemma keeps_host_transitions:
  "op_keeps project_wf (CordonHost i)" "op_keeps project_wf (UncordonHost i)" "op_keeps project_wf (DrainHost now i)"
  unfolding CordonHost_def UncordonHost_def DrainHost_def
  by (intro op_keeps_bind op_keeps_exec op_keeps_ok project_wf_hosts; auto simp: host_row_ok_def HostStatus_Valid_def)+

lemma keeps_DeleteReplica_project: "op_keeps project_wf (DeleteReplica i)"
  using op_keepsD [OF keeps_DeleteReplica [of i]]
  by (intro op_keepsI) (auto simp: project_wf_def DeleteReplica_def deployments_wf_def deployment_ok_def region_ok_def)

lemma keeps_RestartReplica: "op_keeps project_wf (RestartReplica i)"
proof -
  have "db_wf (snd (updateReplicas P thaw db))" if "db_wf db" for P db
    by (rule db_wf_updateReplicas [OF that]) (auto simp: thaw_def ReplicaPhase_Valid_def)
  then have "op_keeps project_wf (q_RestartReplica i)"
    by (intro op_keepsI) (auto simp: q_RestartReplica_def project_wf_def deployments_wf_def deployment_ok_def region_ok_def Let_def
        updateReplicas_def updateWhere_def)
  then show ?thesis
    unfolding RestartReplica_def by (intro op_keeps_bind op_keeps_split op_keeps_if op_keeps_ok op_keeps_err)
qed

named_theorems holding

lemma respond_keeps [holding]: "run_keeps J cmd \<Longrightarrow> run_keeps J (respond cmd onErr onOk)"
  by (auto simp: run_keeps_def respond_def split: prod.splits sum.splits)

lemma refuse_keeps [holding]: "run_keeps J (refuse code)"
  by (simp add: run_keeps_def refuse_def)

lemma checked_keeps [holding]: "(\<And>r. run_keeps J (run r)) \<Longrightarrow> run_keeps J (checked req validate run)"
  by (simp add: checked_def refuse_keeps split: option.split)

lemma option_keeps [holding]: "run_keeps J h \<Longrightarrow> (\<And>x. run_keeps J (h' x)) \<Longrightarrow> run_keeps J (case v of None \<Rightarrow> h | Some x \<Rightarrow> h' x)"
  by (cases v) auto

lemma let_keeps [holding]: "(\<And>x. run_keeps J (h x)) \<Longrightarrow> run_keeps J (let x = v in h x)"
  by simp

lemma reply_keeps [holding]: "run_keeps J (\<lambda>ks. (x, ks))"
  by (simp add: run_keeps_def)

lemma only_status_keeps [holding]: "run_keeps J h \<Longrightarrow> run_keeps J (only_status h)"
  by (auto simp: run_keeps_def only_status_def split: prod.splits)

lemmas view_keeps = listHosts_def listReplicas_def readMeta_def readTopology_def

lemmas handler_defs = handleListHosts_def handleListReplicas_def handleMeta_def handleTopology_def handleListServices_def
  handleDeploymentReplicas_def cordon_def uncordon_def drain_def hostTransition_def handleDeleteReplica_def
  handleRestartReplica_def handleCreateProject_def handleCreateEnvironment_def handleBindService_def handleDeploy_def
  handleScale_def handleRollback_def handleResizeVolume_steps handleRevertVolume_def handleAddVolume_def handleCreateService_def
  LaunchService_def BindService_def Service_Deploy_def Rollback_def Scale_def

lemma serve_keeps:
  assumes "env_keeps project_wf env"
  shows "run_keeps project_wf (serve encode env now q)"
  by (cases q; simp only: serve.simps handler_defs view_keeps;
      intro holding run_keeps_intros keeps view_queries_keep keeps_host_transitions keeps_DeleteReplica_project keeps_RestartReplica
        stmt_keeps keeps_createProject keeps_createEnvironment keeps_launch keeps_CreateService keeps_AddServiceToEnvironment
        keeps_deploy keeps_rollback keeps_scale AddVolume_keeps ResizeVolume_keeps RevertVolume_keeps assms)

text \<open>
  C27: Every request to the operator's interface, valid or not, leaves the database well-formed - keys,
  references, one current deployment, positive sizes, the counts of the deployments - provided the other
  writers that commit in between keep it so.
\<close>
theorem requests_keep_schema:
  assumes "project_wf db" "\<forall>k s. project_wf s \<longrightarrow> project_wf (env k s)"
  shows "project_wf (snd (snd (serve encode env now q (k, db))))"
proof -
  have "env_keeps project_wf env" using assms(2) by (simp add: env_keeps_def)
  from run_keepsD [OF serve_keeps [OF this], of "(k, db)"] assms(1) show ?thesis
    by (cases "serve encode env now q (k, db)") auto
qed

section \<open>The state machine of a host\<close>

text \<open>
  What the operator may ask of a host and what its status becomes; \<open>None\<close> is the refusal. A draining host
  cannot be cordoned: it would look drained before it is empty.
\<close>

datatype hostCommand = Cordon | Uncordon | Drain

fun hostStep :: "hostCommand \<Rightarrow> HostStatus \<Rightarrow> HostStatus option" where
  "hostStep Cordon s = (if s = HostOpen then Some HostCordoned else None)"
| "hostStep Uncordon s = (if s = HostCordoned \<or> s = HostDraining then Some HostOpen else None)"
| "hostStep Drain s = (if s = HostDraining then None else Some HostDraining)"

fun hostRoute :: "hostCommand \<Rightarrow> uuid \<Rightarrow> operatorRequest" where
  "hostRoute Cordon i = PostCordon (Some i)"
| "hostRoute Uncordon i = PostUncordon (Some i)"
| "hostRoute Drain i = PostDrain (Some i)"

definition withStatus :: "time \<Rightarrow> HostStatus \<Rightarrow> HostRow \<Rightarrow> HostRow" where
  "withStatus now s h = h\<lparr>hr_Status := s, hr_DrainStartedAt := (if s = HostDraining then Some now else None)\<rparr>"

definition hostRow :: "database \<Rightarrow> uuid \<Rightarrow> HostRow option" where
  "hostRow db i = find (\<lambda>h. hr_ID h = i) (db_hosts db)"

definition setHost :: "HostRow \<Rightarrow> HostRow \<Rightarrow> database \<Rightarrow> database" where
  "setHost old new db = db\<lparr>db_hosts := map (\<lambda>h. if h = old then new else h) (db_hosts db)\<rparr>"

definition hostMachine :: "hostCommand \<Rightarrow> time \<Rightarrow> uuid \<Rightarrow> database \<Rightarrow> nat \<times> database" where
  "hostMachine c now i db =
     (case hostRow db i of None \<Rightarrow> (StatusConflict, db)
      | Some h \<Rightarrow> (case hostStep c (hr_Status h) of None \<Rightarrow> (StatusConflict, db)
          | Some s \<Rightarrow> (StatusOK, setHost h (withStatus now s h) db)))"

fun hostGuard :: "hostCommand \<Rightarrow> HostStatus \<Rightarrow> bool" where
  "hostGuard Cordon s \<longleftrightarrow> s = HostOpen"
| "hostGuard Uncordon s \<longleftrightarrow> s = HostCordoned \<or> s = HostDraining"
| "hostGuard Drain s \<longleftrightarrow> s \<noteq> HostDraining"

lemma hostGuard_step: "hostGuard c s \<longleftrightarrow> hostStep c s \<noteq> None"
  by (cases c) auto

fun hostUpdate :: "hostCommand \<Rightarrow> time \<Rightarrow> HostRow \<Rightarrow> HostRow" where
  "hostUpdate Cordon now h = h\<lparr>hr_Status := HostCordoned\<rparr>"
| "hostUpdate Uncordon now h = h\<lparr>hr_Status := HostOpen, hr_DrainStartedAt := None\<rparr>"
| "hostUpdate Drain now h = h\<lparr>hr_Status := HostDraining, hr_DrainStartedAt := Some now\<rparr>"

lemma update_one_row:
  assumes "distinct (map key hs)" "h \<in> set hs"
  shows "filter (\<lambda>x. key x = key h \<and> G x) hs = [] \<longleftrightarrow> \<not> G h"
    and "map (\<lambda>x. if key x = key h \<and> G x then f x else x) hs = (if G h then map (\<lambda>x. if x = h then f h else x) hs else hs)"
proof -
  have one: "x = h" if "x \<in> set hs" "key x = key h" for x
    using assms that by (meson distinct_map inj_onD)
  show "filter (\<lambda>x. key x = key h \<and> G x) hs = [] \<longleftrightarrow> \<not> G h"
    using assms(2) by (auto simp: filter_empty_conv dest: one)
  have "map (\<lambda>x. if key x = key h \<and> G x then f x else x) hs = map (\<lambda>x. if x = h \<and> G h then f h else x) hs"
    by (rule map_cong) (auto dest: one)
  then show "map (\<lambda>x. if key x = key h \<and> G x then f x else x) hs = (if G h then map (\<lambda>x. if x = h then f h else x) hs else hs)"
    by (cases "G h") (simp_all del: map_eq_conv)
qed

lemma hostRow_Some: "hostRow db i = Some h \<Longrightarrow> h \<in> set (db_hosts db) \<and> hr_ID h = i"
  by (auto simp: hostRow_def dest: find_Some_set)

lemma hostRow_None: "hostRow db i = None \<longleftrightarrow> (\<forall>h \<in> set (db_hosts db). hr_ID h \<noteq> i)"
  by (auto simp: hostRow_def find_None_iff)

lemma hostUpdate_uncordon: "hostUpdate Uncordon now = (\<lambda>h. h\<lparr>hr_Status := HostOpen, hr_DrainStartedAt := None\<rparr>)"
  by (rule ext) simp

lemma hostRoute_serve:
  "serve encode quiet now (hostRoute c i) (k, db) =
     (case updateHosts (\<lambda>h. hr_ID h = i \<and> hostGuard c (hr_Status h)) (hostUpdate c now) db of
        (n, db') \<Rightarrow> (if n > 0 then StatusOK else StatusConflict, (Suc k, db')))"
  by (cases c) (simp_all add: only_status_def cordon_def uncordon_def drain_def hostTransition_def respond_def WithTx_def quiet_def
      CordonHost_def UncordonHost_def DrainHost_def op_bind_def exec_rows_def op_ok_def updateHosts_def updateWhere_def Let_def
      hostUpdate_uncordon)

lemma hostUpdate_withStatus:
  "host_row_ok h \<Longrightarrow> hostStep c (hr_Status h) = Some s \<Longrightarrow> hostUpdate c now h = withStatus now s h"
  by (cases c) (auto simp: withStatus_def host_row_ok_def split: if_splits)

text \<open>
  C28: The three routes are the host machine on the database: a request for a host that is not there, or
  for a step its status does not allow, is answered 409 and changes nothing; any other is answered 200
  and changes the status of that host alone, with the start of the drain set exactly while it drains.
\<close>
theorem host_routes_refine_machine:
  assumes "project_wf db"
  shows "serve encode quiet now (hostRoute c i) (k, db) = (case hostMachine c now i db of (code, db') \<Rightarrow> (code, (Suc k, db')))"
proof (cases "hostRow db i")
  case None
  then have "filter (\<lambda>h. hr_ID h = i \<and> hostGuard c (hr_Status h)) (db_hosts db) = []"
    by (simp add: hostRow_None filter_empty_conv)
  with None show ?thesis
    by (simp add: hostRoute_serve hostMachine_def updateHosts_def updateWhere_def map_unchanged)
next
  case (Some h)
  from hostRow_Some [OF Some] have h: "h \<in> set (db_hosts db)" "hr_ID h = i" by auto
  from assms have "distinct (map hr_ID (db_hosts db))" "host_row_ok h"
    using h(1) by (auto simp: project_wf_def db_wf_def keys_ok_def rows_ok_def)
  note one = update_one_row [OF this(1) h(1), of "\<lambda>x. hostGuard c (hr_Status x)", unfolded h(2)]
  from one hostUpdate_withStatus [OF \<open>host_row_ok h\<close>, of c _ now] Some show ?thesis
    by (cases "hostStep c (hr_Status h)")
      (simp_all add: hostRoute_serve hostMachine_def updateHosts_def updateWhere_def setHost_def hostGuard_step)
qed

section \<open>Thawing a frozen replica\<close>

definition replicaRow :: "database \<Rightarrow> uuid \<Rightarrow> ReplicaRow option" where
  "replicaRow db i = find (\<lambda>r. rr_ID r = i) (db_replicas db)"

definition setReplica :: "ReplicaRow \<Rightarrow> ReplicaRow \<Rightarrow> database \<Rightarrow> database" where
  "setReplica old new db = db\<lparr>db_replicas := map (\<lambda>r. if r = old then new else r) (db_replicas db)\<rparr>"

lemma replicaRow_Some: "replicaRow db i = Some r \<Longrightarrow> r \<in> set (db_replicas db) \<and> rr_ID r = i"
  by (auto simp: replicaRow_def dest: find_Some_set)

lemma replicaRow_None: "replicaRow db i = None \<longleftrightarrow> i \<notin> rr_ID ` set (db_replicas db)"
  by (auto simp: replicaRow_def find_None_iff)

lemma thaw_trigger: "replicaTrigger now r (thaw r) = (thaw r)\<lparr>rr_UpdatedAt := now\<rparr>"
  by (simp add: replicaTrigger_def thaw_def)

text \<open>
  Restarting a replica answers 404 when there is none, 409 when it is not frozen, changing nothing in
  either case, and 200 when it is: then that row alone is back in line for a placement, with no host, no
  health, no restarts and no exit reason, and its next revision.
\<close>
theorem restart_thaws_the_frozen:
  assumes "project_wf db"
  shows "serve encode quiet now (PostRestart (Some i)) (k, db) =
    (case replicaRow db i of None \<Rightarrow> (StatusNotFound, (Suc k, db))
     | Some r \<Rightarrow> if rr_Phase r = ReplicaPhaseFailed
                 then (StatusOK, (Suc k, setReplica r ((thaw r)\<lparr>rr_UpdatedAt := db_now db\<rparr>) db))
                 else (StatusConflict, (Suc k, db)))"
proof (cases "replicaRow db i")
  case None
  then have "filter (\<lambda>r. rr_ID r = i \<and> rr_Phase r = ReplicaPhaseFailed) (db_replicas db) = []"
    by (auto simp: replicaRow_None filter_empty_conv)
  moreover from None have "i \<notin> rr_ID ` set (db_replicas db)" by (simp add: replicaRow_None)
  ultimately show ?thesis using None
    by (simp add: only_status_def handleRestartReplica_def respond_def WithTx_def quiet_def RestartReplica_def
        op_bind_def q_RestartReplica_def updateReplicas_def updateWhere_def restartError_def op_err_def)
next
  case (Some r)
  from replicaRow_Some [OF Some] have r: "r \<in> set (db_replicas db)" "rr_ID r = i" by auto
  from assms have "distinct (map rr_ID (db_replicas db))" by (simp add: project_wf_def db_wf_def keys_ok_def)
  note one = update_one_row [OF this r(1), of "\<lambda>x. rr_Phase x = ReplicaPhaseFailed", unfolded r(2)]
  have "i \<in> rr_ID ` set (db_replicas db)" using r by force
  with one Some show ?thesis
    by (cases "rr_Phase r = ReplicaPhaseFailed")
      (simp_all add: only_status_def handleRestartReplica_def respond_def WithTx_def quiet_def RestartReplica_def op_ok_def
        op_bind_def q_RestartReplica_def updateReplicas_def updateWhere_def restartError_def op_err_def setReplica_def thaw_trigger
        del: map_eq_conv)
qed

section \<open>One replica of a stateful service\<close>

text \<open>
  Through this interface the cap on a stateful service cannot be passed by overflow: the validation
  bounds every count, the body bounds their number, and a deploy of a stateful service that is accepted
  asks for at most one replica over all regions, in exact arithmetic.
\<close>
theorem api_stateful_cap:
  assumes "project_wf db" "validateDeploy r = None" "length (dsp_Replicas (dq_Spec r)) \<le> maxRequestBytes"
    and "db_gen db (db_next db) \<notin> dep_ID ` set (db_deployments db)"
    and "\<forall>d \<in> set (db_deployments db). dep_Version d < 2 ^ 31 - 1"
    and "boundTo db (dq_Target r) = Some b" "svc_Stateful (snd (snd b))"
    and "status_of (fst (handleDeploy quiet (Some r) (k, db))) = StatusCreated"
  shows "sum_list (map snd (dsp_Replicas (dq_Spec r))) \<le> 1"
proof -
  have "validateReplicas (dsp_Replicas (dq_Spec r)) = None"
    using assms(2) by (simp add: validateDeploy_None validateSpec_None)
  then have "totalReplicas (dsp_Replicas (dq_Spec r)) = sum_list (map snd (dsp_Replicas (dq_Spec r)))"
    using assms(3) by (intro totalReplicas_exact) (auto simp: validateReplicas_None)
  with deploy_status [OF assms(1,2,4,5), of k] assms(6,7,8) show ?thesis
    by (simp add: maxStatefulReplicas_def split: if_splits)
qed

section \<open>Witnesses\<close>

theorem requests_keep_schema_witness:
  "project_wf (snd (snd (serve (\<lambda>_. ''{}'') (\<lambda>_ s. s) 0 (PostDeployments (Some (ask ''eu''))) (0, shop_db))))"
  by (rule requests_keep_schema [OF shop_wf]) simp

theorem host_routes_refine_machine_witness:
  "serve (\<lambda>_. ''{}'') quiet 50 (hostRoute Drain 9) (0, shop_db)
     = (StatusOK, (1, setHost shop_host (withStatus 50 HostDraining shop_host) shop_db))"
  by (subst host_routes_refine_machine [OF shop_wf]) (simp add: hostMachine_def hostRow_def shop_db_def shop_host_def)

definition frozen_db :: database where
  "frozen_db = view_db\<lparr>db_replicas := map (\<lambda>r. r\<lparr>rr_Phase := ReplicaPhaseFailed\<rparr>) (db_replicas view_db)\<rparr>"

lemma frozen_wf: "project_wf frozen_db"
  by (simp add: frozen_db_def view_defs project_wf_def deployments_wf_def deployment_ok_def region_ok_def db_wf_def keys_ok_def
      one_current_def refs_ok_def replica_refs_def rows_ok_def replica_ok_def ReplicaPhase_Valid_def host_row_ok_def
      HostStatus_Valid_def volume_ok_def placed_status_def)

theorem restart_thaws_the_frozen_witness:
  "fst (serve (\<lambda>_. ''{}'') quiet 0 (PostRestart (Some 42)) (0, frozen_db)) = StatusOK
   \<and> map rr_Phase (db_replicas (snd (snd (serve (\<lambda>_. ''{}'') quiet 0 (PostRestart (Some 42)) (0, frozen_db)))))
     = [ReplicaPhaseFailed, ReplicaPhaseReplacing]"
  by (subst (1 2) restart_thaws_the_frozen [OF frozen_wf]) code_simp

definition ask_pg :: deployRequest where
  "ask_pg = (ask ''us'')\<lparr>dq_Target := shop_target ''pg'', dq_Spec := (dq_Spec (ask ''us''))\<lparr>dsp_Replicas := [(''us'', 1)]\<rparr>\<rparr>"

theorem api_stateful_cap_witness: "sum_list (map snd (dsp_Replicas (dq_Spec ask_pg))) \<le> 1"
proof -
  let ?b = "the (boundTo shop_db (dq_Target ask_pg))"
  have "length (dsp_Replicas (dq_Spec ask_pg)) \<le> maxRequestBytes"
    by (simp add: ask_pg_def maxRequestBytes_def)
  moreover have "validateDeploy ask_pg = None" "boundTo shop_db (dq_Target ask_pg) \<noteq> None" "svc_Stateful (snd (snd ?b))"
    "status_of (fst (handleDeploy quiet (Some ask_pg) (0, shop_db))) = StatusCreated"
    by code_simp+
  ultimately show ?thesis
    by (intro api_stateful_cap [OF shop_wf _ _ shop_ids, of _ ?b 0]) auto
qed

end
