(* ===== verification/AgentApi.thy ===== *)
theory AgentApi
  imports ControlPlaneQueries
begin

text \<open>
  The agents' side of the apiserver: \<^verbatim>\<open>internal/api/agentapi.go\<close>, \<^verbatim>\<open>observedstate.go\<close> and the
  liveness record of \<^verbatim>\<open>server.go\<close>. Going up, an agent's messages become writes of observed state; going
  down, a host's full state is pushed into a mailbox of one. A session is a pointer in the code, so the
  sessions ever opened form a list and a pointer is an index into it. \<^verbatim>\<open>google/uuid\<close>, the protobuf
  encoder and SHA-256 are other people's code: the \<open>codec\<close> of the definitions below.
\<close>

section \<open>The wire\<close>

record wireReplica =
  wr_Id :: string
  wr_Phase :: string

record wireVolume =
  wv_Id :: string
  wv_MountPath :: string
  wv_SizeBytes :: int

record HostState =
  hs_Replicas :: "wireReplica list"
  hs_Volumes :: "wireVolume list"

record wireObservation =
  wo_ReplicaId :: string
  wo_Phase :: string
  wo_Healthy :: bool
  wo_RestartCount :: int
  wo_LastExitReason :: string

record wireVolumeObservation =
  wvo_VolumeId :: string
  wvo_ObservedSizeBytes :: int

text \<open>The oneof of an agent's message; \<open>Unset\<close> is a message that sets none of them.\<close>

datatype AgentMessage =
    Hello string | Heartbeat | Observation wireObservation | VolumeObservation wireVolumeObservation | Unset

text \<open>
  \<open>idText\<close> is \<^verbatim>\<open>uuid.UUID.String\<close> and \<open>idParse\<close> is \<^verbatim>\<open>uuid.Parse\<close>; \<open>digest\<close> is the SHA-256 of the
  deterministic encoding of a state, \<open>None\<close> when the encoder fails; \<open>zeroDigest\<close> the array of zeros a new
  session starts with.
\<close>

record 'd codec =
  idText :: "uuid \<Rightarrow> string"
  idParse :: "string \<Rightarrow> uuid option"
  digest :: "HostState \<Rightarrow> 'd option"
  zeroDigest :: 'd

datatype agentError =
    AgentStore storeError | MarshalFailed | BadReplicaID string | BadVolumeID string | UnexpectedMessage
  | NotAgentReportable string | SizeNotPositiveSeen int | HelloMissing | BadHostID string

definition call :: "(nat \<Rightarrow> database \<Rightarrow> database) \<Rightarrow> (storeError, database, 'a) op \<Rightarrow> (agentError, database, 'a) steps" where
  "call env m = WithTx env (\<lambda>db. map_sum AgentStore id (m db))"

section \<open>Observed state\<close>

text \<open>\<open>now\<close> is what the apiserver's own clock reads, never the agent's.\<close>

definition RecordHeartbeat :: "(nat \<Rightarrow> database \<Rightarrow> database) \<Rightarrow> time \<Rightarrow> uuid \<Rightarrow> (agentError, database, unit) steps" where
  "RecordHeartbeat env now hostID = call env (RecordHostHeartbeat hostID now)"

definition ObserveReplica ::
  "(nat \<Rightarrow> database \<Rightarrow> database) \<Rightarrow> time \<Rightarrow> ReplicaObservation \<Rightarrow> (agentError, database, unit) steps" where
  "ObserveReplica env now obs =
     (if \<not> AgentReportable (to_ReplicaPhase (ob_Phase obs)) then run_err (NotAgentReportable (ob_Phase obs))
      else run_bind (call env (RecordReplicaObservation obs)) (\<lambda>applied.
        if \<not> applied \<or> \<not> ob_Healthy obs then run_ok ()
        else call env (RenewVolumeLease (ob_ReplicaID obs) (now + VolumeLeaseTTL))))"

definition ObserveVolumeSize :: "(nat \<Rightarrow> database \<Rightarrow> database) \<Rightarrow> uuid \<Rightarrow> int \<Rightarrow> (agentError, database, unit) steps" where
  "ObserveVolumeSize env volumeID observedBytes =
     (if observedBytes \<le> 0 then run_err (SizeNotPositiveSeen observedBytes)
      else call env (RecordVolumeObservedSize volumeID observedBytes))"

section \<open>The uplink\<close>

definition observationOf :: "uuid \<Rightarrow> wireObservation \<Rightarrow> ReplicaObservation" where
  "observationOf i w = \<lparr>ob_ReplicaID = i, ob_Phase = wo_Phase w, ob_Healthy = wo_Healthy w,
     ob_RestartCount = wo_RestartCount w, ob_LastExitReason = wo_LastExitReason w\<rparr>"

fun applyUplink ::
  "'d codec \<Rightarrow> (nat \<Rightarrow> database \<Rightarrow> database) \<Rightarrow> time \<Rightarrow> uuid \<Rightarrow> AgentMessage \<Rightarrow> (agentError, database, unit) steps" where
  "applyUplink c env now hostID Heartbeat = RecordHeartbeat env now hostID"
| "applyUplink c env now hostID (Observation w) =
     (case idParse c (wo_ReplicaId w) of None \<Rightarrow> run_err (BadReplicaID (wo_ReplicaId w))
      | Some replicaID \<Rightarrow> ObserveReplica env now (observationOf replicaID w))"
| "applyUplink c env now hostID (VolumeObservation w) =
     (case idParse c (wvo_VolumeId w) of None \<Rightarrow> run_err (BadVolumeID (wvo_VolumeId w))
      | Some volumeID \<Rightarrow> ObserveVolumeSize env volumeID (wvo_ObservedSizeBytes w))"
| "applyUplink c env now hostID (Hello h) = run_err UnexpectedMessage"
| "applyUplink c env now hostID Unset = run_err UnexpectedMessage"

text \<open>The receive loop of a session: a message that fails is logged and dropped. Each message comes with the
  time at which it is applied.\<close>

fun uplinkLoop ::
  "'d codec \<Rightarrow> (nat \<Rightarrow> database \<Rightarrow> database) \<Rightarrow> uuid \<Rightarrow> (time \<times> AgentMessage) list \<Rightarrow> nat \<times> database \<Rightarrow> nat \<times> database" where
  "uplinkLoop c env hostID [] ks = ks"
| "uplinkLoop c env hostID ((now, m) # ms) ks = uplinkLoop c env hostID ms (snd (applyUplink c env now hostID m ks))"

section \<open>The state of a host\<close>

definition volumeTargetSize :: "VolumeRow \<Rightarrow> int" where
  "volumeTargetSize v = Committed (SizingOf v)"

definition wireReplicas :: "'d codec \<Rightarrow> ReplicaRow list \<Rightarrow> wireReplica list" where
  "wireReplicas c rows = sort_key wr_Id
     (map (\<lambda>r. \<lparr>wr_Id = idText c (rr_ID r), wr_Phase = ReplicaPhase_string (rr_Phase r)\<rparr>)
        (filter (\<lambda>r. rr_Phase r \<noteq> ReplicaPhaseFailed) rows))"

definition wireVolumes :: "'d codec \<Rightarrow> VolumeRow list \<Rightarrow> wireVolume list" where
  "wireVolumes c vols = sort_key wv_Id
     (map (\<lambda>v. \<lparr>wv_Id = idText c (vr_ID v), wv_MountPath = vr_MountPath v, wv_SizeBytes = volumeTargetSize v\<rparr>) vols)"

text \<open>The two reads are two statements: the database may move on between them.\<close>

definition hostState :: "'d codec \<Rightarrow> (nat \<Rightarrow> database \<Rightarrow> database) \<Rightarrow> uuid \<Rightarrow> (agentError, database, HostState \<times> 'd) steps" where
  "hostState c env hostID =
     run_bind (call env (ListReplicasByHost hostID)) (\<lambda>rows.
       run_bind (call env (ListVolumesByHost hostID)) (\<lambda>vols.
         let state = \<lparr>hs_Replicas = wireReplicas c rows, hs_Volumes = wireVolumes c vols\<rparr>
         in case digest c state of None \<Rightarrow> run_err MarshalFailed | Some d \<Rightarrow> run_ok (state, d)))"

section \<open>The mailbox of a session\<close>

text \<open>
  The send loop over a channel of capacity one. \<open>taken n\<close> says whether the stream's own goroutine
  received the message that was waiting before the n-th select.
\<close>

partial_function (option) push_loop :: "(nat \<Rightarrow> bool) \<Rightarrow> nat \<Rightarrow> 'm \<Rightarrow> 'm option \<Rightarrow> 'm option option" where
  "push_loop taken n m box =
     (case (if taken n then None else box) of
        None \<Rightarrow> Some (Some m)
      | Some stale \<Rightarrow> push_loop taken (Suc n) m None)"

text \<open>What the loop leaves in the mailbox, see \<open>push_returns\<close>.\<close>

definition push :: "'m \<Rightarrow> 'm option \<Rightarrow> 'm option" where
  "push m box = Some m"

record 'd agentSession =
  se_hostID :: uuid
  se_send :: "HostState option"
  se_lastHash :: 'd

definition newAgentSession :: "'d codec \<Rightarrow> uuid \<Rightarrow> 'd agentSession" where
  "newAgentSession c hostID = \<lparr>se_hostID = hostID, se_send = None, se_lastHash = zeroDigest c\<rparr>"

text \<open>What \<^verbatim>\<open>pushState\<close> does with the state it has read.\<close>

definition pushRead :: "bool \<Rightarrow> HostState \<times> 'd \<Rightarrow> 'd agentSession \<Rightarrow> 'd agentSession" where
  "pushRead force = (\<lambda>(state, d) s.
     if \<not> force \<and> d = se_lastHash s then s
     else s\<lparr>se_lastHash := d, se_send := push state (se_send s)\<rparr>)"

section \<open>The sessions of the apiserver\<close>

record 'd AgentAPI =
  aa_opened :: "'d agentSession list"
  aa_sessions :: "(uuid \<times> nat) list"

definition connectedHosts :: "'d AgentAPI \<Rightarrow> uuid list" where
  "connectedHosts a = map fst (aa_sessions a)"

definition session :: "'d AgentAPI \<Rightarrow> uuid \<Rightarrow> nat option" where
  "session a hostID = map_of (aa_sessions a) hostID"

definition openSession :: "'d agentSession \<Rightarrow> 'd AgentAPI \<Rightarrow> nat \<times> 'd AgentAPI" where
  "openSession s a = (length (aa_opened a), a\<lparr>aa_opened := aa_opened a @ [s]\<rparr>)"

definition register :: "nat \<Rightarrow> 'd AgentAPI \<Rightarrow> 'd AgentAPI" where
  "register p a = a\<lparr>aa_sessions := AList.update (se_hostID (aa_opened a ! p)) p (aa_sessions a)\<rparr>"

definition unregister :: "nat \<Rightarrow> 'd AgentAPI \<Rightarrow> 'd AgentAPI" where
  "unregister p a = (let h = se_hostID (aa_opened a ! p)
     in if session a h = Some p then a\<lparr>aa_sessions := AList.delete h (aa_sessions a)\<rparr> else a)"

definition onSession :: "nat \<Rightarrow> ('d agentSession \<Rightarrow> 'd agentSession) \<Rightarrow> 'd AgentAPI \<Rightarrow> 'd AgentAPI" where
  "onSession p f a = a\<lparr>aa_opened := (aa_opened a)[p := f (aa_opened a ! p)]\<rparr>"

definition pushState ::
  "'d codec \<Rightarrow> (nat \<Rightarrow> database \<Rightarrow> database) \<Rightarrow> uuid \<Rightarrow> bool \<Rightarrow> 'd AgentAPI \<times> (nat \<times> database) \<Rightarrow> 'd AgentAPI \<times> (nat \<times> database)" where
  "pushState c env hostID force = (\<lambda>(a, ks).
     case session a hostID of None \<Rightarrow> (a, ks)
     | Some p \<Rightarrow> (case hostState c env hostID ks of
          (Inl e, ks') \<Rightarrow> (a, ks')
        | (Inr read, ks') \<Rightarrow> (onSession p (pushRead force read) a, ks')))"

text \<open>One round of the periodic resync, which is also the push after a lost notification channel.\<close>

definition pushAll ::
  "'d codec \<Rightarrow> (nat \<Rightarrow> database \<Rightarrow> database) \<Rightarrow> 'd AgentAPI \<times> (nat \<times> database) \<Rightarrow> 'd AgentAPI \<times> (nat \<times> database)" where
  "pushAll c env aks = foldl (\<lambda>aks hostID. pushState c env hostID True aks) aks (connectedHosts (fst aks))"

text \<open>The downlink goroutine of a session: the message it takes, and the mailbox after.\<close>

definition downlink :: "nat \<Rightarrow> 'd AgentAPI \<Rightarrow> HostState option \<times> 'd AgentAPI" where
  "downlink p a = (se_send (aa_opened a ! p), onSession p (\<lambda>s. s\<lparr>se_send := None\<rparr>) a)"

text \<open>
  One stream as it runs alone: the first message binds it to a host, the full state is pushed, the rest
  of what the agent sends is applied, and the session is dropped when the agent hangs up.
\<close>

definition Session ::
  "'d codec \<Rightarrow> (nat \<Rightarrow> database \<Rightarrow> database) \<Rightarrow> AgentMessage \<Rightarrow> (time \<times> AgentMessage) list \<Rightarrow>
     'd AgentAPI \<times> (nat \<times> database) \<Rightarrow> agentError option \<times> ('d AgentAPI \<times> (nat \<times> database))" where
  "Session c env first msgs = (\<lambda>(a, ks).
     case first of
       Hello h \<Rightarrow> (case idParse c h of None \<Rightarrow> (Some (BadHostID h), (a, ks))
         | Some hostID \<Rightarrow>
             (let (p, a1) = openSession (newAgentSession c hostID) a;
                  (a2, ks2) = pushState c env hostID True (register p a1, ks)
              in (None, (unregister p a2, uplinkLoop c env hostID msgs ks2))))
     | _ \<Rightarrow> (Some HelloMissing, (a, ks)))"

record wireHost =
  wh_Id :: string
  wh_Region :: string
  wh_Hostname :: string

definition ListHosts :: "'d codec \<Rightarrow> (nat \<Rightarrow> database \<Rightarrow> database) \<Rightarrow> (agentError, database, wireHost list) steps" where
  "ListHosts c env = run_bind (call env ListAgentHosts) (\<lambda>hosts.
     run_ok (map (\<lambda>h. \<lparr>wh_Id = idText c (hr_ID h), wh_Region = hr_Region h, wh_Hostname = hr_Hostname h\<rparr>) hosts))"

section \<open>Starting and staying up\<close>

definition agentListenMaxFailures :: nat where "agentListenMaxFailures = 5"

text \<open>\<open>lr_GaveUp\<close> carries the number of failures in a row; \<open>lr_Ended\<close> is the pair of nils.\<close>

datatype listenResult = lr_Bound | lr_Ended | lr_GaveUp nat

text \<open>
  \<open>bind n\<close> is whether the listen after \<open>n\<close> failures succeeds, \<open>ended n\<close> whether the context ends before
  the n-th retry is due.
\<close>

partial_function (option) listenWithRetry :: "(nat \<Rightarrow> bool) \<Rightarrow> (nat \<Rightarrow> bool) \<Rightarrow> nat \<Rightarrow> listenResult option" where
  "listenWithRetry bind ended failures =
     (if bind failures then Some lr_Bound
      else if Suc failures \<ge> agentListenMaxFailures then Some (lr_GaveUp (Suc failures))
      else if ended (Suc failures) then Some lr_Ended
      else listenWithRetry bind ended (Suc failures))"

datatype registerResult = Registered | RegisterFailed storeError | RegisterEnded

definition registerAttempts :: nat where "registerAttempts = 30"

text \<open>
  \<open>up n\<close> is whether the n-th attempt reaches a migrated database, \<open>clock n\<close> what the clock reads then and
  \<open>ended n\<close> whether the context ends before the next tick.
\<close>

partial_function (option) registerWithRetry ::
  "(nat \<Rightarrow> bool) \<Rightarrow> (nat \<Rightarrow> bool) \<Rightarrow> (nat \<Rightarrow> time) \<Rightarrow> (nat \<Rightarrow> database \<Rightarrow> database) \<Rightarrow> uuid \<Rightarrow> time \<Rightarrow> nat \<Rightarrow> nat \<times> database \<Rightarrow>
     (registerResult \<times> (nat \<times> database)) option" where
  "registerWithRetry up ended clock env i started attempt ks =
     (case (if up attempt then WithTx env (UpsertApiserverInstance i started (clock attempt)) ks else (Inl ErrDriver, ks)) of
        (r, ks') \<Rightarrow> (case r of
          Inr u \<Rightarrow> Some (Registered, ks')
        | Inl e \<Rightarrow> if attempt \<ge> registerAttempts then Some (RegisterFailed e, ks')
                   else if ended attempt then Some (RegisterEnded, ks')
                   else registerWithRetry up ended clock env i started (Suc attempt) ks'))"

text \<open>One tick of the liveness loop; an error is logged. \<open>up\<close> is whether each of the two statements gets through.\<close>

definition livenessTick ::
  "(nat \<Rightarrow> database \<Rightarrow> database) \<Rightarrow> uuid \<Rightarrow> time \<Rightarrow> (bool \<times> bool) \<times> time \<Rightarrow> nat \<times> database \<Rightarrow> nat \<times> database" where
  "livenessTick env i started = (\<lambda>((up1, up2), now) ks.
     if \<not> up1 then ks
     else case WithTx env (UpsertApiserverInstance i started now) ks of
            (Inl e, ks') \<Rightarrow> ks'
          | (Inr u, ks') \<Rightarrow> if \<not> up2 then ks' else snd (WithTx env (DeleteStaleApiserverInstances (now - ApiserverLivenessWindow)) ks'))"

text \<open>The ticks until the context ends, and the clean-up on the way out.\<close>

definition livenessLoop ::
  "(nat \<Rightarrow> database \<Rightarrow> database) \<Rightarrow> uuid \<Rightarrow> time \<Rightarrow> ((bool \<times> bool) \<times> time) list \<Rightarrow> bool \<Rightarrow> nat \<times> database \<Rightarrow> nat \<times> database" where
  "livenessLoop env i started ticks up ks =
     (let ks' = fold (livenessTick env i started) ticks ks
      in if up then snd (WithTx env (DeregisterApiserverInstance i) ks') else ks')"

end
