(* ===== verification/AgentSim.thy ===== *)
theory AgentSim
  imports AgentApi OperatorApi
begin

text \<open>
  The simulated fleet of host agents, package \<^verbatim>\<open>agentsim\<close>: \<^verbatim>\<open>agent.go\<close>, \<^verbatim>\<open>fleet.go\<close> and \<^verbatim>\<open>control.go\<close>.
  An agent keeps a map of containers and a map of disks, which are association lists here, in the order a
  range over the map takes them; a downlink message is applied to both, a tick advances them and is
  reported. A fleet maps hosts to agents and serves the chaos requests.
\<close>

section \<open>An agent\<close>

datatype chaosMode = chaosNone | chaosCrashLoop | chaosStallHealth | chaosStallResize

fun chaosMode_string :: "chaosMode \<Rightarrow> string" where
  "chaosMode_string chaosNone = ''''"
| "chaosMode_string chaosCrashLoop = ''crash_loop''"
| "chaosMode_string chaosStallHealth = ''stall_health''"
| "chaosMode_string chaosStallResize = ''stall_resize''"

record container =
  ct_phase :: string
  ct_healthy :: bool
  ct_restartCount :: int
  ct_exitReason :: string
  ct_chaos :: chaosMode

record disk =
  dk_mountPath :: string
  dk_sizeBytes :: int
  dk_targetBytes :: int
  dk_chaos :: chaosMode

record Agent =
  ag_HostID :: uuid
  ag_Hostname :: string
  ag_Region :: string
  ag_hostDown :: bool
  ag_containers :: "(string \<times> container) list"
  ag_disks :: "(string \<times> disk) list"

definition NewAgent :: "uuid \<Rightarrow> string \<Rightarrow> string \<Rightarrow> Agent" where
  "NewAgent hostID hostname region = \<lparr>ag_HostID = hostID, ag_Hostname = hostname, ag_Region = region,
     ag_hostDown = False, ag_containers = [], ag_disks = []\<rparr>"

definition newContainer :: "string \<Rightarrow> bool \<Rightarrow> container" where
  "newContainer phase healthy = \<lparr>ct_phase = phase, ct_healthy = healthy, ct_restartCount = 0, ct_exitReason = '''', ct_chaos = chaosNone\<rparr>"

section \<open>A downlink message\<close>

definition applyReplica :: "wireReplica \<Rightarrow> (string \<times> container) list \<Rightarrow> (string \<times> container) list" where
  "applyReplica r cs =
     (case map_of cs (wr_Id r) of
        Some c \<Rightarrow> if wr_Phase r = ''draining'' then AList.delete (wr_Id r) cs else cs
      | None \<Rightarrow>
          if wr_Phase r = ''scheduling'' then AList.update (wr_Id r) (newContainer ''starting'' False) cs
          else if wr_Phase r \<in> {''draining'', ''failed'', ''reaped''} then cs
          else AList.update (wr_Id r) (newContainer (wr_Phase r) (wr_Phase r = ''active'')) cs)"

definition applyVolume :: "wireVolume \<Rightarrow> (string \<times> disk) list \<Rightarrow> (string \<times> disk) list" where
  "applyVolume v ds =
     (case map_of ds (wv_Id v) of
        None \<Rightarrow> AList.update (wv_Id v) \<lparr>dk_mountPath = wv_MountPath v, dk_sizeBytes = wv_SizeBytes v,
                  dk_targetBytes = wv_SizeBytes v, dk_chaos = chaosNone\<rparr> ds
      | Some d \<Rightarrow> AList.update (wv_Id v) (d\<lparr>dk_targetBytes := wv_SizeBytes v\<rparr>) ds)"

text \<open>The entries whose key the message does not name are deleted.\<close>

definition retain :: "string list \<Rightarrow> (string \<times> 'v) list \<Rightarrow> (string \<times> 'v) list" where
  "retain seen m = filter (\<lambda>(i, v). i \<in> set seen) m"

definition applyState :: "HostState \<Rightarrow> Agent \<Rightarrow> Agent" where
  "applyState state a = a\<lparr>
     ag_containers := retain (map wr_Id (hs_Replicas state)) (fold applyReplica (hs_Replicas state) (ag_containers a)),
     ag_disks := retain (map wv_Id (hs_Volumes state)) (fold applyVolume (hs_Volumes state) (ag_disks a))\<rparr>"

section \<open>A tick\<close>

definition stepDisk :: "disk \<Rightarrow> disk" where
  "stepDisk d = (if dk_chaos d \<noteq> chaosStallResize \<and> dk_targetBytes d > dk_sizeBytes d then d\<lparr>dk_sizeBytes := dk_targetBytes d\<rparr> else d)"

definition stepContainer :: "container \<Rightarrow> container" where
  "stepContainer c = (case ct_chaos c of
       chaosCrashLoop \<Rightarrow> c\<lparr>ct_phase := ''starting'', ct_healthy := False, ct_restartCount := to_int32 (ct_restartCount c + 1),
                            ct_exitReason := ''chaos: crash loop''\<rparr>
     | chaosStallHealth \<Rightarrow> c\<lparr>ct_phase := (if ct_phase c = ''starting'' \<or> ct_phase c = ''active'' then ''health_check'' else ct_phase c),
                              ct_healthy := False\<rparr>
     | _ \<Rightarrow> if ct_phase c = ''starting'' then c\<lparr>ct_phase := ''health_check''\<rparr>
            else if ct_phase c = ''health_check'' then c\<lparr>ct_phase := ''active'', ct_healthy := True\<rparr>
            else c)"

definition step :: "Agent \<Rightarrow> Agent" where
  "step a = a\<lparr>ag_disks := map (\<lambda>(i, d). (i, stepDisk d)) (ag_disks a),
              ag_containers := map (\<lambda>(i, c). (i, stepContainer c)) (ag_containers a)\<rparr>"

definition reportContainer :: "string \<times> container \<Rightarrow> AgentMessage" where
  "reportContainer = (\<lambda>(i, c). Observation \<lparr>wo_ReplicaId = i, wo_Phase = ct_phase c, wo_Healthy = ct_healthy c,
     wo_RestartCount = ct_restartCount c, wo_LastExitReason = ct_exitReason c\<rparr>)"

definition reportDisk :: "string \<times> disk \<Rightarrow> AgentMessage" where
  "reportDisk = (\<lambda>(i, d). VolumeObservation \<lparr>wvo_VolumeId = i, wvo_ObservedSizeBytes = dk_sizeBytes d\<rparr>)"

definition report :: "Agent \<Rightarrow> AgentMessage list" where
  "report a = (if ag_hostDown a then [] else Heartbeat # map reportContainer (ag_containers a) @ map reportDisk (ag_disks a))"

section \<open>The chaos knobs\<close>

definition KillHost :: "Agent \<Rightarrow> Agent" where "KillHost a = a\<lparr>ag_hostDown := True\<rparr>"
definition RecoverHost :: "Agent \<Rightarrow> Agent" where "RecoverHost a = a\<lparr>ag_hostDown := False\<rparr>"

definition withContainer :: "string \<Rightarrow> (container \<Rightarrow> container) \<Rightarrow> Agent \<Rightarrow> bool \<times> Agent" where
  "withContainer replicaID fn a = (case map_of (ag_containers a) replicaID of
       None \<Rightarrow> (False, a) | Some c \<Rightarrow> (True, a\<lparr>ag_containers := AList.update replicaID (fn c) (ag_containers a)\<rparr>))"

definition withDisk :: "string \<Rightarrow> (disk \<Rightarrow> disk) \<Rightarrow> Agent \<Rightarrow> bool \<times> Agent" where
  "withDisk volumeID fn a = (case map_of (ag_disks a) volumeID of
       None \<Rightarrow> (False, a) | Some d \<Rightarrow> (True, a\<lparr>ag_disks := AList.update volumeID (fn d) (ag_disks a)\<rparr>))"

definition CrashReplica :: "string \<Rightarrow> Agent \<Rightarrow> bool \<times> Agent" where
  "CrashReplica replicaID = withContainer replicaID
     (\<lambda>c. c\<lparr>ct_phase := ''failed'', ct_healthy := False, ct_exitReason := ''chaos: killed'', ct_chaos := chaosNone\<rparr>)"

definition CrashLoop :: "string \<Rightarrow> Agent \<Rightarrow> bool \<times> Agent" where
  "CrashLoop replicaID = withContainer replicaID (\<lambda>c. c\<lparr>ct_chaos := chaosCrashLoop\<rparr>)"

definition StallHealth :: "string \<Rightarrow> Agent \<Rightarrow> bool \<times> Agent" where
  "StallHealth replicaID = withContainer replicaID (\<lambda>c. c\<lparr>ct_chaos := chaosStallHealth\<rparr>)"

definition Heal :: "string \<Rightarrow> Agent \<Rightarrow> bool \<times> Agent" where
  "Heal replicaID = withContainer replicaID (\<lambda>c. c\<lparr>ct_chaos := chaosNone\<rparr>)"

definition StallResize :: "string \<Rightarrow> Agent \<Rightarrow> bool \<times> Agent" where
  "StallResize volumeID = withDisk volumeID (\<lambda>d. d\<lparr>dk_chaos := chaosStallResize\<rparr>)"

definition HealVolume :: "string \<Rightarrow> Agent \<Rightarrow> bool \<times> Agent" where
  "HealVolume volumeID = withDisk volumeID (\<lambda>d. d\<lparr>dk_chaos := chaosNone\<rparr>)"

section \<open>Introspection\<close>

record ContainerStatus =
  cts_ReplicaID :: string
  cts_Phase :: string
  cts_Healthy :: bool
  cts_RestartCount :: int
  cts_Chaos :: string

record VolumeStatusJSON =
  vls_VolumeID :: string
  vls_MountPath :: string
  vls_SizeBytes :: int
  vls_TargetBytes :: int
  vls_Chaos :: string

record AgentStatus =
  ags_HostID :: string
  ags_Hostname :: string
  ags_Region :: string
  ags_HostDown :: bool
  ags_Containers :: "ContainerStatus list"
  ags_Volumes :: "VolumeStatusJSON list"

definition Status :: "'d codec \<Rightarrow> Agent \<Rightarrow> AgentStatus" where
  "Status cd a = \<lparr>ags_HostID = idText cd (ag_HostID a), ags_Hostname = ag_Hostname a, ags_Region = ag_Region a,
     ags_HostDown = ag_hostDown a,
     ags_Containers = map (\<lambda>(i, c). \<lparr>cts_ReplicaID = i, cts_Phase = ct_phase c, cts_Healthy = ct_healthy c,
       cts_RestartCount = ct_restartCount c, cts_Chaos = chaosMode_string (ct_chaos c)\<rparr>) (ag_containers a),
     ags_Volumes = map (\<lambda>(i, d). \<lparr>vls_VolumeID = i, vls_MountPath = dk_mountPath d, vls_SizeBytes = dk_sizeBytes d,
       vls_TargetBytes = dk_targetBytes d, vls_Chaos = chaosMode_string (dk_chaos d)\<rparr>) (ag_disks a)\<rparr>"

section \<open>The fleet\<close>

type_synonym Fleet = "(uuid \<times> Agent) list"

text \<open>\<open>None\<close> is a listing that failed.\<close>

definition syncAgents :: "'d codec \<Rightarrow> wireHost list option \<Rightarrow> Fleet \<Rightarrow> Fleet" where
  "syncAgents cd resp f = (case resp of None \<Rightarrow> f
     | Some hosts \<Rightarrow> fold (\<lambda>h f. case idParse cd (wh_Id h) of None \<Rightarrow> f
         | Some hostID \<Rightarrow> if map_of f hostID \<noteq> None then f
                          else AList.update hostID (NewAgent hostID (wh_Hostname h) (wh_Region h)) f) hosts f)"

definition agentByHost :: "'d codec \<Rightarrow> string \<Rightarrow> Fleet \<Rightarrow> uuid option" where
  "agentByHost cd hostID f = (case idParse cd hostID of None \<Rightarrow> None
     | Some i \<Rightarrow> if map_of f i \<noteq> None then Some i else None)"

text \<open>The first agent of the range that has the container, or the disk; the agent is named by its host.\<close>

definition agentByReplica :: "'d codec \<Rightarrow> string \<Rightarrow> Fleet \<Rightarrow> uuid option" where
  "agentByReplica cd replicaID f =
     map_option fst (find (\<lambda>(i, a). list_ex (\<lambda>c. cts_ReplicaID c = replicaID) (ags_Containers (Status cd a))) f)"

definition agentByVolume :: "'d codec \<Rightarrow> string \<Rightarrow> Fleet \<Rightarrow> uuid option" where
  "agentByVolume cd volumeID f =
     map_option fst (find (\<lambda>(i, a). list_ex (\<lambda>v. vls_VolumeID v = volumeID) (ags_Volumes (Status cd a))) f)"

definition hostnameCmp :: "AgentStatus \<Rightarrow> AgentStatus \<Rightarrow> int" where
  "hostnameCmp x y = (if ags_Hostname x < ags_Hostname y then - 1 else if ags_Hostname x > ags_Hostname y then 1 else 0)"

interpretation by_hostname: comparison hostnameCmp
  by unfold_locales (auto simp: hostnameCmp_def split: if_splits)

definition statuses :: "'d codec \<Rightarrow> Fleet \<Rightarrow> AgentStatus list" where
  "statuses cd f = sort_by hostnameCmp (map (\<lambda>(i, a). Status cd a) f)"

section \<open>The control interface\<close>

record chaosRequest =
  cq_Action :: string
  cq_Host :: string
  cq_Replica :: string
  cq_Volume :: string

text \<open>A knob on the agent of a host of the fleet.\<close>

definition onAgent :: "uuid \<Rightarrow> (Agent \<Rightarrow> bool \<times> Agent) \<Rightarrow> Fleet \<Rightarrow> bool \<times> Fleet" where
  "onAgent i knob f = (case map_of f i of None \<Rightarrow> (False, f)
     | Some a \<Rightarrow> (case knob a of (b, a') \<Rightarrow> (b, AList.update i a' f)))"

definition turn :: "uuid option \<Rightarrow> (Agent \<Rightarrow> bool \<times> Agent) \<Rightarrow> Fleet \<Rightarrow> nat \<times> Fleet" where
  "turn found knob f = (case found of None \<Rightarrow> (StatusNotFound, f)
     | Some i \<Rightarrow> (case onAgent i knob f of (b, f') \<Rightarrow> (if b then StatusOK else StatusNotFound, f')))"

definition handleChaos :: "'d codec \<Rightarrow> chaosRequest option \<Rightarrow> Fleet \<Rightarrow> nat \<times> Fleet" where
  "handleChaos cd req f = (case req of None \<Rightarrow> (StatusBadRequest, f)
     | Some q \<Rightarrow>
       if cq_Action q \<in> {''host_kill'', ''host_recover''}
       then turn (agentByHost cd (cq_Host q) f)
              (\<lambda>a. (True, if cq_Action q = ''host_kill'' then KillHost a else RecoverHost a)) f
       else if cq_Action q \<in> {''replica_crash'', ''replica_crashloop'', ''replica_stall_health'', ''replica_heal''}
       then turn (agentByReplica cd (cq_Replica q) f)
              ((if cq_Action q = ''replica_crash'' then CrashReplica
                else if cq_Action q = ''replica_crashloop'' then CrashLoop
                else if cq_Action q = ''replica_stall_health'' then StallHealth else Heal) (cq_Replica q)) f
       else if cq_Action q \<in> {''volume_stall_resize'', ''volume_heal''}
       then turn (agentByVolume cd (cq_Volume q) f)
              ((if cq_Action q = ''volume_stall_resize'' then StallResize else HealVolume) (cq_Volume q)) f
       else (StatusBadRequest, f))"

section \<open>An agent on its stream\<close>

text \<open>
  What a session does between two points in time, and what reaches the apiserver: a downlink message is
  applied, a tick advances the agent and sends its report.
\<close>

datatype agentEvent = Downlink HostState | Tick

fun agentStep :: "agentEvent \<Rightarrow> Agent \<Rightarrow> Agent \<times> AgentMessage list" where
  "agentStep (Downlink state) a = (applyState state a, [])"
| "agentStep Tick a = (step a, report (step a))"

text \<open>A tick at time \<open>now\<close>, with the report applied by the apiserver.\<close>

definition tickRound ::
  "'d codec \<Rightarrow> (nat \<Rightarrow> database \<Rightarrow> database) \<Rightarrow> time \<Rightarrow> Agent \<times> (nat \<times> database) \<Rightarrow> Agent \<times> (nat \<times> database)" where
  "tickRound cd env now = (\<lambda>(a, ks). case agentStep Tick a of
     (a', ms) \<Rightarrow> (a', uplinkLoop cd env (ag_HostID a) (map (\<lambda>m. (now, m)) ms) ks))"

end
