(* ===== verification/AgentApiCorrect.thy ===== *)
theory AgentApiCorrect
  imports AgentApi OperatorViewsCorrect
begin

text \<open>
  The agents' side of the apiserver is correct: its retry loops end, the mailbox always ends on the newest
  state read, the registry of sessions follows the newest stream of each host, and what agents report
  changes nothing it must not change.
\<close>

section \<open>The loops end\<close>

text \<open>The send loop leaves the new message in the mailbox after at most two rounds, whatever the reader does.\<close>

lemma push_returns: "push_loop taken n m box = Some (push m box)"
proof -
  have "push_loop taken n m None = Some (push m box)" for n
    by (simp add: push_loop.simps push_def)
  then show ?thesis by (subst push_loop.simps) (auto simp: push_def split: option.splits)
qed

text \<open>
  Both start-up loops try a fixed list of attempts in order: the first that succeeds wins, an attempt after
  which the context has ended stops, and the last one that fails gives up.
\<close>

datatype retryResult = Won nat | Stopped nat | Exhausted

fun retry :: "(nat \<Rightarrow> bool) \<Rightarrow> (nat \<Rightarrow> bool) \<Rightarrow> nat list \<Rightarrow> retryResult" where
  "retry ok stop [] = Exhausted"
| "retry ok stop (n # ns) = (if ok n then Won n else if ns = [] then Exhausted else if stop n then Stopped n else retry ok stop ns)"

lemma retry_Won: "retry ok stop ns = Won n \<Longrightarrow> n \<in> set ns \<and> ok n"
  by (induction ns) (auto split: if_splits)

lemma retry_Stopped: "retry ok stop ns = Stopped n \<Longrightarrow> n \<in> set ns \<and> stop n"
  by (induction ns) (auto split: if_splits)

lemma retry_Exhausted: "retry ok stop ns = Exhausted \<Longrightarrow> n \<in> set ns \<Longrightarrow> \<not> ok n"
  by (induction ns) (auto split: if_splits)

lemma retry_succeeds: "n \<in> set ns \<Longrightarrow> ok n \<Longrightarrow> (\<And>j. j \<in> set ns \<Longrightarrow> \<not> stop j) \<Longrightarrow> \<exists>m. retry ok stop ns = Won m"
  by (induction ns) auto

lemma listen_is_retry:
  "failures < agentListenMaxFailures \<Longrightarrow> listenWithRetry bind ended failures = Some
     (case retry bind (\<lambda>n. ended (Suc n)) [failures..<agentListenMaxFailures] of
        Won n \<Rightarrow> lr_Bound | Stopped n \<Rightarrow> lr_Ended | Exhausted \<Rightarrow> lr_GaveUp agentListenMaxFailures)"
proof (induction "agentListenMaxFailures - failures" arbitrary: failures)
  case (Suc x)
  show ?case
  proof (cases "Suc failures < agentListenMaxFailures")
    case True
    with Suc.hyps(1) [of "Suc failures"] Suc.hyps(2) show ?thesis
      by (subst listenWithRetry.simps) (auto simp: upt_conv_Cons)
  next
    case False
    with Suc.prems have "Suc failures = agentListenMaxFailures" by simp
    with Suc.prems show ?thesis by (subst listenWithRetry.simps) (auto simp: upt_conv_Cons)
  qed
qed simp

lemma Upsert_runs:
  "WithTx env (UpsertApiserverInstance i started now) ks = (Inr (), snd (WithTx env (UpsertApiserverInstance i started now) ks))"
  by (simp add: WithTx_def UpsertApiserverInstance_def Let_def)

lemma register_is_retry:
  "attempt \<le> registerAttempts \<Longrightarrow> registerWithRetry up ended clock env i started attempt ks = Some
     (case retry up ended [attempt..<Suc registerAttempts] of
        Won n \<Rightarrow> (Registered, snd (WithTx env (UpsertApiserverInstance i started (clock n)) ks))
      | Stopped n \<Rightarrow> (RegisterEnded, ks) | Exhausted \<Rightarrow> (RegisterFailed ErrDriver, ks))"
proof (induction "registerAttempts - attempt" arbitrary: attempt)
  case 0
  then have "attempt = registerAttempts" by simp
  then show ?case
    by (subst registerWithRetry.simps) (subst Upsert_runs, simp)
next
  case (Suc x)
  then have "Suc attempt \<le> registerAttempts" by simp
  with Suc.hyps(1) [of "Suc attempt"] Suc.hyps(2) show ?case
    by (subst registerWithRetry.simps) (subst Upsert_runs, simp add: upt_conv_Cons)
qed

lemma beat_ids: "ai_ID ` set (map (\<lambda>a. if ai_ID a = i then a\<lparr>ai_HeartbeatAt := now\<rparr> else a) xs) = ai_ID ` set xs"
  by (induction xs) auto

text \<open>
  C29: Registering the process ends: after at most thirty attempts it returns, whatever the database and
  the context do. It returns success only from an attempt that reached the database, and then the process
  is in the registry; it fails only when all thirty attempts did, and stops early only when the context
  ended; in both cases it has written nothing.
\<close>
theorem registration_returns:
  "\<exists>res ks'. registerWithRetry up ended clock env i started 1 ks = Some (res, ks') \<and>
     (case res of
        Registered \<Rightarrow> (\<exists>n. n \<in> {1..registerAttempts} \<and> up n \<and> ks' = snd (WithTx env (UpsertApiserverInstance i started (clock n)) ks))
          \<and> i \<in> ai_ID ` set (db_instances (snd ks'))
      | RegisterFailed e \<Rightarrow> ks' = ks \<and> (\<nexists>n. n \<in> {1..registerAttempts} \<and> up n)
      | RegisterEnded \<Rightarrow> ks' = ks \<and> (\<exists>n. n \<in> {1..registerAttempts} \<and> ended n))"
proof -
  have run: "registerWithRetry up ended clock env i started 1 ks = Some
     (case retry up ended [1..<Suc registerAttempts] of
        Won n \<Rightarrow> (Registered, snd (WithTx env (UpsertApiserverInstance i started (clock n)) ks))
      | Stopped n \<Rightarrow> (RegisterEnded, ks) | Exhausted \<Rightarrow> (RegisterFailed ErrDriver, ks))"
    by (rule register_is_retry) (simp add: registerAttempts_def)
  have range: "set [1..<Suc registerAttempts] = {1..registerAttempts}" by auto
  have row: "i \<in> ai_ID ` set (db_instances (snd (snd (WithTx env (UpsertApiserverInstance i started now) ks))))" for now
    using beat_ids [of i now "db_instances (env (fst ks) (snd ks))"]
    by (simp add: WithTx_def UpsertApiserverInstance_def Let_def del: set_map)
  show ?thesis
  proof (cases "retry up ended [1..<Suc registerAttempts]")
    case (Won n)
    show ?thesis unfolding run Won retryResult.case
      by (rule exI, rule exI, rule conjI, rule refl) (use retry_Won [OF Won, unfolded range] row in auto)
  next
    case (Stopped n)
    show ?thesis unfolding run Stopped retryResult.case
      by (rule exI, rule exI, rule conjI, rule refl) (use retry_Stopped [OF Stopped, unfolded range] in auto)
  next
    case Exhausted
    show ?thesis unfolding run Exhausted retryResult.case
      by (rule exI, rule exI, rule conjI, rule refl) (use retry_Exhausted [OF Exhausted, unfolded range] in auto)
  qed
qed

section \<open>The registry follows the newest stream\<close>

text \<open>What the streams do to the registry: one opens and registers, or a registered one ends.\<close>

datatype streamEvent = Opens uuid | Ends nat

fun streamStep :: "'d codec \<Rightarrow> streamEvent \<Rightarrow> 'd AgentAPI \<Rightarrow> 'd AgentAPI" where
  "streamStep c (Opens h) a = (case openSession (newAgentSession c h) a of (p, a') \<Rightarrow> register p a')"
| "streamStep c (Ends p) a = unregister p a"

definition noSessions :: "'d AgentAPI" where
  "noSessions = \<lparr>aa_opened = [], aa_sessions = []\<rparr>"

text \<open>The hosts of the streams in the order they opened, and the newest stream of a host.\<close>

definition openedBy :: "streamEvent list \<Rightarrow> uuid list" where
  "openedBy es = concat (map (\<lambda>e. case e of Opens h \<Rightarrow> [h] | Ends p \<Rightarrow> []) es)"

definition newestStream :: "streamEvent list \<Rightarrow> uuid \<Rightarrow> nat option" where
  "newestStream es h = find (\<lambda>p. openedBy es ! p = h) (rev [0..<length (openedBy es)])"

text \<open>What can happen, and the registry it leads to: a stream ends only after it opened.\<close>

inductive streams :: "'d codec \<Rightarrow> streamEvent list \<Rightarrow> 'd AgentAPI \<Rightarrow> bool" for c where
  start: "streams c [] noSessions"
| opens: "streams c es a \<Longrightarrow> streams c (es @ [Opens h]) (streamStep c (Opens h) a)"
| ends: "streams c es a \<Longrightarrow> p < length (aa_opened a) \<Longrightarrow> streams c (es @ [Ends p]) (streamStep c (Ends p) a)"

lemma openedBy_simps [simp]: "openedBy [] = []" "openedBy (es @ [Opens h]) = openedBy es @ [h]" "openedBy (es @ [Ends p]) = openedBy es"
  by (simp_all add: openedBy_def)

lemma newestStream_opens:
  "newestStream (es @ [Opens h]) h' = (if h' = h then Some (length (openedBy es)) else newestStream es h')"
proof -
  have "find (\<lambda>p. (openedBy es @ [h]) ! p = h') (rev [0..<length (openedBy es)]) = find (\<lambda>p. openedBy es ! p = h') (rev [0..<length (openedBy es)])"
    by (rule find_cong) (simp_all add: nth_append)
  then show ?thesis by (simp add: newestStream_def nth_append)
qed

lemma newestStream_ends: "newestStream (es @ [Ends p]) h = newestStream es h"
  by (simp add: newestStream_def)

lemma newestStream_Some: "newestStream es h = Some p \<Longrightarrow> p < length (openedBy es) \<and> openedBy es ! p = h"
  unfolding newestStream_def by (auto dest: find_Some_set)

lemma streams_run:
  assumes "streams c es a"
  shows "map se_hostID (aa_opened a) = openedBy es" "Ends p \<in> set es \<Longrightarrow> p < length (openedBy es)"
    "session a h = (case newestStream es h of None \<Rightarrow> None | Some p \<Rightarrow> if Ends p \<in> set es then None else Some p)"
  using assms
proof (induction arbitrary: p h)
  case start
  { case 1 show ?case by (simp add: noSessions_def)
  next
    case 2 then show ?case by simp
  next
    case 3 show ?case by (simp add: noSessions_def session_def newestStream_def) }
next
  case (opens es a h')
  have len: "length (aa_opened a) = length (openedBy es)" using opens.IH(1) by (metis length_map)
  { case 1 show ?case using opens.IH(1) by (simp add: openSession_def register_def newAgentSession_def)
  next
    case 2 with opens.IH(2) show ?case by fastforce
  next
    case 3
    have "session (streamStep c (Opens h') a) h = (if h = h' then Some (length (openedBy es)) else session a h)"
      by (simp add: openSession_def register_def newAgentSession_def session_def len [symmetric] update_conv')
    moreover have "Ends (length (openedBy es)) \<notin> set es" using opens.IH(2) by blast
    ultimately show ?case using opens.IH(3) by (simp add: newestStream_opens split: option.splits) }
next
  case (ends es a q)
  have len: "length (aa_opened a) = length (openedBy es)" using ends.IH(1) by (metis length_map)
  have host: "se_hostID (aa_opened a ! q) = openedBy es ! q" using ends.IH(1) ends.hyps(2) by (metis nth_map)
  { case 1 show ?case using ends.IH(1) by (simp add: unregister_def Let_def)
  next
    case 2 with ends.IH(2) ends.hyps(2) show ?case by (auto simp: len)
  next
    case 3
    have "session (streamStep c (Ends q) a) h = (if h = openedBy es ! q \<and> session a h = Some q then None else session a h)"
      by (auto simp: unregister_def Let_def session_def host delete_conv')
    then show ?case using ends.IH(3) [of h] newestStream_Some [of es h]
      by (auto simp: newestStream_ends split: option.splits if_splits) }
qed

text \<open>
  Whatever streams open and end, in whatever order, each host is registered under the newest stream it
  opened for as long as that stream lives; an older stream that ends late never evicts a newer one.
\<close>
theorem registry_follows_newest:
  assumes "streams c es a"
  shows "session a h = (case newestStream es h of None \<Rightarrow> None | Some p \<Rightarrow> if Ends p \<in> set es then None else Some p)"
  by (rule streams_run(3) [OF assms])

section \<open>The downlink ends on the newest state\<close>

text \<open>
  One host's downlink, with \<^verbatim>\<open>pushMu\<close>: a trigger takes the lock and reads the host's state, whatever it is
  at that moment; later, still under the lock, it compares and pushes; meanwhile the stream's goroutine
  takes from the mailbox. \<open>dl_read\<close> is the state of the last completed trigger, \<open>dl_agent\<close> the last
  message the agent received.
\<close>

record 'd downlinkState =
  dl_session :: "'d agentSession"
  dl_lock :: "(bool \<times> HostState \<times> 'd) option"
  dl_read :: "HostState option"
  dl_agent :: "HostState option"

inductive downlinks :: "'d codec \<Rightarrow> uuid \<Rightarrow> 'd downlinkState \<Rightarrow> bool" for c h where
  connect: "downlinks c h \<lparr>dl_session = newAgentSession c h, dl_lock = None, dl_read = None, dl_agent = None\<rparr>"
| trigger: "downlinks c h s \<Longrightarrow> dl_lock s = None \<Longrightarrow> digest c state = Some d \<Longrightarrow>
    downlinks c h (s\<lparr>dl_lock := Some (force, state, d)\<rparr>)"
| applies: "downlinks c h s \<Longrightarrow> dl_lock s = Some (force, state, d) \<Longrightarrow>
    downlinks c h (s\<lparr>dl_session := pushRead force (state, d) (dl_session s), dl_lock := None, dl_read := Some state\<rparr>)"
| receives: "downlinks c h s \<Longrightarrow> se_send (dl_session s) = Some m \<Longrightarrow>
    downlinks c h (s\<lparr>dl_session := (dl_session s)\<lparr>se_send := None\<rparr>, dl_agent := Some m\<rparr>)"

text \<open>What the agent has or is about to receive.\<close>

definition freshest :: "'d downlinkState \<Rightarrow> HostState option" where
  "freshest s = (case se_send (dl_session s) of Some m \<Rightarrow> Some m | None \<Rightarrow> dl_agent s)"

definition faithful :: "'d codec \<Rightarrow> bool" where
  "faithful c \<longleftrightarrow> (\<forall>s t d. digest c s = Some d \<longrightarrow> digest c t = Some d \<longrightarrow> s = t) \<and> (\<forall>s. digest c s \<noteq> Some (zeroDigest c))"

lemma downlinks_inv:
  assumes "downlinks c h s" "faithful c"
  shows "freshest s = dl_read s"
    and "case dl_read s of None \<Rightarrow> se_lastHash (dl_session s) = zeroDigest c | Some t \<Rightarrow> digest c t = Some (se_lastHash (dl_session s))"
    and "case dl_lock s of None \<Rightarrow> True | Some (force, t, d) \<Rightarrow> digest c t = Some d"
  using assms(1)
proof induction
  case connect
  { case 1 show ?case by (simp add: freshest_def newAgentSession_def)
  next case 2 show ?case by (simp add: newAgentSession_def)
  next case 3 show ?case by simp }
next
  case (trigger s state d force)
  { case 1 show ?case using trigger.IH(1) by (simp add: freshest_def cong: option.case_cong)
  next case 2 show ?case using trigger.IH(2) by (simp cong: option.case_cong)
  next case 3 show ?case using trigger.hyps(3) by simp }
next
  case (applies s force state d)
  from applies.IH(3) applies.hyps(2) have d: "digest c state = Some d" by simp
  have same: "dl_read s = Some state" if "d = se_lastHash (dl_session s)"
    using applies.IH(2) assms(2) d that by (auto simp: faithful_def split: option.splits)
  { case 1 show ?case using applies.IH(1) same by (auto simp: pushRead_def push_def freshest_def cong: option.case_cong)
  next case 2 show ?case using d by (auto simp: pushRead_def)
  next case 3 show ?case by simp }
next
  case (receives s m)
  { case 1 show ?case using receives.IH(1) receives.hyps(2) by (simp add: freshest_def)
  next case 2 show ?case using receives.IH(2) by (simp cong: option.case_cong)
  next case 3 show ?case using receives.IH(3) by (simp cong: option.case_cong) }
qed

text \<open>\<^verbatim>\<open>pushState\<close> alone, from the lock to the push, is a trigger and its push.\<close>

lemma hostState_digest: "hostState c env h ks = (Inr (state, d), ks') \<Longrightarrow> digest c state = Some d"
  by (auto simp: hostState_def run_bind_def run_ok_def run_err_def Let_def split: prod.splits sum.splits option.splits)

lemma pushState_downlink:
  assumes "downlinks c h s" "dl_lock s = None" "session a h = Some p" "p < length (aa_opened a)"
    and "aa_opened a ! p = dl_session s" "hostState c env h ks = (Inr (state, d), ks')"
  shows "downlinks c h (s\<lparr>dl_session := aa_opened (fst (pushState c env h force (a, ks))) ! p, dl_read := Some state\<rparr>)"
proof -
  note d = hostState_digest [OF assms(6)]
  have "downlinks c h (s\<lparr>dl_lock := Some (force, state, d)\<rparr>)" by (rule downlinks.trigger [OF assms(1,2) d])
  from downlinks.applies [OF this] have "downlinks c h (s\<lparr>dl_session := pushRead force (state, d) (dl_session s), dl_lock := None, dl_read := Some state\<rparr>)"
    by simp
  moreover have "s\<lparr>dl_session := pushRead force (state, d) (dl_session s), dl_lock := None, dl_read := Some state\<rparr>
      = s\<lparr>dl_session := aa_opened (fst (pushState c env h force (a, ks))) ! p, dl_read := Some state\<rparr>"
    using assms by (cases s) (simp add: pushState_def onSession_def)
  ultimately show ?thesis by simp
qed

text \<open>
  The downlink never leaves an agent on an old picture: in every interleaving of triggers, pushes and
  receives on a host's stream, what the agent has received, or finds in its mailbox next, is the state
  read by the last trigger that completed - although unchanged states are not sent and a message in the
  mailbox may be replaced. The digest is assumed to tell states apart.
\<close>
theorem downlink_ends_on_newest:
  assumes "downlinks c h s" "faithful c"
  shows "(case se_send (dl_session s) of Some m \<Rightarrow> Some m | None \<Rightarrow> dl_agent s) = dl_read s"
  using downlinks_inv(1) [OF assms] by (simp add: freshest_def)

section \<open>What agents report\<close>

lemma call_quiet: "call quiet m (k, db) = (case m db of Inl e \<Rightarrow> (Inl (AgentStore e), (Suc k, db)) | Inr (x, db') \<Rightarrow> (Inr x, (Suc k, db')))"
  by (auto simp: call_def WithTx_def quiet_def split: sum.splits)

lemma call_keeps: "op_keeps J m \<Longrightarrow> env_keeps J env \<Longrightarrow> run_keeps J (call env m)"
  unfolding call_def by (rule WithTx_keeps) (auto simp: op_keeps_def map_sum_def split: sum.splits)

lemma keeps_project:
  assumes "op_keeps db_wf m" "\<And>db x db'. m db = Inr (x, db') \<Longrightarrow> db_deployments db' = db_deployments db
    \<and> db_deploymentRegions db' = db_deploymentRegions db \<and> db_environmentServices db' = db_environmentServices db
    \<and> db_regions db' = db_regions db"
  shows "op_keeps project_wf m"
proof (rule op_keepsI)
  fix db x db'
  assume "project_wf db" and run: "m db = Inr (x, db')"
  with op_keepsD [OF assms(1) _ run] assms(2) [OF run] show "project_wf db'"
    by (simp add: project_wf_def deployments_wf_def deployment_ok_def region_ok_def)
qed

lemma observation_writes_keep:
  "op_keeps project_wf (RecordHostHeartbeat h t)" "op_keeps project_wf (RecordVolumeObservedSize v n)"
  "op_keeps project_wf (RenewVolumeLease i t)"
  "AgentReportable (to_ReplicaPhase (ob_Phase obs)) \<Longrightarrow> op_keeps project_wf (RecordReplicaObservation obs)"
  by (intro keeps_project keeps_RecordHostHeartbeat keeps_RecordVolumeObservedSize keeps_RenewVolumeLease
      keeps_RecordReplicaObservation; auto simp: RecordHostHeartbeat_def RecordVolumeObservedSize_def RenewVolumeLease_def
      RecordReplicaObservation_Inr q_RecordReplicaObservation_def)+

lemma applyUplink_keeps:
  assumes "env_keeps project_wf env"
  shows "run_keeps project_wf (applyUplink c env now h m)"
proof -
  have "run_keeps project_wf (ObserveReplica env now obs)" for obs
    by (cases "AgentReportable (to_ReplicaPhase (ob_Phase obs))")
      (simp_all add: ObserveReplica_def run_keeps_err, intro run_keeps_bind run_keeps_if run_keeps_ok call_keeps
        observation_writes_keep assms, assumption)
  then show ?thesis
    by (cases m) (auto simp: RecordHeartbeat_def ObserveVolumeSize_def intro!: run_keeps_err run_keeps_if call_keeps
        observation_writes_keep assms split: option.split)
qed

text \<open>
  Nothing an agent sends can break the database: whatever messages arrive on a stream - phases no
  agent may report, negative sizes, foreign or malformed identifiers - the constraints of the database
  hold after them, provided the other writers keep them.
\<close>
theorem uplink_keeps_schema:
  assumes "project_wf db" "\<forall>k s. project_wf s \<longrightarrow> project_wf (env k s)"
  shows "project_wf (snd (uplinkLoop c env h ms (k, db)))"
proof -
  have env: "env_keeps project_wf env" using assms(2) by (simp add: env_keeps_def)
  have "project_wf (snd ks) \<Longrightarrow> project_wf (snd (uplinkLoop c env h ms ks))" for ks
  proof (induction ms arbitrary: ks)
    case (Cons m ms)
    obtain now msg where m: "m = (now, msg)" by (cases m)
    from run_keepsD [OF applyUplink_keeps [OF env] Cons.prems] have "project_wf (snd (snd (applyUplink c env now h msg ks)))"
      by (metis prod.collapse)
    from Cons.IH [OF this] show ?case by (simp add: m)
  qed simp
  with assms(1) show ?thesis by simp
qed

text \<open>What an accepted report writes: the row, and the lease when the report is healthy.\<close>

definition landed :: "time \<Rightarrow> ReplicaObservation \<Rightarrow> database \<Rightarrow> database" where
  "landed now obs db = (let db1 = snd (q_RecordReplicaObservation obs db)
     in if ob_Healthy obs then db1\<lparr>db_leases := map (\<lambda>l. if vl_ReplicaID l = ob_ReplicaID obs then l\<lparr>vl_ExpiresAt := now + VolumeLeaseTTL\<rparr> else l) (db_leases db)\<rparr>
        else db1)"

lemma ObserveReplica_run:
  "snd (snd (ObserveReplica quiet now obs (k, db))) =
     (if AgentReportable (to_ReplicaPhase (ob_Phase obs)) \<and> (\<exists>r \<in> set (db_replicas db). rr_ID r = ob_ReplicaID obs \<and> freezable r)
      then landed now obs db else db)"
proof (cases "AgentReportable (to_ReplicaPhase (ob_Phase obs))")
  case True
  let ?b = "\<exists>r \<in> set (db_replicas db). rr_ID r = ob_ReplicaID obs \<and> freezable r"
  have run: "RecordReplicaObservation obs db = Inr (?b, snd (q_RecordReplicaObservation obs db))"
    using True by (simp add: RecordReplicaObservation_Inr AgentReportable_Valid)
  show ?thesis
  proof (cases ?b)
    case b: True
    with True show ?thesis
      by (simp add: ObserveReplica_def run_bind_def call_quiet run landed_def Let_def run_ok_def RenewVolumeLease_def
          q_RecordReplicaObservation_def)
  next
    case False
    then have b: "?b = False" by blast
    from False have "map (\<lambda>r. if rr_ID r = ob_ReplicaID obs \<and> freezable r then f r else r) (db_replicas db) = db_replicas db" for f
      by (intro map_idI) auto
    then have "snd (q_RecordReplicaObservation obs db) = db"
      by (simp add: q_RecordReplicaObservation_def)
    with True show ?thesis
      by (simp add: ObserveReplica_def run_bind_def call_quiet run run_ok_def b del: bex_simps)
  qed
qed (simp add: ObserveReplica_def run_err_def)

text \<open>
  A stale report changes nothing, the lease included: if the replica is gone, or retiring, or frozen,
  or taken off its host, then whatever its agent says about it - healthy or not - the database is as it
  was, so an agent cut off from the control plane cannot hold a volume against the failover.
\<close>
theorem stale_reports_are_inert:
  assumes "idParse c (wo_ReplicaId w) = Some i"
    and "\<forall>r \<in> set (db_replicas db). rr_ID r = i \<longrightarrow>
      rr_Phase r \<in> {ReplicaPhaseDraining, ReplicaPhaseReaped, ReplicaPhaseFailed, ReplicaPhaseReplacing}"
  shows "snd (snd (applyUplink c quiet now h (Observation w) (k, db))) = db"
proof -
  have "(\<exists>r \<in> set (db_replicas db). rr_ID r = i \<and> freezable r) = False"
    using assms(2) by (auto simp: freezable_def)
  then show ?thesis
    by (simp only: assms(1) ObserveReplica_run observationOf_def applyUplink.simps option.case
        ReplicaObservation.simps simp_thms if_False)
qed

section \<open>What a host's agent is told\<close>

definition toldReplica :: "'d codec \<Rightarrow> ReplicaRow \<Rightarrow> wireReplica" where
  "toldReplica c r = \<lparr>wr_Id = idText c (rr_ID r), wr_Phase = ReplicaPhase_string (rr_Phase r)\<rparr>"

definition toldVolume :: "'d codec \<Rightarrow> VolumeRow \<Rightarrow> wireVolume" where
  "toldVolume c v = \<lparr>wv_Id = idText c (vr_ID v), wv_MountPath = vr_MountPath v, wv_SizeBytes = volumeTargetSize v\<rparr>"

lemma hostState_quiet:
  "hostState c quiet h (k, db) = (Inr (state, d), ks') \<Longrightarrow>
     state = \<lparr>hs_Replicas = wireReplicas c (filter (\<lambda>r. rr_HostID r = Some h \<and> liveRow r) (db_replicas db)),
       hs_Volumes = wireVolumes c (sort_by (uuidCmp vr_ID) (filter (\<lambda>v. vr_HostID v = Some h) (db_volumes db)))\<rparr>
     \<and> digest c state = Some d"
  by (auto simp: hostState_def run_bind_def call_quiet ListReplicasByHost_def ListVolumesByHost_def run_ok_def run_err_def Let_def
      split: option.splits)

lemma mset_wireReplicas: "(\<And>r. r \<in> set rows \<Longrightarrow> liveRow r) \<Longrightarrow> mset (wireReplicas c rows) = image_mset (toldReplica c) (mset rows)"
  by (simp add: wireReplicas_def toldReplica_def [abs_def] liveRow_def mset_map [symmetric] del: mset_map)

lemma mset_wireVolumes: "mset (wireVolumes c vols) = image_mset (toldVolume c) (mset vols)"
  by (simp add: wireVolumes_def toldVolume_def [abs_def])

text \<open>
  What a host's agent is told is what the database has for it, and what the host is charged for: the
  live replicas placed on it and the volumes it holds, each exactly once and in the order of their
  identifiers; no frozen or reaped replica; and the sizes of the disks add up to the disk the operator
  and the placer count as used on it.
\<close>
theorem pushed_state_is_the_hosts:
  assumes "hostState c quiet h (k, db) = (Inr (state, d), ks')"
  shows "mset (hs_Replicas state) = image_mset (toldReplica c) {#r \<in># mset (db_replicas db). rr_HostID r = Some h \<and> liveRow r#}
    \<and> mset (hs_Volumes state) = image_mset (toldVolume c) {#v \<in># mset (db_volumes db). vr_HostID v = Some h#}
    \<and> sorted (map wr_Id (hs_Replicas state)) \<and> sorted (map wv_Id (hs_Volumes state))
    \<and> sum_list (map wv_SizeBytes (hs_Volumes state)) = hu_DiskBytes (hostUsage db h)"
proof -
  note state = conjunct1 [OF hostState_quiet [OF assms]]
  have vols: "mset (hs_Volumes state) = image_mset (toldVolume c) (mset (filter (\<lambda>v. vr_HostID v = Some h) (db_volumes db)))"
    by (simp add: state mset_wireVolumes)
  have "sum_list (map wv_SizeBytes (hs_Volumes state)) = sum_mset (image_mset wv_SizeBytes (mset (hs_Volumes state)))"
    by (simp flip: sum_mset_sum_list)
  also have "\<dots> = sum_list (map committedBytes (filter (\<lambda>v. vr_HostID v = Some h) (db_volumes db)))"
    by (simp add: vols toldVolume_def volumeTargetSize_def Committed_row o_def flip: sum_mset_sum_list mset_filter mset_map)
  finally have "sum_list (map wv_SizeBytes (hs_Volumes state)) = hu_DiskBytes (hostUsage db h)"
    by (simp add: hostUsage_def Let_def)
  moreover have "mset (hs_Replicas state) = image_mset (toldReplica c) (mset (filter (\<lambda>r. rr_HostID r = Some h \<and> liveRow r) (db_replicas db)))"
    unfolding state HostState.simps by (rule mset_wireReplicas) simp
  moreover have "sorted (map wr_Id (hs_Replicas state))" "sorted (map wv_Id (hs_Volumes state))"
    by (simp_all add: state wireReplicas_def wireVolumes_def)
  ultimately show ?thesis using vols by simp
qed

section \<open>A report is not tied to its host\<close>

text \<open>A concrete codec: an identifier in unary, and the state itself for its digest.\<close>

definition demo_codec :: "HostState option codec" where
  "demo_codec = \<lparr>idText = (\<lambda>i. replicate (unat i) (CHR ''x'')), idParse = (\<lambda>s. Some (of_nat (length s))),
     digest = (\<lambda>s. Some (Some s)), zeroDigest = None\<rparr>"

lemma demo_faithful: "faithful demo_codec"
  by (simp add: faithful_def demo_codec_def)

definition well :: "uuid \<Rightarrow> AgentMessage" where
  "well i = Observation \<lparr>wo_ReplicaId = idText demo_codec i, wo_Phase = ''active'', wo_Healthy = True, wo_RestartCount = 0,
     wo_LastExitReason = ''''\<rparr>"

text \<open>A replica of the web service running on host 9, which has gone silent, and an idle host 10.\<close>

definition zombie_db :: database where
  "zombie_db = shop_db\<lparr>db_hosts := [shop_host\<lparr>hr_LastHeartbeat := Some 0\<rparr>, shop_host\<lparr>hr_ID := 10\<rparr>],
     db_replicas := [view_placed\<lparr>rr_Phase := ReplicaPhaseActive, rr_Healthy := True\<rparr>]\<rparr>"

definition moved_db :: "storeError + unit \<times> database" where
  "moved_db = op_seq (MarkHostDown 9 50) (AssignReplicaHost 42 10) zombie_db"

definition placements :: "database \<Rightarrow> (uuid option \<times> ReplicaPhase \<times> bool) list" where
  "placements db = map (\<lambda>r. (rr_HostID r, rr_Phase r, rr_Healthy r)) (db_replicas db)"

text \<open>
  An agent's report is applied without looking at the host it comes from. After the watchdog has freed
  a silent host's replica and the engine has placed it on another, the report of the old host's agent is
  no longer stale to the guard: it makes the new placement active and healthy although nothing runs there.
\<close>
theorem zombie_report_lands:
  "\<exists>db. moved_db = Inr ((), db) \<and> placements db = [(Some 10, ReplicaPhaseScheduling, False)]
     \<and> placements (snd (snd (applyUplink demo_codec quiet 100 9 (well 42) (0, db)))) = [(Some 10, ReplicaPhaseActive, True)]"
proof -
  have "\<not> isl moved_db" "placements (snd (projr moved_db)) = [(Some 10, ReplicaPhaseScheduling, False)]"
    "placements (snd (snd (applyUplink demo_codec quiet 100 9 (well 42) (0, snd (projr moved_db))))) = [(Some 10, ReplicaPhaseActive, True)]"
    by code_simp+
  moreover from this(1) have "moved_db = Inr ((), snd (projr moved_db))"
    by (metis prod.collapse sum.collapse(2) unit_eq)
  ultimately show ?thesis by blast
qed

section \<open>Witnesses\<close>

theorem registry_follows_newest_witness:
  "\<exists>a. streams demo_codec [Opens 9, Opens 9, Ends 0] a \<and> session a 9 = Some 1"
proof -
  have "streams demo_codec ((([] @ [Opens 9]) @ [Opens 9]) @ [Ends 0])
      (streamStep demo_codec (Ends 0) (streamStep demo_codec (Opens 9) (streamStep demo_codec (Opens 9) noSessions)))"
    by (intro streams.intros) (simp add: openSession_def register_def noSessions_def)
  then obtain a where a: "streams demo_codec [Opens 9, Opens 9, Ends 0] a" by auto
  have "newestStream [Opens 9, Opens 9, Ends 0] 9 = Some 1" by code_simp
  with registry_follows_newest [OF a, of 9] a show ?thesis by auto
qed

theorem downlink_ends_on_newest_witness:
  "\<exists>s. downlinks demo_codec 9 s \<and> dl_agent s = Some \<lparr>hs_Replicas = [], hs_Volumes = []\<rparr> \<and> dl_read s = dl_agent s"
proof -
  let ?m = "\<lparr>hs_Replicas = [], hs_Volumes = []\<rparr>"
  let ?s0 = "\<lparr>dl_session = newAgentSession demo_codec 9, dl_lock = None, dl_read = None, dl_agent = None\<rparr>"
  let ?s1 = "?s0\<lparr>dl_lock := Some (True, ?m, Some ?m)\<rparr>"
  let ?s2 = "?s1\<lparr>dl_session := pushRead True (?m, Some ?m) (dl_session ?s1), dl_lock := None, dl_read := Some ?m\<rparr>"
  let ?s3 = "?s2\<lparr>dl_session := (dl_session ?s2)\<lparr>se_send := None\<rparr>, dl_agent := Some ?m\<rparr>"
  have "downlinks demo_codec 9 ?s1"
    by (rule downlinks.trigger [OF downlinks.connect]) (simp_all add: demo_codec_def)
  then have "downlinks demo_codec 9 ?s2" by (rule downlinks.applies) simp
  then have s3: "downlinks demo_codec 9 ?s3" by (rule downlinks.receives) (simp add: pushRead_def push_def)
  from downlink_ends_on_newest [OF s3 demo_faithful] have "dl_agent ?s3 = dl_read ?s3" by simp
  with s3 show ?thesis by (intro exI [of _ ?s3]) simp
qed

theorem uplink_keeps_schema_witness:
  "project_wf (snd (uplinkLoop demo_codec (\<lambda>_ s. s) 9 [(5, Heartbeat), (6, well 42), (7, Unset)] (0, view_db)))"
  by (rule uplink_keeps_schema [OF view_wf]) simp

theorem stale_reports_are_inert_witness:
  "snd (snd (applyUplink demo_codec quiet 100 9 (well 3) (0, view_db))) = view_db"
  unfolding well_def by (rule stale_reports_are_inert [of _ _ 3]) (code_simp, simp add: view_defs)

theorem pushed_state_is_the_hosts_witness:
  "\<exists>state d ks'. hostState demo_codec quiet 9 (0, view_db) = (Inr (state, d), ks')
    \<and> sum_list (map wv_SizeBytes (hs_Volumes state)) = hu_DiskBytes (hostUsage view_db 9)"
proof -
  obtain state d ks' where run: "hostState demo_codec quiet 9 (0, view_db) = (Inr (state, d), ks')"
    by (simp add: hostState_def run_bind_def call_quiet ListReplicasByHost_def ListVolumesByHost_def demo_codec_def run_ok_def Let_def)
  with pushed_state_is_the_hosts [OF run] show ?thesis by blast
qed

end
