(* ===== verification/AgentSimCorrect.thy ===== *)
theory AgentSimCorrect
  imports AgentSim AgentApiCorrect
begin

text \<open>
  The agents and the apiserver together: an agent converges to the state it is told, its reports make the
  database agree with it, a disk never shrinks, and the way from a placement to a healthy replica, and
  from an approved grow to a caught-up volume, takes one push and two ticks, or one.
\<close>

section \<open>Maps as association lists\<close>

lemma map_of_retain: "map_of (retain seen m) i = (if i \<in> set seen then map_of m i else None)"
  by (induction m) (auto simp: retain_def)

lemma distinct_retain: "distinct (map fst m) \<Longrightarrow> distinct (map fst (retain seen m))"
  by (simp add: retain_def distinct_map_filter)

lemma keys_retain: "fst ` set (retain seen m) \<subseteq> set seen"
  by (auto simp: retain_def)

lemma map_of_values: "map_of (map (\<lambda>(i, v). (i, f v)) m) i = map_option f (map_of m i)"
  by (induction m) auto

lemma keys_values: "map fst (map (\<lambda>(i, v). (i, f v)) m) = map fst m"
  by (induction m) auto

text \<open>A loop over a message that treats each of its entries by key.\<close>

lemma fold_by_key:
  assumes "\<And>x m i. i \<noteq> key x \<Longrightarrow> map_of (f x m) i = map_of m i"
    and "\<And>x m. map_of (f x m) (key x) = g x (map_of m (key x))"
    and "distinct (map key xs)"
  shows "x \<in> set xs \<Longrightarrow> map_of (fold f xs m) (key x) = g x (map_of m (key x))"
    and "i \<notin> key ` set xs \<Longrightarrow> map_of (fold f xs m) i = map_of m i"
  using assms(3)
proof (induction xs arbitrary: m i)
  case (Cons y ys)
  { case 1
    show ?case
    proof (cases "x = y")
      case True
      with 1 have "key x \<notin> key ` set ys" by auto
      with Cons.IH(2) [of "key x"] 1 True show ?thesis by (simp add: assms(2))
    next
      case False
      with 1 have "x \<in> set ys" "key y \<notin> key ` set ys" by auto
      then have "key x \<noteq> key y" by (metis imageI)
      with Cons.IH(1) 1 False show ?thesis by (simp add: assms(1))
    qed
  next
    case 2
    with Cons.IH(2) show ?case by (simp add: assms(1)) }
qed simp_all

section \<open>An agent takes over what it is told\<close>

text \<open>What one entry of a message makes of the container, or the disk, under its key.\<close>

definition adopt :: "wireReplica \<Rightarrow> container option \<Rightarrow> container option" where
  "adopt r old = (case old of
       Some c \<Rightarrow> if wr_Phase r = ''draining'' then None else Some c
     | None \<Rightarrow> if wr_Phase r = ''scheduling'' then Some (newContainer ''starting'' False)
               else if wr_Phase r \<in> {''draining'', ''failed'', ''reaped''} then None
               else Some (newContainer (wr_Phase r) (wr_Phase r = ''active'')))"

definition retarget :: "wireVolume \<Rightarrow> disk option \<Rightarrow> disk option" where
  "retarget v old = Some (case old of
       None \<Rightarrow> \<lparr>dk_mountPath = wv_MountPath v, dk_sizeBytes = wv_SizeBytes v, dk_targetBytes = wv_SizeBytes v, dk_chaos = chaosNone\<rparr>
     | Some d \<Rightarrow> d\<lparr>dk_targetBytes := wv_SizeBytes v\<rparr>)"

lemma applyReplica_at:
  "i \<noteq> wr_Id r \<Longrightarrow> map_of (applyReplica r cs) i = map_of cs i"
  "map_of (applyReplica r cs) (wr_Id r) = adopt r (map_of cs (wr_Id r))"
  by (auto simp: applyReplica_def adopt_def update_conv' delete_conv' split: option.split)

lemma applyVolume_at:
  "i \<noteq> wv_Id v \<Longrightarrow> map_of (applyVolume v ds) i = map_of ds i"
  "map_of (applyVolume v ds) (wv_Id v) = retarget v (map_of ds (wv_Id v))"
  by (auto simp: applyVolume_def retarget_def update_conv' split: option.split)

definition agent_ok :: "Agent \<Rightarrow> bool" where
  "agent_ok a \<longleftrightarrow> distinct (map fst (ag_containers a)) \<and> distinct (map fst (ag_disks a))"

definition state_ok :: "HostState \<Rightarrow> bool" where
  "state_ok s \<longleftrightarrow> distinct (map wr_Id (hs_Replicas s)) \<and> distinct (map wv_Id (hs_Volumes s))"

lemma applyState_containers:
  assumes "state_ok s"
  shows "r \<in> set (hs_Replicas s) \<Longrightarrow> map_of (ag_containers (applyState s a)) (wr_Id r) = adopt r (map_of (ag_containers a) (wr_Id r))"
    and "i \<notin> wr_Id ` set (hs_Replicas s) \<Longrightarrow> map_of (ag_containers (applyState s a)) i = None"
  using fold_by_key(1) [where key = wr_Id and f = applyReplica and g = adopt, OF applyReplica_at] assms
  by (auto simp: applyState_def map_of_retain state_ok_def)

lemma applyState_disks:
  assumes "state_ok s"
  shows "v \<in> set (hs_Volumes s) \<Longrightarrow> map_of (ag_disks (applyState s a)) (wv_Id v) = retarget v (map_of (ag_disks a) (wv_Id v))"
    and "i \<notin> wv_Id ` set (hs_Volumes s) \<Longrightarrow> map_of (ag_disks (applyState s a)) i = None"
  using fold_by_key(1) [where key = wv_Id and f = applyVolume and g = retarget, OF applyVolume_at] assms
  by (auto simp: applyState_def map_of_retain state_ok_def)

lemma applyState_ok:
  assumes "agent_ok a" shows "agent_ok (applyState s a)"
proof -
  have "distinct (map fst cs) \<Longrightarrow> distinct (map fst (fold applyReplica rs cs))" for rs cs
    by (induction rs arbitrary: cs) (auto simp: applyReplica_def distinct_update distinct_delete split: option.split)
  moreover have "distinct (map fst ds) \<Longrightarrow> distinct (map fst (fold applyVolume vs ds))" for vs ds
    by (induction vs arbitrary: ds) (auto simp: applyVolume_def distinct_update split: option.split)
  ultimately show ?thesis
    using assms by (simp add: agent_ok_def applyState_def distinct_retain)
qed

lemma applyState_keys:
  "fst ` set (ag_containers (applyState s a)) \<subseteq> wr_Id ` set (hs_Replicas s)"
  "fst ` set (ag_disks (applyState s a)) \<subseteq> wv_Id ` set (hs_Volumes s)"
  unfolding applyState_def using keys_retain [of "map wr_Id (hs_Replicas s)"] keys_retain [of "map wv_Id (hs_Volumes s)"]
  by (simp_all del: image_subset_iff)

lemma step_keys: "map fst (ag_containers (step a)) = map fst (ag_containers a)" "map fst (ag_disks (step a)) = map fst (ag_disks a)"
  by (simp_all add: step_def keys_values del: map_map map_eq_conv)

lemma step_at:
  "map_of (ag_containers (step a)) i = map_option stepContainer (map_of (ag_containers a) i)"
  "map_of (ag_disks (step a)) i = map_option stepDisk (map_of (ag_disks a) i)"
  by (simp_all add: step_def map_of_values)

lemma step_ok: "agent_ok a \<Longrightarrow> agent_ok (step a)"
  by (simp only: agent_ok_def step_keys)

section \<open>What a report does to a row\<close>

definition codec_ok :: "'d codec \<Rightarrow> bool" where
  "codec_ok c \<longleftrightarrow> (\<forall>i. idParse c (idText c i) = Some i)"

definition obsView :: "ReplicaRow \<Rightarrow> uuid option \<times> ReplicaPhase \<times> bool" where
  "obsView r = (rr_HostID r, rr_Phase r, rr_Healthy r)"

definition rowView :: "database \<Rightarrow> uuid \<Rightarrow> (uuid option \<times> ReplicaPhase \<times> bool) list" where
  "rowView db i = map obsView (filter (\<lambda>r. rr_ID r = i) (db_replicas db))"

definition sizeView :: "database \<Rightarrow> uuid \<Rightarrow> (VolumeStatus \<times> int \<times> int option) list" where
  "sizeView db i = map (\<lambda>v. (vr_Status v, vr_DesiredSizeBytes v, vr_ObservedSizeBytes v)) (filter (\<lambda>v. vr_ID v = i) (db_volumes db))"

fun reportOn :: "'d codec \<Rightarrow> uuid \<Rightarrow> AgentMessage \<Rightarrow> (ReplicaPhase \<times> bool) option" where
  "reportOn c i (Observation w) = (if idParse c (wo_ReplicaId w) = Some i \<and> AgentReportable (to_ReplicaPhase (wo_Phase w))
     then Some (to_ReplicaPhase (wo_Phase w), wo_Healthy w) else None)"
| "reportOn c i m = None"

fun sizeOn :: "'d codec \<Rightarrow> uuid \<Rightarrow> AgentMessage \<Rightarrow> int option" where
  "sizeOn c i (VolumeObservation w) = (if idParse c (wvo_VolumeId w) = Some i \<and> 0 < wvo_ObservedSizeBytes w
     then Some (wvo_ObservedSizeBytes w) else None)"
| "sizeOn c i m = None"

definition takeReport :: "(ReplicaPhase \<times> bool) option \<Rightarrow> uuid option \<times> ReplicaPhase \<times> bool \<Rightarrow> uuid option \<times> ReplicaPhase \<times> bool" where
  "takeReport rep v = (case rep of None \<Rightarrow> v
     | Some (p, healthy) \<Rightarrow> (case v of (h, q, b) \<Rightarrow>
         if q \<in> {ReplicaPhaseDraining, ReplicaPhaseReaped, ReplicaPhaseFailed, ReplicaPhaseReplacing} then v else (h, p, healthy)))"

definition takeSize :: "int option \<Rightarrow> VolumeStatus \<times> int \<times> int option \<Rightarrow> VolumeStatus \<times> int \<times> int option" where
  "takeSize n v = (case n of None \<Rightarrow> v | Some k \<Rightarrow> (fst v, fst (snd v), Some k))"

lemma takeReport_None [simp]: "takeReport None = (\<lambda>v. v)" and takeSize_None [simp]: "takeSize None = (\<lambda>v. v)"
  by (simp_all add: takeReport_def takeSize_def fun_eq_iff)

lemma rowView_update:
  assumes "\<And>r. rr_ID (f r) = rr_ID r"
  shows "rowView (snd (updateReplicas P f db)) i
    = map (\<lambda>r. obsView (if P r then replicaTrigger (db_now db) r (f r) else r)) (filter (\<lambda>r. rr_ID r = i) (db_replicas db))"
  using assms by (simp add: rowView_def filter_map o_def if_distrib [of rr_ID] cong: if_cong)

lemma ObserveReplica_view:
  "rowView (snd (snd (ObserveReplica quiet now obs (k, db)))) i =
     map (takeReport (if ob_ReplicaID obs = i \<and> AgentReportable (to_ReplicaPhase (ob_Phase obs))
       then Some (to_ReplicaPhase (ob_Phase obs), ob_Healthy obs) else None)) (rowView db i)"
proof -
  have landed: "rowView (landed now obs db) i = rowView (snd (q_RecordReplicaObservation obs db)) i"
    by (simp add: landed_def Let_def rowView_def)
  have upd: "rowView (snd (q_RecordReplicaObservation obs db)) i = map (takeReport (if ob_ReplicaID obs = i
      then Some (to_ReplicaPhase (ob_Phase obs), ob_Healthy obs) else None)) (rowView db i)"
    unfolding q_RecordReplicaObservation_def
    by (subst rowView_update) (auto simp: rowView_def obsView_def takeReport_def freezable_def intro!: map_cong)
  have stale: "rowView db i = map (takeReport (if ob_ReplicaID obs = i then Some (to_ReplicaPhase (ob_Phase obs), ob_Healthy obs) else None)) (rowView db i)"
    if "\<forall>r \<in> set (db_replicas db). rr_ID r = ob_ReplicaID obs \<longrightarrow> \<not> freezable r"
    using that by (auto simp: rowView_def obsView_def takeReport_def freezable_def intro!: map_idI [symmetric])
  show ?thesis
    unfolding ObserveReplica_run using landed upd stale by auto
qed

lemma applyUplink_rows:
  "rowView (snd (snd (applyUplink c quiet now h m (k, db)))) i = map (takeReport (reportOn c i m)) (rowView db i)"
proof (cases m)
  case (Observation w)
  then show ?thesis
    by (cases "idParse c (wo_ReplicaId w)") (auto simp: ObserveReplica_view observationOf_def run_err_def)
next
  case (VolumeObservation w)
  then show ?thesis
    by (auto simp: ObserveVolumeSize_def call_quiet RecordVolumeObservedSize_def rowView_def run_err_def split: option.split)
qed (auto simp: RecordHeartbeat_def call_quiet RecordHostHeartbeat_def rowView_def run_err_def)

lemma applyUplink_sizes:
  "sizeView (snd (snd (applyUplink c quiet now h m (k, db)))) i = map (takeSize (sizeOn c i m)) (sizeView db i)"
proof (cases m)
  case (Observation w)
  then show ?thesis
    by (auto simp: ObserveReplica_run observationOf_def landed_def Let_def q_RecordReplicaObservation_def sizeView_def run_err_def
        split: option.split)
next
  case (VolumeObservation w)
  then show ?thesis
    by (auto simp: ObserveVolumeSize_def call_quiet RecordVolumeObservedSize_def sizeView_def run_err_def filter_map o_def takeSize_def
        if_distrib [of vr_ID] cong: if_cong split: option.split intro!: map_cong)
qed (auto simp: RecordHeartbeat_def call_quiet RecordHostHeartbeat_def sizeView_def run_err_def)

lemma uplinkLoop_rows:
  "rowView (snd (uplinkLoop c quiet h ms (k, db))) i = map (fold takeReport (map (reportOn c i \<circ> snd) ms)) (rowView db i)"
proof (induction ms arbitrary: k db)
  case (Cons m ms)
  obtain now msg where m: "m = (now, msg)" by (cases m)
  obtain res k' db' where run: "applyUplink c quiet now h msg (k, db) = (res, k', db')" by (rule prod_cases3)
  have "rowView db' i = map (takeReport (reportOn c i msg)) (rowView db i)"
    using applyUplink_rows [of c now h msg k db i] by (simp add: run)
  then show ?case using Cons.IH [of k' db'] by (simp add: m run o_def)
qed simp

lemma uplinkLoop_sizes:
  "sizeView (snd (uplinkLoop c quiet h ms (k, db))) i = map (fold takeSize (map (sizeOn c i \<circ> snd) ms)) (sizeView db i)"
proof (induction ms arbitrary: k db)
  case (Cons m ms)
  obtain now msg where m: "m = (now, msg)" by (cases m)
  obtain res k' db' where run: "applyUplink c quiet now h msg (k, db) = (res, k', db')" by (rule prod_cases3)
  have "sizeView db' i = map (takeSize (sizeOn c i msg)) (sizeView db i)"
    using applyUplink_sizes [of c now h msg k db i] by (simp add: run)
  then show ?case using Cons.IH [of k' db'] by (simp add: m run o_def)
qed simp

section \<open>What a tick does to a row\<close>

lemma fold_idle: "(\<And>x. x \<in> set xs \<Longrightarrow> g x = (\<lambda>v. v)) \<Longrightarrow> fold g xs v = v"
  by (induction xs) auto

lemma fold_at_key:
  assumes "\<And>x. x \<in> set xs \<Longrightarrow> fst x \<noteq> key \<Longrightarrow> g x = (\<lambda>v. v)" "distinct (map fst xs)"
  shows "fold g xs v = (case map_of xs key of None \<Rightarrow> v | Some y \<Rightarrow> g (key, y) v)"
  using assms
proof (induction xs arbitrary: v)
  case (Cons x xs)
  show ?case
  proof (cases "fst x = key")
    case True
    then have "key \<notin> fst ` set xs" using Cons.prems(2) by auto
    then have "\<And>y. y \<in> set xs \<Longrightarrow> g y = (\<lambda>v. v)" using Cons.prems(1) by (metis imageI list.set_intros(2))
    with True show ?thesis by (simp add: fold_idle) (metis prod.collapse)
  next
    case False
    with Cons show ?thesis by (cases x) simp
  qed
qed simp

definition reportOf :: "container \<Rightarrow> (ReplicaPhase \<times> bool) option" where
  "reportOf ct = (if AgentReportable (to_ReplicaPhase (ct_phase ct)) then Some (to_ReplicaPhase (ct_phase ct), ct_healthy ct) else None)"

text \<open>The keys an agent took from the apiserver are printed identifiers.\<close>

definition keys_printed :: "'d codec \<Rightarrow> Agent \<Rightarrow> bool" where
  "keys_printed c a \<longleftrightarrow> fst ` set (ag_containers a) \<subseteq> range (idText c) \<and> fst ` set (ag_disks a) \<subseteq> range (idText c)"

lemma keys_printed_step: "keys_printed c (step a) = keys_printed c a"
  using arg_cong [OF step_keys(1) [of a], of set] arg_cong [OF step_keys(2) [of a], of set] by (simp add: keys_printed_def)

lemma agentTick: "tickRound c quiet now (a, ks) = (step a, uplinkLoop c quiet (ag_HostID a) (map (\<lambda>m. (now, m)) (report (step a))) ks)"
  by (simp add: tickRound_def)

lemma down_step [simp]: "ag_hostDown (step a) = ag_hostDown a" "ag_HostID (step a) = ag_HostID a"
  by (simp_all add: step_def)

lemma other_key:
  assumes "codec_ok c" "fst ` set xs \<subseteq> range (idText c)" "x \<in> set xs" "fst x \<noteq> idText c i"
  shows "idParse c (fst x) \<noteq> Some i"
proof -
  from assms(2,3) obtain j where "fst x = idText c j" by blast
  with assms(1,4) show ?thesis by (auto simp: codec_ok_def)
qed

lemma tick_rows:
  assumes "codec_ok c" "agent_ok a" "keys_printed c a" "\<not> ag_hostDown a"
  shows "rowView (snd (snd (tickRound c quiet now (a, (k, db))))) i = map (\<lambda>v. case map_of (ag_containers a) (idText c i) of
      None \<Rightarrow> v | Some ct \<Rightarrow> takeReport (reportOf (stepContainer ct)) v) (rowView db i)"
proof -
  let ?cs = "ag_containers (step a)"
  have own: "reportOn c i (reportContainer (j, ct)) = (if idParse c j = Some i then reportOf ct else None)" for j ct
    by (simp add: reportContainer_def reportOf_def)
  have "(\<lambda>x. takeReport (reportOn c i (reportContainer x))) x = (\<lambda>v. v)" if "x \<in> set ?cs" "fst x \<noteq> idText c i" for x
  proof -
    have "fst ` set ?cs \<subseteq> range (idText c)" using assms(3) keys_printed_step [of c a] by (simp add: keys_printed_def)
    from other_key [OF assms(1) this that] own [of "fst x" "snd x"] show ?thesis by simp
  qed
  moreover have "distinct (map fst ?cs)" using step_ok [OF assms(2)] by (simp add: agent_ok_def)
  ultimately have "fold (\<lambda>x. takeReport (reportOn c i (reportContainer x))) ?cs v
      = (case map_of ?cs (idText c i) of None \<Rightarrow> v | Some ct \<Rightarrow> takeReport (reportOn c i (reportContainer (idText c i, ct))) v)" for v
    by (rule fold_at_key)
  moreover have "idParse c (idText c i) = Some i" using assms(1) by (simp add: codec_ok_def)
  ultimately have own_fold: "fold (\<lambda>x. takeReport (reportOn c i (reportContainer x))) ?cs v
      = (case map_of ?cs (idText c i) of None \<Rightarrow> v | Some ct \<Rightarrow> takeReport (reportOf ct) v)" for v
    by (simp add: own cong: option.case_cong)
  have "fold (\<lambda>x. takeReport (reportOn c i (reportDisk x))) ds v = v" for ds v
    by (rule fold_idle) (auto simp: reportDisk_def)
  then have "fold takeReport (map (reportOn c i \<circ> snd) (map (\<lambda>m. (now, m)) (report (step a)))) v
      = (case map_of (ag_containers a) (idText c i) of None \<Rightarrow> v | Some ct \<Rightarrow> takeReport (reportOf (stepContainer ct)) v)" for v
    using own_fold [of v] by (cases "map_of (ag_containers a) (idText c i)") (simp_all add: report_def assms(4) fold_map o_def step_at)
  then show ?thesis unfolding agentTick snd_conv uplinkLoop_rows by simp
qed

lemma tick_sizes:
  assumes "codec_ok c" "agent_ok a" "keys_printed c a" "\<not> ag_hostDown a"
  shows "sizeView (snd (snd (tickRound c quiet now (a, (k, db))))) i = map (\<lambda>v. case map_of (ag_disks a) (idText c i) of
      None \<Rightarrow> v | Some d \<Rightarrow> takeSize (if 0 < dk_sizeBytes (stepDisk d) then Some (dk_sizeBytes (stepDisk d)) else None) v) (sizeView db i)"
proof -
  let ?ds = "ag_disks (step a)"
  have own: "sizeOn c i (reportDisk (j, d)) = (if idParse c j = Some i \<and> 0 < dk_sizeBytes d then Some (dk_sizeBytes d) else None)" for j d
    by (simp add: reportDisk_def)
  have "(\<lambda>x. takeSize (sizeOn c i (reportDisk x))) x = (\<lambda>v. v)" if "x \<in> set ?ds" "fst x \<noteq> idText c i" for x
  proof -
    have "fst ` set ?ds \<subseteq> range (idText c)" using assms(3) keys_printed_step [of c a] by (simp add: keys_printed_def)
    from other_key [OF assms(1) this that] own [of "fst x" "snd x"] show ?thesis by simp
  qed
  moreover have "distinct (map fst ?ds)" using step_ok [OF assms(2)] by (simp add: agent_ok_def)
  ultimately have "fold (\<lambda>x. takeSize (sizeOn c i (reportDisk x))) ?ds v
      = (case map_of ?ds (idText c i) of None \<Rightarrow> v | Some d \<Rightarrow> takeSize (sizeOn c i (reportDisk (idText c i, d))) v)" for v
    by (rule fold_at_key)
  moreover have "idParse c (idText c i) = Some i" using assms(1) by (simp add: codec_ok_def)
  ultimately have own_fold: "fold (\<lambda>x. takeSize (sizeOn c i (reportDisk x))) ?ds v
      = (case map_of ?ds (idText c i) of None \<Rightarrow> v | Some d \<Rightarrow> takeSize (if 0 < dk_sizeBytes d then Some (dk_sizeBytes d) else None) v)" for v
    by (simp add: own cong: option.case_cong)
  have "fold (\<lambda>x. takeSize (sizeOn c i (reportContainer x))) cs v = v" for cs v
    by (rule fold_idle) (auto simp: reportContainer_def)
  then have "fold takeSize (map (sizeOn c i \<circ> snd) (map (\<lambda>m. (now, m)) (report (step a)))) v
      = (case map_of (ag_disks a) (idText c i) of None \<Rightarrow> v
         | Some d \<Rightarrow> takeSize (if 0 < dk_sizeBytes (stepDisk d) then Some (dk_sizeBytes (stepDisk d)) else None) v)" for v
    using own_fold [of v] by (cases "map_of (ag_disks a) (idText c i)") (simp_all add: report_def assms(4) fold_map o_def step_at)
  then show ?thesis unfolding agentTick snd_conv uplinkLoop_sizes by simp
qed

section \<open>From a push to the database\<close>

lemma filter_key: "distinct (map f xs) \<Longrightarrow> x \<in> set xs \<Longrightarrow> filter (\<lambda>y. f y = f x) xs = [x]"
proof (induction xs)
  case (Cons y ys)
  have "filter (\<lambda>z. f z = f y) ys = []" if "f y \<notin> f ` set ys"
    using that by (auto simp: filter_empty_conv) (metis imageI)
  with Cons show ?case by auto
qed simp

lemma distinct_sorted_keys: "distinct (map f (sort_key g xs)) = distinct (map f xs)"
  by (metis mset_eq_imp_distinct_iff mset_map mset_sort)

lemma idText_inj: "codec_ok c \<Longrightarrow> inj (idText c)"
  by (metis codec_ok_def injI option.inject)

lemma hostState_db: "hostState c quiet h (k, db) = (Inr (state, d), ks') \<Longrightarrow> snd ks' = db"
  by (auto simp: hostState_def run_bind_def call_quiet ListReplicasByHost_def ListVolumesByHost_def run_ok_def run_err_def Let_def
      split: option.splits)

lemma hostState_ok:
  assumes "codec_ok c" "project_wf db" "hostState c quiet h (k, db) = (Inr (state, d), ks')"
  shows "state_ok state"
proof -
  from assms(2) have ids: "distinct (map rr_ID (db_replicas db))" "distinct (map vr_ID (db_volumes db))"
    by (auto simp: project_wf_def db_wf_def keys_ok_def)
  have printed: "distinct (map (\<lambda>x. idText c (f x)) xs) \<longleftrightarrow> distinct (map f xs)" for f :: "'x \<Rightarrow> uuid" and xs
    using distinct_map [of "idText c" "map f xs"] inj_on_subset [OF idText_inj [OF assms(1)]] by (auto simp: o_def)
  have "distinct (map vr_ID (sort_by (uuidCmp vr_ID) (filter (\<lambda>v. vr_HostID v = Some h) (db_volumes db))))"
    using distinct_map_filter [OF ids(2)] by (metis mset_eq_imp_distinct_iff mset_map mset_sort_by)
  then show ?thesis
    using distinct_map_filter [OF ids(1)]
    by (simp add: hostState_quiet [OF assms(3)] state_ok_def wireReplicas_def wireVolumes_def distinct_sorted_keys o_def printed)
qed

lemma applyState_printed:
  assumes "hostState c quiet h (k, db) = (Inr (state, d), ks')"
  shows "keys_printed c (applyState state a)"
proof -
  have "wr_Id ` set (hs_Replicas state) \<subseteq> range (idText c)" "wv_Id ` set (hs_Volumes state) \<subseteq> range (idText c)"
    by (auto simp: hostState_quiet [OF assms] wireReplicas_def wireVolumes_def)
  then show ?thesis
    using applyState_keys [of state a] unfolding keys_printed_def by (meson order.trans)
qed

lemma told_replica:
  assumes "hostState c quiet h (k, db) = (Inr (state, d), ks')" "r \<in> set (db_replicas db)" "rr_HostID r = Some h" "liveRow r"
  shows "toldReplica c r \<in> set (hs_Replicas state)"
  using assms(2-4) by (auto simp: hostState_quiet [OF assms(1)] wireReplicas_def toldReplica_def liveRow_def)

lemma told_volume:
  assumes "hostState c quiet h (k, db) = (Inr (state, d), ks')" "v \<in> set (db_volumes db)" "vr_HostID v = Some h"
  shows "toldVolume c v \<in> set (hs_Volumes state)"
  using assms(2,3) by (auto simp: hostState_quiet [OF assms(1)] wireVolumes_def toldVolume_def)

lemma applyState_frame [simp]: "ag_hostDown (applyState s a) = ag_hostDown a" "ag_HostID (applyState s a) = ag_HostID a"
  by (simp_all add: applyState_def)

lemma sim_phases:
  "to_ReplicaPhase ''starting'' = ReplicaPhaseStarting" "to_ReplicaPhase ''health_check'' = ReplicaPhaseHealthCheck"
  "to_ReplicaPhase ''active'' = ReplicaPhaseActive"
  using to_ReplicaPhase_known [of ReplicaPhaseStarting] to_ReplicaPhase_known [of ReplicaPhaseHealthCheck]
    to_ReplicaPhase_known [of ReplicaPhaseActive] by (simp_all add: ReplicaPhase_Valid_def)

text \<open>
  C34: A placement becomes a healthy replica. Take a replica the engine has just placed on a host, and an
  agent of that host that is up and does not run it: one push of the host's state and two ticks later,
  with nobody else writing, the database has the replica active and healthy on that host, by way of a
  health check after the first tick - through the mailbox message, the agent's container, its reports and
  the guards of the statement that records them.
\<close>
theorem placed_replica_becomes_healthy:
  assumes "codec_ok c" "project_wf db" "r \<in> set (db_replicas db)" "rr_HostID r = Some h" "rr_Phase r = ReplicaPhaseScheduling"
    and "hostState c quiet h (k, db) = (Inr (state, d), (k1, db1))"
    and "agent_ok a" "\<not> ag_hostDown a" "map_of (ag_containers a) (idText c (rr_ID r)) = None"
    and "tickRound c quiet t1 (applyState state a, (k1, db1)) = (a2, (k2, db2))"
    and "tickRound c quiet t2 (a2, (k2, db2)) = (a3, (k3, db3))"
  shows "rowView db2 (rr_ID r) = [(Some h, ReplicaPhaseHealthCheck, False)]
       \<and> rowView db3 (rr_ID r) = [(Some h, ReplicaPhaseActive, True)]"
proof -
  let ?i = "rr_ID r" and ?a1 = "applyState state a"
  have db1: "db1 = db" using hostState_db [OF assms(6)] by simp
  have "toldReplica c r \<in> set (hs_Replicas state)" using assms(3,4,5) by (intro told_replica [OF assms(6)]) (simp_all add: liveRow_def)
  from applyState_containers(1) [OF hostState_ok [OF assms(1,2,6)] this, of a]
  have c1: "map_of (ag_containers ?a1) (idText c ?i) = Some (newContainer ''starting'' False)"
    using assms(5,9) by (simp add: toldReplica_def adopt_def)
  have "distinct (map rr_ID (db_replicas db))" using assms(2) by (simp add: project_wf_def db_wf_def keys_ok_def)
  from filter_key [OF this assms(3)] have row: "rowView db ?i = [(Some h, ReplicaPhaseScheduling, rr_Healthy r)]"
    using assms(4,5) by (simp add: rowView_def obsView_def)
  note ok = applyState_ok [OF assms(7), of state] applyState_printed [OF assms(6), of a]
  have a2: "a2 = step ?a1" using assms(10) by (simp add: agentTick)
  have row2: "rowView db2 ?i = [(Some h, ReplicaPhaseHealthCheck, False)]"
    using tick_rows [OF assms(1) ok, of t1 k1 db ?i] assms(8)
    by (simp add: assms(10) [unfolded db1] c1 row newContainer_def stepContainer_def reportOf_def sim_phases AgentReportable_def takeReport_def)
  have "rowView db3 ?i = [(Some h, ReplicaPhaseActive, True)]"
    using tick_rows [OF assms(1) step_ok [OF ok(1)], of t2 k2 db2 ?i] assms(8) ok(2)
    by (simp add: keys_printed_step assms(11) [unfolded a2] step_at c1 row2 newContainer_def stepContainer_def reportOf_def sim_phases
        AgentReportable_def takeReport_def)
  with row2 show ?thesis by simp
qed

text \<open>
  C35: An approved grow is carried out. Take a volume in the resizing state and an up agent of its host
  whose disk is not pinned by chaos, of whatever size or not there yet: one push and one tick later the
  database has an observed size for the volume that is at least the desired one, so the volume is caught
  up and the engine's next pass settles it.
\<close>
theorem approved_grow_catches_up:
  assumes "codec_ok c" "project_wf db" "v \<in> set (db_volumes db)" "vr_HostID v = Some h" "vr_Status v = VolumeResizing"
    and "hostState c quiet h (k, db) = (Inr (state, d), (k1, db1))"
    and "agent_ok a" "\<not> ag_hostDown a"
    and "\<forall>dk. map_of (ag_disks a) (idText c (vr_ID v)) = Some dk \<longrightarrow> dk_chaos dk \<noteq> chaosStallResize"
    and "tickRound c quiet t (applyState state a, (k1, db1)) = (a2, (k2, db2))"
  shows "\<exists>n. n \<ge> vr_DesiredSizeBytes v \<and> sizeView db2 (vr_ID v) = [(VolumeResizing, vr_DesiredSizeBytes v, Some n)]
    \<and> CaughtUp \<lparr>vs_Status = VolumeResizing, vs_Desired = vr_DesiredSizeBytes v, vs_Observed = n\<rparr>"
proof -
  let ?i = "vr_ID v" and ?a1 = "applyState state a"
  have db1: "db1 = db" using hostState_db [OF assms(6)] by simp
  have size: "wv_SizeBytes (toldVolume c v) = vr_DesiredSizeBytes v"
    using assms(5) by (simp add: toldVolume_def volumeTargetSize_def Committed_def SizingOf_def)
  from applyState_disks(1) [OF hostState_ok [OF assms(1,2,6)] told_volume [OF assms(6,3,4)], of a]
  obtain dk where dk: "map_of (ag_disks ?a1) (idText c ?i) = Some dk" "dk_targetBytes dk = vr_DesiredSizeBytes v"
      "dk_chaos dk \<noteq> chaosStallResize"
    using assms(9) size by (auto simp: toldVolume_def retarget_def split: option.splits)
  let ?n = "dk_sizeBytes (stepDisk dk)"
  have n: "?n \<ge> vr_DesiredSizeBytes v" using dk(2,3) by (simp add: stepDisk_def)
  have "distinct (map vr_ID (db_volumes db))" "0 < vr_DesiredSizeBytes v"
    using assms(2,3) by (auto simp: project_wf_def db_wf_def keys_ok_def rows_ok_def volume_ok_def)
  from filter_key [OF this(1) assms(3)] have row: "sizeView db ?i = [(VolumeResizing, vr_DesiredSizeBytes v, vr_ObservedSizeBytes v)]"
    using assms(5) by (simp add: sizeView_def)
  note ok = applyState_ok [OF assms(7), of state] applyState_printed [OF assms(6), of a]
  have "sizeView db2 ?i = [(VolumeResizing, vr_DesiredSizeBytes v, Some ?n)]"
    using tick_sizes [OF assms(1) ok, of t k1 db ?i] assms(8) n \<open>0 < vr_DesiredSizeBytes v\<close>
    by (simp add: assms(10) [unfolded db1] dk(1) row takeSize_def)
  with n \<open>0 < vr_DesiredSizeBytes v\<close> show ?thesis by (auto simp: CaughtUp_def Reported_def)
qed

text \<open>
  C32: After a push an agent runs exactly what the database places on its host and does not retire: whatever
  it ran before, a container exists for an identifier if and only if that replica is on the host, live
  and not draining. So a replica that was frozen, reaped or moved away is torn down by the same message.
\<close>
theorem agent_runs_its_placements:
  assumes "codec_ok c" "project_wf db" "hostState c quiet h (k, db) = (Inr (state, d), ks')"
  shows "map_of (ag_containers (applyState state a)) (idText c i) \<noteq> None \<longleftrightarrow>
    (\<exists>r. r \<in> set (db_replicas db) \<and> rr_ID r = i \<and> rr_HostID r = Some h \<and> liveRow r \<and> rr_Phase r \<noteq> ReplicaPhaseDraining)"
proof (cases "\<exists>r. r \<in> set (db_replicas db) \<and> rr_ID r = i \<and> rr_HostID r = Some h \<and> liveRow r")
  case True
  then obtain r where r: "r \<in> set (db_replicas db)" "rr_ID r = i" "rr_HostID r = Some h" "liveRow r" by blast
  have one: "r' = r" if "r' \<in> set (db_replicas db)" "rr_ID r' = i" for r'
  proof -
    have "distinct (map rr_ID (db_replicas db))" using assms(2) by (simp add: project_wf_def db_wf_def keys_ok_def)
    with that r(1,2) show ?thesis by (metis distinct_map inj_onD)
  qed
  have valid: "ReplicaPhase_Valid (rr_Phase r)"
    using assms(2) r(1) by (auto simp: project_wf_def db_wf_def rows_ok_def replica_ok_def)
  then have "ReplicaPhase_string (rr_Phase r) = ''draining'' \<longleftrightarrow> rr_Phase r = ReplicaPhaseDraining"
    "ReplicaPhase_string (rr_Phase r) \<noteq> ''failed''" "ReplicaPhase_string (rr_Phase r) \<noteq> ''reaped''"
    using r(4) by (cases "rr_Phase r"; simp add: ReplicaPhase_Valid_def liveRow_def)+
  then have "adopt (toldReplica c r) old \<noteq> None \<longleftrightarrow> rr_Phase r \<noteq> ReplicaPhaseDraining" for old
    by (auto simp: adopt_def toldReplica_def split: option.split)
  with applyState_containers(1) [OF hostState_ok [OF assms] told_replica [OF assms(3) r(1,3,4)], of a]
  have "map_of (ag_containers (applyState state a)) (idText c i) \<noteq> None \<longleftrightarrow> rr_Phase r \<noteq> ReplicaPhaseDraining"
    using r(2) by (simp add: toldReplica_def)
  with r one show ?thesis by blast
next
  case False
  have "idText c i \<notin> wr_Id ` set (hs_Replicas state)"
  proof
    assume "idText c i \<in> wr_Id ` set (hs_Replicas state)"
    then obtain r where "r \<in> set (db_replicas db)" "rr_HostID r = Some h" "liveRow r" "idText c i = idText c (rr_ID r)"
      by (auto simp: hostState_quiet [OF assms(3)] wireReplicas_def)
    with False idText_inj [OF assms(1)] show False by (auto dest: injD)
  qed
  from applyState_containers(2) [OF hostState_ok [OF assms] this] False show ?thesis by auto
qed

section \<open>A disk never shrinks\<close>

text \<open>
  The agent is grow-only. Whatever states it is told and however often it ticks, as long as every
  state still names a volume, the disk it holds for it is kept and its size never goes down - not even
  when a message asks for less.
\<close>
theorem disks_never_shrink:
  assumes "map_of (ag_disks a) i = Some dk" "\<forall>s. Downlink s \<in> set es \<longrightarrow> i \<in> wv_Id ` set (hs_Volumes s)"
  shows "\<exists>dk'. map_of (ag_disks (fold (\<lambda>e a. fst (agentStep e a)) es a)) i = Some dk' \<and> dk_sizeBytes dk \<le> dk_sizeBytes dk'"
  using assms
proof (induction es arbitrary: a dk)
  case (Cons e es)
  have "\<exists>dk'. map_of (ag_disks (fst (agentStep e a))) i = Some dk' \<and> dk_sizeBytes dk \<le> dk_sizeBytes dk'"
  proof (cases e)
    case (Downlink s)
    have "\<exists>dk'. map_of (fold applyVolume vs ds) i = Some dk' \<and> dk_sizeBytes dk \<le> dk_sizeBytes dk'"
      if "\<exists>dk'. map_of ds i = Some dk' \<and> dk_sizeBytes dk \<le> dk_sizeBytes dk'" for vs ds
      using that
    proof (induction vs arbitrary: ds)
      case (Cons v vs)
      have "\<exists>dk'. map_of (applyVolume v ds) i = Some dk' \<and> dk_sizeBytes dk \<le> dk_sizeBytes dk'"
        using Cons.prems by (cases "i = wv_Id v") (auto simp: applyVolume_at retarget_def)
      from Cons.IH [OF this] show ?case by simp
    qed simp
    moreover have "i \<in> wv_Id ` set (hs_Volumes s)" using Cons.prems(2) Downlink by simp
    ultimately show ?thesis using Cons.prems(1) by (simp add: Downlink applyState_def map_of_retain)
  next
    case Tick
    then show ?thesis using Cons.prems(1) by (simp add: step_at stepDisk_def)
  qed
  then obtain dk' where "map_of (ag_disks (fst (agentStep e a))) i = Some dk'" "dk_sizeBytes dk \<le> dk_sizeBytes dk'" by blast
  with Cons.IH [OF this(1)] Cons.prems(2) show ?case by (auto intro: order.trans)
qed simp

section \<open>Witnesses\<close>

lemma demo_codec_ok: "codec_ok demo_codec"
  by (simp add: codec_ok_def demo_codec_def)

definition demo_agent :: Agent where "demo_agent = NewAgent 9 ''h'' ''us''"

lemma demo_agent_ok: "agent_ok demo_agent" "\<not> ag_hostDown demo_agent" "map_of (ag_containers demo_agent) i = None"
    "map_of (ag_disks demo_agent) i = None"
  by (simp_all add: demo_agent_def NewAgent_def agent_ok_def)

lemma demo_hostState: "\<exists>state d ks'. hostState demo_codec quiet h (k, db) = (Inr (state, d), ks')"
  by (simp add: hostState_def run_bind_def call_quiet ListReplicasByHost_def ListVolumesByHost_def demo_codec_def run_ok_def Let_def)

lemma demo_placed: "view_placed \<in> set (db_replicas view_db)" "rr_HostID view_placed = Some 9"
    "rr_Phase view_placed = ReplicaPhaseScheduling" "rr_ID view_placed = 42"
  by (simp_all add: view_db_def view_placed_def)

theorem placed_replica_becomes_healthy_witness:
  "\<exists>state d k1 a3 k3 db3. hostState demo_codec quiet 9 (0, view_db) = (Inr (state, d), (k1, view_db))
     \<and> tickRound demo_codec quiet 20 (tickRound demo_codec quiet 10 (applyState state demo_agent, (k1, view_db))) = (a3, (k3, db3))
     \<and> rowView db3 42 = [(Some 9, ReplicaPhaseActive, True)]"
proof -
  obtain state d k1 db1 where push: "hostState demo_codec quiet 9 (0, view_db) = (Inr (state, d), (k1, db1))"
    using demo_hostState [of 9 0 view_db] by auto
  from hostState_db [OF this] have db1: "db1 = view_db" by simp
  obtain a2 k2 db2 where t1: "tickRound demo_codec quiet 10 (applyState state demo_agent, (k1, db1)) = (a2, (k2, db2))"
    by (rule prod_cases3)
  obtain a3 k3 db3 where t2: "tickRound demo_codec quiet 20 (a2, (k2, db2)) = (a3, (k3, db3))"
    by (rule prod_cases3)
  from placed_replica_becomes_healthy [OF demo_codec_ok view_wf demo_placed(1-3) push demo_agent_ok(1,2,3) t1 t2]
  have "rowView db3 42 = [(Some 9, ReplicaPhaseActive, True)]" by (simp add: demo_placed(4))
  with push t1 t2 show ?thesis unfolding db1 by auto
qed

definition growing :: VolumeRow where
  "growing = shop_volume\<lparr>vr_Status := VolumeResizing, vr_DesiredSizeBytes := 200\<rparr>"

definition resizing_db :: database where
  "resizing_db = shop_db\<lparr>db_volumes := [growing]\<rparr>"

lemma resizing_wf: "project_wf resizing_db"
  by (simp add: resizing_db_def growing_def view_defs project_wf_def deployments_wf_def deployment_ok_def region_ok_def db_wf_def
      keys_ok_def one_current_def refs_ok_def replica_refs_def rows_ok_def host_row_ok_def HostStatus_Valid_def volume_ok_def
      placed_status_def)

theorem approved_grow_catches_up_witness:
  "\<exists>state d k1 a2 k2 db2 n. hostState demo_codec quiet 9 (0, resizing_db) = (Inr (state, d), (k1, resizing_db))
     \<and> tickRound demo_codec quiet 10 (applyState state demo_agent, (k1, resizing_db)) = (a2, (k2, db2))
     \<and> n \<ge> 200 \<and> sizeView db2 5 = [(VolumeResizing, 200, Some n)]"
proof -
  obtain state d k1 db1 where push: "hostState demo_codec quiet 9 (0, resizing_db) = (Inr (state, d), (k1, db1))"
    using demo_hostState [of 9 0 resizing_db] by auto
  from hostState_db [OF this] have db1: "db1 = resizing_db" by simp
  obtain a2 k2 db2 where t: "tickRound demo_codec quiet 10 (applyState state demo_agent, (k1, db1)) = (a2, (k2, db2))"
    by (rule prod_cases3)
  have row: "growing \<in> set (db_volumes resizing_db)" "vr_HostID growing = Some 9" "vr_Status growing = VolumeResizing"
    "vr_ID growing = 5" "vr_DesiredSizeBytes growing = 200"
    by (simp_all add: resizing_db_def growing_def shop_volume_def)
  from approved_grow_catches_up [OF demo_codec_ok resizing_wf row(1-3) push demo_agent_ok(1,2) _ t] push t show ?thesis
    unfolding db1 row(4,5) by (auto simp: demo_agent_ok)
qed

theorem agent_runs_its_placements_witness:
  "\<exists>state d ks'. hostState demo_codec quiet 9 (0, view_db) = (Inr (state, d), ks')
     \<and> map_of (ag_containers (applyState state demo_agent)) (idText demo_codec 42) \<noteq> None
     \<and> map_of (ag_containers (applyState state demo_agent)) (idText demo_codec 41) = None"
proof -
  obtain state d ks' where push: "hostState demo_codec quiet 9 (0, view_db) = (Inr (state, d), ks')"
    using demo_hostState [of 9 0 view_db] by blast
  note runs = agent_runs_its_placements [OF demo_codec_ok view_wf push, of demo_agent]
  have "\<exists>r. r \<in> set (db_replicas view_db) \<and> rr_ID r = 42 \<and> rr_HostID r = Some 9 \<and> liveRow r \<and> rr_Phase r \<noteq> ReplicaPhaseDraining"
    using demo_placed by (intro exI [of _ view_placed]) (simp add: liveRow_def)
  moreover have "\<not> (\<exists>r. r \<in> set (db_replicas view_db) \<and> rr_ID r = 41 \<and> rr_HostID r = Some 9 \<and> liveRow r
      \<and> rr_Phase r \<noteq> ReplicaPhaseDraining)"
    by (auto simp: view_defs)
  ultimately show ?thesis using runs [of 42] runs [of 41] push by auto
qed

theorem disks_never_shrink_witness:
  "\<exists>dk'. map_of (ag_disks (fold (\<lambda>e a. fst (agentStep e a))
       [Downlink \<lparr>hs_Replicas = [], hs_Volumes = [\<lparr>wv_Id = ''v'', wv_MountPath = ''/'', wv_SizeBytes = 5\<rparr>]\<rparr>, Tick]
       (demo_agent\<lparr>ag_disks := [(''v'', \<lparr>dk_mountPath = ''/'', dk_sizeBytes = 9, dk_targetBytes = 9, dk_chaos = chaosNone\<rparr>)]\<rparr>))) ''v''
     = Some dk' \<and> 9 \<le> dk_sizeBytes dk'"
  using disks_never_shrink [of "demo_agent\<lparr>ag_disks := [(''v'', \<lparr>dk_mountPath = ''/'', dk_sizeBytes = 9, dk_targetBytes = 9, dk_chaos = chaosNone\<rparr>)]\<rparr>"
      "''v''" "\<lparr>dk_mountPath = ''/'', dk_sizeBytes = 9, dk_targetBytes = 9, dk_chaos = chaosNone\<rparr>"
      "[Downlink \<lparr>hs_Replicas = [], hs_Volumes = [\<lparr>wv_Id = ''v'', wv_MountPath = ''/'', wv_SizeBytes = 5\<rparr>]\<rparr>, Tick]"]
  by auto

end
