(* ===== verification/AgentLife.thy ===== *)
theory AgentLife
  imports AgentSimCorrect
begin

text \<open>
  The life of an agent (\<^verbatim>\<open>Agent.run\<close> and \<^verbatim>\<open>Agent.session\<close> of \<^verbatim>\<open>agentsim/agent.go\<close>): one stream after the other,
  each opened with a hello, with states coming down and reports going up until either side fails; what the
  agent runs survives the stream. Chaos may strike at any time. The fleet's discovery (\<^verbatim>\<open>fleet.go\<close>) gives each
  host one agent for good. Whatever an agent sends, the apiserver accepts it as a message of its protocol.
\<close>

section \<open>Streams and reconnects\<close>

text \<open>The knobs of the control API, as they reach an agent.\<close>

datatype chaosOp =
    HostKilled | HostRecovered | ReplicaCrashed string | ReplicaCrashLoops string | ReplicaStalls string | ReplicaHealed string
  | ResizeStalls string | VolumeHealed string

fun chaosStep :: "chaosOp \<Rightarrow> Agent \<Rightarrow> Agent" where
  "chaosStep HostKilled = KillHost"
| "chaosStep HostRecovered = RecoverHost"
| "chaosStep (ReplicaCrashed i) = (\<lambda>a. snd (CrashReplica i a))"
| "chaosStep (ReplicaCrashLoops i) = (\<lambda>a. snd (CrashLoop i a))"
| "chaosStep (ReplicaStalls i) = (\<lambda>a. snd (StallHealth i a))"
| "chaosStep (ReplicaHealed i) = (\<lambda>a. snd (Heal i a))"
| "chaosStep (ResizeStalls i) = (\<lambda>a. snd (StallResize i a))"
| "chaosStep (VolumeHealed i) = (\<lambda>a. snd (HealVolume i a))"

text \<open>\<open>Ticked torn\<close>: a tick whose report is sent, or whose send fails after \<open>torn\<close> messages.\<close>

datatype sessionEvent = Told HostState | Ticked "nat option" | Chaos chaosOp

text \<open>The loop of a session until the stream or the context ends: the agent after it and what it has sent.\<close>

fun sessionLoop :: "sessionEvent list \<Rightarrow> Agent \<Rightarrow> Agent \<times> AgentMessage list" where
  "sessionLoop [] a = (a, [])"
| "sessionLoop (Told s # es) a = sessionLoop es (applyState s a)"
| "sessionLoop (Chaos op # es) a = sessionLoop es (chaosStep op a)"
| "sessionLoop (Ticked torn # es) a =
     (let a' = step a; ms = report a'
      in case torn of
           Some k \<Rightarrow> if k < length ms then (a', take k ms) else map_prod id ((@) ms) (sessionLoop es a')
         | None \<Rightarrow> map_prod id ((@) ms) (sessionLoop es a'))"

record attempt =
  at_Opens :: bool
  at_Greets :: bool
  at_Events :: "sessionEvent list"

definition sessionRun :: "'d codec \<Rightarrow> attempt \<Rightarrow> Agent \<Rightarrow> Agent \<times> AgentMessage list" where
  "sessionRun c att a =
     (if \<not> at_Opens att \<or> \<not> at_Greets att then (a, [])
      else map_prod id (Cons (Hello (idText c (ag_HostID a)))) (sessionLoop (at_Events att) a))"

text \<open>Between two attempts passes the reconnect delay, in which chaos may strike. The streams, oldest first.\<close>

datatype lifeEvent = Attempt attempt | Meanwhile chaosOp

fun agentRun :: "'d codec \<Rightarrow> lifeEvent list \<Rightarrow> Agent \<Rightarrow> Agent \<times> AgentMessage list list" where
  "agentRun c [] a = (a, [])"
| "agentRun c (Meanwhile op # ls) a = agentRun c ls (chaosStep op a)"
| "agentRun c (Attempt att # ls) a = (case sessionRun c att a of (a', ms) \<Rightarrow> map_prod id (Cons ms) (agentRun c ls a'))"

section \<open>What an agent may say\<close>

text \<open>The states an apiserver sends: printed identifiers, phases of replicas that are on a host, sizes above zero.\<close>

definition runnable :: "string list" where
  "runnable = [''scheduling'', ''starting'', ''health_check'', ''healthy'', ''active'', ''draining'']"

definition told_ok :: "'d codec \<Rightarrow> HostState \<Rightarrow> bool" where
  "told_ok c s \<longleftrightarrow> (\<forall>r \<in> set (hs_Replicas s). wr_Id r \<in> range (idText c) \<and> wr_Phase r \<in> set runnable)
     \<and> (\<forall>v \<in> set (hs_Volumes s). wv_Id v \<in> range (idText c) \<and> 0 < wv_SizeBytes v)"

definition speakable :: "string \<Rightarrow> bool" where
  "speakable p \<longleftrightarrow> AgentReportable (to_ReplicaPhase p)"

definition container_ok :: "'d codec \<Rightarrow> string \<times> container \<Rightarrow> bool" where
  "container_ok c = (\<lambda>(i, ct). i \<in> range (idText c) \<and> speakable (ct_phase ct))"

definition disk_ok :: "'d codec \<Rightarrow> string \<times> disk \<Rightarrow> bool" where
  "disk_ok c = (\<lambda>(i, d). i \<in> range (idText c) \<and> 0 < dk_sizeBytes d)"

definition speaks :: "'d codec \<Rightarrow> Agent \<Rightarrow> bool" where
  "speaks c a \<longleftrightarrow> list_all (container_ok c) (ag_containers a) \<and> list_all (disk_ok c) (ag_disks a)"

lemma speakable_phases: "speakable ''starting''" "speakable ''health_check''" "speakable ''active''" "speakable ''healthy''" "speakable ''failed''"
  by code_simp+

lemma all_update: "list_all P m \<Longrightarrow> P (k, v) \<Longrightarrow> list_all P (AList.update k v m)"
  by (induction m) auto

lemma all_delete: "list_all P m \<Longrightarrow> list_all P (AList.delete k m)"
  by (auto simp: list_all_iff AList.delete_eq)

lemma all_retain: "list_all P m \<Longrightarrow> list_all P (retain seen m)"
  by (auto simp: list_all_iff retain_def)

lemma all_lookup: "list_all P m \<Longrightarrow> map_of m k = Some v \<Longrightarrow> P (k, v)"
  by (auto simp: list_all_iff dest: map_of_SomeD)

lemma applyReplica_speaks:
  assumes "list_all (container_ok c) cs" "wr_Id r \<in> range (idText c)" "wr_Phase r \<in> set runnable"
  shows "list_all (container_ok c) (applyReplica r cs)"
proof (cases "map_of cs (wr_Id r)")
  case None
  have "speakable (wr_Phase r)" if "wr_Phase r \<noteq> ''scheduling''" "wr_Phase r \<noteq> ''draining''"
    using assms(3) that speakable_phases by (auto simp: runnable_def)
  with None assms speakable_phases show ?thesis
    by (auto simp: applyReplica_def container_ok_def newContainer_def intro!: all_update)
next
  case (Some ct)
  with assms(1) show ?thesis by (simp add: applyReplica_def all_delete)
qed

lemma applyVolume_speaks:
  assumes "list_all (disk_ok c) ds" "wv_Id v \<in> range (idText c)" "0 < wv_SizeBytes v"
  shows "list_all (disk_ok c) (applyVolume v ds)"
  using assms by (auto simp: applyVolume_def disk_ok_def intro!: all_update split: option.split dest: all_lookup)

lemma applyState_speaks:
  assumes "told_ok c s" "speaks c a"
  shows "speaks c (applyState s a)"
proof -
  have "list_all (container_ok c) (fold applyReplica rs cs)"
    if "\<forall>r \<in> set rs. wr_Id r \<in> range (idText c) \<and> wr_Phase r \<in> set runnable" "list_all (container_ok c) cs" for rs cs
    using that by (induction rs arbitrary: cs) (auto intro: applyReplica_speaks)
  moreover have "list_all (disk_ok c) (fold applyVolume vs ds)"
    if "\<forall>v \<in> set vs. wv_Id v \<in> range (idText c) \<and> 0 < wv_SizeBytes v" "list_all (disk_ok c) ds" for vs ds
    using that by (induction vs arbitrary: ds) (auto intro: applyVolume_speaks)
  ultimately show ?thesis using assms by (simp add: speaks_def told_ok_def applyState_def all_retain)
qed

lemma step_speaks:
  assumes "speaks c a"
  shows "speaks c (step a)"
proof -
  have "speakable (ct_phase (stepContainer ct))" if "speakable (ct_phase ct)" for ct
    using that speakable_phases by (cases "ct_chaos ct") (auto simp: stepContainer_def)
  moreover have "0 < dk_sizeBytes (stepDisk d)" if "0 < dk_sizeBytes d" for d
    using that by (auto simp: stepDisk_def)
  ultimately show ?thesis
    using assms by (auto simp: speaks_def step_def list_all_iff container_ok_def disk_ok_def)
qed

lemma chaosStep_speaks: "speaks c a \<Longrightarrow> speaks c (chaosStep op a)"
  using speakable_phases
  by (cases op) (auto simp: speaks_def KillHost_def RecoverHost_def CrashReplica_def CrashLoop_def StallHealth_def Heal_def
      StallResize_def HealVolume_def withContainer_def withDisk_def container_ok_def disk_ok_def
      intro!: all_update split: option.split dest: all_lookup)

text \<open>A message the apiserver takes from an agent after its hello.\<close>

fun spoken :: "'d codec \<Rightarrow> AgentMessage \<Rightarrow> bool" where
  "spoken c Heartbeat = True"
| "spoken c (Observation w) = (wo_ReplicaId w \<in> range (idText c) \<and> speakable (wo_Phase w))"
| "spoken c (VolumeObservation w) = (wvo_VolumeId w \<in> range (idText c) \<and> 0 < wvo_ObservedSizeBytes w)"
| "spoken c _ = False"

lemma report_spoken: "speaks c a \<Longrightarrow> list_all (spoken c) (report a)"
  by (auto simp: report_def speaks_def list_all_iff reportContainer_def reportDisk_def container_ok_def disk_ok_def)

definition events_ok :: "'d codec \<Rightarrow> sessionEvent list \<Rightarrow> bool" where
  "events_ok c es \<longleftrightarrow> (\<forall>s. Told s \<in> set es \<longrightarrow> told_ok c s)"

lemma sessionLoop_speaks:
  assumes "events_ok c es" "speaks c a" "sessionLoop es a = (a', ms)"
  shows "speaks c a' \<and> list_all (spoken c) ms"
  using assms
proof (induction es arbitrary: a ms a')
  case (Cons e es)
  have es: "events_ok c es" using Cons.prems(1) by (simp add: events_ok_def)
  show ?case
  proof (cases e)
    case (Told s)
    then have "told_ok c s" using Cons.prems(1) by (simp add: events_ok_def)
    with Cons.IH [OF es applyState_speaks [OF _ Cons.prems(2)]] Cons.prems(3) Told show ?thesis by simp
  next
    case (Ticked torn)
    note next' = step_speaks [OF Cons.prems(2)]
    obtain b ms' where rest: "sessionLoop es (step a) = (b, ms')" by (cases "sessionLoop es (step a)")
    have "(a', ms) = (b, report (step a) @ ms') \<or> (\<exists>k. (a', ms) = (step a, take k (report (step a))))"
      using Cons.prems(3) by (auto simp: Ticked rest Let_def split: option.splits if_splits)
    with Cons.IH [OF es next' rest] report_spoken [OF next'] next' show ?thesis
      by (auto simp: list_all_iff dest: in_set_takeD)
  next
    case (Chaos op)
    with Cons.IH [OF es chaosStep_speaks [OF Cons.prems(2)]] Cons.prems(3) show ?thesis by simp
  qed
qed simp

lemma chaosStep_host [simp]: "ag_HostID (chaosStep op a) = ag_HostID a"
  by (cases op) (auto simp: KillHost_def RecoverHost_def CrashReplica_def CrashLoop_def StallHealth_def Heal_def
      StallResize_def HealVolume_def withContainer_def withDisk_def split: option.split)

lemma step_host [simp]: "ag_HostID (step a) = ag_HostID a"
  by (simp add: step_def)

lemma sessionLoop_host: "ag_HostID (fst (sessionLoop es a)) = ag_HostID a"
  by (induction es a rule: sessionLoop.induct) (auto simp: Let_def split: option.split)

section \<open>The apiserver takes what agents say\<close>

lemma call_store: "call env m ks = (Inl e, ks') \<Longrightarrow> \<exists>x. e = AgentStore x"
  by (auto simp: call_def WithTx_def Let_def map_sum_def split: sum.splits prod.splits)

lemma spoken_applies:
  assumes "codec_ok c" "spoken c m" "applyUplink c env now h m ks = (Inl e, ks')"
  shows "\<exists>x. e = AgentStore x"
proof (cases m)
  case (Observation w)
  with assms(2) obtain i where i: "wo_ReplicaId w = idText c i" "AgentReportable (to_ReplicaPhase (wo_Phase w))"
    by (auto simp: speakable_def)
  then have "idParse c (wo_ReplicaId w) = Some i" using assms(1) by (simp add: codec_ok_def)
  with assms(3) Observation i(2) show ?thesis
    by (auto simp: ObserveReplica_def observationOf_def run_bind_def run_ok_def dest: call_store split: prod.splits sum.splits if_splits)
next
  case (VolumeObservation w)
  with assms(2) obtain i where "wvo_VolumeId w = idText c i" "0 < wvo_ObservedSizeBytes w" by auto
  moreover from this have "idParse c (wvo_VolumeId w) = Some i" using assms(1) by (simp add: codec_ok_def)
  ultimately show ?thesis using assms(3) VolumeObservation by (auto simp: ObserveVolumeSize_def dest: call_store)
qed (use assms in \<open>auto simp: RecordHeartbeat_def dest: call_store\<close>)

lemma agentRun_streams:
  assumes "\<forall>att. Attempt att \<in> set ls \<longrightarrow> events_ok c (at_Events att)" "speaks c a"
    and "ms \<in> set (snd (agentRun c ls a))" "ms \<noteq> []"
  shows "hd ms = Hello (idText c (ag_HostID a)) \<and> list_all (spoken c) (tl ms)"
  using assms
proof (induction ls arbitrary: a)
  case (Cons l ls)
  show ?case
  proof (cases l)
    case (Attempt att)
    have ok: "events_ok c (at_Events att)" using Cons.prems(1) Attempt by simp
    obtain b sent where loop: "sessionLoop (at_Events att) a = (b, sent)" by (cases "sessionLoop (at_Events att) a")
    obtain a' out where run: "sessionRun c att a = (a', out)" by (cases "sessionRun c att a")
    then have out: "(a', out) = (a, []) \<or> (a', out) = (b, Hello (idText c (ag_HostID a)) # sent)"
      by (auto simp: sessionRun_def loop split: if_splits)
    have a': "speaks c a'" "ag_HostID a' = ag_HostID a"
      using out sessionLoop_speaks [OF ok Cons.prems(2) loop] Cons.prems(2) sessionLoop_host [of "at_Events att" a] by (auto simp: loop)
    from Cons.prems(3) have "ms = out \<or> ms \<in> set (snd (agentRun c ls a'))"
      by (auto simp: Attempt run)
    then show ?thesis
    proof
      assume "ms = out"
      with out Cons.prems(4) sessionLoop_speaks [OF ok Cons.prems(2) loop] show ?thesis by auto
    next
      assume "ms \<in> set (snd (agentRun c ls a'))"
      with Cons.IH [OF _ a'(1)] Cons.prems(1,4) a'(2) show ?thesis by simp
    qed
  next
    case (Meanwhile op)
    with Cons.IH [OF _ chaosStep_speaks [OF Cons.prems(2)]] Cons.prems(1,3,4) show ?thesis by simp
  qed
qed simp

text \<open>
  C33: Agent and apiserver agree on the protocol. In any life of an agent - streams that fail to open,
  break at any message and are opened again, chaos at any time - fed with states of the kind the apiserver
  sends, every stream with a message on it begins with the hello of the agent's own host, which the
  apiserver accepts, and no later message is refused for what it says: not its kind, nor its
  identifiers, nor its phase, nor its size. Only the store itself can fail.
\<close>
theorem agents_keep_protocol:
  assumes "codec_ok c"
    and "\<forall>att. Attempt att \<in> set ls \<longrightarrow> (\<forall>s. Told s \<in> set (at_Events att) \<longrightarrow> told_ok c s)"
    and "ms \<in> set (snd (agentRun c ls (NewAgent h hostname region)))" "ms \<noteq> []"
  shows "(\<forall>env msgs aks. fst (Session c env (hd ms) msgs aks) = None) \<and> hd ms = Hello (idText c h)
    \<and> (\<forall>m \<in> set (tl ms). \<forall>env now ks e ks'. applyUplink c env now h m ks = (Inl e, ks') \<longrightarrow> (\<exists>x. e = AgentStore x))"
proof -
  have "speaks c (NewAgent h hostname region)" by (simp add: speaks_def NewAgent_def)
  from agentRun_streams [OF _ this assms(3,4)] assms(2)
  have ms: "hd ms = Hello (idText c h)" "list_all (spoken c) (tl ms)"
    by (auto simp: events_ok_def NewAgent_def)
  moreover have "fst (Session c env (hd ms) msgs aks) = None" for env msgs aks
    using assms(1) by (cases aks) (simp add: ms(1) Session_def codec_ok_def Let_def split: prod.split)
  ultimately show ?thesis
    using spoken_applies [OF assms(1)] by (auto simp: list_all_iff)
qed

text \<open>The states \<^verbatim>\<open>hostState\<close> reads are of that kind, as long as only replicas that have been placed are on a host.\<close>

lemma hostState_told:
  assumes "project_wf db" "hostState c quiet h (k, db) = (Inr (state, d), ks')"
    and "\<forall>r \<in> set (db_replicas db). rr_HostID r = Some h \<and> liveRow r \<longrightarrow> ReplicaPhase_string (rr_Phase r) \<in> set runnable"
  shows "told_ok c state"
proof -
  have "0 < volumeTargetSize v" if "v \<in> set (db_volumes db)" for v
    using that assms(1) Committed_pos [of "SizingOf v"]
    by (auto simp: project_wf_def db_wf_def rows_ok_def volume_ok_def volumeTargetSize_def SizingOf_def)
  then show ?thesis
    using assms(3) by (auto simp: hostState_quiet [OF assms(2)] told_ok_def wireReplicas_def wireVolumes_def)
qed

section \<open>Discovery\<close>

text \<open>The discovery loop over the listings it gets; one that fails is \<open>None\<close>.\<close>

definition discoveryLoop :: "'d codec \<Rightarrow> wireHost list option list \<Rightarrow> Fleet \<Rightarrow> Fleet" where
  "discoveryLoop c resps f = fold (syncAgents c) resps f"

lemma syncAgents_keeps: "map_of f i = Some a \<Longrightarrow> map_of (syncAgents c resp f) i = Some a"
proof -
  have "map_of f i = Some a \<Longrightarrow> map_of (fold (\<lambda>h f. case idParse c (wh_Id h) of None \<Rightarrow> f
      | Some j \<Rightarrow> if map_of f j \<noteq> None then f else AList.update j (NewAgent j (wh_Hostname h) (wh_Region h)) f) hosts f) i = Some a"
    for hosts :: "wireHost list" by (induction hosts arbitrary: f) (auto simp: update_conv' split: option.split)
  then show "map_of f i = Some a \<Longrightarrow> map_of (syncAgents c resp f) i = Some a"
    by (simp add: syncAgents_def split: option.split)
qed

lemma syncAgents_covers:
  assumes "h \<in> set hosts" "idParse c (wh_Id h) = Some i"
  shows "map_of (syncAgents c (Some hosts) f) i \<noteq> None"
proof -
  let ?s = "\<lambda>(h :: wireHost) f. case idParse c (wh_Id h) of None \<Rightarrow> f
      | Some j \<Rightarrow> if map_of f j \<noteq> None then f else AList.update j (NewAgent j (wh_Hostname h) (wh_Region h)) f"
  obtain xs ys where hosts: "hosts = xs @ h # ys" using split_list [OF assms(1)] by blast
  have keep: "map_of f i \<noteq> None \<Longrightarrow> map_of (fold ?s hs f) i \<noteq> None" for hs f
    by (induction hs arbitrary: f) (auto simp: update_conv' split: option.split)
  have "map_of (?s h f) i \<noteq> None" for f using assms(2) by (auto simp: update_conv')
  from keep [OF this] show ?thesis by (simp add: syncAgents_def hosts)
qed

text \<open>An agent once spawned is never replaced, and a host of any listing that came through has one.\<close>

lemma discovery_covers_fleet:
  "map_of f i = Some a \<Longrightarrow> map_of (discoveryLoop c resps f) i = Some a"
  "Some hosts \<in> set resps \<Longrightarrow> h \<in> set hosts \<Longrightarrow> idParse c (wh_Id h) = Some i \<Longrightarrow> map_of (discoveryLoop c resps f) i \<noteq> None"
proof -
  have keep: "map_of f i = Some a \<Longrightarrow> map_of (fold (syncAgents c) resps f) i = Some a" for resps f a
    by (induction resps arbitrary: f) (simp_all add: syncAgents_keeps)
  then show "map_of f i = Some a \<Longrightarrow> map_of (discoveryLoop c resps f) i = Some a" by (simp add: discoveryLoop_def)
  assume "Some hosts \<in> set resps" "h \<in> set hosts" "idParse c (wh_Id h) = Some i"
  then obtain xs ys where "resps = xs @ Some hosts # ys" by (meson split_list)
  moreover have "\<exists>a. map_of (syncAgents c (Some hosts) (fold (syncAgents c) xs f)) i = Some a"
    using syncAgents_covers [OF \<open>h \<in> set hosts\<close> \<open>idParse c (wh_Id h) = Some i\<close>] by blast
  ultimately show "map_of (discoveryLoop c resps f) i \<noteq> None"
    using keep by (force simp: discoveryLoop_def)
qed

section \<open>Witness\<close>

definition demo_told :: HostState where
  "demo_told = \<lparr>hs_Replicas = [\<lparr>wr_Id = idText demo_codec 42, wr_Phase = ''scheduling''\<rparr>],
     hs_Volumes = [\<lparr>wv_Id = idText demo_codec 3, wv_MountPath = ''/data'', wv_SizeBytes = 5\<rparr>]\<rparr>"

definition demo_life :: "lifeEvent list" where
  "demo_life = [Attempt \<lparr>at_Opens = False, at_Greets = False, at_Events = []\<rparr>,
     Attempt \<lparr>at_Opens = True, at_Greets = True, at_Events = [Told demo_told, Ticked (Some 1)]\<rparr>,
     Meanwhile (ReplicaCrashed (idText demo_codec 42)),
     Attempt \<lparr>at_Opens = True, at_Greets = True, at_Events = [Told demo_told, Ticked None]\<rparr>]"

theorem agents_keep_protocol_witness:
  "\<exists>ms. ms \<in> set (snd (agentRun demo_codec demo_life (NewAgent 9 ''h'' ''eu''))) \<and> length ms = 4 \<and> hd ms = Hello (idText demo_codec 9)
    \<and> fst (Session demo_codec quiet (hd ms) [] (noSessions, (0, view_db))) = None"
proof -
  let ?ms = "last (snd (agentRun demo_codec demo_life (NewAgent 9 ''h'' ''eu'')))"
  have run: "length ?ms = 4" "length (snd (agentRun demo_codec demo_life (NewAgent 9 ''h'' ''eu''))) = 3" by code_simp+
  then have "?ms \<noteq> []" "snd (agentRun demo_codec demo_life (NewAgent 9 ''h'' ''eu'')) \<noteq> []" by fastforce+
  then have ms: "?ms \<in> set (snd (agentRun demo_codec demo_life (NewAgent 9 ''h'' ''eu'')))" by simp
  have "told_ok demo_codec demo_told" by (simp add: told_ok_def demo_told_def runnable_def)
  then have "\<forall>att. Attempt att \<in> set demo_life \<longrightarrow> (\<forall>s. Told s \<in> set (at_Events att) \<longrightarrow> told_ok demo_codec s)"
    by (auto simp: demo_life_def)
  from agents_keep_protocol [OF demo_codec_ok this ms \<open>?ms \<noteq> []\<close>] ms run(1) show ?thesis by blast
qed

end
