(* ===== verification/Notifications.thy ===== *)
theory Notifications
  imports AgentApiCorrect
begin

text \<open>
  How the apiserver learns that a host's state has changed: the notification triggers on replicas and
  volumes (\<^verbatim>\<open>db/migrations/00001_create_control_plane.sql\<close>) and the connection that listens to them
  (\<^verbatim>\<open>internal/storage/notify.go\<close>). The triggers fire for each row a statement inserts, deletes or updates;
  the notifications of a change of the database are those of its rows. A host that no trigger names is
  told what it was told before, but for the size an agent observed.
\<close>

section \<open>The triggers\<close>

text \<open>The row variables \<^verbatim>\<open>OLD\<close> and \<^verbatim>\<open>NEW\<close> of a trigger, by \<^verbatim>\<open>TG_OP\<close>.\<close>

datatype 'r rowChange = RowInserted 'r | RowDeleted 'r | RowUpdated 'r 'r

definition notifyMoved :: "uuid option \<Rightarrow> uuid option \<Rightarrow> uuid list" where
  "notifyMoved old new = (case old of None \<Rightarrow> [] | Some h \<Rightarrow> [h])
     @ (case new of None \<Rightarrow> [] | Some h \<Rightarrow> if new \<noteq> old then [h] else [])"

fun notify_replicas_changed :: "ReplicaRow rowChange \<Rightarrow> uuid list" where
  "notify_replicas_changed (RowInserted new) = (case rr_HostID new of None \<Rightarrow> [] | Some h \<Rightarrow> [h])"
| "notify_replicas_changed (RowDeleted old) = (case rr_HostID old of None \<Rightarrow> [] | Some h \<Rightarrow> [h])"
| "notify_replicas_changed (RowUpdated old new) =
     (if rr_HostID old \<noteq> rr_HostID new \<or> rr_Phase old \<noteq> rr_Phase new
      then notifyMoved (rr_HostID old) (rr_HostID new) else [])"

fun notify_volumes_changed :: "VolumeRow rowChange \<Rightarrow> uuid list" where
  "notify_volumes_changed (RowInserted new) = (case vr_HostID new of None \<Rightarrow> [] | Some h \<Rightarrow> [h])"
| "notify_volumes_changed (RowDeleted old) = (case vr_HostID old of None \<Rightarrow> [] | Some h \<Rightarrow> [h])"
| "notify_volumes_changed (RowUpdated old new) =
     (if vr_HostID old \<noteq> vr_HostID new \<or> vr_Status old \<noteq> vr_Status new
         \<or> vr_DesiredSizeBytes old \<noteq> vr_DesiredSizeBytes new
      then notifyMoved (vr_HostID old) (vr_HostID new) else [])"

text \<open>What happened to the rows of a table, as its primary keys tell.\<close>

definition rowChanges :: "('r \<Rightarrow> uuid) \<Rightarrow> 'r list \<Rightarrow> 'r list \<Rightarrow> 'r rowChange list" where
  "rowChanges key old new =
     map (\<lambda>r. case find (\<lambda>s. key s = key r) new of None \<Rightarrow> RowDeleted r | Some s \<Rightarrow> RowUpdated r s) old
     @ map RowInserted (filter (\<lambda>s. list_all (\<lambda>r. key r \<noteq> key s) old) new)"

definition notifications :: "database \<Rightarrow> database \<Rightarrow> uuid list" where
  "notifications db db' =
     concat (map notify_replicas_changed (rowChanges rr_ID (db_replicas db) (db_replicas db')))
     @ concat (map notify_volumes_changed (rowChanges vr_ID (db_volumes db) (db_volumes db')))"

lemma rowChanges_deleted: "r \<in> set old \<Longrightarrow> \<forall>s \<in> set new. key s \<noteq> key r \<Longrightarrow> RowDeleted r \<in> set (rowChanges key old new)"
proof -
  assume "r \<in> set old" "\<forall>s \<in> set new. key s \<noteq> key r"
  then have "find (\<lambda>s. key s = key r) new = None" by (auto simp: find_None_iff)
  with \<open>r \<in> set old\<close> show ?thesis by (force simp: rowChanges_def)
qed

lemma rowChanges_updated:
  "r \<in> set old \<Longrightarrow> s \<in> set new \<Longrightarrow> key s = key r \<Longrightarrow> distinct (map key new) \<Longrightarrow> RowUpdated r s \<in> set (rowChanges key old new)"
  using find_key [of key new s] by (force simp: rowChanges_def)

lemma rowChanges_inserted: "s \<in> set new \<Longrightarrow> \<forall>r \<in> set old. key r \<noteq> key s \<Longrightarrow> RowInserted s \<in> set (rowChanges key old new)"
  by (auto simp: rowChanges_def list_all_iff)

lemma rowChanges_cases:
  assumes "x \<in> set (rowChanges key old new)"
  obtains r where "x = RowDeleted r" "r \<in> set old" "\<forall>s \<in> set new. key s \<noteq> key r"
  | r s where "x = RowUpdated r s" "r \<in> set old" "s \<in> set new" "key s = key r"
  | s where "x = RowInserted s" "s \<in> set new" "\<forall>r \<in> set old. key r \<noteq> key s"
proof -
  from assms consider (old) r where "r \<in> set old"
      "x = (case find (\<lambda>s. key s = key r) new of None \<Rightarrow> RowDeleted r | Some s \<Rightarrow> RowUpdated r s)"
    | (new) s where "s \<in> set new" "\<forall>r \<in> set old. key r \<noteq> key s" "x = RowInserted s"
    by (auto simp: rowChanges_def list_all_iff)
  then show ?thesis
  proof cases
    case (old r)
    then show ?thesis using that(1,2)
      by (cases "find (\<lambda>s. key s = key r) new") (auto simp: find_None_iff find_Some_iff)
  next
    case (new s)
    with that(3) show ?thesis by blast
  qed
qed

text \<open>What a trigger notifies for a row, uniformly: the hosts of a row that is not what it was, where \<open>seen\<close> is
  what the trigger compares.\<close>

definition noted :: "('r \<Rightarrow> uuid) \<Rightarrow> ('r \<Rightarrow> uuid option) \<Rightarrow> ('r \<Rightarrow> 's) \<Rightarrow> 'r list \<Rightarrow> 'r list \<Rightarrow> uuid \<Rightarrow> bool" where
  "noted key host seen old new h \<longleftrightarrow>
     (\<exists>r \<in> set old. host r = Some h \<and> \<not> (\<exists>s \<in> set new. key s = key r \<and> host s = Some h \<and> seen s = seen r))
     \<or> (\<exists>s \<in> set new. host s = Some h \<and> \<not> (\<exists>r \<in> set old. key r = key s \<and> host r = Some h \<and> seen r = seen s))"

lemma noted_trans:
  assumes "noted key host seen a c h"
  shows "noted key host seen a b h \<or> noted key host seen b c h"
  using assms unfolding noted_def by metis

lemma set_notifyMoved: "h \<in> set (notifyMoved old new) \<longleftrightarrow> old = Some h \<or> new = Some h"
  by (auto simp: notifyMoved_def split: option.splits)

lemma noted_rows:
  assumes "distinct (map key old)" "distinct (map key new)"
    and "\<And>r. h \<in> set (note (RowInserted r)) \<longleftrightarrow> host r = Some h" "\<And>r. h \<in> set (note (RowDeleted r)) \<longleftrightarrow> host r = Some h"
    and upd: "\<And>r s. h \<in> set (note (RowUpdated r s)) \<longleftrightarrow>
      (host r \<noteq> host s \<or> seen r \<noteq> seen s) \<and> (host r = Some h \<or> host s = Some h)"
  shows "h \<in> set (concat (map note (rowChanges key old new))) \<longleftrightarrow> noted key host seen old new h"
proof
  have uniq: "x = y" if "x \<in> set xs" "y \<in> set xs" "key x = key y" "distinct (map key xs)" for x y xs
    using that by (metis distinct_map inj_onD)
  assume "h \<in> set (concat (map note (rowChanges key old new)))"
  then obtain x where "x \<in> set (rowChanges key old new)" and h: "h \<in> set (note x)" by auto
  then show "noted key host seen old new h"
  proof (cases rule: rowChanges_cases)
    case (1 r)
    with h assms(4) show ?thesis by (auto simp: noted_def)
  next
    case (2 r s)
    with h upd have d: "host r \<noteq> host s \<or> seen r \<noteq> seen s" "host r = Some h \<or> host s = Some h" by auto
    from d(2) show ?thesis
    proof
      assume "host r = Some h"
      moreover have "\<not> (host s' = Some h \<and> seen s' = seen r)" if "s' \<in> set new" "key s' = key r" for s'
        using uniq [OF that(1) 2(3) _ assms(2)] that(2) 2(4) d(1) calculation by auto
      ultimately show ?thesis using 2(2) by (auto simp: noted_def)
    next
      assume "host s = Some h"
      moreover have "\<not> (host r' = Some h \<and> seen r' = seen s)" if "r' \<in> set old" "key r' = key s" for r'
        using uniq [OF that(1) 2(2) _ assms(1)] that(2) 2(4) d(1) calculation by auto
      ultimately show ?thesis using 2(3) by (auto simp: noted_def)
    qed
  next
    case (3 s)
    with h assms(3) show ?thesis by (auto simp: noted_def)
  qed
next
  assume "noted key host seen old new h"
  then consider (old) r where "r \<in> set old" "host r = Some h"
      "\<And>s. s \<in> set new \<Longrightarrow> key s = key r \<Longrightarrow> \<not> (host s = Some h \<and> seen s = seen r)"
    | (new) s where "s \<in> set new" "host s = Some h"
      "\<And>r. r \<in> set old \<Longrightarrow> key r = key s \<Longrightarrow> \<not> (host r = Some h \<and> seen r = seen s)"
    unfolding noted_def by blast
  then have "\<exists>x \<in> set (rowChanges key old new). h \<in> set (note x)"
  proof cases
    case (old r)
    show ?thesis
    proof (cases "\<exists>s \<in> set new. key s = key r")
      case True
      then obtain s where s: "s \<in> set new" "key s = key r" by blast
      from rowChanges_updated [of r old s new key, OF old(1) s assms(2)] old(2) old(3) [OF s] upd show ?thesis
        by (intro bexI [of _ "RowUpdated r s"]) auto
    next
      case False
      with rowChanges_deleted [of r old new key] old(1,2) assms(4) show ?thesis by blast
    qed
  next
    case (new s)
    show ?thesis
    proof (cases "\<exists>r \<in> set old. key r = key s")
      case True
      then obtain r where r: "r \<in> set old" "key s = key r" by metis
      from rowChanges_updated [of r old s new key, OF r(1) new(1) r(2) assms(2)] new(2) new(3) [OF r(1)] r(2) upd show ?thesis
        by (intro bexI [of _ "RowUpdated r s"]) auto
    next
      case False
      with rowChanges_inserted [of s new old key] new(1,2) assms(3) show ?thesis by blast
    qed
  qed
  then show "h \<in> set (concat (map note (rowChanges key old new)))" by auto
qed

definition volumeSeen :: "VolumeRow \<Rightarrow> VolumeStatus \<times> int" where
  "volumeSeen v = (vr_Status v, vr_DesiredSizeBytes v)"

lemma set_notifications:
  assumes "keys_ok db" "keys_ok db'"
  shows "h \<in> set (notifications db db') \<longleftrightarrow>
     noted rr_ID rr_HostID rr_Phase (db_replicas db) (db_replicas db') h
     \<or> noted vr_ID vr_HostID volumeSeen (db_volumes db) (db_volumes db') h"
proof -
  have "h \<in> set (concat (map notify_replicas_changed (rowChanges rr_ID (db_replicas db) (db_replicas db'))))
      \<longleftrightarrow> noted rr_ID rr_HostID rr_Phase (db_replicas db) (db_replicas db') h"
    by (rule noted_rows) (use assms in \<open>auto simp: keys_ok_def set_notifyMoved split: option.splits\<close>)
  moreover have "h \<in> set (concat (map notify_volumes_changed (rowChanges vr_ID (db_volumes db) (db_volumes db'))))
      \<longleftrightarrow> noted vr_ID vr_HostID volumeSeen (db_volumes db) (db_volumes db') h"
    by (rule noted_rows) (use assms in \<open>auto simp: keys_ok_def set_notifyMoved volumeSeen_def split: option.splits\<close>)
  ultimately show ?thesis by (simp add: notifications_def)
qed

text \<open>A transaction of several statements notifies every host its net effect would: the triggers fire for
  each statement, so they may name more.\<close>

lemma notifications_trans:
  assumes "keys_ok a" "keys_ok b" "keys_ok d"
  shows "set (notifications a d) \<subseteq> set (notifications a b) \<union> set (notifications b d)"
proof
  fix h
  assume "h \<in> set (notifications a d)"
  then show "h \<in> set (notifications a b) \<union> set (notifications b d)"
    using noted_trans [of rr_ID rr_HostID rr_Phase "db_replicas a" "db_replicas d" h "db_replicas b"]
      noted_trans [of vr_ID vr_HostID volumeSeen "db_volumes a" "db_volumes d" h "db_volumes b"]
    unfolding Un_iff set_notifications [OF assms(1,3)] set_notifications [OF assms(1,2)] set_notifications [OF assms(2,3)]
    by blast
qed

section \<open>What a host is told\<close>

definition replicasShown :: "'d codec \<Rightarrow> uuid \<Rightarrow> database \<Rightarrow> wireReplica list" where
  "replicasShown c h db = wireReplicas c (filter (\<lambda>r. rr_HostID r = Some h \<and> liveRow r) (db_replicas db))"

definition volumesShown :: "'d codec \<Rightarrow> uuid \<Rightarrow> database \<Rightarrow> wireVolume list" where
  "volumesShown c h db = wireVolumes c (sort_by (uuidCmp vr_ID) (filter (\<lambda>v. vr_HostID v = Some h) (db_volumes db)))"

definition hostShown :: "'d codec \<Rightarrow> uuid \<Rightarrow> database \<Rightarrow> HostState" where
  "hostShown c h db = \<lparr>hs_Replicas = replicasShown c h db, hs_Volumes = volumesShown c h db\<rparr>"

lemma hostShown_eq: "hostShown c h db = hostShown c h db' \<longleftrightarrow>
    replicasShown c h db = replicasShown c h db' \<and> volumesShown c h db = volumesShown c h db'"
  by (simp add: hostShown_def)

text \<open>
  A volume the triggers see no change of, but whose agent would be told another path or size. Nothing
  writes the path, and the size follows from status and desired size, but for what was observed.
\<close>

definition silentVolume :: "uuid \<Rightarrow> database \<Rightarrow> database \<Rightarrow> bool" where
  "silentVolume h db db' \<longleftrightarrow> (\<exists>v \<in> set (db_volumes db). \<exists>w \<in> set (db_volumes db').
     vr_ID v = vr_ID w \<and> vr_HostID v = Some h \<and> vr_HostID w = Some h \<and> volumeSeen v = volumeSeen w
     \<and> (vr_MountPath v \<noteq> vr_MountPath w \<or> volumeTargetSize v \<noteq> volumeTargetSize w))"

lemma silent_needs_observation:
  assumes "silentVolume h db db'"
  shows "\<exists>v \<in> set (db_volumes db). \<exists>w \<in> set (db_volumes db'). vr_ID v = vr_ID w
    \<and> (vr_MountPath v \<noteq> vr_MountPath w \<or> vr_ObservedSizeBytes v \<noteq> vr_ObservedSizeBytes w)"
proof -
  have "volumeTargetSize v = volumeTargetSize w"
    if "volumeSeen v = volumeSeen w" "vr_ObservedSizeBytes v = vr_ObservedSizeBytes w" for v w
    using that by (simp add: volumeSeen_def volumeTargetSize_def SizingOf_def)
  with assms show ?thesis unfolding silentVolume_def by metis
qed

lemma same_told:
  assumes dist: "distinct (map key old)" "distinct (map key new)" and printed: "\<And>r. wkey (told r) = pr (key r)" "inj pr"
    and told: "\<And>r. r \<in> set old \<Longrightarrow> P r \<Longrightarrow> \<exists>s \<in> set new. P s \<and> told s = told r"
      "\<And>s. s \<in> set new \<Longrightarrow> P s \<Longrightarrow> \<exists>r \<in> set old. P r \<and> told r = told s"
    and perm: "mset xs = mset (filter P old)" "mset ys = mset (filter P new)"
  shows "sort_key wkey (map told xs) = sort_key wkey (map told ys)"
proof (rule sort_key_inj_key_eq)
  have inj: "inj_on told (set rows)" if "distinct (map key rows)" for rows
  proof (rule inj_onI)
    fix x y assume "x \<in> set rows" "y \<in> set rows" "told x = told y"
    with printed have "key x = key y" by (metis injD)
    with that \<open>x \<in> set rows\<close> \<open>y \<in> set rows\<close> show "x = y" by (metis distinct_map inj_onD)
  qed
  have d: "distinct (map told (filter P rows))" if "distinct (map key rows)" for rows
    using inj [OF that] that by (auto simp: distinct_map intro: inj_on_subset)
  have "set (map told (filter P old)) = set (map told (filter P new))"
  proof (intro set_eqI iffI)
    fix x assume "x \<in> set (map told (filter P old))"
    then obtain r where r: "r \<in> set old" "P r" "x = told r" by auto
    from told(1) [OF r(1,2)] obtain s where "s \<in> set new" "P s" "told s = told r" by blast
    with r(3) show "x \<in> set (map told (filter P new))" by (auto intro!: image_eqI [of _ _ s])
  next
    fix x assume "x \<in> set (map told (filter P new))"
    then obtain r where r: "r \<in> set new" "P r" "x = told r" by auto
    from told(2) [OF r(1,2)] obtain s where "s \<in> set old" "P s" "told s = told r" by blast
    with r(3) show "x \<in> set (map told (filter P old))" by (auto intro!: image_eqI [of _ _ s])
  qed
  with d [OF dist(1)] d [OF dist(2)] have "mset (map told (filter P old)) = mset (map told (filter P new))"
    by (simp only: set_eq_iff_mset_eq_distinct)
  then show "mset (map told xs) = mset (sort_key wkey (map told ys))" by (simp add: perm)
  show "inj_on wkey (set (map told xs))"
  proof (rule inj_onI)
    have xs: "set xs \<subseteq> set old" using mset_eq_setD [OF perm(1)] by auto
    fix x y assume "x \<in> set (map told xs)" "y \<in> set (map told xs)" "wkey x = wkey y"
    then obtain r s where rs: "r \<in> set old" "s \<in> set old" "x = told r" "y = told s" "wkey (told r) = wkey (told s)"
      using xs by auto
    then have "key r = key s" using printed by (metis injD)
    with dist(1) rs(1,2) have "r = s" by (metis distinct_map inj_onD)
    with rs show "x = y" by simp
  qed
qed simp

lemma replicasShown_unnoted:
  assumes "keys_ok db" "keys_ok db'" "inj (idText c)" "h \<notin> set (notifications db db')"
  shows "replicasShown c h db = replicasShown c h db'"
proof -
  let ?P = "\<lambda>r. rr_HostID r = Some h \<and> liveRow r"
  have n: "\<not> noted rr_ID rr_HostID rr_Phase (db_replicas db) (db_replicas db') h"
    using assms(4) by (simp add: set_notifications [OF assms(1,2)])
  have "wireReplicas c (filter ?P rows) = sort_key wr_Id (map (toldReplica c) (filter ?P rows))" for rows
    by (simp add: wireReplicas_def toldReplica_def [abs_def] liveRow_def)
  moreover have "sort_key wr_Id (map (toldReplica c) (filter ?P (db_replicas db)))
      = sort_key wr_Id (map (toldReplica c) (filter ?P (db_replicas db')))"
  proof (rule same_told [where key = rr_ID and pr = "idText c" and P = ?P])
    show "\<exists>s \<in> set (db_replicas db'). ?P s \<and> toldReplica c s = toldReplica c r" if "r \<in> set (db_replicas db)" "?P r" for r
      using n that unfolding noted_def toldReplica_def liveRow_def by metis
    show "\<exists>r \<in> set (db_replicas db). ?P r \<and> toldReplica c r = toldReplica c s" if "s \<in> set (db_replicas db')" "?P s" for s
      using n that unfolding noted_def toldReplica_def liveRow_def by metis
  qed (use assms in \<open>auto simp: keys_ok_def toldReplica_def\<close>)
  ultimately show ?thesis by (simp add: replicasShown_def)
qed

lemma volumesShown_unnoted:
  assumes "keys_ok db" "keys_ok db'" "inj (idText c)" "h \<notin> set (notifications db db')" "\<not> silentVolume h db db'"
  shows "volumesShown c h db = volumesShown c h db'"
proof -
  let ?P = "\<lambda>v. vr_HostID v = Some h"
  have n: "\<not> noted vr_ID vr_HostID volumeSeen (db_volumes db) (db_volumes db') h"
    using assms(4) by (simp add: set_notifications [OF assms(1,2)])
  have same: "toldVolume c v = toldVolume c w" if "v \<in> set (db_volumes db)" "w \<in> set (db_volumes db')"
    "vr_ID v = vr_ID w" "vr_HostID v = Some h" "vr_HostID w = Some h" "volumeSeen v = volumeSeen w" for v w
    using assms(5) that unfolding silentVolume_def toldVolume_def by metis
  have "sort_key wv_Id (map (toldVolume c) (sort_by (uuidCmp vr_ID) (filter ?P (db_volumes db))))
      = sort_key wv_Id (map (toldVolume c) (sort_by (uuidCmp vr_ID) (filter ?P (db_volumes db'))))"
  proof (rule same_told [where key = vr_ID and pr = "idText c" and P = ?P])
    show "\<exists>w \<in> set (db_volumes db'). ?P w \<and> toldVolume c w = toldVolume c v" if "v \<in> set (db_volumes db)" "?P v" for v
      using n that same [OF that(1)] unfolding noted_def by metis
    show "\<exists>v \<in> set (db_volumes db). ?P v \<and> toldVolume c v = toldVolume c w" if "w \<in> set (db_volumes db')" "?P w" for w
      using n that same [OF _ that(1)] unfolding noted_def by metis
  qed (use assms in \<open>auto simp: keys_ok_def toldVolume_def\<close>)
  then show ?thesis by (simp add: volumesShown_def wireVolumes_def toldVolume_def [abs_def])
qed

text \<open>
  C31: The notifications miss nothing an agent needs: whatever happened to the database between two
  states that keep its keys, a host that no trigger notified would be told exactly what it was told before -
  the same replicas in the same phases, the same volumes at the same sizes -, unless the size observed of
  one of its volumes changed, or a mount path, neither of which the triggers look at.
\<close>
theorem notifications_miss_only_observations:
  assumes "keys_ok db" "keys_ok db'" "inj (idText c)" "h \<notin> set (notifications db db')"
    and "\<forall>v \<in> set (db_volumes db). \<forall>w \<in> set (db_volumes db'). vr_ID v = vr_ID w \<longrightarrow>
      vr_MountPath v = vr_MountPath w \<and> vr_ObservedSizeBytes v = vr_ObservedSizeBytes w"
  shows "hostShown c h db = hostShown c h db'"
proof -
  have "\<not> silentVolume h db db'" using silent_needs_observation assms(5) by blast
  with assms(1-4) show ?thesis
    by (simp add: hostShown_eq replicasShown_unnoted [OF assms(1-4)] volumesShown_unnoted)
qed

section \<open>The listening connection\<close>

text \<open>The two functions the apiserver is called back with.\<close>

datatype callback = OnReconnect | OnChange uuid

datatype listenError = ListenConnect | ListenExec | WaitNotification | ListenPing

text \<open>What the driver's wait comes back with: a payload, its own deadline of 30 seconds, or another error.\<close>

datatype pgWait = GotPayload string | DeadlineHit | WaitFailed

text \<open>One bounded wait; \<open>ended\<close> is whether the context has ended by then, \<open>pong\<close> whether a ping gets through.\<close>

definition waitForNotification :: "bool \<Rightarrow> pgWait \<Rightarrow> bool \<Rightarrow> listenError + string option" where
  "waitForNotification ended w pong = (case w of
       GotPayload p \<Rightarrow> Inr (Some p)
     | DeadlineHit \<Rightarrow> if ended then Inl WaitNotification else if \<not> pong then Inl ListenPing else Inr None
     | WaitFailed \<Rightarrow> Inl WaitNotification)"

type_synonym pgWaits = "(bool \<times> pgWait \<times> bool) list"

text \<open>The receive loop: the callbacks in order, and the error that ends it unless it is still waiting.\<close>

fun listenLoop :: "(string \<Rightarrow> uuid option) \<Rightarrow> pgWaits \<Rightarrow> callback list \<times> listenError option" where
  "listenLoop parse [] = ([], None)"
| "listenLoop parse ((ended, w, pong) # ws) = (case waitForNotification ended w pong of
       Inl e \<Rightarrow> ([], Some e)
     | Inr None \<Rightarrow> listenLoop parse ws
     | Inr (Some payload) \<Rightarrow> (case parse payload of
           None \<Rightarrow> listenLoop parse ws
         | Some hostID \<Rightarrow> map_prod (Cons (OnChange hostID)) id (listenLoop parse ws)))"

record pgSession =
  pg_Connects :: bool
  pg_Listens :: bool
  pg_Waits :: pgWaits

definition listenOnce :: "(string \<Rightarrow> uuid option) \<Rightarrow> pgSession \<Rightarrow> callback list \<times> listenError option" where
  "listenOnce parse conn =
     (if \<not> pg_Connects conn then ([], Some ListenConnect)
      else if \<not> pg_Listens conn then ([], Some ListenExec)
      else map_prod (Cons OnReconnect) id (listenLoop parse (pg_Waits conn)))"

text \<open>
  One connection after the other; with each comes whether the context has ended when it is over, and
  whether it ends in the pause before the next. The flag returned says whether the function has.
\<close>

fun ListenReplicaChanges :: "(string \<Rightarrow> uuid option) \<Rightarrow> (pgSession \<times> bool \<times> bool) list \<Rightarrow> callback list \<times> bool" where
  "ListenReplicaChanges parse [] = ([], False)"
| "ListenReplicaChanges parse ((conn, ended, ended') # conns) = (case listenOnce parse conn of
       (cbs, None) \<Rightarrow> (cbs, False)
     | (cbs, Some e) \<Rightarrow> if ended \<or> ended' then (cbs, True)
         else map_prod ((@) cbs) id (ListenReplicaChanges parse conns))"

text \<open>The notifications a connection gets before it fails.\<close>

definition arrivals :: "pgWaits \<Rightarrow> string list" where
  "arrivals ws = concat (map (\<lambda>(ended, w, pong). case w of GotPayload p \<Rightarrow> [p] | _ \<Rightarrow> [])
     (takeWhile (\<lambda>(ended, w, pong). \<not> isl (waitForNotification ended w pong)) ws))"

lemma listenLoop_callbacks:
  "fst (listenLoop parse ws) = map OnChange (concat (map (\<lambda>p. case parse p of None \<Rightarrow> [] | Some h \<Rightarrow> [h]) (arrivals ws)))"
proof (induction ws)
  case (Cons a ws)
  obtain ended w pong where "a = (ended, w, pong)" by (cases a)
  with Cons.IH show ?case
    by (cases w) (auto simp: arrivals_def waitForNotification_def split: option.splits)
qed (simp add: arrivals_def)

text \<open>
  A connection that listens calls back for the reconnect first and then for each host notified, in the
  order of the notifications: nothing is lost while it lives, and every loss before it is announced.
\<close>

lemma listenOnce_callbacks:
  assumes "\<And>i. parse (pr i) = Some i" "pg_Connects conn" "pg_Listens conn" "arrivals (pg_Waits conn) = map pr hosts"
  shows "fst (listenOnce parse conn) = OnReconnect # map OnChange hosts"
  using assms by (simp add: listenOnce_def listenLoop_callbacks o_def)

lemma listenOnce_silent: "\<not> (pg_Connects conn \<and> pg_Listens conn) \<Longrightarrow> fst (listenOnce parse conn) = []"
  by (auto simp: listenOnce_def)

text \<open>The listener returns only when the context has ended; a broken connection never ends it.\<close>

lemma listener_returns_only_when_ended:
  "snd (ListenReplicaChanges parse conns) \<Longrightarrow> \<exists>(conn, ended, ended') \<in> set conns. ended \<or> ended'"
  by (induction parse conns rule: ListenReplicaChanges.induct) (auto split: prod.splits option.splits if_splits)

text \<open>The triggers do not see an observed size, although the size told to the agent may follow it.\<close>

lemma observation_not_notified:
  assumes "keys_ok db" "RecordVolumeObservedSize v n db = Inr (u, db')"
  shows "notifications db db' = []"
proof -
  define f where "f = (\<lambda>r :: VolumeRow. if vr_ID r = v then r\<lparr>vr_ObservedSizeBytes := Some n\<rparr> else r)"
  have db': "db' = db\<lparr>db_volumes := map f (db_volumes db)\<rparr>"
    using assms(2) by (simp add: RecordVolumeObservedSize_def f_def)
  have f: "vr_ID (f r) = vr_ID r" "vr_HostID (f r) = vr_HostID r" "volumeSeen (f r) = volumeSeen r" for r
    by (simp_all add: f_def volumeSeen_def)
  from assms(1) have ok: "keys_ok db'" unfolding db' keys_ok_def by (simp add: o_def f)
  have "\<not> noted vr_ID vr_HostID volumeSeen rows (map f rows) h" for rows h
    unfolding noted_def by (auto simp: f)
  moreover have "\<not> noted rr_ID rr_HostID rr_Phase rows rows h" for rows h
    unfolding noted_def by blast
  ultimately have "h \<notin> set (notifications db db')" for h
    unfolding set_notifications [OF assms(1) ok] by (simp add: db')
  then show ?thesis by (metis list.set_intros(1) neq_Nil_conv)
qed

section \<open>Witnesses\<close>

lemma demo_codec_inj: "inj (idText demo_codec)"
  by (auto simp: demo_codec_def inj_def word_unat_eq_iff dest: arg_cong [of _ _ length])

theorem notifications_miss_only_observations_witness:
  "hostShown demo_codec 7 view_db = hostShown demo_codec 7 (view_db\<lparr>db_replicas := []\<rparr>)"
proof (rule notifications_miss_only_observations [OF _ _ demo_codec_inj])
  show "7 \<notin> set (notifications view_db (view_db\<lparr>db_replicas := []\<rparr>))" by code_simp
  show "keys_ok view_db" using view_wf by (simp add: project_wf_def db_wf_def)
  then show "keys_ok (view_db\<lparr>db_replicas := []\<rparr>)" by (simp add: keys_ok_def)
  show "\<forall>v \<in> set (db_volumes view_db). \<forall>w \<in> set (db_volumes (view_db\<lparr>db_replicas := []\<rparr>)). vr_ID v = vr_ID w \<longrightarrow>
      vr_MountPath v = vr_MountPath w \<and> vr_ObservedSizeBytes v = vr_ObservedSizeBytes w"
    by code_simp
qed

end
