(* ===== verification/DownlinkSystem.thy ===== *)
theory DownlinkSystem
  imports Notifications
begin

text \<open>
  Database, triggers, listener, apiserver and one host's stream together: the wiring of \<^verbatim>\<open>AgentAPI.Run\<close>,
  \<^verbatim>\<open>Session\<close>, \<^verbatim>\<open>pushState\<close>, \<^verbatim>\<open>resyncLoop\<close> and \<^verbatim>\<open>listenOnce\<close> as a step relation over \<open>downlinks\<close>. Transactions
  commit at any moment - between the two reads of a push as well -, connections break and notifications
  on them are lost, reads fail, calls overlap and wait for \<^verbatim>\<open>pushMu\<close> in any order.
\<close>

section \<open>The steps\<close>

text \<open>A call of \<^verbatim>\<open>pushState\<close> that holds \<^verbatim>\<open>pushMu\<close> and has yet to finish its reads.\<close>

datatype reading = Locked bool | HasReplicas bool "wireReplica list"

text \<open>
  \<open>wi_callbacks\<close> are the callbacks the connection has still to make, oldest first; \<open>wi_waiting\<close> the calls
  of \<^verbatim>\<open>pushState\<close> for the host that have no lock yet, as their \<^verbatim>\<open>force\<close>; \<open>wi_missed\<close> records that since the
  last call took the lock a read has failed, or a size changed that no trigger looks at.
\<close>

record 'd wiring =
  wi_db :: database
  wi_listening :: bool
  wi_callbacks :: "callback list"
  wi_waiting :: "bool list"
  wi_reading :: "reading option"
  wi_missed :: bool
  wi_downlink :: "'d downlinkState"

text \<open>\<^verbatim>\<open>onChange\<close> and \<^verbatim>\<open>onReconnect\<close> of \<^verbatim>\<open>Run\<close>: the calls of \<^verbatim>\<open>pushState\<close> they make for the host.\<close>

definition callbackPushes :: "uuid \<Rightarrow> callback \<Rightarrow> bool list" where
  "callbackPushes h cb = (case cb of OnReconnect \<Rightarrow> [True] | OnChange g \<Rightarrow> if g = h then [False] else [])"

inductive wired :: "'d codec \<Rightarrow> uuid \<Rightarrow> 'd wiring \<Rightarrow> bool" for c h where
  registers: "keys_ok db \<Longrightarrow>
    wired c h \<lparr>wi_db = db, wi_listening = listening, wi_callbacks = cbs, wi_waiting = [True], wi_reading = None, wi_missed = False,
      wi_downlink = \<lparr>dl_session = newAgentSession c h, dl_lock = None, dl_read = None, dl_agent = None\<rparr>\<rparr>"
| commits: "wired c h s \<Longrightarrow> keys_ok db' \<Longrightarrow> set (notifications (wi_db s) db') \<subseteq> set hosts \<Longrightarrow>
    wired c h (s\<lparr>wi_db := db',
      wi_callbacks := (if wi_listening s then wi_callbacks s @ map OnChange hosts else wi_callbacks s),
      wi_missed := wi_missed s \<or> silentVolume h (wi_db s) db'\<rparr>)"
| breaks: "wired c h s \<Longrightarrow> wired c h (s\<lparr>wi_listening := False, wi_callbacks := take n (wi_callbacks s)\<rparr>)"
| listens: "wired c h s \<Longrightarrow> \<not> wi_listening s \<Longrightarrow>
    wired c h (s\<lparr>wi_listening := True, wi_callbacks := wi_callbacks s @ [OnReconnect]\<rparr>)"
| fires: "wired c h s \<Longrightarrow> wi_callbacks s = cb # cbs \<Longrightarrow>
    wired c h (s\<lparr>wi_callbacks := cbs, wi_waiting := wi_waiting s @ callbackPushes h cb\<rparr>)"
| resyncs: "wired c h s \<Longrightarrow> wired c h (s\<lparr>wi_waiting := wi_waiting s @ [True]\<rparr>)"
| locks: "wired c h s \<Longrightarrow> wi_reading s = None \<Longrightarrow> dl_lock (wi_downlink s) = None \<Longrightarrow> wi_waiting s = ws @ force # ws' \<Longrightarrow>
    wired c h (s\<lparr>wi_waiting := ws @ ws', wi_reading := Some (Locked force), wi_missed := False\<rparr>)"
| reads_replicas: "wired c h s \<Longrightarrow> wi_reading s = Some (Locked force) \<Longrightarrow>
    wired c h (s\<lparr>wi_reading := Some (HasReplicas force (replicasShown c h (wi_db s)))\<rparr>)"
| reads_volumes: "wired c h s \<Longrightarrow> wi_reading s = Some (HasReplicas force rs) \<Longrightarrow>
    state = \<lparr>hs_Replicas = rs, hs_Volumes = volumesShown c h (wi_db s)\<rparr> \<Longrightarrow> digest c state = Some d \<Longrightarrow>
    wired c h (s\<lparr>wi_reading := None, wi_downlink := (wi_downlink s)\<lparr>dl_lock := Some (force, state, d)\<rparr>\<rparr>)"
| fails: "wired c h s \<Longrightarrow> wi_reading s = Some r \<Longrightarrow> wired c h (s\<lparr>wi_reading := None, wi_missed := True\<rparr>)"
| applies: "wired c h s \<Longrightarrow> dl_lock (wi_downlink s) = Some (force, state, d) \<Longrightarrow>
    wired c h (s\<lparr>wi_downlink := (wi_downlink s)\<lparr>dl_session := pushRead force (state, d) (dl_session (wi_downlink s)),
      dl_lock := None, dl_read := Some state\<rparr>\<rparr>)"
| receives: "wired c h s \<Longrightarrow> se_send (dl_session (wi_downlink s)) = Some m \<Longrightarrow>
    wired c h (s\<lparr>wi_downlink := (wi_downlink s)\<lparr>dl_session := (dl_session (wi_downlink s))\<lparr>se_send := None\<rparr>, dl_agent := Some m\<rparr>\<rparr>)"

section \<open>The invariant\<close>

text \<open>A push is still to come that will read the host's state as it is now or later - or a change was missed.\<close>

definition owed :: "uuid \<Rightarrow> 'd wiring \<Rightarrow> bool" where
  "owed h s \<longleftrightarrow> wi_missed s \<or> \<not> wi_listening s \<or> OnReconnect \<in> set (wi_callbacks s) \<or> OnChange h \<in> set (wi_callbacks s)
     \<or> wi_waiting s \<noteq> []"

definition lastRead :: "'d wiring \<Rightarrow> HostState option" where
  "lastRead s = (case dl_lock (wi_downlink s) of None \<Rightarrow> dl_read (wi_downlink s) | Some (force, state, d) \<Rightarrow> Some state)"

definition current :: "'d codec \<Rightarrow> uuid \<Rightarrow> 'd wiring \<Rightarrow> bool" where
  "current c h s = (case wi_reading s of
       None \<Rightarrow> lastRead s = Some (hostShown c h (wi_db s))
     | Some (Locked force) \<Rightarrow> True
     | Some (HasReplicas force rs) \<Rightarrow> rs = replicasShown c h (wi_db s))"

lemma owed_fires: "wi_callbacks s = cb # cbs \<Longrightarrow>
    owed h s \<Longrightarrow> owed h (s\<lparr>wi_callbacks := cbs, wi_waiting := wi_waiting s @ callbackPushes h cb\<rparr>)"
  by (auto simp: owed_def callbackPushes_def split: callback.splits)

lemma current_commits:
  assumes "keys_ok (wi_db s)" "keys_ok db'" "inj (idText c)" "h \<notin> set (notifications (wi_db s) db')"
    and "\<not> silentVolume h (wi_db s) db'" "current c h s"
  shows "current c h (s\<lparr>wi_db := db', wi_callbacks := cbs, wi_missed := m\<rparr>)"
  using assms(6) replicasShown_unnoted [OF assms(1-4)] volumesShown_unnoted [OF assms(1-5)]
  by (auto simp: current_def lastRead_def hostShown_def split: option.splits reading.splits)

lemma wired_downlinks: "wired c h s \<Longrightarrow> downlinks c h (wi_downlink s) \<and> (wi_reading s \<noteq> None \<longrightarrow> dl_lock (wi_downlink s) = None)"
  by (induction rule: wired.induct) (auto intro: downlinks.intros)

lemma wired_keys: "wired c h s \<Longrightarrow> keys_ok (wi_db s)"
  by (induction rule: wired.induct) auto

lemma wired_inv:
  assumes "wired c h s" "inj (idText c)"
  shows "owed h s \<or> current c h s"
  using assms(1)
proof induction
  case (registers db listening cbs)
  show ?case by (simp add: owed_def)
next
  case (commits s db' hosts)
  show ?case
  proof (cases "owed h s \<or> h \<in> set hosts \<or> silentVolume h (wi_db s) db'")
    case True
    then show ?thesis by (auto simp: owed_def)
  next
    case False
    with commits have "current c h s" "h \<notin> set (notifications (wi_db s) db')" "\<not> silentVolume h (wi_db s) db'" by auto
    then show ?thesis
      by (intro disjI2 current_commits [OF wired_keys [OF commits.hyps(1)] commits.hyps(2) assms(2)])
  qed
next
  case (breaks s n)
  show ?case by (simp add: owed_def)
next
  case (listens s)
  show ?case by (simp add: owed_def)
next
  case (fires s cb cbs)
  from fires.IH show ?case
  proof
    assume "owed h s"
    with owed_fires [OF fires.hyps(2)] show ?thesis by blast
  next
    assume "current c h s"
    then show ?thesis by (auto simp: current_def lastRead_def split: option.splits reading.splits)
  qed
next
  case (resyncs s)
  show ?case by (simp add: owed_def)
next
  case (locks s ws force ws')
  show ?case by (simp add: current_def)
next
  case (reads_replicas s force)
  show ?case by (simp add: current_def)
next
  case (reads_volumes s force rs state d)
  then show ?case by (auto simp: owed_def current_def lastRead_def hostShown_def)
next
  case (fails s r)
  show ?case by (simp add: owed_def)
next
  case (applies s force state d)
  with wired_downlinks [OF applies.hyps(1)] show ?case
    by (auto simp: owed_def current_def lastRead_def split: option.splits)
next
  case (receives s m)
  from receives.IH show ?case by (auto simp: owed_def current_def lastRead_def split: option.splits reading.splits)
qed

text \<open>
  C30: An agent is left on an old picture of its host only while a push is still owed. In every reachable
  state of database, listener, apiserver and stream, if the connection listens and has nothing left to
  call back for the host, no push waits or runs, and nothing was missed - no read failed and no observed
  size changed since the last push began -, then what the agent has received, or finds in its mailbox
  next, is exactly what the database holds for the host at that moment.
\<close>
theorem agent_has_current_state:
  assumes "wired c h s" "inj (idText c)" "faithful c"
    and "wi_listening s" "OnReconnect \<notin> set (wi_callbacks s)" "OnChange h \<notin> set (wi_callbacks s)" "\<not> wi_missed s"
    and "wi_waiting s = []" "wi_reading s = None" "dl_lock (wi_downlink s) = None"
  shows "(case se_send (dl_session (wi_downlink s)) of Some m \<Rightarrow> Some m | None \<Rightarrow> dl_agent (wi_downlink s))
    = Some (hostShown c h (wi_db s))"
proof -
  have "freshest (wi_downlink s) = dl_read (wi_downlink s)"
    using downlinks_inv(1) wired_downlinks [OF assms(1)] assms(3) by blast
  moreover have "\<not> owed h s" using assms by (simp add: owed_def)
  with wired_inv [OF assms(1,2)] assms(9,10) have "dl_read (wi_downlink s) = Some (hostShown c h (wi_db s))"
    by (simp add: current_def lastRead_def)
  ultimately show ?thesis by (simp add: freshest_def)
qed

section \<open>A push from the lock to the mailbox\<close>

text \<open>A call that takes the lock and is not interrupted.\<close>

definition pushed :: "'d codec \<Rightarrow> uuid \<Rightarrow> bool \<Rightarrow> 'd \<Rightarrow> 'd wiring \<Rightarrow> 'd wiring" where
  "pushed c h force d s = (let state = hostShown c h (wi_db s); dl = wi_downlink s
     in s\<lparr>wi_waiting := tl (wi_waiting s), wi_missed := False,
          wi_downlink := dl\<lparr>dl_session := pushRead force (state, d) (dl_session dl), dl_read := Some state\<rparr>\<rparr>)"

lemma pushed_wired:
  assumes "wired c h s" "wi_reading s = None" "dl_lock (wi_downlink s) = None" "wi_waiting s = force # ws"
    and "digest c (hostShown c h (wi_db s)) = Some d"
  shows "wired c h (pushed c h force d s)"
proof -
  let ?s1 = "s\<lparr>wi_waiting := ws, wi_reading := Some (Locked force), wi_missed := False\<rparr>"
  let ?s2 = "?s1\<lparr>wi_reading := Some (HasReplicas force (replicasShown c h (wi_db ?s1)))\<rparr>"
  let ?st = "\<lparr>hs_Replicas = replicasShown c h (wi_db ?s1), hs_Volumes = volumesShown c h (wi_db ?s2)\<rparr>"
  let ?s3 = "?s2\<lparr>wi_reading := None, wi_downlink := (wi_downlink ?s2)\<lparr>dl_lock := Some (force, ?st, d)\<rparr>\<rparr>"
  have "wired c h ?s1" using wired.locks [OF assms(1-3), of "[]" force ws] assms(4) by simp
  then have "wired c h ?s2" by (rule wired.reads_replicas) simp
  then have "wired c h ?s3" by (rule wired.reads_volumes [OF _ _ refl]) (use assms(5) in \<open>simp_all add: hostShown_def\<close>)
  from wired.applies [OF this, of force ?st d]
  have "wired c h (?s3\<lparr>wi_downlink := (wi_downlink ?s3)\<lparr>dl_session := pushRead force (?st, d) (dl_session (wi_downlink ?s3)),
      dl_lock := None, dl_read := Some ?st\<rparr>\<rparr>)" (is "wired c h ?s4") by simp
  moreover have "?s4 = pushed c h force d s"
    using assms(2-4) by (cases s; cases "wi_downlink s") (simp add: pushed_def Let_def hostShown_def)
  ultimately show ?thesis by simp
qed

text \<open>
  A resync is enough: from any state in which no push is running, the periodic resync alone brings the
  agent to the current state of its host, whatever was missed before.
\<close>

lemma resync_heals:
  assumes "wired c h s" "wi_reading s = None" "dl_lock (wi_downlink s) = None" "wi_waiting s = []"
    and "digest c (hostShown c h (wi_db s)) = Some d"
  shows "\<exists>s'. wired c h s' \<and> wi_db s' = wi_db s \<and> dl_agent (wi_downlink s') = Some (hostShown c h (wi_db s))"
proof -
  let ?s1 = "s\<lparr>wi_waiting := [] @ [True]\<rparr>"
  have "wired c h ?s1" using wired.resyncs [OF assms(1)] assms(4) by simp
  then have s2: "wired c h (pushed c h True d ?s1)" by (rule pushed_wired) (use assms in simp_all)
  have send: "se_send (dl_session (wi_downlink (pushed c h True d ?s1))) = Some (hostShown c h (wi_db s))"
    by (simp add: pushed_def Let_def pushRead_def push_def)
  show ?thesis
    by (rule exI, rule conjI, rule wired.receives [OF s2 send]) (simp add: pushed_def Let_def)
qed

text \<open>\<^verbatim>\<open>pushState\<close> on a database nobody else writes is such a call.\<close>

lemma pushState_pushed:
  assumes "session a h = Some p" "p < length (aa_opened a)" "aa_opened a ! p = dl_session (wi_downlink s)"
    and "hostState c quiet h (k, wi_db s) = (Inr (state, d), ks')"
  shows "aa_opened (fst (pushState c quiet h force (a, (k, wi_db s)))) ! p = dl_session (wi_downlink (pushed c h force d s))"
  using assms hostState_quiet [OF assms(4)]
  by (simp add: pushState_def onSession_def pushed_def Let_def hostShown_def replicasShown_def volumesShown_def)

section \<open>Witnesses\<close>

theorem agent_has_current_state_witness:
  "\<exists>s. wired demo_codec 9 s \<and> wi_db s = view_db \<and> dl_agent (wi_downlink s) = Some (hostShown demo_codec 9 view_db)"
proof -
  let ?s0 = "\<lparr>wi_db = view_db, wi_listening = True, wi_callbacks = [OnChange 3], wi_waiting = [True], wi_reading = None, wi_missed = False,
      wi_downlink = \<lparr>dl_session = newAgentSession demo_codec 9, dl_lock = None, dl_read = None, dl_agent = None\<rparr>\<rparr>"
  let ?s1 = "pushed demo_codec 9 True (Some (hostShown demo_codec 9 view_db)) ?s0"
  let ?m = "hostShown demo_codec 9 view_db"
  let ?s2 = "?s1\<lparr>wi_downlink := (wi_downlink ?s1)\<lparr>dl_session := (dl_session (wi_downlink ?s1))\<lparr>se_send := None\<rparr>, dl_agent := Some ?m\<rparr>\<rparr>"
  have "wired demo_codec 9 ?s0"
    by (rule wired.registers) (use view_wf in \<open>simp add: project_wf_def db_wf_def\<close>)
  then have "wired demo_codec 9 ?s1"
    by (rule pushed_wired) (simp_all add: demo_codec_def)
  then have s2: "wired demo_codec 9 ?s2"
    by (rule wired.receives) (simp add: pushed_def Let_def pushRead_def push_def)
  from agent_has_current_state [OF this demo_codec_inj demo_faithful] have "dl_agent (wi_downlink ?s2) = Some ?m"
    by (simp add: pushed_def Let_def)
  with s2 show ?thesis by (intro exI [of _ ?s2]) (simp add: pushed_def Let_def)
qed

end
