(* ===== verification/Disk.thy ===== *)
theory Disk
  imports GoStrings "HOL-Library.AList"
begin

text \<open>
  The part of package \<^verbatim>\<open>os\<close> the command line uses: a tree of directories and files as an association list
  from paths to nodes. A path is the list of its components, innermost first; the root is empty. There
  are no symbolic links. The operating system may refuse any call for reasons of its own (permissions,
  space): \<open>dk_refuses\<close> says which. Every operation returns whether it succeeded, and the disk after it.
\<close>

type_synonym path = "string list"

datatype node = Dir | File string

datatype syscall = SysStat | SysRead | SysMkdir | SysWrite | SysRename | SysRemove

record file_system =
  dk_nodes :: "(path \<times> node) list"
  dk_refuses :: "syscall \<Rightarrow> path \<Rightarrow> bool"

definition nodeAt :: "file_system \<Rightarrow> path \<Rightarrow> node option" where
  "nodeAt d p = (if p = [] then Some Dir else map_of (dk_nodes d) p)"

definition putNode :: "path \<Rightarrow> node \<Rightarrow> file_system \<Rightarrow> file_system" where
  "putNode p x d = d\<lparr>dk_nodes := AList.update p x (dk_nodes d)\<rparr>"

definition dropNode :: "path \<Rightarrow> file_system \<Rightarrow> file_system" where
  "dropNode p d = d\<lparr>dk_nodes := AList.delete p (dk_nodes d)\<rparr>"

lemma nodeAt_put [simp]: "p \<noteq> [] \<Longrightarrow> nodeAt (putNode p x d) q = (if q = p then Some x else nodeAt d q)"
  by (auto simp: nodeAt_def putNode_def update_conv')

lemma nodeAt_drop [simp]: "p \<noteq> [] \<Longrightarrow> nodeAt (dropNode p d) q = (if q = p then None else nodeAt d q)"
  by (auto simp: nodeAt_def dropNode_def delete_conv')

lemma nodeAt_root [simp]: "nodeAt d [] = Some Dir"
  by (simp add: nodeAt_def)

lemma refuses_put [simp]: "dk_refuses (putNode p x d) = dk_refuses d" "dk_refuses (dropNode p d) = dk_refuses d"
  by (simp_all add: putNode_def dropNode_def)

section \<open>Calls\<close>

definition statOK :: "file_system \<Rightarrow> path \<Rightarrow> bool" where
  "statOK d p \<longleftrightarrow> \<not> dk_refuses d SysStat p \<and> nodeAt d p \<noteq> None"

definition ReadFile :: "file_system \<Rightarrow> path \<Rightarrow> string option" where
  "ReadFile d p = (if dk_refuses d SysRead p then None
     else case nodeAt d p of Some (File text) \<Rightarrow> Some text | _ \<Rightarrow> None)"

fun MkdirAll :: "path \<Rightarrow> file_system \<Rightarrow> bool \<times> file_system" where
  "MkdirAll [] d = (True, d)"
| "MkdirAll (n # p) d =
     (case nodeAt d (n # p) of
        Some Dir \<Rightarrow> (True, d)
      | Some (File _) \<Rightarrow> (False, d)
      | None \<Rightarrow>
          (let (ok, d') = MkdirAll p d
           in if \<not> ok \<or> dk_refuses d' SysMkdir (n # p) then (False, d') else (True, putNode (n # p) Dir d')))"

definition isFile :: "node option \<Rightarrow> bool" where
  "isFile x = (case x of Some (File _) \<Rightarrow> True | _ \<Rightarrow> False)"

definition WriteFile :: "path \<Rightarrow> string \<Rightarrow> file_system \<Rightarrow> bool \<times> file_system" where
  "WriteFile p text d =
     (if p = [] \<or> dk_refuses d SysWrite p \<or> nodeAt d (tl p) \<noteq> Some Dir \<or> nodeAt d p = Some Dir then (False, d)
      else (True, putNode p (File text) d))"

text \<open>\<^verbatim>\<open>rename(2)\<close> of a file: what was at the new name is replaced in one step.\<close>

definition Rename :: "path \<Rightarrow> path \<Rightarrow> file_system \<Rightarrow> bool \<times> file_system" where
  "Rename p q d =
     (case nodeAt d p of
        Some (File text) \<Rightarrow>
          (if dk_refuses d SysRename q \<or> q = [] \<or> nodeAt d (tl q) \<noteq> Some Dir \<or> nodeAt d q = Some Dir then (False, d)
           else if p = q then (True, d)
           else (True, putNode q (File text) (dropNode p d)))
      | _ \<Rightarrow> (False, d))"

definition emptyDir :: "file_system \<Rightarrow> path \<Rightarrow> bool" where
  "emptyDir d p \<longleftrightarrow> list_all (\<lambda>(q, x). q = [] \<or> tl q \<noteq> p) (dk_nodes d)"

definition Remove :: "path \<Rightarrow> file_system \<Rightarrow> bool \<times> file_system" where
  "Remove p d =
     (if p = [] \<or> dk_refuses d SysRemove p then (False, d)
      else case nodeAt d p of
             None \<Rightarrow> (False, d)
           | Some Dir \<Rightarrow> if emptyDir d p then (True, dropNode p d) else (False, d)
           | Some (File _) \<Rightarrow> (True, dropNode p d))"

section \<open>A sequence of calls, and a crash in the middle of it\<close>

datatype diskCall = CallMkdirAll path | CallWriteFile path string | CallRename path path

fun execCall :: "diskCall \<Rightarrow> file_system \<Rightarrow> bool \<times> file_system" where
  "execCall (CallMkdirAll p) d = MkdirAll p d"
| "execCall (CallWriteFile p text) d = WriteFile p text d"
| "execCall (CallRename p q) d = Rename p q d"

text \<open>Calls one after the other, up to the first that fails.\<close>

fun execCalls :: "diskCall list \<Rightarrow> file_system \<Rightarrow> bool \<times> file_system" where
  "execCalls [] d = (True, d)"
| "execCalls (c # cs) d = (let (ok, d') = execCall c d in if ok then execCalls cs d' else (False, d'))"

text \<open>
  The disks a crash can leave: before a call, after one, after a failed one, and with any part of the
  text of a file written - a write truncates the file and then fills it.
\<close>

inductive crash_leaves :: "diskCall list \<Rightarrow> file_system \<Rightarrow> file_system \<Rightarrow> bool" where
  before: "crash_leaves cs d d"
| torn: "WriteFile p part d = (True, d') \<Longrightarrow> crash_leaves (CallWriteFile p text # cs) d d'" if "take (length part) text = part"
| failed: "execCall c d = (False, d') \<Longrightarrow> crash_leaves (c # cs) d d'"
| after: "execCall c d = (True, d1) \<Longrightarrow> crash_leaves cs d1 d' \<Longrightarrow> crash_leaves (c # cs) d d'"

inductive_cases crash_leaves_NilE: "crash_leaves [] d d'"
inductive_cases crash_leaves_ConsE: "crash_leaves (c # cs) d d'"

lemma MkdirAll_nodes:
  "MkdirAll p d = (ok, d') \<Longrightarrow> dk_refuses d' = dk_refuses d \<and> (\<forall>q. nodeAt d' q \<noteq> nodeAt d q \<longrightarrow> nodeAt d' q = Some Dir \<and> nodeAt d q = None \<and> (\<exists>n. n @ q = p))"
proof (induction p arbitrary: ok d')
  case Nil
  then show ?case by simp
next
  case (Cons n p)
  obtain ok1 d1 where rec: "MkdirAll p d = (ok1, d1)" by fastforce
  have suffix: "\<exists>m. m @ q = n # p" if "\<exists>m. m @ q = p" for q
    using that by (metis append_Cons)
  from Cons.IH [OF rec] have ih: "dk_refuses d1 = dk_refuses d"
    "\<And>q. nodeAt d1 q \<noteq> nodeAt d q \<Longrightarrow> nodeAt d1 q = Some Dir \<and> nodeAt d q = None \<and> (\<exists>m. m @ q = n # p)"
    using suffix by auto
  show ?case
  proof (cases "nodeAt d (n # p)")
    case None
    have self: "\<exists>m. m @ n # p = n # p" by (rule exI [of _ "[]"]) simp
    from Cons.prems None rec consider "d' = d1" | "d' = putNode (n # p) Dir d1"
      by (auto simp: Let_def split: if_splits)
    then show ?thesis
    proof cases
      case 1
      with ih show ?thesis by blast
    next
      case 2
      with ih None self show ?thesis by auto
    qed
  next
    case (Some x)
    with Cons.prems show ?thesis by (cases x) auto
  qed
qed

lemma MkdirAll_ok: "MkdirAll p d = (True, d') \<Longrightarrow> nodeAt d' p = Some Dir"
  by (cases p) (auto simp: Let_def split: option.splits node.splits prod.splits if_splits)

end
