(* ===== verification/FolderLink.thy ===== *)
theory FolderLink
  imports Disk Project
begin

text \<open>
  Package \<^verbatim>\<open>internal/link\<close>: the file \<^verbatim>\<open>.conductor/config.json\<close> that points a working tree at a target. Its
  text is what the JSON encoder makes of the target and reading it is the JSON decoder: the pair is the
  parameter \<open>linkCodec\<close>, of which \<open>linkCodec_ok\<close> states that the decoder inverts the encoder on targets whose
  texts are valid UTF-8 (\<open>validTarget\<close>), and that it yields only such targets.
\<close>

section \<open>The file\<close>

definition DirName :: string where "DirName = ''.conductor''"
definition fileName :: string where "fileName = ''config.json''"
definition LinkEnvironment :: string where "LinkEnvironment = ''production''"

record linkCodec =
  lc_Marshal :: "Target \<Rightarrow> string"
  lc_Unmarshal :: "string \<Rightarrow> Target option"

text \<open>
  The encoder replaces bytes that are not valid UTF-8, so what it promises it promises of texts that are
  (\<^verbatim>\<open>utf8.ValidString\<close>: no overlong form, no surrogate half, nothing above the last code point). The
  decoder makes valid text only: it replaces the invalid bytes it meets.
\<close>

definition between :: "nat \<Rightarrow> nat \<Rightarrow> nat \<Rightarrow> bool" where
  "between lo n hi \<longleftrightarrow> lo \<le> n \<and> n \<le> hi"

fun validBytes :: "nat list \<Rightarrow> bool" where
  "validBytes [] \<longleftrightarrow> True"
| "validBytes [a] \<longleftrightarrow> a < 128"
| "validBytes [a, b] \<longleftrightarrow> (if a < 128 then validBytes [b] else between 194 a 223 \<and> between 128 b 191)"
| "validBytes [a, b, c] \<longleftrightarrow>
     (if a < 128 then validBytes [b, c]
      else if between 194 a 223 then between 128 b 191 \<and> validBytes [c]
      else between 224 a 239 \<and> between (if a = 224 then 160 else 128) b (if a = 237 then 159 else 191) \<and> between 128 c 191)"
| "validBytes (a # b # c # d # r) \<longleftrightarrow>
     (if a < 128 then validBytes (b # c # d # r)
      else if between 194 a 223 then between 128 b 191 \<and> validBytes (c # d # r)
      else if between 224 a 239 then
        between (if a = 224 then 160 else 128) b (if a = 237 then 159 else 191) \<and> between 128 c 191 \<and> validBytes (d # r)
      else between 240 a 244 \<and> between (if a = 240 then 144 else 128) b (if a = 244 then 143 else 191)
        \<and> between 128 c 191 \<and> between 128 d 191 \<and> validBytes r)"

definition validUTF8 :: "string \<Rightarrow> bool" where
  "validUTF8 s \<longleftrightarrow> validBytes (map of_char s)"

definition validTarget :: "Target \<Rightarrow> bool" where
  "validTarget l \<longleftrightarrow> validUTF8 (tg_Project l) \<and> validUTF8 (tg_Environment l) \<and> validUTF8 (tg_Service l)"

definition linkCodec_ok :: "linkCodec \<Rightarrow> bool" where
  "linkCodec_ok c \<longleftrightarrow> (\<forall>l. validTarget l \<longrightarrow> lc_Unmarshal c (lc_Marshal c l) = Some l)
     \<and> (\<forall>s l. lc_Unmarshal c s = Some l \<longrightarrow> validTarget l)"

lemma linkCodec_okD:
  "linkCodec_ok c \<Longrightarrow> validTarget l \<Longrightarrow> lc_Unmarshal c (lc_Marshal c l) = Some l"
  "linkCodec_ok c \<Longrightarrow> lc_Unmarshal c s = Some l \<Longrightarrow> validTarget l"
  by (simp_all add: linkCodec_ok_def)

datatype linkError = GetwdFailed | ReadFailed | ParseFailed | WriteFailed | RemoveFailed | LinkNotFound

definition linkPath :: "path \<Rightarrow> path" where
  "linkPath dir = fileName # DirName # dir"

definition tmpPath :: "path \<Rightarrow> path" where
  "tmpPath dir = (fileName @ ''.tmp'') # DirName # dir"

section \<open>Operations\<close>

text \<open>The walk from a directory to the root.\<close>

fun walkUp :: "file_system \<Rightarrow> path \<Rightarrow> path option" where
  "walkUp d [] = (if statOK d (linkPath []) then Some [] else None)"
| "walkUp d (n # dir) = (if statOK d (linkPath (n # dir)) then Some (n # dir) else walkUp d dir)"

definition FindLink :: "path option \<Rightarrow> file_system \<Rightarrow> linkError + path option" where
  "FindLink getwd d = (case getwd of None \<Rightarrow> Inl GetwdFailed | Some cwd \<Rightarrow> Inr (walkUp d cwd))"

definition readLink :: "linkCodec \<Rightarrow> file_system \<Rightarrow> path \<Rightarrow> linkError + Target" where
  "readLink c d dir =
     (case ReadFile d (linkPath dir) of
        None \<Rightarrow> Inl ReadFailed
      | Some text \<Rightarrow> (case lc_Unmarshal c text of None \<Rightarrow> Inl ParseFailed | Some l \<Rightarrow> Inr l))"

definition LoadLink :: "linkCodec \<Rightarrow> path option \<Rightarrow> file_system \<Rightarrow> linkError + (Target \<times> path) option" where
  "LoadLink c getwd d =
     (case FindLink getwd d of
        Inl e \<Rightarrow> Inl e
      | Inr None \<Rightarrow> Inr None
      | Inr (Some dir) \<Rightarrow> (case readLink c d dir of Inl e \<Rightarrow> Inl e | Inr l \<Rightarrow> Inr (Some (l, dir))))"

definition saveCalls :: "linkCodec \<Rightarrow> path \<Rightarrow> Target \<Rightarrow> diskCall list" where
  "saveCalls c dir l =
     [CallMkdirAll (DirName # dir), CallWriteFile (tmpPath dir) (lc_Marshal c l), CallRename (tmpPath dir) (linkPath dir)]"

definition SaveLink :: "linkCodec \<Rightarrow> path \<Rightarrow> Target \<Rightarrow> file_system \<Rightarrow> bool \<times> file_system" where
  "SaveLink c dir l d = execCalls (saveCalls c dir l) d"

definition RemoveLink :: "path option \<Rightarrow> file_system \<Rightarrow> (linkError + path) \<times> file_system" where
  "RemoveLink getwd d =
     (case FindLink getwd d of
        Inl e \<Rightarrow> (Inl e, d)
      | Inr None \<Rightarrow> (Inl LinkNotFound, d)
      | Inr (Some dir) \<Rightarrow>
          (let (ok, d') = Remove (linkPath dir) d
           in if \<not> ok then (Inl RemoveFailed, d') else (Inr dir, snd (Remove (DirName # dir) d'))))"

definition updateLink :: "linkCodec \<Rightarrow> (Target \<Rightarrow> Target) \<Rightarrow> path option \<Rightarrow> file_system \<Rightarrow> (linkError + path) \<times> file_system" where
  "updateLink c mutate getwd d =
     (case LoadLink c getwd d of
        Inl e \<Rightarrow> (Inl e, d)
      | Inr None \<Rightarrow> (Inl LinkNotFound, d)
      | Inr (Some (l, dir)) \<Rightarrow>
          (let (ok, d') = SaveLink c dir (mutate l) d in (if ok then Inr dir else Inl WriteFailed, d')))"

definition SetEnvironment :: "linkCodec \<Rightarrow> string \<Rightarrow> path option \<Rightarrow> file_system \<Rightarrow> (linkError + path) \<times> file_system" where
  "SetEnvironment c env = updateLink c (\<lambda>l. l\<lparr>tg_Environment := env\<rparr>)"

definition SetService :: "linkCodec \<Rightarrow> string \<Rightarrow> path option \<Rightarrow> file_system \<Rightarrow> (linkError + path) \<times> file_system" where
  "SetService c svc = updateLink c (\<lambda>l. l\<lparr>tg_Service := svc\<rparr>)"

section \<open>Finding\<close>

text \<open>The ancestors of a directory, nearest first.\<close>

definition ancestors :: "path \<Rightarrow> path list" where
  "ancestors dir = map (\<lambda>i. drop i dir) [0..<Suc (length dir)]"

lemma ancestors_Nil [simp]: "ancestors [] = [[]]"
  by (simp add: ancestors_def)

lemma ancestors_Cons [simp]: "ancestors (n # dir) = (n # dir) # ancestors dir"
  by (simp add: ancestors_def upt_conv_Cons map_Suc_upt [symmetric] del: upt_Suc)

lemma walkUp_find: "walkUp d dir = find (\<lambda>a. statOK d (linkPath a)) (ancestors dir)"
  by (induction dir) simp_all

lemma walkUp_cong: "(\<And>a. statOK d' (linkPath a) = statOK d (linkPath a)) \<Longrightarrow> walkUp d' dir = walkUp d dir"
  by (induction dir) simp_all

lemma walkUp_below:
  assumes "statOK d (linkPath dir)" "\<And>k. k \<noteq> [] \<Longrightarrow> (\<exists>m. m @ k = sub) \<Longrightarrow> \<not> statOK d (linkPath (k @ dir))"
  shows "walkUp d (sub @ dir) = Some dir"
  using assms(2)
proof (induction sub)
  case Nil
  from assms(1) show ?case by (cases dir) simp_all
next
  case (Cons n sub)
  from Cons.prems [of "n # sub"] have "\<not> statOK d (linkPath ((n # sub) @ dir))"
    by (metis append_Nil list.distinct(1))
  moreover have "walkUp d (sub @ dir) = Some dir"
    by (rule Cons.IH) (metis Cons.prems append_Cons)
  ultimately show ?case by simp
qed

section \<open>Saving\<close>

lemma paths [simp]: "linkPath dir \<noteq> []" "tmpPath dir \<noteq> []" "tl (linkPath dir) = DirName # dir" "tl (tmpPath dir) = DirName # dir"
  "linkPath a \<noteq> tmpPath dir" "tmpPath dir \<noteq> linkPath a" "linkPath a = linkPath dir \<longleftrightarrow> a = dir"
  by (auto simp: linkPath_def tmpPath_def)

text \<open>What the calls before the rename do leaves every existing link as it is.\<close>

definition same_links :: "file_system \<Rightarrow> file_system \<Rightarrow> bool" where
  "same_links d d' \<longleftrightarrow> (\<forall>a. nodeAt d' (linkPath a) = nodeAt d (linkPath a)) \<and> dk_refuses d' = dk_refuses d"

lemma same_links_reads:
  "same_links d d' \<Longrightarrow> statOK d' (linkPath a) = statOK d (linkPath a)"
  "same_links d d' \<Longrightarrow> readLink c d' a = readLink c d a"
  by (simp_all add: same_links_def statOK_def readLink_def ReadFile_def)

lemma same_links_Load: "same_links d d' \<Longrightarrow> LoadLink c getwd d' = LoadLink c getwd d"
  using walkUp_cong [of d' d] same_links_reads [of d d']
  by (simp add: LoadLink_def FindLink_def split: option.splits)

lemma same_links_trans: "same_links d d1 \<Longrightarrow> same_links d1 d2 \<Longrightarrow> same_links d d2"
  by (simp add: same_links_def)

lemma same_links_write: "same_links d (putNode (tmpPath dir) x d)" "same_links d (dropNode (tmpPath dir) d)"
  by (simp_all add: same_links_def)

lemma MkdirAll_existing: "nodeAt d p = Some Dir \<Longrightarrow> MkdirAll p d = (True, d)"
  by (cases p) simp_all

lemma mkdir_same_links:
  assumes "nodeAt d dir = Some Dir" "MkdirAll (DirName # dir) d = (ok, d')"
  shows "same_links d d'"
proof -
  have "linkPath a \<noteq> DirName # dir" for a
    by (auto simp: linkPath_def DirName_def fileName_def)
  then have "same_links d (putNode (DirName # dir) Dir d)"
    by (auto simp: same_links_def)
  with assms show ?thesis
    by (auto simp: MkdirAll_existing same_links_def split: option.splits node.splits if_splits)
qed

lemma write_same_links: "WriteFile (tmpPath dir) text d = (ok, d') \<Longrightarrow> same_links d d'"
  using same_links_write by (auto simp: WriteFile_def same_links_def split: if_splits)

text \<open>The link of one directory replaced by a text, and every other one as it was.\<close>

definition relinked :: "path \<Rightarrow> string \<Rightarrow> file_system \<Rightarrow> file_system \<Rightarrow> bool" where
  "relinked dir text d d' \<longleftrightarrow> dk_refuses d' = dk_refuses d \<and> nodeAt d' (linkPath dir) = Some (File text)
     \<and> (\<forall>a. a \<noteq> dir \<longrightarrow> nodeAt d' (linkPath a) = nodeAt d (linkPath a))"

lemma relinked_after: "same_links d d1 \<Longrightarrow> relinked dir text d1 d2 \<Longrightarrow> relinked dir text d d2"
  by (simp add: same_links_def relinked_def)

lemma rename_relinks:
  "Rename (tmpPath dir) (linkPath dir) d = (ok, d') \<Longrightarrow> nodeAt d (tmpPath dir) = Some (File text) \<Longrightarrow>
   if ok then relinked dir text d d' else d' = d"
  by (auto simp: Rename_def relinked_def split: if_splits)

lemma write_reads: "WriteFile (tmpPath dir) text d = (True, d') \<Longrightarrow> nodeAt d' (tmpPath dir) = Some (File text)"
  by (auto simp: WriteFile_def split: if_splits)

lemma crash_leaves_step:
  "crash_leaves (e # es) d d' \<Longrightarrow> d' = d \<or> (\<exists>p part t. e = CallWriteFile p t \<and> WriteFile p part d = (True, d'))
     \<or> execCall e d = (False, d') \<or> (\<exists>d1. execCall e d = (True, d1) \<and> crash_leaves es d1 d')"
  by (elim crash_leaves_ConsE) auto

lemma crash_leaves_save:
  assumes "crash_leaves (saveCalls c dir l) d d'" "nodeAt d dir = Some Dir"
  shows "same_links d d' \<or> relinked dir (lc_Marshal c l) d d'"
proof -
  have same: "same_links d d" for d by (simp add: same_links_def)
  have mk: "MkdirAll (DirName # dir) d = (ok, d1) \<Longrightarrow> same_links d d1" for ok d1
    by (rule mkdir_same_links [OF assms(2)])
  have wr: "WriteFile (tmpPath dir) part d1 = (ok, d2) \<Longrightarrow> same_links d d1 \<Longrightarrow> same_links d d2" for part ok d1 d2
    by (blast intro: same_links_trans write_same_links)
  have move: "Rename (tmpPath dir) (linkPath dir) d2 = (ok, d3) \<Longrightarrow> same_links d d2 \<Longrightarrow>
      nodeAt d2 (tmpPath dir) = Some (File (lc_Marshal c l)) \<Longrightarrow> same_links d d3 \<or> relinked dir (lc_Marshal c l) d d3" for ok d2 d3
    using rename_relinks [of dir d2 ok d3] relinked_after by (auto split: if_splits)
  let ?goal = "same_links d d' \<or> relinked dir (lc_Marshal c l) d d'"
  from crash_leaves_step [OF assms(1) [unfolded saveCalls_def]] consider "d' = d" | "execCall (CallMkdirAll (DirName # dir)) d = (False, d')"
    | d1 where "execCall (CallMkdirAll (DirName # dir)) d = (True, d1)"
        "crash_leaves [CallWriteFile (tmpPath dir) (lc_Marshal c l), CallRename (tmpPath dir) (linkPath dir)] d1 d'"
    by auto
  then show ?goal
  proof cases
    case 3
    then have d1: "same_links d d1" by (simp add: mk)
    from crash_leaves_step [OF 3(2)] consider "d' = d1" | part where "WriteFile (tmpPath dir) part d1 = (True, d')"
      | "WriteFile (tmpPath dir) (lc_Marshal c l) d1 = (False, d')"
      | d2 where "WriteFile (tmpPath dir) (lc_Marshal c l) d1 = (True, d2)" "crash_leaves [CallRename (tmpPath dir) (linkPath dir)] d2 d'"
      by auto
    then show ?goal
    proof cases
      case 4
      then have d2: "same_links d d2" "nodeAt d2 (tmpPath dir) = Some (File (lc_Marshal c l))"
        using wr d1 write_reads by auto
      from crash_leaves_step [OF 4(2)] consider "d' = d2" | ok where "Rename (tmpPath dir) (linkPath dir) d2 = (ok, d')"
        by (auto elim: crash_leaves_NilE)
      then show ?goal by cases (use d2 move in blast)+
    qed (use d1 wr in blast)+
  qed (use same mk in auto)
qed

lemma walkUp_relinked: "relinked dir text d d' \<Longrightarrow> walkUp d' cwd = walkUp d cwd \<or> walkUp d' cwd = Some dir"
proof (induction cwd)
  case Nil
  then show ?case by (cases "dir = []") (auto simp: relinked_def statOK_def)
next
  case (Cons n cwd)
  then show ?case by (cases "dir = n # cwd") (auto simp: relinked_def statOK_def)
qed

lemma LoadLink_relinked:
  assumes rel: "relinked dir (lc_Marshal c l) d d'" and c: "linkCodec_ok c" "validTarget l" and read: "\<not> dk_refuses d SysRead (linkPath dir)"
  shows "LoadLink c getwd d' = LoadLink c getwd d \<or> LoadLink c getwd d' = Inr (Some (l, dir))"
proof (cases getwd)
  case None
  then show ?thesis by (simp add: LoadLink_def FindLink_def)
next
  case (Some cwd)
  have new: "readLink c d' dir = Inr l"
    using rel linkCodec_okD(1) [OF c] read by (simp add: relinked_def readLink_def ReadFile_def)
  have old: "readLink c d' a = readLink c d a" if "a \<noteq> dir" for a
    using rel that by (simp add: relinked_def readLink_def ReadFile_def)
  consider "walkUp d' cwd = Some dir" | a where "walkUp d' cwd = walkUp d cwd" "walkUp d' cwd = Some a" "a \<noteq> dir"
    | "walkUp d' cwd = walkUp d cwd" "walkUp d' cwd = None"
    using walkUp_relinked [OF rel, of cwd] by (metis not_None_eq)
  then show ?thesis
    by cases (use Some new old in \<open>auto simp: LoadLink_def FindLink_def split: option.splits\<close>)
qed

lemma SaveLink_relinked:
  assumes "SaveLink c dir l d = (True, d')" "nodeAt d dir = Some Dir"
  shows "relinked dir (lc_Marshal c l) d d'"
proof -
  obtain d1 d2 where d1: "MkdirAll (DirName # dir) d = (True, d1)"
    and d2: "WriteFile (tmpPath dir) (lc_Marshal c l) d1 = (True, d2)"
    and d3: "Rename (tmpPath dir) (linkPath dir) d2 = (True, d')"
    using assms(1) by (auto simp: SaveLink_def saveCalls_def Let_def split: prod.splits if_splits)
  from rename_relinks [OF d3 write_reads [OF d2]] have "relinked dir (lc_Marshal c l) d2 d'" by simp
  with mkdir_same_links [OF assms(2) d1] write_same_links [OF d2] show ?thesis
    by (blast intro: relinked_after)
qed

section \<open>Properties\<close>

text \<open>
  C38: Saving a link whose texts are valid UTF-8 is crash-atomic for every reader: whenever the calls of a save stop - before or after
  any of them, at one that fails, or in the middle of writing the file - every working directory loads
  either what it loaded before, or the saved target from the saved directory; never an error of a
  half-written file.
\<close>

theorem save_is_crash_atomic:
  assumes "crash_leaves (saveCalls c dir l) d d'" "nodeAt d dir = Some Dir" "linkCodec_ok c" "validTarget l"
    and "\<not> dk_refuses d SysRead (linkPath dir)"
  shows "LoadLink c getwd d' = LoadLink c getwd d \<or> LoadLink c getwd d' = Inr (Some (l, dir))"
  using crash_leaves_save [OF assms(1,2)] same_links_Load LoadLink_relinked [OF _ assms(3-5)] by blast

lemma save_load:
  assumes "SaveLink c dir l d = (True, d')" "nodeAt d dir = Some Dir" "linkCodec_ok c" "validTarget l"
    and "\<not> dk_refuses d SysRead (linkPath dir)" "\<not> dk_refuses d SysStat (linkPath dir)"
    and "\<And>k. k \<noteq> [] \<Longrightarrow> (\<exists>m. m @ k = sub) \<Longrightarrow> \<not> statOK d (linkPath (k @ dir))"
  shows "LoadLink c (Some (sub @ dir)) d' = Inr (Some (l, dir))"
proof -
  have rel: "relinked dir (lc_Marshal c l) d d'" by (rule SaveLink_relinked [OF assms(1,2)])
  then have "statOK d' (linkPath dir)" using assms(6) by (simp add: relinked_def statOK_def)
  moreover have "\<not> statOK d' (linkPath (k @ dir))" if "k \<noteq> []" "\<exists>m. m @ k = sub" for k
    using assms(7) [OF that] rel that(1) by (simp add: relinked_def statOK_def)
  ultimately have "walkUp d' (sub @ dir) = Some dir" by (rule walkUp_below)
  moreover have "readLink c d' dir = Inr l"
    using rel linkCodec_okD(1) [OF assms(3,4)] assms(5) by (simp add: relinked_def readLink_def ReadFile_def)
  ultimately show ?thesis by (simp add: LoadLink_def FindLink_def)
qed

text \<open>What the pointer updates change, and what they leave.\<close>

lemma updateLink_Inr:
  assumes "updateLink c mutate getwd d = (Inr dir, d')"
  shows "\<exists>l. LoadLink c getwd d = Inr (Some (l, dir)) \<and> SaveLink c dir (mutate l) d = (True, d')"
  using assms by (auto simp: updateLink_def Let_def split: sum.splits option.splits prod.splits if_splits)

lemma LoadLink_Some:
  assumes "LoadLink c getwd d = Inr (Some (l, dir))"
  shows "\<exists>cwd. getwd = Some cwd \<and> walkUp d cwd = Some dir \<and> readLink c d dir = Inr l"
  using assms by (auto simp: LoadLink_def FindLink_def split: sum.splits option.splits)

lemma walkUp_Some: "walkUp d cwd = Some dir \<Longrightarrow> statOK d (linkPath dir) \<and> (\<exists>sub. cwd = sub @ dir)"
proof (induction cwd)
  case Nil
  then show ?case by (auto split: if_splits)
next
  case (Cons n cwd)
  then show ?case by (auto split: if_splits)
qed

lemma walkUp_relinked_same: "relinked dir text d d' \<Longrightarrow> walkUp d cwd = Some dir \<Longrightarrow> walkUp d' cwd = Some dir"
proof (induction cwd)
  case Nil
  then show ?case by (auto simp: relinked_def statOK_def split: if_splits)
next
  case (Cons n cwd)
  then show ?case by (cases "dir = n # cwd") (auto simp: relinked_def statOK_def split: if_splits)
qed

text \<open>
  Selecting an environment rewrites the nearest link and nothing else of it: when the command
  succeeds, the same directory loads, from the same place, the target it loaded before with the new
  environment and the old project and service.
\<close>

theorem select_environment_updates_nearest:
  assumes "SetEnvironment c env getwd d = (Inr dir, d')" "nodeAt d dir = Some Dir" "linkCodec_ok c" "validUTF8 env"
  shows "\<exists>l. LoadLink c getwd d = Inr (Some (l, dir)) \<and> LoadLink c getwd d' = Inr (Some (l\<lparr>tg_Environment := env\<rparr>, dir))"
proof -
  from updateLink_Inr [OF assms(1) [unfolded SetEnvironment_def]]
  obtain l where l: "LoadLink c getwd d = Inr (Some (l, dir))"
    and save: "SaveLink c dir (l\<lparr>tg_Environment := env\<rparr>) d = (True, d')" by auto
  from LoadLink_Some [OF l] obtain cwd where cwd: "getwd = Some cwd" "walkUp d cwd = Some dir" "readLink c d dir = Inr l"
    by blast
  have read: "\<not> dk_refuses d SysRead (linkPath dir)"
    using cwd(3) by (auto simp: readLink_def ReadFile_def split: if_splits)
  have rel: "relinked dir (lc_Marshal c (l\<lparr>tg_Environment := env\<rparr>)) d d'"
    by (rule SaveLink_relinked [OF save assms(2)])
  have "validTarget l"
    using cwd(3) linkCodec_okD(2) [OF assms(3)] by (auto simp: readLink_def split: option.splits)
  then have "validTarget (l\<lparr>tg_Environment := env\<rparr>)" using assms(4) by (simp add: validTarget_def)
  with read linkCodec_okD(1) [OF assms(3)] have "readLink c d' dir = Inr (l\<lparr>tg_Environment := env\<rparr>)"
    using rel by (simp add: relinked_def readLink_def ReadFile_def)
  with l cwd walkUp_relinked_same [OF rel cwd(2)] show ?thesis
    by (simp add: LoadLink_def FindLink_def)
qed

end
