(* ===== verification/Builder.thy ===== *)
theory Builder
  imports GoStrings
begin

text \<open>
  Package \<^verbatim>\<open>builder\<close>: from a service's source to the image of a deployment. A backend is a function from
  a request to an image reference, or to an error; \<open>NoOp\<close> is the default one. Text is bytes, and lower
  case is that of ASCII.
\<close>

section \<open>Requests and resolution\<close>

record Request =
  bq_Project :: string
  bq_Environment :: string
  bq_Service :: string
  bq_Repo :: string
  bq_Root :: string
  bq_Strategy :: string
  bq_Dockerfile :: string
  bq_BuildCommand :: string

datatype buildError = NoSource | BuildFailed | EmptyImageRef

type_synonym Builder = "Request \<Rightarrow> string option"

definition ResolveImage :: "Builder \<Rightarrow> Request \<Rightarrow> string \<Rightarrow> buildError + string" where
  "ResolveImage b req prebuilt =
     (if prebuilt \<noteq> '''' then Inr prebuilt
      else if bq_Repo req = '''' then Inl NoSource
      else case b req of None \<Rightarrow> Inl BuildFailed
           | Some imageRef \<Rightarrow> if imageRef = '''' then Inl EmptyImageRef else Inr imageRef)"

section \<open>Slugs\<close>

definition toLower :: "char \<Rightarrow> char" where
  "toLower c = (let n = of_char c :: nat in if 65 \<le> n \<and> n \<le> 90 then char_of (n + 32) else c)"

definition slugChar :: "char \<Rightarrow> bool" where
  "slugChar c = (let n = of_char c :: nat in (97 \<le> n \<and> n \<le> 122) \<or> (48 \<le> n \<and> n \<le> 57) \<or> c = CHR ''-'')"

text \<open>The loop, with whether the last byte written is a dash.\<close>

fun slugLoop :: "bool \<Rightarrow> string \<Rightarrow> string" where
  "slugLoop prevDash [] = []"
| "slugLoop prevDash (r # rs) =
     (if slugChar r then r # slugLoop (r = CHR ''-'') rs
      else if prevDash then slugLoop True rs
      else CHR ''-'' # slugLoop True rs)"

definition TrimDash :: "string \<Rightarrow> string" where
  "TrimDash s = TrimRight (dropWhile (\<lambda>c. c = CHR ''-'') s) (CHR ''-'')"

definition slug :: "string \<Rightarrow> string" where
  "slug s = (let out = TrimDash (slugLoop False (map toLower s)) in if out = '''' then ''service'' else out)"

definition NoOp :: Builder where
  "NoOp req = Some (''conductor.local/'' @ slug (bq_Project req) @ ''/'' @ slug (bq_Service req) @ '':source'')"

section \<open>A slug is a path segment\<close>

lemma slugLoop_chars: "c \<in> set (slugLoop d s) \<Longrightarrow> slugChar c"
  by (induction s arbitrary: d) (auto simp: slugChar_def split: if_splits)

lemma slugChar_lower: "slugChar c \<Longrightarrow> toLower c = c"
  by (auto simp: slugChar_def toLower_def Let_def)

lemma slugLoop_id: "\<forall>c \<in> set s. slugChar c \<Longrightarrow> slugLoop d s = s"
  by (induction s arbitrary: d) auto

lemma TrimDash_subset: "c \<in> set (TrimDash s) \<Longrightarrow> c \<in> set s"
  unfolding TrimDash_def TrimRight_def by (metis set_dropWhileD set_rev)

lemma TrimRight_last: "TrimRight s c \<noteq> [] \<Longrightarrow> last (TrimRight s c) \<noteq> c"
  unfolding TrimRight_def using hd_dropWhile [of "\<lambda>x. x = c" "rev s"] by (simp add: last_rev)

lemma TrimRight_hd: "TrimRight s c \<noteq> [] \<Longrightarrow> hd (TrimRight s c) = hd s"
proof -
  assume ne: "TrimRight s c \<noteq> []"
  have "s = TrimRight s c @ rev (takeWhile (\<lambda>x. x = c) (rev s))"
    unfolding TrimRight_def by (metis rev_append rev_rev_ident takeWhile_dropWhile_id)
  with ne show ?thesis by (metis hd_append2)
qed

lemma TrimDash_ends:
  assumes "TrimDash s \<noteq> []"
  shows "hd (TrimDash s) \<noteq> CHR ''-''" "last (TrimDash s) \<noteq> CHR ''-''"
proof -
  define t where "t = dropWhile (\<lambda>c. c = CHR ''-'') s"
  have trim: "TrimDash s = TrimRight t CHR ''-''" by (simp add: TrimDash_def t_def)
  with assms have "t \<noteq> []" by (auto simp: TrimRight_def)
  then have "hd t \<noteq> CHR ''-''"
    unfolding t_def using hd_dropWhile [of "\<lambda>c. c = CHR ''-''" s] by blast
  with assms show "hd (TrimDash s) \<noteq> CHR ''-''" "last (TrimDash s) \<noteq> CHR ''-''"
    unfolding trim using TrimRight_hd TrimRight_last by auto
qed

lemma dropWhile_hd: "s = [] \<or> \<not> P (hd s) \<Longrightarrow> dropWhile P s = s"
  by (cases s) auto

lemma TrimDash_id: "hd s \<noteq> CHR ''-'' \<Longrightarrow> last s \<noteq> CHR ''-'' \<Longrightarrow> TrimDash s = s"
  by (cases "s = []") (simp_all add: TrimDash_def TrimRight_def dropWhile_hd hd_rev)

definition segment :: "string \<Rightarrow> bool" where
  "segment s \<longleftrightarrow> s \<noteq> '''' \<and> (\<forall>c \<in> set s. slugChar c) \<and> hd s \<noteq> CHR ''-'' \<and> last s \<noteq> CHR ''-''"

lemma slug_segment: "segment (slug s)"
proof (cases "TrimDash (slugLoop False (map toLower s)) = ''''")
  case True
  then have "slug s = ''service''" by (simp add: slug_def)
  then show ?thesis by (simp add: segment_def slugChar_def)
next
  case False
  then have "slug s = TrimDash (slugLoop False (map toLower s))" by (simp add: slug_def)
  with False show ?thesis
    by (auto simp: segment_def TrimDash_ends dest: TrimDash_subset slugLoop_chars)
qed

lemma slug_of_segment: "segment s \<Longrightarrow> slug s = s"
proof -
  assume s: "segment s"
  then have "map toLower s = s" by (auto simp: segment_def slugChar_lower intro: map_idI)
  with s show ?thesis by (simp add: slug_def segment_def slugLoop_id TrimDash_id)
qed

text \<open>
  The reference the default builder synthesizes is a well-formed image path: under the local prefix,
  the project's and the service's slugs, each nonempty, of lower-case letters, digits and dashes only,
  with no dash at either end. Slugging keeps every name that is already such a segment, so distinct
  projects and services with such names never share an image.
\<close>

theorem noop_image_wellformed:
  "(\<exists>p s. NoOp req = Some (''conductor.local/'' @ p @ ''/'' @ s @ '':source'') \<and> segment p \<and> segment s
      \<and> (segment (bq_Project req) \<longrightarrow> p = bq_Project req) \<and> (segment (bq_Service req) \<longrightarrow> s = bq_Service req))"
  by (intro exI [of _ "slug (bq_Project req)"] exI [of _ "slug (bq_Service req)"])
    (simp add: NoOp_def slug_segment slug_of_segment)

end
