(* ===== verification/GoFlags.thy ===== *)
theory GoFlags
  imports GoStrings
begin

text \<open>
  What the command line uses of packages \<^verbatim>\<open>flag\<close> and \<^verbatim>\<open>strconv\<close>. A flag set is the kinds of the names it
  declares; parsing yields the assignments in the order of the arguments, and the arguments left. Two
  names bound to one variable are one variable: the last assignment to either holds.
\<close>

datatype flagKind = StringFlag | BoolFlag | IntFlag

datatype flagValue = StringValue string | BoolValue bool | IntValue int

datatype flagError = BadSyntax string | NotDefined string | HelpWanted | NeedsArgument string | BadValue string

type_synonym flagNames = "string \<Rightarrow> flagKind option"
type_synonym assignments = "(string \<times> flagValue) list"

section \<open>Values\<close>

definition ParseBool :: "string \<Rightarrow> bool option" where
  "ParseBool s =
     (if s \<in> set [''1'', ''t'', ''T'', ''TRUE'', ''true'', ''True''] then Some True
      else if s \<in> set [''0'', ''f'', ''F'', ''FALSE'', ''false'', ''False''] then Some False
      else None)"

text \<open>\<^verbatim>\<open>strconv.ParseInt(s, 0, 64)\<close>: the base is the prefix's, and underscores may separate digits.\<close>

definition lower :: "char \<Rightarrow> char" where
  "lower c = (let n = of_char c :: nat in if 65 \<le> n \<and> n \<le> 90 then char_of (n + 32) else c)"

definition base_digit :: "char \<Rightarrow> int option" where
  "base_digit c =
     (let n = int (of_char (lower c))
      in if 48 \<le> n \<and> n \<le> 57 then Some (n - 48) else if 97 \<le> n \<and> n \<le> 122 then Some (n - 87) else None)"

fun base_val :: "int \<Rightarrow> int \<Rightarrow> string \<Rightarrow> int option" where
  "base_val base acc [] = Some acc"
| "base_val base acc (c # cs) =
     (if c = CHR ''_'' then base_val base acc cs
      else case base_digit c of
             None \<Rightarrow> None
           | Some d \<Rightarrow> if d < base then base_val base (acc * base + d) cs else None)"

definition splitBase :: "string \<Rightarrow> int \<times> string" where
  "splitBase s =
     (if s \<noteq> [] \<and> hd s = CHR ''0''
      then if length s \<ge> 3 \<and> lower (s ! 1) = CHR ''b'' then (2, drop 2 s)
           else if length s \<ge> 3 \<and> lower (s ! 1) = CHR ''o'' then (8, drop 2 s)
           else if length s \<ge> 3 \<and> lower (s ! 1) = CHR ''x'' then (16, drop 2 s)
           else (8, drop 1 s)
      else (10, s))"

datatype seen = SeenStart | SeenDigit | SeenUnderscore | SeenOther

fun underscoresOK :: "bool \<Rightarrow> seen \<Rightarrow> string \<Rightarrow> bool" where
  "underscoresOK hex saw [] \<longleftrightarrow> saw \<noteq> SeenUnderscore"
| "underscoresOK hex saw (c # cs) \<longleftrightarrow>
     (let n = of_char c :: nat; l = of_char (lower c) :: nat
      in if (48 \<le> n \<and> n \<le> 57) \<or> (hex \<and> 97 \<le> l \<and> l \<le> 102) then underscoresOK hex SeenDigit cs
         else if c = CHR ''_'' then saw = SeenDigit \<and> underscoresOK hex SeenUnderscore cs
         else saw \<noteq> SeenUnderscore \<and> underscoresOK hex SeenOther cs)"

definition underscoreOK :: "string \<Rightarrow> bool" where
  "underscoreOK s =
     (if length s \<ge> 2 \<and> hd s = CHR ''0'' \<and> lower (s ! 1) \<in> set [CHR ''b'', CHR ''o'', CHR ''x'']
      then underscoresOK (lower (s ! 1) = CHR ''x'') SeenDigit (drop 2 s)
      else underscoresOK False SeenStart s)"

definition ParseInt0 :: "string \<Rightarrow> int option" where
  "ParseInt0 s =
     (let neg = (s \<noteq> [] \<and> hd s = CHR ''-'');
          body = (if s \<noteq> [] \<and> (hd s = CHR ''-'' \<or> hd s = CHR ''+'') then tl s else s)
      in if body = [] then None
         else let (base, digits) = splitBase body
              in case base_val base 0 digits of
                   None \<Rightarrow> None
                 | Some n \<Rightarrow> if CHR ''_'' \<in> set digits \<and> \<not> underscoreOK body then None
                     else let v = (if neg then - n else n) in if is_int64 v then Some v else None)"

definition setFlag :: "flagKind \<Rightarrow> string \<Rightarrow> string \<Rightarrow> flagError + flagValue" where
  "setFlag kind name v = (case kind of
       StringFlag \<Rightarrow> Inr (StringValue v)
     | BoolFlag \<Rightarrow> (case ParseBool v of None \<Rightarrow> Inl (BadValue name) | Some b \<Rightarrow> Inr (BoolValue b))
     | IntFlag \<Rightarrow> (case ParseInt0 v of None \<Rightarrow> Inl (BadValue name) | Some n \<Rightarrow> Inr (IntValue n)))"

section \<open>Parsing\<close>

text \<open>A name and what follows an equals sign that is not the first byte.\<close>

definition splitFlag :: "string \<Rightarrow> string \<times> string option" where
  "splitFlag name = (let (n, v, ok) = Cut (tl name) CHR ''='' in if ok then (hd name # n, Some v) else (name, None))"

text \<open>Parsing stops at the first argument that is no flag, and after a double dash.\<close>

fun parseFlags :: "flagNames \<Rightarrow> string list \<Rightarrow> flagError + assignments \<times> string list" where
  "parseFlags flags [] = Inr ([], [])"
| "parseFlags flags (s # args) =
     (if length s < 2 \<or> hd s \<noteq> CHR ''-'' then Inr ([], s # args)
      else if s = ''--'' then Inr ([], args)
      else
        let name = (if s ! 1 = CHR ''-'' then drop 2 s else drop 1 s)
        in if name = [] \<or> hd name = CHR ''-'' \<or> hd name = CHR ''='' then Inl (BadSyntax s)
           else
             let (n, value) = splitFlag name
             in case flags n of
                  None \<Rightarrow> if n = ''help'' \<or> n = ''h'' then Inl HelpWanted else Inl (NotDefined n)
                | Some BoolFlag \<Rightarrow>
                    (case setFlag BoolFlag n (case value of None \<Rightarrow> ''true'' | Some v \<Rightarrow> v) of
                       Inl e \<Rightarrow> Inl e
                     | Inr v \<Rightarrow> map_sum id (\<lambda>(vs, rest). ((n, v) # vs, rest)) (parseFlags flags args))
                | Some kind \<Rightarrow>
                    (case value of
                       Some t \<Rightarrow>
                         (case setFlag kind n t of
                            Inl e \<Rightarrow> Inl e
                          | Inr v \<Rightarrow> map_sum id (\<lambda>(vs, rest). ((n, v) # vs, rest)) (parseFlags flags args))
                     | None \<Rightarrow>
                         (case args of
                            [] \<Rightarrow> Inl (NeedsArgument n)
                          | t # args' \<Rightarrow>
                              (case setFlag kind n t of
                                 Inl e \<Rightarrow> Inl e
                               | Inr v \<Rightarrow> map_sum id (\<lambda>(vs, rest). ((n, v) # vs, rest)) (parseFlags flags args')))))"

text \<open>The variables after parsing: the last assignment to one of their names, or the default.\<close>

definition lastSet :: "string list \<Rightarrow> assignments \<Rightarrow> flagValue option" where
  "lastSet names vs = map_option snd (find (\<lambda>(n, v). n \<in> set names) (rev vs))"

definition stringVar :: "string list \<Rightarrow> string \<Rightarrow> assignments \<Rightarrow> string" where
  "stringVar names def vs = (case lastSet names vs of Some (StringValue s) \<Rightarrow> s | _ \<Rightarrow> def)"

definition boolVar :: "string list \<Rightarrow> bool \<Rightarrow> assignments \<Rightarrow> bool" where
  "boolVar names def vs = (case lastSet names vs of Some (BoolValue b) \<Rightarrow> b | _ \<Rightarrow> def)"

definition intVar :: "string list \<Rightarrow> int \<Rightarrow> assignments \<Rightarrow> int" where
  "intVar names def vs = (case lastSet names vs of Some (IntValue n) \<Rightarrow> n | _ \<Rightarrow> def)"

section \<open>Arguments that spell their flags out are read back\<close>

text \<open>\<open>spell\<close> writes assignments the way \<open>-name value\<close> does.\<close>

fun spell :: "(string \<times> string) list \<Rightarrow> string list" where
  "spell [] = []"
| "spell ((n, v) # vs) = (CHR ''-'' # n) # v # spell vs"

definition flag_name :: "string \<Rightarrow> bool" where
  "flag_name n \<longleftrightarrow> n \<noteq> [] \<and> hd n \<noteq> CHR ''-'' \<and> hd n \<noteq> CHR ''='' \<and> CHR ''='' \<notin> set (tl n)"

lemma splitFlag_name: "flag_name n \<Longrightarrow> splitFlag n = (n, None)"
  by (simp add: flag_name_def splitFlag_def Cut_def)

definition stops :: "string list \<Rightarrow> bool" where
  "stops args \<longleftrightarrow> args = [] \<or> length (hd args) < 2 \<or> hd (hd args) \<noteq> CHR ''-''"

lemma parseFlags_stops: "stops args \<Longrightarrow> parseFlags flags args = Inr ([], args)"
  by (cases args) (auto simp: stops_def)

lemma parseFlags_spell:
  assumes "\<forall>(n, v) \<in> set vs. flag_name n \<and> flags n = Some StringFlag" "stops rest"
  shows "parseFlags flags (spell vs @ rest) = Inr (map (\<lambda>(n, v). (n, StringValue v)) vs, rest)"
  using assms(1)
proof (induction vs)
  case Nil
  with assms(2) show ?case by (simp add: parseFlags_stops)
next
  case (Cons p vs)
  obtain n v where p: "p = (n, v)" by (cases p)
  with Cons have n: "flag_name n" "flags n = Some StringFlag"
    and ih: "parseFlags flags (spell vs @ rest) = Inr (map (\<lambda>(n, v). (n, StringValue v)) vs, rest)"
    by auto
  then have "n \<noteq> []" "hd n \<noteq> CHR ''-''" "hd n \<noteq> CHR ''=''" by (auto simp: flag_name_def)
  then obtain c cs where "n = c # cs" "c \<noteq> CHR ''-''" "c \<noteq> CHR ''=''" by (cases n) auto
  with n ih p show ?case
    by (simp add: splitFlag_name setFlag_def del: parseFlags.simps) (subst parseFlags.simps, simp add: splitFlag_name setFlag_def del: parseFlags.simps)
qed

lemma ParseInt0_range: "ParseInt0 s = Some n \<Longrightarrow> is_int64 n"
  by (auto simp: ParseInt0_def Let_def split: if_splits option.splits prod.splits)

end
