(* ===== verification/StatusView.thy ===== *)
theory StatusView
  imports Project
begin

text \<open>
  Package \<^verbatim>\<open>internal/status\<close>: the observed-against-desired table of a project. The report is its header and,
  per environment, the cells of a table; the alignment of the columns is \<^verbatim>\<open>text/tabwriter\<close>'s. An em dash is
  its three bytes.
\<close>

section \<open>Reading\<close>

definition FetchStatus :: "(nat \<Rightarrow> database \<Rightarrow> database) \<Rightarrow> Target \<Rightarrow> (projectError, database, ProjectStatusRow list) steps" where
  "FetchStatus env t =
     run_bind (stmt env (GetProject (tg_Project t))) (\<lambda>_.
     run_bind (if tg_Environment t \<noteq> ''''
               then run_bind (stmt env (GetEnvironment (tg_Project t) (tg_Environment t))) (\<lambda>_. run_ok ())
               else run_ok ()) (\<lambda>_.
     run_bind (if tg_Service t \<noteq> ''''
               then run_bind (stmt env (GetService (tg_Project t) (tg_Service t))) (\<lambda>_. run_ok ())
               else run_ok ()) (\<lambda>_.
       stmt env (ProjectStatus (tg_Project t) (tg_Environment t) (tg_Service t)))))"

section \<open>Cells\<close>

definition emDash :: string where "emDash = bytes [226, 128, 148]"

definition kindOf :: "bool \<Rightarrow> string" where
  "kindOf stateful = (if stateful then ''stateful'' else ''service'')"

definition deployLabel :: "int option \<Rightarrow> string" where
  "deployLabel v = (case v of None \<Rightarrow> emDash | Some n \<Rightarrow> CHR ''v'' # itoa n)"

definition nullText :: "DeploymentStatus option \<Rightarrow> string" where
  "nullText s = (case s of None \<Rightarrow> '''' | Some x \<Rightarrow> DeploymentStatus_string x)"

definition orDash :: "DeploymentStatus option \<Rightarrow> string" where
  "orDash s = (if s = None \<or> nullText s = '''' then emDash else nullText s)"

definition statusLabel :: "ProjectStatusRow \<Rightarrow> string" where
  "statusLabel r =
     (let label = orDash (ps_DeployStatus r)
      in if nullText (ps_DeployStatus r) = DeploymentStatus_string DeploymentActive
            \<and> ps_DesiredReplicas r > 0 \<and> ps_HealthyReplicas r < ps_DesiredReplicas r
         then label @ '' (degraded)'' else label)"

definition dash :: "string \<Rightarrow> string" where
  "dash s = (if s = '''' then ''-'' else s)"

definition Scope :: "Target \<Rightarrow> string list" where
  "Scope t =
     (if tg_Service t \<noteq> '''' then [''service'', tg_Service t, tg_Project t, dash (tg_Environment t)]
      else if tg_Environment t \<noteq> '''' then [''environment'', tg_Environment t, tg_Project t]
      else [''project'', tg_Project t])"

definition statusCells :: "ProjectStatusRow \<Rightarrow> string list" where
  "statusCells r = [ps_Service r, kindOf (ps_Stateful r), deployLabel (ps_DeployVersion r), statusLabel r,
     itoa (ps_DesiredReplicas r), itoa (ps_HealthyReplicas r) @ ''/'' @ itoa (ps_ObservedReplicas r)]"

section \<open>Sections\<close>

text \<open>The inner loop takes the rows of one environment, the outer one starts the next section.\<close>

function renderSections :: "ProjectStatusRow list \<Rightarrow> (string \<times> string list list) list" where
  "renderSections [] = []"
| "renderSections (r # rows) =
     (let same = (\<lambda>x. ps_Environment x = ps_Environment r)
      in (ps_Environment r, map statusCells (r # takeWhile same rows)) # renderSections (dropWhile same rows))"
  by pat_completeness auto
termination
  by (relation "measure length") (auto simp: less_Suc_eq_le length_dropWhile_le)

section \<open>Every environment has one section\<close>

lemma sorted_split:
  fixes xs :: "('a :: linorder) list"
  assumes "sorted (x # xs)"
  shows "x \<notin> set (dropWhile (\<lambda>y. y = x) xs)"
  using assms by (induction xs) auto

lemma sorted_dropWhile: "sorted xs \<Longrightarrow> sorted (dropWhile P xs)"
  by (induction xs) auto

lemma map_takeDrop:
  "map f (takeWhile (\<lambda>x. P (f x)) xs) = takeWhile P (map f xs)"
  "map f (dropWhile (\<lambda>x. P (f x)) xs) = dropWhile P (map f xs)"
  by (induction xs) auto

lemma renderSections_envs: "set (map fst (renderSections rows)) = set (map ps_Environment rows)"
proof (induction rows rule: renderSections.induct)
  case (2 r rows)
  have "set (map ps_Environment rows)
      = set (map ps_Environment (takeWhile (\<lambda>x. ps_Environment x = ps_Environment r) rows))
        \<union> set (map ps_Environment (dropWhile (\<lambda>x. ps_Environment x = ps_Environment r) rows))"
    by (metis map_append set_append takeWhile_dropWhile_id)
  moreover have "set (map ps_Environment (takeWhile (\<lambda>x. ps_Environment x = ps_Environment r) rows)) \<subseteq> {ps_Environment r}"
    by (auto dest: set_takeWhileD)
  ultimately show ?case using 2 by (auto simp: Let_def)
qed simp

lemma renderSections_rows: "concat (map snd (renderSections rows)) = map statusCells rows"
proof (induction rows rule: renderSections.induct)
  case (2 r rows)
  have "map statusCells rows = map statusCells (takeWhile (\<lambda>x. ps_Environment x = ps_Environment r) rows)
      @ map statusCells (dropWhile (\<lambda>x. ps_Environment x = ps_Environment r) rows)"
    by (metis map_append takeWhile_dropWhile_id)
  with 2 show ?case by (simp add: Let_def)
qed simp

lemma renderSections_distinct: "sorted (map ps_Environment rows) \<Longrightarrow> distinct (map fst (renderSections rows))"
proof (induction rows rule: renderSections.induct)
  case (2 r rows)
  let ?rest = "dropWhile (\<lambda>x. ps_Environment x = ps_Environment r) rows"
  have rest: "map ps_Environment ?rest = dropWhile (\<lambda>y. y = ps_Environment r) (map ps_Environment rows)"
    by (rule map_takeDrop(2))
  have "sorted (map ps_Environment ?rest)"
    unfolding rest using 2(2) by (simp add: sorted_dropWhile)
  moreover have "ps_Environment r \<notin> set (map ps_Environment ?rest)"
    unfolding rest using sorted_split [of "ps_Environment r" "map ps_Environment rows"] 2(2) by simp
  ultimately show ?case
    using 2(1) [OF refl] renderSections_envs [of ?rest] by (simp add: Let_def)
qed simp

lemma ProjectStatus_sorted:
  assumes "ProjectStatus p e s db = Inr (rows, db')"
  shows "sorted (map ps_Environment rows)"
proof -
  have "sorted (map (\<lambda>r. (ps_Environment r, ps_Service r)) rows)"
    using assms by (auto simp: ProjectStatus_def q_ProjectStatus_def query_def)
  then show ?thesis
    by (induction rows) (auto simp: less_eq_prod_def)
qed

lemma FetchStatus_rows:
  assumes "FetchStatus quiet t (k, db) = (Inr rows, ks)"
  shows "ProjectStatus (tg_Project t) (tg_Environment t) (tg_Service t) db = Inr (rows, db) \<and> snd ks = db"
  using assms
  by (auto simp: FetchStatus_def run_bind_def run_ok_def stmt_def st_def WithTx_def quiet_def Let_def GetProject_def
      GetEnvironment_def GetService_def q_GetProject_def q_GetEnvironment_def q_GetService_def ProjectStatus_def q_ProjectStatus_def query_def queryRow_def mapError_def
      split: sum.splits if_splits prod.splits list.splits)

section \<open>The report\<close>

text \<open>
  An undisturbed status report shows every matching row of the database once, in order, and groups them
  so that no environment is split over two sections; reading changes nothing.
\<close>

theorem status_sections:
  assumes "FetchStatus quiet t (k, db) = (Inr rows, ks)"
  shows "distinct (map fst (renderSections rows)) \<and> concat (map snd (renderSections rows)) = map statusCells rows
    \<and> set (map fst (renderSections rows)) = set (map ps_Environment rows) \<and> snd ks = db"
  using FetchStatus_rows [OF assms] ProjectStatus_sorted renderSections_distinct renderSections_rows renderSections_envs by blast

end
