(* ===== verification/Cli.thy ===== *)
theory Cli
  imports FolderLink Settings Builder GoFlags StatusView
begin

text \<open>
  The frame of the command line (\<^verbatim>\<open>cmd/control/control.go\<close>): the process and what it acts on, the errors and
  their exit codes, the resolution of the target, and what \<^verbatim>\<open>up\<close> and \<^verbatim>\<open>config\<close> take from the spec file.

  A \<open>machine\<close> is what a process finds and cannot change: environment, working directory, standard input,
  whether the database answers, what other writers commit (\<open>mc_Writers\<close>), the builder an embedder plugs
  in, and the encoders and decoders of JSON and TOML. A \<open>world\<close> is what it changes: the disk, the store
  with the number of transactions run so far, and the messages printed.
\<close>

section \<open>The process\<close>

record RepoSource =
  so_Image :: string
  so_Repo :: string

record machine =
  mc_Getenv :: "string \<Rightarrow> string"
  mc_Cwd :: path
  mc_GetwdOK :: bool
  mc_Stdin :: "string option"
  mc_Reachable :: "string \<Rightarrow> bool"
  mc_Writers :: "nat \<Rightarrow> database \<Rightarrow> database"
  mc_Link :: linkCodec
  mc_MarshalSource :: "RepoSource \<Rightarrow> string"
  mc_UnmarshalSource :: "string \<Rightarrow> RepoSource option"
  mc_Toml :: "string \<Rightarrow> (Spec \<times> string list) option"
  mc_Builder :: Builder

text \<open>The messages, by what they say; the fields are what their formats insert.\<close>

datatype message =
    UsageText | VersionText
  | CreatedProject string path
  | LinkedTo path Target | Unlinked path | LinkedToService path string
  | SpecReport Target "path option" "((string \<times> string) list \<times> (string \<times> string) list) option"
  | AddedService string string Target
  | NoEnvironmentSelected string | CurrentEnvironment string | NoEnvironments string
  | EnvironmentLine bool string | CreatedEnvironment string string string nat | SelectedEnvironment string path
  | NoServices string string | ServiceLine string string | LinkedAndSelected path string | SelectedService string path
  | Deployed Target int string int string
  | RolledBack Target int int
  | Aborted | ScaledDown Target | Scaled Target string
  | AddedVolume string string string | Resizing string string | NotPlacedYet | HostIsShort string | HostHasRoom
  | Reverted string string | RemovedVolume string | NoVolumes Target | VolumeTable "string list list"
  | NothingMatches "string list" | StatusTable string "(string \<times> string list list) list"

record world =
  w_Disk :: file_system
  w_Store :: "nat \<times> database"
  w_Out :: "message list"

section \<open>Errors and exit codes\<close>

datatype usage =
    BadFlags flagError | UnexpectedArgument string | MissingTarget "string list" | ProjectRequired | NameRequired
  | OneKindRequired | EngineOnlyForDatabase | StatefulRedundant | SourceOnlyForService | UnknownEngine string
  | ImageAndRepo | UnknownSubcommand string | SubcommandRequired | CreateNeedsName | SelectNeedsName | NoLinkHere
  | BadPair | NoPairs | BadVersion | MountRequired | SizeNegative | SizeRequired | TakesNoArguments

datatype failure =
    ConnectFailed | StoreFailed projectError | LinkFailed linkError | NoDirectory | SpecMissing string
  | SpecInvalid loadError | NoImage buildError | SourceUnreadable

datatype cliError = HelpShown | UsageError usage | Failed failure

definition exitCode :: "cliError + unit \<Rightarrow> int" where
  "exitCode r = (case r of Inr _ \<Rightarrow> 0 | Inl HelpShown \<Rightarrow> 0 | Inl (UsageError _) \<Rightarrow> 2 | Inl (Failed _) \<Rightarrow> 1)"

section \<open>Sequencing\<close>

type_synonym 'a cli = "world \<Rightarrow> (cliError + 'a) \<times> world"

definition cli_ok :: "'a \<Rightarrow> 'a cli" where
  "cli_ok x w = (Inr x, w)"

definition cli_err :: "cliError \<Rightarrow> 'a cli" where
  "cli_err e w = (Inl e, w)"

definition cli_bind :: "'a cli \<Rightarrow> ('a \<Rightarrow> 'b cli) \<Rightarrow> 'b cli" where
  "cli_bind p f w = (case p w of (Inl e, w') \<Rightarrow> (Inl e, w') | (Inr x, w') \<Rightarrow> f x w')"

definition cli_seq :: "'a cli \<Rightarrow> 'b cli \<Rightarrow> 'b cli" where
  "cli_seq p q = cli_bind p (\<lambda>_. q)"

fun cli_each :: "('a \<Rightarrow> unit cli) \<Rightarrow> 'a list \<Rightarrow> unit cli" where
  "cli_each f [] = cli_ok ()"
| "cli_each f (x # xs) = cli_seq (f x) (cli_each f xs)"

abbreviation usageErr :: "usage \<Rightarrow> 'a cli" where
  "usageErr u \<equiv> cli_err (UsageError u)"

definition say :: "message \<Rightarrow> unit cli" where
  "say x w = (Inr (), w\<lparr>w_Out := w_Out w @ [x]\<rparr>)"

definition onStore :: "(projectError, database, 'a) steps \<Rightarrow> 'a cli" where
  "onStore s w = (case s (w_Store w) of
       (Inl e, ks) \<Rightarrow> (Inl (Failed (StoreFailed e)), w\<lparr>w_Store := ks\<rparr>)
     | (Inr x, ks) \<Rightarrow> (Inr x, w\<lparr>w_Store := ks\<rparr>))"

definition getDisk :: "file_system cli" where
  "getDisk w = (Inr (w_Disk w), w)"

definition connect :: "machine \<Rightarrow> Config \<Rightarrow> unit cli" where
  "connect m cfg = (if mc_Reachable m (cf_DatabaseURL cfg) then cli_ok () else cli_err (Failed ConnectFailed))"

definition getwd :: "machine \<Rightarrow> path option" where
  "getwd m = (if mc_GetwdOK m then Some (mc_Cwd m) else None)"

definition workDir :: "machine \<Rightarrow> path cli" where
  "workDir m = (case getwd m of None \<Rightarrow> cli_err (Failed NoDirectory) | Some dir \<Rightarrow> cli_ok dir)"

definition save :: "machine \<Rightarrow> path \<Rightarrow> Target \<Rightarrow> unit cli" where
  "save m dir l w =
     (let (ok, d') = SaveLink (mc_Link m) dir l (w_Disk w)
      in (if ok then Inr () else Inl (Failed (LinkFailed WriteFailed)), w\<lparr>w_Disk := d'\<rparr>))"

section \<open>Flags\<close>

text \<open>\<^verbatim>\<open>parse\<close>: a request for help prints the usage and is no failure, any other error is one of usage.\<close>

definition parseArgs :: "(string \<times> flagKind) list \<Rightarrow> string list \<Rightarrow> (assignments \<times> string list) cli" where
  "parseArgs flags args =
     (case parseFlags (map_of flags) args of
        Inr r \<Rightarrow> cli_ok r
      | Inl HelpWanted \<Rightarrow> cli_seq (say UsageText) (cli_err HelpShown)
      | Inl e \<Rightarrow> usageErr (BadFlags e))"

definition projectFlags :: "(string \<times> flagKind) list" where
  "projectFlags = [(''p'', StringFlag), (''project'', StringFlag)]"

definition environmentFlags :: "(string \<times> flagKind) list" where
  "environmentFlags = [(''e'', StringFlag), (''environment'', StringFlag)]"

definition serviceFlags :: "(string \<times> flagKind) list" where
  "serviceFlags = [(''s'', StringFlag), (''service'', StringFlag)]"

definition targetFlags :: "(string \<times> flagKind) list" where
  "targetFlags = projectFlags @ environmentFlags @ serviceFlags"

definition flagTarget :: "assignments \<Rightarrow> Target" where
  "flagTarget vs = \<lparr>tg_Project = stringVar [''p'', ''project''] '''' vs,
     tg_Environment = stringVar [''e'', ''environment''] '''' vs, tg_Service = stringVar [''s'', ''service''] '''' vs\<rparr>"

definition splitSubcommand :: "string list \<Rightarrow> string \<times> string list" where
  "splitSubcommand args = (if args = [] \<or> hasPrefix (hd args) ''-'' then ('''', args) else (hd args, tl args))"

section \<open>The target\<close>

definition orFallback :: "string \<Rightarrow> string \<Rightarrow> string" where
  "orFallback val fallback = (if val \<noteq> '''' then val else fallback)"

definition fillTarget :: "Target \<Rightarrow> Target \<Rightarrow> Target" where
  "fillTarget t l = \<lparr>tg_Project = orFallback (tg_Project t) (tg_Project l),
     tg_Environment = orFallback (tg_Environment t) (tg_Environment l), tg_Service = orFallback (tg_Service t) (tg_Service l)\<rparr>"

definition configTarget :: "Config \<Rightarrow> Target" where
  "configTarget cfg = \<lparr>tg_Project = cf_Project cfg, tg_Environment = cf_Environment cfg, tg_Service = cf_Service cfg\<rparr>"

definition resolve :: "machine \<Rightarrow> Config \<Rightarrow> Target \<Rightarrow> bool \<Rightarrow> file_system \<Rightarrow> Target" where
  "resolve m cfg t useLink d =
     (let t = fillTarget t (configTarget cfg)
      in if \<not> useLink then t
         else case LoadLink (mc_Link m) (getwd m) d of
                Inr (Some (l, _)) \<Rightarrow> fillTarget t l
              | _ \<Rightarrow> t)"

definition resolveProject :: "machine \<Rightarrow> Config \<Rightarrow> Target \<Rightarrow> file_system \<Rightarrow> Target" where
  "resolveProject m cfg t d =
     (let t = t\<lparr>tg_Project := orFallback (tg_Project t) (cf_Project cfg)\<rparr>
      in if tg_Project t \<noteq> '''' then t
         else case LoadLink (mc_Link m) (getwd m) d of
                Inr (Some (l, _)) \<Rightarrow> t\<lparr>tg_Project := tg_Project l\<rparr>
              | _ \<Rightarrow> t)"

text \<open>Everything missing at once.\<close>

definition missingTarget :: "Target \<Rightarrow> bool \<Rightarrow> bool \<Rightarrow> string list" where
  "missingTarget t environment service =
     (if tg_Project t = '''' then [VarProject] else [])
     @ (if environment \<and> tg_Environment t = '''' then [VarEnvironment] else [])
     @ (if service \<and> tg_Service t = '''' then [VarService] else [])"

definition require :: "Target \<Rightarrow> bool \<Rightarrow> bool \<Rightarrow> unit cli" where
  "require t environment service =
     (let missing = missingTarget t environment service
      in if missing \<noteq> [] then usageErr (MissingTarget missing) else cli_ok ())"

text \<open>The beginning most commands share: parse, resolve, require.\<close>

definition withTarget ::
  "machine \<Rightarrow> Config \<Rightarrow> assignments \<Rightarrow> bool \<Rightarrow> bool \<Rightarrow> Target cli" where
  "withTarget m cfg vs environment service =
     cli_bind getDisk (\<lambda>d.
       let t = resolve m cfg (flagTarget vs) True d in cli_seq (require t environment service) (cli_ok t))"

section \<open>Paths as text\<close>

fun splitSlash :: "string \<Rightarrow> string \<Rightarrow> string list" where
  "splitSlash acc [] = [rev acc]"
| "splitSlash acc (c # cs) = (if c = CHR ''/'' then rev acc # splitSlash [] cs else splitSlash (c # acc) cs)"

definition resolvePath :: "path \<Rightarrow> string \<Rightarrow> path" where
  "resolvePath cwd s =
     foldl (\<lambda>p c. if c = '''' \<or> c = ''.'' then p else if c = ''..'' then tl p else c # p)
       (if hasPrefix s ''/'' then [] else cwd) (splitSlash [] s)"

definition pathText :: "path \<Rightarrow> string" where
  "pathText p = (if p = [] then ''/'' else concat (map (\<lambda>c. CHR ''/'' # c) (rev p)))"

section \<open>The spec file\<close>

definition FileName :: string where "FileName = ''config.toml''"

definition loadSpec :: "machine \<Rightarrow> file_system \<Rightarrow> path \<Rightarrow> loadError + Spec" where
  "loadSpec m d p = Load (\<lambda>p. case ReadFile d p of None \<Rightarrow> None | Some s \<Rightarrow> mc_Toml m s) p"

text \<open>\<^verbatim>\<open>os.IsNotExist\<close> of a stat: the path is absent, and not because a file stands on the way to it.\<close>

definition notExist :: "file_system \<Rightarrow> path \<Rightarrow> bool" where
  "notExist d p \<longleftrightarrow> \<not> dk_refuses d SysStat p \<and> nodeAt d p = None \<and> list_all (\<lambda>a. \<not> isFile (nodeAt d a)) (ancestors p)"

definition writeField :: "string \<Rightarrow> string \<Rightarrow> (string \<times> string) list" where
  "writeField key val = (if val = '''' then [] else [(key, val)])"

definition orAuto :: "string \<Rightarrow> string" where
  "orAuto b = (if b = '''' then ''(autodetect)'' else b)"

fun joinComma :: "string list \<Rightarrow> string" where
  "joinComma [] = ''''"
| "joinComma [x] = x"
| "joinComma (x # xs) = x @ '', '' @ joinComma xs"

definition writeBuild :: "Build \<Rightarrow> (string \<times> string) list" where
  "writeBuild b =
     writeField ''builder'' (orAuto (bd_Builder b)) @ writeField ''dockerfile'' (bd_Dockerfile b)
     @ writeField ''build_command'' (bd_BuildCommand b) @ writeField ''root'' (bd_Root b)
     @ (case bd_WatchPatterns b of None \<Rightarrow> [] | Some ps \<Rightarrow> if ps = [] then [] else writeField ''watch_patterns'' (joinComma ps))"

definition writeDeploy :: "Deploy \<Rightarrow> (string \<times> string) list" where
  "writeDeploy d =
     writeField ''start_command'' (dp_StartCommand d)
     @ [(''num_replicas'', itoa (ReplicasOrDefault d))] @ writeField ''region'' (RegionOrDefault d)
     @ writeField ''healthcheck_path'' (dp_HealthcheckPath d)
     @ (if dp_HealthcheckTimeout d \<noteq> 0 then [(''healthcheck_timeout'', itoa (dp_HealthcheckTimeout d))] else [])
     @ writeField ''restart_policy'' (dp_RestartPolicy d)
     @ [(''restart_max_retries'', itoa (RestartMaxOrDefault d)), (''drain_seconds'', itoa (DrainSecondsOrDefault d)),
        (''cpu_millicores'', itoa (CPUMillicores d)), (''mem_bytes'', itoa (MemBytes d))]"

text \<open>\<^verbatim>\<open>spec.Render\<close>: the identity, the link file if one loads, and the merged spec if there is one here.\<close>

definition RenderSpec :: "machine \<Rightarrow> Target \<Rightarrow> file_system \<Rightarrow> loadError + message" where
  "RenderSpec m t d =
     (let here = (case LoadLink (mc_Link m) (getwd m) d of Inr (Some (_, dir)) \<Rightarrow> Some (linkPath dir) | _ \<Rightarrow> None);
          ident = \<lparr>tg_Project = dash (tg_Project t), tg_Environment = dash (tg_Environment t), tg_Service = dash (tg_Service t)\<rparr>;
          p = resolvePath (mc_Cwd m) FileName
      in if \<not> statOK d p then Inr (SpecReport ident here None)
         else case loadSpec m d p of
                Inl e \<Rightarrow> Inl e
              | Inr spec \<Rightarrow>
                  (let (bld, dep) = Resolve spec (tg_Environment t)
                   in Inr (SpecReport ident here (Some (writeBuild bld, writeDeploy dep)))))"

text \<open>
  The health check of a deployment as text. \<^verbatim>\<open>%q\<close> escapes as Go source does; a byte above 127 is taken as
  part of a printable rune.
\<close>

definition hexDigit :: "nat \<Rightarrow> char" where
  "hexDigit n = (if n < 10 then char_of (48 + n) else char_of (87 + n))"

definition quoteByte :: "char \<Rightarrow> string" where
  "quoteByte c =
     (let n = of_char c :: nat; backslash = char_of (92 :: nat)
      in if n = 34 \<or> n = 92 then [backslash, c]
         else if n = 7 then [backslash, CHR ''a''] else if n = 8 then [backslash, CHR ''b'']
         else if n = 9 then [backslash, CHR ''t''] else if n = 10 then [backslash, CHR ''n'']
         else if n = 11 then [backslash, CHR ''v''] else if n = 12 then [backslash, CHR ''f'']
         else if n = 13 then [backslash, CHR ''r'']
         else if n < 32 \<or> n = 127 then [backslash, CHR ''x'', hexDigit (n div 16), hexDigit (n mod 16)]
         else [c])"

definition quote :: "string \<Rightarrow> string" where
  "quote s = [char_of (34 :: nat)] @ concat (map quoteByte s) @ [char_of (34 :: nat)]"

definition HealthcheckJSON :: "Deploy \<Rightarrow> string" where
  "HealthcheckJSON d =
     (if dp_HealthcheckPath d = '''' then ''''
      else ''{'' @ quote ''path'' @ '':'' @ quote (dp_HealthcheckPath d) @ '','' @ quote ''timeout_s'' @ '':''
        @ itoa (dp_HealthcheckTimeout d) @ ''}'')"

end
