(* ===== verification/CliCommands.thy ===== *)
theory CliCommands
  imports Cli
begin

text \<open>
  The commands of \<^verbatim>\<open>cmd/control\<close>, one definition per function, and \<open>RunControl\<close>, which loads the settings and
  dispatches. A command is a function of the machine, the settings and its arguments to a \<open>cli\<close> step: every
  early return of the source is an error of it.
\<close>

section \<open>Projects and links\<close>

definition cmdInit :: "machine \<Rightarrow> Config \<Rightarrow> string list \<Rightarrow> unit cli" where
  "cmdInit m cfg args =
     cli_bind (parseArgs [(''n'', StringFlag), (''name'', StringFlag)] args) (\<lambda>(vs, _).
       let name = stringVar [''n'', ''name''] '''' vs
       in if name = '''' then usageErr NameRequired
          else
            cli_seq (connect m cfg)
              (cli_seq (onStore (WithTx (mc_Writers m) (createProject name LinkEnvironment)))
                (cli_bind (workDir m) (\<lambda>dir.
                  cli_seq (save m dir \<lparr>tg_Project = name, tg_Environment = LinkEnvironment, tg_Service = ''''\<rparr>)
                    (say (CreatedProject name (linkPath dir)))))))"

definition cmdLink :: "machine \<Rightarrow> Config \<Rightarrow> string list \<Rightarrow> unit cli" where
  "cmdLink m cfg args =
     cli_bind (parseArgs targetFlags args) (\<lambda>(vs, _).
     cli_bind getDisk (\<lambda>d.
       let t = resolve m cfg (flagTarget vs) False d
       in if tg_Project t = '''' then usageErr ProjectRequired
          else
            cli_bind (workDir m) (\<lambda>dir.
              let l = \<lparr>tg_Project = tg_Project t,
                    tg_Environment = (if tg_Environment t \<noteq> '''' then tg_Environment t else LinkEnvironment),
                    tg_Service = tg_Service t\<rparr>
              in cli_seq (connect m cfg)
                   (cli_seq (onStore (verifyTarget (mc_Writers m) l))
                     (cli_seq (save m dir l) (say (LinkedTo (linkPath dir) l)))))))"

definition cmdUnlink :: "machine \<Rightarrow> string list \<Rightarrow> unit cli" where
  "cmdUnlink m args =
     (if args \<noteq> [] \<and> \<not> hasPrefix (hd args) ''-'' then usageErr TakesNoArguments
      else (\<lambda>w. case RemoveLink (getwd m) (w_Disk w) of
              (Inl e, d') \<Rightarrow> (Inl (Failed (LinkFailed e)), w\<lparr>w_Disk := d'\<rparr>)
            | (Inr dir, d') \<Rightarrow> say (Unlinked (linkPath dir)) (w\<lparr>w_Disk := d'\<rparr>)))"

definition cmdConfig :: "machine \<Rightarrow> Config \<Rightarrow> string list \<Rightarrow> unit cli" where
  "cmdConfig m cfg args =
     cli_bind (parseArgs targetFlags args) (\<lambda>(vs, _).
     cli_bind getDisk (\<lambda>d.
       case RenderSpec m (resolve m cfg (flagTarget vs) True d) d of
         Inl e \<Rightarrow> cli_err (Failed (SpecInvalid e))
       | Inr report \<Rightarrow> say report))"

section \<open>Adding services\<close>

definition dbEngineImages :: "(string \<times> string) list" where
  "dbEngineImages = [(''postgres'', ''postgres:16''), (''redis'', ''redis:7''), (''mysql'', ''mysql:8'')]"

definition AddService :: "machine \<Rightarrow> AddServiceInput \<Rightarrow> RepoSource \<Rightarrow> (projectError, database, ServiceRow) steps" where
  "AddService m inp src = WithTx (mc_Writers m) (addService inp (Some (mc_MarshalSource m src)))"

definition linkToService :: "machine \<Rightarrow> Target \<Rightarrow> unit cli" where
  "linkToService m t =
     cli_bind (workDir m) (\<lambda>dir. cli_seq (save m dir t) (say (LinkedToService (linkPath dir) (tg_Service t))))"

definition addDatabase :: "machine \<Rightarrow> Target \<Rightarrow> string \<Rightarrow> unit cli" where
  "addDatabase m t engine =
     (case map_of dbEngineImages engine of
        None \<Rightarrow> usageErr (UnknownEngine engine)
      | Some img \<Rightarrow>
          cli_bind (onStore (AddService m \<lparr>as_Target = t, as_Stateful = True, as_Volume = None\<rparr> \<lparr>so_Image = img, so_Repo = ''''\<rparr>))
            (\<lambda>db. say (AddedService ''service'' (svc_Name db) t)))"

definition addCodeService :: "machine \<Rightarrow> Target \<Rightarrow> string \<Rightarrow> string \<Rightarrow> bool \<Rightarrow> unit cli" where
  "addCodeService m t img repo stateful =
     (if img \<noteq> '''' \<and> repo \<noteq> '''' then usageErr ImageAndRepo
      else
        cli_bind (onStore (AddService m \<lparr>as_Target = t, as_Stateful = stateful, as_Volume = None\<rparr> \<lparr>so_Image = img, so_Repo = repo\<rparr>))
          (\<lambda>svc. say (AddedService (if stateful then ''stateful service'' else ''service'') (svc_Name svc) t)))"

definition addFlags :: "(string \<times> flagKind) list" where
  "addFlags = projectFlags @ environmentFlags
     @ [(''service'', BoolFlag), (''database'', BoolFlag), (''name'', StringFlag), (''engine'', StringFlag), (''image'', StringFlag),
        (''repo'', StringFlag), (''stateful'', BoolFlag), (''l'', BoolFlag), (''link'', BoolFlag)]"

definition cmdAdd :: "machine \<Rightarrow> Config \<Rightarrow> string list \<Rightarrow> unit cli" where
  "cmdAdd m cfg args =
     cli_bind (parseArgs addFlags args) (\<lambda>(vs, _).
       let service = boolVar [''service''] False vs; database = boolVar [''database''] False vs;
           name = stringVar [''name''] '''' vs; engine = stringVar [''engine''] '''' vs;
           img = stringVar [''image''] '''' vs; repo = stringVar [''repo''] '''' vs;
           stateful = boolVar [''stateful''] False vs; linkAfter = boolVar [''l'', ''link''] False vs
       in cli_bind (withTarget m cfg vs True False) (\<lambda>t0.
            if service = database then usageErr OneKindRequired
            else if name = '''' then usageErr NameRequired
            else
              let t = t0\<lparr>tg_Service := name\<rparr>
              in if service \<and> engine \<noteq> '''' then usageErr EngineOnlyForDatabase
                 else if stateful \<and> database then usageErr StatefulRedundant
                 else
                   cli_seq (connect m cfg)
                     (cli_seq
                       (if database
                        then if img \<noteq> '''' \<or> repo \<noteq> '''' then usageErr SourceOnlyForService else addDatabase m t engine
                        else addCodeService m t img repo stateful)
                       (if linkAfter then linkToService m t else cli_ok ()))))"

section \<open>Environments\<close>

definition environmentTarget :: "machine \<Rightarrow> Config \<Rightarrow> string list \<Rightarrow> Target cli" where
  "environmentTarget m cfg args =
     cli_bind (parseArgs (projectFlags @ environmentFlags) args) (\<lambda>(vs, _). withTarget m cfg vs False False)"

definition printCurrentEnvironment :: "machine \<Rightarrow> Config \<Rightarrow> string list \<Rightarrow> unit cli" where
  "printCurrentEnvironment m cfg args =
     cli_bind (environmentTarget m cfg args) (\<lambda>t.
       if tg_Environment t = '''' then say (NoEnvironmentSelected (tg_Project t)) else say (CurrentEnvironment (tg_Environment t)))"

definition cmdListEnvironments :: "machine \<Rightarrow> Config \<Rightarrow> string list \<Rightarrow> unit cli" where
  "cmdListEnvironments m cfg args =
     cli_bind (environmentTarget m cfg args) (\<lambda>t.
     cli_seq (connect m cfg)
       (cli_bind (onStore (listEnvironments (mc_Writers m) (tg_Project t))) (\<lambda>envs.
         if envs = [] then say (NoEnvironments (tg_Project t))
         else cli_each (\<lambda>e. say (EnvironmentLine (env_Name e = tg_Environment t) (env_Name e))) envs)))"

definition cmdCreateEnvironment :: "machine \<Rightarrow> Config \<Rightarrow> string list \<Rightarrow> unit cli" where
  "cmdCreateEnvironment m cfg args =
     cli_bind (parseArgs (projectFlags @ environmentFlags @ [(''n'', StringFlag), (''name'', StringFlag)]) args) (\<lambda>(vs, _).
     cli_bind (withTarget m cfg vs False False) (\<lambda>t.
       let name = stringVar [''n'', ''name''] '''' vs
       in if name = '''' then usageErr CreateNeedsName
          else
            cli_seq (connect m cfg)
              (cli_bind (onStore (WithTx (mc_Writers m) (createEnvironment (tg_Project t) (tg_Environment t) name)))
                (\<lambda>res. say (CreatedEnvironment name (tg_Project t) (ce_SourceEnv res) (ce_ServicesCloned res))))))"

text \<open>\<open>link.SetEnvironment\<close> and \<open>link.SetService\<close> as steps.\<close>

definition onLink :: "(file_system \<Rightarrow> (linkError + path) \<times> file_system) \<Rightarrow> (linkError + path) cli" where
  "onLink f w = (let (r, d') = f (w_Disk w) in (Inr r, w\<lparr>w_Disk := d'\<rparr>))"

definition selectEnvironmentCmd :: "machine \<Rightarrow> Config \<Rightarrow> string list \<Rightarrow> unit cli" where
  "selectEnvironmentCmd m cfg args =
     cli_bind (parseArgs projectFlags args) (\<lambda>(vs, rest).
       if length rest \<noteq> 1 \<or> hd rest = '''' then usageErr SelectNeedsName
       else
         let name = hd rest
         in cli_bind (onLink (SetEnvironment (mc_Link m) name (getwd m))) (\<lambda>r. case r of
                Inl LinkNotFound \<Rightarrow> usageErr NoLinkHere
              | Inl e \<Rightarrow> cli_err (Failed (LinkFailed e))
              | Inr dir \<Rightarrow> say (SelectedEnvironment name dir)))"

definition cmdEnvironment :: "machine \<Rightarrow> Config \<Rightarrow> string list \<Rightarrow> unit cli" where
  "cmdEnvironment m cfg args =
     (let (sub, rest) = splitSubcommand args
      in if sub = '''' then printCurrentEnvironment m cfg rest
         else if sub = ''list'' then cmdListEnvironments m cfg rest
         else if sub = ''create'' \<or> sub = ''new'' then cmdCreateEnvironment m cfg rest
         else if sub = ''select'' \<or> sub = ''use'' then selectEnvironmentCmd m cfg rest
         else usageErr (UnknownSubcommand sub))"

section \<open>Services\<close>

definition listServicesCmd :: "machine \<Rightarrow> Target \<Rightarrow> unit cli" where
  "listServicesCmd m t =
     cli_bind (onStore (listServices (mc_Writers m) t)) (\<lambda>services.
       if services = [] then say (NoServices (tg_Project t) (tg_Environment t))
       else cli_each (\<lambda>s. say (ServiceLine (svc_Name s) (kindOf (svc_Stateful s)))) services)"

definition selectServiceCmd :: "machine \<Rightarrow> Target \<Rightarrow> string \<Rightarrow> unit cli" where
  "selectServiceCmd m t0 name =
     (let t = t0\<lparr>tg_Service := name\<rparr>
      in cli_seq (onStore (verifyTarget (mc_Writers m) t))
           (cli_bind (onLink (SetService (mc_Link m) name (getwd m))) (\<lambda>r. case r of
                Inl LinkNotFound \<Rightarrow>
                  cli_bind (workDir m) (\<lambda>dir. cli_seq (save m dir t) (say (LinkedAndSelected (linkPath dir) name)))
              | Inl e \<Rightarrow> cli_err (Failed (LinkFailed e))
              | Inr dir \<Rightarrow> say (SelectedService name dir))))"

definition cmdService :: "machine \<Rightarrow> Config \<Rightarrow> string list \<Rightarrow> unit cli" where
  "cmdService m cfg args =
     cli_bind (parseArgs (projectFlags @ environmentFlags) args) (\<lambda>(vs, rest).
       if length rest > 1 then usageErr (UnexpectedArgument (rest ! 1))
       else
         cli_bind (withTarget m cfg vs True False) (\<lambda>t.
         cli_seq (connect m cfg)
           (if rest \<noteq> [] \<and> hd rest \<noteq> '''' then selectServiceCmd m t (hd rest) else listServicesCmd m t)))"

section \<open>Deploying\<close>

record ServiceSource =
  ss_Stateful :: bool
  ss_Source :: RepoSource

definition serviceSource :: "machine \<Rightarrow> Target \<Rightarrow> (projectError, database, ServiceSource option) steps" where
  "serviceSource m t =
     run_bind (stmt (mc_Writers m) (GetEnvironmentService (tg_Project t) (tg_Environment t) (tg_Service t))) (\<lambda>row.
       run_ok (map_option (\<lambda>src. \<lparr>ss_Stateful = ges_Stateful row, ss_Source = src\<rparr>) (mc_UnmarshalSource m (ges_Source row))))"

definition workingTree :: "machine \<Rightarrow> path cli" where
  "workingTree m =
     cli_bind getDisk (\<lambda>d. case FindLink (getwd m) d of
         Inl e \<Rightarrow> cli_err (Failed (LinkFailed e))
       | Inr (Some dir) \<Rightarrow> cli_ok dir
       | Inr None \<Rightarrow> workDir m)"

definition buildRequest :: "Target \<Rightarrow> Build \<Rightarrow> string \<Rightarrow> Request" where
  "buildRequest t b repo = \<lparr>bq_Project = tg_Project t, bq_Environment = tg_Environment t, bq_Service = tg_Service t,
     bq_Repo = repo, bq_Root = bd_Root b, bq_Strategy = bd_Builder b, bq_Dockerfile = bd_Dockerfile b,
     bq_BuildCommand = bd_BuildCommand b\<rparr>"

definition upInput :: "Config \<Rightarrow> Target \<Rightarrow> Deploy \<Rightarrow> string \<Rightarrow> DeployInput" where
  "upInput cfg t d img = \<lparr>di_Target = t, di_ImageRef = img, di_CPUMillicores = CPUMillicores d, di_MemBytes = MemBytes d,
     di_Env = '''', di_Healthcheck = HealthcheckJSON d, di_DrainSeconds = DrainSecondsOrDefault d,
     di_RestartMax = RestartMaxOrDefault d, di_ProgressDeadline = ProgressDeadlineOrDefault d,
     di_Replicas = [(RegionOrDefault d, ReplicasOrDefault d)], di_CommitMessage = '''', di_CreatedBy = cf_User cfg\<rparr>"

text \<open>The build and the commit, once the spec is resolved.\<close>

definition upDeploy :: "machine \<Rightarrow> Config \<Rightarrow> Target \<Rightarrow> Build \<Rightarrow> Deploy \<Rightarrow> unit cli" where
  "upDeploy m cfg t bld dep =
     cli_seq (connect m cfg)
       (cli_bind (onStore (serviceSource m t)) (\<lambda>found. case found of
            None \<Rightarrow> cli_err (Failed SourceUnreadable)
          | Some src \<Rightarrow>
              cli_bind (if so_Image (ss_Source src) = '''' \<and> so_Repo (ss_Source src) = ''''
                        then cli_bind (workingTree m) (\<lambda>dir. cli_ok (pathText dir))
                        else cli_ok (so_Repo (ss_Source src))) (\<lambda>repo.
              case ResolveImage (mc_Builder m) (buildRequest t bld repo) (so_Image (ss_Source src)) of
                Inl e \<Rightarrow> cli_err (Failed (NoImage e))
              | Inr img \<Rightarrow>
                  cli_bind (onStore (Service_Deploy (mc_Writers m) (upInput cfg t dep img))) (\<lambda>res.
                    say (Deployed t (dres_Version res) (RegionOrDefault dep)
                      (countAt (dres_Replicas res) (RegionOrDefault dep)) img)))))"

definition cmdUp :: "machine \<Rightarrow> Config \<Rightarrow> string list \<Rightarrow> unit cli" where
  "cmdUp m cfg args =
     cli_bind (parseArgs (targetFlags @ [(''f'', StringFlag), (''file'', StringFlag)]) args) (\<lambda>(vs, rest).
       if rest \<noteq> [] then usageErr (UnexpectedArgument (hd rest))
       else
         cli_bind (withTarget m cfg vs True True) (\<lambda>t.
         cli_bind getDisk (\<lambda>d.
           let file = stringVar [''f'', ''file''] FileName vs; p = resolvePath (mc_Cwd m) file
           in if notExist d p then cli_err (Failed (SpecMissing file))
              else case loadSpec m d p of
                     Inl e \<Rightarrow> cli_err (Failed (SpecInvalid e))
                   | Inr spec \<Rightarrow> (let (bld, dep) = Resolve spec (tg_Environment t) in upDeploy m cfg t bld dep))))"

definition cmdRollback :: "machine \<Rightarrow> Config \<Rightarrow> string list \<Rightarrow> unit cli" where
  "cmdRollback m cfg args =
     cli_bind (parseArgs (targetFlags @ [(''to'', StringFlag)]) args) (\<lambda>(vs, rest).
       if rest \<noteq> [] then usageErr (UnexpectedArgument (hd rest))
       else
         cli_bind (withTarget m cfg vs True True) (\<lambda>t.
           case ParseVersion (stringVar [''to''] '''' vs) of
             None \<Rightarrow> usageErr BadVersion
           | Some version \<Rightarrow>
               cli_seq (connect m cfg)
                 (cli_bind (onStore (Rollback (mc_Writers m) \<lparr>rb_Target = t, rb_ToVersion = version\<rparr>))
                   (\<lambda>res. say (RolledBack t (rbr_From res) (rbr_To res))))))"

definition confirm :: "machine \<Rightarrow> bool" where
  "confirm m = (case mc_Stdin m of None \<Rightarrow> False
     | Some line \<Rightarrow> map toLower (TrimSpace line) \<in> set [''y'', ''yes''])"

definition cmdDown :: "machine \<Rightarrow> Config \<Rightarrow> string list \<Rightarrow> unit cli" where
  "cmdDown m cfg args =
     cli_bind (parseArgs (targetFlags @ [(''yes'', BoolFlag)]) args) (\<lambda>(vs, _).
     cli_bind (withTarget m cfg vs True True) (\<lambda>t.
       if \<not> boolVar [''yes''] False vs \<and> \<not> confirm m then say Aborted
       else
         cli_seq (connect m cfg)
           (cli_seq (onStore (WithTx (mc_Writers m) (down t))) (say (ScaledDown t)))))"

section \<open>Scaling\<close>

definition isPair :: "string \<Rightarrow> bool" where
  "isPair a \<longleftrightarrow> \<not> hasPrefix a ''-'' \<and> CHR ''='' \<in> set a"

definition partitionRegionCounts :: "string list \<Rightarrow> string list \<times> string list" where
  "partitionRegionCounts args = (filter isPair args, filter (\<lambda>a. \<not> isPair a) args)"

fun joinSpace :: "string list \<Rightarrow> string" where
  "joinSpace [] = ''''"
| "joinSpace [x] = x"
| "joinSpace (x # xs) = x @ '' '' @ joinSpace xs"

definition formatRegionCounts :: "regionCounts \<Rightarrow> string" where
  "formatRegionCounts replicas =
     ''replicas: '' @ joinSpace (map (\<lambda>r. r @ ''='' @ itoa (countAt replicas r)) (sortedRegions replicas))"

definition cmdScale :: "machine \<Rightarrow> Config \<Rightarrow> string list \<Rightarrow> unit cli" where
  "cmdScale m cfg args =
     (let (pairs, flagArgs) = partitionRegionCounts args
      in cli_bind (parseArgs targetFlags flagArgs) (\<lambda>(vs, rest).
           if rest \<noteq> [] then usageErr BadPair
           else
             cli_bind (withTarget m cfg vs True True) (\<lambda>t.
               if pairs = [] then usageErr NoPairs
               else case ParseRegionCounts pairs of
                      None \<Rightarrow> usageErr BadPair
                    | Some replicas \<Rightarrow>
                        cli_seq (connect m cfg)
                          (cli_bind (onStore (Scale (mc_Writers m) \<lparr>si_Target = t, si_Replicas = replicas,
                               si_CPUMillicores = 0, si_MemBytes = 0, si_CreatedBy = ''''\<rparr>)) (\<lambda>_.
                            say (Scaled t (formatRegionCounts replicas)))))))"

section \<open>Volumes\<close>

definition gib :: int where "gib = 2 ^ 30"

text \<open>\<^verbatim>\<open>%.1f\<close> of a quotient by a power of two, which is exact.\<close>

definition oneDecimal :: "rat \<Rightarrow> string" where
  "oneDecimal x =
     (let (p, q) = quotient_of \<bar>x\<bar>; n = round_half_even (p * 10) q
      in (if x < 0 then ''-'' else '''') @ itoa (n div 10) @ ''.'' @ itoa (n mod 10))"

definition formatBytes :: "int \<Rightarrow> string" where
  "formatBytes b =
     (if b mod gib = 0 then itoa (b div gib) @ ''GiB'' else oneDecimal (float_of_int b / of_int gib) @ ''GiB'')"

definition formatObserved :: "VolumeRow \<Rightarrow> string" where
  "formatObserved v = (case vr_ObservedSizeBytes v of None \<Rightarrow> ''-'' | Some b \<Rightarrow> formatBytes b)"

fun volumeStatusText :: "VolumeStatus \<Rightarrow> string" where
  "volumeStatusText VolumePending = ''pending''"
| "volumeStatusText VolumeAttached = ''attached''"
| "volumeStatusText VolumeDetached = ''detached''"
| "volumeStatusText VolumeResizePending = ''resize_pending''"
| "volumeStatusText VolumeResizing = ''resizing''"
| "volumeStatusText VolumeFailed = ''failed''"

definition renderVolumes :: "VolumeRow list \<Rightarrow> string list list" where
  "renderVolumes vols = map (\<lambda>v. [vr_MountPath v, vr_Name v, vr_Region v, formatBytes (vr_DesiredSizeBytes v), formatObserved v,
     volumeStatusText (vr_Status v)]) vols"

definition listVolumesCmd :: "machine \<Rightarrow> Target \<Rightarrow> unit cli" where
  "listVolumesCmd m t =
     cli_bind (onStore (ListVolumes (mc_Writers m) t)) (\<lambda>vols.
       if vols = [] then say (NoVolumes t) else say (VolumeTable (renderVolumes vols)))"

definition volumeAdd :: "machine \<Rightarrow> Target \<Rightarrow> string \<Rightarrow> int \<Rightarrow> unit cli" where
  "volumeAdd m t mount sz =
     (if mount = '''' then usageErr MountRequired
      else if sz < 0 then usageErr SizeNegative
      else
        let sizeBytes = (if sz > 0 then to_int64 (sz * gib) else 0)
        in cli_bind (onStore (AddVolume (mc_Writers m) \<lparr>av_Target = t, av_MountPath = mount, av_SizeBytes = sizeBytes, av_Region = ''''\<rparr>))
             (\<lambda>vol. say (AddedVolume (vr_MountPath vol) (vr_Region vol) (formatBytes (vr_DesiredSizeBytes vol)))))"

definition volumeUpdate :: "machine \<Rightarrow> Target \<Rightarrow> string \<Rightarrow> int \<Rightarrow> unit cli" where
  "volumeUpdate m t mount sz =
     (if sz \<le> 0 then usageErr SizeRequired
      else if mount = '''' then usageErr MountRequired
      else
        cli_bind (onStore (ResizeVolume (mc_Writers m) t mount (to_int64 (sz * gib)))) (\<lambda>out.
          let vol = rz_Volume out
          in cli_seq (say (Resizing (vr_MountPath vol) (formatBytes (vr_DesiredSizeBytes vol))))
               (if vr_HostID vol = None then say NotPlacedYet
                else if rz_WaitingForSpace out then say (HostIsShort (formatBytes (rz_ShortfallBytes out)))
                else say HostHasRoom)))"

definition volumeRevert :: "machine \<Rightarrow> Target \<Rightarrow> string \<Rightarrow> unit cli" where
  "volumeRevert m t mount =
     (if mount = '''' then usageErr MountRequired
      else cli_bind (onStore (RevertVolume (mc_Writers m) t mount)) (\<lambda>vol.
        say (Reverted (vr_MountPath vol) (formatBytes (vr_DesiredSizeBytes vol)))))"

definition volumeRemove :: "machine \<Rightarrow> Target \<Rightarrow> string \<Rightarrow> unit cli" where
  "volumeRemove m t mount =
     (if mount = '''' then usageErr MountRequired
      else cli_bind (onStore (RemoveVolume (mc_Writers m) t mount)) (\<lambda>vol. say (RemovedVolume (vr_MountPath vol))))"

definition cmdVolume :: "machine \<Rightarrow> Config \<Rightarrow> string list \<Rightarrow> unit cli" where
  "cmdVolume m cfg args =
     (let (sub, rest) = splitSubcommand args
      in if sub = '''' then usageErr SubcommandRequired
         else
           cli_bind (parseArgs (targetFlags @ [(''mount'', StringFlag), (''size'', IntFlag)]) rest) (\<lambda>(vs, _).
           cli_bind (withTarget m cfg vs True True) (\<lambda>t.
           cli_seq (connect m cfg)
             (let mount = stringVar [''mount''] '''' vs; sz = intVar [''size''] 0 vs
              in if sub \<in> set [''list'', ''ls''] then listVolumesCmd m t
                 else if sub = ''add'' then volumeAdd m t mount sz
                 else if sub \<in> set [''update'', ''resize''] then volumeUpdate m t mount sz
                 else if sub = ''revert'' then volumeRevert m t mount
                 else if sub \<in> set [''rm'', ''remove'', ''delete''] then volumeRemove m t mount
                 else usageErr (UnknownSubcommand sub)))))"

section \<open>Status\<close>

definition cmdStatus :: "machine \<Rightarrow> Config \<Rightarrow> string list \<Rightarrow> unit cli" where
  "cmdStatus m cfg args =
     cli_bind (parseArgs targetFlags args) (\<lambda>(vs, _).
     cli_bind getDisk (\<lambda>d.
       let t = resolveProject m cfg (flagTarget vs) d
       in cli_seq (require t False False)
            (cli_seq (connect m cfg)
              (cli_bind (onStore (FetchStatus (mc_Writers m) t)) (\<lambda>rows.
                if rows = [] then say (NothingMatches (Scope t)) else say (StatusTable (tg_Project t) (renderSections rows)))))))"

section \<open>Dispatch\<close>

definition control :: "machine \<Rightarrow> Config \<Rightarrow> string \<Rightarrow> string list \<Rightarrow> unit cli option" where
  "control m cfg name args =
     (if name = ''init'' then Some (cmdInit m cfg args)
      else if name = ''link'' then Some (cmdLink m cfg args)
      else if name = ''unlink'' then Some (cmdUnlink m args)
      else if name = ''config'' then Some (cmdConfig m cfg args)
      else if name = ''add'' then Some (cmdAdd m cfg args)
      else if name \<in> set [''environment'', ''environments'', ''env'', ''envs''] then Some (cmdEnvironment m cfg args)
      else if name = ''service'' then Some (cmdService m cfg args)
      else if name = ''up'' \<or> name = ''deploy'' then Some (cmdUp m cfg args)
      else if name = ''rollback'' then Some (cmdRollback m cfg args)
      else if name = ''down'' then Some (cmdDown m cfg args)
      else if name = ''scale'' then Some (cmdScale m cfg args)
      else if name = ''volume'' then Some (cmdVolume m cfg args)
      else if name = ''status'' then Some (cmdStatus m cfg args)
      else None)"

definition RunControl :: "machine \<Rightarrow> string list \<Rightarrow> world \<Rightarrow> int \<times> world" where
  "RunControl m args w =
     (case args of
        [] \<Rightarrow> (2, w)
      | name # rest \<Rightarrow>
          if name \<in> set [''-h'', ''--help'', ''help''] then (0, w\<lparr>w_Out := w_Out w @ [UsageText]\<rparr>)
          else if name \<in> set [''-v'', ''--version'', ''version''] then (0, w\<lparr>w_Out := w_Out w @ [VersionText]\<rparr>)
          else case LoadConfig (mc_Getenv m) of
                 None \<Rightarrow> (1, w)
               | Some cfg \<Rightarrow> (case control m cfg name rest of
                     None \<Rightarrow> (2, w)
                   | Some cmd \<Rightarrow> (let (r, w') = cmd w in (exitCode r, w'))))"

end
