(* ===== verification/CliCorrect.thy ===== *)
theory CliCorrect
  imports CliCommands ProjectKeeps
begin

text \<open>
  Steps of the command line that keep an invariant of the store, and the first thing shown with them: that
  no command, whatever its arguments, breaks the constraints of the database. The cases of the dispatch.
\<close>

section \<open>Steps that keep an invariant of the store\<close>

definition cli_keeps :: "(database \<Rightarrow> bool) \<Rightarrow> 'a cli \<Rightarrow> bool" where
  "cli_keeps J p \<longleftrightarrow> (\<forall>w r w'. J (snd (w_Store w)) \<longrightarrow> p w = (r, w') \<longrightarrow> J (snd (w_Store w')))"

lemma cli_keepsI: "(\<And>w r w'. J (snd (w_Store w)) \<Longrightarrow> p w = (r, w') \<Longrightarrow> J (snd (w_Store w'))) \<Longrightarrow> cli_keeps J p"
  unfolding cli_keeps_def by blast

lemma cli_keepsD: "cli_keeps J p \<Longrightarrow> J (snd (w_Store w)) \<Longrightarrow> p w = (r, w') \<Longrightarrow> J (snd (w_Store w'))"
  unfolding cli_keeps_def by blast

lemma cli_keeps_ok: "cli_keeps J (cli_ok x)"
  by (rule cli_keepsI) (simp add: cli_ok_def)

lemma cli_keeps_err: "cli_keeps J (cli_err e)"
  by (rule cli_keepsI) (simp add: cli_err_def)

lemma cli_keeps_say: "cli_keeps J (say x)"
  by (rule cli_keepsI) (auto simp: say_def)

lemma cli_keeps_getDisk: "cli_keeps J getDisk"
  by (rule cli_keepsI) (auto simp: getDisk_def)

lemma cli_keeps_save: "cli_keeps J (save m dir l)"
  by (rule cli_keepsI) (auto simp: save_def Let_def split: prod.splits)

lemma cli_keeps_onLink: "cli_keeps J (onLink f)"
  by (rule cli_keepsI) (auto simp: onLink_def split: prod.splits)

lemma cli_keeps_bind:
  assumes "cli_keeps J p" "\<And>x. cli_keeps J (f x)"
  shows "cli_keeps J (cli_bind p f)"
proof (rule cli_keepsI)
  fix w r w'
  assume J: "J (snd (w_Store w))" and run: "cli_bind p f w = (r, w')"
  obtain r1 w1 where p: "p w = (r1, w1)" by fastforce
  with cli_keepsD [OF assms(1) J] have "J (snd (w_Store w1))" by blast
  with run p show "J (snd (w_Store w'))"
    by (auto simp: cli_bind_def split: sum.splits dest: cli_keepsD [OF assms(2)])
qed

lemma cli_keeps_seq: "cli_keeps J p \<Longrightarrow> cli_keeps J q \<Longrightarrow> cli_keeps J (cli_seq p q)"
  unfolding cli_seq_def by (rule cli_keeps_bind)

lemma cli_keeps_each: "(\<And>x. cli_keeps J (f x)) \<Longrightarrow> cli_keeps J (cli_each f xs)"
  by (induction xs) (auto intro: cli_keeps_ok cli_keeps_seq)

lemma cli_keeps_onStore:
  assumes "run_keeps J s"
  shows "cli_keeps J (onStore s)"
proof (rule cli_keepsI)
  fix w r w'
  assume J: "J (snd (w_Store w))" and run: "onStore s w = (r, w')"
  obtain r1 ks where s: "s (w_Store w) = (r1, ks)" by (cases "s (w_Store w)")
  with run_keepsD [OF assms J] have "J (snd ks)" by blast
  with run s show "J (snd (w_Store w'))"
    by (auto simp: onStore_def split: sum.splits)
qed

lemma cli_keeps_if: "cli_keeps J p \<Longrightarrow> cli_keeps J q \<Longrightarrow> cli_keeps J (if b then p else q)"
  by simp

lemma cli_keeps_option: "cli_keeps J p \<Longrightarrow> (\<And>x. cli_keeps J (f x)) \<Longrightarrow> cli_keeps J (case y of None \<Rightarrow> p | Some x \<Rightarrow> f x)"
  by (cases y) auto

lemma cli_keeps_sum: "(\<And>e. cli_keeps J (p e)) \<Longrightarrow> (\<And>x. cli_keeps J (f x)) \<Longrightarrow> cli_keeps J (case y of Inl e \<Rightarrow> p e | Inr x \<Rightarrow> f x)"
  by (cases y) auto

lemma cli_keeps_prod: "(\<And>a b. cli_keeps J (f a b)) \<Longrightarrow> cli_keeps J (case y of (a, b) \<Rightarrow> f a b)"
  by (cases y) auto

lemma cli_keeps_linkError:
  "cli_keeps J a \<Longrightarrow> cli_keeps J b \<Longrightarrow> cli_keeps J c \<Longrightarrow> cli_keeps J p \<Longrightarrow> cli_keeps J q \<Longrightarrow> cli_keeps J r \<Longrightarrow>
   cli_keeps J (case e of GetwdFailed \<Rightarrow> a | ReadFailed \<Rightarrow> b | ParseFailed \<Rightarrow> c | WriteFailed \<Rightarrow> p | RemoveFailed \<Rightarrow> q | LinkNotFound \<Rightarrow> r)"
  by (cases e) auto

lemmas cli_keeps_basic = cli_keeps_ok cli_keeps_err cli_keeps_say cli_keeps_getDisk cli_keeps_save cli_keeps_onLink
  cli_keeps_seq cli_keeps_each cli_keeps_if cli_keeps_option cli_keeps_prod cli_keeps_bind

lemma cli_keeps_frame:
  "cli_keeps J (connect m cfg)" "cli_keeps J (workDir m)" "cli_keeps J (parseArgs flags args)"
  "cli_keeps J (require t e s)"
  unfolding connect_def workDir_def require_def Let_def parseArgs_def
  by (intro cli_keeps_basic | auto split: sum.splits flagError.splits intro: cli_keeps_basic)+

lemma cli_keeps_withTarget: "cli_keeps J (withTarget m cfg vs e s)"
  unfolding withTarget_def Let_def by (intro cli_keeps_basic cli_keeps_frame)

lemma cli_keeps_workingTree: "cli_keeps J (workingTree m)"
  unfolding workingTree_def by (auto intro!: cli_keeps_basic cli_keeps_frame split: sum.splits option.splits)

lemmas cli_keeps_intros = cli_keeps_basic cli_keeps_frame cli_keeps_withTarget cli_keeps_workingTree cli_keeps_onStore cli_keeps_sum

section \<open>Every command keeps the constraints\<close>

lemma reads_keep_cli [keeps]:
  "op_keeps J (GetProject p)" "op_keeps J (GetEnvironment p e)" "op_keeps J (GetService p s)"
  "op_keeps J (ListEnvironments p)" "op_keeps J (ListServicesByEnvironment p e)" "op_keeps J (ProjectStatus p e s)"
  "op_keeps J (ListVolumesByEnvironmentService p e s)"
  by (auto simp: GetProject_def GetEnvironment_def GetService_def ListEnvironments_def ListServicesByEnvironment_def
      ProjectStatus_def q_GetProject_def q_GetEnvironment_def q_GetService_def q_ListEnvironments_def
      q_ListServicesByEnvironment_def q_ProjectStatus_def ListVolumesByEnvironmentService_def
      q_ListVolumesByEnvironmentService_def intro!: keeps)

lemma reading_steps_keep:
  assumes "env_keeps J env"
  shows "run_keeps J (verifyTarget env t)" "run_keeps J (listEnvironments env p)" "run_keeps J (listServices env t)"
    "run_keeps J (FetchStatus env t)" "run_keeps J (ListVolumes env t)"
  unfolding verifyTarget_def listEnvironments_def listServices_def FetchStatus_def ListVolumes_def
  by (intro run_keeps_bind run_keeps_if run_keeps_ok stmt_keeps keeps_environmentServiceID reads_keep_cli assms)+

lemma serviceSource_keeps: "env_keeps J (mc_Writers m) \<Longrightarrow> run_keeps J (serviceSource m t)"
  unfolding serviceSource_def by (intro run_keeps_bind run_keeps_ok stmt_keeps) (simp_all add: keeps)

lemma cmdUnlink_keeps: "cli_keeps J (cmdUnlink m args)"
  unfolding cmdUnlink_def
  by (intro cli_keeps_if cli_keeps_err cli_keepsI) (auto simp: say_def split: prod.splits sum.splits)

lemma commands_keep:
  assumes "env_keeps project_wf (mc_Writers m)"
  shows "cli_keeps project_wf (cmdInit m cfg args)" "cli_keeps project_wf (cmdLink m cfg args)"
    "cli_keeps project_wf (cmdConfig m cfg args)" "cli_keeps project_wf (cmdAdd m cfg args)"
    "cli_keeps project_wf (cmdEnvironment m cfg args)" "cli_keeps project_wf (cmdService m cfg args)"
    "cli_keeps project_wf (cmdUp m cfg args)" "cli_keeps project_wf (cmdRollback m cfg args)"
    "cli_keeps project_wf (cmdDown m cfg args)" "cli_keeps project_wf (cmdScale m cfg args)"
    "cli_keeps project_wf (cmdVolume m cfg args)" "cli_keeps project_wf (cmdStatus m cfg args)"
proof -
  note steps = run_keeps_ok WithTx_keeps keeps_createProject keeps_addService keeps_createEnvironment keeps_deploy
    keeps_rollback keeps_down keeps_scale AddVolume_keeps ResizeVolume_keeps RevertVolume_keeps RemoveVolume_keeps
    reading_steps_keep serviceSource_keeps assms
  show "cli_keeps project_wf (cmdInit m cfg args)"
    unfolding cmdInit_def Let_def by (intro cli_keeps_intros steps)
  show "cli_keeps project_wf (cmdLink m cfg args)"
    unfolding cmdLink_def Let_def by (intro cli_keeps_intros steps)
  show "cli_keeps project_wf (cmdConfig m cfg args)"
    unfolding cmdConfig_def Let_def by (intro cli_keeps_intros steps)
  show "cli_keeps project_wf (cmdAdd m cfg args)"
    unfolding cmdAdd_def Let_def addDatabase_def addCodeService_def AddService_def linkToService_def
    by (intro cli_keeps_intros steps)
  show "cli_keeps project_wf (cmdEnvironment m cfg args)"
    unfolding cmdEnvironment_def Let_def printCurrentEnvironment_def cmdListEnvironments_def cmdCreateEnvironment_def
      selectEnvironmentCmd_def environmentTarget_def
    by (intro cli_keeps_linkError cli_keeps_intros steps)
  show "cli_keeps project_wf (cmdService m cfg args)"
    unfolding cmdService_def Let_def selectServiceCmd_def listServicesCmd_def
    by (intro cli_keeps_linkError cli_keeps_intros steps)
  show "cli_keeps project_wf (cmdUp m cfg args)"
    unfolding cmdUp_def Let_def upDeploy_def Service_Deploy_def by (intro cli_keeps_intros steps)
  show "cli_keeps project_wf (cmdRollback m cfg args)"
    unfolding cmdRollback_def Rollback_def by (intro cli_keeps_intros steps)
  show "cli_keeps project_wf (cmdDown m cfg args)"
    unfolding cmdDown_def by (intro cli_keeps_intros steps)
  show "cli_keeps project_wf (cmdScale m cfg args)"
    unfolding cmdScale_def partitionRegionCounts_def Scale_def Let_def by (intro cli_keeps_intros steps)
  show "cli_keeps project_wf (cmdVolume m cfg args)"
    unfolding cmdVolume_def Let_def volumeAdd_def volumeUpdate_def volumeRevert_def volumeRemove_def listVolumesCmd_def
    by (intro cli_keeps_intros steps)
  show "cli_keeps project_wf (cmdStatus m cfg args)"
    unfolding cmdStatus_def Let_def by (intro cli_keeps_intros steps)
qed

lemma RunControl_cases:
  obtains (nothing) x where "snd (RunControl m args w) = w\<lparr>w_Out := x\<rparr>"
  | (command) name rest cfg cmd where "args = name # rest" "LoadConfig (mc_Getenv m) = Some cfg"
      "control m cfg name rest = Some cmd" "RunControl m args w = (exitCode (fst (cmd w)), snd (cmd w))"
proof (cases args)
  case Nil
  then have "snd (RunControl m args w) = w\<lparr>w_Out := w_Out w\<rparr>" by (simp add: RunControl_def)
  then show thesis by (rule nothing)
next
  case (Cons name rest)
  have run: "RunControl m args w =
      (if name \<in> set [''-h'', ''--help'', ''help''] then (0, w\<lparr>w_Out := w_Out w @ [UsageText]\<rparr>)
       else if name \<in> set [''-v'', ''--version'', ''version''] then (0, w\<lparr>w_Out := w_Out w @ [VersionText]\<rparr>)
       else case LoadConfig (mc_Getenv m) of
              None \<Rightarrow> (1, w)
            | Some cfg \<Rightarrow> (case control m cfg name rest of
                  None \<Rightarrow> (2, w)
                | Some cmd \<Rightarrow> (let (r, w') = cmd w in (exitCode r, w'))))"
    unfolding RunControl_def Cons by simp
  show thesis
  proof (cases "name \<in> set [''-h'', ''--help'', ''help'']")
    case True
    with run have "snd (RunControl m args w) = w\<lparr>w_Out := w_Out w @ [UsageText]\<rparr>" by (simp only: if_True snd_conv)
    then show thesis by (rule nothing)
  next
    case False
    note usage = this
    show thesis
    proof (cases "name \<in> set [''-v'', ''--version'', ''version'']")
      case True
      with usage run have "snd (RunControl m args w) = w\<lparr>w_Out := w_Out w @ [VersionText]\<rparr>"
        by (simp only: if_True if_False snd_conv)
      then show thesis by (rule nothing)
    next
      case False
      note run = run [unfolded if_not_P [OF usage] if_not_P [OF False]]
      show thesis
      proof (cases "LoadConfig (mc_Getenv m)")
        case None
        then have "snd (RunControl m args w) = w\<lparr>w_Out := w_Out w\<rparr>" unfolding run by simp
        then show thesis by (rule nothing)
      next
        case (Some cfg)
        note cfg = this
        show thesis
        proof (cases "control m cfg name rest")
          case None
          with cfg have "snd (RunControl m args w) = w\<lparr>w_Out := w_Out w\<rparr>" unfolding run by simp
          then show thesis by (rule nothing)
        next
          case (Some cmd)
          with cfg have "RunControl m args w = (exitCode (fst (cmd w)), snd (cmd w))" unfolding run by (simp add: split_beta)
          with Cons cfg Some show thesis by (rule command)
        qed
      qed
    qed
  qed
qed

text \<open>A property of every command of the dispatch is proved command by command.\<close>

lemma pred_option_if: "pred_option P x \<Longrightarrow> pred_option P y \<Longrightarrow> pred_option P (if b then x else y)"
  by simp

lemma pred_option_Some: "P x \<Longrightarrow> pred_option P (Some x)"
  by simp

lemma pred_option_None: "pred_option P None"
  by simp

lemmas dispatch = pred_option_if pred_option_Some pred_option_None

lemma control_keeps:
  assumes "env_keeps project_wf (mc_Writers m)" "control m cfg name args = Some cmd"
  shows "cli_keeps project_wf cmd"
proof -
  have "pred_option (cli_keeps project_wf) (control m cfg name args)"
    unfolding control_def by (intro dispatch commands_keep [OF assms(1)] cmdUnlink_keeps)
  with assms(2) show ?thesis by simp
qed

text \<open>
  Whatever arguments the command line is given, on whatever disk and against whatever other writers
  that keep the constraints, the database satisfies them afterwards.
\<close>

theorem cli_keeps_schema:
  assumes "env_keeps project_wf (mc_Writers m)" "project_wf (snd (w_Store w))"
  shows "project_wf (snd (w_Store (snd (RunControl m args w))))"
proof (rule RunControl_cases [of m args w])
  fix x assume "snd (RunControl m args w) = w\<lparr>w_Out := x\<rparr>"
  with assms(2) show ?thesis by simp
next
  fix name rest cfg cmd
  assume "control m cfg name rest = Some cmd" and run: "RunControl m args w = (exitCode (fst (cmd w)), snd (cmd w))"
  from cli_keepsD [OF control_keeps [OF assms(1) this(1)] assms(2) prod.collapse [symmetric]] show ?thesis
    unfolding run snd_conv .
qed

end
