(* ===== verification/CliUsage.thy ===== *)
theory CliUsage
  imports CliCommands
begin

text \<open>
  A command that is refused for its usage has touched nothing: neither the disk nor the store, not even
  with a transaction that reads. The errors of usage are found before the first effect, with one
  exception - selecting an environment where there is no link - in which the effect is none.
\<close>

section \<open>Steps by what they may do before a usage error\<close>

definition untouched :: "world \<Rightarrow> world \<Rightarrow> bool" where
  "untouched w w' \<longleftrightarrow> w_Disk w' = w_Disk w \<and> w_Store w' = w_Store w"

text \<open>A step without effect; one that never reports usage; one that has no effect when it does.\<close>

definition idle :: "'a cli \<Rightarrow> bool" where
  "idle p \<longleftrightarrow> (\<forall>w. untouched w (snd (p w)))"

definition no_usage :: "'a cli \<Rightarrow> bool" where
  "no_usage p \<longleftrightarrow> (\<forall>w u. fst (p w) \<noteq> Inl (UsageError u))"

definition usage_clean :: "'a cli \<Rightarrow> bool" where
  "usage_clean p \<longleftrightarrow> (\<forall>w u. fst (p w) = Inl (UsageError u) \<longrightarrow> untouched w (snd (p w)))"

named_theorems effects "rules for idle, no_usage and usage_clean"

lemma untouched_refl [simp]: "untouched w w"
  by (simp add: untouched_def)

lemma untouched_trans: "untouched w w1 \<Longrightarrow> untouched w1 w2 \<Longrightarrow> untouched w w2"
  by (simp add: untouched_def)

lemma usage_clean_idle: "idle p \<Longrightarrow> usage_clean p"
  by (simp add: idle_def usage_clean_def)

lemma usage_clean_no_usage: "no_usage p \<Longrightarrow> usage_clean p"
  by (simp add: no_usage_def usage_clean_def)

section \<open>The basic steps\<close>

lemma idle_basic [effects]: "idle (cli_ok x)" "idle (cli_err e)" "idle (say y)" "idle getDisk"
  by (simp_all add: idle_def cli_ok_def cli_err_def say_def getDisk_def untouched_def)

lemma idle_bind [effects]:
  assumes "idle p" "\<And>x. idle (f x)"
  shows "idle (cli_bind p f)"
  unfolding idle_def
proof
  fix w
  obtain r w1 where p: "p w = (r, w1)" by (cases "p w")
  with assms(1) have "untouched w w1" unfolding idle_def by (metis snd_conv)
  moreover have "untouched w1 (snd (f x w1))" for x
    using assms(2) unfolding idle_def by blast
  ultimately show "untouched w (snd (cli_bind p f w))"
    by (auto simp: cli_bind_def p split: sum.splits intro: untouched_trans)
qed

lemma idle_seq [effects]: "idle p \<Longrightarrow> idle q \<Longrightarrow> idle (cli_seq p q)"
  unfolding cli_seq_def by (rule idle_bind)

lemma idle_if [effects]: "idle p \<Longrightarrow> idle q \<Longrightarrow> idle (if b then p else q)"
  by simp

lemma idle_frame [effects]:
  "idle (connect m cfg)" "idle (workDir m)" "idle (parseArgs flags args)" "idle (require t e s)"
  "idle (withTarget m cfg vs e s)"
proof -
  show require: "idle (require t e s)" for t e s
    unfolding require_def Let_def by (intro effects)
  show "idle (connect m cfg)" "idle (withTarget m cfg vs e s)"
    unfolding connect_def withTarget_def Let_def by (intro effects require)+
  show "idle (workDir m)"
    unfolding workDir_def by (cases "getwd m") (auto intro: effects)
  have "idle (cli_seq (say UsageText) (cli_err HelpShown) :: (assignments \<times> string list) cli)"
    by (intro effects)
  then show "idle (parseArgs flags args)"
    unfolding parseArgs_def by (auto split: sum.splits flagError.splits intro: idle_basic)
qed

lemma no_usage_basic [effects]: "no_usage (cli_ok x)" "no_usage (say y)" "no_usage (onStore s)" "no_usage (save m dir l)"
  "no_usage (onLink g)" "no_usage (cli_err (Failed f))" "no_usage (workDir m)" "no_usage getDisk"
  by (auto simp: no_usage_def cli_ok_def say_def onStore_def save_def onLink_def cli_err_def workDir_def getDisk_def Let_def
      split: prod.splits sum.splits option.splits)

lemma no_usage_bind [effects]:
  assumes "no_usage p" "\<And>x. no_usage (f x)"
  shows "no_usage (cli_bind p f)"
  unfolding no_usage_def
proof (intro allI)
  fix w u
  obtain r w1 where p: "p w = (r, w1)" by (cases "p w")
  with assms(1) have "r \<noteq> Inl (UsageError u)" unfolding no_usage_def by (metis fst_conv)
  with assms(2) show "fst (cli_bind p f w) \<noteq> Inl (UsageError u)"
    unfolding no_usage_def by (auto simp: cli_bind_def p split: sum.splits)
qed

lemma no_usage_seq [effects]: "no_usage p \<Longrightarrow> no_usage q \<Longrightarrow> no_usage (cli_seq p q)"
  unfolding cli_seq_def by (rule no_usage_bind)

lemma no_usage_if [effects]: "no_usage p \<Longrightarrow> no_usage q \<Longrightarrow> no_usage (if b then p else q)"
  by simp

lemma no_usage_option [effects]: "no_usage p \<Longrightarrow> (\<And>x. no_usage (f x)) \<Longrightarrow> no_usage (case y of None \<Rightarrow> p | Some x \<Rightarrow> f x)"
  by (cases y) auto

lemma no_usage_sum [effects]: "(\<And>e. no_usage (p e)) \<Longrightarrow> (\<And>x. no_usage (f x)) \<Longrightarrow> no_usage (case y of Inl e \<Rightarrow> p e | Inr x \<Rightarrow> f x)"
  by (cases y) auto

lemma no_usage_each [effects]: "(\<And>x. no_usage (f x)) \<Longrightarrow> no_usage (cli_each f xs)"
  by (induction xs) (auto intro: effects)

lemma no_usage_linkError [effects]:
  "no_usage a \<Longrightarrow> no_usage b \<Longrightarrow> no_usage c \<Longrightarrow> no_usage p \<Longrightarrow> no_usage q \<Longrightarrow> no_usage r \<Longrightarrow>
   no_usage (case e of GetwdFailed \<Rightarrow> a | ReadFailed \<Rightarrow> b | ParseFailed \<Rightarrow> c | WriteFailed \<Rightarrow> p | RemoveFailed \<Rightarrow> q | LinkNotFound \<Rightarrow> r)"
  by (cases e) auto

section \<open>Sequences: checks first, effects after\<close>

lemma usage_clean_bind:
  assumes "usage_clean p" "idle p \<and> (\<forall>x. usage_clean (f x)) \<or> (\<forall>x. no_usage (f x))"
  shows "usage_clean (cli_bind p f)"
  unfolding usage_clean_def
proof (intro allI impI)
  fix w u
  assume err: "fst (cli_bind p f w) = Inl (UsageError u)"
  obtain r w1 where p: "p w = (r, w1)" by (cases "p w")
  show "untouched w (snd (cli_bind p f w))"
  proof (cases r)
    case (Inl e)
    then have bind: "cli_bind p f w = (Inl e, w1)" by (simp add: cli_bind_def p)
    with err have "fst (p w) = Inl (UsageError u)" by (simp add: p Inl)
    with assms(1) have "untouched w (snd (p w))" unfolding usage_clean_def by blast
    then show ?thesis by (simp add: bind p)
  next
    case (Inr x)
    then have bind: "cli_bind p f w = f x w1" by (simp add: cli_bind_def p)
    from assms(2) show ?thesis
    proof
      assume "idle p \<and> (\<forall>x. usage_clean (f x))"
      then have "untouched w (snd (p w))" and f: "usage_clean (f x)" unfolding idle_def by blast+
      moreover have "untouched w1 (snd (f x w1))"
        using f err unfolding bind usage_clean_def by blast
      ultimately show ?thesis
        unfolding bind by (simp add: p untouched_trans [of w w1])
    next
      assume "\<forall>x. no_usage (f x)"
      with err show ?thesis unfolding bind no_usage_def by blast
    qed
  qed
qed

text \<open>What may come first: a step without effect, or, before steps that cannot complain, any other.\<close>

lemma check_bind: "idle p \<Longrightarrow> (\<And>x. usage_clean (f x)) \<Longrightarrow> usage_clean (cli_bind p f)"
  by (simp add: usage_clean_bind usage_clean_idle)

lemma check_seq: "idle p \<Longrightarrow> usage_clean q \<Longrightarrow> usage_clean (cli_seq p q)"
  unfolding cli_seq_def by (rule check_bind)

lemma effect_seq: "usage_clean p \<Longrightarrow> no_usage q \<Longrightarrow> usage_clean (cli_seq p q)"
  unfolding cli_seq_def by (simp add: usage_clean_bind)

lemma usage_clean_if: "usage_clean p \<Longrightarrow> usage_clean q \<Longrightarrow> usage_clean (if b then p else q)"
  by simp

lemma usage_clean_err: "usage_clean (cli_err e)"
  by (rule usage_clean_idle) (rule effects)

lemma usage_clean_prod: "(\<And>a b. usage_clean (f a b)) \<Longrightarrow> usage_clean (case y of (a, b) \<Rightarrow> f a b)"
  by (cases y) auto

lemma usage_clean_option: "usage_clean p \<Longrightarrow> (\<And>x. usage_clean (f x)) \<Longrightarrow> usage_clean (case y of None \<Rightarrow> p | Some x \<Rightarrow> f x)"
  by (cases y) auto

lemma usage_clean_sum: "(\<And>e. usage_clean (p e)) \<Longrightarrow> (\<And>x. usage_clean (f x)) \<Longrightarrow> usage_clean (case y of Inl e \<Rightarrow> p e | Inr x \<Rightarrow> f x)"
  by (cases y) auto

lemma idle_environmentTarget: "idle (environmentTarget m cfg args)"
proof -
  have "idle (case y of (vs, rest) \<Rightarrow> withTarget m cfg vs False False)" for y :: "assignments \<times> string list"
    by (cases y) (simp add: idle_frame)
  then show ?thesis unfolding environmentTarget_def by (intro idle_bind idle_frame)
qed

text \<open>One rule per step a command may begin with, so that a proof follows the command.\<close>

lemma effect_onStore:
  "(\<And>x. no_usage (f x)) \<Longrightarrow> usage_clean (cli_bind (onStore s) f)"
  "no_usage q \<Longrightarrow> usage_clean (cli_seq (onStore s) q)"
  by (intro usage_clean_no_usage effects | assumption)+

lemmas checks = usage_clean_err usage_clean_if usage_clean_prod usage_clean_option usage_clean_sum
  check_bind [OF idle_frame(2)] check_bind [OF idle_frame(3)] check_bind [OF idle_frame(5)] check_bind [OF idle_basic(4)]
  check_bind [OF idle_environmentTarget] check_seq [OF idle_frame(1)] check_seq [OF idle_frame(4)] effect_onStore

lemma idle_clean: "usage_clean (say x)" "usage_clean (cli_ok y)"
  by (intro usage_clean_idle effects)+

section \<open>The commands\<close>

lemma no_usage_workingTree [effects]: "no_usage (workingTree m)"
  unfolding workingTree_def by (auto intro!: effects split: sum.splits option.splits)

lemma no_usage_prod [effects]: "(\<And>a b. no_usage (f a b)) \<Longrightarrow> no_usage (case y of (a, b) \<Rightarrow> f a b)"
  by (cases y) auto

lemma addServices_clean: "usage_clean (addDatabase m t engine)" "usage_clean (addCodeService m t img repo stateful)"
  unfolding addDatabase_def addCodeService_def by (intro checks effects)+

text \<open>Where there is no link, the update leaves the disk alone.\<close>

lemma updateLink_NotFound: "updateLink c f wd d = (Inl LinkNotFound, d') \<Longrightarrow> d' = d"
  by (auto simp: updateLink_def Let_def split: sum.splits option.splits prod.splits if_splits)

lemma select_clean:
  "usage_clean (cli_bind (onLink (SetEnvironment c name wd)) (\<lambda>r. case r of
      Inl LinkNotFound \<Rightarrow> usageErr NoLinkHere
    | Inl e \<Rightarrow> cli_err (Failed (LinkFailed e))
    | Inr dir \<Rightarrow> say (SelectedEnvironment name dir)))"
  unfolding usage_clean_def
  by (auto simp: cli_bind_def onLink_def cli_err_def say_def SetEnvironment_def untouched_def
      split: sum.splits linkError.splits prod.splits dest: updateLink_NotFound)

lemma selectEnvironment_clean: "usage_clean (selectEnvironmentCmd m cfg args)"
  unfolding selectEnvironmentCmd_def Let_def
  by (intro usage_clean_prod usage_clean_if usage_clean_err select_clean check_bind [OF idle_frame(3)])

lemma cmdUnlink_clean: "usage_clean (cmdUnlink m args)"
  unfolding cmdUnlink_def by (auto simp: usage_clean_def cli_err_def say_def split: prod.splits sum.splits)

lemma commands_clean:
  "usage_clean (cmdInit m cfg args)" "usage_clean (cmdLink m cfg args)" "usage_clean (cmdConfig m cfg args)"
  "usage_clean (cmdAdd m cfg args)" "usage_clean (cmdEnvironment m cfg args)" "usage_clean (cmdService m cfg args)"
  "usage_clean (cmdUp m cfg args)" "usage_clean (cmdRollback m cfg args)" "usage_clean (cmdDown m cfg args)"
  "usage_clean (cmdScale m cfg args)" "usage_clean (cmdVolume m cfg args)" "usage_clean (cmdStatus m cfg args)"
proof -
  show "usage_clean (cmdInit m cfg args)"
    unfolding cmdInit_def Let_def by (intro checks effects)
  show "usage_clean (cmdLink m cfg args)"
    unfolding cmdLink_def Let_def by (intro checks effects)
  show "usage_clean (cmdConfig m cfg args)"
    unfolding cmdConfig_def Let_def by (intro checks idle_clean)
  have "no_usage (linkToService m t)" for t
    unfolding linkToService_def by (intro effects)
  then show "usage_clean (cmdAdd m cfg args)"
    unfolding cmdAdd_def Let_def
    by (intro checks effect_seq addServices_clean) (intro effects)
  show "usage_clean (cmdEnvironment m cfg args)"
    unfolding cmdEnvironment_def Let_def printCurrentEnvironment_def cmdListEnvironments_def cmdCreateEnvironment_def
    by (intro checks effects idle_clean selectEnvironment_clean)
  show "usage_clean (cmdService m cfg args)"
    unfolding cmdService_def Let_def selectServiceCmd_def listServicesCmd_def by (intro checks effects)
  show "usage_clean (cmdUp m cfg args)"
    unfolding cmdUp_def Let_def upDeploy_def by (intro checks effects)
  show "usage_clean (cmdRollback m cfg args)"
    unfolding cmdRollback_def by (intro checks effects)
  show "usage_clean (cmdDown m cfg args)"
    unfolding cmdDown_def by (intro checks effects idle_clean)
  show "usage_clean (cmdScale m cfg args)"
    unfolding cmdScale_def partitionRegionCounts_def Let_def by (intro checks effects)
  show "usage_clean (cmdVolume m cfg args)"
    unfolding cmdVolume_def Let_def volumeAdd_def volumeUpdate_def volumeRevert_def volumeRemove_def listVolumesCmd_def
    by (intro checks effects)
  show "usage_clean (cmdStatus m cfg args)"
    unfolding cmdStatus_def Let_def by (intro checks effects)
qed

end
