(* ===== verification/CliProperties.thy ===== *)
theory CliProperties
  imports CliCorrect CliUsage
begin

text \<open>
  The properties of the command line as a whole. Its parts meet here: flags, link and settings in the
  target, the spec file and the builder in what \<^verbatim>\<open>up\<close> commits, the disk and the database in \<^verbatim>\<open>init\<close>.
\<close>

section \<open>Usage errors\<close>

lemma exitCode_2: "exitCode r = 2 \<longleftrightarrow> (\<exists>u. r = Inl (UsageError u))"
  by (auto simp: exitCode_def split: sum.splits cliError.splits)

lemma control_clean:
  assumes "control m cfg name args = Some cmd"
  shows "usage_clean cmd"
proof -
  have "pred_option usage_clean (control m cfg name args)"
    unfolding control_def by (intro dispatch commands_clean cmdUnlink_clean)
  with assms show ?thesis by simp
qed

text \<open>
  C36: An invocation that exits with 2, the code of a bad invocation, has touched nothing: the disk is as
  it was, no transaction has been run on the database, not even one that reads. Whatever is wrong with the
  arguments of any command is found before its first effect.
\<close>

theorem bad_invocation_touches_nothing:
  assumes "fst (RunControl m args w) = 2"
  shows "w_Disk (snd (RunControl m args w)) = w_Disk w \<and> w_Store (snd (RunControl m args w)) = w_Store w"
proof (rule RunControl_cases [of m args w])
  fix x assume "snd (RunControl m args w) = w\<lparr>w_Out := x\<rparr>"
  then show ?thesis by simp
next
  fix name rest cfg cmd
  assume cmd: "control m cfg name rest = Some cmd" and run: "RunControl m args w = (exitCode (fst (cmd w)), snd (cmd w))"
  with assms obtain u where "fst (cmd w) = Inl (UsageError u)" by (auto simp: exitCode_2)
  with control_clean [OF cmd] show ?thesis
    unfolding run usage_clean_def untouched_def by simp
qed

section \<open>Sizes of volumes\<close>

lemma to_int64_period: "to_int64 (n + 2 ^ 64 * k) = to_int64 n"
proof -
  have "n + 2 ^ 64 * k + 2 ^ 63 = (n + 2 ^ 63) + k * 2 ^ 64" by simp
  then show ?thesis by (simp only: to_int64_def mod_mult_self1)
qed

lemma gib_period: "to_int64 ((n + 2 ^ 34 * k) * gib) = to_int64 (n * gib)"
proof -
  have "(n + 2 ^ 34 * k) * gib = n * gib + 2 ^ 64 * k"
    by (simp add: gib_def algebra_simps)
  then show ?thesis by (simp only: to_int64_period)
qed

lemma gib_exact: "0 \<le> n \<Longrightarrow> n < 2 ^ 33 \<Longrightarrow> to_int64 (n * gib) = n * gib"
  by (rule to_int64_id) (simp add: is_int64_def gib_def)

text \<open>
  A size in GiB below 2^33 reaches the control plane as that many bytes; from there on the product
  with 2^30 wraps, and nothing refuses it: a size of 2^34 GiB adds a volume as a size of 0 does, of the
  default 1 GiB, and a grow to n + 2^34 GiB is a grow to n.
\<close>

theorem volume_sizes_wrap:
  "(\<forall>n. 0 \<le> n \<and> n < 2 ^ 33 \<longrightarrow> to_int64 (n * gib) = n * gib)
   \<and> volumeAdd m t mount (2 ^ 34) = volumeAdd m t mount 0
   \<and> (\<forall>n. 0 < n \<longrightarrow> volumeUpdate m t mount (n + 2 ^ 34) = volumeUpdate m t mount n)"
proof (intro conjI allI impI)
  fix n :: int
  assume "0 < n"
  moreover have "to_int64 ((n + 2 ^ 34) * gib) = to_int64 (n * gib)"
    using gib_period [of n 1] by simp
  ultimately show "volumeUpdate m t mount (n + 2 ^ 34) = volumeUpdate m t mount n"
    by (simp add: volumeUpdate_def)
next
  have "to_int64 (2 ^ 34 * gib) = 0"
    using gib_period [of 0 1] by (simp add: to_int64_def)
  then show "volumeAdd m t mount (2 ^ 34) = volumeAdd m t mount 0"
    by (simp add: volumeAdd_def)
qed (simp add: gib_exact)

theorem volume_sizes_wrap_witness:
  "to_int64 (5 * gib) = 5 * gib \<and> (\<forall>m t mount. volumeUpdate m t mount 17179869185 = volumeUpdate m t mount 1)"
proof (intro conjI allI)
  fix m t mount
  have "volumeUpdate m t mount (1 + 2 ^ 34) = volumeUpdate m t mount 1"
    using volume_sizes_wrap [of m t mount] by (meson zero_less_one)
  then show "volumeUpdate m t mount 17179869185 = volumeUpdate m t mount 1" by simp
next
  show "to_int64 (5 * gib) = 5 * gib"
    using volume_sizes_wrap [of undefined undefined undefined] by (auto)
qed

section \<open>Flags that are not read\<close>

lemma help_first: "parseFlags flags (''--help'' # args) = (if flags ''help'' = None then Inl HelpWanted else parseFlags flags (''--help'' # args))"
  by (auto simp: splitFlag_def Cut_def)

text \<open>
  A request for help prints the usage and does nothing in every command that parses flags - except
  \<^verbatim>\<open>unlink\<close>, which looks at its arguments only to refuse a positional one: with a flag it removes the
  link all the same.
\<close>

theorem help_unlinks:
  "cmdUnlink m (''--help'' # args) = cmdUnlink m []
   \<and> (\<forall>cmd \<in> set [cmdInit m cfg, cmdLink m cfg, cmdConfig m cfg, cmdAdd m cfg, cmdEnvironment m cfg, cmdService m cfg,
          cmdUp m cfg, cmdRollback m cfg, cmdDown m cfg, cmdScale m cfg, cmdStatus m cfg].
        cmd [''--help''] w = (Inl HelpShown, w\<lparr>w_Out := w_Out w @ [UsageText]\<rparr>))"
proof
  show "cmdUnlink m (''--help'' # args) = cmdUnlink m []"
    by (simp add: cmdUnlink_def hasPrefix_def)
  have parse: "parseArgs flags [''--help''] w = (Inl HelpShown, w\<lparr>w_Out := w_Out w @ [UsageText]\<rparr>)"
    if "map_of flags ''help'' = None" for flags
    using that by (simp add: parseArgs_def help_first cli_seq_def cli_bind_def say_def cli_err_def del: parseFlags.simps)
  note parses = projectFlags_def environmentFlags_def serviceFlags_def targetFlags_def addFlags_def
  have "cmdScale m cfg [''--help''] w = (Inl HelpShown, w\<lparr>w_Out := w_Out w @ [UsageText]\<rparr>)"
    unfolding cmdScale_def partitionRegionCounts_def by (simp add: isPair_def hasPrefix_def cli_bind_def parse parses)
  moreover have "cmdEnvironment m cfg [''--help''] w = (Inl HelpShown, w\<lparr>w_Out := w_Out w @ [UsageText]\<rparr>)"
    unfolding cmdEnvironment_def splitSubcommand_def printCurrentEnvironment_def environmentTarget_def
    by (simp add: hasPrefix_def cli_bind_def parse parses)
  ultimately show "\<forall>cmd \<in> set [cmdInit m cfg, cmdLink m cfg, cmdConfig m cfg, cmdAdd m cfg, cmdEnvironment m cfg, cmdService m cfg,
          cmdUp m cfg, cmdRollback m cfg, cmdDown m cfg, cmdScale m cfg, cmdStatus m cfg].
        cmd [''--help''] w = (Inl HelpShown, w\<lparr>w_Out := w_Out w @ [UsageText]\<rparr>)"
    by (simp add: cmdInit_def cmdLink_def cmdConfig_def cmdAdd_def cmdService_def cmdUp_def cmdRollback_def cmdDown_def
        cmdStatus_def cli_bind_def parse parses)
qed

text \<open>
  Scaling to zero reads no flag after a positional argument: naming a service, or anything that is no
  flag, hides the environment and service that follow it, and the command acts on the linked ones without
  a word. The commands \<^verbatim>\<open>up\<close>, \<^verbatim>\<open>rollback\<close> and \<^verbatim>\<open>scale\<close> refuse such an argument.
\<close>

theorem down_ignores_flags_after_positional:
  assumes "stops (x # args)"
  shows "cmdDown m cfg (''--yes'' # x # args) = cmdDown m cfg [''--yes'']
    \<and> cmdUp m cfg (x # args) w = (Inl (UsageError (UnexpectedArgument x)), w)
    \<and> cmdRollback m cfg (x # args) w = (Inl (UsageError (UnexpectedArgument x)), w)"
proof -
  have yes: "parseFlags flags (''--yes'' # rest) = Inr ([(''yes'', BoolValue True)], rest)"
    if "flags ''yes'' = Some BoolFlag" "stops rest" for flags rest
    using that parseFlags_stops [of rest flags] by (simp add: splitFlag_def Cut_def setFlag_def ParseBool_def)
  have down: "cmdDown m cfg (''--yes'' # rest) w' = cli_bind (withTarget m cfg [(''yes'', BoolValue True)] True True) (\<lambda>t.
      cli_seq (connect m cfg) (cli_seq (onStore (WithTx (mc_Writers m) (down t))) (say (ScaledDown t)))) w'"
    if "stops rest" for rest w'
    using that unfolding cmdDown_def parseArgs_def
    by (subst yes) (simp_all add: targetFlags_def projectFlags_def environmentFlags_def serviceFlags_def
        cli_bind_def [of "cli_ok _"] cli_ok_def boolVar_def lastSet_def)
  have "cmdDown m cfg (''--yes'' # x # args) = cmdDown m cfg [''--yes'']"
    using assms by (intro ext) (simp only: down stops_def refl simp_thms)
  moreover have "cmdUp m cfg (x # args) w = (Inl (UsageError (UnexpectedArgument x)), w)"
    "cmdRollback m cfg (x # args) w = (Inl (UsageError (UnexpectedArgument x)), w)"
    using parseFlags_stops [OF assms]
    by (simp_all add: cmdUp_def cmdRollback_def parseArgs_def cli_bind_def cli_ok_def cli_err_def del: parseFlags.simps)
  ultimately show ?thesis by blast
qed

section \<open>A directory initialised once\<close>

lemma createProject_names:
  assumes "createProject name env db = Inr (p, db')"
  shows "\<exists>p'. GetProject name db' = Inr (p', db')" "\<exists>e. GetEnvironment name env db' = Inr (e, db')"
proof -
  from assms obtain p0 db0 e where p0: "CreateProject name db = Inr (p0, db0)" and e: "CreateEnvironment name env db0 = Inr (e, db')"
    by (auto simp: createProject_def op_bind_def op_ok_def st_def split: sum.splits)
  from e have rows: "name \<in> pr_Name ` set (db_projects db')" "e \<in> set (db_environments db')"
    "env_ProjectName e = name" "env_Name e = env"
    by (auto simp: CreateEnvironment_def q_CreateEnvironment_def freshID_def Let_def split: if_splits)
  then have "filter (\<lambda>p. pr_Name p = name) (db_projects db') \<noteq> []"
    "filter (\<lambda>e. env_ProjectName e = name \<and> env_Name e = env) (db_environments db') \<noteq> []"
    by (auto simp: filter_empty_conv)
  then show "\<exists>p'. GetProject name db' = Inr (p', db')" "\<exists>e. GetEnvironment name env db' = Inr (e, db')"
    by (auto simp: GetProject_def q_GetProject_def GetEnvironment_def q_GetEnvironment_def queryRow_def split: list.splits)
qed

lemma verifyTarget_named:
  assumes "\<exists>p. GetProject name db = Inr (p, db)" "\<exists>e. GetEnvironment name env db = Inr (e, db)"
  shows "fst (verifyTarget quiet \<lparr>tg_Project = name, tg_Environment = env, tg_Service = ''''\<rparr> (k, db)) = Inr ()"
  using assms by (auto simp: verifyTarget_def run_bind_def run_ok_def stmt_def st_def WithTx_def quiet_def Let_def)

lemma cmdInit_Inr:
  assumes "cmdInit m cfg args w = (Inr (), w')"
  obtains name db p where "createProject name LinkEnvironment db = Inr (p, snd (w_Store w'))" "mc_GetwdOK m" "name \<noteq> ''''"
    "SaveLink (mc_Link m) (mc_Cwd m) \<lparr>tg_Project = name, tg_Environment = LinkEnvironment, tg_Service = ''''\<rparr> (w_Disk w) = (True, w_Disk w')"
    "w_Out w' = w_Out w @ [CreatedProject name (linkPath (mc_Cwd m))]"
  using assms
  by (auto simp: cmdInit_def parseArgs_def cli_seq_def cli_bind_def cli_ok_def cli_err_def connect_def onStore_def WithTx_def
      workDir_def getwd_def save_def say_def Let_def split: sum.splits flagError.splits prod.splits if_splits)

text \<open>
  C39: After a successful \<^verbatim>\<open>init\<close> the project and its default environment exist, and from the directory it
  ran in and from every directory below it that has no link of its own in between, a command given no
  flags, with nothing set in the environment, is aimed at exactly them: the target it resolves is found in
  the database. The name has to be valid UTF-8, the only text that the link's JSON keeps.
\<close>

theorem init_serves_subtree:
  assumes "cmdInit m cfg args w = (Inr (), w')"
    and "linkCodec_ok (mc_Link m)" "nodeAt (w_Disk w) (mc_Cwd m) = Some Dir"
    and "\<not> dk_refuses (w_Disk w) SysRead (linkPath (mc_Cwd m))" "\<not> dk_refuses (w_Disk w) SysStat (linkPath (mc_Cwd m))"
    and "\<And>k. k \<noteq> [] \<Longrightarrow> (\<exists>a. a @ k = sub) \<Longrightarrow> \<not> statOK (w_Disk w) (linkPath (k @ mc_Cwd m))"
    and "configTarget cfg' = \<lparr>tg_Project = '''', tg_Environment = '''', tg_Service = ''''\<rparr>"
  shows "\<exists>name. w_Out w' = w_Out w @ [CreatedProject name (linkPath (mc_Cwd m))]
    \<and> (validUTF8 name \<longrightarrow> resolve (m\<lparr>mc_Cwd := sub @ mc_Cwd m\<rparr>) cfg' (flagTarget []) True (w_Disk w')
        = \<lparr>tg_Project = name, tg_Environment = LinkEnvironment, tg_Service = ''''\<rparr>)
    \<and> fst (verifyTarget quiet \<lparr>tg_Project = name, tg_Environment = LinkEnvironment, tg_Service = ''''\<rparr> (w_Store w')) = Inr ()"
proof (rule cmdInit_Inr [OF assms(1)])
  fix name db p
  let ?t = "\<lparr>tg_Project = name, tg_Environment = LinkEnvironment, tg_Service = ''''\<rparr>"
  assume created: "createProject name LinkEnvironment db = Inr (p, snd (w_Store w'))" and wd: "mc_GetwdOK m"
    and save: "SaveLink (mc_Link m) (mc_Cwd m) ?t (w_Disk w) = (True, w_Disk w')"
    and out: "w_Out w' = w_Out w @ [CreatedProject name (linkPath (mc_Cwd m))]"
  have "LoadLink (mc_Link m) (Some (sub @ mc_Cwd m)) (w_Disk w') = Inr (Some (?t, mc_Cwd m))" if "validUTF8 name"
    by (rule save_load [OF save assms(3,2) _ assms(4,5,6)])
      (use that in \<open>simp_all add: validTarget_def validUTF8_def LinkEnvironment_def\<close>)
  then have "validUTF8 name \<longrightarrow> resolve (m\<lparr>mc_Cwd := sub @ mc_Cwd m\<rparr>) cfg' (flagTarget []) True (w_Disk w') = ?t"
    using wd assms(7) by (simp add: resolve_def getwd_def fillTarget_def flagTarget_def stringVar_def lastSet_def orFallback_def)
  moreover have "fst (verifyTarget quiet ?t (w_Store w')) = Inr ()"
    using verifyTarget_named [OF createProject_names [OF created], of "fst (w_Store w')"] by simp
  ultimately show ?thesis using out by blast
qed

section \<open>Scaling to zero\<close>

lemma zeroed_regions:
  "map_of (map (\<lambda>r. (dr_Region r, dr_Replicas r)) (filter (\<lambda>r. dr_DeploymentID r = j)
      (map (\<lambda>r. if dr_DeploymentID r = i then r\<lparr>dr_Replicas := n\<rparr> else r) rows)))
   = (let old = map_of (map (\<lambda>r. (dr_Region r, dr_Replicas r)) (filter (\<lambda>r. dr_DeploymentID r = j) rows))
      in if j = i then map_option (\<lambda>_. n) \<circ> old else old)"
  by (induction rows) (auto simp: fun_eq_iff Let_def)

lemma down_Inr:
  assumes "down t db = Inr (x, db')"
  obtains b cur where "b \<in> set (bindings db)" "targeted (tg_Project t) (tg_Environment t) (tg_Service t) b"
    "cur \<in> set (deploymentsOf db (es_ID (fst b)))" "dep_IsCurrent cur" "regionsOnly db db'"
    "regionsOf db' = (regionsOf db)(dep_ID cur := map_option (\<lambda>_. 0) \<circ> regionsOf db (dep_ID cur))"
proof -
  from assms obtain i where i: "CurrentDeploymentID (tg_Project t) (tg_Environment t) (tg_Service t) db = Inr (i, db)"
    and db': "db' = db\<lparr>db_deploymentRegions :=
      map (\<lambda>r. if dr_DeploymentID r = i then r\<lparr>dr_Replicas := 0\<rparr> else r) (db_deploymentRegions db)\<rparr>"
    by (auto simp: down_def currentID_def op_bind_def st_def ZeroDeploymentRegions_def CurrentDeploymentID_def
        q_CurrentDeploymentID_def mapError_def queryRow_def split: sum.splits list.splits)
  let ?hit = "\<lambda>d. dep_IsCurrent d \<and> list_ex (\<lambda>b. es_ID (fst b) = dep_EnvironmentServiceID d
      \<and> targeted (tg_Project t) (tg_Environment t) (tg_Service t) b) (bindings db)"
  from i obtain d ds where "filter ?hit (db_deployments db) = d # ds" "i = dep_ID d"
    by (auto simp: CurrentDeploymentID_def q_CurrentDeploymentID_def mapError_def queryRow_def split: list.splits sum.splits)
  then have "i \<in> dep_ID ` set (filter ?hit (db_deployments db))" by (metis imageI list.set_intros(1))
  then obtain cur b where hit: "b \<in> set (bindings db)" "targeted (tg_Project t) (tg_Environment t) (tg_Service t) b"
    "cur \<in> set (deploymentsOf db (es_ID (fst b)))" "dep_IsCurrent cur" "i = dep_ID cur"
    by (auto simp: deploymentsOf_def list_ex_iff)
  have "regionsOf db' j = (if j = i then map_option (\<lambda>_. 0) \<circ> regionsOf db i else regionsOf db j)" for j
    by (simp add: regionsOf_def db' zeroed_regions Let_def)
  then have "regionsOf db' = (regionsOf db)(dep_ID cur := map_option (\<lambda>_. 0) \<circ> regionsOf db (dep_ID cur))"
    by (auto simp: hit(5))
  moreover have "regionsOnly db db'" by (simp add: regionsOnly_def db')
  ultimately show thesis using hit that by blast
qed

lemma withTarget_cases:
  obtains (missing) u where "withTarget m cfg vs True True w = (Inl (UsageError u), w)"
  | (complete) t where "t = resolve m cfg (flagTarget vs) True (w_Disk w)" "tg_Project t \<noteq> ''''" "tg_Environment t \<noteq> ''''"
      "tg_Service t \<noteq> ''''" "withTarget m cfg vs True True w = (Inr t, w)"
  by (cases "missingTarget (resolve m cfg (flagTarget vs) True (w_Disk w)) True True = []")
    (auto simp: withTarget_def cli_bind_def getDisk_def cli_seq_def require_def cli_err_def cli_ok_def Let_def missingTarget_def
      split: if_splits)

text \<open>
  C37: \<^verbatim>\<open>down\<close> needs consent: when it has run a transaction at all, its flags were read without error, the target
  they give with the settings and the link is complete, and \<^verbatim>\<open>--yes\<close> was set or a line of consent read. Then
  either it reports success, and the regions of the target's current version - found in the state
  the other writers left - all want zero replicas, every other version keeps its counts and no other row
  differs, so that volumes and replicas are preserved; or it fails, and has itself changed nothing. The
  disk is untouched.
\<close>

theorem down_needs_consent:
  assumes "cmdDown m cfg args w = (r, w')" and "w_Store w' \<noteq> w_Store w"
  shows "\<exists>vs rest t. parseFlags (map_of (targetFlags @ [(''yes'', BoolFlag)])) args = Inr (vs, rest)
    \<and> t = resolve m cfg (flagTarget vs) True (w_Disk w)
    \<and> tg_Project t \<noteq> '''' \<and> tg_Environment t \<noteq> '''' \<and> tg_Service t \<noteq> ''''
    \<and> (boolVar [''yes''] False vs \<or> confirm m) \<and> w_Disk w' = w_Disk w
    \<and> (let db = mc_Writers m (fst (w_Store w)) (snd (w_Store w)); db' = snd (w_Store w')
       in if r = Inr ()
          then w_Out w' = w_Out w @ [ScaledDown t] \<and> regionsOnly db db'
            \<and> (\<exists>b \<in> set (bindings db). \<exists>cur \<in> set (deploymentsOf db (es_ID (fst b))).
                targeted (tg_Project t) (tg_Environment t) (tg_Service t) b \<and> dep_IsCurrent cur
                \<and> regionsOf db' = (regionsOf db)(dep_ID cur := map_option (\<lambda>_. 0) \<circ> regionsOf db (dep_ID cur)))
          else w_Out w' = w_Out w \<and> db' = db)"
proof -
  let ?flags = "targetFlags @ [(''yes'', BoolFlag)]"
  obtain vs rest where parse: "parseFlags (map_of ?flags) args = Inr (vs, rest)"
    using assms by (cases "parseFlags (map_of ?flags) args")
      (auto simp: cmdDown_def parseArgs_def cli_bind_def cli_seq_def cli_err_def say_def simp del: map_of_append split: flagError.splits)
  then have args: "parseArgs ?flags args = cli_ok (vs, rest)" by (simp add: parseArgs_def del: map_of_append)
  show ?thesis
  proof (cases rule: withTarget_cases [of m cfg vs w])
    case (missing u)
    with assms show ?thesis by (simp add: cmdDown_def args cli_bind_def cli_ok_def)
  next
    case (complete t)
    have yes: "boolVar [''yes''] False vs \<or> confirm m" and reach: "mc_Reachable m (cf_DatabaseURL cfg)"
      using assms complete(5)
      by (auto simp: cmdDown_def args cli_bind_def cli_ok_def cli_seq_def connect_def cli_err_def say_def split: if_splits)
    let ?db = "mc_Writers m (fst (w_Store w)) (snd (w_Store w))"
    have run: "cli_seq (onStore (WithTx (mc_Writers m) (down t))) (say (ScaledDown t)) w = (r, w')"
      using assms(1) yes reach complete(5)
      by (auto simp: cmdDown_def args cli_bind_def cli_ok_def cli_seq_def connect_def split: if_splits)
    show ?thesis
    proof (cases "down t ?db")
      case (Inl e)
      with run have "r = Inl (Failed (StoreFailed e)) \<and> w' = w\<lparr>w_Store := (Suc (fst (w_Store w)), ?db)\<rparr>"
        by (auto simp: cli_seq_def cli_bind_def onStore_def WithTx_def Let_def)
      with parse complete yes show ?thesis by auto
    next
      case (Inr y)
      then obtain db' where db': "down t ?db = Inr ((), db')" by (cases y) auto
      with run have w': "r = Inr ()" "w' = w\<lparr>w_Store := (Suc (fst (w_Store w)), db'), w_Out := w_Out w @ [ScaledDown t]\<rparr>"
        by (auto simp: cli_seq_def cli_bind_def onStore_def WithTx_def Let_def say_def)
      have only: "regionsOnly ?db db'" by (rule down_Inr [OF db'])
      have zeroed: "\<exists>b \<in> set (bindings ?db). \<exists>cur \<in> set (deploymentsOf ?db (es_ID (fst b))).
          targeted (tg_Project t) (tg_Environment t) (tg_Service t) b \<and> dep_IsCurrent cur
          \<and> regionsOf db' = (regionsOf ?db)(dep_ID cur := map_option (\<lambda>_. 0) \<circ> regionsOf ?db (dep_ID cur))"
        by (rule down_Inr [OF db']) blast
      have "snd (w_Store w') = db'" "w_Disk w' = w_Disk w" "w_Out w' = w_Out w @ [ScaledDown t]"
        by (simp_all add: w'(2))
      with only zeroed parse complete(1-4) yes show ?thesis
        by (intro exI [of _ vs] exI [of _ rest] exI [of _ t]) (simp only: Let_def w'(1) if_True simp_thms)
    qed
  qed
qed

section \<open>What is shown is what is deployed\<close>

text \<open>One step of a successful parse, for every flag set that declares the flag it reads.\<close>

lemma parseFlags_step:
  assumes "parseFlags flags (s # args) = Inr (vs, rest)"
  obtains (stop) "vs = []" and "\<And>flags'. parseFlags flags' (s # args) = Inr ([], rest)"
  | (flagged) n kind v args' vs' where "flags n = Some kind" "vs = (n, v) # vs'" "parseFlags flags args' = Inr (vs', rest)"
      "length args' \<le> length args"
      "\<And>flags' us. flags' n = Some kind \<Longrightarrow> parseFlags flags' args' = Inr (us, rest) \<Longrightarrow> parseFlags flags' (s # args) = Inr ((n, v) # us, rest)"
proof (cases "(length s < 2 \<or> hd s \<noteq> CHR ''-'') \<or> s = ''--''")
  case True
  then have "parseFlags flags' (s # args) = parseFlags flags (s # args)" for flags' by auto
  moreover have "vs = []" using True assms by (auto split: if_splits)
  ultimately show thesis using assms by (intro stop) simp_all
next
  case False
  define name where "name = (if s ! 1 = CHR ''-'' then drop 2 s else drop 1 s)"
  obtain n val where nv: "splitFlag name = (n, val)" by fastforce
  let ?ok = "\<lambda>flags' kind t as. case setFlag kind n t of Inl e \<Rightarrow> Inl e
      | Inr v \<Rightarrow> map_sum id (\<lambda>(vs, rest). ((n, v) # vs, rest)) (parseFlags flags' as)"
  have good: "\<not> (name = [] \<or> hd name = CHR ''-'' \<or> hd name = CHR ''='')"
    using assms False by (auto simp: name_def split: if_splits)
  have step: "parseFlags flags' (s # args) =
      (case flags' n of None \<Rightarrow> if n = ''help'' \<or> n = ''h'' then Inl HelpWanted else Inl (NotDefined n)
       | Some BoolFlag \<Rightarrow> ?ok flags' BoolFlag (case val of None \<Rightarrow> ''true'' | Some v \<Rightarrow> v) args
       | Some kind \<Rightarrow> (case val of Some t \<Rightarrow> ?ok flags' kind t args
           | None \<Rightarrow> (case args of [] \<Rightarrow> Inl (NeedsArgument n) | t # args' \<Rightarrow> ?ok flags' kind t args')))" for flags'
    using False good nv unfolding parseFlags.simps by (simp only: Let_def name_def [symmetric] if_False prod.case de_Morgan_disj simp_thms)
  obtain kind where kind: "flags n = Some kind"
    using assms unfolding step by (cases "flags n") (auto split: if_splits)
  define t where "t = (case val of Some t \<Rightarrow> t | None \<Rightarrow> if kind = BoolFlag then ''true'' else hd args)"
  define as where "as = (if kind = BoolFlag \<or> val \<noteq> None then args else tl args)"
  have as: "length as \<le> length args" by (simp add: as_def)
  have run: "parseFlags flags' (s # args) = ?ok flags' kind t as" if "flags' n = Some kind" for flags'
    using assms kind that unfolding step t_def as_def by (cases kind; cases val; cases args) (simp_all cong: sum.case_cong)
  from assms run [of flags, OF kind] obtain v vs' where v: "setFlag kind n t = Inr v" and vs: "vs = (n, v) # vs'" "parseFlags flags as = Inr (vs', rest)"
    by (cases "setFlag kind n t"; cases "parseFlags flags as") auto
  show thesis
    by (rule flagged [OF kind vs as]) (simp del: parseFlags.simps add: run v)
qed

lemma parseFlags_names: "parseFlags flags args = Inr (vs, rest) \<Longrightarrow> (n, v) \<in> set vs \<Longrightarrow> flags n \<noteq> None"
proof (induction "length args" arbitrary: args vs rule: less_induct)
  case less
  show ?case
  proof (cases args)
    case Nil
    with less.prems show ?thesis by simp
  next
    case (Cons s as)
    with less.prems(1) have "parseFlags flags (s # as) = Inr (vs, rest)" by simp
    then show ?thesis
    proof (cases rule: parseFlags_step)
      case stop
      with less.prems(2) show ?thesis by simp
    next
      case (flagged n' kind v' args' vs')
      from flagged(1,2) less.prems(2) less.hyps [OF _ flagged(3)] flagged(4) Cons show ?thesis by auto
    qed
  qed
qed

lemma parseFlags_more:
  assumes "\<And>n k. flags n = Some k \<Longrightarrow> flags' n = Some k"
  shows "parseFlags flags args = Inr (vs, rest) \<Longrightarrow> parseFlags flags' args = Inr (vs, rest)"
proof (induction "length args" arbitrary: args vs rule: less_induct)
  case less
  show ?case
  proof (cases args)
    case Nil
    with less.prems show ?thesis by simp
  next
    case (Cons s as)
    with less.prems(1) have "parseFlags flags (s # as) = Inr (vs, rest)" by simp
    then show ?thesis
    proof (cases rule: parseFlags_step)
      case stop
      with Cons show ?thesis by simp
    next
      case (flagged n' kind v' args' vs')
      have "parseFlags flags' args' = Inr (vs', rest)"
        by (rule less.hyps [OF _ flagged(3)]) (use flagged(4) Cons in simp)
      from flagged(5) [OF assms [OF flagged(1)] this] show ?thesis by (simp add: Cons flagged(2))
    qed
  qed
qed

text \<open>A step that returned has run its parts in order.\<close>

lemma cli_Inr:
  "cli_bind p f w = (Inr x, w') \<longleftrightarrow> (\<exists>y w1. p w = (Inr y, w1) \<and> f y w1 = (Inr x, w'))"
  "cli_seq p q w = (Inr z, w') \<longleftrightarrow> (\<exists>y w1. p w = (Inr y, w1) \<and> q w1 = (Inr z, w'))"
  "connect m cfg w = (Inr u, w') \<Longrightarrow> w' = w"
  "onStore s w = (Inr v, w') \<longleftrightarrow> s (w_Store w) = (Inr v, w_Store w') \<and> w' = w\<lparr>w_Store := w_Store w'\<rparr>"
  "cli_ok y w = (Inr x, w') \<longleftrightarrow> x = y \<and> w' = w"
  "cli_err e w \<noteq> (Inr x, w')"
proof -
  show "onStore s w = (Inr v, w') \<longleftrightarrow> s (w_Store w) = (Inr v, w_Store w') \<and> w' = w\<lparr>w_Store := w_Store w'\<rparr>"
    by (cases w; cases w') (auto simp: onStore_def split: sum.splits prod.splits)
qed (auto simp: cli_seq_def cli_bind_def connect_def cli_ok_def cli_err_def split: sum.splits prod.splits if_splits)

lemma workingTree_Inr: "workingTree m w = (Inr dir, w') \<Longrightarrow> w' = w"
  by (auto simp: workingTree_def cli_Inr getDisk_def workDir_def split: sum.splits option.splits)

lemma upDeploy_Inr:
  assumes "upDeploy m cfg t bld dep w = (Inr (), w')"
  obtains found ks img res where "serviceSource m t (w_Store w) = (Inr found, ks)"
    "deploy (upInput cfg t dep img) (mc_Writers m (fst ks) (snd ks)) = Inr (res, snd (w_Store w'))"
proof -
  from assms obtain w0 found w1 where w0: "connect m cfg w = (Inr (), w0)"
    and src: "serviceSource m t (w_Store w0) = (Inr (Some found), w_Store w1)"
    and rest: "cli_bind (if so_Image (ss_Source found) = '''' \<and> so_Repo (ss_Source found) = ''''
          then cli_bind (workingTree m) (\<lambda>dir. cli_ok (pathText dir)) else cli_ok (so_Repo (ss_Source found))) (\<lambda>repo.
        case ResolveImage (mc_Builder m) (buildRequest t bld repo) (so_Image (ss_Source found)) of
          Inl e \<Rightarrow> cli_err (Failed (NoImage e))
        | Inr img \<Rightarrow>
            cli_bind (onStore (Service_Deploy (mc_Writers m) (upInput cfg t dep img))) (\<lambda>res.
              say (Deployed t (dres_Version res) (RegionOrDefault dep) (countAt (dres_Replicas res) (RegionOrDefault dep)) img)))
        w1 = (Inr (), w')"
    unfolding upDeploy_def cli_Inr by (auto simp: cli_Inr split: option.splits)
  from rest obtain repo w2 where repo: "(if so_Image (ss_Source found) = '''' \<and> so_Repo (ss_Source found) = ''''
          then cli_bind (workingTree m) (\<lambda>dir. cli_ok (pathText dir)) else cli_ok (so_Repo (ss_Source found))) w1 = (Inr repo, w2)"
    and img: "(case ResolveImage (mc_Builder m) (buildRequest t bld repo) (so_Image (ss_Source found)) of
          Inl e \<Rightarrow> cli_err (Failed (NoImage e))
        | Inr img \<Rightarrow>
            cli_bind (onStore (Service_Deploy (mc_Writers m) (upInput cfg t dep img))) (\<lambda>res.
              say (Deployed t (dres_Version res) (RegionOrDefault dep) (countAt (dres_Replicas res) (RegionOrDefault dep)) img)))
        w2 = (Inr (), w')"
    unfolding cli_Inr by blast
  from repo have "w2 = w1"
    by (auto simp: cli_Inr dest: workingTree_Inr split: if_splits)
  with img obtain img res w3 where "Service_Deploy (mc_Writers m) (upInput cfg t dep img) (w_Store w1) = (Inr res, w_Store w3)"
    and "w_Store w' = w_Store w3"
    by (auto simp: cli_Inr(1,4,6) say_def split: sum.splits) (metis world.select_convs(2) world.surjective world.update_convs(3))
  then have "deploy (upInput cfg t dep img) (mc_Writers m (fst (w_Store w1)) (snd (w_Store w1))) = Inr (res, snd (w_Store w'))"
    by (auto simp: Service_Deploy_def WithTx_def Let_def split: sum.splits prod.splits) (metis snd_conv)
  with src cli_Inr(3) [OF w0] show thesis by (auto intro: that)
qed

lemma withTarget_Inr:
  assumes "withTarget m cfg vs e s w = (Inr t, w')"
  shows "w' = w \<and> t = resolve m cfg (flagTarget vs) True (w_Disk w)"
  using assms by (auto simp: withTarget_def cli_bind_def getDisk_def cli_seq_def require_def cli_err_def cli_ok_def Let_def
      split: if_splits prod.splits sum.splits)

lemma cmdUp_Inr:
  assumes "cmdUp m cfg args w = (Inr (), w')" "parseFlags (map_of targetFlags) args = Inr (vs, [])"
  obtains spec bld dep where
    "loadSpec m (w_Disk w) (resolvePath (mc_Cwd m) FileName) = Inr spec"
    "Resolve spec (tg_Environment (resolve m cfg (flagTarget vs) True (w_Disk w))) = (bld, dep)"
    "upDeploy m cfg (resolve m cfg (flagTarget vs) True (w_Disk w)) bld dep w = (Inr (), w')"
proof -
  have "map_of targetFlags n = Some k \<Longrightarrow> map_of (targetFlags @ [(''f'', StringFlag), (''file'', StringFlag)]) n = Some k" for n k
    by (simp add: map_add_Some_iff)
  from parseFlags_more [OF this assms(2)]
  have parse: "parseArgs (targetFlags @ [(''f'', StringFlag), (''file'', StringFlag)]) args = cli_ok (vs, [])"
    by (simp add: parseArgs_def)
  have "n \<notin> set [''f'', ''file'']" if "(n, v) \<in> set vs" for n v
    using parseFlags_names [OF assms(2) that] by (auto simp: targetFlags_def projectFlags_def environmentFlags_def serviceFlags_def)
  then have fileName: "stringVar [''f'', ''file''] FileName vs = FileName"
    by (subst stringVar_def, subst lastSet_def, subst find_None_iff [THEN iffD2]) auto
  from assms(1) obtain t w1 where t: "withTarget m cfg vs True True w = (Inr t, w1)"
    and rest: "cli_bind getDisk (\<lambda>d. let fl = stringVar [''f'', ''file''] FileName vs; p = resolvePath (mc_Cwd m) fl
           in if notExist d p then cli_err (Failed (SpecMissing fl))
              else case loadSpec m d p of
                     Inl e \<Rightarrow> cli_err (Failed (SpecInvalid e))
                   | Inr spec \<Rightarrow> (let (bld, dep) = Resolve spec (tg_Environment t) in upDeploy m cfg t bld dep)) w1 = (Inr (), w')"
    unfolding cmdUp_def parse
    by (auto simp: cli_bind_def [of "cli_ok _"] cli_bind_def [of "withTarget m cfg vs True True"] cli_ok_def split: prod.splits sum.splits)
  from withTarget_Inr [OF t] rest show thesis
    by (auto simp: cli_bind_def getDisk_def Let_def fileName cli_err_def intro: that split: if_splits sum.splits prod.splits)
qed

lemma cmdConfig_says:
  assumes "parseFlags (map_of targetFlags) args = Inr (vs, rest)"
    and "loadSpec m (w_Disk w) (resolvePath (mc_Cwd m) FileName) = Inr spec"
    and "Resolve spec (tg_Environment (resolve m cfg (flagTarget vs) True (w_Disk w))) = (bld, dep)"
    and "statOK (w_Disk w) (resolvePath (mc_Cwd m) FileName)"
  shows "\<exists>ident here. cmdConfig m cfg args w
    = (Inr (), w\<lparr>w_Out := w_Out w @ [SpecReport ident here (Some (writeBuild bld, writeDeploy dep))]\<rparr>)"
  using assms by (auto simp: cmdConfig_def parseArgs_def RenderSpec_def Let_def cli_bind_def cli_ok_def getDisk_def say_def)

lemma loadSpec_exists: "loadSpec m d p = Inr spec \<Longrightarrow> nodeAt d p \<noteq> None"
  by (auto simp: loadSpec_def Load_def ReadFile_def split: option.splits if_splits)

text \<open>
  C40: What \<^verbatim>\<open>config\<close> shows is what \<^verbatim>\<open>up\<close> commits. When \<^verbatim>\<open>up\<close> with some target flags succeeds, \<^verbatim>\<open>config\<close> with
  the same arguments in the same directory reports a spec; the new current deployment has exactly the cpu,
  memory, drain window and restart limit of that report, and its only region and count are the reported
  ones, after everything other writers committed in between.
\<close>

theorem config_previews_up:
  assumes "cmdUp m cfg args w = (Inr (), w')" "parseFlags (map_of targetFlags) args = Inr (vs, [])"
    and "\<not> dk_refuses (w_Disk w) SysStat (resolvePath (mc_Cwd m) FileName)"
    and "env_keeps project_wf (mc_Writers m)" "project_wf (snd (w_Store w))"
  shows "\<exists>ident here bld dep d region n.
    cmdConfig m cfg args w = (Inr (), w\<lparr>w_Out := w_Out w @ [SpecReport ident here (Some (bld, dep))]\<rparr>)
    \<and> last (db_deployments (snd (w_Store w'))) = d \<and> dep_IsCurrent d
    \<and> {(''cpu_millicores'', itoa (dep_CpuMillicores d)), (''mem_bytes'', itoa (dep_MemBytes d)),
        (''drain_seconds'', itoa (dep_DrainSeconds d)), (''restart_max_retries'', itoa (dep_RestartMax d)),
        (''region'', region), (''num_replicas'', itoa n)} \<subseteq> set dep
    \<and> regionsOf (snd (w_Store w')) (dep_ID d) = [region \<mapsto> n]"
proof (rule cmdUp_Inr [OF assms(1,2)])
  fix spec bld dep
  let ?t = "resolve m cfg (flagTarget vs) True (w_Disk w)" and ?p = "resolvePath (mc_Cwd m) FileName"
  assume spec: "loadSpec m (w_Disk w) ?p = Inr spec" and res: "Resolve spec (tg_Environment ?t) = (bld, dep)"
    and up: "upDeploy m cfg ?t bld dep w = (Inr (), w')"
  have "statOK (w_Disk w) ?p"
    using loadSpec_exists [OF spec] assms(3) by (simp add: statOK_def)
  from cmdConfig_says [OF assms(2) spec res this] obtain ident here where
    shown: "cmdConfig m cfg args w = (Inr (), w\<lparr>w_Out := w_Out w @ [SpecReport ident here (Some (writeBuild bld, writeDeploy dep))]\<rparr>)"
    by blast
  from up obtain found ks img out where src: "serviceSource m ?t (w_Store w) = (Inr found, ks)"
    and commit: "deploy (upInput cfg ?t dep img) (mc_Writers m (fst ks) (snd ks)) = Inr (out, snd (w_Store w'))"
    by (rule upDeploy_Inr)
  have "project_wf (snd ks)"
    using run_keepsD [OF serviceSource_keeps [OF assms(4)] assms(5) src] .
  then have wf: "project_wf (mc_Writers m (fst ks) (snd ks))"
    using assms(4) by (simp add: env_keeps_def)
  obtain b d where d: "d = newDeployment (dep_ID d) (db_now (mc_Writers m (fst ks) (snd ks)))
        (deployParams (boundID b) (dres_Version out) (upInput cfg ?t dep img))"
    and fresh: "dep_ID d \<notin> dep_ID ` set (db_deployments (mc_Writers m (fst ks) (snd ks)))"
    and rows: "db_deployments (snd (w_Store w'))
        = db_deployments (retireCurrent DeploymentSuperseded (boundID b) (mc_Writers m (fst ks) (snd ks))) @ [d]"
    and regions: "regionsOf (snd (w_Store w'))
        = (regionsOf (mc_Writers m (fst ks) (snd ks)))(dep_ID d := map_of (di_Replicas (upInput cfg ?t dep img)))"
    by (rule deploy_Inr [OF commit wf], rule that, assumption+)
  obtain i where i: "d = newDeployment i (db_now (mc_Writers m (fst ks) (snd ks)))
        (deployParams (boundID b) (dres_Version out) (upInput cfg ?t dep img))"
    using d by blast
  have fields: "dep_CpuMillicores d = CPUMillicores dep" "dep_MemBytes d = MemBytes dep" "dep_IsCurrent d"
    "dep_DrainSeconds d = DrainSecondsOrDefault dep" "dep_RestartMax d = RestartMaxOrDefault dep"
    by (simp_all add: i newDeployment_def deployParams_def upInput_def)
  have "regionsOf (snd (w_Store w')) (dep_ID d) = [RegionOrDefault dep \<mapsto> ReplicasOrDefault dep]"
    unfolding regions by (simp add: upInput_def)
  moreover have "RegionOrDefault dep \<noteq> ''''"
    by (simp add: RegionOrDefault_def orStr_def DefaultRegion_def)
  ultimately show ?thesis
    using shown rows fields
    by (intro exI [of _ ident] exI [of _ here] exI [of _ "writeBuild bld"] exI [of _ "writeDeploy dep"] exI [of _ d]
        exI [of _ "RegionOrDefault dep"] exI [of _ "ReplicasOrDefault dep"]) (simp add: writeDeploy_def writeField_def)
qed

end
