(* ===== verification/CliExamples.thy ===== *)
theory CliExamples
  imports CliProperties ProjectProperties
begin

text \<open>
  A concrete machine, disk and database on which the properties of the command line are applied: a
  directory with a spec file, the shop of \<open>ProjectProperties\<close>, no other writers.
\<close>

section \<open>A codec for the link file\<close>

text \<open>Every byte escaped by a mark, another mark at the end of a field.\<close>

fun packText :: "string \<Rightarrow> string" where
  "packText [] = ''.''"
| "packText (c # cs) = CHR ''+'' # c # packText cs"

fun unpackText :: "string \<Rightarrow> (string \<times> string) option" where
  "unpackText (x # c # r) =
     (if x = CHR ''.'' then Some ('''', c # r)
      else if x = CHR ''+'' then map_option (\<lambda>(s, r). (c # s, r)) (unpackText r) else None)"
| "unpackText [x] = (if x = CHR ''.'' then Some ('''', '''') else None)"
| "unpackText [] = None"

definition demo_link :: linkCodec where
  "demo_link = \<lparr>lc_Marshal = (\<lambda>l. packText (tg_Project l) @ packText (tg_Environment l) @ packText (tg_Service l)),
     lc_Unmarshal = (\<lambda>s. case unpackText s of None \<Rightarrow> None | Some (p, s) \<Rightarrow>
        (case unpackText s of None \<Rightarrow> None | Some (e, s) \<Rightarrow>
        (case unpackText s of None \<Rightarrow> None | Some (v, _) \<Rightarrow>
           (let l = \<lparr>tg_Project = p, tg_Environment = e, tg_Service = v\<rparr> in if validTarget l then Some l else None))))\<rparr>"

lemma unpack_pack: "unpackText (packText s @ r) = Some (s, r)"
proof (induction s)
  case Nil
  show ?case by (cases r) auto
qed auto

lemma demo_link_ok: "linkCodec_ok demo_link"
  using unpack_pack [of _ "[]"]
  by (auto simp: linkCodec_ok_def demo_link_def unpack_pack Let_def validTarget_def split: option.splits if_splits)

section \<open>The machine\<close>

definition repo_spec :: Spec where
  "repo_spec = (let b = \<lparr>bd_Builder = '''', bd_Dockerfile = '''', bd_BuildCommand = '''', bd_Root = '''', bd_WatchPatterns = None\<rparr>
     in \<lparr>sc_Build = b, sc_Deploy = \<lparr>dp_StartCommand = '''', dp_NumReplicas = Some 3, dp_Region = ''us'', dp_HealthcheckPath = '''',
           dp_HealthcheckTimeout = 0, dp_RestartPolicy = '''', dp_RestartMaxRetries = 0, dp_DrainSeconds = 0,
           dp_ProgressDeadline = 0, dp_CPU = '''', dp_Memory = ''''\<rparr>, sc_Environments = []\<rparr>)"

definition demo_machine :: machine where
  "demo_machine = \<lparr>mc_Getenv = (\<lambda>_. ''''), mc_Cwd = [''repo''], mc_GetwdOK = True, mc_Stdin = None, mc_Reachable = (\<lambda>_. True),
     mc_Writers = quiet, mc_Link = demo_link, mc_MarshalSource = so_Image,
     mc_UnmarshalSource = (\<lambda>_. Some \<lparr>so_Image = '''', so_Repo = ''''\<rparr>), mc_Toml = (\<lambda>_. Some (repo_spec, [])), mc_Builder = NoOp\<rparr>"

definition demo_disk :: file_system where
  "demo_disk = \<lparr>dk_nodes = [([''repo''], Dir), ([''config.toml'', ''repo''], File ''spec''), ([''web'', ''repo''], Dir)],
     dk_refuses = (\<lambda>_ _. False)\<rparr>"

definition demo_world :: world where
  "demo_world = \<lparr>w_Disk = demo_disk, w_Store = (0, shop_db), w_Out = []\<rparr>"

definition demo_config :: Config where
  "demo_config = \<lparr>cf_DatabaseURL = DefaultDatabaseURL, cf_LogLevel = 0, cf_LogsAddr = '''', cf_Project = '''',
     cf_Environment = '''', cf_Service = '''', cf_User = ''''\<rparr>"

definition demo_target :: "string list" where
  "demo_target = [''-p'', ''p'', ''--environment=e'', ''-s'', ''web'']"

lemma demo_inits: "fst (cmdInit demo_machine demo_config [''-n'', ''blog''] demo_world) = Inr ()"
  by code_simp

lemma demo_downs:
  "fst (cmdDown demo_machine demo_config (''--yes'' # demo_target) demo_world) = Inr ()"
  "fst (w_Store (snd (cmdDown demo_machine demo_config (''--yes'' # demo_target) demo_world))) = 1"
  by code_simp+

section \<open>Deploying from the directory\<close>

lemma TrimSpace_empty: "TrimSpace [] = []"
proof -
  have "find (hasPrefix []) spaceRunes = None" "find (hasSuffix []) spaceRunes = None"
    using spaceRunes_nonempty by (auto simp: find_None_iff hasPrefix_def hasSuffix_def)
  then show ?thesis by (simp add: TrimSpace_def trimLeft.simps trimRight.simps)
qed

lemma demo_spec_loads: "loadSpec demo_machine demo_disk [''config.toml'', ''repo''] = Inr repo_spec"
  by (simp add: loadSpec_def Load_def ReadFile_def nodeAt_def demo_disk_def demo_machine_def repo_spec_def rejectUnknownKeys_def
      Spec_validate_def Build_validate_def Deploy_validate_def parseCPU_def parseMem_def TrimSpace_empty MaxReplicas_def Let_def)

definition demo_input :: DeployInput where
  "demo_input = \<lparr>di_Target = shop_target ''web'', di_ImageRef = ''conductor.local/p/web:source'', di_CPUMillicores = 250,
     di_MemBytes = 268435456, di_Env = '''', di_Healthcheck = '''', di_DrainSeconds = 30, di_RestartMax = 5,
     di_ProgressDeadline = 600, di_Replicas = [(''us'', 3)], di_CommitMessage = '''', di_CreatedBy = ''''\<rparr>"

lemma demo_input: "upInput demo_config (shop_target ''web'') (sc_Deploy repo_spec) ''conductor.local/p/web:source'' = demo_input"
  by (simp add: upInput_def demo_input_def demo_config_def repo_spec_def CPUMillicores_def MemBytes_def parseCPU_def parseMem_def
      TrimSpace_empty defaultCPUMillicores_def defaultMemBytes_def HealthcheckJSON_def DrainSecondsOrDefault_def
      RestartMaxOrDefault_def ProgressDeadlineOrDefault_def orDefaultInt32_def DefaultDrainSeconds_def DefaultRestartMax_def
      DefaultProgressDeadline_def RegionOrDefault_def orStr_def ReplicasOrDefault_def to_int32_def Let_def)

lemma demo_commits: "\<not> isl (deploy demo_input shop_db)"
  by code_simp

lemma demo_source: "serviceSource demo_machine (shop_target ''web'') (0, shop_db)
    = (Inr (Some \<lparr>ss_Stateful = False, ss_Source = \<lparr>so_Image = '''', so_Repo = ''''\<rparr>\<rparr>), (1, shop_db))"
proof -
  have "GetEnvironmentService ''p'' ''e'' ''web'' shop_db
      = Inr (\<lparr>ges_ID = 11, ges_Source = ''{}'', ges_ServiceID = 2, ges_Stateful = False\<rparr>, shop_db)"
    by (simp add: GetEnvironmentService_def q_GetEnvironmentService_def queryRow_def bindings_def targeted_def shop_db_def Let_def)
  then show ?thesis
    by (simp add: serviceSource_def demo_machine_def run_bind_def stmt_def st_def WithTx_def quiet_def run_ok_def shop_target_def)
qed

lemma demo_resolves:
  "ResolveImage NoOp (buildRequest (shop_target ''web'') (sc_Build repo_spec) ''/repo'') '''' = Inr ''conductor.local/p/web:source''"
  by code_simp

lemma demo_tree: "workingTree demo_machine (demo_world\<lparr>w_Store := ks\<rparr>) = (Inr [''repo''], demo_world\<lparr>w_Store := ks\<rparr>)"
  by (simp add: workingTree_def cli_bind_def getDisk_def FindLink_def getwd_def demo_machine_def demo_world_def demo_disk_def
      statOK_def nodeAt_def linkPath_def fileName_def DirName_def workDir_def cli_ok_def)

lemma demo_deploys:
  "fst (upDeploy demo_machine demo_config (shop_target ''web'') (sc_Build repo_spec) (sc_Deploy repo_spec) demo_world) = Inr ()"
proof -
  have "pathText [''repo''] = ''/repo''" by (simp add: pathText_def)
  moreover have "mc_Reachable demo_machine u" "mc_Builder demo_machine = NoOp" "mc_Writers demo_machine = quiet" for u
    by (simp_all add: demo_machine_def)
  moreover have "w_Store demo_world = (0, shop_db)" by (simp add: demo_world_def)
  moreover obtain res db' where "deploy demo_input shop_db = Inr (res, db')"
    using demo_commits by (cases "deploy demo_input shop_db") auto
  ultimately show ?thesis
    by (simp add: upDeploy_def cli_seq_def cli_bind_def connect_def cli_ok_def onStore_def demo_source demo_tree demo_resolves
        Service_Deploy_def WithTx_def quiet_def demo_input Let_def say_def)
qed

lemma demo_path: "resolvePath (mc_Cwd demo_machine) FileName = [''config.toml'', ''repo'']"
  by code_simp

definition demo_flags :: assignments where
  "demo_flags = [(''p'', StringValue ''p''), (''environment'', StringValue ''e''), (''s'', StringValue ''web'')]"

lemma demo_parses:
  "parseFlags (map_of targetFlags) demo_target = Inr (demo_flags, [])"
  "parseFlags (map_of (targetFlags @ [(''f'', StringFlag), (''file'', StringFlag)])) demo_target = Inr (demo_flags, [])"
  by code_simp+

lemma demo_up_target:
  "withTarget demo_machine demo_config demo_flags True True demo_world = (Inr (shop_target ''web''), demo_world)"
  by (simp add: withTarget_def cli_bind_def getDisk_def resolve_def flagTarget_def stringVar_def lastSet_def fillTarget_def
      configTarget_def demo_config_def orFallback_def LoadLink_def FindLink_def getwd_def demo_machine_def demo_world_def
      demo_disk_def demo_flags_def statOK_def nodeAt_def linkPath_def fileName_def DirName_def cli_seq_def require_def
      missingTarget_def cli_ok_def shop_target_def Let_def)

lemma demo_ups: "fst (cmdUp demo_machine demo_config demo_target demo_world) = Inr ()"
proof -
  have parse: "parseArgs (targetFlags @ [(''f'', StringFlag), (''file'', StringFlag)]) demo_target = cli_ok (demo_flags, [])"
    by (simp add: parseArgs_def demo_parses(2) del: map_of_append)
  have "stringVar [''f'', ''file''] FileName demo_flags = FileName" by code_simp
  moreover have "\<not> notExist demo_disk [''config.toml'', ''repo'']" by (simp add: notExist_def nodeAt_def demo_disk_def)
  moreover have "w_Disk demo_world = demo_disk" by (simp add: demo_world_def)
  moreover have "Resolve repo_spec e = (sc_Build repo_spec, sc_Deploy repo_spec)" for e by (simp add: Resolve_def repo_spec_def Let_def)
  ultimately show ?thesis
    using demo_deploys unfolding cmdUp_def parse
    by (simp add: cli_bind_def cli_ok_def demo_up_target getDisk_def demo_path demo_spec_loads Let_def)
qed

section \<open>Witnesses\<close>

theorem noop_image_wellformed_witness:
  "NoOp \<lparr>bq_Project = ''shop'', bq_Environment = ''e'', bq_Service = ''web-1'', bq_Repo = ''/r'', bq_Root = '''', bq_Strategy = '''',
     bq_Dockerfile = '''', bq_BuildCommand = ''''\<rparr> = Some ''conductor.local/shop/web-1:source''"
proof -
  let ?req = "\<lparr>bq_Project = ''shop'', bq_Environment = ''e'', bq_Service = ''web-1'', bq_Repo = ''/r'', bq_Root = '''', bq_Strategy = '''',
     bq_Dockerfile = '''', bq_BuildCommand = ''''\<rparr>"
  have "segment ''shop''" "segment ''web-1''"
    by (simp_all add: segment_def slugChar_def)
  with noop_image_wellformed [of ?req] show ?thesis by fastforce
qed

theorem save_is_crash_atomic_witness:
  "\<exists>d. crash_leaves (saveCalls demo_link [''repo''] (shop_target ''web'')) demo_disk d
     \<and> nodeAt d (tmpPath [''repo'']) = Some (File ''+p'')
     \<and> (LoadLink demo_link (Some [''repo'']) d = Inr None
        \<or> LoadLink demo_link (Some [''repo'']) d = Inr (Some (shop_target ''web'', [''repo''])))"
proof -
  let ?l = "shop_target ''web''" and ?dir = "[''repo'']"
  have dir: "nodeAt demo_disk ?dir = Some Dir" by (simp add: nodeAt_def demo_disk_def)
  obtain d1 where d1: "MkdirAll (DirName # ?dir) demo_disk = (True, d1)"
    by (auto simp: nodeAt_def demo_disk_def DirName_def)
  have "fst (WriteFile (tmpPath ?dir) ''+p'' (snd (MkdirAll (DirName # ?dir) demo_disk)))" by code_simp
  then obtain d2 where d2: "WriteFile (tmpPath ?dir) ''+p'' d1 = (True, d2)"
    unfolding d1 by (cases "WriteFile (tmpPath ?dir) ''+p'' d1") auto
  have torn: "crash_leaves (saveCalls demo_link ?dir ?l) demo_disk d2"
    unfolding saveCalls_def
  proof (rule crash_leaves.after)
    show "execCall (CallMkdirAll (DirName # ?dir)) demo_disk = (True, d1)" using d1 by simp
    have "take (length ''+p'') (lc_Marshal demo_link ?l) = ''+p''"
      by (simp add: demo_link_def shop_target_def)
    then show "crash_leaves [CallWriteFile (tmpPath ?dir) (lc_Marshal demo_link ?l), CallRename (tmpPath ?dir) (linkPath ?dir)] d1 d2"
      using d2 by (rule crash_leaves.torn)
  qed
  have "LoadLink demo_link (Some ?dir) demo_disk = Inr None" by code_simp
  moreover have "validTarget ?l" by code_simp
  ultimately show ?thesis
    using save_is_crash_atomic [OF torn dir demo_link_ok, of "Some ?dir"] torn write_reads [OF d2]
    by (intro exI [of _ d2]) (simp add: demo_disk_def)
qed

theorem cli_keeps_schema_witness:
  "project_wf (snd (w_Store (snd (RunControl demo_machine [''init'', ''-n'', ''blog''] demo_world))))"
  by (rule cli_keeps_schema) (simp_all add: demo_machine_def demo_world_def shop_wf)

theorem bad_invocation_touches_nothing_witness:
  "w_Store (snd (RunControl demo_machine [''volume''] demo_world)) = (0, shop_db)"
proof -
  have "fst (RunControl demo_machine [''volume''] demo_world) = 2"
    by (simp add: RunControl_def LoadConfig_def demo_machine_def control_def cmdVolume_def splitSubcommand_def hasPrefix_def
        Let_def exitCode_def cli_err_def)
  from bad_invocation_touches_nothing [OF this] show ?thesis by (simp add: demo_world_def)
qed

theorem help_unlinks_witness:
  "cmdUnlink demo_machine [''--help''] = cmdUnlink demo_machine []
   \<and> fst (cmdDown demo_machine demo_config [''--help''] demo_world) = Inl HelpShown"
  using help_unlinks [of demo_machine "[]" demo_config demo_world] by simp

theorem down_ignores_flags_after_positional_witness:
  "cmdDown demo_machine demo_config [''--yes'', ''web'', ''-e'', ''staging''] = cmdDown demo_machine demo_config [''--yes'']"
  using down_ignores_flags_after_positional [of "''web''" "[''-e'', ''staging'']" demo_machine demo_config demo_world]
  by (simp add: stops_def)

theorem down_needs_consent_witness:
  "\<exists>w' t cur. cmdDown demo_machine demo_config (''--yes'' # demo_target) demo_world = (Inr (), w') \<and> w_Out w' = [ScaledDown t]
     \<and> dep_IsCurrent cur \<and> cur \<in> set (db_deployments shop_db)
     \<and> regionsOf (snd (w_Store w')) (dep_ID cur) = map_option (\<lambda>_. 0) \<circ> regionsOf shop_db (dep_ID cur)"
proof -
  let ?run = "cmdDown demo_machine demo_config (''--yes'' # demo_target) demo_world"
  obtain w' where w': "?run = (Inr (), w')" "fst (w_Store w') = 1"
    using demo_downs by (cases ?run) auto
  have start: "w_Store demo_world = (0, shop_db)" "w_Out demo_world = []" "mc_Writers demo_machine = quiet"
    by (simp_all add: demo_world_def demo_machine_def)
  with w'(2) have "w_Store w' \<noteq> w_Store demo_world" by auto
  from down_needs_consent [OF w'(1) this] obtain t where
    "w_Out w' = w_Out demo_world @ [ScaledDown t]
     \<and> (\<exists>b \<in> set (bindings shop_db). \<exists>cur \<in> set (deploymentsOf shop_db (es_ID (fst b))). dep_IsCurrent cur
          \<and> regionsOf (snd (w_Store w')) = (regionsOf shop_db)(dep_ID cur := map_option (\<lambda>_. 0) \<circ> regionsOf shop_db (dep_ID cur)))"
    unfolding start(1,3) quiet_def Let_def fst_conv snd_conv by (simp only: if_True simp_thms) blast
  then obtain cur b where "w_Out w' = [ScaledDown t]" "b \<in> set (bindings shop_db)" "dep_IsCurrent cur"
    "cur \<in> set (deploymentsOf shop_db (es_ID (fst b)))"
    "regionsOf (snd (w_Store w')) = (regionsOf shop_db)(dep_ID cur := map_option (\<lambda>_. 0) \<circ> regionsOf shop_db (dep_ID cur))"
    unfolding start(2) append_Nil by blast
  with w'(1) show ?thesis by (auto simp: deploymentsOf_def)
qed

theorem init_serves_subtree_witness:
  "\<exists>w'. cmdInit demo_machine demo_config [''-n'', ''blog''] demo_world = (Inr (), w')
     \<and> resolve (demo_machine\<lparr>mc_Cwd := [''web'', ''repo'']\<rparr>) demo_config (flagTarget []) True (w_Disk w')
       = \<lparr>tg_Project = ''blog'', tg_Environment = ''production'', tg_Service = ''''\<rparr>"
proof -
  obtain w' where w': "cmdInit demo_machine demo_config [''-n'', ''blog''] demo_world = (Inr (), w')"
    using demo_inits by (cases "cmdInit demo_machine demo_config [''-n'', ''blog''] demo_world") auto
  have simps: "mc_Link demo_machine = demo_link" "mc_Cwd demo_machine = [''repo'']" "w_Disk demo_world = demo_disk"
    by (simp_all add: demo_machine_def demo_world_def)
  have "\<exists>name. w_Out w' = w_Out demo_world @ [CreatedProject name (linkPath (mc_Cwd demo_machine))]
    \<and> (validUTF8 name \<longrightarrow> resolve (demo_machine\<lparr>mc_Cwd := [''web''] @ mc_Cwd demo_machine\<rparr>) demo_config (flagTarget []) True (w_Disk w')
        = \<lparr>tg_Project = name, tg_Environment = LinkEnvironment, tg_Service = ''''\<rparr>)
    \<and> fst (verifyTarget quiet \<lparr>tg_Project = name, tg_Environment = LinkEnvironment, tg_Service = ''''\<rparr> (w_Store w')) = Inr ()"
  proof (rule init_serves_subtree [OF w'])
    fix k :: path
    assume "k \<noteq> []" "\<exists>a. a @ k = [''web'']"
    then have "k = [''web'']" by (auto simp: append_eq_Cons_conv)
    then show "\<not> statOK (w_Disk demo_world) (linkPath (k @ mc_Cwd demo_machine))"
      by (simp add: simps statOK_def nodeAt_def demo_disk_def linkPath_def fileName_def)
  qed (simp_all add: simps demo_link_ok nodeAt_def demo_disk_def configTarget_def demo_config_def)
  moreover have "w_Out (snd (cmdInit demo_machine demo_config [''-n'', ''blog''] demo_world))
      = [CreatedProject ''blog'' (linkPath [''repo''])]" by code_simp
  moreover have "validUTF8 ''blog''" by code_simp
  ultimately show ?thesis using w' by (auto simp: simps LinkEnvironment_def demo_world_def)
qed

theorem config_previews_up_witness:
  "\<exists>w' ident here bld dep d. cmdUp demo_machine demo_config demo_target demo_world = (Inr (), w')
     \<and> w_Out (snd (cmdConfig demo_machine demo_config demo_target demo_world)) = [SpecReport ident here (Some (bld, dep))]
     \<and> last (db_deployments (snd (w_Store w'))) = d \<and> (''cpu_millicores'', itoa (dep_CpuMillicores d)) \<in> set dep"
proof -
  obtain w' where w': "cmdUp demo_machine demo_config demo_target demo_world = (Inr (), w')"
    using demo_ups by (cases "cmdUp demo_machine demo_config demo_target demo_world") auto
  have "\<not> dk_refuses (w_Disk demo_world) SysStat (resolvePath (mc_Cwd demo_machine) FileName)"
    "env_keeps project_wf (mc_Writers demo_machine)" "project_wf (snd (w_Store demo_world))" "w_Out demo_world = []"
    by (simp_all add: demo_world_def demo_disk_def demo_machine_def shop_wf)
  note hyps = this
  from config_previews_up [OF w' demo_parses(1) hyps(1-3)] obtain ident here bld dep d region n where
    config: "cmdConfig demo_machine demo_config demo_target demo_world
        = (Inr (), demo_world\<lparr>w_Out := w_Out demo_world @ [SpecReport ident here (Some (bld, dep))]\<rparr>)"
    and d: "last (db_deployments (snd (w_Store w'))) = d" "{(''cpu_millicores'', itoa (dep_CpuMillicores d)), (''mem_bytes'', itoa (dep_MemBytes d)),
        (''drain_seconds'', itoa (dep_DrainSeconds d)), (''restart_max_retries'', itoa (dep_RestartMax d)),
        (''region'', region), (''num_replicas'', itoa n)} \<subseteq> set dep"
    by (elim exE conjE) (rule that, assumption+)
  have "w_Out (snd (cmdConfig demo_machine demo_config demo_target demo_world)) = [SpecReport ident here (Some (bld, dep))]"
    unfolding config by (simp add: hyps(4))
  moreover have "(''cpu_millicores'', itoa (dep_CpuMillicores d)) \<in> set dep"
    by (rule d(2) [unfolded insert_subset, THEN conjunct1])
  ultimately show ?thesis
    using w' d(1) by (intro exI [of _ w'] exI [of _ ident] exI [of _ here] exI [of _ bld] exI [of _ dep] exI [of _ d] conjI)
qed

end
