(* ===== verification/Spec2Isabelle.thy ===== *)
theory Spec2Isabelle
  imports Reconcile Snapshot Watchdog Supervisor Deployspec LogStream OperatorTransitions AgentLife DownlinkSystem CliExamples
begin

text \<open>
  Verification of the control plane of the-conductor, a container orchestrator written in Go.

  \<^bold>\<open>The program.\<close> A Postgres database holds what operators want (projects, services, deployments with
  replica counts per region, volumes with desired sizes) and what agents report (hosts, replica phases,
  observed sizes). Three processes work on it. The \<^emph>\<open>engine\<close> (\<^verbatim>\<open>internal/engine\<close>) runs a loop: sweep the
  hosts that fell silent, read the whole fleet in one transaction, decide a list of intents, apply each in
  a transaction of its own that checks again what the decision relied on. The \<^emph>\<open>apiserver\<close>
  (\<^verbatim>\<open>internal/api\<close>) takes the operators' requests over HTTP and the agents' reports over a gRPC stream,
  and pushes to each agent the full state of its host. The \<^emph>\<open>agents\<close> (\<^verbatim>\<open>agentsim\<close>, a simulated fleet)
  converge to what they are told and report. The command line calls \<^verbatim>\<open>internal/project\<close>, as the apiserver does.

  \<^bold>\<open>Foundations.\<close>
  \<^item> \<open>Prelude\<close>: identifiers and instants, the state-and-error operations \<open>op\<close> a storage function becomes, what
    it means that one keeps an invariant (\<open>op_keeps\<close>), the stable sort of package slices with its contract as
    the locale \<open>comparison\<close>, and facts on lists and sums. \<open>GoNum\<close>: the conversions to int32 and int64 and
    float64 as rounded rationals. \<open>GoStrings\<close>: the string functions the parsers use.
  \<^item> \<open>Domain\<close> (\<^verbatim>\<open>internal/domain\<close>) and \<open>Config\<close> (\<^verbatim>\<open>internal/config\<close>): lifecycle enumerations, the meaning of
    a volume's two sizes, the placement knobs.
  \<^item> \<open>Transactions\<close>: a component as a sequence of transactions \<open>steps\<close>, between which \<open>env\<close> - any other
    writers - changes the database (\<open>WithTx\<close>); \<open>quiet\<close> is nobody else; \<open>run_keeps\<close> lifts invariants.

  \<^bold>\<open>The engine.\<close>
  \<^item> \<open>EngineTypes\<close>, \<open>Rules\<close>, \<open>RulesCorrect\<close> (\<^verbatim>\<open>reconciler.go\<close>): bucketing the snapshot into replica groups and
    the twelve rules in their three cascades. Lemmas: exactly when traffic switches (a replica frozen in failure
    holds its slot), who may be destroyed, that live capacity never dips below the desired count in an
    evacuation, that an idle group has converged or waits for drain windows.
  \<^item> \<open>Placer\<close>, \<open>PickCorrect\<close>, \<open>PlacementCorrect\<close>, \<open>Reconcile\<close> (\<^verbatim>\<open>placer.go\<close>, \<^verbatim>\<open>volumes.go\<close>): the host ledger,
    the score, the choice of a host and its optimality, the batch of hostless replicas, volumes and grows;
    no pass exceeds cpu, memory or the disk budget of a host.
  \<^item> \<open>Schema\<close>, \<open>ReconcileQueries\<close> (\<^verbatim>\<open>storage/db\<close>, \<^verbatim>\<open>storage/reconcile.go\<close>): the tables as lists of rows, the
    constraints of the migrations as the invariant \<open>db_wf\<close>, the triggers, every statement of the reconcile
    transaction with its guards, and that each keeps \<open>db_wf\<close>.
  \<^item> \<open>Actuator\<close>, \<open>ActuatorCorrect\<close> (\<^verbatim>\<open>actuator.go\<close>): the interface \<^verbatim>\<open>ReconcileTx\<close> with its contract as the locale
    \<open>reconcile_tx\<close>, interpreted on the database; committing an intent keeps capacity and single-writer leases,
    a traffic switch is atomic, a lost race is dropped.
  \<^item> \<open>Snapshot\<close> (\<^verbatim>\<open>snapshot.go\<close>, \<^verbatim>\<open>engine.go\<close>): the reads, and the composition of a whole pass.
  \<^item> \<open>SensorQueries\<close>, \<open>Watchdog\<close> (\<^verbatim>\<open>sensor.go\<close>, \<^verbatim>\<open>watchdog.go\<close>): the locale \<open>watchdog_store\<close>; the sweep refines
    a one-step specification; with its committed transactions recorded (\<open>tracedStore\<close>) and any other writers in
    between, each of them frees replicas of hosts only that are silent when it runs. \<open>Supervisor\<close> (\<^verbatim>\<open>engine.go\<close>, \<^verbatim>\<open>supervisor.go\<close>): when the loops give up.

  \<^bold>\<open>The operator's side.\<close>
  \<^item> \<open>ProjectQueries\<close>, \<open>Project\<close>, \<open>ProjectCorrect\<close>, \<open>ProjectKeeps\<close>, \<open>ProjectProperties\<close>, \<open>VolumeLife\<close>
    (\<^verbatim>\<open>internal/project\<close> and its statements): deploy, rollback, scale, volumes; the invariant \<open>project_wf\<close>
    (\<open>db_wf\<close> and the constraints between deployments and their counts), kept by every command; round trips of
    rollback and of a parked grow; the answer to a grow request is the engine's first verdict.
  \<^item> \<open>Deployspec\<close> (\<^verbatim>\<open>internal/deployspec\<close>): the resource parsers, validation and overrides.
  \<^item> \<open>ControlPlaneQueries\<close>, \<open>OperatorViews\<close>, \<open>OperatorViewsCorrect\<close> (\<^verbatim>\<open>storage/controlplane.go\<close>, \<^verbatim>\<open>topology.go\<close>,
    \<^verbatim>\<open>hosts.go\<close>, \<^verbatim>\<open>placement.go\<close>): what the user interface shows; the usage shown is the placer's ledger, and a
    replica has a placement blocker exactly when the placer has no host for it.
  \<^item> \<open>OperatorApi\<close>, \<open>OperatorApiCorrect\<close>, \<open>OperatorTransitions\<close> (\<^verbatim>\<open>desiredstate.go\<close>, \<^verbatim>\<open>operatorapi.go\<close>):
    requests, validation, handlers and routes (\<open>serve\<close>); a request answered 400, 404 or 409 changes nothing, every
    request keeps \<open>project_wf\<close>, the host routes refine the machine \<open>hostStep\<close>.

  \<^bold>\<open>The agents' side.\<close>
  \<^item> \<open>AgentApi\<close>, \<open>AgentApiCorrect\<close> (\<^verbatim>\<open>agentapi.go\<close>, \<^verbatim>\<open>observedstate.go\<close>, \<^verbatim>\<open>server.go\<close>): the uplink, the state of
    a host, mailbox and registry of sessions, the start-up loops. \<open>downlinks\<close> is the step relation of one
    host's downlink, with the push mutex, and \<open>streams\<close> that of the registry; invariants by rule induction.
  \<^item> \<open>Notifications\<close> (the notification triggers of the migrations, \<^verbatim>\<open>storage/notify.go\<close>), \<open>DownlinkSystem\<close>: what a
    change of the database notifies; the LISTEN connection and its callbacks; \<open>wired\<close>, the step relation of database,
    listener, apiserver and one stream, whose invariant is that an old picture is left only while a push is owed.
  \<^item> \<open>AgentSim\<close>, \<open>AgentSimCorrect\<close>, \<open>AgentLife\<close> (\<^verbatim>\<open>agentsim\<close>): an agent, its chaos knobs, the fleet; agent and apiserver
    composed: a placement becomes a healthy replica, an approved grow is carried out, and over streams that break
    and reconnect no message is refused.
  \<^item> \<open>Logbuf\<close>, \<open>LogStream\<close> (\<^verbatim>\<open>internal/logbuf\<close>): the ring refines a log that forgets; the stream over HTTP, with
    writes cut off anywhere, gives its client consecutive records of the log with the texts they were written with.

  \<^bold>\<open>The command line.\<close> Its process and what it acts on are the records \<open>machine\<close> (environment, working
  directory, standard input, decoders, the other writers) and \<open>world\<close> (disk, database with its transactions counted, output).
  \<^item> \<open>GoFlags\<close> (packages \<^verbatim>\<open>flag\<close> and \<^verbatim>\<open>strconv\<close>), \<open>Settings\<close> (the environment half of \<^verbatim>\<open>internal/config\<close>, log
    levels), \<open>Builder\<close> (\<^verbatim>\<open>builder\<close>), \<open>StatusView\<close> (\<^verbatim>\<open>internal/status\<close>).
  \<^item> \<open>Disk\<close>, \<open>FolderLink\<close> (\<^verbatim>\<open>os\<close>, \<^verbatim>\<open>internal/link\<close>): files and directories, saving a link as the list of its calls,
    any prefix of which a crash may leave; what the JSON codec promises of targets in valid UTF-8 is \<open>linkCodec_ok\<close>. A save
    of such a target cut short leaves every directory with its old target or the saved one.
  \<^item> \<open>Cli\<close>, \<open>CliCommands\<close> (\<^verbatim>\<open>cmd/control\<close>, \<^verbatim>\<open>internal/spec\<close>): resolving the target, loading the spec, one
    definition per command, the dispatcher \<open>control\<close> and \<open>RunControl\<close> with its exit codes.
  \<^item> \<open>CliCorrect\<close>, \<open>CliUsage\<close>, \<open>CliProperties\<close>, \<open>CliExamples\<close>: every invocation keeps \<open>project_wf\<close>; one that exits
    with 2 has touched nothing; \<^verbatim>\<open>down\<close> needs consent and preserves all but the counts; \<^verbatim>\<open>init\<close> serves the directories below; \<^verbatim>\<open>config\<close> previews \<^verbatim>\<open>up\<close>; a concrete machine.

  \<^bold>\<open>Decisions.\<close> A \<^verbatim>\<open>uuid.UUID\<close> is a 128-bit word; times and durations are nanoseconds, the zero time is 0 and
  \<^verbatim>\<open>Time.Sub\<close> saturates. SQL integers are unbounded, Go conversions to int32 and int64 are written out. A
  float64 is a rational rounded by \<open>round64\<close>; NaN and infinities do not arise. A Go map is the list of its
  entries, and where its iteration order could matter the order is a parameter. Errors are values of a sum,
  carrying the sentinel they wrap and not their text. \<open>now()\<close> is \<open>db_now\<close>, constant in a transaction;
  \<open>gen_random_uuid\<close> is a stream of the database, assumed fresh where a theorem needs it. A transaction is
  atomic, and anything may commit between two. A statement fails for what it finds in the database; the failures
  of connection and context are the errors of \<open>connect\<close>, and those of \<open>ResizeVolumeIn\<close>, the one write with
  statements of its own behind it: elsewhere such a failure rolls back the one transaction it hits. Text is ordered by bytes. A request is what the JSON decoder,
  and an identifier what \<^verbatim>\<open>uuid.Parse\<close>, made of it; the protobuf encoder with SHA-256 is the parameter \<open>digest\<close>.

  \<^bold>\<open>Bounds.\<close> The retry loops are \<open>partial_function\<close>s, proved to return within their bounds (five failures to
  bind, thirty to register), and so is the send loop of a mailbox; no theorem relies on fuel.

  \<^bold>\<open>Not modelled.\<close> Log lines, the text of errors and usages, the alignment of columns, HTTP headers and servers,
  the goroutines of gRPC streams other than by the step relations, the connection pool, the entry points of the
  servers (\<^verbatim>\<open>main.go\<close>, \<^verbatim>\<open>cmd/engine\<close>, \<^verbatim>\<open>cmd/apiserver\<close>, \<^verbatim>\<open>cmd/agentsim\<close>: they parse the flags of the placement knobs,
  addresses and ticks, and start the modelled loops), generated protobuf code and the user interface in
  TypeScript. The TOML and JSON decoders and the image backends are parameters.
\<close>

end
